(* ===== verification/Prelude.thy ===== *)
theory Prelude
  imports Main "HOL-Library.Word" "HOL-Library.Multiset" "HOL-Library.List_Lexorder"
begin

text \<open>
  Shared vocabulary of the development: JavaScript strings as sequences of UTF-16 code
  units, JavaScript numbers as IEEE-754 binary64 bit patterns, decimal index strings,
  results that are either an error or a value, and the generic lemmas on lists the
  component theories use.
\<close>

unbundle bit_operations_syntax

named_theorems tag_simps \<open>facts that decide equalities and prefixes between protocol tags\<close>
named_theorems res_simps \<open>facts that take apart sequenced fallible computations\<close>

section \<open>Strings\<close>

type_synonym js_string = "16 word list"

definition js :: "string \<Rightarrow> js_string" where
  "js s = map of_char s"

definition starts_with :: "js_string \<Rightarrow> js_string \<Rightarrow> bool" where
  "starts_with s p \<longleftrightarrow> take (length p) s = p"

lemma of_char_word16_inject [simp]: "(of_char c :: 16 word) = of_char d \<longleftrightarrow> c = d"
proof
  assume h: "(of_char c :: 16 word) = of_char d"
  have b: "(of_char e :: nat) < 2 ^ 16" for e
    by (rule less_trans [OF nat_of_char_less_256]) simp
  have u: "unat (of_char e :: 16 word) = of_char e" for e
  proof -
    have "unat (of_nat (of_char e) :: 16 word) = of_char e"
      by (rule of_nat_inverse [OF refl]) (use b [of e] in simp)
    then show ?thesis by (simp only: of_nat_of_char)
  qed
  from h have "unat (of_char c :: 16 word) = unat (of_char d :: 16 word)" by simp
  then have "(of_char c :: nat) = of_char d" by (simp only: u)
  then show "c = d" by simp
qed simp

lemma js_inject [simp]: "js a = js b \<longleftrightarrow> a = b"
  unfolding js_def by (rule inj_map_eq_map) (simp add: inj_def)

lemma js_Nil_iff [simp]: "js s = [] \<longleftrightarrow> s = []" "[] = js s \<longleftrightarrow> s = []"
  by (auto simp: js_def)

lemma length_js [simp]: "length (js s) = length s"
  by (simp add: js_def)

lemma starts_with_js [simp]: "starts_with (js s) (js p) \<longleftrightarrow> take (length p) s = p"
proof -
  have "starts_with (js s) (js p) \<longleftrightarrow> js (take (length p) s) = js p"
    by (simp add: starts_with_def js_def take_map)
  then show ?thesis by simp
qed

lemma starts_with_js_self [simp]: "starts_with s s"
  by (simp add: starts_with_def)

section \<open>Numbers\<close>

text \<open>
  A JavaScript number is the bit pattern of an IEEE-754 binary64 value: sign bit 63,
  exponent bits 62 to 52, fraction bits 51 to 0. It is finite unless every exponent bit is
  set, and NaN when in addition the fraction is not zero.
\<close>

type_synonym js_number = "64 word"

definition num_exponent :: "js_number \<Rightarrow> js_number" where
  "num_exponent x = drop_bit 52 x AND 0x7FF"

definition num_finite :: "js_number \<Rightarrow> bool" where
  "num_finite x \<longleftrightarrow> num_exponent x \<noteq> 0x7FF"

definition num_is_nan :: "js_number \<Rightarrow> bool" where
  "num_is_nan x \<longleftrightarrow> num_exponent x = 0x7FF \<and> x AND 0xFFFFFFFFFFFFF \<noteq> 0"

definition num_pos_zero :: js_number where
  "num_pos_zero = 0"

definition num_neg_zero :: js_number where
  "num_neg_zero = 0x8000000000000000"

text \<open>\<open>Object.is\<close> on numbers: the two zeros differ, any NaN is the same as any NaN.\<close>

definition num_object_is :: "js_number \<Rightarrow> js_number \<Rightarrow> bool" where
  "num_object_is x y \<longleftrightarrow> x = y \<or> num_is_nan x \<and> num_is_nan y"

lemma num_finite_not_nan: "num_finite x \<Longrightarrow> \<not> num_is_nan x"
  by (simp add: num_finite_def num_is_nan_def)

lemma num_object_is_finite: "num_finite x \<Longrightarrow> num_object_is x y \<longleftrightarrow> x = y"
  by (auto simp: num_object_is_def num_finite_not_nan)

section \<open>Decimal spelling of indexes\<close>

fun nat_digits :: "nat \<Rightarrow> nat list" where
  "nat_digits n = (if n < 10 then [n] else nat_digits (n div 10) @ [n mod 10])"

declare nat_digits.simps [simp del]

definition digit_unit :: "nat \<Rightarrow> 16 word" where
  "digit_unit d = of_nat (48 + d)"

text \<open>\<open>String(n)\<close> for a non-negative safe integer.\<close>

definition nat_str :: "nat \<Rightarrow> js_string" where
  "nat_str n = map digit_unit (nat_digits n)"

lemma nat_digits_lt: "\<forall>d \<in> set (nat_digits n). d < 10"
proof (induction n rule: nat_digits.induct)
  case (1 n)
  then show ?case by (subst nat_digits.simps) auto
qed

lemma nat_digits_value: "foldl (\<lambda>a d. 10 * a + d) 0 (nat_digits n) = n"
proof (induction n rule: nat_digits.induct)
  case (1 n)
  then show ?case by (subst nat_digits.simps) auto
qed

lemma digit_unit_inj_on: "inj_on digit_unit {d. d < 10}"
proof (rule inj_onI)
  fix a b :: nat
  assume a: "a \<in> {d. d < 10}" and b: "b \<in> {d. d < 10}" and e: "digit_unit a = digit_unit b"
  have u: "unat (of_nat (48 + d) :: 16 word) = 48 + d" if "d < 10" for d :: nat
    using that by (simp only: unat_of_nat) simp
  from e have "unat (of_nat (48 + a) :: 16 word) = unat (of_nat (48 + b) :: 16 word)"
    by (simp only: digit_unit_def)
  then have "48 + a = 48 + b" using a b by (simp only: u mem_Collect_eq)
  then show "a = b" by simp
qed

lemma nat_str_inject [simp]: "nat_str m = nat_str n \<longleftrightarrow> m = n"
proof
  assume "nat_str m = nat_str n"
  then have "nat_digits m = nat_digits n"
    unfolding nat_str_def
    by (rule map_inj_on) (use nat_digits_lt in \<open>auto intro: inj_on_subset [OF digit_unit_inj_on]\<close>)
  then show "m = n" by (metis nat_digits_value)
qed simp

section \<open>Results\<close>

text \<open>\<open>Inl\<close> carries what the source throws, \<open>Inr\<close> what it returns.\<close>

definition rbind :: "'e + 'a \<Rightarrow> ('a \<Rightarrow> 'e + 'b) \<Rightarrow> 'e + 'b" where
  "rbind r f = (case r of Inl e \<Rightarrow> Inl e | Inr a \<Rightarrow> f a)"

definition rguard :: "bool \<Rightarrow> 'e \<Rightarrow> 'e + unit" where
  "rguard b e = (if b then Inr () else Inl e)"

primrec traverse :: "('a \<Rightarrow> 'e + 'b) \<Rightarrow> 'a list \<Rightarrow> 'e + 'b list" where
  "traverse f [] = Inr []"
| "traverse f (x # xs) = rbind (f x) (\<lambda>y. rbind (traverse f xs) (\<lambda>ys. Inr (y # ys)))"

lemma rbind_simps [simp]: "rbind (Inl e) f = Inl e" "rbind (Inr a) f = f a"
  by (simp_all add: rbind_def)

lemma rguard_simps [simp]: "rguard True e = Inr ()" "rguard False e = Inl e"
  by (simp_all add: rguard_def)

lemma rbind_cong [fundef_cong]:
  "r = s \<Longrightarrow> (\<And>a. s = Inr a \<Longrightarrow> f a = g a) \<Longrightarrow> rbind r f = rbind s g"
  by (cases s) auto

lemma rbind_Inr_iff [res_simps]: "rbind r f = Inr b \<longleftrightarrow> (\<exists>a. r = Inr a \<and> f a = Inr b)"
  by (cases r) auto

lemma rbind_Inl_iff: "rbind r f = Inl e \<longleftrightarrow> r = Inl e \<or> (\<exists>a. r = Inr a \<and> f a = Inl e)"
  by (cases r) auto

lemma rguard_Inr_iff [res_simps]: "rguard b e = Inr u \<longleftrightarrow> b"
  by (cases b) auto

lemma rguard_Inl_iff: "rguard b e = Inl e' \<longleftrightarrow> \<not> b \<and> e' = e"
  by (cases b) auto

lemma traverse_cong [fundef_cong]:
  "xs = ys \<Longrightarrow> (\<And>x. x \<in> set ys \<Longrightarrow> f x = g x) \<Longrightarrow> traverse f xs = traverse g ys"
  by (induction ys arbitrary: xs) auto

lemma traverse_Inr_iff: "traverse f xs = Inr ys \<longleftrightarrow> list_all2 (\<lambda>x y. f x = Inr y) xs ys"
proof (induction xs arbitrary: ys)
  case Nil
  show ?case by auto
next
  case (Cons x xs)
  then show ?case by (auto simp: rbind_Inr_iff list_all2_Cons1)
qed

lemma traverse_total: "(\<And>x. x \<in> set xs \<Longrightarrow> f x = Inr (g x)) \<Longrightarrow> traverse f xs = Inr (map g xs)"
  by (induction xs) auto

lemma traverse_append:
  "traverse f (xs @ ys) = rbind (traverse f xs) (\<lambda>a. rbind (traverse f ys) (\<lambda>b. Inr (a @ b)))"
  by (induction xs) (auto simp: rbind_def split: sum.splits)

section \<open>Association lists in insertion order\<close>

lemma map_of_append_absent: "k \<notin> fst ` set xs \<Longrightarrow> map_of (xs @ ys) k = map_of ys k"
  by (induction xs) auto

lemma map_of_list_update_other:
  assumes "i < length xs" and "fst (xs ! i) = k" and "k \<noteq> k'"
  shows "map_of (xs[i := (k, v)]) k' = map_of xs k'"
  using assms
proof (induction xs arbitrary: i)
  case (Cons x xs)
  then show ?case by (cases i) (auto simp: fun_upd_def split: nat.splits)
qed simp

lemma distinct_map_fst_update:
  assumes "i < length xs" and "fst (xs ! i) = k"
  shows "map fst (xs[i := (k, v)]) = map fst xs"
  using assms by (metis fst_conv list_update_id map_update nth_map)

text \<open>Writing one field of a record: in place when present, appended otherwise.\<close>

fun put_field :: "'k \<Rightarrow> 'a \<Rightarrow> ('k \<times> 'a) list \<Rightarrow> ('k \<times> 'a) list" where
  "put_field k v [] = [(k, v)]"
| "put_field k v ((k', v') # es) = (if k' = k then (k, v) # es else (k', v') # put_field k v es)"

lemma put_field_lookup [simp]: "map_of (put_field k v es) k' = (if k' = k then Some v else map_of es k')"
  by (induction es) auto

lemma put_field_fst: "fst ` set (put_field k v es) = insert k (fst ` set es)"
proof (induction es)
  case (Cons e es)
  then show ?case by (cases e) (simp add: insert_commute)
qed simp

lemma put_field_fresh: "k \<notin> fst ` set es \<Longrightarrow> put_field k v es = es @ [(k, v)]"
  by (induction es) auto

lemma put_field_distinct: "distinct (map fst (put_field k v es)) \<longleftrightarrow> distinct (map fst es)"
proof (induction es)
  case (Cons e es)
  then show ?case using put_field_fst [of k v es] by (cases e) (auto simp: image_def)
qed simp

lemma put_field_sum:
  "sum_list (map f (put_field k v es)) + (case map_of es k of None \<Rightarrow> 0 | Some u \<Rightarrow> f (k, u)) =
   sum_list (map f es) + (f (k, v) :: nat)"
  by (induction es) (auto split: option.splits)

end
