(* ===== verification/Hson_Core.thy ===== *)
theory Hson_Core
  imports Prelude
begin

text \<open>
  The canonical node graph: protocol constants, primitives, attribute values, nodes, the
  shallow guards on nodes, the unquoted-name grammar, the compact node factory and the
  shallow structural classification of ordinary nodes (\<open>core/constants.ts\<close>,
  \<open>core/types.ts\<close>, \<open>core/node-guards.ts\<close>, \<open>core/hson-name.ts\<close>, \<open>core/factories.ts\<close>,
  \<open>core/hson-number.ts\<close>, \<open>core/hson-structural-mode.ts\<close>).
\<close>

section \<open>Protocol constants\<close>

definition STR_TAG :: js_string where "STR_TAG = js ''_hson_str''"
definition VAL_TAG :: js_string where "VAL_TAG = js ''_hson_val''"
definition ROOT_TAG :: js_string where "ROOT_TAG = js ''_hson_root''"
definition II_TAG :: js_string where "II_TAG = js ''_hson_ii''"
definition OBJ_TAG :: js_string where "OBJ_TAG = js ''_hson_obj''"
definition ARR_TAG :: js_string where "ARR_TAG = js ''_hson_arr''"
definition ELEM_TAG :: js_string where "ELEM_TAG = js ''_hson_elem''"
definition HSON_SYS_PREFIX :: js_string where "HSON_SYS_PREFIX = js ''_hson_''"
definition HSON_META_MARKUP_PREFIX :: js_string where "HSON_META_MARKUP_PREFIX = js ''hson:''"
definition HSON_META_INDEX :: js_string where "HSON_META_INDEX = js ''index''"
definition HSON_META_QUID :: js_string where "HSON_META_QUID = js ''quid''"
definition HSON_META_TRANSIT_PREFIX :: js_string where
  "HSON_META_TRANSIT_PREFIX = js ''_hson_meta_attr_v2_''"
definition TRANSIT_PREFIX :: js_string where "TRANSIT_PREFIX = js ''_hson_attr_transit_v1_''"

definition EVERY_VSN :: "js_string list" where
  "EVERY_VSN = [II_TAG, ARR_TAG, ELEM_TAG, OBJ_TAG, STR_TAG, VAL_TAG, ROOT_TAG]"

definition ELEM_OBJ_ARR :: "js_string list" where
  "ELEM_OBJ_ARR = [ELEM_TAG, ARR_TAG, OBJ_TAG]"

lemmas tag_defs = STR_TAG_def VAL_TAG_def ROOT_TAG_def II_TAG_def OBJ_TAG_def ARR_TAG_def ELEM_TAG_def

lemma tags_distinct [simp]:
  "distinct [II_TAG, ARR_TAG, ELEM_TAG, OBJ_TAG, STR_TAG, VAL_TAG, ROOT_TAG]"
  by (simp add: tag_defs)

lemma tags_neq [simp]:
  "STR_TAG \<noteq> VAL_TAG" "STR_TAG \<noteq> ROOT_TAG" "STR_TAG \<noteq> II_TAG" "STR_TAG \<noteq> OBJ_TAG"
  "STR_TAG \<noteq> ARR_TAG" "STR_TAG \<noteq> ELEM_TAG" "VAL_TAG \<noteq> STR_TAG" "VAL_TAG \<noteq> ROOT_TAG"
  "VAL_TAG \<noteq> II_TAG" "VAL_TAG \<noteq> OBJ_TAG" "VAL_TAG \<noteq> ARR_TAG" "VAL_TAG \<noteq> ELEM_TAG"
  "ROOT_TAG \<noteq> STR_TAG" "ROOT_TAG \<noteq> VAL_TAG" "ROOT_TAG \<noteq> II_TAG" "ROOT_TAG \<noteq> OBJ_TAG"
  "ROOT_TAG \<noteq> ARR_TAG" "ROOT_TAG \<noteq> ELEM_TAG" "II_TAG \<noteq> STR_TAG" "II_TAG \<noteq> VAL_TAG"
  "II_TAG \<noteq> ROOT_TAG" "II_TAG \<noteq> OBJ_TAG" "II_TAG \<noteq> ARR_TAG" "II_TAG \<noteq> ELEM_TAG"
  "OBJ_TAG \<noteq> STR_TAG" "OBJ_TAG \<noteq> VAL_TAG" "OBJ_TAG \<noteq> ROOT_TAG" "OBJ_TAG \<noteq> II_TAG"
  "OBJ_TAG \<noteq> ARR_TAG" "OBJ_TAG \<noteq> ELEM_TAG" "ARR_TAG \<noteq> STR_TAG" "ARR_TAG \<noteq> VAL_TAG"
  "ARR_TAG \<noteq> ROOT_TAG" "ARR_TAG \<noteq> II_TAG" "ARR_TAG \<noteq> OBJ_TAG" "ARR_TAG \<noteq> ELEM_TAG"
  "ELEM_TAG \<noteq> STR_TAG" "ELEM_TAG \<noteq> VAL_TAG" "ELEM_TAG \<noteq> ROOT_TAG" "ELEM_TAG \<noteq> II_TAG"
  "ELEM_TAG \<noteq> OBJ_TAG" "ELEM_TAG \<noteq> ARR_TAG"
  using tags_distinct by auto

lemma tags_sys [simp]:
  "starts_with STR_TAG HSON_SYS_PREFIX" "starts_with VAL_TAG HSON_SYS_PREFIX"
  "starts_with ROOT_TAG HSON_SYS_PREFIX" "starts_with II_TAG HSON_SYS_PREFIX"
  "starts_with OBJ_TAG HSON_SYS_PREFIX" "starts_with ARR_TAG HSON_SYS_PREFIX"
  "starts_with ELEM_TAG HSON_SYS_PREFIX"
  by (simp_all add: tag_defs HSON_SYS_PREFIX_def)

lemma meta_keys_neq [simp]:
  "HSON_META_INDEX \<noteq> HSON_META_QUID" "HSON_META_QUID \<noteq> HSON_META_INDEX"
  by (simp_all add: HSON_META_INDEX_def HSON_META_QUID_def)

lemma every_vsn_sys: "t \<in> set EVERY_VSN \<Longrightarrow> starts_with t HSON_SYS_PREFIX"
  by (auto simp: EVERY_VSN_def)

lemma user_tag_neq:
  assumes "\<not> starts_with t HSON_SYS_PREFIX"
  shows "t \<noteq> STR_TAG" "t \<noteq> VAL_TAG" "t \<noteq> ROOT_TAG" "t \<noteq> II_TAG" "t \<noteq> OBJ_TAG" "t \<noteq> ARR_TAG"
    "t \<noteq> ELEM_TAG" "t \<notin> set EVERY_VSN"
  using assms by (auto dest: every_vsn_sys)

section \<open>Primitives, attribute values, nodes\<close>

datatype prim =
    PNull
  | PBool bool
  | PNum js_number
  | PStr js_string

text \<open>
  An attribute value is a primitive, the value \<open>undefined\<close>, or a plain record (the
  structured \<open>style\<close> and the typed values inside it). A record is the list of its own
  enumerable entries in enumeration order.
\<close>

datatype attr_value =
    AUndef
  | APrim prim
  | ARec "(js_string \<times> attr_value) list"

type_synonym hson_attrs = "(js_string \<times> attr_value) list"
type_synonym hson_meta = "(js_string \<times> prim) list"

text \<open>
  \<open>HsonNode\<close>: \<open>$_tag\<close>, the optional containers \<open>$_attrs\<close> and \<open>$_meta\<close>
  (\<open>None\<close> where the property is absent) and \<open>$_content\<close>.
\<close>

datatype hson_node =
    HsonNode (tag_of: js_string) (attrs_of: "hson_attrs option") (meta_of: "hson_meta option")
      (content_of: "hson_item list")
  and hson_item =
    ItemNode (item_node: hson_node)
  | ItemPrim prim

abbreviation bare_node :: "js_string \<Rightarrow> hson_item list \<Rightarrow> hson_node" where
  "bare_node t c \<equiv> HsonNode t None None c"

definition has_own_entries :: "'a list option \<Rightarrow> bool" where
  "has_own_entries v \<longleftrightarrow> (case v of None \<Rightarrow> False | Some es \<Rightarrow> es \<noteq> [])"

definition create_node ::
    "js_string \<Rightarrow> hson_attrs option \<Rightarrow> hson_meta option \<Rightarrow> hson_item list \<Rightarrow> hson_node" where
  "create_node tag attrs meta content =
     (if has_own_entries attrs \<and> has_own_entries meta then HsonNode tag attrs meta content
      else if has_own_entries attrs then HsonNode tag attrs None content
      else if has_own_entries meta then HsonNode tag None meta content
      else HsonNode tag None None content)"

lemma create_node_bare [simp]: "create_node t None None c = bare_node t c"
  by (simp add: create_node_def has_own_entries_def)

lemma create_node_meta [simp]:
  "create_node t None (Some m) c = HsonNode t None (if m = [] then None else Some m) c"
  by (simp add: create_node_def has_own_entries_def)

section \<open>Guards\<close>

text \<open>
  \<open>is_Node\<close> rejects old-shaped metadata (keys \<open>attrs\<close> and \<open>flags\<close>); the other
  tests of the code are the constructor of the item.
\<close>

definition old_shaped_meta :: "hson_meta option \<Rightarrow> bool" where
  "old_shaped_meta m \<longleftrightarrow>
     (case m of None \<Rightarrow> False | Some es \<Rightarrow> js ''attrs'' \<in> fst ` set es \<or> js ''flags'' \<in> fst ` set es)"

fun is_Node :: "hson_item \<Rightarrow> bool" where
  "is_Node (ItemPrim p) = False"
| "is_Node (ItemNode n) = (\<not> old_shaped_meta (meta_of n))"

definition is_ordinary_element_node :: "hson_node \<Rightarrow> bool" where
  "is_ordinary_element_node n \<longleftrightarrow>
     is_Node (ItemNode n) \<and> \<not> starts_with (tag_of n) HSON_SYS_PREFIX"

fun prim_is_string :: "prim \<Rightarrow> bool" where
  "prim_is_string (PStr _) = True"
| "prim_is_string _ = False"

definition node_meta :: "hson_node \<Rightarrow> js_string \<Rightarrow> prim option" where
  "node_meta n k = (case meta_of n of None \<Rightarrow> None | Some es \<Rightarrow> map_of es k)"

definition is_indexed :: "hson_node \<Rightarrow> bool" where
  "is_indexed n \<longleftrightarrow>
     tag_of n = II_TAG \<and> length (content_of n) = 1 \<and>
     (case node_meta n HSON_META_INDEX of Some p \<Rightarrow> prim_is_string p | None \<Rightarrow> False)"

definition is_Primitive_node :: "hson_node \<Rightarrow> bool" where
  "is_Primitive_node n \<longleftrightarrow>
     (case content_of n of [ItemPrim _] \<Rightarrow> tag_of n = STR_TAG \<or> tag_of n = VAL_TAG | _ \<Rightarrow> False)"

lemma old_shaped_meta_None [simp]: "\<not> old_shaped_meta None"
  by (simp add: old_shaped_meta_def)

lemma is_Node_bare [simp]: "is_Node (ItemNode (bare_node t c))"
  by (simp add: old_shaped_meta_def)

section \<open>Numeric admission\<close>

datatype number_error = NumberNonfinite

definition hsonNumber :: "js_number \<Rightarrow> number_error + js_number" where
  "hsonNumber x = (if num_finite x then Inr x else Inl NumberNonfinite)"

fun prim_finite :: "prim \<Rightarrow> bool" where
  "prim_finite (PNum x) = num_finite x"
| "prim_finite _ = True"

section \<open>Unquoted names\<close>

definition is_ascii_letter :: "16 word \<Rightarrow> bool" where
  "is_ascii_letter u \<longleftrightarrow> 65 \<le> u \<and> u \<le> 90 \<or> 97 \<le> u \<and> u \<le> 122"

definition is_ascii_digit :: "16 word \<Rightarrow> bool" where
  "is_ascii_digit u \<longleftrightarrow> 48 \<le> u \<and> u \<le> 57"

text \<open>\<open>[A-Za-z_:]\<close> and \<open>[A-Za-z0-9:._-]\<close>.\<close>

definition name_start_unit :: "16 word \<Rightarrow> bool" where
  "name_start_unit u \<longleftrightarrow> is_ascii_letter u \<or> u = 95 \<or> u = 58"

definition name_unit :: "16 word \<Rightarrow> bool" where
  "name_unit u \<longleftrightarrow> is_ascii_letter u \<or> is_ascii_digit u \<or> u = 58 \<or> u = 46 \<or> u = 95 \<or> u = 45"

definition is_hson_bare_name_start :: "js_string \<Rightarrow> bool" where
  "is_hson_bare_name_start v \<longleftrightarrow> (case v of [u] \<Rightarrow> name_start_unit u | _ \<Rightarrow> False)"

definition is_hson_bare_name_char :: "js_string \<Rightarrow> bool" where
  "is_hson_bare_name_char v \<longleftrightarrow> (case v of [u] \<Rightarrow> name_unit u | _ \<Rightarrow> False)"

definition is_valid_hson_attribute_name :: "js_string \<Rightarrow> bool" where
  "is_valid_hson_attribute_name v \<longleftrightarrow>
     (case v of [] \<Rightarrow> False | u # us \<Rightarrow> name_start_unit u \<and> list_all name_unit us)"

text \<open>
  \<open>toLowerCase\<close> restricted to ASCII letters. The code lowers names only to test the two
  private ASCII prefixes, and no code unit outside ASCII lowers into a string that
  continues one of them.
\<close>

definition lower_unit :: "16 word \<Rightarrow> 16 word" where
  "lower_unit u = (if 65 \<le> u \<and> u \<le> 90 then u + 32 else u)"

definition to_lower :: "js_string \<Rightarrow> js_string" where
  "to_lower = map lower_unit"

section \<open>Structural mode of ordinary nodes\<close>

datatype ordinary_structure =
    EmptyElement
  | LegacyEmptyElementWrapper hson_node
  | ElementStructure hson_node
  | ObjectStructure hson_node
  | ObjectScalar hson_node
  | ArrayStructure hson_node
  | InvalidStructure

definition classify_ordinary_hson_structure :: "hson_node \<Rightarrow> ordinary_structure" where
  "classify_ordinary_hson_structure n =
     (if tag_of n \<in> set EVERY_VSN then InvalidStructure
      else if content_of n = [] then EmptyElement
      else case content_of n of
        [ItemNode c] \<Rightarrow>
          (if \<not> is_Node (ItemNode c) then InvalidStructure
           else if tag_of c = STR_TAG \<or> tag_of c = VAL_TAG then ObjectScalar c
           else if tag_of c = ELEM_TAG then
             (if content_of c = [] then LegacyEmptyElementWrapper c else ElementStructure c)
           else if tag_of c = OBJ_TAG then ObjectStructure c
           else if tag_of c = ARR_TAG then ArrayStructure c
           else InvalidStructure)
      | _ \<Rightarrow> InvalidStructure)"

end
