(* ===== verification/Live_Path.thy ===== *)
theory Live_Path
  imports Hson_Core
begin

text \<open>
  Projected paths (\<open>api/livemap/livemap.path.ts\<close>): segments are property names or numbers,
  and two paths overlap when one is an ancestor-or-self prefix of the other. The locale
  \<open>path_store\<close> is the contract the path-addressed stores of the program share: what a
  read returns after a write at the same, at an overlapping and at an unrelated path.
\<close>

section \<open>Segments and paths\<close>

text \<open>
  A number in a path or an index argument is an integer or some other number (a fraction,
  an infinity, NaN). The two zeros are one integer: \<open>===\<close> and array indexing identify them.
\<close>

datatype num_arg = IntArg int | OtherArg js_number

datatype path_part = PKey js_string | PIdx num_arg

type_synonym live_path = "path_part list"

text \<open>Strict equality of segments; NaN differs from itself.\<close>

fun part_eq :: "path_part \<Rightarrow> path_part \<Rightarrow> bool" where
  "part_eq (PKey a) (PKey b) = (a = b)"
| "part_eq (PIdx (IntArg i)) (PIdx (IntArg j)) = (i = j)"
| "part_eq (PIdx (OtherArg x)) (PIdx (OtherArg y)) = (x = y \<and> \<not> num_is_nan x)"
| "part_eq _ _ = False"

definition paths_equal :: "live_path \<Rightarrow> live_path \<Rightarrow> bool" where
  "paths_equal l r \<longleftrightarrow> length l = length r \<and> list_all2 part_eq l r"

definition path_is_prefix :: "live_path \<Rightarrow> live_path \<Rightarrow> bool" where
  "path_is_prefix p q \<longleftrightarrow>
     (if length q < length p then False else list_all2 part_eq p (take (length p) q))"

definition paths_overlap :: "live_path \<Rightarrow> live_path \<Rightarrow> bool" where
  "paths_overlap a b \<longleftrightarrow> path_is_prefix a b \<or> path_is_prefix b a"

definition append_live_path :: "live_path \<Rightarrow> path_part \<Rightarrow> live_path" where
  "append_live_path p part = p @ [part]"

definition parent_live_path :: "live_path \<Rightarrow> live_path option" where
  "parent_live_path p = (if p = [] then None else Some (butlast p))"

definition relative_live_path :: "live_path \<Rightarrow> live_path \<Rightarrow> live_path option" where
  "relative_live_path pre p = (if \<not> path_is_prefix pre p then None else Some (drop (length pre) p))"

lemma part_eq_imp_eq: "part_eq a b \<Longrightarrow> a = b"
  by (cases "(a, b)" rule: part_eq.cases) auto

lemma part_eq_sym: "part_eq a b \<longleftrightarrow> part_eq b a"
  by (cases "(a, b)" rule: part_eq.cases) auto

definition part_proper :: "path_part \<Rightarrow> bool" where
  "part_proper a \<longleftrightarrow> part_eq a a"

lemma part_proper_simps [simp]:
  "part_proper (PKey k)" "part_proper (PIdx (IntArg i))"
  "part_proper (PIdx (OtherArg x)) \<longleftrightarrow> \<not> num_is_nan x"
  by (simp_all add: part_proper_def)

lemma part_eq_iff: "part_eq a b \<longleftrightarrow> a = b \<and> part_proper a"
  using part_eq_imp_eq by (auto simp: part_proper_def)

lemma list_all2_part_eq: "list_all2 part_eq xs ys \<longleftrightarrow> xs = ys \<and> list_all part_proper xs"
  by (induction xs arbitrary: ys) (auto simp: part_eq_iff list_all2_Cons1)

lemma path_is_prefix_iff: "path_is_prefix p q \<longleftrightarrow> (\<exists>r. q = p @ r) \<and> list_all part_proper p"
proof -
  have "p = take (length p) q \<Longrightarrow> q = p @ drop (length p) q"
    by (metis append_take_drop_id)
  then show ?thesis
    by (auto simp: path_is_prefix_def list_all2_part_eq)
qed

lemma path_is_prefix_Nil [simp]: "path_is_prefix [] q" "path_is_prefix (a # p) [] \<longleftrightarrow> False"
  by (simp_all add: path_is_prefix_iff)

lemma path_is_prefix_Cons [simp]:
  "path_is_prefix (a # p) (b # q) \<longleftrightarrow> part_eq a b \<and> path_is_prefix p q"
  by (auto simp: path_is_prefix_iff part_eq_iff)

lemma paths_overlap_sym: "paths_overlap a b \<longleftrightarrow> paths_overlap b a"
  by (auto simp: paths_overlap_def)

lemma paths_overlap_Cons [simp]:
  "paths_overlap (a # p) (b # q) \<longleftrightarrow> part_eq a b \<and> paths_overlap p q"
  by (auto simp: paths_overlap_def part_eq_sym)

lemma paths_overlap_Nil [simp]: "paths_overlap [] q" "paths_overlap p []"
  by (simp_all add: paths_overlap_def)

lemma relative_live_path_append:
  "relative_live_path p q = Some r \<Longrightarrow> q = p @ r"
  by (auto simp: relative_live_path_def path_is_prefix_iff split: if_splits)

section \<open>The contract of a path-addressed store\<close>

locale path_store =
  fixes at :: "'s \<Rightarrow> live_path \<Rightarrow> 'v option"
    and replace :: "'s \<Rightarrow> live_path \<Rightarrow> 'v \<Rightarrow> 'e + 's"
    and inv :: "'s \<Rightarrow> bool"
    and okv :: "'v \<Rightarrow> bool"
  assumes replace_inv: "inv s \<Longrightarrow> okv v \<Longrightarrow> replace s p v = Inr t \<Longrightarrow> inv t"
    and at_replace_same: "inv s \<Longrightarrow> okv v \<Longrightarrow> replace s p v = Inr t \<Longrightarrow> at t p = Some v"
    and at_replace_disjoint:
      "inv s \<Longrightarrow> okv v \<Longrightarrow> replace s p v = Inr t \<Longrightarrow> \<not> paths_overlap p q \<Longrightarrow> at t q = at s q"
    and replace_total: "inv s \<Longrightarrow> okv v \<Longrightarrow> at s p = Some u \<Longrightarrow> \<exists>t. replace s p v = Inr t"
begin

primrec write_all :: "'s \<Rightarrow> (live_path \<times> 'v) list \<Rightarrow> 'e + 's" where
  "write_all s [] = Inr s"
| "write_all s (w # ws) = rbind (replace s (fst w) (snd w)) (\<lambda>t. write_all t ws)"

lemma write_all_inv:
  "inv s \<Longrightarrow> list_all (okv \<circ> snd) ws \<Longrightarrow> write_all s ws = Inr t \<Longrightarrow> inv t"
  by (induction ws arbitrary: s) (auto simp: rbind_Inr_iff intro: replace_inv)

lemma write_all_frame:
  assumes "inv s" and "list_all (okv \<circ> snd) ws" and "write_all s ws = Inr t"
    and "list_all (\<lambda>w. \<not> paths_overlap (fst w) q) ws"
  shows "at t q = at s q"
  using assms
proof (induction ws arbitrary: s)
  case (Cons w ws)
  from Cons.prems obtain u where u: "replace s (fst w) (snd w) = Inr u" and t: "write_all u ws = Inr t"
    by (auto simp: rbind_Inr_iff)
  from Cons.prems u have "inv u" by (auto intro: replace_inv)
  with Cons.IH [OF this] Cons.prems t have "at t q = at u q" by simp
  also from Cons.prems u have "\<dots> = at s q" by (auto intro: at_replace_disjoint)
  finally show ?case .
qed simp

lemma write_all_total:
  assumes "inv s" and "list_all (okv \<circ> snd) ws"
    and "\<forall>w \<in> set ws. at s (fst w) \<noteq> None"
    and "pairwise (\<lambda>i j. i < length ws \<longrightarrow> j < length ws \<longrightarrow>
           \<not> paths_overlap (fst (ws ! i)) (fst (ws ! j))) UNIV"
  shows "\<exists>t. write_all s ws = Inr t"
  using assms
proof (induction ws arbitrary: s)
  case (Cons w ws)
  from Cons.prems obtain u where u: "replace s (fst w) (snd w) = Inr u"
    using replace_total by fastforce
  have apart: "\<not> paths_overlap (fst w) (fst x)" if x: "x \<in> set ws" for x
  proof -
    from x obtain j where j: "j < length ws" "x = ws ! j" by (auto simp: in_set_conv_nth)
    from Cons.prems(4) have "\<not> paths_overlap (fst ((w # ws) ! 0)) (fst ((w # ws) ! Suc j))"
      unfolding pairwise_def using j(1) by fastforce
    with j show ?thesis by simp
  qed
  have "at u (fst x) \<noteq> None" if "x \<in> set ws" for x
    using that apart [OF that] Cons.prems u at_replace_disjoint [of s "snd w" "fst w" u "fst x"]
    by auto
  moreover have "inv u" using Cons.prems u by (auto intro: replace_inv)
  moreover have "pairwise (\<lambda>i j. i < length ws \<longrightarrow> j < length ws \<longrightarrow>
           \<not> paths_overlap (fst (ws ! i)) (fst (ws ! j))) UNIV"
    unfolding pairwise_def
  proof (intro ballI impI)
    fix i j assume "i \<noteq> j" "i < length ws" "j < length ws"
    with Cons.prems(4) show "\<not> paths_overlap (fst (ws ! i)) (fst (ws ! j))"
      unfolding pairwise_def
      by (metis Suc_less_eq UNIV_I length_Cons nat.inject nth_Cons_Suc)
  qed
  ultimately obtain t where "write_all u ws = Inr t"
    using Cons.IH [of u] Cons.prems(2) by auto
  with u show ?case by simp
qed simp

end

end
