(* ===== verification/Ordered_Value.thy ===== *)
theory Ordered_Value
  imports Live_Path
begin

text \<open>
  The immutable ordered carrier of projected values and its path mutations
  (\<open>core/ordered-projected-value.ts\<close>, \<open>core/ordered-projected-value-mutation.ts\<close>):
  a primitive, a dense array, or an object whose property order is data. Every factory
  revalidates what it builds, so the mutations are fallible.
\<close>

section \<open>The carrier\<close>

datatype opv =
    OPrim prim
  | OArr "opv list"
  | OObj "(js_string \<times> opv) list"

datatype opv_error =
    CarrierNumber
  | CarrierDuplicateKey js_string
  | SetRoot
  | DeleteRoot
  | ArrayPathUnresolved
  | ObjectPathUnresolved
  | DeleteArrayIndex
  | MergeNotObject
  | RenameNotObject
  | RenameSourceMissing
  | MoveNotArray
  | MoveSourceInvalid
  | MoveDestinationInvalid
  | SpliceNotArray
  | SpliceStartInvalid
  | SpliceCountInvalid

text \<open>
  \<open>assert_ordered_projected_value\<close>: numbers are finite and keys unique, checked in entry
  order, the key before the value. Freezing, density and acyclicity hold of every \<^typ>\<open>opv\<close>.
\<close>

fun assert_opv :: "opv \<Rightarrow> opv_error + unit"
  and assert_entries :: "js_string list \<Rightarrow> (js_string \<times> opv) list \<Rightarrow> opv_error + unit"
  and assert_items :: "opv list \<Rightarrow> opv_error + unit" where
  "assert_opv (OPrim (PNum x)) =
     (case hsonNumber x of Inl e \<Rightarrow> Inl CarrierNumber | Inr y \<Rightarrow> Inr ())"
| "assert_opv (OPrim p) = Inr ()"
| "assert_opv (OArr vs) = assert_items vs"
| "assert_opv (OObj es) = assert_entries [] es"
| "assert_items [] = Inr ()"
| "assert_items (v # vs) = rbind (assert_opv v) (\<lambda>u. assert_items vs)"
| "assert_entries seen [] = Inr ()"
| "assert_entries seen ((k, v) # es) =
     (if k \<in> set seen then Inl (CarrierDuplicateKey k)
      else rbind (assert_opv v) (\<lambda>u. assert_entries (k # seen) es))"

definition is_ordered_projected_value :: "opv \<Rightarrow> bool" where
  "is_ordered_projected_value v = (case assert_opv v of Inl e \<Rightarrow> False | Inr u \<Rightarrow> True)"

definition is_ordered_projected_object :: "opv \<Rightarrow> bool" where
  "is_ordered_projected_object v = (case v of OObj es \<Rightarrow> True | _ \<Rightarrow> False)"

definition ordered_projected_array :: "opv list \<Rightarrow> opv_error + opv" where
  "ordered_projected_array vs = rbind (assert_items vs) (\<lambda>u. Inr (OArr vs))"

definition ordered_projected_object :: "(js_string \<times> opv) list \<Rightarrow> opv_error + opv" where
  "ordered_projected_object es = rbind (assert_entries [] es) (\<lambda>u. Inr (OObj es))"

text \<open>The carrier domain as a predicate.\<close>

fun opv_ok :: "opv \<Rightarrow> bool" where
  "opv_ok (OPrim p) = prim_finite p"
| "opv_ok (OArr vs) = (\<forall>v \<in> set vs. opv_ok v)"
| "opv_ok (OObj es) = (distinct (map fst es) \<and> (\<forall>e \<in> set es. opv_ok (snd e)))"

lemma assert_sound:
  "assert_opv v = Inr () \<longleftrightarrow> opv_ok v"
  "assert_entries seen es = Inr () \<longleftrightarrow>
     distinct (map fst es) \<and> set (map fst es) \<inter> set seen = {} \<and> (\<forall>e \<in> set es. opv_ok (snd e))"
  "assert_items vs = Inr () \<longleftrightarrow> (\<forall>v \<in> set vs. opv_ok v)"
proof (induction v and seen es and vs rule: assert_opv_assert_entries_assert_items.induct)
  case (1 x)
  then show ?case by (simp add: hsonNumber_def)
qed (auto simp: rbind_Inr_iff)

lemma is_ordered_projected_value_iff: "is_ordered_projected_value v \<longleftrightarrow> opv_ok v"
proof -
  have "is_ordered_projected_value v \<longleftrightarrow> assert_opv v = Inr ()"
    by (cases "assert_opv v") (auto simp: is_ordered_projected_value_def)
  then show ?thesis by (simp add: assert_sound)
qed

lemma ordered_projected_array_iff [res_simps]:
  "ordered_projected_array vs = Inr r \<longleftrightarrow> r = OArr vs \<and> (\<forall>v \<in> set vs. opv_ok v)"
  by (auto simp: ordered_projected_array_def rbind_Inr_iff assert_sound)

lemma ordered_projected_object_iff [res_simps]:
  "ordered_projected_object es = Inr r \<longleftrightarrow>
     r = OObj es \<and> distinct (map fst es) \<and> (\<forall>e \<in> set es. opv_ok (snd e))"
  by (auto simp: ordered_projected_object_def rbind_Inr_iff assert_sound)

section \<open>Equality\<close>

fun prim_object_is :: "prim \<Rightarrow> prim \<Rightarrow> bool" where
  "prim_object_is (PNum x) (PNum y) = num_object_is x y"
| "prim_object_is p q = (p = q)"

fun ordered_projected_value_equal :: "opv \<Rightarrow> opv \<Rightarrow> bool"
  and entries_equal :: "(js_string \<times> opv) list \<Rightarrow> (js_string \<times> opv) list \<Rightarrow> bool"
  and items_equal :: "opv list \<Rightarrow> opv list \<Rightarrow> bool" where
  "ordered_projected_value_equal (OPrim p) (OPrim q) = prim_object_is p q"
| "ordered_projected_value_equal (OArr vs) (OArr ws) = (length vs = length ws \<and> items_equal vs ws)"
| "ordered_projected_value_equal (OObj es) (OObj fs) = (length es = length fs \<and> entries_equal es fs)"
| "ordered_projected_value_equal _ _ = False"
| "items_equal (v # vs) (w # ws) = (ordered_projected_value_equal v w \<and> items_equal vs ws)"
| "items_equal vs ws = True"
| "entries_equal ((k, v) # es) ((l, w) # fs) =
     (k = l \<and> ordered_projected_value_equal v w \<and> entries_equal es fs)"
| "entries_equal es fs = True"

definition optional_ordered_projected_value_equal :: "opv option \<Rightarrow> opv option \<Rightarrow> bool" where
  "optional_ordered_projected_value_equal l r =
     (case (l, r) of
        (Some a, Some b) \<Rightarrow> ordered_projected_value_equal a b
      | (None, None) \<Rightarrow> True
      | _ \<Rightarrow> False)"

lemma prim_object_is_iff: "prim_finite p \<Longrightarrow> prim_object_is p q \<longleftrightarrow> p = q"
  by (cases "(p, q)" rule: prim_object_is.cases) (auto simp: num_object_is_finite)

lemma equal_sound:
  "opv_ok v \<Longrightarrow> ordered_projected_value_equal v w \<longleftrightarrow> v = w"
  "\<forall>e \<in> set es. opv_ok (snd e) \<Longrightarrow> length es = length fs \<Longrightarrow> entries_equal es fs \<longleftrightarrow> es = fs"
  "\<forall>v \<in> set vs. opv_ok v \<Longrightarrow> length vs = length ws \<Longrightarrow> items_equal vs ws \<longleftrightarrow> vs = ws"
proof (induction v w and es fs and vs ws
    rule: ordered_projected_value_equal_entries_equal_items_equal.induct)
  case (1 p q)
  then show ?case by (simp add: prim_object_is_iff)
qed (auto simp: prim_object_is_iff)

lemma optional_equal_sound:
  "pred_option opv_ok l \<Longrightarrow> optional_ordered_projected_value_equal l r \<longleftrightarrow> l = r"
  by (auto simp: optional_ordered_projected_value_equal_def equal_sound split: option.splits)

section \<open>Reading\<close>

definition num_arg_index :: "num_arg \<Rightarrow> nat option" where
  "num_arg_index a = (case a of IntArg i \<Rightarrow> if i < 0 then None else Some (nat i) | OtherArg x \<Rightarrow> None)"

definition max_safe_integer :: int where
  "max_safe_integer = 9007199254740991"

definition is_safe_integer :: "num_arg \<Rightarrow> bool" where
  "is_safe_integer a = (case a of IntArg i \<Rightarrow> \<bar>i\<bar> \<le> max_safe_integer | OtherArg x \<Rightarrow> False)"

primrec object_entry_index :: "(js_string \<times> 'v) list \<Rightarrow> js_string \<Rightarrow> nat option" where
  "object_entry_index [] k = None"
| "object_entry_index (e # es) k =
     (if fst e = k then Some 0 else map_option Suc (object_entry_index es k))"

definition object_entry_value :: "(js_string \<times> 'v) list \<Rightarrow> js_string \<Rightarrow> 'v option" where
  "object_entry_value es k =
     (case object_entry_index es k of None \<Rightarrow> None | Some i \<Rightarrow> Some (snd (es ! i)))"

fun step_part :: "opv option \<Rightarrow> path_part \<Rightarrow> opv option" where
  "step_part (Some (OArr vs)) (PIdx a) =
     (case num_arg_index a of
        None \<Rightarrow> None
      | Some i \<Rightarrow> if i < length vs then Some (vs ! i) else None)"
| "step_part (Some (OObj es)) (PKey k) = object_entry_value es k"
| "step_part c p = None"

definition ordered_projected_value_at :: "opv \<Rightarrow> live_path \<Rightarrow> opv option" where
  "ordered_projected_value_at root path = foldl step_part (Some root) path"

lemma object_entry_index_Some:
  "object_entry_index es k = Some i \<Longrightarrow> i < length es \<and> fst (es ! i) = k"
  by (induction es arbitrary: i) (auto split: if_splits)

lemma object_entry_index_None: "object_entry_index es k = None \<longleftrightarrow> k \<notin> fst ` set es"
  by (induction es) auto

lemma object_entry_value_map_of: "object_entry_value es k = map_of es k"
proof (induction es)
  case (Cons e es)
  then show ?case
    by (cases e) (auto simp: object_entry_value_def split: option.splits)
qed (simp add: object_entry_value_def)

lemma step_part_None [simp]: "step_part None p = None"
  by (cases p) auto

lemma foldl_step_None [simp]: "foldl step_part None path = None"
  by (induction path) auto

lemma value_at_simps [simp]:
  "ordered_projected_value_at v [] = Some v"
  by (simp add: ordered_projected_value_at_def)

lemma value_at_Cons:
  "ordered_projected_value_at v (p # ps) =
     Option.bind (step_part (Some v) p) (\<lambda>c. ordered_projected_value_at c ps)"
  by (cases "step_part (Some v) p") (auto simp: ordered_projected_value_at_def)

lemma value_at_append:
  "ordered_projected_value_at v (ps @ qs) =
     Option.bind (ordered_projected_value_at v ps) (\<lambda>c. ordered_projected_value_at c qs)"
  by (induction ps arbitrary: v) (auto simp: value_at_Cons bind_assoc split: bind_splits)

lemma step_part_ok: "opv_ok v \<Longrightarrow> step_part (Some v) p = Some c \<Longrightarrow> opv_ok c"
  by (cases "(Some v, p)" rule: step_part.cases)
    (auto simp: object_entry_value_map_of split: option.splits if_splits dest!: map_of_SomeD)

lemma value_at_ok: "opv_ok v \<Longrightarrow> ordered_projected_value_at v p = Some c \<Longrightarrow> opv_ok c"
  by (induction p arbitrary: v)
    (auto simp: value_at_Cons bind_eq_Some_conv intro: step_part_ok)

end
