(* ===== verification/Ordered_Mutation.thy ===== *)
theory Ordered_Mutation
  imports Ordered_Value
begin

text \<open>
  Path mutations of the ordered carrier (\<open>core/ordered-projected-value-mutation.ts\<close>): each
  returns a new carrier or the error the source throws.
\<close>

section \<open>Writing and deleting at a path\<close>

text \<open>
  \<open>array_slot\<close> is the shared test that a segment addresses an existing item; the child read
  there is never \<open>undefined\<close> in a dense array.
\<close>

definition array_slot :: "opv list \<Rightarrow> num_arg \<Rightarrow> nat option" where
  "array_slot vs a =
     (case num_arg_index a of None \<Rightarrow> None | Some i \<Rightarrow> if i < length vs then Some i else None)"

fun write_at :: "opv \<Rightarrow> live_path \<Rightarrow> opv \<Rightarrow> bool \<Rightarrow> opv_error + opv" where
  "write_at cur [] v allow = Inr v"
| "write_at cur (PIdx a # rest) v allow =
     (case cur of
        OArr vs \<Rightarrow>
          (case array_slot vs a of
             None \<Rightarrow> Inl ArrayPathUnresolved
           | Some i \<Rightarrow>
               rbind (if rest = [] then Inr v else write_at (vs ! i) rest v allow)
                 (\<lambda>c. ordered_projected_array (vs[i := c])))
      | _ \<Rightarrow> Inl ArrayPathUnresolved)"
| "write_at cur (PKey k # rest) v allow =
     (case cur of
        OObj es \<Rightarrow>
          (case object_entry_index es k of
             None \<Rightarrow>
               if rest \<noteq> [] \<or> \<not> allow then Inl ObjectPathUnresolved
               else ordered_projected_object (es @ [(k, v)])
           | Some i \<Rightarrow>
               rbind (if rest = [] then Inr v else write_at (snd (es ! i)) rest v allow)
                 (\<lambda>c. ordered_projected_object (es[i := (k, c)])))
      | _ \<Rightarrow> Inl ObjectPathUnresolved)"

definition remove_nth :: "nat \<Rightarrow> 'a list \<Rightarrow> 'a list" where
  "remove_nth i xs = take i xs @ drop (Suc i) xs"

fun delete_at :: "opv \<Rightarrow> live_path \<Rightarrow> opv_error + opv" where
  "delete_at cur [] = Inl ObjectPathUnresolved"
| "delete_at cur (PIdx a # rest) =
     (case cur of
        OArr vs \<Rightarrow>
          (case array_slot vs a of
             None \<Rightarrow> Inl ArrayPathUnresolved
           | Some i \<Rightarrow>
               if rest = [] then Inl DeleteArrayIndex
               else rbind (delete_at (vs ! i) rest) (\<lambda>c. ordered_projected_array (vs[i := c])))
      | _ \<Rightarrow> Inl ArrayPathUnresolved)"
| "delete_at cur (PKey k # rest) =
     (case cur of
        OObj es \<Rightarrow>
          (case object_entry_index es k of
             None \<Rightarrow> Inl ObjectPathUnresolved
           | Some i \<Rightarrow>
               if rest = [] then ordered_projected_object (remove_nth i es)
               else rbind (delete_at (snd (es ! i)) rest)
                      (\<lambda>c. ordered_projected_object (es[i := (k, c)])))
      | _ \<Rightarrow> Inl ObjectPathUnresolved)"

definition ordered_projected_value_set :: "opv \<Rightarrow> live_path \<Rightarrow> opv \<Rightarrow> opv_error + opv" where
  "ordered_projected_value_set root path v =
     (if path = [] then Inl SetRoot else write_at root path v True)"

definition ordered_projected_value_replace :: "opv \<Rightarrow> live_path \<Rightarrow> opv \<Rightarrow> opv_error + opv" where
  "ordered_projected_value_replace root path v =
     (if path = [] then Inr v else write_at root path v False)"

definition ordered_projected_value_delete :: "opv \<Rightarrow> live_path \<Rightarrow> opv_error + opv" where
  "ordered_projected_value_delete root path =
     (if path = [] then Inl DeleteRoot else delete_at root path)"

section \<open>Object and array operations\<close>

fun merge_entries :: "opv \<Rightarrow> live_path \<Rightarrow> (js_string \<times> opv) list \<Rightarrow> opv_error + opv" where
  "merge_entries candidate path [] = Inr candidate"
| "merge_entries candidate path ((k, v) # es) =
     rbind (ordered_projected_value_set candidate (path @ [PKey k]) v) (\<lambda>c. merge_entries c path es)"

definition ordered_projected_object_merge ::
    "opv \<Rightarrow> live_path \<Rightarrow> (js_string \<times> opv) list \<Rightarrow> opv_error + opv" where
  "ordered_projected_object_merge root path patch =
     (case ordered_projected_value_at root path of
        Some (OObj es) \<Rightarrow> merge_entries root path patch
      | _ \<Rightarrow> Inl MergeNotObject)"

definition rename_entries ::
    "js_string \<Rightarrow> js_string \<Rightarrow> (js_string \<times> 'v) list \<Rightarrow> (js_string \<times> 'v) list" where
  "rename_entries src dst es =
     concat (map (\<lambda>(k, v). if k = src then [(dst, v)] else if k = dst then [] else [(k, v)]) es)"

definition ordered_projected_object_rename ::
    "opv \<Rightarrow> live_path \<Rightarrow> js_string \<Rightarrow> js_string \<Rightarrow> opv_error + opv" where
  "ordered_projected_object_rename root path src dst =
     (case ordered_projected_value_at root path of
        Some (OObj es) \<Rightarrow>
          (case object_entry_index es src of
             None \<Rightarrow> Inl RenameSourceMissing
           | Some i \<Rightarrow>
               if src = dst then Inr root
               else rbind (ordered_projected_object (rename_entries src dst es))
                      (\<lambda>next. ordered_projected_value_replace root path next))
      | _ \<Rightarrow> Inl RenameNotObject)"

definition insert_nth :: "nat \<Rightarrow> 'a \<Rightarrow> 'a list \<Rightarrow> 'a list" where
  "insert_nth i x xs = take i xs @ x # drop i xs"

definition move_items :: "nat \<Rightarrow> nat \<Rightarrow> 'a list \<Rightarrow> 'a list" where
  "move_items src dst xs = insert_nth dst (xs ! src) (remove_nth src xs)"

definition safe_index :: "num_arg \<Rightarrow> nat \<Rightarrow> nat option" where
  "safe_index a len =
     (if is_safe_integer a then
        (case num_arg_index a of None \<Rightarrow> None | Some i \<Rightarrow> if i < len then Some i else None)
      else None)"

definition ordered_projected_array_move ::
    "opv \<Rightarrow> live_path \<Rightarrow> num_arg \<Rightarrow> num_arg \<Rightarrow> opv_error + opv" where
  "ordered_projected_array_move root path src dst =
     (case ordered_projected_value_at root path of
        Some (OArr vs) \<Rightarrow>
          (case safe_index src (length vs) of
             None \<Rightarrow> Inl MoveSourceInvalid
           | Some i \<Rightarrow>
               (case safe_index dst (length vs) of
                  None \<Rightarrow> Inl MoveDestinationInvalid
                | Some j \<Rightarrow>
                    if i = j then Inr root
                    else rbind (ordered_projected_array (move_items i j vs))
                           (\<lambda>next. ordered_projected_value_replace root path next)))
      | _ \<Rightarrow> Inl MoveNotArray)"

definition splice_items :: "nat \<Rightarrow> nat \<Rightarrow> 'a list \<Rightarrow> 'a list \<Rightarrow> 'a list" where
  "splice_items start del items xs = take start xs @ items @ drop (start + del) xs"

definition ordered_projected_array_splice ::
    "opv \<Rightarrow> live_path \<Rightarrow> num_arg \<Rightarrow> num_arg \<Rightarrow> opv list \<Rightarrow> opv_error + opv \<times> opv" where
  "ordered_projected_array_splice root path start deleteCount items =
     (case ordered_projected_value_at root path of
        Some (OArr vs) \<Rightarrow>
          (case num_arg_index start of
             None \<Rightarrow> Inl SpliceStartInvalid
           | Some i \<Rightarrow>
               if length vs < i then Inl SpliceStartInvalid
               else (case num_arg_index deleteCount of
                  None \<Rightarrow> Inl SpliceCountInvalid
                | Some d \<Rightarrow>
                    if length vs < i + d then Inl SpliceCountInvalid
                    else rbind (ordered_projected_array (take d (drop i vs)))
                      (\<lambda>removed. rbind (ordered_projected_array (splice_items i d items vs))
                        (\<lambda>next. rbind (ordered_projected_value_replace root path next)
                          (\<lambda>value. Inr (value, removed))))))
      | _ \<Rightarrow> Inl SpliceNotArray)"

section \<open>List facts\<close>

lemma set_list_update_le: "\<forall>x \<in> set xs. P x \<Longrightarrow> P y \<Longrightarrow> \<forall>x \<in> set (xs[i := y]). P x"
  using set_update_subset_insert [of xs i y] by auto

lemma remove_nth_subset: "set (remove_nth i xs) \<subseteq> set xs"
  by (auto simp: remove_nth_def dest: in_set_takeD in_set_dropD)

lemma remove_nth_simps [simp]:
  "remove_nth i [] = []" "remove_nth 0 (x # xs) = xs" "remove_nth (Suc i) (x # xs) = x # remove_nth i xs"
  by (simp_all add: remove_nth_def)

lemma map_remove_nth: "map f (remove_nth i xs) = remove_nth i (map f xs)"
  by (simp add: remove_nth_def take_map drop_map)

lemma distinct_remove_nth: "distinct xs \<Longrightarrow> distinct (remove_nth i xs)"
  by (auto simp: remove_nth_def set_take_disj_set_drop_if_distinct distinct_append)

lemma mset_move_items: "i < length xs \<Longrightarrow> mset (move_items i j xs) = mset xs"
proof -
  assume i: "i < length xs"
  have ins: "mset (insert_nth j x ys) = add_mset x (mset ys)" for x and ys :: "'a list"
    by (metis (no_types) append_take_drop_id insert_nth_def mset.simps(2) mset_append
        union_mset_add_mset_right)
  have "mset xs = mset (take i xs @ xs ! i # drop (Suc i) xs)"
    using i by (simp only: id_take_nth_drop [symmetric])
  then show ?thesis by (simp add: move_items_def ins remove_nth_def)
qed

lemma set_move_items: "i < length xs \<Longrightarrow> set (move_items i j xs) = set xs"
  by (metis mset_move_items set_mset_mset)

lemma map_of_map_pair: "map_of (map (\<lambda>e. (fst e, f (snd e))) es) k = map_option f (map_of es k)"
  by (induction es) auto


section \<open>What a write does\<close>

lemma map_of_update_index:
  "object_entry_index es k = Some i \<Longrightarrow> map_of (es[i := (k, c)]) = (map_of es)(k \<mapsto> c)"
proof (induction es arbitrary: i)
  case (Cons e es)
  then show ?case by (cases e) (auto split: if_splits simp: fun_upd_twist)
qed simp

lemma keys_update_index:
  "object_entry_index es k = Some i \<Longrightarrow> map fst (es[i := (k, c)]) = map fst es"
  by (rule distinct_map_fst_update) (auto dest: object_entry_index_Some)

lemma array_slot_Some:
  "array_slot vs a = Some i \<longleftrightarrow> num_arg_index a = Some i \<and> i < length vs"
  by (auto simp: array_slot_def split: option.splits)

lemma num_arg_index_inject:
  "num_arg_index a = Some i \<Longrightarrow> num_arg_index b = Some i \<Longrightarrow> a = b"
  by (auto simp: num_arg_index_def split: num_arg.splits if_splits)

lemma num_arg_index_proper: "num_arg_index a = Some i \<Longrightarrow> part_proper (PIdx a)"
  by (auto simp: num_arg_index_def split: num_arg.splits)

lemma step_part_OArr:
  "step_part (Some (OArr vs)) (PIdx a) = map_option (\<lambda>i. vs ! i) (array_slot vs a)"
  by (auto simp: array_slot_def split: option.splits)

lemma step_part_OObj: "step_part (Some (OObj es)) (PKey k) = map_of es k"
  by (simp add: object_entry_value_map_of)

text \<open>One level of a successful write: the container, the child written and the rebuild.\<close>

lemma write_at_cases [consumes 1, case_names root item entry append]:
  assumes "write_at cur path v allow = Inr t"
  obtains "path = []" "t = v"
  | a rest vs i c where "path = PIdx a # rest" "cur = OArr vs" "array_slot vs a = Some i"
      "write_at (vs ! i) rest v allow = Inr c" "t = OArr (vs[i := c])" "opv_ok t"
  | k rest es i c where "path = PKey k # rest" "cur = OObj es" "object_entry_index es k = Some i"
      "write_at (snd (es ! i)) rest v allow = Inr c" "t = OObj (es[i := (k, c)])" "opv_ok t"
  | k es where "path = [PKey k]" "cur = OObj es" "object_entry_index es k = None" "allow"
      "t = OObj (es @ [(k, v)])" "opv_ok t"
proof (cases path)
  case Nil
  then show ?thesis using assms that(1) by simp
next
  case (Cons p rest)
  show ?thesis
  proof (cases p)
    case (PIdx a)
    with Cons assms show ?thesis
      by (cases rest)
        (auto simp: res_simps split: opv.splits option.splits intro: that(2))
  next
    case (PKey k)
    with Cons assms show ?thesis
      by (cases rest)
        (auto simp: res_simps split: opv.splits option.splits if_splits
          intro: that(3) that(4) simp del: map_append)
  qed
qed

lemma write_at_ok: "write_at cur path v allow = Inr t \<Longrightarrow> opv_ok v \<Longrightarrow> opv_ok t"
  by (erule write_at_cases) simp_all

lemma write_at_same: "write_at cur path v allow = Inr t \<Longrightarrow> ordered_projected_value_at t path = Some v"
proof (induction path arbitrary: cur t)
  case Nil
  then show ?case by simp
next
  case (Cons p rest)
  from Cons.prems show ?case
  proof (cases rule: write_at_cases)
    case (item a rest' vs i c)
    with Cons.IH show ?thesis
      by (auto simp: value_at_Cons step_part_OArr array_slot_def simp del: step_part.simps
          split: option.splits if_splits)
  next
    case (entry k rest' es i c)
    with Cons.IH show ?thesis
      by (auto simp: value_at_Cons step_part_OObj map_of_update_index simp del: step_part.simps)
  next
    case (append k es)
    then have "map_of es k = None" by (simp add: object_entry_index_None map_of_eq_None_iff)
    with append show ?thesis
      by (auto simp: value_at_Cons step_part_OObj map_add_def simp del: step_part.simps)
  qed simp
qed

lemma write_at_disjoint:
  "write_at cur path v allow = Inr t \<Longrightarrow> \<not> paths_overlap path q \<Longrightarrow>
     ordered_projected_value_at t q = ordered_projected_value_at cur q"
proof (induction path arbitrary: cur t q)
  case Nil
  then show ?case by simp
next
  case (Cons p rest)
  then obtain b qs where q: "q = b # qs" by (cases q) auto
  from Cons.prems(1) show ?case
  proof (cases rule: write_at_cases)
    case (item a rest' vs i c)
    show ?thesis
    proof (cases "b = PIdx a")
      case True
      with item Cons q show ?thesis
        by (auto simp: value_at_Cons step_part_OArr array_slot_def part_eq_iff num_arg_index_proper
            simp del: step_part.simps split: option.splits if_splits)
    next
      case False
      with item have "step_part (Some t) b = step_part (Some cur) b"
        by (cases b)
          (auto simp: array_slot_def nth_list_update split: option.splits if_splits
            dest: num_arg_index_inject)
      then show ?thesis using q by (simp add: value_at_Cons)
    qed
  next
    case (entry k rest' es i c)
    show ?thesis
    proof (cases "b = PKey k")
      case True
      have mk: "map_of es k = Some (snd (es ! i))"
        using entry(3) object_entry_value_map_of [of es k] by (simp add: object_entry_value_def)
      from True entry Cons q mk show ?thesis
        by (auto simp: value_at_Cons step_part_OObj map_of_update_index simp del: step_part.simps)
    next
      case False
      with entry have "step_part (Some t) b = step_part (Some cur) b"
        by (cases b) (auto simp: object_entry_value_map_of map_of_update_index)
      then show ?thesis using q by (simp add: value_at_Cons)
    qed
  next
    case (append k es)
    with Cons.prems(2) q have "b \<noteq> PKey k" by (auto simp: part_eq_iff)
    with append have "step_part (Some t) b = step_part (Some cur) b"
      by (cases b) (auto simp: object_entry_value_map_of map_add_def split: option.splits)
    then show ?thesis using q by (simp add: value_at_Cons)
  qed simp
qed

lemma write_at_total:
  "opv_ok cur \<Longrightarrow> opv_ok v \<Longrightarrow> ordered_projected_value_at cur path = Some u \<Longrightarrow>
     \<exists>t. write_at cur path v allow = Inr t"
proof (induction path arbitrary: cur)
  case Nil
  then show ?case by simp
next
  case (Cons p rest)
  from Cons.prems(3) obtain d where d: "step_part (Some cur) p = Some d"
    and u: "ordered_projected_value_at d rest = Some u"
    by (auto simp: value_at_Cons bind_eq_Some_conv)
  from Cons.prems(1) d have "opv_ok d" by (rule step_part_ok)
  with Cons u obtain c where c: "write_at d rest v allow = Inr c" by blast
  with Cons.prems(2) have "opv_ok c" by (rule write_at_ok [rotated])
  show ?case
  proof (cases p)
    case (PIdx a)
    with d obtain vs i where vs: "cur = OArr vs" "array_slot vs a = Some i" "d = vs ! i"
      by (cases cur) (auto simp: array_slot_def split: option.splits if_splits)
    with \<open>opv_ok c\<close> Cons.prems(1) have "\<forall>x \<in> set (vs[i := c]). opv_ok x"
      by (intro set_list_update_le) auto
    with PIdx vs c show ?thesis by (cases rest) (auto simp: res_simps)
  next
    case (PKey k)
    with d obtain es i where es: "cur = OObj es" "object_entry_index es k = Some i" "d = snd (es ! i)"
      by (cases cur) (auto simp: object_entry_value_def split: option.splits)
    have "distinct (map fst (es[i := (k, c)]))"
      using Cons.prems(1) es by (simp add: keys_update_index)
    moreover have "\<forall>e \<in> set (es[i := (k, c)]). opv_ok (snd e)"
      using Cons.prems(1) es \<open>opv_ok c\<close> by (intro set_list_update_le) auto
    ultimately show ?thesis using PKey es c by (cases rest) (auto simp: res_simps)
  qed
qed

text \<open>A replacement succeeds exactly where the path resolves.\<close>

lemma write_at_resolves:
  "write_at cur path v False = Inr t \<Longrightarrow> ordered_projected_value_at cur path \<noteq> None"
proof (induction path arbitrary: cur t)
  case Nil
  then show ?case by simp
next
  case (Cons p rest)
  from Cons.prems show ?case
  proof (cases rule: write_at_cases)
    case (item a rest' vs i c)
    with Cons.IH show ?thesis
      by (auto simp: value_at_Cons step_part_OArr simp del: step_part.simps)
  next
    case (entry k rest' es i c)
    have mk: "map_of es k = Some (snd (es ! i))"
      using entry(3) object_entry_value_map_of [of es k] by (simp add: object_entry_value_def)
    with entry Cons.IH show ?thesis
      by (auto simp: value_at_Cons step_part_OObj simp del: step_part.simps)
  qed auto
qed

interpretation ops: path_store ordered_projected_value_at ordered_projected_value_replace opv_ok opv_ok
proof
  show "opv_ok t" if "opv_ok s" "opv_ok v" "ordered_projected_value_replace s p v = Inr t" for s v p t
    using that by (auto simp: ordered_projected_value_replace_def split: if_splits intro: write_at_ok)
  show "ordered_projected_value_at t p = Some v"
    if "opv_ok s" "opv_ok v" "ordered_projected_value_replace s p v = Inr t" for s v p t
    using that by (auto simp: ordered_projected_value_replace_def split: if_splits intro: write_at_same)
  show "ordered_projected_value_at t q = ordered_projected_value_at s q"
    if "opv_ok s" "opv_ok v" "ordered_projected_value_replace s p v = Inr t" "\<not> paths_overlap p q"
    for s v p t q
    using that
    by (auto simp: ordered_projected_value_replace_def split: if_splits intro: write_at_disjoint)
  show "\<exists>t. ordered_projected_value_replace s p v = Inr t"
    if "opv_ok s" "opv_ok v" "ordered_projected_value_at s p = Some u" for s v p u
    using that by (auto simp: ordered_projected_value_replace_def intro: write_at_total)
qed

end
