(* ===== verification/Ordered_Laws.thy ===== *)
theory Ordered_Laws
  imports Ordered_Mutation
begin

text \<open>
  Correctness of the path mutations: what each operation reads back, what it leaves alone,
  that it stays inside the carrier domain, and that a splice is undone by its mirror image.
\<close>

section \<open>Undoing a write\<close>

lemma object_entry_index_update:
  "object_entry_index es k = Some i \<Longrightarrow> object_entry_index (es[i := (k, c)]) k = Some i"
proof (induction es arbitrary: i)
  case (Cons e es)
  then show ?case by (cases i) (auto split: if_splits)
qed simp

lemma entry_update_back:
  assumes "object_entry_index es k = Some i"
  shows "es[i := (k, snd (es ! i))] = es"
proof -
  have "(k, snd (es ! i)) = es ! i"
    using object_entry_index_Some [OF assms] by (metis prod.collapse)
  then show ?thesis by simp
qed

lemma entry_value_nth: "object_entry_index es k = Some i \<Longrightarrow> map_of es k = Some (snd (es ! i))"
  using object_entry_value_map_of [of es k] by (simp add: object_entry_value_def)

lemma write_at_back:
  "opv_ok root \<Longrightarrow> ordered_projected_value_at root path = Some u \<Longrightarrow>
     write_at root path v allow = Inr t \<Longrightarrow> write_at t path u allow' = Inr root"
proof (induction path arbitrary: root t)
  case Nil
  then show ?case by simp
next
  case (Cons p rest)
  from Cons.prems(3) show ?case
  proof (cases rule: write_at_cases)
    case (item a rest' vs i c)
    with Cons.prems have u: "ordered_projected_value_at (vs ! i) rest = Some u" and ok: "opv_ok (vs ! i)"
      by (auto simp: value_at_Cons step_part_OArr array_slot_Some simp del: step_part.simps)
    from Cons.IH [OF ok u] item have "write_at c rest u allow' = Inr (vs ! i)" by simp
    with item Cons.prems(1) show ?thesis
      by (cases rest) (auto simp: res_simps array_slot_def split: option.splits if_splits)
  next
    case (entry k rest' es i c)
    then have idx: "object_entry_index (es[i := (k, c)]) k = Some i" "i < length es"
      by (auto simp: object_entry_index_update dest: object_entry_index_Some)
    from entry Cons.prems have u: "ordered_projected_value_at (snd (es ! i)) rest = Some u"
      and ok: "opv_ok (snd (es ! i))"
      by (auto simp: value_at_Cons step_part_OObj entry_value_nth simp del: step_part.simps
          dest: object_entry_index_Some)
    from Cons.IH [OF ok u] entry have "write_at c rest u allow' = Inr (snd (es ! i))" by simp
    with entry idx Cons.prems(1) show ?thesis
      by (cases rest) (auto simp: res_simps entry_update_back)
  next
    case (append k es)
    then have "map_of es k = None" by (simp add: object_entry_index_None map_of_eq_None_iff)
    with append Cons.prems(2) show ?thesis
      by (auto simp: value_at_Cons step_part_OObj simp del: step_part.simps)
  qed simp
qed

lemma replace_back:
  assumes "opv_ok root" and "ordered_projected_value_at root path = Some u"
    and "ordered_projected_value_replace root path v = Inr t"
  shows "ordered_projected_value_replace t path u = Inr root"
  using assms by (auto simp: ordered_projected_value_replace_def split: if_splits intro: write_at_back)

section \<open>Deleting\<close>

lemma delete_at_cases [consumes 1, case_names item leaf entry]:
  assumes "delete_at cur path = Inr t"
  obtains a rest vs i c where "path = PIdx a # rest" "rest \<noteq> []" "cur = OArr vs"
      "array_slot vs a = Some i" "delete_at (vs ! i) rest = Inr c" "t = OArr (vs[i := c])" "opv_ok t"
  | k es i where "path = [PKey k]" "cur = OObj es" "object_entry_index es k = Some i"
      "t = OObj (remove_nth i es)" "opv_ok t"
  | k rest es i c where "path = PKey k # rest" "rest \<noteq> []" "cur = OObj es"
      "object_entry_index es k = Some i" "delete_at (snd (es ! i)) rest = Inr c"
      "t = OObj (es[i := (k, c)])" "opv_ok t"
proof (cases path)
  case Nil
  then show ?thesis using assms by simp
next
  case (Cons p rest)
  show ?thesis
  proof (cases p)
    case (PIdx a)
    with Cons assms obtain vs i c where "rest \<noteq> []" "cur = OArr vs" "array_slot vs a = Some i"
      "delete_at (vs ! i) rest = Inr c" "ordered_projected_array (vs[i := c]) = Inr t"
      by (auto simp: rbind_Inr_iff split: opv.splits option.splits if_splits)
    then show ?thesis
      by (intro that(1) [of a rest vs i c]) (simp_all add: Cons PIdx res_simps)
  next
    case (PKey k)
    with Cons assms obtain es i where es: "cur = OObj es" "object_entry_index es k = Some i"
      by (auto split: opv.splits option.splits)
    show ?thesis
    proof (cases rest)
      case Nil
      with es Cons PKey assms show ?thesis
        by (intro that(2) [of k es i]) (simp_all add: res_simps)
    next
      case (Cons p' rest')
      with es \<open>path = p # rest\<close> PKey assms obtain c where
        "delete_at (snd (es ! i)) rest = Inr c" "ordered_projected_object (es[i := (k, c)]) = Inr t"
        by (auto simp: rbind_Inr_iff)
      then show ?thesis
        by (intro that(3) [of k rest es i c]) (simp_all add: es Cons \<open>path = p # rest\<close> PKey res_simps)
    qed
  qed
qed

lemma map_of_remove_entry:
  "distinct (map fst es) \<Longrightarrow> object_entry_index es k = Some i \<Longrightarrow>
     map_of (remove_nth i es) = (map_of es)(k := None)"
proof (induction es arbitrary: i)
  case (Cons e es)
  then show ?case
    by (cases e) (auto simp: fun_upd_twist fun_upd_idem map_of_eq_None_iff split: if_splits)
qed simp

lemma delete_at_ok: "delete_at cur path = Inr t \<Longrightarrow> opv_ok t"
  by (erule delete_at_cases) simp_all

lemma delete_at_gone:
  "opv_ok cur \<Longrightarrow> delete_at cur path = Inr t \<Longrightarrow>
     ordered_projected_value_at cur path \<noteq> None \<and> ordered_projected_value_at t path = None"
proof (induction path arbitrary: cur t)
  case Nil
  then show ?case by simp
next
  case (Cons p rest)
  from Cons.prems(2) show ?case
  proof (cases rule: delete_at_cases)
    case (item a rest' vs i c)
    with Cons.prems(1) have "opv_ok (vs ! i)" by (auto simp: array_slot_Some)
    with Cons.IH item show ?thesis
      by (auto simp: value_at_Cons step_part_OArr array_slot_def simp del: step_part.simps
          split: option.splits if_splits)
  next
    case (leaf k es i)
    with Cons.prems(1) show ?thesis
      by (auto simp: value_at_Cons step_part_OObj map_of_remove_entry entry_value_nth
          simp del: step_part.simps)
  next
    case (entry k rest' es i c)
    with Cons.prems(1) have "opv_ok (snd (es ! i))" by (auto dest: object_entry_index_Some)
    with Cons.IH entry show ?thesis
      by (auto simp: value_at_Cons step_part_OObj map_of_update_index entry_value_nth
          simp del: step_part.simps)
  qed
qed

lemma delete_at_disjoint:
  "opv_ok cur \<Longrightarrow> delete_at cur path = Inr t \<Longrightarrow> \<not> paths_overlap path q \<Longrightarrow>
     ordered_projected_value_at t q = ordered_projected_value_at cur q"
proof (induction path arbitrary: cur t q)
  case Nil
  then show ?case by simp
next
  case (Cons p rest)
  then obtain b qs where q: "q = b # qs" by (cases q) auto
  from Cons.prems(2) show ?case
  proof (cases rule: delete_at_cases)
    case (item a rest' vs i c)
    show ?thesis
    proof (cases "b = PIdx a")
      case True
      with item Cons q show ?thesis
        by (auto simp: value_at_Cons step_part_OArr array_slot_def part_eq_iff num_arg_index_proper
            simp del: step_part.simps split: option.splits if_splits)
    next
      case False
      with item have "step_part (Some t) b = step_part (Some cur) b"
        by (cases b)
          (auto simp: array_slot_def nth_list_update split: option.splits if_splits
            dest: num_arg_index_inject)
      then show ?thesis using q by (simp add: value_at_Cons)
    qed
  next
    case (leaf k es i)
    with Cons.prems(3) q have "b \<noteq> PKey k" by (auto simp: part_eq_iff)
    with leaf Cons.prems(1) have "step_part (Some t) b = step_part (Some cur) b"
      by (cases b) (auto simp: object_entry_value_map_of map_of_remove_entry)
    then show ?thesis using q by (simp add: value_at_Cons)
  next
    case (entry k rest' es i c)
    show ?thesis
    proof (cases "b = PKey k")
      case True
      with entry Cons q show ?thesis
        by (auto simp: value_at_Cons step_part_OObj map_of_update_index entry_value_nth
            simp del: step_part.simps dest: object_entry_index_Some)
    next
      case False
      with entry have "step_part (Some t) b = step_part (Some cur) b"
        by (cases b) (auto simp: object_entry_value_map_of map_of_update_index)
      then show ?thesis using q by (simp add: value_at_Cons)
    qed
  qed
qed


section \<open>Renaming and merging\<close>

lemma rename_entries_keys:
  "map fst (rename_entries a b es) =
     map (\<lambda>k. if k = a then b else k) (filter (\<lambda>k. k = a \<or> k \<noteq> b) (map fst es))"
  by (induction es) (auto simp: rename_entries_def)

lemma rename_entries_Nil [simp]: "rename_entries a b [] = []"
  by (simp add: rename_entries_def)

lemma rename_entries_Cons [simp]:
  "rename_entries a b ((k, v) # es) =
     (if k = a then [(b, v)] else if k = b then [] else [(k, v)]) @ rename_entries a b es"
  by (simp add: rename_entries_def)

lemma map_of_rename_entries:
  assumes "distinct (map fst es)" and "a \<noteq> b"
  shows "map_of (rename_entries a b es) k =
    (if k = b then map_of es a else if k = a then None else map_of es k)"
  using assms(1)
proof (induction es)
  case (Cons e es)
  obtain c v where e: "e = (c, v)" by (cases e)
  with Cons.prems have "map_of es c = None" by (simp add: map_of_eq_None_iff)
  then show ?case using Cons e assms(2) by (cases "k = b"; cases "k = a"; cases "c = a"; cases "c = b") auto
qed (simp add: rename_entries_def)

text \<open>Reading through the container a write or a delete rebuilt.\<close>

lemma value_at_slot:
  "array_slot vs a = Some i \<Longrightarrow>
     ordered_projected_value_at (OArr vs) (PIdx a # p) = ordered_projected_value_at (vs ! i) p"
  "array_slot vs a = Some i \<Longrightarrow>
     ordered_projected_value_at (OArr (vs[i := c])) (PIdx a # p) = ordered_projected_value_at c p"
  by (auto simp: value_at_Cons step_part_OArr array_slot_def simp del: step_part.simps
      split: option.splits if_splits)

lemma value_at_entry:
  "object_entry_index es k = Some i \<Longrightarrow>
     ordered_projected_value_at (OObj es) (PKey k # p) = ordered_projected_value_at (snd (es ! i)) p"
  "object_entry_index es k = Some i \<Longrightarrow>
     ordered_projected_value_at (OObj (es[i := (k, c)])) (PKey k # p) = ordered_projected_value_at c p"
  by (auto simp: value_at_Cons step_part_OObj entry_value_nth map_of_update_index
      simp del: step_part.simps)

lemma value_at_key:
  "ordered_projected_value_at root path = Some (OObj es) \<Longrightarrow>
     ordered_projected_value_at root (path @ [PKey k]) = map_of es k"
  by (simp add: value_at_append value_at_Cons step_part_OObj del: step_part.simps)

text \<open>Setting one key below a resolved object is a map update that keeps or extends the order.\<close>

lemma set_below_object:
  assumes "ordered_projected_value_at root path = Some (OObj es)"
    and "ordered_projected_value_set root (path @ [PKey k]) v = Inr t"
  shows "\<exists>es'. ordered_projected_value_at t path = Some (OObj es') \<and>
    map_of es' = (map_of es)(k \<mapsto> v) \<and>
    map fst es' = map fst es @ (if k \<in> fst ` set es then [] else [k])"
proof -
  from assms(2) have "write_at root (path @ [PKey k]) v True = Inr t"
    by (simp add: ordered_projected_value_set_def)
  with assms(1) show ?thesis
  proof (induction path arbitrary: root t)
    case Nil
    from Nil(2) show ?case
    proof (cases rule: write_at_cases)
      case (entry k' rest es0 i c)
      with Nil(1) show ?thesis
        by (auto simp: map_of_update_index keys_update_index object_entry_index_None [symmetric])
    next
      case (append k' es0)
      with Nil(1) have "map_of es k = None"
        by (simp add: object_entry_index_None map_of_eq_None_iff)
      with append Nil(1) show ?thesis
        by (auto simp: object_entry_index_None map_add_def fun_eq_iff split: option.splits)
    qed simp_all
  next
    case (Cons p path)
    from Cons.prems(2) show ?case
    proof (cases rule: write_at_cases)
      case (item a rest vs i c)
      with Cons.prems have "ordered_projected_value_at (vs ! i) path = Some (OObj es)"
        by (simp add: value_at_slot)
      moreover from item Cons.prems have "write_at (vs ! i) (path @ [PKey k]) v True = Inr c" by simp
      ultimately show ?thesis using Cons.IH item by (simp add: value_at_slot)
    next
      case (entry k' rest es0 i c)
      with Cons.prems have "ordered_projected_value_at (snd (es0 ! i)) path = Some (OObj es)"
        by (simp add: value_at_entry)
      moreover from entry Cons.prems have "write_at (snd (es0 ! i)) (path @ [PKey k]) v True = Inr c"
        by simp
      ultimately show ?thesis using Cons.IH entry by (simp add: value_at_entry)
    qed auto
  qed
qed

lemma merge_entries_law:
  assumes "merge_entries root path patch = Inr t"
    and "ordered_projected_value_at root path = Some (OObj es)"
    and "distinct (map fst patch)"
  shows "\<exists>es'. ordered_projected_value_at t path = Some (OObj es') \<and>
    map_of es' = map_of es ++ map_of patch \<and>
    map fst es' = map fst es @ filter (\<lambda>k. k \<notin> fst ` set es) (map fst patch)"
  using assms
proof (induction patch arbitrary: root es)
  case (Cons kv patch)
  obtain k v where kv: "kv = (k, v)" by (cases kv)
  with Cons.prems obtain c where c: "ordered_projected_value_set root (path @ [PKey k]) v = Inr c"
    and t: "merge_entries c path patch = Inr t" by (auto simp: rbind_Inr_iff)
  from set_below_object [OF Cons.prems(2) c] obtain es1 where
    es1: "ordered_projected_value_at c path = Some (OObj es1)"
      "map_of es1 = (map_of es)(k \<mapsto> v)"
      "map fst es1 = map fst es @ (if k \<in> fst ` set es then [] else [k])" by blast
  from Cons.IH [OF t es1(1)] Cons.prems(3) kv obtain es' where
    es': "ordered_projected_value_at t path = Some (OObj es')"
      "map_of es' = map_of es1 ++ map_of patch"
      "map fst es' = map fst es1 @ filter (\<lambda>k. k \<notin> fst ` set es1) (map fst patch)" by auto
  have k: "k \<notin> fst ` set patch" using Cons.prems(3) kv by simp
  then have "map_of patch k = None" by (simp add: map_of_eq_None_iff)
  then have "map_of es' = map_of es ++ map_of (kv # patch)"
    using es' es1 kv by (auto simp: map_add_def fun_eq_iff split: option.splits)
  moreover have "set (map fst es1) = insert k (fst ` set es)"
    using es1(3) by auto
  then have "filter (\<lambda>k. k \<notin> fst ` set es1) (map fst patch) =
      filter (\<lambda>k. k \<notin> fst ` set es) (map fst patch)"
    using k by (intro filter_cong) auto
  then have "map fst es' = map fst es @ filter (\<lambda>k. k \<notin> fst ` set es) (map fst (kv # patch))"
    using es' es1 kv by simp
  ultimately show ?case using es'(1) by blast
qed simp

section \<open>Moves and splices\<close>

lemma insert_nth_nth: "j \<le> length ys \<Longrightarrow> insert_nth j x ys ! j = x"
  by (simp add: insert_nth_def nth_append)

lemma move_items_nth:
  "i < length xs \<Longrightarrow> j < length xs \<Longrightarrow> move_items i j xs ! j = xs ! i"
  unfolding move_items_def by (rule insert_nth_nth) (simp add: remove_nth_def)

lemma move_items_rest:
  "i < length xs \<Longrightarrow> j < length xs \<Longrightarrow> remove_nth j (move_items i j xs) = remove_nth i xs"
proof -
  assume "i < length xs" "j < length xs"
  then have len: "j \<le> length (remove_nth i xs)" by (simp add: remove_nth_def)
  have "remove_nth j (insert_nth j x ys) = ys" if "j \<le> length ys" for x and ys :: "'a list"
    using that by (simp add: remove_nth_def insert_nth_def)
  with len show ?thesis by (simp add: move_items_def)
qed

lemma splice_items_back:
  "i + d \<le> length xs \<Longrightarrow>
     splice_items i (length items) (take d (drop i xs)) (splice_items i d items xs) = xs"
  by (simp add: splice_items_def)
    (metis append.assoc append_take_drop_id drop_drop take_add)

lemma splice_items_removed:
  "i + d \<le> length xs \<Longrightarrow> take (length items) (drop i (splice_items i d items xs)) = items"
  by (simp add: splice_items_def)

lemma splice_items_length:
  "i + d \<le> length xs \<Longrightarrow> length (splice_items i d items xs) = length xs - d + length items"
  by (simp add: splice_items_def)


lemma splice_cases:
  assumes "ordered_projected_array_splice root path (IntArg i) (IntArg d) items = Inr (t, OArr removed)"
  obtains vs where "ordered_projected_value_at root path = Some (OArr vs)"
    "0 \<le> i" "nat i \<le> length vs" "0 \<le> d" "nat i + nat d \<le> length vs"
    "\<forall>v \<in> set (splice_items (nat i) (nat d) items vs). opv_ok v"
    "ordered_projected_value_replace root path (OArr (splice_items (nat i) (nat d) items vs)) = Inr t"
    "removed = take (nat d) (drop (nat i) vs)"
proof -
  from assms obtain vs where vs: "ordered_projected_value_at root path = Some (OArr vs)"
    by (simp add: ordered_projected_array_splice_def split: option.splits opv.splits)
  with assms have i: "0 \<le> i" "nat i \<le> length vs"
    by (simp_all add: ordered_projected_array_splice_def num_arg_index_def split: if_splits)
  with vs assms have d: "0 \<le> d" "nat i + nat d \<le> length vs"
    by (simp_all add: ordered_projected_array_splice_def num_arg_index_def split: if_splits)
  with vs i assms show thesis
    by (intro that [of vs])
      (auto simp: ordered_projected_array_splice_def num_arg_index_def rbind_Inr_iff
        ordered_projected_array_iff)
qed

section \<open>Properties\<close>

definition sample_carrier :: opv where
  "sample_carrier =
     OObj [(js ''name'', OPrim (PStr (js ''Ada''))),
           (js ''tags'', OArr [OPrim PNull, OPrim (PBool True), OPrim (PBool False)]),
           (js ''active'', OPrim (PBool True))]"

lemmas sample_eval = sample_carrier_def ordered_projected_value_set_def
  ordered_projected_value_replace_def ordered_projected_value_delete_def
  ordered_projected_array_def ordered_projected_object_def ordered_projected_value_at_def
  object_entry_value_def array_slot_def num_arg_index_def

text \<open>
  C22: a successful set of a valid value produces a valid carrier that reads that value back at
  the path and reads unchanged at every path that does not overlap it.
\<close>

theorem ordered_set_reads_back:
  assumes "opv_ok v" and "ordered_projected_value_set root path v = Inr t"
  shows "opv_ok t \<and> ordered_projected_value_at t path = Some v \<and>
    (\<forall>q. paths_overlap path q \<or> ordered_projected_value_at t q = ordered_projected_value_at root q)"
proof -
  from assms(2) have w: "write_at root path v True = Inr t"
    by (simp add: ordered_projected_value_set_def split: if_splits)
  from write_at_ok [OF w assms(1)] write_at_same [OF w] write_at_disjoint [OF w] show ?thesis by blast
qed

theorem ordered_set_reads_back_witness:
  "\<exists>t. ordered_projected_value_set sample_carrier [PKey (js ''role'')] (OPrim PNull) = Inr t \<and>
    ordered_projected_value_at t [PKey (js ''role'')] = Some (OPrim PNull)"
proof -
  obtain t where t: "ordered_projected_value_set sample_carrier [PKey (js ''role'')] (OPrim PNull) = Inr t"
    by (simp add: sample_eval)
  have "opv_ok (OPrim PNull)" by simp
  from ordered_set_reads_back [OF this t] t show ?thesis by blast
qed

text \<open>
  C23: replacing at a path of a valid carrier succeeds exactly when the path resolves, and
  replacing the old value back restores the carrier.
\<close>

theorem ordered_replace_resolves_and_undoes:
  assumes "opv_ok root" and "opv_ok v"
  shows "((\<exists>t. ordered_projected_value_replace root path v = Inr t) \<longleftrightarrow>
      ordered_projected_value_at root path \<noteq> None) \<and>
    (\<forall>u t. ordered_projected_value_at root path = Some u \<longrightarrow>
      ordered_projected_value_replace root path v = Inr t \<longrightarrow>
      ordered_projected_value_replace t path u = Inr root)"
proof -
  have "ordered_projected_value_at root path \<noteq> None"
    if "ordered_projected_value_replace root path v = Inr t" for t
    using that by (cases "path = []")
      (auto simp: ordered_projected_value_replace_def dest: write_at_resolves)
  with ops.replace_total [OF assms] replace_back [OF assms(1)] show ?thesis by blast
qed

theorem ordered_replace_resolves_and_undoes_witness:
  "(\<exists>t. ordered_projected_value_replace sample_carrier [PKey (js ''tags''), PIdx (IntArg 1)] (OPrim PNull)
       = Inr t) \<and>
   \<not> (\<exists>t. ordered_projected_value_replace sample_carrier [PKey (js ''tags''), PIdx (IntArg 3)] (OPrim PNull)
       = Inr t)"
proof -
  have ok: "opv_ok sample_carrier" "opv_ok (OPrim PNull)" by (simp_all add: sample_carrier_def)
  show ?thesis
    unfolding ordered_replace_resolves_and_undoes [OF ok, THEN conjunct1] by (simp add: sample_eval)
qed

text \<open>
  C24: a successful delete removes a path that resolved before, keeps the carrier valid and
  leaves every path that does not overlap it as it was.
\<close>

theorem ordered_delete_removes:
  assumes "opv_ok root" and "ordered_projected_value_delete root path = Inr t"
  shows "opv_ok t \<and> ordered_projected_value_at root path \<noteq> None \<and>
    ordered_projected_value_at t path = None \<and>
    (\<forall>q. paths_overlap path q \<or> ordered_projected_value_at t q = ordered_projected_value_at root q)"
proof -
  from assms(2) have d: "delete_at root path = Inr t"
    by (simp add: ordered_projected_value_delete_def split: if_splits)
  from delete_at_ok [OF d] delete_at_gone [OF assms(1) d] delete_at_disjoint [OF assms(1) d]
  show ?thesis by blast
qed

theorem ordered_delete_removes_witness:
  "\<exists>t. ordered_projected_value_delete sample_carrier [PKey (js ''name'')] = Inr t \<and>
    ordered_projected_value_at t [PKey (js ''name'')] = None"
proof -
  obtain t where t: "ordered_projected_value_delete sample_carrier [PKey (js ''name'')] = Inr t"
    by (simp add: sample_eval remove_nth_def)
  have "opv_ok sample_carrier" by (simp add: sample_carrier_def)
  from ordered_delete_removes [OF this t] t show ?thesis by blast
qed

text \<open>
  A splice of a valid carrier is undone by splicing the removed items back over the
  inserted ones, which returns the inserted items as the removed ones.
\<close>

theorem ordered_splice_undo:
  assumes "opv_ok root"
    and "ordered_projected_array_splice root path (IntArg i) (IntArg d) items = Inr (t, OArr removed)"
  shows "ordered_projected_array_splice t path (IntArg i) (IntArg (int (length items))) removed =
    Inr (root, OArr items)"
proof -
  obtain vs where vs: "ordered_projected_value_at root path = Some (OArr vs)"
    and i: "0 \<le> i" "nat i \<le> length vs" and d: "0 \<le> d" "nat i + nat d \<le> length vs"
    and items: "\<forall>v \<in> set (splice_items (nat i) (nat d) items vs). opv_ok v"
    and t: "ordered_projected_value_replace root path (OArr (splice_items (nat i) (nat d) items vs)) = Inr t"
    and removed: "removed = take (nat d) (drop (nat i) vs)"
    by (rule splice_cases [OF assms(2)])
  let ?ws = "splice_items (nat i) (nat d) items vs"
  have ok: "opv_ok (OArr vs)" using assms(1) vs by (rule value_at_ok)
  have "ordered_projected_value_at t path = Some (OArr ?ws)"
    by (rule ops.at_replace_same [OF assms(1) _ t]) (use items in simp)
  moreover have "ordered_projected_value_replace t path (OArr vs) = Inr root"
    by (rule replace_back [OF assms(1) vs t])
  moreover have "\<forall>v \<in> set items. opv_ok v" using items by (simp add: splice_items_def)
  moreover have "nat i + length items \<le> length ?ws"
    using i d by (simp add: splice_items_def)
  ultimately show ?thesis
    using i d ok removed splice_items_back [OF d(2), of items] splice_items_removed [OF d(2), of items]
    by (simp add: ordered_projected_array_splice_def num_arg_index_def ordered_projected_array_iff
        [THEN iffD2])
qed

theorem ordered_splice_undo_witness:
  "\<exists>t. ordered_projected_array_splice sample_carrier [PKey (js ''tags'')] (IntArg 1) (IntArg 1)
         [OPrim PNull, OPrim PNull] = Inr (t, OArr [OPrim (PBool True)]) \<and>
       ordered_projected_array_splice t [PKey (js ''tags'')] (IntArg 1) (IntArg 2)
         [OPrim (PBool True)] = Inr (sample_carrier, OArr [OPrim PNull, OPrim PNull])"
proof -
  obtain t where t: "ordered_projected_array_splice sample_carrier [PKey (js ''tags'')] (IntArg 1)
      (IntArg 1) [OPrim PNull, OPrim PNull] = Inr (t, OArr [OPrim (PBool True)])"
    by (simp add: ordered_projected_array_splice_def splice_items_def sample_eval)
  have "opv_ok sample_carrier" by (simp add: sample_carrier_def)
  from ordered_splice_undo [OF this t] t show ?thesis by auto
qed


text \<open>
  C5: a rename inside a valid carrier moves the value to the new name in place: the new name
  reads the old value, the old name is gone, every other name reads as before, and the key
  order is the old one with the source renamed and a retired destination entry left out.
\<close>

theorem ordered_rename_in_place:
  assumes "opv_ok root" and "src \<noteq> dst" and "ordered_projected_object_rename root path src dst = Inr t"
  shows "opv_ok t \<and>
    ordered_projected_value_at root (path @ [PKey src]) \<noteq> None \<and>
    ordered_projected_value_at t (path @ [PKey dst]) = ordered_projected_value_at root (path @ [PKey src]) \<and>
    ordered_projected_value_at t (path @ [PKey src]) = None \<and>
    (\<forall>k. k = src \<or> k = dst \<or>
       ordered_projected_value_at t (path @ [PKey k]) = ordered_projected_value_at root (path @ [PKey k])) \<and>
    (\<exists>es fs. ordered_projected_value_at root path = Some (OObj es) \<and>
       ordered_projected_value_at t path = Some (OObj fs) \<and>
       map fst fs = map (\<lambda>k. if k = src then dst else k)
         (filter (\<lambda>k. k = src \<or> k \<noteq> dst) (map fst es)))"
proof -
  from assms(3) obtain es where es: "ordered_projected_value_at root path = Some (OObj es)"
    by (simp add: ordered_projected_object_rename_def split: option.splits opv.splits)
  with assms(2,3) obtain i next' where i: "object_entry_index es src = Some i"
    and n: "ordered_projected_object (rename_entries src dst es) = Inr next'"
    and t: "ordered_projected_value_replace root path next' = Inr t"
    by (auto simp: ordered_projected_object_rename_def rbind_Inr_iff split: option.splits)
  from n have next': "next' = OObj (rename_entries src dst es)" "opv_ok next'"
    by (auto simp: ordered_projected_object_iff)
  have at: "ordered_projected_value_at t path = Some (OObj (rename_entries src dst es))"
    using ops.at_replace_same [OF assms(1) next'(2) t] next'(1) by simp
  have "distinct (map fst es)" using value_at_ok [OF assms(1) es] by simp
  note rename = map_of_rename_entries [OF this assms(2)]
  show ?thesis
    using ops.replace_inv [OF assms(1) next'(2) t] assms(2) es at entry_value_nth [OF i]
    by (auto simp: value_at_key [OF es] value_at_key [OF at] rename rename_entries_keys)
qed

theorem ordered_rename_in_place_witness:
  "\<exists>t. ordered_projected_object_rename sample_carrier [] (js ''name'') (js ''active'') = Inr t \<and>
    ordered_projected_value_at t [PKey (js ''active'')] = Some (OPrim (PStr (js ''Ada'')))"
proof -
  obtain t where t: "ordered_projected_object_rename sample_carrier [] (js ''name'') (js ''active'') = Inr t"
    by (simp add: ordered_projected_object_rename_def sample_eval)
  have "opv_ok sample_carrier" "js ''name'' \<noteq> js ''active''" by (simp_all add: sample_carrier_def)
  from ordered_rename_in_place [OF this t] t show ?thesis by (auto simp: sample_eval)
qed

text \<open>
  C6: merging a patch with distinct keys into an object overlays the patch on it: every key
  reads the patch value where the patch has one and the old value elsewhere; old keys keep
  their positions and new keys follow in patch order.
\<close>

theorem ordered_merge_overlays:
  assumes "distinct (map fst patch)" and "ordered_projected_object_merge root path patch = Inr t"
  shows "(\<forall>k. ordered_projected_value_at t (path @ [PKey k]) =
      (case map_of patch k of
         Some v \<Rightarrow> Some v
       | None \<Rightarrow> ordered_projected_value_at root (path @ [PKey k]))) \<and>
    (\<exists>es fs. ordered_projected_value_at root path = Some (OObj es) \<and>
       ordered_projected_value_at t path = Some (OObj fs) \<and>
       map fst fs = map fst es @ filter (\<lambda>k. k \<notin> fst ` set es) (map fst patch))"
proof -
  from assms(2) obtain es where es: "ordered_projected_value_at root path = Some (OObj es)"
    and m: "merge_entries root path patch = Inr t"
    by (auto simp: ordered_projected_object_merge_def split: option.splits opv.splits)
  from merge_entries_law [OF m es assms(1)] obtain fs where
    fs: "ordered_projected_value_at t path = Some (OObj fs)" "map_of fs = map_of es ++ map_of patch"
      "map fst fs = map fst es @ filter (\<lambda>k. k \<notin> fst ` set es) (map fst patch)" by blast
  show ?thesis
    using es fs by (auto simp: value_at_key [OF es] value_at_key [OF fs(1)] map_add_def split: option.splits)
qed

theorem ordered_merge_overlays_witness:
  "\<exists>t. ordered_projected_object_merge sample_carrier []
         [(js ''role'', OPrim PNull), (js ''name'', OPrim (PBool True))] = Inr t \<and>
    ordered_projected_value_at t [PKey (js ''name'')] = Some (OPrim (PBool True))"
proof -
  obtain t where t: "ordered_projected_object_merge sample_carrier []
      [(js ''role'', OPrim PNull), (js ''name'', OPrim (PBool True))] = Inr t"
    by (simp add: ordered_projected_object_merge_def sample_eval)
  have d: "distinct (map fst [(js ''role'', OPrim PNull), (js ''name'', OPrim (PBool True))])" by simp
  have "ordered_projected_value_at t ([] @ [PKey (js ''name'')]) = Some (OPrim (PBool True))"
    using ordered_merge_overlays [OF d t, THEN conjunct1, THEN spec, of "js ''name''"] by simp
  with t show ?thesis by auto
qed

text \<open>
  C7: a move inside a valid carrier puts the source item at the destination index and keeps
  the relative order of the others, so the array is permuted and nothing is lost.
\<close>

theorem ordered_move_permutes:
  assumes "opv_ok root"
    and "ordered_projected_array_move root path (IntArg i) (IntArg j) = Inr t"
  shows "opv_ok t \<and>
    (\<exists>vs ws. ordered_projected_value_at root path = Some (OArr vs) \<and>
       ordered_projected_value_at t path = Some (OArr ws) \<and>
       0 \<le> i \<and> nat i < length vs \<and> 0 \<le> j \<and> nat j < length vs \<and>
       ws ! nat j = vs ! nat i \<and> remove_nth (nat j) ws = remove_nth (nat i) vs \<and> mset ws = mset vs)"
proof -
  from assms(2) obtain vs where vs: "ordered_projected_value_at root path = Some (OArr vs)"
    by (simp add: ordered_projected_array_move_def split: option.splits opv.splits)
  with assms(2) have i: "0 \<le> i" "nat i < length vs"
    by (simp_all add: ordered_projected_array_move_def safe_index_def num_arg_index_def split: if_splits)
  with vs assms(2) have j: "0 \<le> j" "nat j < length vs"
    by (simp_all add: ordered_projected_array_move_def safe_index_def num_arg_index_def split: if_splits)
  show ?thesis
  proof (cases "nat i = nat j")
    case True
    with assms vs i j show ?thesis
      by (auto simp: ordered_projected_array_move_def safe_index_def num_arg_index_def split: if_splits)
  next
    case False
    with vs i j assms(2) have
      n: "\<forall>v \<in> set (move_items (nat i) (nat j) vs). opv_ok v"
      and t: "ordered_projected_value_replace root path (OArr (move_items (nat i) (nat j) vs)) = Inr t"
      by (auto simp: ordered_projected_array_move_def safe_index_def num_arg_index_def rbind_Inr_iff
          ordered_projected_array_iff split: if_splits)
    have ok: "opv_ok (OArr (move_items (nat i) (nat j) vs))" using n by simp
    show ?thesis
      using ops.replace_inv [OF assms(1) ok t] ops.at_replace_same [OF assms(1) ok t] vs i j
      by (simp add: move_items_nth move_items_rest mset_move_items)
  qed
qed

theorem ordered_move_permutes_witness:
  "\<exists>t vs ws. ordered_projected_array_move sample_carrier [PKey (js ''tags'')] (IntArg 0) (IntArg 2) = Inr t \<and>
    ordered_projected_value_at t [PKey (js ''tags'')] = Some (OArr ws) \<and> ws ! 2 = OPrim PNull"
proof -
  obtain t where t:
    "ordered_projected_array_move sample_carrier [PKey (js ''tags'')] (IntArg 0) (IntArg 2) = Inr t"
    by (simp add: ordered_projected_array_move_def safe_index_def is_safe_integer_def
        max_safe_integer_def move_items_def insert_nth_def remove_nth_def sample_eval)
  have "opv_ok sample_carrier" by (simp add: sample_carrier_def)
  from ordered_move_permutes [OF this t] t show ?thesis by (auto simp: sample_eval)
qed

end
