(* ===== verification/Value_Graph.thy ===== *)
theory Value_Graph
  imports Ordered_Value
begin

text \<open>
  Projection between the ordered carrier and canonical HSON value nodes
  (\<open>core/projected-value-graph.ts\<close>): construction of value, property and array-item nodes,
  reading them back, and the round trip.
\<close>

datatype graph_error =
    GCarrier opv_error
  | GReservedKey js_string
  | GArrayIndex
  | GRootShape
  | GStrShape
  | GValShape
  | GValDomain
  | GArrayChild
  | GArrayIndexMismatch
  | GItemShape
  | GUnsupported js_string
  | GPropertyNotNode
  | GPropertyShape js_string

definition lift_carrier :: "opv_error + 'a \<Rightarrow> graph_error + 'a" where
  "lift_carrier r = (case r of Inl e \<Rightarrow> Inl (GCarrier e) | Inr a \<Rightarrow> Inr a)"

definition assert_projected_object_key :: "js_string \<Rightarrow> graph_error + unit" where
  "assert_projected_object_key k = rguard (\<not> starts_with k HSON_SYS_PREFIX) (GReservedKey k)"

definition value_node :: "js_string \<Rightarrow> hson_item list \<Rightarrow> hson_node" where
  "value_node tag content = create_node tag None None content"

section \<open>Construction\<close>

fun prim_node :: "prim \<Rightarrow> graph_error + hson_node" where
  "prim_node (PStr s) = Inr (value_node STR_TAG [ItemPrim (PStr s)])"
| "prim_node (PNum x) =
     (case hsonNumber x of
        Inl e \<Rightarrow> Inl (GCarrier CarrierNumber)
      | Inr y \<Rightarrow> Inr (value_node VAL_TAG [ItemPrim (PNum y)]))"
| "prim_node p = Inr (value_node VAL_TAG [ItemPrim p])"

definition property_node :: "js_string \<Rightarrow> hson_node \<Rightarrow> hson_node" where
  "property_node k child =
     create_node k None None
       [ItemNode (if tag_of child = OBJ_TAG \<or> tag_of child = ARR_TAG then child
                  else value_node OBJ_TAG [ItemNode child])]"

definition item_wrapper :: "nat \<Rightarrow> hson_node \<Rightarrow> hson_node" where
  "item_wrapper i child =
     create_node II_TAG None (Some [(HSON_META_INDEX, PStr (nat_str i))]) [ItemNode child]"

fun projected_value_to_hson_node :: "opv \<Rightarrow> graph_error + hson_node"
  and to_members :: "(js_string \<times> opv) list \<Rightarrow> graph_error + hson_item list"
  and to_items :: "nat \<Rightarrow> opv list \<Rightarrow> graph_error + hson_item list" where
  "projected_value_to_hson_node (OPrim p) =
     rbind (lift_carrier (assert_opv (OPrim p))) (\<lambda>u. prim_node p)"
| "projected_value_to_hson_node (OArr vs) =
     rbind (lift_carrier (assert_opv (OArr vs)))
       (\<lambda>u. rbind (to_items 0 vs) (\<lambda>c. Inr (value_node ARR_TAG c)))"
| "projected_value_to_hson_node (OObj es) =
     rbind (lift_carrier (assert_opv (OObj es)))
       (\<lambda>u. rbind (to_members es) (\<lambda>c. Inr (value_node OBJ_TAG c)))"
| "to_members [] = Inr []"
| "to_members ((k, v) # es) =
     rbind (assert_projected_object_key k)
       (\<lambda>u. rbind (projected_value_to_hson_node v)
         (\<lambda>n. rbind (to_members es) (\<lambda>c. Inr (ItemNode (property_node k n) # c))))"
| "to_items i [] = Inr []"
| "to_items i (v # vs) =
     rbind (rguard (int i \<le> max_safe_integer) GArrayIndex)
       (\<lambda>u. rbind (projected_value_to_hson_node v)
         (\<lambda>n. rbind (to_items (Suc i) vs) (\<lambda>c. Inr (ItemNode (item_wrapper i n) # c))))"

definition projected_object_property_to_hson_node :: "js_string \<Rightarrow> opv \<Rightarrow> graph_error + hson_node" where
  "projected_object_property_to_hson_node k v =
     rbind (assert_projected_object_key k)
       (\<lambda>u. rbind (projected_value_to_hson_node v) (\<lambda>n. Inr (property_node k n)))"

definition projected_array_item_to_hson_node :: "num_arg \<Rightarrow> opv \<Rightarrow> graph_error + hson_node" where
  "projected_array_item_to_hson_node a v =
     (case (is_safe_integer a, num_arg_index a) of
        (True, Some i) \<Rightarrow> rbind (projected_value_to_hson_node v) (\<lambda>n. Inr (item_wrapper i n))
      | _ \<Rightarrow> Inl GArrayIndex)"

definition projected_value_to_hson_root :: "opv \<Rightarrow> graph_error + hson_node" where
  "projected_value_to_hson_root v =
     rbind (projected_value_to_hson_node v)
       (\<lambda>n. Inr (create_node ROOT_TAG None None [ItemNode n]))"

section \<open>Reading back\<close>

definition is_value_tag :: "js_string \<Rightarrow> bool" where
  "is_value_tag t \<longleftrightarrow> t = STR_TAG \<or> t = VAL_TAG \<or> t = OBJ_TAG \<or> t = ARR_TAG"

definition is_projected_value_hson_node :: "hson_node \<Rightarrow> bool" where
  "is_projected_value_hson_node n \<longleftrightarrow>
     is_value_tag (tag_of n) \<or>
     tag_of n = ROOT_TAG \<and>
     (case content_of n of
        [ItemNode c] \<Rightarrow> is_Node (ItemNode c) \<and> is_value_tag (tag_of c)
      | _ \<Rightarrow> False)"

definition prim_from_str :: "hson_item list \<Rightarrow> graph_error + opv" where
  "prim_from_str content = (case content of [ItemPrim (PStr s)] \<Rightarrow> Inr (OPrim (PStr s)) | _ \<Rightarrow> Inl GStrShape)"

definition prim_from_val :: "hson_item list \<Rightarrow> graph_error + opv" where
  "prim_from_val content =
     (case content of
        [ItemPrim (PNum x)] \<Rightarrow>
          (case hsonNumber x of Inl e \<Rightarrow> Inl (GCarrier CarrierNumber) | Inr y \<Rightarrow> Inr (OPrim (PNum y)))
      | [ItemPrim PNull] \<Rightarrow> Inr (OPrim PNull)
      | [ItemPrim (PBool b)] \<Rightarrow> Inr (OPrim (PBool b))
      | [ItemPrim (PStr s)] \<Rightarrow> Inl GValDomain
      | [ItemNode c] \<Rightarrow> Inl (if is_Node (ItemNode c) then GValShape else GValDomain)
      | _ \<Rightarrow> Inl GValShape)"

text \<open>The single structural value child an object node is transparent for.\<close>

definition transparent_child :: "hson_item list \<Rightarrow> hson_node option" where
  "transparent_child content =
     (case content of
        [ItemNode c] \<Rightarrow> if is_Node (ItemNode c) \<and> is_value_tag (tag_of c) then Some c else None
      | _ \<Rightarrow> None)"

definition only_node :: "hson_item list \<Rightarrow> hson_node option" where
  "only_node content =
     (case content of [ItemNode c] \<Rightarrow> if is_Node (ItemNode c) then Some c else None | _ \<Rightarrow> None)"

lemma transparent_child_size [termination_simp]:
  "transparent_child cs = Some c \<Longrightarrow> size_list size cs \<le> m \<Longrightarrow> size c < Suc m"
  by (auto simp: transparent_child_def split: list.splits hson_item.splits if_splits)

lemma only_node_size [termination_simp]:
  "only_node cs = Some c \<Longrightarrow> size_list size cs \<le> m \<Longrightarrow> size c < Suc m"
  by (auto simp: only_node_def split: list.splits hson_item.splits if_splits)

fun projected_value_from_hson_node :: "hson_node \<Rightarrow> graph_error + opv"
  and from_items :: "nat \<Rightarrow> hson_item list \<Rightarrow> graph_error + opv list"
  and from_members :: "hson_item list \<Rightarrow> graph_error + (js_string \<times> opv) list" where
  "projected_value_from_hson_node (HsonNode tag attrs meta content) =
     (if tag = ROOT_TAG then
        (case only_node content of None \<Rightarrow> Inl GRootShape | Some c \<Rightarrow> projected_value_from_hson_node c)
      else if tag = STR_TAG then prim_from_str content
      else if tag = VAL_TAG then prim_from_val content
      else if tag = ARR_TAG then
        rbind (from_items 0 content) (\<lambda>vs. lift_carrier (ordered_projected_array vs))
      else if tag \<noteq> OBJ_TAG then Inl (GUnsupported tag)
      else
        (case transparent_child content of
           Some c \<Rightarrow> projected_value_from_hson_node c
         | None \<Rightarrow>
             rbind (from_members content) (\<lambda>es. lift_carrier (ordered_projected_object es))))"
| "from_items i [] = Inr []"
| "from_items i (ItemPrim p # rest) = Inl GArrayChild"
| "from_items i (ItemNode (HsonNode tag attrs meta content) # rest) =
     (if old_shaped_meta meta \<or> tag \<noteq> II_TAG then Inl GArrayChild
      else if node_meta (HsonNode tag attrs meta content) HSON_META_INDEX \<noteq> Some (PStr (nat_str i))
        then Inl GArrayIndexMismatch
      else
        (case only_node content of
           None \<Rightarrow> Inl GItemShape
         | Some c \<Rightarrow>
             rbind (projected_value_from_hson_node c)
               (\<lambda>v. rbind (from_items (Suc i) rest) (\<lambda>vs. Inr (v # vs)))))"
| "from_members [] = Inr []"
| "from_members (ItemPrim p # rest) = Inl GPropertyNotNode"
| "from_members (ItemNode (HsonNode tag attrs meta content) # rest) =
     (if old_shaped_meta meta then Inl GPropertyNotNode
      else rbind (assert_projected_object_key tag)
        (\<lambda>u. case only_node content of
           None \<Rightarrow> Inl (GPropertyShape tag)
         | Some c \<Rightarrow>
             rbind (projected_value_from_hson_node c)
               (\<lambda>v. rbind (from_members rest) (\<lambda>es. Inr ((tag, v) # es)))))"


section \<open>Round trip\<close>

lemma lift_carrier_Inr [res_simps]: "lift_carrier r = Inr a \<longleftrightarrow> r = Inr a"
  by (cases r) (auto simp: lift_carrier_def)

lemma assert_key_Inr [res_simps]:
  "assert_projected_object_key k = Inr u \<longleftrightarrow> \<not> starts_with k HSON_SYS_PREFIX"
  by (auto simp: assert_projected_object_key_def rguard_Inr_iff)

lemma only_node_single [simp]:
  "only_node [ItemNode c] = (if is_Node (ItemNode c) then Some c else None)"
  by (simp add: only_node_def)

lemma is_value_tag_simps [simp]:
  "is_value_tag STR_TAG" "is_value_tag VAL_TAG" "is_value_tag OBJ_TAG" "is_value_tag ARR_TAG"
  by (simp_all add: is_value_tag_def)

lemma user_key_not_value_tag: "\<not> starts_with k HSON_SYS_PREFIX \<Longrightarrow> \<not> is_value_tag k"
  using user_tag_neq by (auto simp: is_value_tag_def)

text \<open>A constructed value node: no containers, a value tag, and read back as \<open>v\<close>.\<close>

definition reads_as :: "hson_node \<Rightarrow> opv \<Rightarrow> bool" where
  "reads_as n v \<longleftrightarrow> attrs_of n = None \<and> meta_of n = None \<and> is_value_tag (tag_of n) \<and>
     projected_value_from_hson_node n = Inr v"

lemma reads_as_is_Node: "reads_as n v \<Longrightarrow> is_Node (ItemNode n)"
  by (simp add: reads_as_def old_shaped_meta_def)

lemma prim_node_reads:
  "prim_node p = Inr n \<Longrightarrow> reads_as n (OPrim p)"
  by (cases p)
    (auto simp: reads_as_def value_node_def prim_from_str_def prim_from_val_def
      hsonNumber_def split: sum.splits if_splits)

lemma property_payload_reads:
  assumes "reads_as n v"
  shows "projected_value_from_hson_node
    (if tag_of n = OBJ_TAG \<or> tag_of n = ARR_TAG then n else value_node OBJ_TAG [ItemNode n]) = Inr v"
  using assms reads_as_is_Node [OF assms]
  by (simp add: reads_as_def value_node_def transparent_child_def)

lemma from_members_property:
  assumes "reads_as n v" and "\<not> starts_with k HSON_SYS_PREFIX" and "from_members c = Inr es"
  shows "from_members (ItemNode (property_node k n) # c) = Inr ((k, v) # es)"
proof -
  have "is_Node (ItemNode (if tag_of n = OBJ_TAG \<or> tag_of n = ARR_TAG then n
      else value_node OBJ_TAG [ItemNode n]))"
    using reads_as_is_Node [OF assms(1)] by (simp add: value_node_def)
  then show ?thesis
    using assms property_payload_reads [OF assms(1)]
    by (simp add: property_node_def assert_projected_object_key_def old_shaped_meta_def)
qed

lemma from_items_wrapper:
  assumes "reads_as n v" and "from_items (Suc i) c = Inr vs"
  shows "from_items i (ItemNode (item_wrapper i n) # c) = Inr (v # vs)"
proof -
  have "\<not> old_shaped_meta (Some [(HSON_META_INDEX, PStr (nat_str i))])"
    by (simp add: old_shaped_meta_def HSON_META_INDEX_def)
  then show ?thesis
    using assms reads_as_is_Node [OF assms(1)]
    by (simp add: item_wrapper_def node_meta_def reads_as_def)
qed

definition plain_member :: "hson_item \<Rightarrow> bool" where
  "plain_member m \<longleftrightarrow> (\<exists>n. m = ItemNode n \<and> \<not> starts_with (tag_of n) HSON_SYS_PREFIX)"

lemma transparent_plain: "list_all plain_member c \<Longrightarrow> transparent_child c = None"
  by (cases c)
    (auto simp: transparent_child_def plain_member_def user_key_not_value_tag split: list.splits)

lemma to_hson_reads:
  "projected_value_to_hson_node v = Inr n \<Longrightarrow> reads_as n v"
  "to_members es = Inr c \<Longrightarrow> from_members c = Inr es \<and> list_all plain_member c"
  "to_items i vs = Inr c \<Longrightarrow> from_items i c = Inr vs"
proof (induction v and es and i vs arbitrary: n and c and c
    rule: projected_value_to_hson_node_to_members_to_items.induct)
  case (1 p)
  then show ?case by (auto simp: res_simps intro: prim_node_reads)
next
  case (2 vs)
  then show ?case
    by (auto simp: res_simps reads_as_def value_node_def ordered_projected_array_def)
next
  case (3 es)
  then show ?case
    by (auto simp: res_simps reads_as_def value_node_def ordered_projected_object_def transparent_plain)
next
  case (5 k v es)
  then obtain m cs where m: "projected_value_to_hson_node v = Inr m" "to_members es = Inr cs"
    "c = ItemNode (property_node k m) # cs" "\<not> starts_with k HSON_SYS_PREFIX"
    by (auto simp: res_simps)
  moreover have "reads_as m v" "from_members cs = Inr es" "list_all plain_member cs"
    using 5 m by (auto simp: res_simps)
  ultimately show ?case
    by (simp add: from_members_property) (simp add: plain_member_def property_node_def)
next
  case (7 i v vs)
  then obtain m cs where m: "projected_value_to_hson_node v = Inr m" "to_items (Suc i) vs = Inr cs"
    "c = ItemNode (item_wrapper i m) # cs"
    by (auto simp: res_simps)
  with 7 have "reads_as m v" "from_items (Suc i) cs = Inr vs" by (auto simp: res_simps)
  then show ?case using m by (simp add: from_items_wrapper)
qed simp_all

text \<open>The values that have a node form, as a predicate on the carrier.\<close>

fun projectable :: "opv \<Rightarrow> bool" where
  "projectable (OPrim p) = prim_finite p"
| "projectable (OArr vs) = (int (length vs) \<le> max_safe_integer + 1 \<and> (\<forall>v \<in> set vs. projectable v))"
| "projectable (OObj es) =
     (distinct (map fst es) \<and>
      (\<forall>e \<in> set es. \<not> starts_with (fst e) HSON_SYS_PREFIX \<and> projectable (snd e)))"

lemma projectable_ok: "projectable v \<Longrightarrow> opv_ok v"
  by (induction v rule: projectable.induct) auto

lemma prim_node_total: "prim_finite p \<Longrightarrow> \<exists>n. prim_node p = Inr n"
  by (cases p) (auto simp: hsonNumber_def)

lemma to_hson_total:
  "(\<exists>n. projected_value_to_hson_node v = Inr n) \<longleftrightarrow> projectable v"
  "(\<exists>c. to_members es = Inr c) \<longleftrightarrow>
     (\<forall>e \<in> set es. \<not> starts_with (fst e) HSON_SYS_PREFIX \<and> projectable (snd e))"
  "(\<exists>c. to_items i vs = Inr c) \<longleftrightarrow>
     (vs \<noteq> [] \<longrightarrow> int (i + length vs) \<le> max_safe_integer + 1) \<and> (\<forall>v \<in> set vs. projectable v)"
proof (induction v and es and i vs rule: projected_value_to_hson_node_to_members_to_items.induct)
  case (1 p)
  show ?case using prim_node_total [of p] by (auto simp: res_simps assert_sound)
next
  case (2 vs)
  show ?case
    using 2 projectable_ok by (auto simp: res_simps assert_sound max_safe_integer_def)
next
  case (3 es)
  then show ?case using projectable_ok by (auto simp: res_simps assert_sound)
next
  case (7 i v vs)
  then show ?case by (cases vs) (auto simp: res_simps max_safe_integer_def)
qed (auto simp: res_simps)

lemma from_hson_ok: "projected_value_from_hson_node n = Inr v \<Longrightarrow> opv_ok v"
proof (induction n rule: projected_value_from_hson_node_from_items_from_members.induct(1)
    [where Q = "\<lambda>i c. True" and R = "\<lambda>c. True"])
  case (1 tag attrs meta content)
  then show ?case
    by (auto simp: res_simps prim_from_str_def prim_from_val_def hsonNumber_def
        split: if_splits option.splits list.splits hson_item.splits prim.splits)
qed auto

section \<open>Properties\<close>

text \<open>
  C25: projecting a value into the node graph and reading the graph back gives the value:
  whenever the construction of a root succeeds, the root is recognised as a value root and
  reads back as exactly the value it was built from, property order and primitive bits included.
\<close>

theorem projected_root_roundtrip:
  assumes "projected_value_to_hson_root v = Inr r"
  shows "projected_value_from_hson_node r = Inr v \<and> is_projected_value_hson_node r"
proof -
  obtain n where n: "projected_value_to_hson_node v = Inr n" and r: "r = bare_node ROOT_TAG [ItemNode n]"
    using assms by (auto simp: projected_value_to_hson_root_def res_simps)
  have "reads_as n v" using n by (rule to_hson_reads)
  moreover have "is_Node (ItemNode n)" using calculation by (rule reads_as_is_Node)
  ultimately show ?thesis
    by (simp add: r reads_as_def is_projected_value_hson_node_def)
qed

text \<open>
  The construction is total on exactly the values that have a node form: finite numbers,
  no duplicate key, no key in the reserved namespace, and arrays whose indexes are safe
  integers; every other value is rejected with an error.
\<close>

theorem projected_root_exists_iff:
  "(\<exists>r. projected_value_to_hson_root v = Inr r) \<longleftrightarrow> projectable v"
  by (simp add: projected_value_to_hson_root_def res_simps to_hson_total(1) flip: ex_simps)

text \<open>
  What the reader returns is always a valid carrier value: no non-finite number and
  no duplicate key leaves the node graph, whatever nodes it is given.
\<close>

theorem graph_reader_returns_valid_carrier:
  assumes "projected_value_from_hson_node n = Inr v"
  shows "assert_opv v = Inr ()"
  using from_hson_ok [OF assms] by (simp add: assert_sound)

definition sample_graph_value :: opv where
  "sample_graph_value =
     OObj [(js ''b'', OArr [OPrim PNull, OPrim (PStr (js ''x''))]), (js ''a'', OObj [])]"

definition sample_graph_root :: hson_node where
  "sample_graph_root = bare_node ROOT_TAG [ItemNode (bare_node OBJ_TAG
     [ItemNode (bare_node (js ''b'') [ItemNode (bare_node ARR_TAG
        [ItemNode (HsonNode II_TAG None (Some [(js ''index'', PStr (js ''0''))])
           [ItemNode (bare_node VAL_TAG [ItemPrim PNull])]),
         ItemNode (HsonNode II_TAG None (Some [(js ''index'', PStr (js ''1''))])
           [ItemNode (bare_node STR_TAG [ItemPrim (PStr (js ''x''))])])])]),
      ItemNode (bare_node (js ''a'') [ItemNode (bare_node OBJ_TAG [])])])]"

lemma nat_str_eval: "nat_str 0 = js ''0''" "nat_str 1 = js ''1''" "nat_str (Suc 0) = js ''1''"
  by (simp_all add: nat_str_def nat_digits.simps digit_unit_def js_def)

lemma sample_graph_eval: "projected_value_to_hson_root sample_graph_value = Inr sample_graph_root"
  by (simp add: projected_value_to_hson_root_def sample_graph_value_def sample_graph_root_def
    assert_sound lift_carrier_def assert_projected_object_key_def property_node_def value_node_def
    item_wrapper_def max_safe_integer_def HSON_SYS_PREFIX_def nat_str_eval HSON_META_INDEX_def
    nat_str_eval [unfolded One_nat_def])

lemma projected_root_roundtrip_witness:
  "projected_value_from_hson_node sample_graph_root = Inr sample_graph_value \<and>
   is_projected_value_hson_node sample_graph_root"
  by (rule projected_root_roundtrip [OF sample_graph_eval])

lemma graph_reader_returns_valid_carrier_witness:
  "assert_opv (OPrim (PStr (js ''x''))) = Inr ()"
  by (rule graph_reader_returns_valid_carrier
      [where n = "bare_node OBJ_TAG [ItemNode (bare_node STR_TAG [ItemPrim (PStr (js ''x''))])]"])
    (simp add: transparent_child_def prim_from_str_def)

end
