(* ===== verification/Js_Heap.thy ===== *)
theory Js_Heap
  imports Hson_Core
begin

text \<open>
  JavaScript objects as the reflective parts of the program see them: a heap of objects with a
  prototype, an array flag and own properties in \<open>Reflect.ownKeys\<close> order, whose reflective
  reads may fail (a proxy trap that throws); and the storage helpers of
  \<open>core/node-storage.ts\<close> that read it without invoking accessors.
\<close>

section \<open>Values and objects\<close>

datatype js_value =
    VUndef
  | VNull
  | VBool bool
  | VNum js_number
  | VStr js_string
  | VBigInt
  | VSymbol
  | VFunction
  | VRef nat

datatype own_key = KStr js_string | KSym nat

datatype descriptor =
    DataProp (desc_enumerable: bool) js_value
  | AccessorProp (desc_enumerable: bool)

text \<open>
  What \<open>Reflect.getOwnPropertyDescriptor\<close> answers for a key that \<open>Reflect.ownKeys\<close>
  listed: a descriptor, \<open>undefined\<close>, or an exception of a proxy trap.
\<close>

datatype desc_read = Desc descriptor | Gone | Trapped

datatype proto = ObjectProto | ArrayProto | NullProto | OtherProto

record js_object =
  obj_proto :: "proto option"
  obj_is_array :: "bool option"
  obj_own :: "(own_key \<times> desc_read) list option"

type_synonym js_heap = "js_object list"

definition heap_obj :: "js_heap \<Rightarrow> nat \<Rightarrow> js_object option" where
  "heap_obj h a = (if a < length h then Some (h ! a) else None)"

definition plain_object :: "(own_key \<times> desc_read) list \<Rightarrow> js_object" where
  "plain_object props =
     \<lparr> obj_proto = Some ObjectProto, obj_is_array = Some False, obj_own = Some props \<rparr>"

definition plain_array :: "(own_key \<times> desc_read) list \<Rightarrow> js_object" where
  "plain_array props =
     \<lparr> obj_proto = Some ArrayProto, obj_is_array = Some True, obj_own = Some props \<rparr>"

lemma heap_obj_Some: "heap_obj h a = Some x \<longleftrightarrow> a < length h \<and> x = h ! a"
  by (auto simp: heap_obj_def)

lemma heap_obj_append: "heap_obj h a = Some x \<Longrightarrow> heap_obj (h @ g) a = Some x"
  by (auto simp: heap_obj_def nth_append)

section \<open>Integral numbers\<close>

text \<open>The integer an IEEE-754 binary64 value denotes, when it denotes one.\<close>

definition num_int :: "js_number \<Rightarrow> int option" where
  "num_int x =
     (let e = unat (num_exponent x);
          f = unat (x AND 0xFFFFFFFFFFFFF);
          m = (if e = 0 then f else f + 2 ^ 52);
          d = (if e = 0 then 1 else e);
          neg = (drop_bit 63 x = 1)
      in if \<not> num_finite x then None
         else if 1075 \<le> d then
           Some ((if neg then - 1 else 1) * int (m * 2 ^ (d - 1075)))
         else if m = 0 then Some 0
         else if 1075 - d < 53 \<and> 2 ^ (1075 - d) dvd m then
           Some ((if neg then - 1 else 1) * int (m div 2 ^ (1075 - d)))
         else None)"

lemma num_int_samples:
  "num_int 0 = Some 0" "num_int 0x3FF0000000000000 = Some 1" "num_int 0x4000000000000000 = Some 2"
  "num_int 0x4008000000000000 = Some 3" "num_int 0xBFF0000000000000 = Some (- 1)"
  "num_int 0x3FE0000000000000 = None" "num_int 0x7FF0000000000000 = None"
  by (simp_all add: num_int_def num_finite_def num_exponent_def)

section \<open>Array index keys\<close>

definition key_digits_value :: "js_string \<Rightarrow> nat" where
  "key_digits_value k = foldl (\<lambda>a u. 10 * a + (unat u - 48)) 0 k"

text \<open>
  \<open>canonical_array_index\<close>: \<open>Number(key)\<close> is compared back with \<open>String(index) === key\<close>, so
  only the plain decimal spelling of an integer below \<open>4294967295\<close> passes.
\<close>

definition canonical_array_index :: "js_string \<Rightarrow> nat option" where
  "canonical_array_index k =
     (if k = [] \<or> \<not> list_all is_ascii_digit k then None
      else let n = key_digits_value k in
        if n < 4294967295 \<and> nat_str n = k then Some n else None)"

lemma digit_unit_unat:
  assumes "d < 10"
  shows "unat (digit_unit d) = 48 + d" and "is_ascii_digit (digit_unit d)"
proof -
  show u: "unat (digit_unit d) = 48 + d"
    using assms unfolding digit_unit_def by (simp only: unat_of_nat) simp
  then show "is_ascii_digit (digit_unit d)"
    using assms by (simp add: is_ascii_digit_def word_le_nat_alt)
qed

lemma nat_digits_not_Nil: "nat_digits n \<noteq> []"
  by (subst nat_digits.simps) simp

lemma foldl_digit_units:
  "\<forall>d \<in> set ds. d < 10 \<Longrightarrow>
   foldl (\<lambda>a u. 10 * a + (unat u - 48)) a (map digit_unit ds) = foldl (\<lambda>a d. 10 * a + d) a ds"
  by (induction ds arbitrary: a) (auto simp: digit_unit_unat(1))

lemma nat_str_all_digits: "nat_str n \<noteq> [] \<and> list_all is_ascii_digit (nat_str n)"
  using nat_digits_lt [of n] nat_digits_not_Nil [of n]
  by (auto simp: nat_str_def list_all_iff digit_unit_unat(2))

lemma key_digits_value_nat_str: "key_digits_value (nat_str n) = n"
  using foldl_digit_units [where ds = "nat_digits n" and a = 0, OF nat_digits_lt] nat_digits_value [of n]
  by (simp add: key_digits_value_def nat_str_def)

lemma canonical_array_index_iff:
  "canonical_array_index k = Some n \<longleftrightarrow> k = nat_str n \<and> n < 4294967295"
  using nat_str_all_digits [of n]
  by (auto simp: canonical_array_index_def Let_def key_digits_value_nat_str)

section \<open>Storage helpers\<close>

datatype prop_read = PropAbsent | PropValue js_value | PropBad

definition own_desc :: "js_object \<Rightarrow> js_string \<Rightarrow> desc_read option" where
  "own_desc x k = (case obj_own x of None \<Rightarrow> None | Some ps \<Rightarrow> map_of ps (KStr k))"

text \<open>\<open>PropBad\<close> stands for the result \<open>undefined\<close> of the code.\<close>

definition own_enumerable_data_property :: "js_object \<Rightarrow> js_string \<Rightarrow> prop_read" where
  "own_enumerable_data_property x k =
     (case own_desc x k of
        Some (Desc (DataProp True v)) \<Rightarrow> PropValue v
      | Some (Desc _) \<Rightarrow> PropBad
      | _ \<Rightarrow> PropAbsent)"

fun own_string_names :: "(own_key \<times> desc_read) list \<Rightarrow> js_string list" where
  "own_string_names [] = []"
| "own_string_names ((KStr k, d) # ps) = k # own_string_names ps"
| "own_string_names ((KSym s, d) # ps) = own_string_names ps"

definition enumerable_own_data_entries :: "js_object \<Rightarrow> (js_string \<times> js_value) list option" where
  "enumerable_own_data_entries x =
     those (map (\<lambda>k. case own_enumerable_data_property x k of
                       PropValue v \<Rightarrow> Some (k, v) | _ \<Rightarrow> None)
       (own_string_names (case obj_own x of None \<Rightarrow> [] | Some ps \<Rightarrow> ps)))"

text \<open>\<open>values.length\<close> of an array object.\<close>

definition array_length :: "js_object \<Rightarrow> nat" where
  "array_length x =
     (case own_desc x (js ''length'') of
        Some (Desc (DataProp e (VNum n))) \<Rightarrow>
          (case num_int n of Some i \<Rightarrow> nat i | None \<Rightarrow> 0)
      | _ \<Rightarrow> 0)"

definition enumerable_own_data_array_items :: "js_object \<Rightarrow> js_value list option" where
  "enumerable_own_data_array_items x =
     those (map (\<lambda>i. case own_desc x (nat_str i) of
                       Some (Desc (DataProp True v)) \<Rightarrow> Some v | _ \<Rightarrow> None)
       [0..<array_length x])"

text \<open>
  \<open>is_plain_record\<close>: an object that is not an array with prototype \<open>Object.prototype\<close> or null.
\<close>

definition is_plain_record :: "js_object \<Rightarrow> bool" where
  "is_plain_record x \<longleftrightarrow>
     obj_is_array x = Some False \<and> (obj_proto x = Some ObjectProto \<or> obj_proto x = Some NullProto)"

text \<open>
  Presence of a field on the prototype. The own names of \<open>Object.prototype\<close> are a parameter:
  the realm the program runs in determines them.
\<close>

definition has_inherited_property :: "js_string list \<Rightarrow> js_object \<Rightarrow> js_string \<Rightarrow> bool" where
  "has_inherited_property object_prototype_names x k \<longleftrightarrow>
     obj_proto x = Some ObjectProto \<and> k \<in> set object_prototype_names"

end
