(* ===== verification/Value_Admission.thy ===== *)
theory Value_Admission
  imports Ordered_Value Js_Heap "HOL-Library.Sublist"
begin

text \<open>
  Admission of an arbitrary JavaScript value into the ordered carrier
  (\<open>core/projected-value-admission.ts\<close>): reflection over the heap with an active set that
  rejects cycles, and its agreement with the declarative unfolding of the heap.
\<close>

datatype adm_code =
    UndefinedValue
  | NonfiniteNumber
  | UnsupportedType
  | UnsupportedPrototype
  | SymbolKey
  | NonenumerableProperty
  | AccessorProperty
  | SparseArray
  | ExtraArrayProperty
  | Cycle
  | ReflectionFailed

datatype adm_part = AKey js_string | AIdx nat

type_synonym adm_path = "adm_part list"
type_synonym adm_active = "(nat \<times> adm_path) list"

datatype adm_error =
    AdmError (adm_code: adm_code) (adm_path: adm_path) (adm_origin: "adm_path option")
  | AdmCarrier opv_error

definition lift_adm :: "opv_error + 'a \<Rightarrow> adm_error + 'a" where
  "lift_adm r = (case r of Inl e \<Rightarrow> Inl (AdmCarrier e) | Inr a \<Rightarrow> Inr a)"

fun own_descriptor :: "desc_read \<Rightarrow> adm_path \<Rightarrow> adm_error + descriptor" where
  "own_descriptor (Desc d) path = Inr d"
| "own_descriptor _ path = Inl (AdmError ReflectionFailed path None)"

fun assert_enumerable_data_descriptor :: "descriptor \<Rightarrow> adm_path \<Rightarrow> adm_error + js_value" where
  "assert_enumerable_data_descriptor d path =
     (if \<not> desc_enumerable d then Inl (AdmError NonenumerableProperty path None)
      else case d of
        DataProp _ v \<Rightarrow> Inr v
      | AccessorProp _ \<Rightarrow> Inl (AdmError AccessorProperty path None))"

section \<open>Arrays\<close>

text \<open>
  The key loop of \<open>admit_array\<close>: the indexed descriptors in key order and the length
  descriptor, which the last \<open>length\<close> key of the list leaves.
\<close>

fun scan_array_keys ::
    "(own_key \<times> desc_read) list \<Rightarrow> adm_path \<Rightarrow> (nat \<times> js_value) list \<Rightarrow> descriptor option \<Rightarrow>
     adm_error + (nat \<times> js_value) list \<times> descriptor option" where
  "scan_array_keys [] path indexed len = Inr (indexed, len)"
| "scan_array_keys ((KSym s, d) # ks) path indexed len = Inl (AdmError SymbolKey path None)"
| "scan_array_keys ((KStr k, d) # ks) path indexed len =
     rbind (own_descriptor d (path @ [AKey k]))
       (\<lambda>ds.
          if k = js ''length'' then scan_array_keys ks path indexed (Some ds)
          else case canonical_array_index k of
            None \<Rightarrow> Inl (AdmError ExtraArrayProperty (path @ [AKey k]) None)
          | Some i \<Rightarrow>
              rbind (assert_enumerable_data_descriptor ds (path @ [AKey k]))
                (\<lambda>v. scan_array_keys ks path (indexed @ [(i, v)]) len))"

definition array_items ::
    "(own_key \<times> desc_read) list \<Rightarrow> adm_path \<Rightarrow> adm_error + (nat \<times> js_value) list" where
  "array_items ks path =
     rbind (scan_array_keys ks path [] None)
       (\<lambda>(indexed, len).
          case len of
            Some (DataProp _ (VNum x)) \<Rightarrow>
              (case num_int x of
                 None \<Rightarrow> Inl (AdmError ReflectionFailed path None)
               | Some n \<Rightarrow>
                   if n < 0 \<or> n > max_safe_integer then Inl (AdmError ReflectionFailed path None)
                   else if int (length indexed) \<noteq> n \<or> (\<exists>e \<in> set indexed. int (fst e) \<ge> n)
                     then Inl (AdmError SparseArray path None)
                   else
                     let sorted = sort_key fst indexed in
                       if map fst sorted \<noteq> [0..<length sorted] then Inl (AdmError SparseArray path None)
                       else Inr sorted)
          | _ \<Rightarrow> Inl (AdmError ReflectionFailed path None))"

section \<open>The recursive admission\<close>

definition inactive :: "js_heap \<Rightarrow> adm_active \<Rightarrow> nat" where
  "inactive h act = card ({..<length h} - fst ` set act)"

lemma inactive_less:
  assumes "map_of act a = None" and "heap_obj h a = Some x"
  shows "inactive h ((a, p) # act) < inactive h act"
proof -
  have "a \<in> {..<length h} - fst ` set act"
    using assms by (auto simp: map_of_eq_None_iff heap_obj_Some)
  then show ?thesis
    unfolding inactive_def by (intro psubset_card_mono) auto
qed

function admit_visit :: "js_heap \<Rightarrow> adm_active \<Rightarrow> js_value \<Rightarrow> adm_path \<Rightarrow> adm_error + opv"
  and admit_entries ::
    "js_heap \<Rightarrow> adm_active \<Rightarrow> (own_key \<times> desc_read) list \<Rightarrow> adm_path \<Rightarrow>
     adm_error + (js_string \<times> opv) list"
  and admit_items ::
    "js_heap \<Rightarrow> adm_active \<Rightarrow> (nat \<times> js_value) list \<Rightarrow> adm_path \<Rightarrow> adm_error + opv list" where
  "admit_visit h act VNull path = Inr (OPrim PNull)"
| "admit_visit h act (VStr s) path = Inr (OPrim (PStr s))"
| "admit_visit h act (VBool b) path = Inr (OPrim (PBool b))"
| "admit_visit h act (VNum x) path =
     (case hsonNumber x of
        Inl e \<Rightarrow> Inl (AdmError NonfiniteNumber path None)
      | Inr y \<Rightarrow> Inr (OPrim (PNum y)))"
| "admit_visit h act VUndef path = Inl (AdmError UndefinedValue path None)"
| "admit_visit h act VBigInt path = Inl (AdmError UnsupportedType path None)"
| "admit_visit h act VSymbol path = Inl (AdmError UnsupportedType path None)"
| "admit_visit h act VFunction path = Inl (AdmError UnsupportedType path None)"
| "admit_visit h act (VRef a) path =
     (case map_of act a of
        Some origin \<Rightarrow> Inl (AdmError Cycle path (Some origin))
      | None \<Rightarrow>
          (case heap_obj h a of
             None \<Rightarrow> Inl (AdmError ReflectionFailed path None)
           | Some x \<Rightarrow>
               (case (obj_proto x, obj_is_array x) of
                  (Some p, Some is_arr) \<Rightarrow>
                    if is_arr then
                      (if p \<noteq> ArrayProto then Inl (AdmError UnsupportedPrototype path None)
                       else case obj_own x of
                         None \<Rightarrow> Inl (AdmError ReflectionFailed path None)
                       | Some ks \<Rightarrow>
                           rbind (array_items ks path)
                             (\<lambda>items. rbind (admit_items h ((a, path) # act) items path)
                               (\<lambda>vs. lift_adm (ordered_projected_array vs))))
                    else
                      (if p \<noteq> ObjectProto \<and> p \<noteq> NullProto
                         then Inl (AdmError UnsupportedPrototype path None)
                       else case obj_own x of
                         None \<Rightarrow> Inl (AdmError ReflectionFailed path None)
                       | Some ks \<Rightarrow>
                           rbind (admit_entries h ((a, path) # act) ks path)
                             (\<lambda>es. lift_adm (ordered_projected_object es)))
                | _ \<Rightarrow> Inl (AdmError ReflectionFailed path None))))"
| "admit_entries h act [] path = Inr []"
| "admit_entries h act ((KSym s, d) # ks) path = Inl (AdmError SymbolKey path None)"
| "admit_entries h act ((KStr k, d) # ks) path =
     rbind (own_descriptor d (path @ [AKey k]))
       (\<lambda>ds. rbind (assert_enumerable_data_descriptor ds (path @ [AKey k]))
         (\<lambda>w. rbind (admit_visit h act w (path @ [AKey k]))
           (\<lambda>v. rbind (admit_entries h act ks path) (\<lambda>es. Inr ((k, v) # es)))))"
| "admit_items h act [] path = Inr []"
| "admit_items h act ((i, w) # items) path =
     rbind (admit_visit h act w (path @ [AIdx i]))
       (\<lambda>v. rbind (admit_items h act items path) (\<lambda>vs. Inr (v # vs)))"
  by pat_completeness auto

termination
  by (relation "measures
      [\<lambda>x. case x of Inl (h, act, _, _) \<Rightarrow> inactive h act
         | Inr (Inl (h, act, _, _)) \<Rightarrow> inactive h act
         | Inr (Inr (h, act, _, _)) \<Rightarrow> inactive h act,
       \<lambda>x. case x of Inl _ \<Rightarrow> 0
         | Inr (Inl (_, _, ks, _)) \<Rightarrow> length ks
         | Inr (Inr (_, _, items, _)) \<Rightarrow> length items]")
    (auto simp: inactive_less)

definition admit_projected_value :: "js_heap \<Rightarrow> js_value \<Rightarrow> adm_path \<Rightarrow> adm_error + opv" where
  "admit_projected_value h input initial_path = admit_visit h [] input initial_path"

section \<open>The declarative unfolding\<close>

text \<open>A heap as the engine keeps it: no object lists a key twice.\<close>

definition heap_wf :: "js_heap \<Rightarrow> bool" where
  "heap_wf h \<longleftrightarrow> (\<forall>x \<in> set h. \<forall>ks. obj_own x = Some ks \<longrightarrow> distinct (map fst ks))"

definition data_props :: "(js_string \<times> js_value) list \<Rightarrow> (own_key \<times> desc_read) list" where
  "data_props kws = map (\<lambda>(k, w). (KStr k, Desc (DataProp True w))) kws"

text \<open>
  The own keys of a dense array with the elements \<open>ws\<close>: the length, and every index as an
  enumerable data property, in any enumeration order.
\<close>

definition dense_props :: "(own_key \<times> desc_read) list \<Rightarrow> js_value list \<Rightarrow> bool" where
  "dense_props ks ws \<longleftrightarrow>
     length ws \<le> 4294967295 \<and>
     (\<exists>e x. num_int x = Some (int (length ws)) \<and>
        set ks = insert (KStr (js ''length''), Desc (DataProp e (VNum x)))
          {(KStr (nat_str i), Desc (DataProp True (ws ! i))) | i. i < length ws})"

text \<open>
  \<open>denotes h w v\<close>: unfolding the references of \<open>w\<close> in \<open>h\<close> ends, meets only plain objects and
  dense arrays of plain data properties, and gives the finite value \<open>v\<close>.
\<close>

inductive denotes :: "js_heap \<Rightarrow> js_value \<Rightarrow> opv \<Rightarrow> bool" for h :: js_heap where
  denotes_null: "denotes h VNull (OPrim PNull)"
| denotes_str: "denotes h (VStr s) (OPrim (PStr s))"
| denotes_bool: "denotes h (VBool b) (OPrim (PBool b))"
| denotes_num: "num_finite x \<Longrightarrow> denotes h (VNum x) (OPrim (PNum x))"
| denotes_obj: "heap_obj h a = Some x \<Longrightarrow> is_plain_record x \<Longrightarrow> obj_own x = Some (data_props kws) \<Longrightarrow>
    map fst kws = map fst es \<Longrightarrow> distinct (map fst es) \<Longrightarrow>
    list_all2 (denotes h) (map snd kws) (map snd es) \<Longrightarrow> denotes h (VRef a) (OObj es)"
| denotes_arr: "heap_obj h a = Some x \<Longrightarrow> obj_is_array x = Some True \<Longrightarrow>
    obj_proto x = Some ArrayProto \<Longrightarrow> obj_own x = Some ks \<Longrightarrow> dense_props ks ws \<Longrightarrow>
    list_all2 (denotes h) ws vs \<Longrightarrow> denotes h (VRef a) (OArr vs)"
monos list_all2_mono

inductive_cases denotes_primE: "denotes h VNull v" "denotes h (VStr s) v" "denotes h (VBool b) v"
  "denotes h (VNum x) v"

lemma denotes_RefE:
  assumes "denotes h (VRef a) v"
  obtains (obj) x kws es where "v = OObj es" "heap_obj h a = Some x" "is_plain_record x"
      "obj_own x = Some (data_props kws)" "map fst kws = map fst es" "distinct (map fst es)"
      "list_all2 (denotes h) (map snd kws) (map snd es)"
    | (arr) x ks ws vs where "v = OArr vs" "heap_obj h a = Some x" "obj_is_array x = Some True"
      "obj_proto x = Some ArrayProto" "obj_own x = Some ks" "dense_props ks ws"
      "list_all2 (denotes h) ws vs"
  using assms by (cases rule: denotes.cases) auto

lemma data_props_inject: "data_props a = data_props b \<longleftrightarrow> a = b"
proof -
  have "inj (\<lambda>(k, w). (KStr k, Desc (DataProp True w)))" by (auto simp: inj_def)
  then show ?thesis unfolding data_props_def by (rule inj_map_eq_map)
qed

lemma nat_str_not_length: "nat_str i \<noteq> js ''length''"
proof
  assume a: "nat_str i = js ''length''"
  have "\<not> list_all is_ascii_digit (js ''length'')"
    by (simp add: js_def is_ascii_digit_def)
  then show False using nat_str_all_digits [of i] a by simp
qed

lemma length_not_nat_str: "js ''length'' \<noteq> nat_str i"
  using nat_str_not_length [of i] by simp

lemma dense_props_unique:
  assumes "dense_props ks ws" and "dense_props ks ws'" and d: "distinct (map fst ks)"
  shows "ws = ws'"
proof -
  obtain e x where l: "num_int x = Some (int (length ws))"
    and s: "set ks = insert (KStr (js ''length''), Desc (DataProp e (VNum x)))
          {(KStr (nat_str i), Desc (DataProp True (ws ! i))) | i. i < length ws}"
    using assms(1) by (auto simp: dense_props_def)
  obtain e' x' where l': "num_int x' = Some (int (length ws'))"
    and s': "set ks = insert (KStr (js ''length''), Desc (DataProp e' (VNum x')))
          {(KStr (nat_str i), Desc (DataProp True (ws' ! i))) | i. i < length ws'}"
    using assms(2) by (auto simp: dense_props_def)
  have "(KStr (js ''length''), Desc (DataProp e (VNum x))) \<in> set ks" by (simp add: s)
  moreover have "(KStr (js ''length''), Desc (DataProp e' (VNum x'))) \<in> set ks" by (simp add: s')
  ultimately have "x = x'" using eq_key_imp_eq_value [OF d] by fastforce
  with l l' have len: "length ws = length ws'" by simp
  show ?thesis
  proof (rule nth_equalityI [OF len])
    fix i assume i: "i < length ws"
    then have "(KStr (nat_str i), Desc (DataProp True (ws ! i))) \<in> set ks" by (auto simp: s)
    moreover have "(KStr (nat_str i), Desc (DataProp True (ws' ! i))) \<in> set ks"
      using i len by (auto simp: s')
    ultimately show "ws ! i = ws' ! i" using eq_key_imp_eq_value [OF d] by fastforce
  qed
qed

lemma heap_own_distinct:
  "heap_wf h \<Longrightarrow> heap_obj h a = Some x \<Longrightarrow> obj_own x = Some ks \<Longrightarrow> distinct (map fst ks)"
  by (auto simp: heap_wf_def heap_obj_Some)

lemma list_all2_both_eq:
  assumes "list_all2 (\<lambda>w v. P w v \<and> (\<forall>v'. P w v' \<longrightarrow> v = v')) ws vs" and "list_all2 P ws vs'"
  shows "vs = vs'"
  using assms
proof (induction arbitrary: vs')
  case (Cons w ws v vs)
  then show ?case by (auto simp: list_all2_Cons1)
qed simp

lemma denotes_unique:
  assumes "heap_wf h" and "denotes h w v" and "denotes h w v'"
  shows "v = v'"
  using assms(2,3)
proof (induction arbitrary: v')
  case (denotes_obj a x kws es)
  from denotes_obj.prems show ?case
  proof (cases rule: denotes_RefE)
    case (obj x' kws' es')
    with denotes_obj have "kws' = kws" by (simp add: data_props_inject)
    with denotes_obj obj have "map snd es = map snd es'"
      by (intro list_all2_both_eq [where P = "denotes h" and ws = "map snd kws"]) auto
    then show ?thesis using obj denotes_obj \<open>kws' = kws\<close> by (simp add: pair_list_eqI)
  next
    case (arr x' ks ws vs)
    then show ?thesis using denotes_obj by (simp add: is_plain_record_def)
  qed
next
  case (denotes_arr a x ks ws vs)
  from denotes_arr.prems show ?case
  proof (cases rule: denotes_RefE)
    case (obj x' kws' es')
    then show ?thesis using denotes_arr by (simp add: is_plain_record_def)
  next
    case (arr x' ks' ws' vs')
    have "distinct (map fst ks)"
      using heap_own_distinct [OF assms(1)] denotes_arr.hyps by blast
    with arr denotes_arr have "ws' = ws" using dense_props_unique by auto
    with denotes_arr arr have "vs = vs'"
      by (intro list_all2_both_eq [where P = "denotes h" and ws = ws]) auto
    then show ?thesis using arr by simp
  qed
qed (auto elim: denotes_primE)

section \<open>Arrays against their declarative form\<close>

definition index_props :: "(nat \<times> js_value) list \<Rightarrow> (own_key \<times> desc_read) set" where
  "index_props jx = (\<lambda>(i, v). (KStr (nat_str i), Desc (DataProp True v))) ` set jx"

lemma index_props_simps [simp]:
  "index_props [] = {}"
  "index_props ((i, v) # jx) = insert (KStr (nat_str i), Desc (DataProp True v)) (index_props jx)"
  by (auto simp: index_props_def)

lemma own_descriptor_Inr [res_simps]: "own_descriptor d path = Inr x \<longleftrightarrow> d = Desc x"
  by (cases d) auto

lemma assert_data_Inr [res_simps]:
  "assert_enumerable_data_descriptor d path = Inr v \<longleftrightarrow> d = DataProp True v"
  by (cases d) auto

declare assert_enumerable_data_descriptor.simps [simp del]

lemma scan_array_keys_sound:
  "scan_array_keys ks path ix0 len0 = Inr (ix, len) \<Longrightarrow> distinct (map fst ks) \<Longrightarrow>
   \<exists>jx. ix = ix0 @ jx \<and> distinct (map fst jx) \<and> (\<forall>i \<in> fst ` set jx. i < 4294967295) \<and>
     (len = len0 \<and> set ks = index_props jx \<or>
      (\<exists>d. len = Some d \<and> set ks = insert (KStr (js ''length''), Desc d) (index_props jx)))"
proof (induction ks path ix0 len0 rule: scan_array_keys.induct)
  case (3 k d ks path ix0 len0)
  obtain ds where d: "d = Desc ds" using "3.prems" by (auto simp: res_simps)
  show ?case
  proof (cases "k = js ''length''")
    case True
    then obtain jx where jx: "ix = ix0 @ jx" "distinct (map fst jx)" "\<forall>i \<in> fst ` set jx. i < 4294967295"
      "len = Some ds \<and> set ks = index_props jx \<or>
        (\<exists>d. len = Some d \<and> set ks = insert (KStr (js ''length''), Desc d) (index_props jx))"
      using "3.IH"(1) [of ds] "3.prems" d by (auto simp: res_simps)
    moreover have "KStr (js ''length'') \<notin> fst ` set ks" using "3.prems" True by simp
    ultimately show ?thesis using d True by force
  next
    case False
    then obtain i v where i: "canonical_array_index k = Some i" "ds = DataProp True v"
      "scan_array_keys ks path (ix0 @ [(i, v)]) len0 = Inr (ix, len)"
      using "3.prems" d by (auto simp: res_simps split: option.splits)
    then obtain jx where jx: "ix = (ix0 @ [(i, v)]) @ jx" "distinct (map fst jx)"
      "\<forall>i \<in> fst ` set jx. i < 4294967295"
      "len = len0 \<and> set ks = index_props jx \<or>
        (\<exists>d. len = Some d \<and> set ks = insert (KStr (js ''length''), Desc d) (index_props jx))"
      using "3.IH"(2) [of ds i v] "3.prems" d False by (auto simp: res_simps)
    have k: "k = nat_str i" "i < 4294967295" using i by (auto simp: canonical_array_index_iff)
    have "index_props jx \<subseteq> set ks" using jx(4) by auto
    then have "i \<notin> fst ` set jx"
      using "3.prems"(2) k by (force simp: index_props_def)
    then show ?thesis using jx i k d
      by (intro exI [of _ "(i, v) # jx"]) (auto simp: insert_commute)
  qed
qed auto

lemma scan_array_keys_total:
  "(\<And>k d. (k, d) \<in> set ks \<Longrightarrow> (\<exists>ds. k = KStr (js ''length'') \<and> d = Desc ds) \<or>
     (\<exists>i v. k = KStr (nat_str i) \<and> i < 4294967295 \<and> d = Desc (DataProp True v))) \<Longrightarrow>
   \<exists>r. scan_array_keys ks path ix0 len0 = Inr r"
proof (induction ks arbitrary: ix0 len0)
  case (Cons e ks)
  obtain k d where e: "e = (k, d)" by (cases e)
  have IH: "\<exists>r. scan_array_keys ks path ix0 len0 = Inr r" for ix0 len0
    using Cons by simp
  from Cons.prems [of k d] e
  consider ds where "k = KStr (js ''length'')" "d = Desc ds"
    | i v where "k = KStr (nat_str i)" "i < 4294967295" "d = Desc (DataProp True v)" by auto
  then show ?case
  proof cases
    case 1
    then show ?thesis using e IH by simp
  next
    case (2 i v)
    then have "canonical_array_index (nat_str i) = Some i" by (simp add: canonical_array_index_iff)
    then show ?thesis using 2 e IH
      by (simp add: nat_str_not_length assert_enumerable_data_descriptor.simps)
  qed
qed simp

lemma enumerated_eq:
  assumes "map fst xs = [0..<length xs]" and "set xs = set (enumerate 0 ws)" and "length xs = length ws"
  shows "xs = enumerate 0 ws"
proof (rule nth_equalityI)
  fix i assume i: "i < length xs"
  then have "fst (xs ! i) = i" using assms(1) by (metis add_0 nth_map nth_upt length_map length_upt minus_nat.diff_0)
  moreover have "xs ! i \<in> set (enumerate 0 ws)" using i assms(2) by (metis nth_mem)
  then obtain j where "j < length ws" "xs ! i = (j, ws ! j)"
    by (auto simp: in_set_enumerate_eq)
  ultimately show "xs ! i = enumerate 0 ws ! i" using i assms(3) by (simp add: nth_enumerate_eq)
qed (simp add: assms(3))

lemma index_props_eq_set:
  assumes "index_props jx = {(KStr (nat_str i), Desc (DataProp True (ws ! i))) | i. i < length ws}"
  shows "set jx = set (enumerate 0 ws)"
proof -
  have "(i, v) \<in> set jx \<longleftrightarrow> i < length ws \<and> v = ws ! i" for i v
  proof -
    have "(i, v) \<in> set jx \<longleftrightarrow> (KStr (nat_str i), Desc (DataProp True v)) \<in> index_props jx"
      by (auto simp: index_props_def)
    also have "\<dots> \<longleftrightarrow> i < length ws \<and> v = ws ! i" by (auto simp: assms)
    finally show ?thesis .
  qed
  then show ?thesis by (auto simp: in_set_enumerate_eq)
qed

lemma index_props_enumerate:
  "set xs = set (enumerate 0 ws) \<Longrightarrow>
   index_props xs = {(KStr (nat_str i), Desc (DataProp True (ws ! i))) | i. i < length ws}"
  by (auto simp: index_props_def in_set_enumerate_eq)

lemma set_sorted_jx: "set (sort_key fst xs) = set xs" by simp

lemma array_items_sound:
  assumes "array_items ks path = Inr items" and d: "distinct (map fst ks)"
  shows "\<exists>ws. dense_props ks ws \<and> items = enumerate 0 ws"
proof -
  obtain jx ln where scan0: "scan_array_keys ks path [] None = Inr (jx, ln)"
    using assms(1) by (auto simp: array_items_def res_simps)
  obtain e x where ln: "ln = Some (DataProp e (VNum x))"
    using assms(1)
    by (simp add: array_items_def scan0 split: option.splits descriptor.splits js_value.splits)
  note scan = scan0 [unfolded ln]
  obtain n where n: "num_int x = Some n" "n = int (length jx)"
    and items: "items = sort_key fst jx" "map fst items = [0..<length items]"
    using assms(1)
    by (cases "num_int x") (auto simp: array_items_def scan ln Let_def split: if_splits)
  from scan_array_keys_sound [OF scan d] have jx: "distinct (map fst jx)"
    "\<forall>i \<in> fst ` set jx. i < 4294967295"
    "set ks = insert (KStr (js ''length''), Desc (DataProp e (VNum x))) (index_props jx)"
    by auto
  define ws where "ws = map snd items"
  have en: "items = enumerate 0 ws"
    using items(2) by (simp add: ws_def enumerate_eq_zip) (metis zip_map_fst_snd)
  then have "set jx = set (enumerate 0 ws)" using items(1) by (metis set_sort)
  then have props: "index_props jx = {(KStr (nat_str i), Desc (DataProp True (ws ! i))) | i. i < length ws}"
    by (rule index_props_enumerate)
  have len: "length ws = length jx" by (simp add: ws_def items(1))
  have "length ws \<le> 4294967295"
  proof (rule ccontr)
    assume "\<not> length ws \<le> 4294967295"
    then have "(4294967295, ws ! 4294967295) \<in> set (enumerate 0 ws)"
      by (simp add: in_set_enumerate_eq)
    then show False using jx(2) \<open>set jx = set (enumerate 0 ws)\<close> by fastforce
  qed
  then have "dense_props ks ws" using jx(3) n len unfolding dense_props_def props by auto
  then show ?thesis using en by blast
qed

lemma array_items_complete:
  assumes "dense_props ks ws" and d: "distinct (map fst ks)"
  shows "array_items ks path = Inr (enumerate 0 ws)"
proof -
  obtain e x where len: "length ws \<le> 4294967295" and l: "num_int x = Some (int (length ws))"
    and s: "set ks = insert (KStr (js ''length''), Desc (DataProp e (VNum x)))
          {(KStr (nat_str i), Desc (DataProp True (ws ! i))) | i. i < length ws}"
    using assms(1) by (auto simp: dense_props_def)
  have "\<exists>r. scan_array_keys ks path [] None = Inr r"
  proof (rule scan_array_keys_total)
    fix k r assume "(k, r) \<in> set ks"
    then show "(\<exists>ds. k = KStr (js ''length'') \<and> r = Desc ds) \<or>
        (\<exists>i v. k = KStr (nat_str i) \<and> i < 4294967295 \<and> r = Desc (DataProp True v))"
      using len unfolding s by fastforce
  qed
  then obtain jx ln where scan: "scan_array_keys ks path [] None = Inr (jx, ln)" by auto
  have lk: "(KStr (js ''length''), Desc (DataProp e (VNum x))) \<in> set ks" by (simp add: s)
  have not_idx: "(KStr (js ''length''), r) \<notin> index_props xs" for r xs
    by (auto simp: index_props_def length_not_nat_str)
  obtain dl where jx: "distinct (map fst jx)" "ln = Some dl"
    "set ks = insert (KStr (js ''length''), Desc dl) (index_props jx)"
    using scan_array_keys_sound [OF scan d] lk not_idx by auto
  have "(KStr (js ''length''), Desc dl) \<in> set ks" by (simp add: jx(3))
  with lk have dl: "dl = DataProp e (VNum x)" using eq_key_imp_eq_value [OF d] by fastforce
  have "index_props jx = set ks - {r. fst r = KStr (js ''length'')}"
    using not_idx by (auto simp: jx(3) index_props_def nat_str_not_length)
  also have "\<dots> = {(KStr (nat_str i), Desc (DataProp True (ws ! i))) | i. i < length ws}"
    unfolding s by (auto simp: nat_str_not_length)
  finally have sj: "set jx = set (enumerate 0 ws)" by (rule index_props_eq_set)
  have lj: "length jx = length ws"
  proof -
    have "distinct jx" using jx(1) by (simp add: distinct_map)
    then have "length jx = card (set (enumerate 0 ws))" using sj by (metis distinct_card)
    also have "\<dots> = length (enumerate 0 ws)" by (rule distinct_card) (simp add: enumerate_eq_zip distinct_zipI1)
    finally show ?thesis by simp
  qed
  have fs: "map fst (sort_key fst jx) = [0..<length ws]"
  proof (rule sorted_distinct_set_unique)
    show "distinct (map fst (sort_key fst jx))"
    proof -
      have "mset (map fst (sort_key fst jx)) = mset (map fst jx)" by simp
      then show ?thesis using jx(1) by (metis mset_eq_imp_distinct_iff)
    qed
    have "fst ` set jx = set (map fst (enumerate 0 ws))" by (simp only: sj list.set_map)
    then show "set (map fst (sort_key fst jx)) = set [0..<length ws]" by simp
  qed simp_all
  then have en: "sort_key fst jx = enumerate 0 ws"
    by (intro enumerated_eq) (simp_all add: sj lj)
  have small: "int (length ws) \<le> max_safe_integer" using len by (simp add: max_safe_integer_def)
  have inb: "\<forall>p \<in> set jx. \<not> int (fst p) \<ge> int (length ws)"
    unfolding sj by (auto simp: in_set_enumerate_eq)
  show ?thesis
    using small inb fs en by (simp add: array_items_def scan jx(2) dl l lj)
qed

lemma array_items_iff:
  "distinct (map fst ks) \<Longrightarrow>
   array_items ks path = Inr items \<longleftrightarrow> (\<exists>ws. dense_props ks ws \<and> items = enumerate 0 ws)"
  using array_items_sound array_items_complete by blast

section \<open>Admission is the declarative unfolding\<close>

lemma lift_adm_Inr [res_simps]: "lift_adm r = Inr a \<longleftrightarrow> r = Inr a"
  by (cases r) (auto simp: lift_adm_def)

lemma data_props_simps [simp]:
  "data_props [] = []" "data_props ((k, w) # kws) = (KStr k, Desc (DataProp True w)) # data_props kws"
  by (simp_all add: data_props_def)

lemma admit_sound:
  shows "admit_visit h act w path = Inr v \<Longrightarrow> heap_wf h \<Longrightarrow> denotes h w v"
    and "admit_entries h act ks path = Inr es \<Longrightarrow> heap_wf h \<Longrightarrow>
      \<exists>kws. ks = data_props kws \<and> map fst kws = map fst es \<and>
        list_all2 (denotes h) (map snd kws) (map snd es)"
    and "admit_items h act items path = Inr vs \<Longrightarrow> heap_wf h \<Longrightarrow>
      list_all2 (denotes h) (map snd items) vs"
proof (induction h act w path and h act ks path and h act items path
    arbitrary: v and es and vs rule: admit_visit_admit_entries_admit_items.induct)
  case (4 h act x path)
  then show ?case by (auto simp: hsonNumber_def intro: denotes_num split: if_splits)
next
  case (9 h act a path)
  then obtain x p is_arr ks where a: "map_of act a = None" "heap_obj h a = Some x"
    "obj_proto x = Some p" "obj_is_array x = Some is_arr" "obj_own x = Some ks"
    by (auto split: option.splits if_splits)
  show ?case
  proof (cases is_arr)
    case True
    then have p: "p = ArrayProto" using 9 a by (auto split: if_splits)
    then obtain items vs where i: "array_items ks path = Inr items"
      "admit_items h ((a, path) # act) items path = Inr vs" "v = OArr vs"
      using 9 a True by (auto simp: res_simps)
    then have "list_all2 (denotes h) (map snd items) vs"
      using "9.IH"(1) a True p "9.prems" by simp
    moreover obtain ws where "dense_props ks ws" "items = enumerate 0 ws"
      using array_items_sound [OF i(1)] heap_own_distinct [OF "9.prems"(2) a(2,5)] by blast
    ultimately show ?thesis using a True p i(3) by (auto intro: denotes_arr)
  next
    case False
    then have p: "p = ObjectProto \<or> p = NullProto" using 9 a by (auto split: if_splits)
    then obtain es where e: "admit_entries h ((a, path) # act) ks path = Inr es" "v = OObj es"
      "distinct (map fst es)"
      using 9 a False by (auto simp: res_simps)
    obtain kws where "ks = data_props kws" "map fst kws = map fst es"
      "list_all2 (denotes h) (map snd kws) (map snd es)"
      using "9.IH"(2) [of x "obj_proto x" "obj_is_array x" p False ks es] a False p "9.prems"(2) e
      by auto
    then show ?thesis using a False p e by (auto intro!: denotes_obj simp: is_plain_record_def)
  qed
next
  case (12 h act k d ks path)
  then obtain w v es' where d: "d = Desc (DataProp True w)" "admit_visit h act w (path @ [AKey k]) = Inr v"
    "admit_entries h act ks path = Inr es'" "es = (k, v) # es'"
    by (auto simp: res_simps)
  then have "denotes h w v" using 12 by (simp add: assert_enumerable_data_descriptor.simps)
  moreover obtain kws where "ks = data_props kws" "map fst kws = map fst es'"
      "list_all2 (denotes h) (map snd kws) (map snd es')"
    using 12 d by (fastforce simp: assert_enumerable_data_descriptor.simps)
  ultimately show ?case using d by (intro exI [of _ "(k, w) # kws"]) simp
next
  case (14 h act i w items path)
  then show ?case by (auto simp: res_simps)
qed (auto intro: denotes_null denotes_str denotes_bool)

text \<open>The active ancestors all unfold to values the current one is a proper part of.\<close>

definition active_above :: "js_heap \<Rightarrow> adm_active \<Rightarrow> opv \<Rightarrow> bool" where
  "active_above h act v \<longleftrightarrow>
     (\<forall>b \<in> fst ` set act. \<exists>u. denotes h (VRef b) u \<and> size v < size u)"

lemma active_above_part:
  "active_above h act u \<Longrightarrow> denotes h (VRef a) u \<Longrightarrow> size v < size u \<Longrightarrow>
   active_above h ((a, p) # act) v"
  unfolding active_above_def by (auto intro: less_trans)

lemma not_active:
  assumes "heap_wf h" and "denotes h (VRef a) u" and "active_above h act u"
  shows "map_of act a = None"
proof (rule ccontr)
  assume "map_of act a \<noteq> None"
  then have "a \<in> fst ` set act" by (simp add: map_of_eq_None_iff)
  then obtain u' where "denotes h (VRef a) u'" "size u < size u'"
    using assms(3) by (auto simp: active_above_def)
  moreover from this(1) have "u' = u" by (rule denotes_unique [OF assms(1) _ assms(2)])
  ultimately show False by simp
qed

lemma list_all2_right: "list_all2 (\<lambda>w v. P w v \<and> Q v) ws vs \<Longrightarrow> \<forall>v \<in> set vs. Q v"
  by (induction rule: list_all2_induct) auto

lemma denotes_opv_ok: "denotes h w v \<Longrightarrow> opv_ok v"
proof (induction rule: denotes.induct)
  case (denotes_obj a x kws es)
  from list_all2_right [OF denotes_obj.IH] show ?case using denotes_obj.hyps by auto
next
  case (denotes_arr a x ks ws vs)
  from list_all2_right [OF denotes_arr.IH] show ?case by simp
qed simp_all

lemma admit_items_all:
  assumes "list_all2 (\<lambda>w v. \<forall>path. admit_visit h act w path = Inr v) ws vs"
  shows "admit_items h act (enumerate n ws) path = Inr vs"
  using assms by (induction ws vs arbitrary: n rule: list_all2_induct) simp_all

lemma admit_entries_all:
  assumes "list_all2 (\<lambda>w v. \<forall>path. admit_visit h act w path = Inr v) (map snd kws) (map snd es)"
    and "map fst kws = map fst es"
  shows "admit_entries h act (data_props kws) path = Inr es"
  using assms
proof (induction kws arbitrary: es)
  case (Cons e kws)
  then show ?case
    by (cases e; cases es) (auto simp: assert_enumerable_data_descriptor.simps)
qed simp

lemma size_entry_less: "u \<in> set (map snd es) \<Longrightarrow> size u < size (OObj es)"
proof (induction es)
  case (Cons e es)
  then show ?case by (cases e) force
qed simp

lemma admit_complete:
  "denotes h w v \<Longrightarrow> heap_wf h \<Longrightarrow> active_above h act v \<Longrightarrow> admit_visit h act w path = Inr v"
proof (induction arbitrary: act path rule: denotes.induct)
  case (denotes_obj a x kws es)
  have d: "denotes h (VRef a) (OObj es)"
    by (rule denotes.denotes_obj)
      (use denotes_obj in \<open>auto elim: list_all2_mono\<close>)
  have "list_all2 (\<lambda>w v. \<forall>p. admit_visit h ((a, path) # act) w p = Inr v) (map snd kws) (map snd es)"
    unfolding list_all2_conv_all_nth
  proof (intro conjI allI impI)
    show "length (map snd kws) = length (map snd es)"
      using denotes_obj.IH by (rule list_all2_lengthD)
    fix i p assume "i < length (map snd kws)"
    moreover have "i < length (map snd es)"
      using calculation \<open>length (map snd kws) = length (map snd es)\<close> by simp
    moreover from this have "active_above h ((a, path) # act) (map snd es ! i)"
      by (intro active_above_part [OF denotes_obj.prems(2) d] size_entry_less nth_mem)
    ultimately show "admit_visit h ((a, path) # act) (map snd kws ! i) p = Inr (map snd es ! i)"
      using denotes_obj.IH denotes_obj.prems(1) by (simp add: list_all2_conv_all_nth)
  qed
  then have "admit_entries h ((a, path) # act) (data_props kws) path = Inr es"
    using denotes_obj.hyps by (intro admit_entries_all) auto
  moreover have "map_of act a = None" by (rule not_active [OF denotes_obj.prems(1) d denotes_obj.prems(2)])
  ultimately show ?case
    using denotes_obj.hyps denotes_opv_ok [OF d]
    by (auto simp: is_plain_record_def lift_adm_Inr ordered_projected_object_iff)
next
  case (denotes_arr a x ks ws vs)
  have d: "denotes h (VRef a) (OArr vs)"
    by (rule denotes.denotes_arr)
      (use denotes_arr in \<open>auto elim: list_all2_mono\<close>)
  have "list_all2 (\<lambda>w v. \<forall>p. admit_visit h ((a, path) # act) w p = Inr v) ws vs"
    unfolding list_all2_conv_all_nth
  proof (intro conjI allI impI)
    show len: "length ws = length vs" using denotes_arr.IH by (rule list_all2_lengthD)
    fix i p assume i: "i < length ws"
    then have "vs ! i \<in> set vs" using len by simp
    then have "size (vs ! i) < size (OArr vs)"
      by (simp add: less_Suc_eq_le size_list_estimation')
    then have "active_above h ((a, path) # act) (vs ! i)"
      by (rule active_above_part [OF denotes_arr.prems(2) d])
    then show "admit_visit h ((a, path) # act) (ws ! i) p = Inr (vs ! i)"
      using i denotes_arr.IH denotes_arr.prems(1) by (simp add: list_all2_conv_all_nth)
  qed
  then have "admit_items h ((a, path) # act) (enumerate 0 ws) path = Inr vs"
    by (rule admit_items_all)
  moreover have "array_items ks path = Inr (enumerate 0 ws)"
    using denotes_arr.hyps heap_own_distinct [OF denotes_arr.prems(1)]
    by (intro array_items_complete) auto
  moreover have "map_of act a = None" by (rule not_active [OF denotes_arr.prems(1) d denotes_arr.prems(2)])
  ultimately show ?case
    using denotes_arr.hyps denotes_opv_ok [OF d]
    by (auto simp: lift_adm_Inr ordered_projected_array_iff)
qed (auto simp: hsonNumber_def)

text \<open>
  C27: admission of a JavaScript value succeeds exactly when the value unfolds to a finite tree
  of finite numbers, dense plain arrays and plain objects with enumerable data properties
  only, and it returns that tree, with properties in own-key order and array items in index
  order. Cycles, accessors, symbols, exotic prototypes and sparse arrays are all rejected;
  shared references that are not cycles are accepted and copied.
\<close>

theorem admission_is_unfolding:
  assumes "heap_wf h"
  shows "admit_projected_value h w path = Inr v \<longleftrightarrow> denotes h w v"
  using assms admit_sound(1) [of h "[]" w path v] admit_complete [of h w v "[]" path]
  by (auto simp: admit_projected_value_def active_above_def)

section \<open>Where errors point\<close>

definition error_located :: "adm_path \<Rightarrow> adm_error + 'a \<Rightarrow> bool" where
  "error_located path r \<longleftrightarrow>
     (case r of
        Inl (AdmError c q org) \<Rightarrow>
          prefix path q \<and> (c = Cycle \<longleftrightarrow> org \<noteq> None) \<and>
          (case org of None \<Rightarrow> True | Some p \<Rightarrow> strict_prefix p q)
      | _ \<Rightarrow> True)"

lemma error_located_simps [simp]:
  "error_located path (Inr v)"
  "error_located path (Inl (AdmCarrier e))"
  "c \<noteq> Cycle \<Longrightarrow> error_located path (Inl (AdmError c q None)) \<longleftrightarrow> prefix path q"
  "error_located path (Inl (AdmError Cycle q (Some p))) \<longleftrightarrow> prefix path q \<and> strict_prefix p q"
  by (auto simp: error_located_def)

lemma error_located_lift [simp]: "error_located path (lift_adm r)"
  by (cases r) (auto simp: lift_adm_def)

lemma error_located_extend: "error_located (path @ [k]) r \<Longrightarrow> error_located path r"
  by (auto simp: error_located_def split: sum.splits adm_error.splits dest: append_prefixD)

lemma error_located_rbind:
  "error_located path r \<Longrightarrow> (\<And>a. r = Inr a \<Longrightarrow> error_located path (f a)) \<Longrightarrow> error_located path (rbind r f)"
  by (cases r) (auto simp: error_located_def split: sum.splits adm_error.splits)

lemma own_descriptor_located: "error_located path (own_descriptor d (path @ [k]))"
  by (cases d) auto

lemma assert_data_located: "error_located path (assert_enumerable_data_descriptor d (path @ [k]))"
  by (cases d) (auto simp: assert_enumerable_data_descriptor.simps)

lemma scan_array_keys_located: "error_located path (scan_array_keys ks path ix len)"
proof (induction ks path ix len rule: scan_array_keys.induct)
  case (3 k d ks path ix len)
  then show ?case
    by (auto intro!: error_located_rbind own_descriptor_located assert_data_located split: option.splits)
qed auto

lemma array_items_located: "error_located path (array_items ks path)"
  unfolding array_items_def
  by (auto intro!: error_located_rbind scan_array_keys_located simp: Let_def
      split: option.splits descriptor.splits js_value.splits)

lemma strict_prefix_snoc: "prefix p path \<Longrightarrow> strict_prefix p (path @ [k])"
  by (auto simp: strict_prefix_def prefix_def)

lemma admit_located:
  "\<forall>p \<in> snd ` set act. strict_prefix p path \<Longrightarrow> error_located path (admit_visit h act w path)"
  "\<forall>p \<in> snd ` set act. prefix p path \<Longrightarrow> error_located path (admit_entries h act ks path)"
  "\<forall>p \<in> snd ` set act. prefix p path \<Longrightarrow> error_located path (admit_items h act items path)"
proof (induction h act w path and h act ks path and h act items path
    rule: admit_visit_admit_entries_admit_items.induct)
  case (4 h act x path)
  then show ?case by (simp add: hsonNumber_def)
next
  case (9 h act a path)
  have act: "\<forall>p \<in> snd ` set ((a, path) # act). prefix p path"
    using "9.prems" by (auto simp: strict_prefix_def)
  show ?case
  proof (cases "map_of act a")
    case (Some p)
    then have "strict_prefix p path" using "9.prems" by (force dest: map_of_SomeD)
    then show ?thesis by (simp add: Some)
  next
    case None
    then show ?thesis
      using "9.IH" act
      by (auto intro!: error_located_rbind array_items_located split: option.splits)
  qed
next
  case (12 h act k d ks path)
  have child: "\<forall>p \<in> snd ` set act. strict_prefix p (path @ [AKey k])"
    using "12.prems" by (auto intro: strict_prefix_snoc)
  have "error_located path (admit_visit h act v (path @ [AKey k]))"
    if "own_descriptor d (path @ [AKey k]) = Inr ds"
      "assert_enumerable_data_descriptor ds (path @ [AKey k]) = Inr v" for ds v
    using "12.IH"(1) [OF that child] by (rule error_located_extend)
  then show ?case
    using "12.IH"(2) "12.prems"
    by (simp only: admit_entries.simps)
      (intro error_located_rbind own_descriptor_located assert_data_located; simp)
next
  case (14 h act i w items path)
  have "error_located path (admit_visit h act w (path @ [AIdx i]))"
    using "14.prems"
    by (intro error_located_extend [OF "14.IH"(1)]) (auto intro: strict_prefix_snoc)
  then show ?case
    using "14.IH"(2) "14.prems"
    by (simp only: admit_items.simps) (intro error_located_rbind; simp)
qed simp_all

text \<open>
  \<open>leads h w p u\<close>: from \<open>w\<close>, following the enumerable data properties a path names, one comes to \<open>u\<close>.
\<close>

definition part_key :: "adm_part \<Rightarrow> own_key" where
  "part_key part = (case part of AKey k \<Rightarrow> KStr k | AIdx i \<Rightarrow> KStr (nat_str i))"

inductive leads :: "js_heap \<Rightarrow> js_value \<Rightarrow> adm_path \<Rightarrow> js_value \<Rightarrow> bool" for h :: js_heap where
  leads_here: "leads h w [] w"
| leads_on: "leads h w p (VRef a) \<Longrightarrow> heap_obj h a = Some x \<Longrightarrow> obj_own x = Some ks \<Longrightarrow>
    (part_key part, Desc (DataProp True u)) \<in> set ks \<Longrightarrow> leads h w (p @ [part]) u"

definition names_ref :: "js_heap \<Rightarrow> js_value \<Rightarrow> adm_path \<Rightarrow> adm_path \<Rightarrow> nat \<Rightarrow> bool" where
  "names_ref h w path p a \<longleftrightarrow> (\<exists>r. p = path @ r \<and> leads h w r (VRef a))"

definition origin_named :: "js_heap \<Rightarrow> js_value \<Rightarrow> adm_path \<Rightarrow> adm_error + 'a \<Rightarrow> bool" where
  "origin_named h w path r \<longleftrightarrow>
     (\<forall>c q p. r = Inl (AdmError c q (Some p)) \<longrightarrow> (\<exists>a. names_ref h w path p a \<and> names_ref h w path q a))"

lemma origin_named_simps [simp]:
  "origin_named h w path (Inr v)" "origin_named h w path (Inl (AdmCarrier e))"
  "origin_named h w path (Inl (AdmError c q None))" "origin_named h w path (lift_adm r)"
  by (auto simp: origin_named_def lift_adm_def split: sum.split)

lemma origin_named_rbind:
  "origin_named h w path r \<Longrightarrow> (\<And>a. r = Inr a \<Longrightarrow> origin_named h w path (f a)) \<Longrightarrow> origin_named h w path (rbind r f)"
  by (cases r) (auto simp: origin_named_def)

lemma origin_named_checks [simp]:
  "origin_named h w path (own_descriptor d q)" "origin_named h w path (assert_enumerable_data_descriptor ds q)"
  by (cases d, simp_all) (cases ds, auto simp: assert_enumerable_data_descriptor.simps)

lemma scan_array_keys_named: "origin_named h w path (scan_array_keys ks q ix len)"
proof (induction ks q ix len rule: scan_array_keys.induct)
  case (3 k d ks q ix len)
  then show ?case by (auto intro!: origin_named_rbind split: option.splits)
qed auto

lemma array_items_named: "origin_named h w path (array_items ks q)"
  unfolding array_items_def
  by (auto intro!: origin_named_rbind scan_array_keys_named simp: Let_def
      split: option.splits descriptor.splits js_value.splits)

lemma scanned_items:
  "scan_array_keys ks path ix0 len0 = Inr (ix, len) \<Longrightarrow>
     \<forall>(i, v) \<in> set ix. (i, v) \<in> set ix0 \<or> (KStr (nat_str i), Desc (DataProp True v)) \<in> set ks"
proof (induction ks path ix0 len0 rule: scan_array_keys.induct)
  case (3 k d ks path ix0 len0)
  obtain ds where d: "d = Desc ds" using "3.prems" by (auto simp: res_simps)
  show ?case
  proof (cases "k = js ''length''")
    case True
    with "3.prems" "3.IH"(1) [of ds] d show ?thesis by (fastforce simp: res_simps)
  next
    case False
    then obtain i v where i: "canonical_array_index k = Some i" "ds = DataProp True v"
      "scan_array_keys ks path (ix0 @ [(i, v)]) len0 = Inr (ix, len)"
      using "3.prems" d by (auto simp: res_simps split: option.splits)
    have "k = nat_str i" using i(1) by (simp add: canonical_array_index_iff)
    with "3.IH"(2) [of ds i v] False d i show ?thesis by (fastforce simp: res_simps)
  qed
qed auto

lemma listed_items:
  assumes "array_items ks path = Inr items" and "(i, v) \<in> set items"
  shows "(KStr (nat_str i), Desc (DataProp True v)) \<in> set ks"
proof -
  from assms(1) obtain indexed len where s: "scan_array_keys ks path [] None = Inr (indexed, len)"
    by (cases "scan_array_keys ks path [] None") (auto simp: array_items_def)
  from assms(1) have "items = sort_key fst indexed"
    by (simp add: array_items_def s Let_def
        split: option.split_asm descriptor.split_asm js_value.split_asm if_split_asm)
  with scanned_items [OF s] assms(2) show ?thesis by auto
qed

lemma admit_origin:
  "\<forall>(a, p) \<in> set act. names_ref h w0 path0 p a \<Longrightarrow> path = path0 @ s \<Longrightarrow> leads h w0 s w \<Longrightarrow>
     origin_named h w0 path0 (admit_visit h act w path)"
  "\<forall>(a, p) \<in> set act. names_ref h w0 path0 p a \<Longrightarrow> path = path0 @ s \<Longrightarrow> leads h w0 s (VRef b) \<Longrightarrow> heap_obj h b = Some x \<Longrightarrow>
     obj_own x = Some all \<Longrightarrow> set ks \<subseteq> set all \<Longrightarrow> origin_named h w0 path0 (admit_entries h act ks path)"
  "\<forall>(a, p) \<in> set act. names_ref h w0 path0 p a \<Longrightarrow> path = path0 @ s \<Longrightarrow> \<forall>(i, v) \<in> set items. leads h w0 (s @ [AIdx i]) v \<Longrightarrow>
     origin_named h w0 path0 (admit_items h act items path)"
proof (induction h act w path and h act ks path and h act items path arbitrary: s and s b x all and s
    rule: admit_visit_admit_entries_admit_items.induct)
  case (4 h act x path)
  then show ?case by (simp add: hsonNumber_def)
next
  case (9 h act a path)
  have here: "names_ref h w0 path0 path a" using "9.prems"(2,3) by (auto simp: names_ref_def)
  then have act: "\<forall>(a, p) \<in> set ((a, path) # act). names_ref h w0 path0 p a" using "9.prems"(1) by auto
  show ?case
  proof (cases "map_of act a")
    case (Some p)
    then have "names_ref h w0 path0 p a" using "9.prems"(1) by (auto dest: map_of_SomeD)
    with here show ?thesis by (auto simp: Some origin_named_def)
  next
    case None
    have items: "\<forall>(i, v) \<in> set items. leads h w0 (s @ [AIdx i]) v"
      if "heap_obj h a = Some x" "obj_own x = Some ks" "array_items ks path = Inr items" for x ks items
      using listed_items [OF that(3)] leads_on [OF "9.prems"(3) that(1,2)] by (auto simp: part_key_def)
    show ?thesis
      using None "9.IH" act items "9.prems"(2,3)
      by (auto intro!: origin_named_rbind array_items_named split: option.splits)
  qed
next
  case (12 h act k d ks path)
  have child: "leads h w0 (s @ [AKey k]) v"
    if "own_descriptor d (path @ [AKey k]) = Inr ds" "assert_enumerable_data_descriptor ds (path @ [AKey k]) = Inr v" for ds v
    using leads_on [OF "12.prems"(3-5), of "AKey k" v] "12.prems"(6) that by (auto simp: res_simps part_key_def)
  have "origin_named h w0 path0 (admit_visit h act v (path @ [AKey k]))"
    if "own_descriptor d (path @ [AKey k]) = Inr ds" "assert_enumerable_data_descriptor ds (path @ [AKey k]) = Inr v" for ds v
    using "12.IH"(1) [OF that "12.prems"(1), of "s @ [AKey k]"] "12.prems"(2) child [OF that] by simp
  moreover have "origin_named h w0 path0 (admit_entries h act ks path)"
    if "own_descriptor d (path @ [AKey k]) = Inr ds" "assert_enumerable_data_descriptor ds (path @ [AKey k]) = Inr v"
      "admit_visit h act v (path @ [AKey k]) = Inr y" for ds v y
    using "12.IH"(2) [OF that "12.prems"(1-5)] "12.prems"(6) by simp
  ultimately show ?case
    by (simp only: admit_entries.simps) (intro origin_named_rbind; simp)
next
  case (14 h act i w items path)
  have "origin_named h w0 path0 (admit_visit h act w (path @ [AIdx i]))"
    using "14.IH"(1) [OF "14.prems"(1), of "s @ [AIdx i]"] "14.prems"(2,3) by simp
  then show ?case
    using "14.IH"(2) "14.prems"
    by (simp only: admit_items.simps) (intro origin_named_rbind; simp)
qed simp_all

text \<open>
  C28: an admission error points inside the value being admitted: its path extends the initial
  path; and exactly the cycle errors carry an origin. The origin of a cycle is a proper prefix of the path
  where the reference returns, and both paths lead, through the properties they name, to one and the
  same object.
\<close>

theorem admission_errors_are_located:
  assumes "admit_projected_value h w path = Inl (AdmError c q org)"
  shows "prefix path q \<and> (c = Cycle \<longleftrightarrow> org \<noteq> None) \<and>
    (\<forall>p. org = Some p \<longrightarrow> strict_prefix p q \<and>
      (\<exists>r s a. p = path @ r \<and> q = path @ s \<and> leads h w r (VRef a) \<and> leads h w s (VRef a)))"
proof -
  have "origin_named h w path (admit_visit h [] w path)"
    using admit_origin(1) [of "[]" h w path path "[]" w] leads_here by simp
  then have "\<forall>p. org = Some p \<longrightarrow> (\<exists>r s a. p = path @ r \<and> q = path @ s \<and> leads h w r (VRef a) \<and> leads h w s (VRef a))"
    using assms by (fastforce simp: admit_projected_value_def origin_named_def names_ref_def)
  with admit_located(1) [of "[]" path h w] assms show ?thesis
    by (auto simp: admit_projected_value_def error_located_def)
qed

section \<open>Samples\<close>

text \<open>\<open>{ self: <itself> }\<close>, and \<open>{ p: s, q: s }\<close> with the shared array \<open>s = ["x"]\<close>.\<close>

definition cyclic_heap :: js_heap where
  "cyclic_heap = [plain_object (data_props [(js ''self'', VRef 0)])]"

definition shared_heap :: js_heap where
  "shared_heap =
     [plain_object (data_props [(js ''p'', VRef 1), (js ''q'', VRef 1)]),
      plain_array (data_props [(js ''0'', VStr (js ''x''))] @
        [(KStr (js ''length''), Desc (DataProp False (VNum 0x3FF0000000000000)))])]"

definition shared_value :: opv where
  "shared_value =
     OObj [(js ''p'', OArr [OPrim (PStr (js ''x''))]), (js ''q'', OArr [OPrim (PStr (js ''x''))])]"

lemma sample_heaps_wf: "heap_wf shared_heap"
  by (simp add: heap_wf_def shared_heap_def plain_object_def plain_array_def)

lemma sample_index: "canonical_array_index (js ''0'') = Some 0"
  by (simp add: canonical_array_index_iff nat_str_def nat_digits.simps digit_unit_def js_def)

lemma shared_items:
  "array_items [(KStr (js ''0''), Desc (DataProp True (VStr (js ''x'')))),
     (KStr (js ''length''), Desc (DataProp False (VNum 0x3FF0000000000000)))] path =
   Inr [(0, VStr (js ''x''))]"
  by (simp add: array_items_def sample_index assert_enumerable_data_descriptor.simps
      num_int_samples max_safe_integer_def)

lemma shared_eval: "admit_projected_value shared_heap (VRef 0) [] = Inr shared_value"
  by (simp add: admit_projected_value_def shared_heap_def plain_object_def plain_array_def
      heap_obj_def shared_items assert_enumerable_data_descriptor.simps lift_adm_def
      ordered_projected_array_def ordered_projected_object_def assert_sound shared_value_def)

lemma cyclic_eval:
  "admit_projected_value cyclic_heap (VRef 0) [] =
   Inl (AdmError Cycle [AKey (js ''self'')] (Some []))"
  by (simp add: admit_projected_value_def cyclic_heap_def plain_object_def heap_obj_def
      assert_enumerable_data_descriptor.simps)

lemma admission_is_unfolding_witness: "denotes shared_heap (VRef 0) shared_value"
  using admission_is_unfolding [OF sample_heaps_wf, of "VRef 0" "[]" shared_value] shared_eval by simp

lemma admission_errors_are_located_witness:
  "admit_projected_value cyclic_heap (VRef 0) [] = Inl (AdmError Cycle [AKey (js ''self'')] (Some [])) \<and>
   strict_prefix [] [AKey (js ''self'')]"
  using admission_errors_are_located [OF cyclic_eval] cyclic_eval by blast

end
