(* ===== verification/Value_Materialization.thy ===== *)
theory Value_Materialization
  imports Value_Admission
begin

text \<open>
  Materialisation of a carrier value as fresh JavaScript objects
  (\<open>core/projected-value-materialization.ts\<close>), with the own-key order of the engine, and its
  composition with admission.
\<close>

section \<open>Lengths as numbers\<close>

fun bit_log :: "nat \<Rightarrow> nat" where
  "bit_log n = (if n < 2 then 0 else Suc (bit_log (n div 2)))"
declare bit_log.simps [simp del]

lemma bit_log_bounds: "0 < n \<Longrightarrow> 2 ^ bit_log n \<le> n \<and> n < 2 ^ Suc (bit_log n)"
proof (induction n rule: bit_log.induct)
  case (1 n)
  show ?case
  proof (cases "n < 2")
    case True
    then show ?thesis using 1 by (simp add: bit_log.simps [of n])
  next
    case False
    then have "2 ^ bit_log (n div 2) \<le> n div 2 \<and> n div 2 < 2 ^ Suc (bit_log (n div 2))"
      using 1 by auto
    moreover define p :: nat where "p = 2 ^ bit_log (n div 2)"
    ultimately have "2 * p \<le> n \<and> n < 2 * (2 * p)" by auto
    then show ?thesis using False by (simp add: bit_log.simps [of n] p_def)
  qed
qed

text \<open>The binary64 value of a natural number below \<open>2 ^ 53\<close>.\<close>

definition num_of_nat :: "nat \<Rightarrow> js_number" where
  "num_of_nat n =
     (if n = 0 then 0
      else of_nat ((bit_log n + 1023) * 2 ^ 52 + (n * 2 ^ (52 - bit_log n) - 2 ^ 52)))"

lemma unat_low_bits: "unat (x AND 0xFFFFFFFFFFFFF :: js_number) = unat x mod 2 ^ 52"
proof -
  have "(0xFFFFFFFFFFFFF :: js_number) = mask 52" by (simp add: mask_eq_exp_minus_1)
  then have "x AND 0xFFFFFFFFFFFFF = take_bit 52 x" by (simp add: take_bit_eq_mask)
  then show ?thesis by (simp only: unsigned_take_bit_eq) (simp only: take_bit_eq_mod)
qed

lemma unat_num_exponent: "unat (num_exponent x) = unat x div 2 ^ 52 mod 2 ^ 11"
proof -
  have "(0x7FF :: js_number) = mask 11" by (simp add: mask_eq_exp_minus_1)
  then have "num_exponent x = take_bit 11 (drop_bit 52 x)"
    by (simp add: num_exponent_def take_bit_eq_mask)
  then show ?thesis
    by (simp only: unsigned_take_bit_eq unat_drop_bit_eq)
      (simp only: take_bit_eq_mod drop_bit_eq_div)
qed

lemma word_pack:
  fixes e m :: nat
  assumes "e < 2 ^ 11" and "m < 2 ^ 52"
  defines "x \<equiv> of_nat (e * 2 ^ 52 + m) :: js_number"
  shows "unat (num_exponent x) = e" and "unat (x AND 0xFFFFFFFFFFFFF) = m"
    and "drop_bit 63 x \<noteq> 1"
proof -
  have "e * 2 ^ 52 + m < 2 ^ 64" using assms(1,2) by simp
  then have u: "unat x = e * 2 ^ 52 + m"
    unfolding x_def by (intro of_nat_inverse [OF refl]) simp
  show "unat (num_exponent x) = e" using assms(1,2) by (simp add: unat_num_exponent u)
  show "unat (x AND 0xFFFFFFFFFFFFF) = m" using assms(1,2) by (simp add: unat_low_bits u)
  show "drop_bit 63 x \<noteq> 1"
  proof
    assume "drop_bit 63 x = 1"
    then have "unat x div 2 ^ 63 = 1"
      by (metis drop_bit_eq_div unat_drop_bit_eq unsigned_1)
    then show False using assms(1,2) by (simp add: u)
  qed
qed

lemma num_int_num_of_nat:
  assumes "n < 2 ^ 53"
  shows "num_int (num_of_nat n) = Some (int n)"
proof (cases "n = 0")
  case True
  then show ?thesis by (simp add: num_of_nat_def num_int_samples)
next
  case False
  define L where "L = bit_log n"
  define m where "m = n * 2 ^ (52 - L) - 2 ^ 52"
  have L: "2 ^ L \<le> n" "n < 2 ^ Suc L" using bit_log_bounds [of n] False by (auto simp: L_def)
  have "(2::nat) ^ L < 2 ^ 53" using L(1) assms by simp
  then have L52: "L \<le> 52" by (simp only: power_strict_increasing_iff)
  have "2 ^ L * 2 ^ (52 - L) \<le> n * 2 ^ (52 - L)" using L(1) by simp
  then have lo: "2 ^ 52 \<le> n * 2 ^ (52 - L)" using L52 by (simp flip: power_add)
  have "n * 2 ^ (52 - L) < 2 ^ Suc L * 2 ^ (52 - L)" using L(2) by simp
  then have hi: "n * 2 ^ (52 - L) < 2 ^ 53" using L52 by (simp flip: power_add power_Suc)
  have m: "m < 2 ^ 52" "m + 2 ^ 52 = n * 2 ^ (52 - L)" using lo hi by (simp_all add: m_def)
  have e: "L + 1023 < 2 ^ 11" using L52 by simp
  define x where "x = num_of_nat n"
  have x: "x = of_nat ((L + 1023) * 2 ^ 52 + m)"
    using False by (simp add: x_def num_of_nat_def m_def L_def)
  note pack = word_pack [OF e m(1), folded x]
  have "num_exponent x \<noteq> 0x7FF" using pack(1) L52 by auto
  then have fin: "num_finite x" by (simp add: num_finite_def)
  note neg = pack(3)
  have dv: "(2::nat) ^ (52 - L) dvd m + 2 ^ 52" "(m + 2 ^ 52) div 2 ^ (52 - L) = n"
    by (simp_all only: m(2)) simp_all
  have nz: "m + 2 ^ 52 \<noteq> 0" by simp
  have n': "num_int x = (if 1075 \<le> L + 1023 then Some (int ((m + 2 ^ 52) * 2 ^ (L + 1023 - 1075)))
      else if 1075 - (L + 1023) < 53 \<and> 2 ^ (1075 - (L + 1023)) dvd m + 2 ^ 52
        then Some (int ((m + 2 ^ 52) div 2 ^ (1075 - (L + 1023)))) else None)"
    unfolding num_int_def Let_def pack(1,2) using fin neg by simp
  have "1075 - (L + 1023) = 52 - L" by simp
  then show ?thesis
    using n' L52 dv m(2) unfolding x_def [symmetric] by (cases "L = 52") auto
qed

section \<open>Own-key order\<close>

text \<open>
  \<open>OrdinaryOwnPropertyKeys\<close>: array indexes ascending, then the other strings in the order
  they were defined.
\<close>

definition is_index_key :: "js_string \<Rightarrow> bool" where
  "is_index_key k \<longleftrightarrow> canonical_array_index k \<noteq> None"

definition own_key_order :: "(js_string \<times> 'a) list \<Rightarrow> (js_string \<times> 'a) list" where
  "own_key_order es =
     sort_key (\<lambda>e. the (canonical_array_index (fst e))) (filter (is_index_key \<circ> fst) es) @
     filter (\<lambda>e. \<not> is_index_key (fst e)) es"

lemma set_own_key_order [simp]: "set (own_key_order es) = set es"
  by (auto simp: own_key_order_def)

lemma mset_own_key_order: "mset (own_key_order es) = mset es"
proof -
  have "mset (own_key_order es) =
      mset (filter (is_index_key \<circ> fst) es) + mset (filter (\<lambda>e. \<not> (is_index_key \<circ> fst) e) es)"
    by (simp add: own_key_order_def comp_def)
  then show ?thesis by (simp only: mset_filter multiset_partition [symmetric])
qed

lemma distinct_own_key_order [simp]:
  "distinct (map fst (own_key_order es)) \<longleftrightarrow> distinct (map fst es)"
proof -
  have "mset (map fst (own_key_order es)) = mset (map fst es)"
    using arg_cong [OF mset_own_key_order, of "image_mset fst" es] by simp
  then show ?thesis by (rule mset_eq_imp_distinct_iff)
qed

lemma insort_key_map_commute: "insort_key f (g x) (map g xs) = map g (insort_key (f \<circ> g) x xs)"
  by (induction xs) auto

lemma sort_key_map_commute: "sort_key f (map g xs) = map g (sort_key (f \<circ> g) xs)"
  by (induction xs) (auto simp: insort_key_map_commute comp_def)

lemma own_key_order_map:
  "own_key_order (map (\<lambda>(k, w). (k, f k w)) es) = map (\<lambda>(k, w). (k, f k w)) (own_key_order es)"
  by (simp add: own_key_order_def filter_map sort_key_map_commute comp_def split_def)

section \<open>Materialisation\<close>

text \<open>
  Each array and object is a fresh object of the heap. It is stored when its children are
  complete: nothing reads it before, so this is the same as filling it in place.
\<close>

definition array_props :: "js_value list \<Rightarrow> (own_key \<times> desc_read) list" where
  "array_props ws =
     data_props (map (\<lambda>(i, w). (nat_str i, w)) (enumerate 0 ws)) @
     [(KStr (js ''length''), Desc (DataProp False (VNum (num_of_nat (length ws)))))]"

fun prim_value :: "prim \<Rightarrow> js_value" where
  "prim_value PNull = VNull"
| "prim_value (PBool b) = VBool b"
| "prim_value (PNum x) = VNum x"
| "prim_value (PStr s) = VStr s"

fun mat_visit :: "opv \<Rightarrow> js_heap \<Rightarrow> js_value \<times> js_heap"
  and mat_items :: "opv list \<Rightarrow> js_heap \<Rightarrow> js_value list \<times> js_heap"
  and mat_entries :: "(js_string \<times> opv) list \<Rightarrow> js_heap \<Rightarrow> (js_string \<times> js_value) list \<times> js_heap" where
  "mat_visit (OPrim p) h = (prim_value p, h)"
| "mat_visit (OArr vs) h =
     (let (ws, h') = mat_items vs h in (VRef (length h'), h' @ [plain_array (array_props ws)]))"
| "mat_visit (OObj es) h =
     (let (kws, h') = mat_entries es h
      in (VRef (length h'), h' @ [plain_object (data_props (own_key_order kws))]))"
| "mat_items [] h = ([], h)"
| "mat_items (v # vs) h =
     (let (w, h') = mat_visit v h; (ws, h'') = mat_items vs h' in (w # ws, h''))"
| "mat_entries [] h = ([], h)"
| "mat_entries ((k, v) # es) h =
     (let (w, h') = mat_visit v h; (kws, h'') = mat_entries es h' in ((k, w) # kws, h''))"

definition materialize_projected_value :: "opv \<Rightarrow> js_heap \<Rightarrow> opv_error + js_value \<times> js_heap" where
  "materialize_projected_value v h = rbind (assert_opv v) (\<lambda>u. Inr (mat_visit v h))"

section \<open>Composition with admission\<close>

text \<open>The same value with the properties of every object in the engine's own-key order.\<close>

fun js_ordered :: "opv \<Rightarrow> opv" where
  "js_ordered (OPrim p) = OPrim p"
| "js_ordered (OArr vs) = OArr (map js_ordered vs)"
| "js_ordered (OObj es) = OObj (own_key_order (map (\<lambda>(k, v). (k, js_ordered v)) es))"

text \<open>Arrays no longer than a JavaScript array can be.\<close>

fun js_sized :: "opv \<Rightarrow> bool" where
  "js_sized (OPrim p) = True"
| "js_sized (OArr vs) = (length vs \<le> 4294967295 \<and> (\<forall>v \<in> set vs. js_sized v))"
| "js_sized (OObj es) = (\<forall>e \<in> set es. js_sized (snd e))"

lemma denotes_mono: "denotes h w v \<Longrightarrow> denotes (h @ g) w v"
proof (induction rule: denotes.induct)
  case (denotes_obj a x kws es)
  then show ?case
    by (intro denotes.denotes_obj [of _ _ x kws]) (auto simp: heap_obj_append elim: list_all2_mono)
next
  case (denotes_arr a x ks ws vs)
  then show ?case
    by (intro denotes.denotes_arr [of _ _ x ks ws]) (auto simp: heap_obj_append elim: list_all2_mono)
qed (auto intro: denotes.intros)

lemma heap_wf_append: "heap_wf (h @ g) \<longleftrightarrow> heap_wf h \<and> heap_wf g"
  by (auto simp: heap_wf_def)

lemma array_props_dense:
  assumes "length ws \<le> 4294967295"
  shows "dense_props (array_props ws) ws" and "distinct (map fst (array_props ws))"
proof -
  have "num_int (num_of_nat (length ws)) = Some (int (length ws))"
    using assms by (intro num_int_num_of_nat) simp
  moreover have "set (enumerate 0 ws) = (\<lambda>i. (i, ws ! i)) ` {..<length ws}"
    by (auto simp: in_set_enumerate_eq)
  then have "set (data_props (map (\<lambda>(i, w). (nat_str i, w)) (enumerate 0 ws))) =
      {(KStr (nat_str i), Desc (DataProp True (ws ! i))) | i. i < length ws}"
    by (auto simp: data_props_def image_image)
  ultimately show "dense_props (array_props ws) ws"
    using assms by (auto simp: dense_props_def array_props_def)
  have f: "map fst (data_props (map (\<lambda>(i, w). (nat_str i, w)) (enumerate 0 ws))) =
      map (KStr \<circ> nat_str) [0..<length ws]"
  proof -
    have "map ((KStr \<circ> nat_str) \<circ> fst) (zip [0..<length ws] ws) = map (KStr \<circ> nat_str) [0..<length ws]"
      by (simp flip: map_map)
    then show ?thesis by (simp add: data_props_def split_def comp_def enumerate_eq_zip)
  qed
  have "inj_on (KStr \<circ> nat_str) S" for S by (auto simp: inj_on_def)
  then show "distinct (map fst (array_props ws))"
    by (auto simp: array_props_def f distinct_map length_not_nat_str)
qed

lemma denotes_prim: "prim_finite p \<Longrightarrow> denotes h (prim_value p) (OPrim p)"
  by (cases p) (auto intro: denotes.intros)

lemma own_key_order_rel:
  assumes "map fst a = map fst b" and "list_all2 P (map snd a) (map snd b)"
  shows "map fst (own_key_order a) = map fst (own_key_order b)"
    and "list_all2 P (map snd (own_key_order a)) (map snd (own_key_order b))"
proof -
  define ts where "ts = map2 (\<lambda>(k, w) (k', v). (k, (w, v))) a b"
  have len: "length a = length b" using assms(1) by (rule map_eq_imp_length_eq)
  have a: "a = map (\<lambda>(k, p). (k, fst p)) ts"
    using len unfolding ts_def by (induction a b rule: list_induct2) auto
  have b: "b = map (\<lambda>(k, p). (k, snd p)) ts"
    using len assms(1) unfolding ts_def by (induction a b rule: list_induct2) auto
  have P: "\<forall>t \<in> set ts. P (fst (snd t)) (snd (snd t))"
    using len assms(2) unfolding ts_def by (induction a b rule: list_induct2) auto
  have oa: "own_key_order a = map (\<lambda>(k, p). (k, fst p)) (own_key_order ts)"
    unfolding a by (rule own_key_order_map)
  have ob: "own_key_order b = map (\<lambda>(k, p). (k, snd p)) (own_key_order ts)"
    unfolding b by (rule own_key_order_map)
  show "map fst (own_key_order a) = map fst (own_key_order b)"
    by (simp add: oa ob split_def)
  show "list_all2 P (map snd (own_key_order a)) (map snd (own_key_order b))"
  proof -
    have "P (fst (snd (own_key_order ts ! i))) (snd (snd (own_key_order ts ! i)))"
      if "i < length (own_key_order ts)" for i
      using P nth_mem [OF that] by simp
    then show ?thesis by (simp add: oa ob split_def list_all2_conv_all_nth)
  qed
qed

lemma distinct_data_props: "distinct (map fst (data_props kws)) \<longleftrightarrow> distinct (map fst kws)"
proof -
  have "map fst (data_props kws) = map KStr (map fst kws)"
    by (simp add: data_props_def split_def comp_def)
  then show ?thesis by (simp add: distinct_map inj_on_def)
qed

lemma heap_obj_snoc: "heap_obj (h @ [x]) (length h) = Some x"
  by (simp add: heap_obj_def)

lemma mat_denotes:
  "mat_visit v h = (w, h') \<Longrightarrow> opv_ok v \<Longrightarrow> js_sized v \<Longrightarrow> heap_wf h \<Longrightarrow>
   prefix h h' \<and> heap_wf h' \<and> denotes h' w (js_ordered v)"
  "mat_items vs h = (ws, h') \<Longrightarrow> \<forall>v \<in> set vs. opv_ok v \<Longrightarrow> \<forall>v \<in> set vs. js_sized v \<Longrightarrow> heap_wf h \<Longrightarrow>
   prefix h h' \<and> heap_wf h' \<and> list_all2 (denotes h') ws (map js_ordered vs)"
  "mat_entries es h = (kws, h') \<Longrightarrow> \<forall>e \<in> set es. opv_ok (snd e) \<Longrightarrow> \<forall>e \<in> set es. js_sized (snd e) \<Longrightarrow>
   heap_wf h \<Longrightarrow>
   prefix h h' \<and> heap_wf h' \<and> map fst kws = map fst es \<and>
     list_all2 (denotes h') (map snd kws) (map (\<lambda>e. js_ordered (snd e)) es)"
proof (induction v h and vs h and es h arbitrary: w h' and ws h' and kws h'
    rule: mat_visit_mat_items_mat_entries.induct)
  case (1 p h)
  then show ?case by (auto intro: denotes_prim)
next
  case (2 vs h)
  then obtain ws h1 where m: "mat_items vs h = (ws, h1)" "w = VRef (length h1)"
    "h' = h1 @ [plain_array (array_props ws)]"
    by (auto split: prod.splits)
  then have i: "prefix h h1" "heap_wf h1" "list_all2 (denotes h1) ws (map js_ordered vs)"
    using 2 by auto
  then have len: "length ws \<le> 4294967295" using 2 by (auto dest: list_all2_lengthD)
  have "denotes h' w (OArr (map js_ordered vs))"
    unfolding m(2)
    by (rule denotes_arr [of _ _ "plain_array (array_props ws)" "array_props ws" ws])
      (use i array_props_dense(1) [OF len] in
        \<open>auto simp: m(3) heap_obj_snoc plain_array_def elim: list_all2_mono intro: denotes_mono\<close>)
  moreover have "heap_wf h'"
    using i array_props_dense(2) [OF len] by (simp add: m(3) heap_wf_append) (simp add: heap_wf_def plain_array_def)
  ultimately show ?case using i(1) by (simp add: m(3) prefix_prefix)
next
  case (3 es h)
  then obtain kws h1 where m: "mat_entries es h = (kws, h1)" "w = VRef (length h1)"
    "h' = h1 @ [plain_object (data_props (own_key_order kws))]"
    by (auto split: prod.splits)
  define es' where "es' = map (\<lambda>(k, v). (k, js_ordered v)) es"
  have i: "prefix h h1" "heap_wf h1" "map fst kws = map fst es'"
    "list_all2 (denotes h1) (map snd kws) (map snd es')"
    using 3 m(1) by (auto simp: es'_def split_def comp_def)
  have dist: "distinct (map fst es')" using 3 by (simp add: es'_def split_def comp_def)
  note rel = own_key_order_rel [OF i(3,4)]
  have "denotes h' w (OObj (own_key_order es'))"
    unfolding m(2)
    by (rule denotes_obj [of _ _ "plain_object (data_props (own_key_order kws))" "own_key_order kws"])
      (use rel dist in \<open>auto simp: m(3) heap_obj_snoc plain_object_def is_plain_record_def
        elim: list_all2_mono intro: denotes_mono\<close>)
  moreover have "heap_wf h'"
    using i(2) dist rel(1) i(3)
    by (simp add: m(3) heap_wf_append) (simp add: heap_wf_def plain_object_def distinct_data_props)
  ultimately show ?case using i(1) by (simp add: m(3) prefix_prefix es'_def)
next
  case (5 v vs h)
  then obtain w1 h1 ws1 where m: "mat_visit v h = (w1, h1)" "mat_items vs h1 = (ws1, h')"
    "ws = w1 # ws1"
    by (auto split: prod.splits)
  have "prefix h h1 \<and> heap_wf h1 \<and> denotes h1 w1 (js_ordered v)" using 5 m by auto
  moreover have "prefix h1 h' \<and> heap_wf h' \<and> list_all2 (denotes h') ws1 (map js_ordered vs)"
    using 5 m calculation by auto
  ultimately show ?case by (auto simp: m(3) prefix_def intro: denotes_mono)
next
  case (7 k v es h)
  then obtain w1 h1 kws1 where m: "mat_visit v h = (w1, h1)" "mat_entries es h1 = (kws1, h')"
    "kws = (k, w1) # kws1"
    by (auto split: prod.splits)
  have "prefix h h1 \<and> heap_wf h1 \<and> denotes h1 w1 (js_ordered v)" using 7 m by auto
  moreover have "prefix h1 h' \<and> heap_wf h' \<and> map fst kws1 = map fst es \<and>
      list_all2 (denotes h') (map snd kws1) (map (\<lambda>e. js_ordered (snd e)) es)"
    using 7 m calculation by auto
  ultimately show ?case by (auto simp: m(3) prefix_def intro: denotes_mono)
qed auto

text \<open>
  C29: materialising a carrier value and admitting the result gives the value back, with the
  properties of every object in the engine's own-key order (array indexes first, ascending),
  and leaves every object that existed before untouched.
\<close>

theorem materialize_then_admit:
  assumes "materialize_projected_value v h = Inr (w, h')" and "heap_wf h" and "js_sized v"
  shows "admit_projected_value h' w path = Inr (js_ordered v) \<and> prefix h h'"
proof -
  have "mat_visit v h = (w, h')" "opv_ok v"
    using assms(1) by (auto simp: materialize_projected_value_def res_simps assert_sound)
  then have "prefix h h' \<and> heap_wf h' \<and> denotes h' w (js_ordered v)"
    using mat_denotes(1) assms(2,3) by blast
  then show ?thesis by (simp add: admission_is_unfolding)
qed

definition sample_indexed :: opv where
  "sample_indexed = OObj [(js ''b'', OPrim PNull), (js ''0'', OArr [OPrim (PBool True)])]"

lemma not_index_b: "canonical_array_index (js ''b'') = None"
  by (simp add: canonical_array_index_def js_def is_ascii_digit_def)

lemma sample_indexed_eval:
  "materialize_projected_value sample_indexed [] =
   Inr (VRef 1, [plain_array (array_props [VBool True]),
     plain_object (data_props [(js ''0'', VRef 0), (js ''b'', VNull)])])"
  by (simp add: materialize_projected_value_def sample_indexed_def assert_sound own_key_order_def
      is_index_key_def not_index_b sample_index)

lemma materialize_then_admit_witness:
  "admit_projected_value [plain_array (array_props [VBool True]),
     plain_object (data_props [(js ''0'', VRef 0), (js ''b'', VNull)])] (VRef 1) [] =
     Inr (js_ordered sample_indexed) \<and>
   prefix ([] :: js_heap) [plain_array (array_props [VBool True]),
     plain_object (data_props [(js ''0'', VRef 0), (js ''b'', VNull)])]"
  by (rule materialize_then_admit [OF sample_indexed_eval])
    (simp_all add: heap_wf_def sample_indexed_def)

end
