(* ===== verification/Persisted_Quid.thy ===== *)
theory Persisted_Quid
  imports Hson_Core
begin

text \<open>
  Persisted node identity (\<open>core/hson-node-quid.ts\<close>): the canonical nine-digit spelling, the
  encoding of 45 random bits on 32-bit JavaScript integers, the eligibility of nodes, the
  per-node operations, and the scan of a graph for claims.
\<close>

section \<open>Spelling\<close>

definition PERSISTED_QUID_LENGTH :: nat where "PERSISTED_QUID_LENGTH = 9"

definition PERSISTED_QUID_ALPHABET :: js_string where
  "PERSISTED_QUID_ALPHABET = js ''0123456789abcdefghjkmnpqrstvwxyz''"

definition is_persisted_quid :: "prim \<Rightarrow> bool" where
  "is_persisted_quid v \<longleftrightarrow>
     (case v of
        PStr s \<Rightarrow> length s = PERSISTED_QUID_LENGTH \<and> list_all (\<lambda>u. u \<in> set PERSISTED_QUID_ALPHABET) s
      | _ \<Rightarrow> False)"

section \<open>Encoding\<close>

text \<open>
  The buffer is a JavaScript number used with \<open>\<lless>\<close>, \<open>|\<close>, \<open>\<ggreater>\<close> and \<open>&\<close>: its 32 bits are
  kept and the high ones fall out. The inner loop runs while at least five bits are held.
\<close>

function emit_digits :: "32 word \<Rightarrow> nat \<Rightarrow> js_string \<Rightarrow> nat \<times> js_string" where
  "emit_digits buffer bits output =
     (if 5 \<le> bits \<and> length output < PERSISTED_QUID_LENGTH then
        emit_digits buffer (bits - 5)
          (output @ [PERSISTED_QUID_ALPHABET ! unat (drop_bit (bits - 5) buffer AND 31)])
      else (bits, output))"
  by pat_completeness auto
termination by (relation "measure (\<lambda>(b, bits, out). bits)") auto

declare emit_digits.simps [simp del]

fun encode_bytes :: "32 word \<Rightarrow> nat \<Rightarrow> js_string \<Rightarrow> 8 word list \<Rightarrow> js_string" where
  "encode_bytes buffer bits output [] = output"
| "encode_bytes buffer bits output (b # bs) =
     (let buffer' = push_bit 8 buffer OR ucast b;
          (bits', output') = emit_digits buffer' (bits + 8) output
      in encode_bytes buffer' bits' output' bs)"

datatype quid_encode_error = QuidByteCount

definition encode_persisted_quid :: "8 word list \<Rightarrow> quid_encode_error + js_string" where
  "encode_persisted_quid bytes =
     (if length bytes \<noteq> 6 then Inl QuidByteCount else Inr (encode_bytes 0 0 [] bytes))"

text \<open>The number six bytes spell, most significant first.\<close>

definition bytes_value :: "8 word list \<Rightarrow> nat" where
  "bytes_value bytes = foldl (\<lambda>a b. 256 * a + unat b) 0 bytes"

lemma unat_digit_bits: "unat (drop_bit k w AND 31 :: 32 word) = unat w div 2 ^ k mod 32"
proof -
  have "(31 :: 32 word) = mask 5" by (simp add: mask_eq_exp_minus_1)
  then have "drop_bit k w AND 31 = take_bit 5 (drop_bit k w)" by (simp add: take_bit_eq_mask)
  then have "unat (drop_bit k w AND 31 :: 32 word) = take_bit 5 (drop_bit k (unat w))"
    by (simp only: unsigned_take_bit_eq unat_drop_bit_eq)
  then show ?thesis by (simp add: take_bit_eq_mod drop_bit_eq_div)
qed

lemma unat_push_byte:
  "unat (push_bit 8 w OR ucast (b :: 8 word) :: 32 word) = (256 * unat w + unat b) mod 2 ^ 32"
proof -
  have "push_bit 8 w AND ucast b = (0 :: 32 word)"
    by (rule bit_eqI) (auto simp: bit_and_iff bit_push_bit_iff bit_unsigned_iff dest: bit_imp_le_length)
  then have "push_bit 8 w OR ucast b = push_bit 8 w + ucast b"
    by (rule disjunctive_add_eq_or [symmetric])
  moreover have "push_bit 8 w = (of_nat (256 * unat w) :: 32 word)"
    by (simp add: push_bit_eq_mult mult.commute)
  moreover have "(ucast b :: 32 word) = of_nat (unat b)" by simp
  ultimately have "push_bit 8 w OR ucast b = (of_nat (256 * unat w + unat b) :: 32 word)"
    by (simp only: of_nat_add)
  then show ?thesis by (simp only: unat_of_nat) simp
qed

lemma window_digit:
  fixes n :: nat
  assumes "k \<le> 27"
  shows "n mod 2 ^ 32 div 2 ^ k mod 32 = n div 2 ^ k mod 32"
proof -
  have "5 \<le> 32 - k" using assms by simp
  then have "take_bit 5 (drop_bit k (take_bit 32 n)) = take_bit 5 (drop_bit k n)"
    by (simp add: drop_bit_take_bit min_def)
  then show ?thesis by (simp add: take_bit_eq_mod drop_bit_eq_div)
qed

definition quid_digit :: "nat \<Rightarrow> nat \<Rightarrow> 16 word" where
  "quid_digit n i = PERSISTED_QUID_ALPHABET ! (n div 2 ^ (3 + 5 * (8 - i)) mod 32)"

lemma alphabet_length: "length PERSISTED_QUID_ALPHABET = 32"
  by (simp add: PERSISTED_QUID_ALPHABET_def)

lemma digit_step:
  assumes "unat (buffer :: 32 word) = n mod 2 ^ 32" and "k \<le> 27"
  shows "PERSISTED_QUID_ALPHABET ! unat (drop_bit k buffer AND 31) =
    PERSISTED_QUID_ALPHABET ! (n div 2 ^ k mod 32)"
  by (simp only: unat_digit_bits assms(1) window_digit [OF assms(2)])

lemma push_step:
  assumes "unat (buffer :: 32 word) = n mod 2 ^ 32"
  shows "unat (push_bit 8 buffer OR ucast (b :: 8 word)) = (256 * n + unat b) mod 2 ^ 32"
proof -
  have "(256 * (n mod 2 ^ 32) + unat b) mod 2 ^ 32 = (256 * n + unat b) mod 2 ^ 32"
    by (metis mod_add_left_eq mod_mult_right_eq)
  then show ?thesis by (simp only: unat_push_byte assms)
qed

lemma emit_one:
  assumes "unat buffer = n mod 2 ^ 32" and "5 \<le> bits" and "bits < 10" and "length out < 9"
  shows "emit_digits buffer bits out =
    (bits - 5, out @ [PERSISTED_QUID_ALPHABET ! (n div 2 ^ (bits - 5) mod 32)])"
proof -
  have "\<not> 5 \<le> bits - 5" using assms(3) by simp
  then show ?thesis
    using digit_step [OF assms(1), of "bits - 5"] assms(2-)
    by (subst emit_digits.simps, subst emit_digits.simps) (simp add: PERSISTED_QUID_LENGTH_def)
qed

lemma emit_two:
  assumes "unat buffer = n mod 2 ^ 32" and "10 \<le> bits" and "bits < 15" and "length out < 8"
  shows "emit_digits buffer bits out =
    (bits - 10, out @ [PERSISTED_QUID_ALPHABET ! (n div 2 ^ (bits - 5) mod 32),
       PERSISTED_QUID_ALPHABET ! (n div 2 ^ (bits - 10) mod 32)])"
proof -
  have "emit_digits buffer (bits - 5) (out @ [d]) =
      (bits - 10, (out @ [d]) @ [PERSISTED_QUID_ALPHABET ! (n div 2 ^ (bits - 10) mod 32)])" for d
    using emit_one [OF assms(1), of "bits - 5" "out @ [d]"] assms(2-) by simp
  then show ?thesis
    using digit_step [OF assms(1), of "bits - 5"] assms(2-)
    by (subst emit_digits.simps) (simp add: PERSISTED_QUID_LENGTH_def)
qed

lemma encode_six:
  fixes b0 b1 b2 b3 b4 b5 :: "8 word"
  defines "N \<equiv> bytes_value [b0, b1, b2, b3, b4, b5]"
  shows "encode_bytes 0 0 [] [b0, b1, b2, b3, b4, b5] = map (quid_digit N) [0..<9]"
proof -
  define N0 where "N0 = unat b0"
  define N1 where "N1 = 256 * N0 + unat b1"
  define N2 where "N2 = 256 * N1 + unat b2"
  define N3 where "N3 = 256 * N2 + unat b3"
  define N4 where "N4 = 256 * N3 + unat b4"
  have N: "N = 256 * N4 + unat b5"
    by (simp add: N_def bytes_value_def N4_def N3_def N2_def N1_def N0_def)
  have by256: "unat b < 256" for b :: "8 word"
    using unsigned_less [of b] by simp
  define B0 where "B0 = (push_bit 8 0 OR ucast b0 :: 32 word)"
  define B1 where "B1 = push_bit 8 B0 OR ucast b1"
  define B2 where "B2 = push_bit 8 B1 OR ucast b2"
  define B3 where "B3 = push_bit 8 B2 OR ucast b3"
  define B4 where "B4 = push_bit 8 B3 OR ucast b4"
  define B5 where "B5 = push_bit 8 B4 OR ucast b5"
  have B0: "unat B0 = N0 mod 2 ^ 32" unfolding B0_def N0_def
    using push_step [of 0 0 b0] by simp
  have B1: "unat B1 = N1 mod 2 ^ 32" unfolding B1_def N1_def by (rule push_step [OF B0])
  have B2: "unat B2 = N2 mod 2 ^ 32" unfolding B2_def N2_def by (rule push_step [OF B1])
  have B3: "unat B3 = N3 mod 2 ^ 32" unfolding B3_def N3_def by (rule push_step [OF B2])
  have B4: "unat B4 = N4 mod 2 ^ 32" unfolding B4_def N4_def by (rule push_step [OF B3])
  have B5: "unat B5 = N mod 2 ^ 32" unfolding B5_def N by (rule push_step [OF B4])
  have n4: "N4 = N div 256" using by256 [of b5] by (simp add: N)
  have n3: "N3 = N4 div 256" using by256 [of b4] by (simp add: N4_def)
  have n2: "N2 = N3 div 256" using by256 [of b3] by (simp add: N3_def)
  have n1: "N1 = N2 div 256" using by256 [of b2] by (simp add: N2_def)
  have n0: "N0 = N1 div 256" using by256 [of b1] by (simp add: N1_def)
  note ns = n0 n1 n2 n3 n4
  define D where "D d = PERSISTED_QUID_ALPHABET ! (d mod 32)" for d
  have s0: "encode_bytes 0 0 [] [b0, b1, b2, b3, b4, b5] =
      encode_bytes B0 3 [D (N0 div 8)] [b1, b2, b3, b4, b5]"
    using emit_one [OF B0, of 8 "[]"]
    by (simp only: encode_bytes.simps Let_def B0_def [symmetric]) (simp add: D_def)
  have s1: "encode_bytes B0 3 [D (N0 div 8)] [b1, b2, b3, b4, b5] =
      encode_bytes B1 1 [D (N0 div 8), D (N1 div 64), D (N1 div 2)] [b2, b3, b4, b5]"
    using emit_two [OF B1, of 11 "[D (N0 div 8)]"]
    by (simp only: encode_bytes.simps Let_def B1_def [symmetric]) (simp add: D_def)
  have s2: "encode_bytes B1 1 [D (N0 div 8), D (N1 div 64), D (N1 div 2)] [b2, b3, b4, b5] =
      encode_bytes B2 4 [D (N0 div 8), D (N1 div 64), D (N1 div 2), D (N2 div 16)] [b3, b4, b5]"
    using emit_one [OF B2, of 9 "[D (N0 div 8), D (N1 div 64), D (N1 div 2)]"]
    by (simp only: encode_bytes.simps Let_def B2_def [symmetric]) (simp add: D_def)
  have s3: "encode_bytes B2 4 [D (N0 div 8), D (N1 div 64), D (N1 div 2), D (N2 div 16)] [b3, b4, b5] =
      encode_bytes B3 2 [D (N0 div 8), D (N1 div 64), D (N1 div 2), D (N2 div 16), D (N3 div 128), D (N3 div 4)] [b4, b5]"
    using emit_two [OF B3, of 12 "[D (N0 div 8), D (N1 div 64), D (N1 div 2), D (N2 div 16)]"]
    by (simp only: encode_bytes.simps Let_def B3_def [symmetric]) (simp add: D_def)
  have s4: "encode_bytes B3 2 [D (N0 div 8), D (N1 div 64), D (N1 div 2), D (N2 div 16), D (N3 div 128), D (N3 div 4)] [b4, b5] =
      encode_bytes B4 0 [D (N0 div 8), D (N1 div 64), D (N1 div 2), D (N2 div 16), D (N3 div 128), D (N3 div 4), D (N4 div 32), D (N4 div 1)] [b5]"
    using emit_two [OF B4, of 10 "[D (N0 div 8), D (N1 div 64), D (N1 div 2), D (N2 div 16), D (N3 div 128), D (N3 div 4)]"]
    by (simp only: encode_bytes.simps Let_def B4_def [symmetric]) (simp add: D_def)
  have s5: "encode_bytes B4 0 [D (N0 div 8), D (N1 div 64), D (N1 div 2), D (N2 div 16), D (N3 div 128), D (N3 div 4), D (N4 div 32), D (N4 div 1)] [b5] =
      encode_bytes B5 3 [D (N0 div 8), D (N1 div 64), D (N1 div 2), D (N2 div 16), D (N3 div 128), D (N3 div 4), D (N4 div 32), D (N4 div 1), D (N div 8)] []"
    using emit_one [OF B5, of 8 "[D (N0 div 8), D (N1 div 64), D (N1 div 2), D (N2 div 16), D (N3 div 128), D (N3 div 4), D (N4 div 32), D (N4 div 1)]"]
    by (simp only: encode_bytes.simps Let_def B5_def [symmetric]) (simp add: D_def)
  have "encode_bytes 0 0 [] [b0, b1, b2, b3, b4, b5] =
      map (\<lambda>d. PERSISTED_QUID_ALPHABET ! (d mod 32))
        [N0 div 8, N1 div 64, N1 div 2, N2 div 16, N3 div 128, N3 div 4, N4 div 32, N4 div 1, N div 8]"
    by (simp only: s0 s1 s2 s3 s4 s5) (simp add: D_def)
  also have "\<dots> = map (quid_digit N) [0..<9]"
    by (simp add: quid_digit_def upt_rec ns div_mult2_eq [symmetric])
  finally show ?thesis .
qed

lemma encode_six_quid:
  "encode_persisted_quid [b0, b1, b2, b3, b4, b5] =
   Inr (map (quid_digit (bytes_value [b0, b1, b2, b3, b4, b5])) [0..<9])"
  by (simp only: encode_persisted_quid_def encode_six) simp

lemma quid_digit_in_alphabet: "quid_digit n i \<in> set PERSISTED_QUID_ALPHABET"
  unfolding quid_digit_def by (rule nth_mem) (simp add: alphabet_length)

text \<open>
  C30: although the buffer keeps only 32 bits, the encoder emits the nine base-32 digits of
  the top 45 of its 48 input bits, most significant first, and the result is a canonical QUID.
\<close>

theorem quid_encoding_is_base32:
  assumes "encode_persisted_quid bytes = Inr q"
  shows "length bytes = 6 \<and> q = map (quid_digit (bytes_value bytes)) [0..<9] \<and>
    is_persisted_quid (PStr q)"
proof -
  have len: "length bytes = 6" and q: "q = encode_bytes 0 0 [] bytes"
    using assms by (auto simp: encode_persisted_quid_def split: if_splits)
  then obtain b0 b1 b2 b3 b4 b5 where "bytes = [b0, b1, b2, b3, b4, b5]"
    by (auto simp: length_Suc_conv numeral_eq_Suc)
  then have "q = map (quid_digit (bytes_value bytes)) [0..<9]" by (simp only: q encode_six)
  then show ?thesis
    using len quid_digit_in_alphabet
    by (simp add: is_persisted_quid_def PERSISTED_QUID_LENGTH_def list_all_iff)
qed

lemma quid_encoding_is_base32_witness:
  "length [255, 0, 170, 85, 1, 128 :: 8 word] = 6 \<and>
   map (quid_digit (bytes_value [255, 0, 170, 85, 1, 128])) [0..<9] =
     map (quid_digit (bytes_value [255, 0, 170, 85, 1, 128])) [0..<9] \<and>
   is_persisted_quid (PStr (map (quid_digit (bytes_value [255, 0, 170, 85, 1, 128])) [0..<9]))"
  by (rule quid_encoding_is_base32 [OF encode_six_quid])

lemma base32_digits_eq:
  fixes m m' :: nat
  shows "(\<forall>i < k. m div 32 ^ i mod 32 = m' div 32 ^ i mod 32) \<Longrightarrow> m mod 32 ^ k = m' mod 32 ^ k"
proof (induction k)
  case (Suc k)
  have "x mod 32 ^ Suc k = 32 ^ k * (x div 32 ^ k mod 32) + x mod 32 ^ k" for x :: nat
    using mod_mult2_eq [of x "32 ^ k" 32] by (simp add: mult.commute)
  then show ?case using Suc by simp
qed simp

lemma alphabet_inject: "i < 32 \<Longrightarrow> j < 32 \<Longrightarrow>
  PERSISTED_QUID_ALPHABET ! i = PERSISTED_QUID_ALPHABET ! j \<Longrightarrow> i = j"
proof -
  have "distinct PERSISTED_QUID_ALPHABET"
    unfolding PERSISTED_QUID_ALPHABET_def js_def by (subst distinct_map) (simp add: inj_on_def)
  then show "i < 32 \<Longrightarrow> j < 32 \<Longrightarrow>
      PERSISTED_QUID_ALPHABET ! i = PERSISTED_QUID_ALPHABET ! j \<Longrightarrow> i = j"
    by (simp add: nth_eq_iff_index_eq alphabet_length)
qed

lemma quid_digits_value:
  assumes "map (quid_digit n) [0..<9] = map (quid_digit n') [0..<9]"
  shows "n div 8 mod 2 ^ 45 = n' div 8 mod 2 ^ 45"
proof -
  have "\<forall>i < 9. n div 8 div 32 ^ i mod 32 = n' div 8 div 32 ^ i mod 32"
  proof (intro allI impI)
    fix i :: nat assume i: "i < 9"
    then have "quid_digit n (8 - i) = quid_digit n' (8 - i)"
      using assms by (auto simp: map_eq_conv)
    moreover have "(2::nat) ^ (3 + 5 * (8 - (8 - i))) = 8 * 32 ^ i"
      using i by (simp add: power_add power_mult)
    ultimately have "n div (8 * 32 ^ i) mod 32 = n' div (8 * 32 ^ i) mod 32"
      unfolding quid_digit_def by (intro alphabet_inject) simp_all
    then show "n div 8 div 32 ^ i mod 32 = n' div 8 div 32 ^ i mod 32"
      by (simp add: div_mult2_eq)
  qed
  from base32_digits_eq [OF this] show ?thesis by simp
qed

section \<open>Eligibility and the operations on one node\<close>

datatype quid_error = IneligibleQuid | MalformedQuid | DuplicateQuid

text \<open>
  A node as the identity operations see it: its tag, its metadata, and for every content item
  the tag of the node it is (\<open>None\<close> where \<open>is_Node\<close> fails).
\<close>

definition is_projected_container_quid_eligible :: "js_string \<Rightarrow> js_string option list \<Rightarrow> bool" where
  "is_projected_container_quid_eligible tag kids =
     (if tag = ARR_TAG then True
      else if tag \<noteq> OBJ_TAG then False
      else case kids of
        [Some t] \<Rightarrow> t \<noteq> STR_TAG \<and> t \<noteq> VAL_TAG \<and> t \<noteq> ARR_TAG \<and> t \<noteq> OBJ_TAG
      | _ \<Rightarrow> True)"

definition quid_eligible :: "js_string \<Rightarrow> hson_meta option \<Rightarrow> js_string option list \<Rightarrow> bool" where
  "quid_eligible tag meta kids \<longleftrightarrow>
     \<not> old_shaped_meta meta \<and> \<not> starts_with tag HSON_SYS_PREFIX \<or>
     is_projected_container_quid_eligible tag kids"

definition assert_hson_node_quid_eligible ::
    "js_string \<Rightarrow> hson_meta option \<Rightarrow> js_string option list \<Rightarrow> quid_error + unit" where
  "assert_hson_node_quid_eligible tag meta kids = rguard (quid_eligible tag meta kids) IneligibleQuid"

definition meta_lookup :: "hson_meta option \<Rightarrow> js_string \<Rightarrow> prim option" where
  "meta_lookup meta k = (case meta of None \<Rightarrow> None | Some es \<Rightarrow> map_of es k)"

definition read_quid ::
    "js_string \<Rightarrow> hson_meta option \<Rightarrow> js_string option list \<Rightarrow> quid_error + js_string option" where
  "read_quid tag meta kids =
     (case meta_lookup meta HSON_META_QUID of
        None \<Rightarrow> Inr None
      | Some v \<Rightarrow>
          rbind (assert_hson_node_quid_eligible tag meta kids)
            (\<lambda>u. case v of
               PStr s \<Rightarrow> if is_persisted_quid v then Inr (Some s) else Inl MalformedQuid
             | _ \<Rightarrow> Inl MalformedQuid))"

fun kid_tag :: "hson_item \<Rightarrow> js_string option" where
  "kid_tag (ItemPrim p) = None"
| "kid_tag (ItemNode c) = (if is_Node (ItemNode c) then Some (tag_of c) else None)"

abbreviation node_kids :: "hson_node \<Rightarrow> js_string option list" where
  "node_kids n \<equiv> map kid_tag (content_of n)"

definition read_hson_node_quid :: "hson_node \<Rightarrow> quid_error + js_string option" where
  "read_hson_node_quid n = read_quid (tag_of n) (meta_of n) (node_kids n)"

definition has_hson_node_quid :: "hson_node \<Rightarrow> quid_error + bool" where
  "has_hson_node_quid n = rbind (read_hson_node_quid n) (\<lambda>q. Inr (q \<noteq> None))"

definition validate_hson_node_quid :: "hson_node \<Rightarrow> quid_error + unit" where
  "validate_hson_node_quid n = rbind (read_hson_node_quid n) (\<lambda>q. Inr ())"

definition ensure_node_meta :: "hson_meta option \<Rightarrow> hson_meta" where
  "ensure_node_meta m = (case m of None \<Rightarrow> [] | Some es \<Rightarrow> es)"

definition prune_empty_node_meta :: "hson_meta option \<Rightarrow> hson_meta option" where
  "prune_empty_node_meta m = (if has_own_entries m then m else None)"

fun with_meta :: "hson_node \<Rightarrow> hson_meta option \<Rightarrow> hson_node" where
  "with_meta (HsonNode t a m c) m' = HsonNode t a m' c"

definition assign_hson_node_quid :: "hson_node \<Rightarrow> prim \<Rightarrow> quid_error + js_string \<times> hson_node" where
  "assign_hson_node_quid n quid =
     rbind (assert_hson_node_quid_eligible (tag_of n) (meta_of n) (node_kids n))
       (\<lambda>u. case quid of
          PStr s \<Rightarrow>
            if is_persisted_quid quid then
              Inr (s, with_meta n (Some (put_field HSON_META_QUID quid (ensure_node_meta (meta_of n)))))
            else Inl MalformedQuid
        | _ \<Rightarrow> Inl MalformedQuid)"

text \<open>\<open>mint_hson_node_quid\<close> encodes six bytes of the platform's random source.\<close>

definition ensure_hson_node_quid ::
    "8 word list \<Rightarrow> hson_node \<Rightarrow> (quid_error + quid_encode_error) + js_string \<times> hson_node" where
  "ensure_hson_node_quid random_bytes n =
     (case rbind (assert_hson_node_quid_eligible (tag_of n) (meta_of n) (node_kids n))
        (\<lambda>u. read_hson_node_quid n) of
        Inl e \<Rightarrow> Inl (Inl e)
      | Inr (Some q) \<Rightarrow> Inr (q, n)
      | Inr None \<Rightarrow>
          (case encode_persisted_quid random_bytes of
             Inl e \<Rightarrow> Inl (Inr e)
           | Inr q \<Rightarrow>
               (case assign_hson_node_quid n (PStr q) of Inl e \<Rightarrow> Inl (Inl e) | Inr r \<Rightarrow> Inr r)))"

definition remove_hson_node_quid :: "hson_node \<Rightarrow> quid_error + js_string option \<times> hson_node" where
  "remove_hson_node_quid n =
     rbind (assert_hson_node_quid_eligible (tag_of n) (meta_of n) (node_kids n))
       (\<lambda>u. rbind (read_hson_node_quid n)
         (\<lambda>existing.
            case existing of
              None \<Rightarrow> Inr (None, n)
            | Some q \<Rightarrow>
                Inr (Some q, with_meta n (prune_empty_node_meta
                  (map_option (filter (\<lambda>e. fst e \<noteq> HSON_META_QUID)) (meta_of n))))))"

section \<open>Laws of the node operations\<close>

lemma prune_not_empty: "prune_empty_node_meta m \<noteq> Some []"
  by (cases m) (simp_all add: prune_empty_node_meta_def has_own_entries_def)

lemma map_of_filter_key:
  "map_of (filter (\<lambda>e. fst e \<noteq> k) es) k' = (if k' = k then None else map_of es k')"
  by (induction es) auto

lemma with_meta_simps [simp]:
  "tag_of (with_meta n m) = tag_of n" "attrs_of (with_meta n m) = attrs_of n"
  "content_of (with_meta n m) = content_of n" "meta_of (with_meta n m) = m"
  "with_meta (with_meta n m) m' = with_meta n m'" "with_meta n (meta_of n) = n"
  by (cases n; simp)+

lemma quid_key_fresh: "HSON_META_QUID \<noteq> js ''attrs''" "HSON_META_QUID \<noteq> js ''flags''"
  by (simp_all add: HSON_META_QUID_def)

lemma old_shaped_put_quid [simp]:
  "old_shaped_meta (Some (put_field HSON_META_QUID v (ensure_node_meta m))) = old_shaped_meta m"
  using quid_key_fresh
  by (auto simp: old_shaped_meta_def put_field_fst ensure_node_meta_def split: option.splits)

lemma meta_lookup_prune [simp]: "meta_lookup (prune_empty_node_meta m) k = meta_lookup m k"
  by (auto simp: prune_empty_node_meta_def has_own_entries_def meta_lookup_def split: option.splits)

lemma meta_lookup_put [simp]:
  "meta_lookup (Some (put_field k v (ensure_node_meta m))) k' = (if k' = k then Some v else meta_lookup m k')"
  by (auto simp: meta_lookup_def ensure_node_meta_def split: option.splits)

lemma meta_lookup_drop [simp]:
  "meta_lookup (map_option (filter (\<lambda>e. fst e \<noteq> k)) m) k' = (if k' = k then None else meta_lookup m k')"
  by (auto simp: meta_lookup_def map_of_filter_key split: option.splits)

lemma assert_eligible_Inr [res_simps]:
  "assert_hson_node_quid_eligible tag meta kids = Inr u \<longleftrightarrow> quid_eligible tag meta kids"
  by (simp add: assert_hson_node_quid_eligible_def rguard_Inr_iff)

lemma read_quid_Some:
  "read_quid tag meta kids = Inr (Some q) \<longleftrightarrow>
     meta_lookup meta HSON_META_QUID = Some (PStr q) \<and> quid_eligible tag meta kids \<and>
     is_persisted_quid (PStr q)"
  by (auto simp: read_quid_def res_simps split: option.splits prim.splits if_splits)

lemma read_quid_None: "read_quid tag meta kids = Inr None \<longleftrightarrow> meta_lookup meta HSON_META_QUID = None"
  by (auto simp: read_quid_def res_simps split: option.splits prim.splits if_splits)

text \<open>
  C31: identity lifecycle of an eligible node. Assigning a canonical QUID stores it, reading
  returns it, ensuring keeps it whatever random bytes are offered, and removing returns it and
  restores a node without one; tag, attributes, content and every other metadata field stay as
  they were, and no empty metadata container is left behind.
\<close>

theorem quid_lifecycle:
  assumes "quid_eligible (tag_of n) (meta_of n) (node_kids n)" and "is_persisted_quid (PStr q)"
  shows "\<exists>n' n''. assign_hson_node_quid n (PStr q) = Inr (q, n') \<and>
    read_hson_node_quid n' = Inr (Some q) \<and>
    (\<forall>bytes. ensure_hson_node_quid bytes n' = Inr (q, n')) \<and>
    remove_hson_node_quid n' = Inr (Some q, n'') \<and>
    read_hson_node_quid n'' = Inr None \<and> meta_of n'' \<noteq> Some [] \<and>
    tag_of n'' = tag_of n \<and> attrs_of n'' = attrs_of n \<and> content_of n'' = content_of n \<and>
    (\<forall>k. k \<noteq> HSON_META_QUID \<longrightarrow> meta_lookup (meta_of n'') k = meta_lookup (meta_of n) k)"
proof -
  define n' where "n' = with_meta n (Some (put_field HSON_META_QUID (PStr q) (ensure_node_meta (meta_of n))))"
  define n'' where "n'' = with_meta n' (prune_empty_node_meta
      (map_option (filter (\<lambda>e. fst e \<noteq> HSON_META_QUID)) (meta_of n')))"
  have el: "quid_eligible (tag_of n') (meta_of n') (node_kids n')"
    using assms(1) by (simp add: n'_def quid_eligible_def)
  have assign: "assign_hson_node_quid n (PStr q) = Inr (q, n')"
    using assms by (simp add: assign_hson_node_quid_def assert_hson_node_quid_eligible_def n'_def)
  have read: "read_hson_node_quid n' = Inr (Some q)"
    unfolding read_hson_node_quid_def read_quid_Some using el assms(2) by (simp add: n'_def)
  have ensure: "ensure_hson_node_quid bytes n' = Inr (q, n')" for bytes
    using el read by (simp add: ensure_hson_node_quid_def assert_hson_node_quid_eligible_def)
  have remove: "remove_hson_node_quid n' = Inr (Some q, n'')"
    using el read by (simp add: remove_hson_node_quid_def assert_hson_node_quid_eligible_def n''_def)
  have other: "meta_lookup (meta_of n'') k = (if k = HSON_META_QUID then None else meta_lookup (meta_of n) k)" for k
    unfolding n''_def with_meta_simps meta_lookup_prune meta_lookup_drop by (simp add: n'_def)
  then have "read_hson_node_quid n'' = Inr None"
    by (simp add: read_hson_node_quid_def read_quid_None)
  moreover have "meta_of n'' \<noteq> Some []"
    by (simp add: n''_def prune_not_empty)
  ultimately show ?thesis
    using assign read ensure remove other
    by (intro exI [of _ n'] exI [of _ n'']) (simp add: n''_def n'_def)
qed

lemma quid_lifecycle_witness:
  "\<exists>n' n''. assign_hson_node_quid (bare_node (js ''div'') []) (PStr (js ''0123abcde'')) = Inr (js ''0123abcde'', n') \<and>
    read_hson_node_quid n' = Inr (Some (js ''0123abcde'')) \<and>
    (\<forall>bytes. ensure_hson_node_quid bytes n' = Inr (js ''0123abcde'', n')) \<and>
    remove_hson_node_quid n' = Inr (Some (js ''0123abcde''), n'') \<and>
    read_hson_node_quid n'' = Inr None \<and> meta_of n'' \<noteq> Some [] \<and>
    tag_of n'' = tag_of (bare_node (js ''div'') []) \<and>
    attrs_of n'' = attrs_of (bare_node (js ''div'') []) \<and>
    content_of n'' = content_of (bare_node (js ''div'') []) \<and>
    (\<forall>k. k \<noteq> HSON_META_QUID \<longrightarrow>
       meta_lookup (meta_of n'') k = meta_lookup (meta_of (bare_node (js ''div'') [])) k)"
proof (rule quid_lifecycle)
  have sub: "set ''0123abcde'' \<subseteq> set ''0123456789abcdefghjkmnpqrstvwxyz''" by simp
  show "quid_eligible (tag_of (bare_node (js ''div'') [])) (meta_of (bare_node (js ''div'') []))
      (node_kids (bare_node (js ''div'') []))"
    by (simp add: quid_eligible_def HSON_SYS_PREFIX_def)
  show "is_persisted_quid (PStr (js ''0123abcde''))"
    using sub
    by (auto simp: is_persisted_quid_def PERSISTED_QUID_LENGTH_def PERSISTED_QUID_ALPHABET_def
        list_all_iff js_def)
qed

section \<open>Scanning a graph\<close>

text \<open>
  Nodes with identity: a content item is a reference into the graph or a primitive, so a node
  may be shared or reach itself.
\<close>

datatype cell_item = CellRef nat | CellPrim prim

record node_cell =
  cell_tag :: js_string
  cell_meta :: "hson_meta option"
  cell_content :: "cell_item list"

type_synonym node_graph = "node_cell list"

definition cell_node :: "node_graph \<Rightarrow> cell_item \<Rightarrow> nat option" where
  "cell_node g it =
     (case it of
        CellPrim p \<Rightarrow> None
      | CellRef r \<Rightarrow> if r < length g \<and> \<not> old_shaped_meta (cell_meta (g ! r)) then Some r else None)"

definition cell_kids :: "node_graph \<Rightarrow> nat \<Rightarrow> js_string option list" where
  "cell_kids g r = map (\<lambda>it. map_option (\<lambda>c. cell_tag (g ! c)) (cell_node g it)) (cell_content (g ! r))"

definition cell_quid :: "node_graph \<Rightarrow> nat \<Rightarrow> quid_error + js_string option" where
  "cell_quid g r = read_quid (cell_tag (g ! r)) (cell_meta (g ! r)) (cell_kids g r)"

text \<open>The child frames a visit pushes: node items with their position, the first on top.\<close>

definition child_frames :: "node_graph \<Rightarrow> nat \<Rightarrow> nat list \<Rightarrow> (nat \<times> nat list) list" where
  "child_frames g r path =
     concat (map (\<lambda>(i, it). case cell_node g it of None \<Rightarrow> [] | Some c \<Rightarrow> [(c, path @ [i])])
       (enumerate 0 (cell_content (g ! r))))"

record quid_claim =
  claim_quid :: js_string
  claim_node :: nat
  claim_path :: "nat list"

record quid_fault =
  fault_code :: quid_error
  fault_node :: nat
  fault_path :: "nat list"

definition unvisited :: "node_graph \<Rightarrow> nat set \<Rightarrow> nat" where
  "unvisited g visited = card ({..<length g} - visited)"

lemma unvisited_insert: "r \<notin> visited \<Longrightarrow> r < length g \<Longrightarrow> unvisited g (insert r visited) < unvisited g visited"
  unfolding unvisited_def by (rule psubset_card_mono) auto

function collect_loop ::
    "node_graph \<Rightarrow> (nat \<times> nat list) list \<Rightarrow> nat set \<Rightarrow> quid_claim list \<Rightarrow>
     quid_fault + quid_claim list" where
  "collect_loop g [] visited claims = Inr claims"
| "collect_loop g ((r, path) # stack) visited claims =
     (if r \<in> visited \<or> length g \<le> r then collect_loop g stack visited claims
      else case cell_quid g r of
        Inl e \<Rightarrow> Inl \<lparr> fault_code = e, fault_node = r, fault_path = path \<rparr>
      | Inr q \<Rightarrow>
          collect_loop g (child_frames g r path @ stack) (insert r visited)
            (case q of
               None \<Rightarrow> claims
             | Some s \<Rightarrow> claims @ [\<lparr> claim_quid = s, claim_node = r, claim_path = path \<rparr>]))"
  by pat_completeness auto

termination
  by (relation "measures
      [\<lambda>(g, stack, visited, claims). unvisited g visited,
       \<lambda>(g, stack, visited, claims). length stack]")
    (simp_all add: unvisited_insert)

definition collect_hson_node_quid_claims :: "node_graph \<Rightarrow> nat \<Rightarrow> quid_fault + quid_claim list" where
  "collect_hson_node_quid_claims g root = collect_loop g [(root, [])] {} []"

text \<open>The index is a map in insertion order; a later claim of the same node replaces the entry.\<close>

fun index_loop ::
    "quid_claim list \<Rightarrow> (js_string \<times> quid_claim) list \<Rightarrow> quid_fault + (js_string \<times> quid_claim) list" where
  "index_loop [] indexed = Inr indexed"
| "index_loop (c # cs) indexed =
     (case map_of indexed (claim_quid c) of
        Some prior \<Rightarrow>
          if claim_node prior \<noteq> claim_node c then
            Inl \<lparr> fault_code = DuplicateQuid, fault_node = claim_node c, fault_path = claim_path c \<rparr>
          else index_loop cs (put_field (claim_quid c) c indexed)
      | None \<Rightarrow> index_loop cs (put_field (claim_quid c) c indexed))"

definition index_unique_hson_node_quid_claims :: "quid_claim list \<Rightarrow> quid_fault + (js_string \<times> nat) list" where
  "index_unique_hson_node_quid_claims claims =
     rbind (index_loop claims []) (\<lambda>ix. Inr (map (\<lambda>(q, c). (q, claim_node c)) ix))"

definition scan_hson_node_quids :: "node_graph \<Rightarrow> nat \<Rightarrow> quid_fault + (js_string \<times> nat) list" where
  "scan_hson_node_quids g root =
     rbind (collect_hson_node_quid_claims g root) index_unique_hson_node_quid_claims"

section \<open>The scan finds exactly the reachable claims\<close>

definition graph_edge :: "node_graph \<Rightarrow> nat \<Rightarrow> nat \<Rightarrow> bool" where
  "graph_edge g r c \<longleftrightarrow> (\<exists>it \<in> set (cell_content (g ! r)). cell_node g it = Some c)"

abbreviation graph_reach :: "node_graph \<Rightarrow> nat \<Rightarrow> nat \<Rightarrow> bool" where
  "graph_reach g \<equiv> (graph_edge g)\<^sup>*\<^sup>*"

definition has_claim :: "node_graph \<Rightarrow> nat \<Rightarrow> js_string \<Rightarrow> bool" where
  "has_claim g r q \<longleftrightarrow> cell_quid g r = Inr (Some q)"

lemma cell_node_bound: "cell_node g it = Some c \<Longrightarrow> c < length g"
  by (auto simp: cell_node_def split: cell_item.splits if_splits)

lemma ex_enumerate: "(\<exists>i x. (i, x) \<in> set (enumerate n xs) \<and> P x) \<longleftrightarrow> (\<exists>x \<in> set xs. P x)"
proof -
  have "set xs = snd ` set (enumerate n xs)" by (metis list.set_map map_snd_enumerate)
  then show ?thesis by force
qed

lemma child_frames_nodes: "fst ` set (child_frames g r path) = {c. graph_edge g r c}"
proof -
  have "c \<in> fst ` set (child_frames g r path) \<longleftrightarrow>
      (\<exists>i it. (i, it) \<in> set (enumerate 0 (cell_content (g ! r))) \<and> cell_node g it = Some c)" for c
    by (force simp: child_frames_def split: option.splits)
  also have "\<dots> c \<longleftrightarrow> graph_edge g r c" for c
    by (simp only: graph_edge_def ex_enumerate)
  finally show ?thesis by auto
qed

lemma reach_bound: "graph_reach g r c \<Longrightarrow> r < length g \<Longrightarrow> c < length g"
  by (induction rule: rtranclp_induct) (auto simp: graph_edge_def dest: cell_node_bound)

lemma collect_loop_error:
  "collect_loop g stack visited claims = Inl f \<Longrightarrow>
   \<exists>s \<in> fst ` set stack. graph_reach g s (fault_node f) \<and>
     cell_quid g (fault_node f) = Inl (fault_code f)"
proof (induction g stack visited claims rule: collect_loop.induct)
  case (2 g r path stack visited claims)
  show ?case
  proof (cases "r \<in> visited \<or> length g \<le> r")
    case True
    then show ?thesis using 2 by auto
  next
    case False
    show ?thesis
    proof (cases "cell_quid g r")
      case (Inl e)
      then show ?thesis using "2.prems" False by auto
    next
      case (Inr q)
      then obtain s where "s \<in> fst ` set (child_frames g r path @ stack)"
        "graph_reach g s (fault_node f)" "cell_quid g (fault_node f) = Inl (fault_code f)"
        using "2.IH"(2) [OF False Inr] "2.prems" False by auto
      then show ?thesis
        by (auto simp: image_Un child_frames_nodes dest: converse_rtranclp_into_rtranclp)
    qed
  qed
qed simp

definition claims_cover :: "node_graph \<Rightarrow> nat set \<Rightarrow> quid_claim list \<Rightarrow> bool" where
  "claims_cover g R cs \<longleftrightarrow>
     distinct (map claim_node cs) \<and>
     (\<forall>r q. (\<exists>c \<in> set cs. claim_node c = r \<and> claim_quid c = q) \<longleftrightarrow> r \<in> R \<and> has_claim g r q)"

lemma claims_cover_Nil: "claims_cover g {} []"
  by (simp add: claims_cover_def)

lemma claims_cover_skip:
  "claims_cover g R cs \<Longrightarrow> cell_quid g r = Inr None \<Longrightarrow> claims_cover g (insert r R) cs"
  by (auto simp: claims_cover_def has_claim_def)

lemma claims_cover_snoc:
  assumes "claims_cover g R cs" and "cell_quid g r = Inr (Some q)" and "r \<notin> R"
    and "claim_node c = r" and "claim_quid c = q"
  shows "claims_cover g (insert r R) (cs @ [c])"
proof -
  have fresh: "\<forall>d \<in> set cs. claim_node d \<noteq> r"
    using assms(1,3) by (auto simp: claims_cover_def)
  have iff: "(\<exists>d \<in> set cs. claim_node d = x \<and> claim_quid d = y) \<longleftrightarrow> x \<in> R \<and> has_claim g x y" for x y
    using assms(1) by (simp add: claims_cover_def)
  have "claim_node c \<notin> claim_node ` set cs"
  proof
    assume "claim_node c \<in> claim_node ` set cs"
    then obtain d where "d \<in> set cs" "claim_node c = claim_node d" by auto
    then show False using bspec [OF fresh, of d] assms(4) by simp
  qed
  then have "distinct (map claim_node (cs @ [c]))"
    using assms(1) by (simp add: claims_cover_def)
  moreover have "(\<exists>d \<in> set (cs @ [c]). claim_node d = x \<and> claim_quid d = y) \<longleftrightarrow>
      x \<in> insert r R \<and> has_claim g x y" for x y
    using iff [of x y] assms(2-) by (auto simp: has_claim_def)
  ultimately show ?thesis by (simp add: claims_cover_def)
qed

lemma collect_loop_result:
  "collect_loop g stack visited claims = Inr cs \<Longrightarrow>
   \<forall>r \<in> visited. \<forall>c. graph_edge g r c \<longrightarrow> c \<in> visited \<union> fst ` set stack \<Longrightarrow>
   fst ` set stack \<subseteq> {..<length g} \<Longrightarrow> claims_cover g visited claims \<Longrightarrow>
   \<forall>r \<in> visited. \<exists>q. cell_quid g r = Inr q \<Longrightarrow>
   \<exists>V. visited \<union> fst ` set stack \<subseteq> V \<and> (\<forall>r \<in> V. \<forall>c. graph_edge g r c \<longrightarrow> c \<in> V) \<and>
     (\<forall>r \<in> V. r \<in> visited \<or> (\<exists>s \<in> fst ` set stack. graph_reach g s r)) \<and>
     (\<forall>r \<in> V. \<exists>q. cell_quid g r = Inr q) \<and> claims_cover g V cs"
proof (induction g stack visited claims rule: collect_loop.induct)
  case (1 g visited claims)
  then show ?case by (intro exI [of _ visited]) auto
next
  case (2 g r path stack visited claims)
  have r: "r < length g" using "2.prems"(3) by simp
  show ?case
  proof (cases "r \<in> visited")
    case True
    have "\<forall>x \<in> visited. \<forall>c. graph_edge g x c \<longrightarrow> c \<in> visited \<union> fst ` set stack"
      using "2.prems"(2) True by auto
    then obtain V where "visited \<union> fst ` set stack \<subseteq> V" "\<forall>r \<in> V. \<forall>c. graph_edge g r c \<longrightarrow> c \<in> V"
      "\<forall>r \<in> V. r \<in> visited \<or> (\<exists>s \<in> fst ` set stack. graph_reach g s r)"
      "\<forall>r \<in> V. \<exists>q. cell_quid g r = Inr q" "claims_cover g V cs"
      using "2.IH"(1) "2.prems"(1,3-) True by auto
    then show ?thesis using True by (intro exI [of _ V]) auto
  next
    case False
    then obtain q where q: "cell_quid g r = Inr q"
      using "2.prems"(1) r by (cases "cell_quid g r") auto
    define claims' where "claims' = (case q of None \<Rightarrow> claims
      | Some s \<Rightarrow> claims @ [\<lparr> claim_quid = s, claim_node = r, claim_path = path \<rparr>])"
    have cover: "claims_cover g (insert r visited) claims'"
      using False "2.prems"(4) q
      by (cases q) (auto simp: claims'_def intro: claims_cover_skip claims_cover_snoc)
    have run: "collect_loop g (child_frames g r path @ stack) (insert r visited) claims' = Inr cs"
      using "2.prems"(1) False r q by (simp add: claims'_def)
    have st: "fst ` set (child_frames g r path @ stack) = {c. graph_edge g r c} \<union> fst ` set stack"
      by (simp add: image_Un child_frames_nodes)
    have bound: "fst ` set (child_frames g r path @ stack) \<subseteq> {..<length g}"
      unfolding st using "2.prems"(3) by (auto simp: graph_edge_def dest: cell_node_bound)
    have closed: "\<forall>x \<in> insert r visited. \<forall>c. graph_edge g x c \<longrightarrow>
        c \<in> insert r visited \<union> fst ` set (child_frames g r path @ stack)"
      unfolding st using "2.prems"(2) by auto
    have good: "\<forall>x \<in> insert r visited. \<exists>q. cell_quid g x = Inr q" using "2.prems"(5) q by auto
    have nr: "\<not> (r \<in> visited \<or> length g \<le> r)" using False r by simp
    obtain V where V: "insert r visited \<union> ({c. graph_edge g r c} \<union> fst ` set stack) \<subseteq> V"
      "\<forall>r \<in> V. \<forall>c. graph_edge g r c \<longrightarrow> c \<in> V"
      "\<forall>x \<in> V. x \<in> insert r visited \<or> (\<exists>s \<in> {c. graph_edge g r c} \<union> fst ` set stack. graph_reach g s x)"
      "\<forall>r \<in> V. \<exists>q. cell_quid g r = Inr q" "claims_cover g V cs"
      using "2.IH"(2) [OF nr q, folded claims'_def, OF run closed bound cover good] unfolding st by auto
    have "\<forall>x \<in> V. x \<in> visited \<or> (\<exists>s \<in> insert r (fst ` set stack). graph_reach g s x)"
      using V(3) by (auto dest: converse_rtranclp_into_rtranclp)
    then show ?thesis using V by (intro exI [of _ V]) auto
  qed
qed

lemma collect_claims_result:
  assumes "root < length g" and "collect_hson_node_quid_claims g root = Inr cs"
  shows "claims_cover g {r. graph_reach g root r} cs"
    and "\<forall>r. graph_reach g root r \<longrightarrow> (\<exists>q. cell_quid g r = Inr q)"
proof -
  obtain V where V: "root \<in> V" "\<forall>r \<in> V. \<forall>c. graph_edge g r c \<longrightarrow> c \<in> V"
    "\<forall>r \<in> V. graph_reach g root r" "\<forall>r \<in> V. \<exists>q. cell_quid g r = Inr q" "claims_cover g V cs"
    using collect_loop_result [of g "[(root, [])]" "{}" "[]" cs] assms
    by (auto simp: collect_hson_node_quid_claims_def claims_cover_Nil)
  have "r \<in> V" if "graph_reach g root r" for r
    using that by (induction rule: rtranclp_induct) (use V(1,2) in auto)
  then have "V = {r. graph_reach g root r}" using V(3) by auto
  then show "claims_cover g {r. graph_reach g root r} cs"
    and "\<forall>r. graph_reach g root r \<longrightarrow> (\<exists>q. cell_quid g r = Inr q)"
    using V(4,5) by auto
qed

lemma index_loop_iff:
  assumes "distinct (map claim_node (map snd ix @ cs))" and "\<forall>(q, c) \<in> set ix. claim_quid c = q"
    and "distinct (map fst ix)"
  shows "index_loop cs ix = Inr r \<longleftrightarrow>
    distinct (map fst ix @ map claim_quid cs) \<and> r = ix @ map (\<lambda>c. (claim_quid c, c)) cs"
  using assms
proof (induction cs ix rule: index_loop.induct)
  case (2 c cs ix)
  show ?case
  proof (cases "map_of ix (claim_quid c)")
    case None
    then have "claim_quid c \<notin> fst ` set ix" by (simp add: map_of_eq_None_iff)
    moreover have "index_loop cs (put_field (claim_quid c) c ix) = Inr r \<longleftrightarrow>
        distinct (map fst (ix @ [(claim_quid c, c)]) @ map claim_quid cs) \<and>
        r = (ix @ [(claim_quid c, c)]) @ map (\<lambda>c. (claim_quid c, c)) cs"
      unfolding put_field_fresh [OF calculation]
      by (rule "2.IH"(1) [OF None, unfolded put_field_fresh [OF calculation]])
        (use "2.prems" calculation in auto)
    ultimately show ?thesis using None by auto
  next
    case (Some prior)
    then have p: "(claim_quid c, prior) \<in> set ix" by (rule map_of_SomeD)
    then have "claim_node prior \<noteq> claim_node c"
      using "2.prems"(1) by force
    then show ?thesis using Some p by force
  qed
qed auto

lemma distinct_quids_iff:
  assumes nodes: "distinct (map claim_node cs)"
    and claims: "\<And>r q. (\<exists>c \<in> set cs. claim_node c = r \<and> claim_quid c = q) \<longleftrightarrow>
      graph_reach g root r \<and> has_claim g r q"
  shows "distinct (map claim_quid cs) \<longleftrightarrow>
    (\<forall>r r' q. graph_reach g root r \<longrightarrow> graph_reach g root r' \<longrightarrow>
       has_claim g r q \<longrightarrow> has_claim g r' q \<longrightarrow> r = r')" (is "_ \<longleftrightarrow> ?U")
proof
  assume d: "distinct (map claim_quid cs)"
  show ?U
  proof (intro allI impI)
    fix r r' q
    assume "graph_reach g root r" "graph_reach g root r'" "has_claim g r q" "has_claim g r' q"
    then obtain c c' where "c \<in> set cs" "c' \<in> set cs" "claim_node c = r" "claim_node c' = r'"
      "claim_quid c = claim_quid c'"
      using claims by metis
    then show "r = r'" using d by (auto simp: distinct_map dest: inj_onD)
  qed
next
  assume u: ?U
  have "inj_on claim_quid (set cs)"
  proof (rule inj_onI)
    fix c c' assume c: "c \<in> set cs" "c' \<in> set cs" "claim_quid c = claim_quid c'"
    then have "claim_node c = claim_node c'" using u claims by metis
    then show "c = c'" using c nodes by (auto simp: distinct_map dest: inj_onD)
  qed
  then show "distinct (map claim_quid cs)" using nodes by (simp add: distinct_map)
qed

text \<open>
  C32: the scan of a node graph, shared and cyclic references included, accepts exactly the
  graphs in which every reachable node has a well-formed, well-placed QUID or none and no two
  reachable nodes have the same one; and the index it then returns maps a QUID to a node
  exactly when that node is reachable and carries it.
\<close>

theorem quid_scan_indexes_reachable_claims:
  assumes "root < length g"
  shows "((\<exists>m. scan_hson_node_quids g root = Inr m) \<longleftrightarrow>
      (\<forall>r. graph_reach g root r \<longrightarrow> (\<exists>q. cell_quid g r = Inr q)) \<and>
      (\<forall>r r' q. graph_reach g root r \<longrightarrow> graph_reach g root r' \<longrightarrow>
         has_claim g r q \<longrightarrow> has_claim g r' q \<longrightarrow> r = r')) \<and>
    (\<forall>m q r. scan_hson_node_quids g root = Inr m \<longrightarrow>
      (map_of m q = Some r \<longleftrightarrow> graph_reach g root r \<and> has_claim g r q))"
proof (cases "collect_hson_node_quid_claims g root")
  case (Inl f)
  then have "graph_reach g root (fault_node f) \<and> cell_quid g (fault_node f) = Inl (fault_code f)"
    using collect_loop_error [of g "[(root, [])]" "{}" "[]" f]
    by (simp add: collect_hson_node_quid_claims_def)
  then show ?thesis by (force simp: scan_hson_node_quids_def Inl)
next
  case (Inr cs)
  note res = collect_claims_result [OF assms Inr]
  have nodes: "distinct (map claim_node cs)" using res(1) by (simp add: claims_cover_def)
  have claims: "(\<exists>c \<in> set cs. claim_node c = r \<and> claim_quid c = q) \<longleftrightarrow>
      graph_reach g root r \<and> has_claim g r q" for r q
    using res(1) by (simp add: claims_cover_def)
  have run: "scan_hson_node_quids g root = Inr m \<longleftrightarrow>
      distinct (map claim_quid cs) \<and> m = map (\<lambda>c. (claim_quid c, claim_node c)) cs" for m
    using nodes
    by (auto simp: scan_hson_node_quids_def Inr index_unique_hson_node_quid_claims_def res_simps
        index_loop_iff)
  note unique = distinct_quids_iff [OF nodes claims]
  have lookup: "map_of (map (\<lambda>c. (claim_quid c, claim_node c)) cs) q = Some r \<longleftrightarrow>
      (\<exists>c \<in> set cs. claim_node c = r \<and> claim_quid c = q)" if "distinct (map claim_quid cs)" for q r
  proof -
    have "distinct (map fst (map (\<lambda>c. (claim_quid c, claim_node c)) cs))"
      using that by (simp add: comp_def)
    from map_of_eq_Some_iff [OF this] show ?thesis by auto
  qed
  show ?thesis unfolding run using res(2) unique lookup claims by auto
qed

definition cyclic_graph :: node_graph where
  "cyclic_graph =
     [\<lparr> cell_tag = js ''div'', cell_meta = Some [(HSON_META_QUID, PStr (js ''000000001''))],
        cell_content = [CellRef 1, CellRef 1] \<rparr>,
      \<lparr> cell_tag = ELEM_TAG, cell_meta = None, cell_content = [CellRef 0] \<rparr>]"

lemma cyclic_graph_scan: "scan_hson_node_quids cyclic_graph 0 = Inr [(js ''000000001'', 0)]"
  by code_simp

lemma quid_scan_indexes_reachable_claims_witness:
  "graph_reach cyclic_graph 0 0 \<and> has_claim cyclic_graph 0 (js ''000000001'') \<and>
   \<not> has_claim cyclic_graph 1 (js ''000000001'')"
proof -
  have root: "0 < length cyclic_graph" by (simp add: cyclic_graph_def)
  have edge: "graph_reach cyclic_graph 0 1" 
    by (rule r_into_rtranclp) (simp add: graph_edge_def cyclic_graph_def cell_node_def)
  have "map_of [(js ''000000001'', 0)] (js ''000000001'') = Some r \<longleftrightarrow>
      graph_reach cyclic_graph 0 r \<and> has_claim cyclic_graph r (js ''000000001'')" for r
    using quid_scan_indexes_reachable_claims [OF root] cyclic_graph_scan by blast
  from this [of 0] this [of 1] edge show ?thesis by simp
qed

end
