(* ===== verification/Array_Index.thy ===== *)
theory Array_Index
  imports Hson_Core
begin

text \<open>
  Indexes of explicit array wrappers (\<open>core/hson-array-indexes.ts\<close>): the analysis of one
  sibling sequence and the reordering of every array of a tree.
\<close>

section \<open>Analysis of one sequence\<close>

datatype index_fault =
    OnlyWrappers
  | IndexNotString nat
  | IndexNotExpected js_string
  | IndexDuplicate js_string
  | IndexMissing nat

datatype index_analysis =
    IndexInvalid index_fault
  | IndexValid (canonical: "hson_item list") (reordered: bool)

text \<open>The map from the exact spelling of every position below \<open>n\<close> to the position.\<close>

definition expected_position :: "nat \<Rightarrow> js_string \<Rightarrow> nat option" where
  "expected_position n s = map_of (map (\<lambda>i. (nat_str i, i)) [0..<n]) s"

text \<open>
  The placement loop. A slot holds the physical position of the child placed there, which
  stands for the identity of the child object.
\<close>

fun place_wrappers :: "nat \<Rightarrow> nat \<Rightarrow> hson_item list \<Rightarrow> nat option list \<Rightarrow> index_fault + nat option list" where
  "place_wrappers n pos [] slots = Inr slots"
| "place_wrappers n pos (ItemPrim p # items) slots = Inl OnlyWrappers"
| "place_wrappers n pos (ItemNode c # items) slots =
     (if \<not> is_Node (ItemNode c) \<or> tag_of c \<noteq> II_TAG then Inl OnlyWrappers
      else case node_meta c HSON_META_INDEX of
        Some (PStr raw) \<Rightarrow>
          (case expected_position n raw of
             None \<Rightarrow> Inl (IndexNotExpected raw)
           | Some i \<Rightarrow>
               if slots ! i \<noteq> None then Inl (IndexDuplicate raw)
               else place_wrappers n (Suc pos) items (slots[i := Some pos]))
      | _ \<Rightarrow> Inl (IndexNotString pos))"

definition first_missing :: "nat option list \<Rightarrow> nat option" where
  "first_missing slots =
     (case filter (\<lambda>i. slots ! i = None) [0..<length slots] of [] \<Rightarrow> None | i # is \<Rightarrow> Some i)"

definition analyze_hson_array_indexes :: "hson_item list \<Rightarrow> index_analysis" where
  "analyze_hson_array_indexes content =
     (case place_wrappers (length content) 0 content (replicate (length content) None) of
        Inl e \<Rightarrow> IndexInvalid e
      | Inr slots \<Rightarrow>
          (case first_missing slots of
             Some i \<Rightarrow> IndexInvalid (IndexMissing i)
           | None \<Rightarrow>
               IndexValid (map (\<lambda>s. content ! the s) slots)
                 (\<exists>i \<in> set [0..<length slots]. slots ! i \<noteq> Some i)))"

section \<open>Reordering a tree\<close>

text \<open>
  On a tree \<open>visit\<close> meets every node once, so the active and complete sets play no part. The
  fault carries the analysis of the array that failed.
\<close>

fun normalize_hson_array_index_order :: "hson_node \<Rightarrow> index_fault + hson_node"
  and normalize_items :: "hson_item list \<Rightarrow> index_fault + hson_item list" where
  "normalize_hson_array_index_order (HsonNode tag attrs meta content) =
     rbind (normalize_items content)
       (\<lambda>c. if tag = ARR_TAG then
              (case analyze_hson_array_indexes c of
                 IndexInvalid e \<Rightarrow> Inl e
               | IndexValid canon reord \<Rightarrow> Inr (HsonNode tag attrs meta (if reord then canon else c)))
            else Inr (HsonNode tag attrs meta c))"
| "normalize_items [] = Inr []"
| "normalize_items (ItemPrim p # items) =
     rbind (normalize_items items) (\<lambda>is. Inr (ItemPrim p # is))"
| "normalize_items (ItemNode n # items) =
     rbind (normalize_hson_array_index_order n)
       (\<lambda>m. rbind (normalize_items items) (\<lambda>is. Inr (ItemNode m # is)))"

section \<open>Meaning of the analysis\<close>


definition indexed_as :: "hson_item \<Rightarrow> nat \<Rightarrow> bool" where
  "indexed_as it i \<longleftrightarrow>
     (\<exists>c. it = ItemNode c \<and> is_Node it \<and> tag_of c = II_TAG \<and>
        node_meta c HSON_META_INDEX = Some (PStr (nat_str i)))"

lemma indexed_as_unique: "indexed_as it i \<Longrightarrow> indexed_as it j \<Longrightarrow> i = j"
  by (auto simp: indexed_as_def)

lemma expected_position_iff: "expected_position n s = Some i \<longleftrightarrow> i < n \<and> s = nat_str i"
proof -
  have "distinct (map fst (map (\<lambda>i. (nat_str i, i)) [0..<n]))"
    by (simp add: comp_def distinct_map inj_on_def)
  from map_of_eq_Some_iff [OF this] show ?thesis by (auto simp: expected_position_def)
qed

text \<open>
  The slots after the first \<open>pos\<close> children: slot \<open>i\<close> holds \<open>q\<close> exactly when child \<open>q\<close> has been
  placed and carries the index \<open>i\<close>.
\<close>

definition placed :: "hson_item list \<Rightarrow> nat \<Rightarrow> nat option list \<Rightarrow> bool" where
  "placed content pos slots \<longleftrightarrow>
     length slots = length content \<and>
     (\<forall>i < length content. \<forall>q. slots ! i = Some q \<longleftrightarrow> q < pos \<and> indexed_as (content ! q) i) \<and>
     (\<forall>q < pos. \<exists>i < length content. indexed_as (content ! q) i)"

lemma placed_start: "placed content 0 (replicate (length content) None)"
  by (simp add: placed_def)

lemma placed_step:
  assumes p: "placed content pos slots" and "pos < length content" and "i < length content"
    and ix: "indexed_as (content ! pos) i" and free: "slots ! i = None"
  shows "placed content (Suc pos) (slots[i := Some pos])"
proof -
  have "slots[i := Some pos] ! j = Some q \<longleftrightarrow> q < Suc pos \<and> indexed_as (content ! q) j"
    if j: "j < length content" for j q
  proof (cases "j = i")
    case True
    have "\<not> (q < pos \<and> indexed_as (content ! q) i)" for q
      using p free assms(3) by (metis placed_def option.distinct(1))
    then show ?thesis using True p assms(3) ix by (auto simp: placed_def less_Suc_eq)
  next
    case False
    then have "\<not> indexed_as (content ! pos) j" using ix by (auto dest: indexed_as_unique)
    then show ?thesis using False p j by (auto simp: placed_def less_Suc_eq)
  qed
  then show ?thesis
    using p assms(3) ix by (auto simp: placed_def less_Suc_eq)
qed

lemma drop_eq_ConsD: "x # xs = drop p c \<Longrightarrow> p < length c \<and> c ! p = x \<and> xs = drop (Suc p) c"
proof -
  assume a: "x # xs = drop p c"
  then have "p < length c" by (metis drop_eq_Nil2 list.discI not_le)
  then show ?thesis using a [symmetric] Cons_nth_drop_Suc [of p c] by simp
qed

lemma place_sound:
  "place_wrappers (length content) pos items slots = Inr out \<Longrightarrow>
   items = drop pos content \<Longrightarrow> placed content pos slots \<Longrightarrow> pos \<le> length content \<Longrightarrow>
   placed content (length content) out"
proof (induction "length content" pos items slots rule: place_wrappers.induct)
  case (1 pos slots)
  then show ?case by simp
next
  case (3 pos c items slots)
  then have pos: "pos < length content" "content ! pos = ItemNode c" "items = drop (Suc pos) content"
    using drop_eq_ConsD [of "ItemNode c" items pos content] by auto
  obtain raw i where i: "is_Node (ItemNode c)" "tag_of c = II_TAG"
    "node_meta c HSON_META_INDEX = Some (PStr raw)" "expected_position (length content) raw = Some i"
    "slots ! i = None" "place_wrappers (length content) (Suc pos) items (slots[i := Some pos]) = Inr out"
    using "3.prems"(1) by (auto split: if_splits option.splits prim.splits)
  then have "i < length content" "indexed_as (content ! pos) i"
    by (auto simp: expected_position_iff indexed_as_def pos)
  then have "placed content (Suc pos) (slots[i := Some pos])"
    using placed_step "3.prems"(3) pos(1) i(5) by blast
  then show ?case using "3.hyps" i pos by auto
next
  case (2 pos p items slots)
  from "2.prems"(1) show ?case by (simp only: place_wrappers.simps sum.distinct)
qed

lemma place_complete:
  "items = drop pos content \<Longrightarrow> placed content pos slots \<Longrightarrow> pos \<le> length content \<Longrightarrow>
   \<forall>q < length content. \<exists>i < length content. indexed_as (content ! q) i \<Longrightarrow>
   \<forall>q < length content. \<forall>r < length content. \<forall>i. indexed_as (content ! q) i \<longrightarrow> indexed_as (content ! r) i \<longrightarrow> q = r \<Longrightarrow>
   \<exists>out. place_wrappers (length content) pos items slots = Inr out"
proof (induction items arbitrary: pos slots)
  case (Cons it items)
  then have pos: "pos < length content" "content ! pos = it" "items = drop (Suc pos) content"
    using drop_eq_ConsD [of it items pos content] by auto
  then obtain i where i: "i < length content" "indexed_as it i" using Cons.prems(4) by blast
  then obtain c where c: "it = ItemNode c" "is_Node (ItemNode c)" "tag_of c = II_TAG"
    "node_meta c HSON_META_INDEX = Some (PStr (nat_str i))"
    by (auto simp: indexed_as_def)
  have free: "slots ! i = None"
  proof (rule ccontr)
    assume "slots ! i \<noteq> None"
    then obtain q where "q < pos" "indexed_as (content ! q) i"
      using Cons.prems(2) i(1) by (auto simp: placed_def)
    then show False using Cons.prems(5) pos i(2) by (metis less_irrefl order.strict_trans)
  qed
  have "placed content (Suc pos) (slots[i := Some pos])"
    using placed_step Cons.prems(2) pos(1,2) i free by blast
  then obtain out where "place_wrappers (length content) (Suc pos) items (slots[i := Some pos]) = Inr out"
    using Cons.IH [OF pos(3)] Cons.prems(4,5) pos(1) by (metis Suc_leI)
  moreover have "expected_position (length content) (nat_str i) = Some i"
    using i(1) by (simp add: expected_position_iff)
  ultimately show ?case using c i free by simp
qed simp

text \<open>
  A canonical arrangement of \<open>content\<close>: the same items, the item at position \<open>i\<close> a wrapper
  with the index \<open>i\<close>.
\<close>

definition arrangement :: "hson_item list \<Rightarrow> hson_item list \<Rightarrow> bool" where
  "arrangement content canon \<longleftrightarrow>
     mset canon = mset content \<and> (\<forall>i < length canon. indexed_as (canon ! i) i)"

lemma arrangement_length: "arrangement content canon \<Longrightarrow> length canon = length content"
  by (auto simp: arrangement_def dest: mset_eq_length)

lemma arrangement_item:
  assumes "arrangement content canon" and "x \<in> set content" and "indexed_as x i"
  shows "i < length content \<and> canon ! i = x"
proof -
  have "x \<in> set canon" using assms(1,2) by (metis arrangement_def set_mset_mset)
  then obtain j where "j < length canon" "canon ! j = x" by (auto simp: in_set_conv_nth)
  then have "j = i" using assms(1,3) by (auto simp: arrangement_def intro: indexed_as_unique)
  then show ?thesis using \<open>j < length canon\<close> \<open>canon ! j = x\<close> arrangement_length [OF assms(1)] by simp
qed

lemma arrangement_position_unique:
  assumes "arrangement content canon" and "q < length content" and "r < length content"
    and "indexed_as (content ! q) i" and "indexed_as (content ! r) i"
  shows "q = r"
proof (rule ccontr)
  assume ne: "q \<noteq> r"
  let ?P = "\<lambda>x. indexed_as x i"
  have i: "i < length canon"
    using arrangement_item [OF assms(1) _ assms(4)] assms(2) arrangement_length [OF assms(1)] by simp
  have "{j. j < length canon \<and> ?P (canon ! j)} = {i}"
    using assms(1) i by (auto simp: arrangement_def dest: indexed_as_unique)
  then have "length (filter ?P canon) = 1" by (simp add: length_filter_conv_card)
  moreover have "length (filter ?P content) = length (filter ?P canon)"
    using assms(1) by (metis arrangement_def mset_filter size_mset)
  moreover have "{q, r} \<subseteq> {j. j < length content \<and> ?P (content ! j)}" using assms by auto
  then have "card {q, r} \<le> length (filter ?P content)"
    unfolding length_filter_conv_card by (rule card_mono [rotated]) simp
  ultimately show False using ne by simp
qed

lemma first_missing_None: "first_missing slots = None \<longleftrightarrow> (\<forall>i < length slots. slots ! i \<noteq> None)"
proof -
  have "first_missing slots = None \<longleftrightarrow> filter (\<lambda>i. slots ! i = None) [0..<length slots] = []"
    by (simp add: first_missing_def split: list.splits)
  then show ?thesis by (auto simp: filter_empty_conv)
qed

lemma placed_full:
  assumes p: "placed content (length content) slots"
  shows "first_missing slots = None"
    and "arrangement content (map (\<lambda>s. content ! the s) slots)"
    and "(\<exists>i \<in> set [0..<length slots]. slots ! i \<noteq> Some i) \<longleftrightarrow> map (\<lambda>s. content ! the s) slots \<noteq> content"
proof -
  define n where "n = length content"
  have len: "length slots = n" using p by (simp add: placed_def n_def)
  have sl: "slots ! i = Some q \<longleftrightarrow> q < n \<and> indexed_as (content ! q) i" if "i < n" for i q
    using p that by (simp add: placed_def n_def)
  have ex: "\<exists>i < n. slots ! i = Some q" if q: "q < n" for q
  proof -
    obtain i where i: "i < n" "indexed_as (content ! q) i"
      using p q by (auto simp: placed_def n_def)
    then show ?thesis using sl [OF i(1), of q] q by blast
  qed
  define f where "f q = (SOME i. i < n \<and> slots ! i = Some q)" for q
  have f: "f q < n \<and> slots ! (f q) = Some q" if "q < n" for q
    unfolding f_def using ex [OF that] by (rule someI2_ex) simp
  have "inj_on f {..<n}" by (rule inj_onI) (metis f lessThan_iff option.inject)
  moreover have "f ` {..<n} \<subseteq> {..<n}" using f by auto
  ultimately have surj: "f ` {..<n} = {..<n}" by (simp add: endo_inj_surj)
  have full: "\<exists>q < n. slots ! i = Some q" if "i < n" for i
    using surj that f by (metis image_iff lessThan_iff)
  then show "first_missing slots = None" using len by (auto simp: first_missing_None)
  have idx: "indexed_as (content ! the (slots ! i)) i" if i: "i < n" for i
  proof -
    obtain q where "slots ! i = Some q" using full [OF i] by blast
    then show ?thesis using sl [OF i, of q] by simp
  qed
  have "mset (map the slots) = mset [0..<n]"
  proof (rule set_eq_iff_mset_eq_distinct [THEN iffD1])
    show "distinct (map the slots)"
    proof (rule distinct_conv_nth [THEN iffD2], intro allI impI)
      fix i j assume "i < length (map the slots)" "j < length (map the slots)" "i \<noteq> j"
      moreover from this have "i < n" "j < n" using len by simp_all
      ultimately show "map the slots ! i \<noteq> map the slots ! j"
        using idx [of i] idx [of j] by (auto dest: indexed_as_unique)
    qed
    show "set (map the slots) = set [0..<n]"
      using full ex len by (force simp: in_set_conv_nth image_iff)
  qed simp
  then have "mset (map (\<lambda>q. content ! q) (map the slots)) = mset (map (\<lambda>q. content ! q) [0..<n])"
    by (simp only: mset_map)
  then have ms: "mset (map (\<lambda>s. content ! the s) slots) = mset content"
    by (simp add: n_def map_nth comp_def del: mset_map)
  then show "arrangement content (map (\<lambda>s. content ! the s) slots)"
    using idx len by (simp add: arrangement_def)
  show "(\<exists>i \<in> set [0..<length slots]. slots ! i \<noteq> Some i) \<longleftrightarrow> map (\<lambda>s. content ! the s) slots \<noteq> content"
  proof -
    have "(\<forall>i < n. slots ! i = Some i) \<longleftrightarrow> map (\<lambda>s. content ! the s) slots = content"
    proof
      assume "\<forall>i < n. slots ! i = Some i"
      then show "map (\<lambda>s. content ! the s) slots = content"
        by (intro nth_equalityI) (simp_all add: len n_def)
    next
      assume eq: "map (\<lambda>s. content ! the s) slots = content"
      show "\<forall>i < n. slots ! i = Some i"
      proof (intro allI impI)
        fix i assume i: "i < n"
        then have "content ! i = content ! the (slots ! i)"
          using eq len by (metis nth_map)
        then show "slots ! i = Some i" using sl [OF i] idx [OF i] i by simp
      qed
    qed
    then show ?thesis using len by auto
  qed
qed

lemma analyze_valid:
  "analyze_hson_array_indexes content = IndexValid canon reord \<longleftrightarrow>
     arrangement content canon \<and> (reord \<longleftrightarrow> canon \<noteq> content)"
proof -
  let ?start = "replicate (length content) None"
  have sound: "placed content (length content) slots"
    if "place_wrappers (length content) 0 content ?start = Inr slots" for slots
    using place_sound [OF that] placed_start by simp
  show ?thesis
  proof
    assume a: "analyze_hson_array_indexes content = IndexValid canon reord"
    then obtain slots where s: "place_wrappers (length content) 0 content ?start = Inr slots"
      by (auto simp: analyze_hson_array_indexes_def split: sum.splits)
    note full = placed_full [OF sound [OF s]]
    show "arrangement content canon \<and> (reord \<longleftrightarrow> canon \<noteq> content)"
      using a full by (auto simp: analyze_hson_array_indexes_def s)
  next
    assume a: "arrangement content canon \<and> (reord \<longleftrightarrow> canon \<noteq> content)"
    have "\<forall>q < length content. \<exists>i < length content. indexed_as (content ! q) i"
    proof (intro allI impI)
      fix q assume "q < length content"
      then have "content ! q \<in> set canon"
        using a by (metis arrangement_def nth_mem set_mset_mset)
      then show "\<exists>i < length content. indexed_as (content ! q) i"
        using a arrangement_length by (metis arrangement_def in_set_conv_nth)
    qed
    then obtain slots where s: "place_wrappers (length content) 0 content ?start = Inr slots"
      using place_complete [of content 0 content ?start] placed_start a arrangement_position_unique
      by (metis drop0 le0)
    note full = placed_full [OF sound [OF s]]
    have "map (\<lambda>s. content ! the s) slots = canon"
    proof (rule nth_equalityI)
      show len: "length (map (\<lambda>s. content ! the s) slots) = length canon"
        using arrangement_length a full(2) by metis
      fix i assume i: "i < length (map (\<lambda>s. content ! the s) slots)"
      have "map (\<lambda>s. content ! the s) slots ! i \<in> set content"
        using full(2) i by (metis arrangement_def nth_mem set_mset_mset)
      moreover have "indexed_as (map (\<lambda>s. content ! the s) slots ! i) i"
        using full(2) i by (simp only: arrangement_def)
      ultimately show "map (\<lambda>s. content ! the s) slots ! i = canon ! i"
        using arrangement_item a by metis
    qed
    then show "analyze_hson_array_indexes content = IndexValid canon reord"
      using a full by (simp add: analyze_hson_array_indexes_def s)
  qed
qed

text \<open>
  C33: the index analysis accepts a sibling sequence exactly when some ordering of the same
  items carries the indexes \<open>0, 1, 2, ...\<close> in exact decimal spelling; it returns that ordering
  and says whether it differs from the physical order. In particular a gap is never reported
  as a missing index: \<open>n\<close> distinct indexes below \<open>n\<close> leave none.
\<close>

theorem array_analysis_finds_arrangement:
  "(\<forall>canon reord. analyze_hson_array_indexes content = IndexValid canon reord \<longleftrightarrow>
      arrangement content canon \<and> (reord \<longleftrightarrow> canon \<noteq> content)) \<and>
   (\<forall>i. analyze_hson_array_indexes content \<noteq> IndexInvalid (IndexMissing i))"
proof -
  have "analyze_hson_array_indexes content \<noteq> IndexInvalid (IndexMissing i)" for i
  proof
    assume a: "analyze_hson_array_indexes content = IndexInvalid (IndexMissing i)"
    show False
    proof (cases "place_wrappers (length content) 0 content (replicate (length content) None)")
      case (Inl e)
      moreover have "place_wrappers n pos items slots \<noteq> Inl (IndexMissing i)" for n pos items slots
        by (induction n pos items slots rule: place_wrappers.induct)
          (auto split: option.splits prim.splits)
      ultimately show ?thesis using a by (auto simp: analyze_hson_array_indexes_def)
    next
      case (Inr slots)
      then have "placed content (length content) slots"
        using place_sound [OF Inr] placed_start by simp
      from placed_full(1) [OF this] show ?thesis
        using a by (simp add: analyze_hson_array_indexes_def Inr)
    qed
  qed
  then show ?thesis using analyze_valid by blast
qed

section \<open>Trees\<close>

fun index_ordered :: "hson_node \<Rightarrow> bool"
  and item_ordered :: "hson_item \<Rightarrow> bool" where
  "index_ordered (HsonNode tag attrs meta content) =
     ((\<forall>it \<in> set content. item_ordered it) \<and>
      (tag = ARR_TAG \<longrightarrow> (\<forall>i < length content. indexed_as (content ! i) i)))"
| "item_ordered (ItemPrim p) = True"
| "item_ordered (ItemNode n) = index_ordered n"

lemma arrangement_self: "arrangement c c \<longleftrightarrow> (\<forall>i < length c. indexed_as (c ! i) i)"
  by (simp add: arrangement_def)

lemma normalize_ordered:
  "normalize_hson_array_index_order n = Inr m \<Longrightarrow> index_ordered m"
  "normalize_items c = Inr c' \<Longrightarrow> \<forall>it \<in> set c'. item_ordered it"
proof (induction n and c arbitrary: m and c'
    rule: normalize_hson_array_index_order_normalize_items.induct)
  case (1 tag attrs meta content)
  then obtain c where c: "normalize_items content = Inr c" "\<forall>it \<in> set c. item_ordered it"
    by (auto simp: res_simps)
  show ?case
  proof (cases "tag = ARR_TAG")
    case True
    then obtain canon reord where a: "analyze_hson_array_indexes c = IndexValid canon reord"
      "m = HsonNode tag attrs meta (if reord then canon else c)"
      using "1.prems" c(1) by (auto split: index_analysis.splits)
    then have ar: "arrangement c canon" and m: "m = HsonNode tag attrs meta canon"
      by (auto simp: analyze_valid)
    have "set canon = set c" using ar by (metis arrangement_def set_mset_mset)
    then show ?thesis using c(2) ar m by (simp add: arrangement_def)
  next
    case False
    then show ?thesis using "1.prems" c by auto
  qed
qed (auto simp: res_simps)

lemma normalize_fixed:
  "index_ordered n \<Longrightarrow> normalize_hson_array_index_order n = Inr n"
  "\<forall>it \<in> set c. item_ordered it \<Longrightarrow> normalize_items c = Inr c"
proof (induction n and c rule: normalize_hson_array_index_order_normalize_items.induct)
  case (1 tag attrs meta content)
  then have "tag = ARR_TAG \<Longrightarrow> analyze_hson_array_indexes content = IndexValid content False"
    by (simp add: analyze_valid arrangement_self)
  then show ?case using 1 by auto
qed auto

text \<open>
  Whenever the reordering of a tree succeeds, every array of the result lists its items
  in index order, and reordering the result again changes nothing.
\<close>

theorem normalize_index_order_idempotent:
  assumes "normalize_hson_array_index_order n = Inr m"
  shows "index_ordered m \<and> normalize_hson_array_index_order m = Inr m"
  using normalize_ordered(1) [OF assms] normalize_fixed(1) by blast

abbreviation sample_wrapper :: "nat \<Rightarrow> prim \<Rightarrow> hson_item" where
  "sample_wrapper i p \<equiv>
     ItemNode (HsonNode II_TAG None (Some [(HSON_META_INDEX, PStr (nat_str i))])
       [ItemNode (bare_node VAL_TAG [ItemPrim p])])"

lemma sample_wrapper_indexed: "indexed_as (sample_wrapper i p) j \<longleftrightarrow> i = j"
  by (auto simp: indexed_as_def node_meta_def old_shaped_meta_def HSON_META_INDEX_def)

lemma sample_reorder:
  "normalize_hson_array_index_order
     (bare_node ARR_TAG [sample_wrapper 1 PNull, sample_wrapper 0 (PBool True)]) =
   Inr (bare_node ARR_TAG [sample_wrapper 0 (PBool True), sample_wrapper 1 PNull])"
proof -
  have "arrangement [sample_wrapper 1 PNull, sample_wrapper 0 (PBool True)]
      [sample_wrapper 0 (PBool True), sample_wrapper 1 PNull]"
    by (auto simp: arrangement_def less_Suc_eq sample_wrapper_indexed add_mset_commute)
  then have "analyze_hson_array_indexes [sample_wrapper 1 PNull, sample_wrapper 0 (PBool True)] =
      IndexValid [sample_wrapper 0 (PBool True), sample_wrapper 1 PNull] True"
    by (simp add: analyze_valid)
  then show ?thesis by simp
qed

lemma normalize_index_order_idempotent_witness:
  "index_ordered (bare_node ARR_TAG [sample_wrapper 0 (PBool True), sample_wrapper 1 PNull]) \<and>
   normalize_hson_array_index_order
     (bare_node ARR_TAG [sample_wrapper 0 (PBool True), sample_wrapper 1 PNull]) =
   Inr (bare_node ARR_TAG [sample_wrapper 0 (PBool True), sample_wrapper 1 PNull])"
  by (rule normalize_index_order_idempotent [OF sample_reorder])

end
