(* ===== verification/Hson_Metadata.thy ===== *)
theory Hson_Metadata
  imports Persisted_Quid
begin

text \<open>
  The registry of canonical structural metadata (\<open>core/hson-metadata.ts\<close>) and the inline-style
  value domain of attributes (\<open>core/inline-style.ts\<close>).
\<close>

section \<open>Registry and policy\<close>

datatype metadata_node_kind = OrdinaryElement | ArrayItemWrapper | ProjectedContainer

record metadata_definition =
  md_key :: js_string
  md_markup :: js_string
  md_kinds :: "metadata_node_kind list"
  md_validate :: "prim \<Rightarrow> bool"

definition quid_definition :: metadata_definition where
  "quid_definition =
     \<lparr> md_key = HSON_META_QUID, md_markup = HSON_META_MARKUP_PREFIX @ HSON_META_QUID,
       md_kinds = [OrdinaryElement, ProjectedContainer], md_validate = is_persisted_quid \<rparr>"

definition index_definition :: metadata_definition where
  "index_definition =
     \<lparr> md_key = HSON_META_INDEX, md_markup = HSON_META_MARKUP_PREFIX @ HSON_META_INDEX,
       md_kinds = [ArrayItemWrapper], md_validate = prim_is_string \<rparr>"

definition HSON_METADATA_REGISTRY :: "(js_string \<times> metadata_definition) list" where
  "HSON_METADATA_REGISTRY = [(HSON_META_QUID, quid_definition), (HSON_META_INDEX, index_definition)]"

definition is_hson_metadata_key :: "js_string \<Rightarrow> bool" where
  "is_hson_metadata_key k \<longleftrightarrow> map_of HSON_METADATA_REGISTRY k \<noteq> None"

definition hson_metadata_definition :: "js_string \<Rightarrow> metadata_definition option" where
  "hson_metadata_definition k = map_of HSON_METADATA_REGISTRY k"

definition hson_metadata_key_for_markup :: "js_string \<Rightarrow> js_string option" where
  "hson_metadata_key_for_markup name =
     map_of (map (\<lambda>(k, d). (md_markup d, md_key d)) HSON_METADATA_REGISTRY) name"

definition hson_metadata_candidate_key :: "js_string \<Rightarrow> js_string option" where
  "hson_metadata_candidate_key name =
     (if starts_with name HSON_META_MARKUP_PREFIX
      then Some (drop (length HSON_META_MARKUP_PREFIX) name) else None)"

definition node_kind_for_tag :: "js_string \<Rightarrow> metadata_node_kind option" where
  "node_kind_for_tag tag =
     (if tag = II_TAG then Some ArrayItemWrapper
      else if tag = OBJ_TAG \<or> tag = ARR_TAG then Some ProjectedContainer
      else if \<not> starts_with tag HSON_SYS_PREFIX \<and> tag \<notin> set EVERY_VSN then Some OrdinaryElement
      else None)"

datatype metadata_fault =
    UnknownMetadataKey
  | MetadataNotForNode
  | UnknownMarkupName
  | InvalidMetadataValue

definition hson_metadata_policy :: "js_string \<Rightarrow> js_string \<Rightarrow> metadata_fault + metadata_definition" where
  "hson_metadata_policy tag k =
     (case hson_metadata_definition k of
        None \<Rightarrow> Inl UnknownMetadataKey
      | Some d \<Rightarrow>
          (case node_kind_for_tag tag of
             None \<Rightarrow> Inl MetadataNotForNode
           | Some kind \<Rightarrow> if kind \<in> set (md_kinds d) then Inr d else Inl MetadataNotForNode))"

definition hson_metadata_value_is_valid :: "js_string \<Rightarrow> prim \<Rightarrow> bool" where
  "hson_metadata_value_is_valid k v =
     (case hson_metadata_definition k of None \<Rightarrow> False | Some d \<Rightarrow> md_validate d v)"

definition admit_hson_metadata_markup ::
    "js_string \<Rightarrow> js_string \<Rightarrow> prim \<Rightarrow> metadata_fault + js_string \<times> metadata_definition \<times> prim" where
  "admit_hson_metadata_markup tag name v =
     (case (hson_metadata_candidate_key name, hson_metadata_key_for_markup name) of
        (Some c, Some k) \<Rightarrow>
          rbind (hson_metadata_policy tag k)
            (\<lambda>d. if md_validate d v then Inr (k, d, v) else Inl InvalidMetadataValue)
      | _ \<Rightarrow> Inl UnknownMarkupName)"

lemma registry_lookup:
  "hson_metadata_definition k =
     (if k = HSON_META_QUID then Some quid_definition
      else if k = HSON_META_INDEX then Some index_definition else None)"
  by (simp add: hson_metadata_definition_def HSON_METADATA_REGISTRY_def)

lemma policy_Inr:
  "hson_metadata_policy tag k = Inr d \<longleftrightarrow>
     k = HSON_META_QUID \<and> d = quid_definition \<and>
       (tag = OBJ_TAG \<or> tag = ARR_TAG \<or> \<not> starts_with tag HSON_SYS_PREFIX) \<or>
     k = HSON_META_INDEX \<and> d = index_definition \<and> tag = II_TAG"
  using user_tag_neq(4-6,8) [of tag]
  by (auto simp: hson_metadata_policy_def registry_lookup node_kind_for_tag_def quid_definition_def
      index_definition_def split: if_splits)

section \<open>Inline style\<close>

text \<open>
  A typed CSS value is a record with a \<open>value\<close> that is text or a finite number and at most a
  \<open>unit\<close> beside it, which is text or undefined.
\<close>

fun is_typed_css_value :: "attr_value \<Rightarrow> bool" where
  "is_typed_css_value (ARec es) \<longleftrightarrow>
     (\<forall>k \<in> fst ` set es. k = js ''value'' \<or> k = js ''unit'') \<and>
     (case map_of es (js ''value'') of
        Some (APrim (PStr s)) \<Rightarrow> True
      | Some (APrim (PNum x)) \<Rightarrow> num_finite x
      | _ \<Rightarrow> False) \<and>
     (case map_of es (js ''unit'') of
        None \<Rightarrow> True
      | Some AUndef \<Rightarrow> True
      | Some (APrim (PStr s)) \<Rightarrow> True
      | _ \<Rightarrow> False)"
| "is_typed_css_value _ \<longleftrightarrow> False"

fun is_css_declaration_value :: "attr_value \<Rightarrow> bool" where
  "is_css_declaration_value AUndef \<longleftrightarrow> True"
| "is_css_declaration_value (APrim (PNum x)) \<longleftrightarrow> num_finite x"
| "is_css_declaration_value (APrim _) \<longleftrightarrow> True"
| "is_css_declaration_value (ARec es) \<longleftrightarrow> is_typed_css_value (ARec es)"

fun is_valid_inline_style :: "attr_value \<Rightarrow> bool" where
  "is_valid_inline_style (ARec es) \<longleftrightarrow>
     (\<forall>e \<in> set es. snd e \<noteq> AUndef \<and> is_css_declaration_value (snd e))"
| "is_valid_inline_style _ \<longleftrightarrow> False"

end
