(* ===== verification/Invariants.thy ===== *)
theory Invariants
  imports Hson_Metadata Array_Index Value_Graph
begin

text \<open>
  The canonical-invariant walker (\<open>core/assert-invariants.ts\<close>, \<open>walk\<close>) over node trees, in
  both of its modes: stop at the first issue, or collect all of them.
\<close>

section \<open>Issues\<close>

datatype inv_seg = SegTag js_string | SegIndex nat | SegMeta js_string | SegAttr js_string

datatype inv_kind =
    EmptyAttributes
  | UnknownVsnTag
  | BadQuid
  | MetadataPolicy metadata_fault
  | MetadataValue
  | VsnAttributes
  | MetadataInAttrs
  | MetadataTransitName
  | AttrTransitName
  | InvalidAttrName
  | StructureInvalid
  | EmptyElementWrapper
  | ElementBranchCrossing
  | ObjectBranchCrossing
  | UnwrappedArrayMember
  | LeafArity
  | StrPayload
  | ValNonfinite
  | ValPayload
  | ItemOutsideArray
  | ItemAttributes
  | ItemArity
  | ItemNotNode
  | ItemOrdinaryChild
  | ItemElementChild
  | ArrayIndexes index_fault
  | ArrayOrder
  | ArrayChildNotNode
  | ArrayChildNotItem
  | ElementEmpty
  | ElementPrimitive
  | ElementVal
  | ElementStructural
  | RootArity
  | RootNotNode
  | RootChildKind
  | ObjPrimitive
  | ObjChildAttrs
  | ObjElement
  | ObjDuplicate js_string
  | StrayPrimitive

type_synonym inv_issue = "inv_kind \<times> inv_seg list"

text \<open>
  \<open>andthen first e r\<close>: the statements that push \<open>e\<close>, then, unless the mode stops at the first
  issue and there is one, the rest.
\<close>

definition andthen :: "bool \<Rightarrow> 'a list \<Rightarrow> 'a list \<Rightarrow> 'a list" where
  "andthen first e r = (if first \<and> e \<noteq> [] then e else e @ r)"

definition issue_if :: "bool \<Rightarrow> 'a \<Rightarrow> 'a list" where
  "issue_if b x = (if b then [x] else [])"

definition isVSN :: "js_string \<Rightarrow> bool" where
  "isVSN t \<longleftrightarrow> t = STR_TAG \<or> t = VAL_TAG \<or> t = ARR_TAG \<or> t = OBJ_TAG \<or> t = ELEM_TAG \<or>
     t = ROOT_TAG \<or> t = II_TAG"

section \<open>Metadata and attributes of one node\<close>

fun meta_entry_issues :: "bool \<Rightarrow> inv_seg list \<Rightarrow> js_string \<Rightarrow> (js_string \<times> prim) list \<Rightarrow> inv_issue list" where
  "meta_entry_issues first here tag [] = []"
| "meta_entry_issues first here tag ((k, v) # es) =
     andthen first
       (case hson_metadata_policy tag k of
          Inl e \<Rightarrow> [(MetadataPolicy e, here @ [SegMeta k])]
        | Inr d \<Rightarrow> [])
       (andthen first
         (issue_if (\<not> hson_metadata_value_is_valid k v) (MetadataValue, here @ [SegMeta k]))
         (meta_entry_issues first here tag es))"

definition meta_issues :: "bool \<Rightarrow> inv_seg list \<Rightarrow> hson_node \<Rightarrow> inv_issue list" where
  "meta_issues first here n =
     (case meta_of n of
        None \<Rightarrow> []
      | Some es \<Rightarrow>
          andthen first
            (issue_if (HSON_META_QUID \<in> fst ` set es \<and> validate_hson_node_quid n \<noteq> Inr ()) (BadQuid, here))
            (meta_entry_issues first here (tag_of n) es))"

fun attr_entry_issues :: "bool \<Rightarrow> inv_seg list \<Rightarrow> js_string \<Rightarrow> js_string list \<Rightarrow> inv_issue list" where
  "attr_entry_issues first here tag [] = []"
| "attr_entry_issues first here tag (k # ks) =
     andthen first
       (case hson_metadata_candidate_key k of
          None \<Rightarrow> []
        | Some c \<Rightarrow>
            (case hson_metadata_policy tag c of
               Inr d \<Rightarrow> [(MetadataInAttrs, here @ [SegAttr k])]
             | Inl e \<Rightarrow> [(MetadataPolicy e, here @ [SegAttr k])]))
       (andthen first
         (issue_if (starts_with (to_lower k) HSON_META_TRANSIT_PREFIX) (MetadataTransitName, here @ [SegAttr k]))
         (andthen first
           (issue_if (starts_with (to_lower k) TRANSIT_PREFIX) (AttrTransitName, here @ [SegAttr k]))
           (andthen first
             (issue_if (\<not> is_valid_hson_attribute_name k) (InvalidAttrName, here @ [SegAttr k]))
             (attr_entry_issues first here tag ks))))"

definition attr_issues :: "bool \<Rightarrow> inv_seg list \<Rightarrow> hson_node \<Rightarrow> inv_issue list" where
  "attr_issues first here n =
     andthen first
       (issue_if (isVSN (tag_of n) \<and> has_own_entries (attrs_of n)) (VsnAttributes, here))
       (case attrs_of n of
          Some es \<Rightarrow> if isVSN (tag_of n) then [] else attr_entry_issues first here (tag_of n) (map fst es)
        | None \<Rightarrow> [])"

text \<open>The statements of \<open>walk\<close> before the structural branches.\<close>

definition head_issues :: "bool \<Rightarrow> inv_seg list \<Rightarrow> hson_node \<Rightarrow> inv_issue list" where
  "head_issues first here n =
     andthen first
       (issue_if (attrs_of n = Some []) (EmptyAttributes, here))
       (andthen first
         (issue_if (starts_with (tag_of n) HSON_SYS_PREFIX \<and> tag_of n \<notin> set EVERY_VSN) (UnknownVsnTag, here))
         (andthen first (meta_issues first here n) (attr_issues first here n)))"

definition leaf_issues :: "bool \<Rightarrow> inv_seg list \<Rightarrow> js_string \<Rightarrow> hson_item list \<Rightarrow> inv_issue list" where
  "leaf_issues first here tag content =
     (case content of
        [v] \<Rightarrow>
          if tag = STR_TAG then
            (case v of ItemPrim (PStr s) \<Rightarrow> [] | _ \<Rightarrow> [(StrPayload, here)])
          else
            (case v of
               ItemPrim (PNum x) \<Rightarrow>
                 if num_finite x then []
                 else andthen first [(ValNonfinite, here @ [SegIndex 0])] [(ValPayload, here @ [SegIndex 0])]
             | ItemPrim PNull \<Rightarrow> []
             | ItemPrim (PBool b) \<Rightarrow> []
             | _ \<Rightarrow> [(ValPayload, here @ [SegIndex 0])])
      | _ \<Rightarrow> [(LeafArity, here)])"

definition item_issues ::
    "bool \<Rightarrow> inv_seg list \<Rightarrow> js_string option \<Rightarrow> hson_attrs option \<Rightarrow> hson_item list \<Rightarrow> inv_issue list" where
  "item_issues first here parent attrs content =
     (let only = (case content of [] \<Rightarrow> None | it # its \<Rightarrow> kid_tag it) in
      andthen first (issue_if (parent \<noteq> Some ARR_TAG) (ItemOutsideArray, here))
        (andthen first (issue_if (has_own_entries attrs) (ItemAttributes, here))
          (andthen first (issue_if (length content \<noteq> 1) (ItemArity, here))
            (andthen first (issue_if (only = None) (ItemNotNode, here))
              (andthen first
                (issue_if (case only of Some t \<Rightarrow> \<not> isVSN t | None \<Rightarrow> False) (ItemOrdinaryChild, here))
                (issue_if (only = Some ELEM_TAG) (ItemElementChild, here)))))))"

definition root_issues :: "bool \<Rightarrow> inv_seg list \<Rightarrow> hson_item list \<Rightarrow> inv_issue list" where
  "root_issues first here content =
     andthen first (issue_if (length content > 1) (RootArity, here))
       (case content of
          [it] \<Rightarrow>
            (case kid_tag it of
               None \<Rightarrow> [(RootNotNode, here)]
             | Some t \<Rightarrow>
                 issue_if (t \<notin> {OBJ_TAG, ELEM_TAG, ARR_TAG, STR_TAG, VAL_TAG}) (RootChildKind, here))
        | _ \<Rightarrow> [])"

text \<open>The checks of an ordinary node before its cluster is walked; they return early.\<close>

definition ordinary_fault :: "js_string option \<Rightarrow> ordinary_structure \<Rightarrow> inv_kind option" where
  "ordinary_fault parent s =
     (if s = InvalidStructure then Some StructureInvalid
      else if (case s of LegacyEmptyElementWrapper c \<Rightarrow> True | _ \<Rightarrow> False) then Some EmptyElementWrapper
      else if parent = Some ELEM_TAG \<and>
        (case s of EmptyElement \<Rightarrow> False | ElementStructure c \<Rightarrow> False | _ \<Rightarrow> True)
        then Some ElementBranchCrossing
      else if parent = Some OBJ_TAG \<and>
        (case s of ObjectStructure c \<Rightarrow> False | ObjectScalar c \<Rightarrow> False | ArrayStructure c \<Rightarrow> False | _ \<Rightarrow> True)
        then Some ObjectBranchCrossing
      else if parent = Some II_TAG then Some UnwrappedArrayMember
      else None)"

fun structure_cluster :: "ordinary_structure \<Rightarrow> hson_node option" where
  "structure_cluster (ElementStructure c) = Some c"
| "structure_cluster (ObjectStructure c) = Some c"
| "structure_cluster (ObjectScalar c) = Some c"
| "structure_cluster (ArrayStructure c) = Some c"
| "structure_cluster _ = None"

lemma structure_cluster_content:
  "structure_cluster (classify_ordinary_hson_structure (HsonNode t a m content)) = Some c \<Longrightarrow>
   content = [ItemNode c]"
  by (auto simp: classify_ordinary_hson_structure_def split: list.splits hson_item.splits if_splits)

lemma structure_cluster_size [termination_simp]:
  "structure_cluster (classify_ordinary_hson_structure (HsonNode t a m content)) = Some c \<Longrightarrow>
   size c < Suc (size_list size content)"
  by (drule structure_cluster_content) simp

section \<open>The walker\<close>

function walk :: "bool \<Rightarrow> inv_seg list \<Rightarrow> js_string option \<Rightarrow> hson_node \<Rightarrow> inv_issue list"
  and walk_arr :: "bool \<Rightarrow> inv_seg list \<Rightarrow> nat \<Rightarrow> hson_item list \<Rightarrow> inv_issue list"
  and walk_elem :: "bool \<Rightarrow> inv_seg list \<Rightarrow> nat \<Rightarrow> hson_item list \<Rightarrow> inv_issue list"
  and walk_obj :: "bool \<Rightarrow> inv_seg list \<Rightarrow> nat \<Rightarrow> js_string list \<Rightarrow> hson_item list \<Rightarrow> inv_issue list"
  and walk_rest :: "bool \<Rightarrow> inv_seg list \<Rightarrow> js_string \<Rightarrow> nat \<Rightarrow> hson_item list \<Rightarrow> inv_issue list" where
  "walk first path parent (HsonNode tag attrs meta content) =
     (let here = path @ [SegTag tag] in
      andthen first (head_issues first here (HsonNode tag attrs meta content))
        (if \<not> isVSN tag then
           (let s = classify_ordinary_hson_structure (HsonNode tag attrs meta content) in
              case ordinary_fault parent s of
                Some k \<Rightarrow> [(k, here)]
              | None \<Rightarrow>
                  (case structure_cluster s of
                     None \<Rightarrow> []
                   | Some c \<Rightarrow> walk first here (Some tag) c))
         else if tag = STR_TAG \<or> tag = VAL_TAG then leaf_issues first here tag content
         else
           andthen first
             (if tag = II_TAG then item_issues first here parent attrs content else [])
             (if tag = ARR_TAG then
                andthen first
                  (case analyze_hson_array_indexes content of
                     IndexInvalid e \<Rightarrow> [(ArrayIndexes e, here)]
                   | IndexValid canon reord \<Rightarrow> issue_if reord (ArrayOrder, here))
                  (walk_arr first here 0 content)
              else if tag = ELEM_TAG then
                (if content = [] then [(ElementEmpty, here)] else walk_elem first here 0 content)
              else
                andthen first
                  (if tag = ROOT_TAG then root_issues first here content else [])
                  (if tag = OBJ_TAG then walk_obj first here 0 [] content
                   else walk_rest first here tag 0 content))))"
| "walk_arr first here i [] = []"
| "walk_arr first here i (ItemPrim p # items) =
     andthen first [(ArrayChildNotNode, here @ [SegIndex i])] (walk_arr first here (Suc i) items)"
| "walk_arr first here i (ItemNode k # items) =
     andthen first
       (if \<not> is_Node (ItemNode k) then [(ArrayChildNotNode, here @ [SegIndex i])]
        else andthen first
          (issue_if (tag_of k \<noteq> II_TAG) (ArrayChildNotItem, here @ [SegIndex i]))
          (walk first (here @ [SegIndex i]) (Some ARR_TAG) k))
       (walk_arr first here (Suc i) items)"
| "walk_elem first here i [] = []"
| "walk_elem first here i (ItemPrim p # items) =
     andthen first [(ElementPrimitive, here @ [SegIndex i])] (walk_elem first here (Suc i) items)"
| "walk_elem first here i (ItemNode k # items) =
     andthen first
       (if \<not> is_Node (ItemNode k) then [(ElementPrimitive, here @ [SegIndex i])]
        else if tag_of k = VAL_TAG then [(ElementVal, here @ [SegIndex i])]
        else if tag_of k = OBJ_TAG \<or> tag_of k = ARR_TAG \<or> tag_of k = II_TAG
          then [(ElementStructural, here @ [SegIndex i])]
        else walk first (here @ [SegIndex i]) (Some ELEM_TAG) k)
       (walk_elem first here (Suc i) items)"
| "walk_obj first here i seen [] = []"
| "walk_obj first here i seen (ItemPrim p # items) =
     andthen first [(ObjPrimitive, here @ [SegIndex i])] (walk_obj first here (Suc i) seen items)"
| "walk_obj first here i seen (ItemNode k # items) =
     (if \<not> is_Node (ItemNode k) then
        andthen first [(ObjPrimitive, here @ [SegIndex i])] (walk_obj first here (Suc i) seen items)
      else
        andthen first
          (andthen first
            (issue_if (has_own_entries (attrs_of k)) (ObjChildAttrs, here @ [SegIndex i]))
            (andthen first
              (issue_if (tag_of k = ELEM_TAG) (ObjElement, here @ [SegIndex i]))
              (andthen first
                (issue_if (\<not> starts_with (tag_of k) HSON_SYS_PREFIX \<and> tag_of k \<in> set seen)
                  (ObjDuplicate (tag_of k), here @ [SegIndex i]))
                (walk first (here @ [SegIndex i]) (Some OBJ_TAG) k))))
          (walk_obj first here (Suc i)
            (if starts_with (tag_of k) HSON_SYS_PREFIX then seen else tag_of k # seen) items))"
| "walk_rest first here tag i [] = []"
| "walk_rest first here tag i (ItemPrim p # items) =
     andthen first [(StrayPrimitive, here @ [SegIndex i])] (walk_rest first here tag (Suc i) items)"
| "walk_rest first here tag i (ItemNode k # items) =
     andthen first
       (if is_Node (ItemNode k) then walk first here (Some tag) k
        else [(StrayPrimitive, here @ [SegIndex i])])
       (walk_rest first here tag (Suc i) items)"
  by pat_completeness auto

termination
  by (relation "measure (\<lambda>x. case x of
      Inl (Inl (_, _, _, n)) \<Rightarrow> size n
    | Inl (Inr (_, _, _, c)) \<Rightarrow> size_list size c
    | Inr (Inl (_, _, _, c)) \<Rightarrow> size_list size c
    | Inr (Inr (Inl (_, _, _, _, c))) \<Rightarrow> size_list size c
    | Inr (Inr (Inr (_, _, _, _, c))) \<Rightarrow> size_list size c)")
    (auto simp: structure_cluster_size)

text \<open>\<open>walk(root, "", root.$_tag, ...)\<close>: the issues \<open>assert_invariants\<close> reports.\<close>

definition invariant_issues :: "bool \<Rightarrow> hson_node \<Rightarrow> inv_issue list" where
  "invariant_issues first root = walk first [] (Some (tag_of root)) root"

section \<open>The branches of the walker\<close>

lemma andthen_Nil [simp]: "andthen first [] r = r"
  by (simp add: andthen_def)

lemma walk_branches:
  shows walk_ordinary: "\<not> isVSN tag \<Longrightarrow> walk first path parent (HsonNode tag attrs meta content) =
      andthen first (head_issues first (path @ [SegTag tag]) (HsonNode tag attrs meta content))
        (case ordinary_fault parent (classify_ordinary_hson_structure (HsonNode tag attrs meta content)) of
           Some k \<Rightarrow> [(k, path @ [SegTag tag])]
         | None \<Rightarrow>
            (case structure_cluster (classify_ordinary_hson_structure (HsonNode tag attrs meta content)) of
               None \<Rightarrow> []
             | Some c \<Rightarrow> walk first (path @ [SegTag tag]) (Some tag) c))"
    and walk_leaf: "tag = STR_TAG \<or> tag = VAL_TAG \<Longrightarrow> walk first path parent (HsonNode tag attrs meta content) =
      andthen first (head_issues first (path @ [SegTag tag]) (HsonNode tag attrs meta content))
        (leaf_issues first (path @ [SegTag tag]) tag content)"
    and walk_item: "walk first path parent (HsonNode II_TAG attrs meta content) =
      andthen first (head_issues first (path @ [SegTag II_TAG]) (HsonNode II_TAG attrs meta content))
        (andthen first (item_issues first (path @ [SegTag II_TAG]) parent attrs content)
          (walk_rest first (path @ [SegTag II_TAG]) II_TAG 0 content))"
    and walk_array: "walk first path parent (HsonNode ARR_TAG attrs meta content) =
      andthen first (head_issues first (path @ [SegTag ARR_TAG]) (HsonNode ARR_TAG attrs meta content))
        (andthen first
          (case analyze_hson_array_indexes content of
             IndexInvalid e \<Rightarrow> [(ArrayIndexes e, path @ [SegTag ARR_TAG])]
           | IndexValid canon reord \<Rightarrow> issue_if reord (ArrayOrder, path @ [SegTag ARR_TAG]))
          (walk_arr first (path @ [SegTag ARR_TAG]) 0 content))"
    and walk_element: "walk first path parent (HsonNode ELEM_TAG attrs meta content) =
      andthen first (head_issues first (path @ [SegTag ELEM_TAG]) (HsonNode ELEM_TAG attrs meta content))
        (if content = [] then [(ElementEmpty, path @ [SegTag ELEM_TAG])]
         else walk_elem first (path @ [SegTag ELEM_TAG]) 0 content)"
    and walk_root: "walk first path parent (HsonNode ROOT_TAG attrs meta content) =
      andthen first (head_issues first (path @ [SegTag ROOT_TAG]) (HsonNode ROOT_TAG attrs meta content))
        (andthen first (root_issues first (path @ [SegTag ROOT_TAG]) content)
          (walk_rest first (path @ [SegTag ROOT_TAG]) ROOT_TAG 0 content))"
    and walk_object: "walk first path parent (HsonNode OBJ_TAG attrs meta content) =
      andthen first (head_issues first (path @ [SegTag OBJ_TAG]) (HsonNode OBJ_TAG attrs meta content))
        (walk_obj first (path @ [SegTag OBJ_TAG]) 0 [] content)"
  by (auto simp: isVSN_def Let_def simp del: split_paired_All)

declare walk.simps [simp del]

lemma tag_cases:
  obtains (ordinary) "\<not> isVSN tag" | (leaf) "tag = STR_TAG \<or> tag = VAL_TAG" | (item) "tag = II_TAG"
    | (array) "tag = ARR_TAG" | (element) "tag = ELEM_TAG" | (root) "tag = ROOT_TAG"
    | (object) "tag = OBJ_TAG"
  by (auto simp: isVSN_def)

section \<open>The shape check and the assertion\<close>

text \<open>
  \<open>assertNewShapeQuick\<close> on a tree. What it checks of property descriptors and of cycles holds of
  every tree of this model; what remains is the old metadata shape, the metadata values the
  policy allows, the attribute value domain, and structural nodes without attributes. Leaves
  are not entered.
\<close>

definition attr_value_ok :: "js_string \<Rightarrow> attr_value \<Rightarrow> bool" where
  "attr_value_ok k v \<longleftrightarrow>
     (case v of APrim p \<Rightarrow> True | _ \<Rightarrow> k = js ''style'' \<and> is_valid_inline_style v)"

fun new_shape_ok :: "hson_node \<Rightarrow> bool"
  and new_shape_items :: "hson_item list \<Rightarrow> bool" where
  "new_shape_ok (HsonNode tag attrs meta content) =
     (\<not> old_shaped_meta meta \<and>
      (case meta of
         None \<Rightarrow> True
       | Some es \<Rightarrow>
           \<forall>e \<in> set es. (case hson_metadata_policy tag (fst e) of
             Inl err \<Rightarrow> True | Inr d \<Rightarrow> md_validate d (snd e))) \<and>
      (case attrs of
         None \<Rightarrow> True
       | Some es \<Rightarrow> (\<forall>e \<in> set es. attr_value_ok (fst e) (snd e)) \<and> \<not> (isVSN tag \<and> es \<noteq> [])) \<and>
      (tag = STR_TAG \<or> tag = VAL_TAG \<or> new_shape_items content))"
| "new_shape_items [] = True"
| "new_shape_items (ItemPrim p # items) = new_shape_items items"
| "new_shape_items (ItemNode n # items) = (new_shape_ok n \<and> new_shape_items items)"

datatype invariant_error = NewShape | InvariantViolations "inv_issue list"

definition assert_invariants :: "hson_node \<Rightarrow> invariant_error + unit" where
  "assert_invariants root =
     (if \<not> new_shape_ok root then Inl NewShape
      else if invariant_issues True root \<noteq> [] then
        Inl (InvariantViolations (take 12 (invariant_issues True root)))
      else Inr ())"

lemma assert_invariants_Inr [res_simps]:
  "assert_invariants n = Inr u \<longleftrightarrow> new_shape_ok n \<and> invariant_issues True n = []"
  by (simp add: assert_invariants_def)

end
