(* ===== verification/Invariant_Laws.thy ===== *)
theory Invariant_Laws
  imports Invariants
begin

text \<open>
  What the invariant walker decides: its two modes agree, it accepts exactly the trees whose
  every node obeys the rule of its position, and the roots that projection builds are accepted.
\<close>

section \<open>The two modes\<close>

definition first_of :: "'a list \<Rightarrow> 'a list" where
  "first_of xs = take 1 xs"

lemma first_of_simps [simp]:
  "first_of [] = []" "first_of (x # xs) = [x]"
  by (simp_all add: first_of_def)

lemma first_of_andthen: "first_of (andthen False a b) = andthen True (first_of a) (first_of b)"
  by (cases a) (simp_all add: andthen_def)

lemma first_of_issue_if [simp]: "first_of (issue_if b x) = issue_if b x"
  by (simp add: issue_if_def)

lemmas first_distribs = first_of_andthen if_distrib [of first_of] option.case_distrib [of first_of]
  sum.case_distrib [of first_of] index_analysis.case_distrib [of first_of]
  list.case_distrib [of first_of] hson_item.case_distrib [of first_of] prim.case_distrib [of first_of]

lemma meta_entry_first: "meta_entry_issues True here tag es = first_of (meta_entry_issues False here tag es)"
  by (induction "True" here tag es rule: meta_entry_issues.induct) (auto simp: first_distribs split: sum.splits)

lemma meta_first: "meta_issues True here n = first_of (meta_issues False here n)"
  by (simp add: meta_issues_def first_distribs meta_entry_first split: option.splits)

lemma attr_entry_first: "attr_entry_issues True here tag ks = first_of (attr_entry_issues False here tag ks)"
  by (induction "True" here tag ks rule: attr_entry_issues.induct) (auto simp: first_distribs split: option.splits sum.splits)

lemma attr_first: "attr_issues True here n = first_of (attr_issues False here n)"
  by (auto simp: attr_issues_def first_distribs attr_entry_first split: option.splits)

lemma head_first: "head_issues True here n = first_of (head_issues False here n)"
  by (simp add: head_issues_def first_distribs meta_first attr_first)

lemma leaf_first: "leaf_issues True here tag c = first_of (leaf_issues False here tag c)"
  by (simp add: leaf_issues_def first_distribs split: list.splits hson_item.splits prim.splits)

lemma item_first: "item_issues True here p a c = first_of (item_issues False here p a c)"
  by (simp add: item_issues_def first_distribs Let_def)

lemma root_first: "root_issues True here c = first_of (root_issues False here c)"
  by (simp add: root_issues_def first_distribs split: list.splits option.splits)

lemmas part_first = head_first leaf_first item_first root_first

lemma walk_first:
  "walk True path parent n = first_of (walk False path parent n)"
  "walk_arr True here i items = first_of (walk_arr False here i items)"
  "walk_elem True here i items = first_of (walk_elem False here i items)"
  "walk_obj True here i seen items = first_of (walk_obj False here i seen items)"
  "walk_rest True here tag i items = first_of (walk_rest False here tag i items)"
proof (induction "True" path parent n and "True" here i items and "True" here i items
    and "True" here i seen items and "True" here tag i items
    rule: walk_walk_arr_walk_elem_walk_obj_walk_rest.induct)
  case (1 path parent tag attrs meta content)
  show ?case
  proof (cases tag rule: tag_cases)
    case ordinary
    then show ?thesis using 1
      by (auto simp: walk_ordinary first_distribs part_first split: option.splits)
  next
    case leaf
    then show ?thesis by (simp add: walk_leaf first_distribs part_first)
  next
    case item
    then show ?thesis using 1
      by (simp add: walk_item first_distribs part_first isVSN_def)
  next
    case array
    then show ?thesis using 1
      by (simp add: walk_array first_distribs part_first isVSN_def split: index_analysis.splits)
  next
    case element
    then show ?thesis using 1
      by (simp add: walk_element first_distribs part_first isVSN_def)
  next
    case root
    then show ?thesis using 1
      by (simp add: walk_root first_distribs part_first isVSN_def)
  next
    case object
    then show ?thesis using 1
      by (simp add: walk_object first_distribs part_first isVSN_def)
  qed
qed (simp_all add: first_distribs)

section \<open>The rules\<close>

definition canonical_name :: "js_string \<Rightarrow> bool" where
  "canonical_name k \<longleftrightarrow>
     is_valid_hson_attribute_name k \<and> \<not> starts_with k HSON_META_MARKUP_PREFIX \<and>
     \<not> starts_with (to_lower k) HSON_META_TRANSIT_PREFIX \<and> \<not> starts_with (to_lower k) TRANSIT_PREFIX"

definition meta_rule :: "hson_node \<Rightarrow> bool" where
  "meta_rule n \<longleftrightarrow>
     (\<forall>es. meta_of n = Some es \<longrightarrow>
        (\<forall>(k, v) \<in> set es. hson_metadata_value_is_valid k v \<and> (\<exists>d. hson_metadata_policy (tag_of n) k = Inr d)) \<and>
        (HSON_META_QUID \<in> fst ` set es \<longrightarrow> validate_hson_node_quid n = Inr ()))"

definition attrs_rule :: "hson_node \<Rightarrow> bool" where
  "attrs_rule n \<longleftrightarrow>
     (\<forall>es. attrs_of n = Some es \<longrightarrow>
        es \<noteq> [] \<and> \<not> isVSN (tag_of n) \<and> (\<forall>k \<in> fst ` set es. canonical_name k))"

definition child_nodes :: "(hson_node \<Rightarrow> bool) \<Rightarrow> hson_item list \<Rightarrow> bool" where
  "child_nodes P content \<longleftrightarrow> (\<forall>it \<in> set content. \<exists>k. it = ItemNode k \<and> is_Node it \<and> P k)"

text \<open>The property names of an object node, reserved tags left out.\<close>

fun user_tags :: "hson_item list \<Rightarrow> js_string list" where
  "user_tags [] = []"
| "user_tags (ItemPrim p # items) = user_tags items"
| "user_tags (ItemNode k # items) =
     (if starts_with (tag_of k) HSON_SYS_PREFIX then user_tags items else tag_of k # user_tags items)"

definition shape_rule :: "js_string option \<Rightarrow> hson_node \<Rightarrow> bool" where
  "shape_rule parent n \<longleftrightarrow>
     (let t = tag_of n; content = content_of n in
      if t = STR_TAG then \<exists>s. content = [ItemPrim (PStr s)]
      else if t = VAL_TAG then \<exists>p. content = [ItemPrim p] \<and> \<not> prim_is_string p \<and> prim_finite p
      else if t = II_TAG then
        parent = Some ARR_TAG \<and> length content = 1 \<and>
        child_nodes (\<lambda>k. isVSN (tag_of k) \<and> tag_of k \<noteq> ELEM_TAG) content
      else if t = ARR_TAG then \<forall>i < length content. indexed_as (content ! i) i
      else if t = ELEM_TAG then
        content \<noteq> [] \<and> child_nodes (\<lambda>k. tag_of k \<notin> {VAL_TAG, OBJ_TAG, ARR_TAG, II_TAG}) content
      else if t = ROOT_TAG then
        length content \<le> 1 \<and>
        child_nodes (\<lambda>k. tag_of k \<in> {OBJ_TAG, ELEM_TAG, ARR_TAG, STR_TAG, VAL_TAG}) content
      else if t = OBJ_TAG then
        child_nodes (\<lambda>k. \<not> has_own_entries (attrs_of k) \<and> tag_of k \<noteq> ELEM_TAG) content \<and>
        distinct (user_tags content)
      else
        parent \<noteq> Some II_TAG \<and>
        (content = [] \<and> parent \<noteq> Some OBJ_TAG \<or>
         (\<exists>c. content = [ItemNode c] \<and> is_Node (ItemNode c) \<and>
            (tag_of c = ELEM_TAG \<and> content_of c \<noteq> [] \<and> parent \<noteq> Some OBJ_TAG \<or>
             tag_of c \<in> {STR_TAG, VAL_TAG, OBJ_TAG, ARR_TAG} \<and> parent \<noteq> Some ELEM_TAG))))"

definition node_rule :: "js_string option \<Rightarrow> hson_node \<Rightarrow> bool" where
  "node_rule parent n \<longleftrightarrow>
     attrs_rule n \<and> meta_rule n \<and>
     (starts_with (tag_of n) HSON_SYS_PREFIX \<longrightarrow> tag_of n \<in> set EVERY_VSN) \<and> shape_rule parent n"

text \<open>Every node of a tree, with the tag of its parent.\<close>

fun occurrences :: "js_string option \<Rightarrow> hson_node \<Rightarrow> (js_string option \<times> hson_node) list"
  and item_occurrences :: "js_string option \<Rightarrow> hson_item list \<Rightarrow> (js_string option \<times> hson_node) list" where
  "occurrences parent (HsonNode tag attrs meta content) =
     (parent, HsonNode tag attrs meta content) # item_occurrences (Some tag) content"
| "item_occurrences parent [] = []"
| "item_occurrences parent (ItemPrim p # items) = item_occurrences parent items"
| "item_occurrences parent (ItemNode n # items) = occurrences parent n @ item_occurrences parent items"

abbreviation rules_hold :: "(js_string option \<times> hson_node) list \<Rightarrow> bool" where
  "rules_hold occs \<equiv> \<forall>(p, m) \<in> set occs. node_rule p m"

section \<open>No issue means the rule of the node\<close>

lemma andthen_False_Nil [simp]: "andthen False a b = [] \<longleftrightarrow> a = [] \<and> b = []"
  by (simp add: andthen_def)

lemma issue_if_Nil [simp]: "issue_if b x = [] \<longleftrightarrow> \<not> b"
  by (simp add: issue_if_def)

lemma meta_entry_Nil:
  "meta_entry_issues False here tag es = [] \<longleftrightarrow>
     (\<forall>(k, v) \<in> set es. hson_metadata_value_is_valid k v \<and> (\<exists>d. hson_metadata_policy tag k = Inr d))"
  by (induction "False" here tag es rule: meta_entry_issues.induct) (auto split: sum.splits)

lemma meta_Nil: "meta_issues False here n = [] \<longleftrightarrow> meta_rule n"
  by (cases "meta_of n") (auto simp: meta_issues_def meta_rule_def meta_entry_Nil)

lemma attr_entry_Nil:
  "attr_entry_issues False here tag ks = [] \<longleftrightarrow> (\<forall>k \<in> set ks. canonical_name k)"
  by (induction "False" here tag ks rule: attr_entry_issues.induct)
    (auto simp: canonical_name_def hson_metadata_candidate_key_def split: sum.splits)

lemma head_Nil:
  "head_issues False here n = [] \<longleftrightarrow>
     attrs_rule n \<and> meta_rule n \<and>
     (starts_with (tag_of n) HSON_SYS_PREFIX \<longrightarrow> tag_of n \<in> set EVERY_VSN)"
  by (cases "attrs_of n")
    (auto simp: head_issues_def attr_issues_def meta_Nil attr_entry_Nil attrs_rule_def has_own_entries_def)

lemma array_check_Nil:
  "(case analyze_hson_array_indexes c of IndexInvalid e \<Rightarrow> [f e] | IndexValid canon reord \<Rightarrow> issue_if reord y) = []
   \<longleftrightarrow> (\<forall>i < length c. indexed_as (c ! i) i)"
proof -
  have "analyze_hson_array_indexes c = IndexValid c False \<longleftrightarrow> (\<forall>i < length c. indexed_as (c ! i) i)"
    by (simp add: analyze_valid arrangement_self)
  moreover have "canon = c" if "analyze_hson_array_indexes c = IndexValid canon False" for canon
    using that by (simp add: analyze_valid)
  ultimately show ?thesis by (auto split: index_analysis.splits)
qed

lemma leaf_Nil_str: "leaf_issues False here STR_TAG c = [] \<longleftrightarrow> (\<exists>s. c = [ItemPrim (PStr s)])"
  by (auto simp: leaf_issues_def split: list.splits hson_item.splits prim.splits)

lemma leaf_Nil_val:
  "leaf_issues False here VAL_TAG c = [] \<longleftrightarrow> (\<exists>p. c = [ItemPrim p] \<and> \<not> prim_is_string p \<and> prim_finite p)"
  by (auto simp: leaf_issues_def split: list.splits hson_item.splits prim.splits)

lemma kid_tag_Some: "kid_tag it = Some t \<longleftrightarrow> (\<exists>k. it = ItemNode k \<and> is_Node it \<and> tag_of k = t)"
  by (cases it) auto

lemma item_Nil:
  "item_issues False here parent attrs c = [] \<longleftrightarrow>
     parent = Some ARR_TAG \<and> \<not> has_own_entries attrs \<and> length c = 1 \<and>
     child_nodes (\<lambda>k. isVSN (tag_of k) \<and> tag_of k \<noteq> ELEM_TAG) c"
proof (cases c)
  case (Cons it its)
  then show ?thesis
    by (cases "kid_tag it") (auto simp: item_issues_def child_nodes_def kid_tag_Some Let_def)
qed (simp add: item_issues_def)

lemma root_Nil:
  "root_issues False here c = [] \<longleftrightarrow> length c \<le> 1 \<and>
     child_nodes (\<lambda>k. tag_of k \<in> {OBJ_TAG, ELEM_TAG, ARR_TAG, STR_TAG, VAL_TAG}) c"
proof (cases c)
  case (Cons it its)
  then show ?thesis
    by (cases "kid_tag it") (auto simp: root_issues_def child_nodes_def kid_tag_Some split: list.splits)
qed (simp add: root_issues_def child_nodes_def)

lemma child_nodes_simps [simp]:
  "child_nodes P []"
  "child_nodes P (ItemPrim p # items) \<longleftrightarrow> False"
  "child_nodes P (ItemNode k # items) \<longleftrightarrow> is_Node (ItemNode k) \<and> P k \<and> child_nodes P items"
  by (auto simp: child_nodes_def)

lemma indexed_child_nodes:
  "\<forall>i < length c. indexed_as (c ! i) i \<Longrightarrow> child_nodes (\<lambda>k. tag_of k = II_TAG) c"
  unfolding child_nodes_def
proof (intro ballI)
  fix it assume h: "\<forall>i < length c. indexed_as (c ! i) i" and "it \<in> set c"
  then obtain i where "i < length c" "c ! i = it" by (auto simp: in_set_conv_nth)
  then show "\<exists>k. it = ItemNode k \<and> is_Node it \<and> tag_of k = II_TAG"
    using h by (auto simp: indexed_as_def)
qed

lemma isVSN_tags [simp]:
  "isVSN STR_TAG" "isVSN VAL_TAG" "isVSN ARR_TAG" "isVSN OBJ_TAG" "isVSN ELEM_TAG" "isVSN ROOT_TAG" "isVSN II_TAG"
  by (simp_all add: isVSN_def)

lemma isVSN_iff: "isVSN t \<longleftrightarrow> t \<in> set EVERY_VSN"
  by (auto simp: isVSN_def EVERY_VSN_def)

lemma ordinary_Nil:
  assumes "\<not> isVSN tag"
  shows "ordinary_fault parent (classify_ordinary_hson_structure (HsonNode tag attrs meta content)) = None \<longleftrightarrow>
     shape_rule parent (HsonNode tag attrs meta content)"
    and "ordinary_fault parent (classify_ordinary_hson_structure (HsonNode tag attrs meta content)) = None \<Longrightarrow>
      structure_cluster (classify_ordinary_hson_structure (HsonNode tag attrs meta content)) =
        (case content of [ItemNode c] \<Rightarrow> Some c | _ \<Rightarrow> None)"
  using assms
  by (auto simp: isVSN_def shape_rule_def ordinary_fault_def classify_ordinary_hson_structure_def EVERY_VSN_def
      split: list.splits hson_item.splits if_splits)


lemma attrs_rule_VSN: "isVSN (tag_of n) \<Longrightarrow> attrs_rule n \<longleftrightarrow> attrs_of n = None"
  by (cases "attrs_of n") (auto simp: attrs_rule_def)

lemma walk_Nil:
  "walk False path parent n = [] \<longleftrightarrow> rules_hold (occurrences parent n)"
  "walk_arr False here i items = [] \<longleftrightarrow>
     child_nodes (\<lambda>k. tag_of k = II_TAG) items \<and> rules_hold (item_occurrences (Some ARR_TAG) items)"
  "walk_elem False here i items = [] \<longleftrightarrow>
     child_nodes (\<lambda>k. tag_of k \<notin> {VAL_TAG, OBJ_TAG, ARR_TAG, II_TAG}) items \<and>
     rules_hold (item_occurrences (Some ELEM_TAG) items)"
  "walk_obj False here i seen items = [] \<longleftrightarrow>
     child_nodes (\<lambda>k. \<not> has_own_entries (attrs_of k) \<and> tag_of k \<noteq> ELEM_TAG) items \<and>
     distinct (user_tags items) \<and> set (user_tags items) \<inter> set seen = {} \<and>
     rules_hold (item_occurrences (Some OBJ_TAG) items)"
  "walk_rest False here tag i items = [] \<longleftrightarrow>
     child_nodes (\<lambda>k. True) items \<and> rules_hold (item_occurrences (Some tag) items)"
proof (induction "False" path parent n and "False" here i items and "False" here i items
    and "False" here i seen items and "False" here tag i items
    rule: walk_walk_arr_walk_elem_walk_obj_walk_rest.induct)
  case (1 path parent tag attrs meta content)
  let ?n = "HsonNode tag attrs meta content"
  have rules: "rules_hold (occurrences parent ?n) \<longleftrightarrow>
      head_issues False (path @ [SegTag tag]) ?n = [] \<and> shape_rule parent ?n \<and>
      rules_hold (item_occurrences (Some tag) content)"
    by (auto simp: head_Nil node_rule_def)
  show ?case
  proof (cases tag rule: tag_cases)
    case ordinary
    show ?thesis
    proof (cases "shape_rule parent ?n")
      case True
      note fault = ordinary_Nil [OF ordinary, of parent attrs meta content]
      then have none: "ordinary_fault parent (classify_ordinary_hson_structure ?n) = None" using True by simp
      have "content = [] \<or> (\<exists>c. content = [ItemNode c])"
        using True ordinary by (auto simp: shape_rule_def isVSN_def)
      then show ?thesis
        using 1 ordinary True fault(2) [OF none] none unfolding rules by (auto simp: walk_ordinary)
    next
      case False
      then show ?thesis
        using ordinary_Nil(1) [OF ordinary, of parent attrs meta content] ordinary
        unfolding rules by (auto simp: walk_ordinary)
    qed
  next
    case leaf
    then show ?thesis
      unfolding rules
      by (auto simp: walk_leaf leaf_Nil_str leaf_Nil_val shape_rule_def)
  next
    case item
    then show ?thesis
      using 1 unfolding rules
      by (auto simp: walk_item item_Nil shape_rule_def head_Nil attrs_rule_VSN has_own_entries_def child_nodes_def)
  next
    case array
    then show ?thesis
      using 1 indexed_child_nodes [of content] unfolding rules
      by (simp add: walk_array array_check_Nil shape_rule_def) blast
  next
    case element
    then show ?thesis
      using 1 unfolding rules by (auto simp: walk_element shape_rule_def)
  next
    case root
    then show ?thesis
      using 1 unfolding rules by (auto simp: walk_root root_Nil shape_rule_def child_nodes_def)
  next
    case object
    then show ?thesis
      using 1 unfolding rules by (auto simp: walk_object shape_rule_def)
  qed
next
  case (10 here i seen k items)
  then show ?case
    by (cases "starts_with (tag_of k) HSON_SYS_PREFIX"; cases "is_Node (ItemNode k)") (auto simp: ball_Un)
qed auto

section \<open>Properties\<close>

text \<open>
  Stopping at the first issue reports exactly the first issue the collecting mode reports.
\<close>

theorem walker_modes_agree:
  "invariant_issues True n = take 1 (invariant_issues False n)"
  using walk_first(1) [of "[]" "Some (tag_of n)" n] by (simp add: invariant_issues_def first_of_def)

lemma invariant_issues_Nil:
  "invariant_issues first n = [] \<longleftrightarrow> rules_hold (occurrences (Some (tag_of n)) n)"
proof -
  have "invariant_issues True n = [] \<longleftrightarrow> invariant_issues False n = []"
    using walk_first(1) [of "[]" "Some (tag_of n)" n]
    by (cases "walk False [] (Some (tag_of n)) n") (simp_all add: invariant_issues_def)
  then show ?thesis
    using walk_Nil(1) [of "[]" "Some (tag_of n)" n] by (cases first) (simp_all add: invariant_issues_def)
qed

text \<open>
  C20: in either mode the walker reports nothing exactly when every node of the tree, at any
  depth, obeys the rule of its tag and of its parent's tag: no early return of the walker
  leaves a node unchecked, and none reports an issue that is not one.
\<close>

theorem walker_checks_every_node:
  "invariant_issues first n = [] \<longleftrightarrow>
     (\<forall>occ \<in> set (occurrences (Some (tag_of n)) n). node_rule (fst occ) (snd occ))"
  by (auto simp: invariant_issues_Nil)

lemma plain_node_rule:
  "attrs_of n = None \<Longrightarrow> meta_of n = None \<Longrightarrow> isVSN (tag_of n) \<or> \<not> starts_with (tag_of n) HSON_SYS_PREFIX \<Longrightarrow>
   node_rule p n \<longleftrightarrow> shape_rule p n"
  by (auto simp: node_rule_def attrs_rule_def meta_rule_def isVSN_iff)

lemma item_wrapper_rule:
  assumes "isVSN (tag_of n)" and "tag_of n \<noteq> ELEM_TAG" and "meta_of n = None"
  shows "node_rule (Some ARR_TAG) (item_wrapper i n)"
  using assms policy_Inr [of II_TAG HSON_META_INDEX index_definition]
  by (auto simp: node_rule_def attrs_rule_def meta_rule_def item_wrapper_def shape_rule_def
      hson_metadata_value_is_valid_def registry_lookup index_definition_def EVERY_VSN_def)

lemma item_wrapper_indexed: "indexed_as (ItemNode (item_wrapper i n)) i"
  by (simp add: indexed_as_def item_wrapper_def node_meta_def old_shaped_meta_def HSON_META_INDEX_def)

lemma property_rules:
  assumes "reads_as n v" and "rules_hold (occurrences (Some OBJ_TAG) n)" and "rules_hold (occurrences (Some k) n)"
    and "\<not> starts_with k HSON_SYS_PREFIX"
  shows "rules_hold (occurrences (Some OBJ_TAG) (property_node k n))"
proof -
  have n: "attrs_of n = None" "meta_of n = None" "is_value_tag (tag_of n)" "is_Node (ItemNode n)"
    using assms(1) reads_as_is_Node by (auto simp: reads_as_def)
  note k = user_tag_neq [OF assms(4)]
  have user: "user_tags [ItemNode n] = []"
    using n(3) by (auto simp: is_value_tag_def)
  have wrap: "rules_hold (occurrences (Some k) (value_node OBJ_TAG [ItemNode n]))"
    using assms(2) n user by (auto simp: value_node_def plain_node_rule shape_rule_def is_value_tag_def has_own_entries_def)
  show ?thesis
    using assms(3,4) wrap n k
    by (auto simp: property_node_def plain_node_rule shape_rule_def is_value_tag_def value_node_def)
qed

lemma value_tag_not_element: "is_value_tag t \<Longrightarrow> isVSN t \<and> t \<noteq> ELEM_TAG"
  by (auto simp: is_value_tag_def)

lemma prim_node_rules: "prim_node q = Inr n \<Longrightarrow> rules_hold (occurrences p n)"
  by (cases q) (auto simp: value_node_def plain_node_rule shape_rule_def hsonNumber_def split: if_splits)

lemma to_hson_rules:
  "projected_value_to_hson_node v = Inr n \<Longrightarrow> (\<forall>p. rules_hold (occurrences p n))"
  "to_members es = Inr c \<Longrightarrow> distinct (map fst es) \<Longrightarrow>
     rules_hold (item_occurrences (Some OBJ_TAG) c) \<and> user_tags c = map fst es \<and>
     child_nodes (\<lambda>k. \<not> has_own_entries (attrs_of k) \<and> tag_of k \<noteq> ELEM_TAG) c"
  "to_items i vs = Inr c \<Longrightarrow>
     rules_hold (item_occurrences (Some ARR_TAG) c) \<and> (\<forall>j < length c. indexed_as (c ! j) (i + j))"
proof (induction v and es and i vs arbitrary: n and c and c
    rule: projected_value_to_hson_node_to_members_to_items.induct)
  case (1 p)
  then show ?case by (auto simp: res_simps dest: prim_node_rules)
next
  case (2 vs)
  then obtain c where c: "to_items 0 vs = Inr c" "n = value_node ARR_TAG c"
    by (auto simp: res_simps)
  then have "rules_hold (item_occurrences (Some ARR_TAG) c)" "\<forall>j < length c. indexed_as (c ! j) j"
    using 2 by (auto simp: res_simps)
  then show ?case by (simp add: c(2) value_node_def plain_node_rule shape_rule_def)
next
  case (3 es)
  then obtain c where c: "to_members es = Inr c" "n = value_node OBJ_TAG c" "distinct (map fst es)"
    by (auto simp: res_simps assert_sound)
  then have "rules_hold (item_occurrences (Some OBJ_TAG) c)" "user_tags c = map fst es"
    "child_nodes (\<lambda>k. \<not> has_own_entries (attrs_of k) \<and> tag_of k \<noteq> ELEM_TAG) c"
    using 3 by (auto simp: res_simps)
  then show ?case using c(3) by (simp add: c(2) value_node_def plain_node_rule shape_rule_def)
next
  case (5 k v es)
  then obtain m cs where m: "projected_value_to_hson_node v = Inr m" "to_members es = Inr cs"
    "c = ItemNode (property_node k m) # cs" "\<not> starts_with k HSON_SYS_PREFIX"
    by (auto simp: res_simps)
  have "reads_as m v" using m(1) by (rule to_hson_reads)
  moreover have "\<forall>p. rules_hold (occurrences p m)" using 5 m by (auto simp: res_simps)
  ultimately have "rules_hold (occurrences (Some OBJ_TAG) (property_node k m))"
    using m(4) by (intro property_rules) auto
  moreover have "rules_hold (item_occurrences (Some OBJ_TAG) cs) \<and> user_tags cs = map fst es \<and>
      child_nodes (\<lambda>k. \<not> has_own_entries (attrs_of k) \<and> tag_of k \<noteq> ELEM_TAG) cs"
    using 5 m by (auto simp: res_simps)
  moreover have "k \<noteq> ELEM_TAG" using user_tag_neq [OF m(4)] by simp
  ultimately show ?case
    unfolding m(3) using m(4)
    by (auto simp: ball_Un property_node_def has_own_entries_def old_shaped_meta_def)
next
  case (7 i v vs)
  then obtain m cs where m: "projected_value_to_hson_node v = Inr m" "to_items (Suc i) vs = Inr cs"
    "c = ItemNode (item_wrapper i m) # cs"
    by (auto simp: res_simps)
  have r: "reads_as m v" using m(1) by (rule to_hson_reads)
  have "\<forall>p. rules_hold (occurrences p m)" using 7 m by (auto simp: res_simps)
  then have "rules_hold (occurrences (Some ARR_TAG) (item_wrapper i m))"
    using item_wrapper_rule [of m i] r value_tag_not_element [of "tag_of m"]
    by (auto simp: item_wrapper_def reads_as_def)
  moreover have "rules_hold (item_occurrences (Some ARR_TAG) cs) \<and> (\<forall>j < length cs. indexed_as (cs ! j) (Suc i + j))"
    using 7 m by (auto simp: res_simps)
  ultimately show ?case
    using item_wrapper_indexed [of i m] unfolding m(3) by (auto simp: ball_Un less_Suc_eq_0_disj)
qed simp_all

text \<open>The shape check on projected graphs.\<close>

lemma prim_node_shape: "prim_node q = Inr n \<Longrightarrow> new_shape_ok n"
  by (cases q) (auto simp: value_node_def old_shaped_meta_def split: sum.splits)

lemma item_wrapper_shape: "new_shape_ok m \<Longrightarrow> is_Node (ItemNode m) \<Longrightarrow> new_shape_ok (item_wrapper i m)"
  using policy_Inr [of II_TAG HSON_META_INDEX index_definition]
  by (auto simp: item_wrapper_def old_shaped_meta_def HSON_META_INDEX_def hson_metadata_value_is_valid_def registry_lookup
      index_definition_def EVERY_VSN_def)

lemma to_hson_shape:
  "projected_value_to_hson_node v = Inr n \<Longrightarrow> new_shape_ok n"
  "to_members es = Inr c \<Longrightarrow> new_shape_items c"
  "to_items i vs = Inr c \<Longrightarrow> new_shape_items c"
proof (induction v and es and i vs arbitrary: n and c and c
    rule: projected_value_to_hson_node_to_members_to_items.induct)
  case (1 p)
  then show ?case by (auto simp: res_simps dest: prim_node_shape)
next
  case (5 k v es)
  then show ?case by (auto simp: res_simps property_node_def value_node_def old_shaped_meta_def)
next
  case (7 i v vs)
  then obtain m cs where m: "projected_value_to_hson_node v = Inr m" "to_items (Suc i) vs = Inr cs"
    "c = ItemNode (item_wrapper i m) # cs" by (auto simp: res_simps)
  have "reads_as m v" using m(1) by (rule to_hson_reads)
  moreover have "new_shape_ok m" "new_shape_items cs" using 7 m by (auto simp: res_simps)
  ultimately show ?case using item_wrapper_shape [of m i] reads_as_is_Node by (simp add: m(3))
qed (auto simp: res_simps value_node_def old_shaped_meta_def)

text \<open>
  C35: every root that projection builds is canonical: it passes the invariant check, shape and
  rules, and the walker reports no issue on it in either mode.
\<close>

theorem projected_root_is_canonical:
  assumes "projected_value_to_hson_root v = Inr r"
  shows "assert_invariants r = Inr () \<and> invariant_issues first r = []"
proof -
  obtain n where n: "projected_value_to_hson_node v = Inr n" "r = bare_node ROOT_TAG [ItemNode n]"
    using assms by (auto simp: projected_value_to_hson_root_def res_simps)
  have shape: "new_shape_ok r" using to_hson_shape(1) [OF n(1)] by (simp add: n(2) old_shaped_meta_def)
  have r: "reads_as n v" using n(1) by (rule to_hson_reads)
  then have "shape_rule (Some ROOT_TAG) r"
    using reads_as_is_Node [OF r] by (auto simp: n(2) shape_rule_def reads_as_def is_value_tag_def)
  then have "invariant_issues b r = []" for b
    using to_hson_rules(1) [OF n(1)] by (simp add: invariant_issues_Nil n(2) plain_node_rule)
  with shape show ?thesis by (simp add: assert_invariants_def)
qed

lemma projected_root_is_canonical_witness:
  "assert_invariants sample_graph_root = Inr () \<and> invariant_issues False sample_graph_root = []"
  by (rule projected_root_is_canonical [OF sample_graph_eval])

lemma walker_checks_every_node_witness:
  "invariant_issues True (bare_node ELEM_TAG []) = [] \<longleftrightarrow>
     (\<forall>occ \<in> set (occurrences (Some (tag_of (bare_node ELEM_TAG []))) (bare_node ELEM_TAG [])).
        node_rule (fst occ) (snd occ))"
  by (rule walker_checks_every_node)

end
