(* ===== verification/Binary_Codec.thy ===== *)
theory Binary_Codec
  imports Invariant_Laws Value_Materialization
begin

text \<open>
  Binary HSON (\<open>api/transform/binary/binary-codec.ts\<close>): the writer, the bounded reader and the
  two entry points. A reader of the model takes the bytes that remain and returns a value and
  the bytes after it.
\<close>

section \<open>Constants and errors\<close>

type_synonym byte = "8 word"
type_synonym bytes = "byte list"

definition MARKER :: bytes where "MARKER = [0x48, 0x53, 0x4f, 0x4e]"

abbreviation "ABSENT \<equiv> 0x00 :: byte"
abbreviation "PRESENT \<equiv> 0x01 :: byte"
abbreviation "UNIT_STRING \<equiv> 0x02 :: byte"
abbreviation "ORDINARY_NODE \<equiv> 0x10 :: byte"
abbreviation "STR_NODE \<equiv> 0x11 :: byte"
abbreviation "VAL_NODE \<equiv> 0x12 :: byte"
abbreviation "OBJ_NODE \<equiv> 0x13 :: byte"
abbreviation "ARR_NODE \<equiv> 0x14 :: byte"
abbreviation "ELEM_NODE \<equiv> 0x15 :: byte"
abbreviation "ITEM_NODE \<equiv> 0x16 :: byte"
abbreviation "NULL_VALUE \<equiv> 0x20 :: byte"
abbreviation "FALSE_VALUE \<equiv> 0x21 :: byte"
abbreviation "TRUE_VALUE \<equiv> 0x22 :: byte"
abbreviation "NUMBER_VALUE \<equiv> 0x23 :: byte"
abbreviation "STRING_VALUE \<equiv> 0x24 :: byte"
abbreviation "TYPED_STYLE \<equiv> 0x25 :: byte"
abbreviation "STYLE_RECORD \<equiv> 0x26 :: byte"

datatype binary_error =
    CountRange
  | NumberNotFinite
  | PrimitiveDomain
  | MetadataNotString
  | PrimitiveOutsideLeaf
  | RootNotDetached
  | StrPayloadInvalid
  | ValPayloadInvalid
  | InvariantFailed invariant_error
  | LimitNotPositive
  | Truncated
  | StringLengthExceeds
  | CountExceeds
  | PresenceByte byte
  | DepthExceeded
  | NodesExceeded
  | NodeDiscriminator byte
  | ScalarDiscriminator byte
  | AttrDiscriminator byte
  | StyleDiscriminator byte
  | TypedStyleScalar
  | UnitState byte
  | KeysNotIncreasing
  | ContentBudget
  | MaxBytesExceeded
  | MarkerMismatch
  | TrailingBytes
  | NotCanonicalBytes

fun compare_code_units :: "js_string \<Rightarrow> js_string \<Rightarrow> int" where
  "compare_code_units (u # us) (v # vs) =
     (if int (unat u) - int (unat v) \<noteq> 0 then int (unat u) - int (unat v)
      else compare_code_units us vs)"
| "compare_code_units us vs = int (length us) - int (length vs)"

section \<open>Writer\<close>

definition w_u32 :: "nat \<Rightarrow> binary_error + bytes" where
  "w_u32 n =
     (if 0xffffffff < n then Inl CountRange
      else Inr [of_nat (n div 0x1000000), of_nat (n div 0x10000), of_nat (n div 0x100), of_nat n])"

definition w_f64 :: "js_number \<Rightarrow> binary_error + bytes" where
  "w_f64 x =
     (if \<not> num_finite x then Inl NumberNotFinite
      else Inr (map (\<lambda>i. ucast (drop_bit (8 * i) x)) [7, 6, 5, 4, 3, 2, 1, 0]))"

definition w_string :: "js_string \<Rightarrow> binary_error + bytes" where
  "w_string s =
     rbind (w_u32 (length s))
       (\<lambda>n. Inr (n @ concat (map (\<lambda>u. [ucast (drop_bit 8 u), ucast u]) s)))"

text \<open>\<open>write_then w r\<close>: the bytes of \<open>w\<close> followed by those of \<open>r\<close>, which runs only if \<open>w\<close> succeeds.\<close>

definition write_then :: "binary_error + bytes \<Rightarrow> binary_error + bytes \<Rightarrow> binary_error + bytes" where
  "write_then w r = rbind w (\<lambda>a. rbind r (\<lambda>b. Inr (a @ b)))"

fun write_primitive :: "attr_value \<Rightarrow> bool \<Rightarrow> binary_error + bytes" where
  "write_primitive (APrim PNull) allow = Inr [NULL_VALUE]"
| "write_primitive (APrim (PBool b)) allow = Inr [if b then TRUE_VALUE else FALSE_VALUE]"
| "write_primitive (APrim (PNum x)) allow = write_then (Inr [NUMBER_VALUE]) (w_f64 x)"
| "write_primitive (APrim (PStr s)) allow =
     (if allow then write_then (Inr [STRING_VALUE]) (w_string s) else Inl PrimitiveDomain)"
| "write_primitive _ allow = Inl PrimitiveDomain"

primrec write_pairs ::
    "(js_string \<Rightarrow> 'v \<Rightarrow> binary_error + bytes) \<Rightarrow> (js_string \<times> 'v) list \<Rightarrow> binary_error + bytes" where
  "write_pairs wv [] = Inr []"
| "write_pairs wv (e # es) =
     write_then (w_string (fst e)) (write_then (wv (fst e) (snd e)) (write_pairs wv es))"

definition write_sorted_record ::
    "(js_string \<Rightarrow> 'v \<Rightarrow> binary_error + bytes) \<Rightarrow> (js_string \<times> 'v) list \<Rightarrow> binary_error + bytes" where
  "write_sorted_record wv record =
     (let sorted = sort_key fst record
      in write_then (w_u32 (length sorted)) (write_pairs wv sorted))"

text \<open>An own \<open>unit\<close>, absent, undefined or a string, of a typed value.\<close>

definition write_unit :: "attr_value option \<Rightarrow> binary_error + bytes" where
  "write_unit u =
     (case u of
        None \<Rightarrow> Inr [ABSENT]
      | Some AUndef \<Rightarrow> Inr [PRESENT]
      | Some (APrim (PStr s)) \<Rightarrow> write_then (Inr [UNIT_STRING]) (w_string s)
      | _ \<Rightarrow> Inl PrimitiveDomain)"

definition write_style_value :: "js_string \<Rightarrow> attr_value \<Rightarrow> binary_error + bytes" where
  "write_style_value k item =
     (case item of
        ARec es \<Rightarrow>
          if is_typed_css_value item then
            write_then (Inr [TYPED_STYLE])
              (write_then (write_primitive (the (map_of es (js ''value''))) True)
                (write_unit (map_of es (js ''unit''))))
          else write_primitive item True
      | _ \<Rightarrow> write_primitive item True)"

definition write_style_record :: "(js_string \<times> attr_value) list \<Rightarrow> binary_error + bytes" where
  "write_style_record es = write_then (Inr [STYLE_RECORD]) (write_sorted_record write_style_value es)"

definition write_attr :: "js_string \<Rightarrow> attr_value \<Rightarrow> binary_error + bytes" where
  "write_attr k v =
     (case v of
        ARec es \<Rightarrow> if k = js ''style'' then write_style_record es else write_primitive v True
      | _ \<Rightarrow> write_primitive v True)"

definition write_meta_value :: "js_string \<Rightarrow> prim \<Rightarrow> binary_error + bytes" where
  "write_meta_value k v = (case v of PStr s \<Rightarrow> w_string s | _ \<Rightarrow> Inl MetadataNotString)"

definition write_container ::
    "(js_string \<Rightarrow> 'v \<Rightarrow> binary_error + bytes) \<Rightarrow> (js_string \<times> 'v) list option \<Rightarrow> binary_error + bytes" where
  "write_container wv c =
     (case c of
        None \<Rightarrow> Inr [ABSENT]
      | Some es \<Rightarrow> write_then (Inr [PRESENT]) (write_sorted_record wv es))"

definition write_fields :: "hson_attrs option \<Rightarrow> hson_meta option \<Rightarrow> binary_error + bytes" where
  "write_fields attrs meta =
     write_then (write_container write_attr attrs) (write_container write_meta_value meta)"

text \<open>The discriminator of a node and, for an ordinary node, its tag.\<close>

definition write_tag :: "js_string \<Rightarrow> binary_error + bytes" where
  "write_tag tag =
     (if tag = ROOT_TAG then Inl RootNotDetached
      else if tag = STR_TAG then Inr [STR_NODE]
      else if tag = VAL_TAG then Inr [VAL_NODE]
      else if tag = OBJ_TAG then Inr [OBJ_NODE]
      else if tag = ARR_TAG then Inr [ARR_NODE]
      else if tag = ELEM_TAG then Inr [ELEM_NODE]
      else if tag = II_TAG then Inr [ITEM_NODE]
      else write_then (Inr [ORDINARY_NODE]) (w_string tag))"

definition write_str_payload :: "hson_item list \<Rightarrow> binary_error + bytes" where
  "write_str_payload content =
     (case content of [ItemPrim (PStr s)] \<Rightarrow> w_string s | _ \<Rightarrow> Inl StrPayloadInvalid)"

definition write_val_payload :: "hson_item list \<Rightarrow> binary_error + bytes" where
  "write_val_payload content =
     (case content of
        [ItemPrim p] \<Rightarrow> write_primitive (APrim p) False
      | [ItemNode n] \<Rightarrow> Inl PrimitiveDomain
      | _ \<Rightarrow> Inl ValPayloadInvalid)"

fun write_node :: "hson_node \<Rightarrow> binary_error + bytes"
  and write_items :: "hson_item list \<Rightarrow> binary_error + bytes" where
  "write_node (HsonNode tag attrs meta content) =
     write_then (write_tag tag) (write_then (write_fields attrs meta)
       (if tag = STR_TAG then write_str_payload content
        else if tag = VAL_TAG then write_val_payload content
        else write_then (w_u32 (length content)) (write_items content)))"
| "write_items [] = Inr []"
| "write_items (ItemPrim p # items) = Inl PrimitiveOutsideLeaf"
| "write_items (ItemNode n # items) = write_then (write_node n) (write_items items)"

definition serialize_binary :: "hson_node \<Rightarrow> binary_error + bytes" where
  "serialize_binary n =
     (case assert_invariants n of
        Inl e \<Rightarrow> Inl (InvariantFailed e)
      | Inr u \<Rightarrow>
          if tag_of n = ROOT_TAG then Inl RootNotDetached
          else write_then (Inr MARKER) (write_node n))"

section \<open>Limits\<close>

record limits =
  maxBytes :: nat
  maxGraphDepth :: nat
  maxGraphNodes :: nat

definition positive_integer :: "num_arg option \<Rightarrow> nat \<Rightarrow> binary_error + nat" where
  "positive_integer v fallback =
     (case v of
        None \<Rightarrow> Inr fallback
      | Some (IntArg i) \<Rightarrow>
          if is_safe_integer (IntArg i) \<and> 0 < i then Inr (nat i) else Inl LimitNotPositive
      | Some (OtherArg x) \<Rightarrow> Inl LimitNotPositive)"

definition decode_limits ::
    "num_arg option \<Rightarrow> num_arg option \<Rightarrow> num_arg option \<Rightarrow> binary_error + limits" where
  "decode_limits max_bytes max_depth max_nodes =
     rbind (positive_integer max_bytes 1048576)
       (\<lambda>b. rbind (positive_integer max_depth 256)
         (\<lambda>d. rbind (positive_integer max_nodes 100000)
           (\<lambda>n. Inr \<lparr> maxBytes = b, maxGraphDepth = d, maxGraphNodes = n \<rparr>)))"

section \<open>Reader\<close>

type_synonym 'a reader = "bytes \<Rightarrow> binary_error + 'a \<times> bytes"

definition rd_bind :: "'a reader \<Rightarrow> ('a \<Rightarrow> 'b reader) \<Rightarrow> 'b reader" where
  "rd_bind m f = (\<lambda>bs. rbind (m bs) (\<lambda>(a, bs'). f a bs'))"

definition rd_return :: "'a \<Rightarrow> 'a reader" where
  "rd_return a = (\<lambda>bs. Inr (a, bs))"

definition rd_fail :: "binary_error \<Rightarrow> 'a reader" where
  "rd_fail e = (\<lambda>bs. Inl e)"

fun rd_byte :: "byte reader" where
  "rd_byte [] = Inl Truncated"
| "rd_byte (b # bs) = Inr (b, bs)"

fun be_value :: "bytes \<Rightarrow> nat \<Rightarrow> nat" where
  "be_value [] acc = acc"
| "be_value (b # bs) acc = be_value bs (acc * 256 + unat b)"

definition rd_u32 :: "nat reader" where
  "rd_u32 bs = (if length bs < 4 then Inl Truncated else Inr (be_value (take 4 bs) 0, drop 4 bs))"

definition rd_f64 :: "js_number reader" where
  "rd_f64 bs =
     (if length bs < 8 then Inl Truncated
      else let x = of_nat (be_value (take 8 bs) 0) :: js_number
        in if num_finite x then Inr (x, drop 8 bs) else Inl NumberNotFinite)"

primrec rd_units :: "nat \<Rightarrow> js_string reader" where
  "rd_units 0 = rd_return []"
| "rd_units (Suc n) =
     rd_bind rd_byte (\<lambda>high. rd_bind rd_byte (\<lambda>low.
       rd_bind (rd_units n) (\<lambda>us. rd_return ((push_bit 8 (ucast high) OR ucast low) # us))))"

definition rd_string :: "js_string reader" where
  "rd_string = rd_bind rd_u32
     (\<lambda>cnt bs. if length bs div 2 < cnt then Inl StringLengthExceeds else rd_units cnt bs)"

definition rd_count :: "nat \<Rightarrow> nat reader" where
  "rd_count minimum = rd_bind rd_u32
     (\<lambda>cnt bs. if length bs div minimum < cnt then Inl CountExceeds else Inr (cnt, bs))"

definition rd_presence :: "bool reader" where
  "rd_presence = rd_bind rd_byte
     (\<lambda>b. if b = ABSENT then rd_return False
          else if b = PRESENT then rd_return True else rd_fail (PresenceByte b))"

definition rd_scalar :: "prim reader" where
  "rd_scalar = rd_bind rd_byte
     (\<lambda>b. if b = NULL_VALUE then rd_return PNull
          else if b = FALSE_VALUE then rd_return (PBool False)
          else if b = TRUE_VALUE then rd_return (PBool True)
          else if b = NUMBER_VALUE then rd_bind rd_f64 (\<lambda>x. rd_return (PNum x))
          else rd_fail (ScalarDiscriminator b))"

definition rd_typed_style :: "attr_value reader" where
  "rd_typed_style = rd_bind rd_byte
     (\<lambda>d. rd_bind
        (if d = NUMBER_VALUE then rd_bind rd_f64 (\<lambda>x. rd_return (APrim (PNum x)))
         else if d = STRING_VALUE then rd_bind rd_string (\<lambda>s. rd_return (APrim (PStr s)))
         else rd_fail TypedStyleScalar)
        (\<lambda>v. rd_bind rd_byte
          (\<lambda>u. if u = ABSENT then rd_return (ARec [(js ''value'', v)])
               else if u = PRESENT then rd_return (ARec [(js ''value'', v), (js ''unit'', AUndef)])
               else if u = UNIT_STRING then
                 rd_bind rd_string
                   (\<lambda>s. rd_return (ARec [(js ''value'', v), (js ''unit'', APrim (PStr s))]))
               else rd_fail (UnitState u))))"

definition rd_style_value :: "js_string \<Rightarrow> attr_value reader" where
  "rd_style_value k = rd_bind rd_byte
     (\<lambda>b. if b = NULL_VALUE then rd_return (APrim PNull)
          else if b = FALSE_VALUE then rd_return (APrim (PBool False))
          else if b = TRUE_VALUE then rd_return (APrim (PBool True))
          else if b = NUMBER_VALUE then rd_bind rd_f64 (\<lambda>x. rd_return (APrim (PNum x)))
          else if b = STRING_VALUE then rd_bind rd_string (\<lambda>s. rd_return (APrim (PStr s)))
          else if b = TYPED_STYLE then rd_typed_style
          else rd_fail (StyleDiscriminator b))"

primrec rd_pairs ::
    "(js_string \<Rightarrow> 'v reader) \<Rightarrow> nat \<Rightarrow> js_string option \<Rightarrow> (js_string \<times> 'v) list reader" where
  "rd_pairs rv 0 previous = rd_return []"
| "rd_pairs rv (Suc n) previous =
     rd_bind rd_string (\<lambda>k.
       if (case previous of None \<Rightarrow> False | Some p \<Rightarrow> 0 \<le> compare_code_units p k) then rd_fail KeysNotIncreasing
       else rd_bind (rv k) (\<lambda>v. rd_bind (rd_pairs rv n (Some k)) (\<lambda>es. rd_return ((k, v) # es))))"

text \<open>The record is a fresh object, so its fields are in the engine's own-key order.\<close>

definition rd_record :: "nat \<Rightarrow> (js_string \<Rightarrow> 'v reader) \<Rightarrow> (js_string \<times> 'v) list reader" where
  "rd_record minimum rv =
     rd_bind (rd_count minimum) (\<lambda>n. rd_bind (rd_pairs rv n None) (\<lambda>es. rd_return (own_key_order es)))"

definition rd_style_record :: "(js_string \<times> attr_value) list reader" where
  "rd_style_record = rd_record 5 rd_style_value"

definition rd_attr_value :: "js_string \<Rightarrow> attr_value reader" where
  "rd_attr_value k = rd_bind rd_byte
     (\<lambda>b. if b = NULL_VALUE then rd_return (APrim PNull)
          else if b = FALSE_VALUE then rd_return (APrim (PBool False))
          else if b = TRUE_VALUE then rd_return (APrim (PBool True))
          else if b = NUMBER_VALUE then rd_bind rd_f64 (\<lambda>x. rd_return (APrim (PNum x)))
          else if b = STRING_VALUE then rd_bind rd_string (\<lambda>s. rd_return (APrim (PStr s)))
          else if b = STYLE_RECORD \<and> k = js ''style'' then rd_bind rd_style_record (\<lambda>es. rd_return (ARec es))
          else rd_fail (AttrDiscriminator b))"

definition rd_container :: "'v reader \<Rightarrow> 'v option reader" where
  "rd_container rv = rd_bind rd_presence
     (\<lambda>p. if p then rd_bind rv (\<lambda>v. rd_return (Some v)) else rd_return None)"

definition rd_attrs :: "hson_attrs option reader" where
  "rd_attrs = rd_container (rd_record 5 rd_attr_value)"

definition rd_meta :: "hson_meta option reader" where
  "rd_meta = rd_container (rd_record 8 (\<lambda>k. rd_bind rd_string (\<lambda>s. rd_return (PStr s))))"

text \<open>The discriminator and the tag it stands for; the content branch looks at the discriminator.\<close>

definition rd_tag :: "(byte \<times> js_string) reader" where
  "rd_tag = rd_bind rd_byte
     (\<lambda>b. rd_bind
        (if b = ORDINARY_NODE then rd_string
         else if b = STR_NODE then rd_return STR_TAG
         else if b = VAL_NODE then rd_return VAL_TAG
         else if b = OBJ_NODE then rd_return OBJ_TAG
         else if b = ARR_NODE then rd_return ARR_TAG
         else if b = ELEM_NODE then rd_return ELEM_TAG
         else if b = ITEM_NODE then rd_return II_TAG
         else rd_fail (NodeDiscriminator b))
        (\<lambda>t. rd_return (b, t)))"

function rd_node :: "limits \<Rightarrow> nat \<Rightarrow> nat \<Rightarrow> bytes \<Rightarrow> binary_error + hson_node \<times> nat \<times> bytes"
  and rd_items :: "limits \<Rightarrow> nat \<Rightarrow> nat \<Rightarrow> nat \<Rightarrow> bytes \<Rightarrow> binary_error + hson_item list \<times> nat \<times> bytes" where
  "rd_node L depth nodes bs =
     (if maxGraphDepth L < depth then Inl DepthExceeded
      else if maxGraphNodes L < Suc nodes then Inl NodesExceeded
      else rbind (rd_tag bs) (\<lambda>(dt, bs1). rbind (rd_attrs bs1) (\<lambda>(attrs, bs2).
        rbind (rd_meta bs2) (\<lambda>(meta, bs3).
          if fst dt = STR_NODE then
            rbind (rd_string bs3)
              (\<lambda>(s, bs4). Inr (HsonNode (snd dt) attrs meta [ItemPrim (PStr s)], Suc nodes, bs4))
          else if fst dt = VAL_NODE then
            rbind (rd_scalar bs3)
              (\<lambda>(p, bs4). Inr (HsonNode (snd dt) attrs meta [ItemPrim p], Suc nodes, bs4))
          else rbind (rd_count 3 bs3) (\<lambda>(cnt, bs4).
            if maxGraphNodes L - Suc nodes < cnt then Inl ContentBudget
            else rbind (rd_items L (Suc depth) cnt (Suc nodes) bs4)
              (\<lambda>(c, nodes', bs5). Inr (HsonNode (snd dt) attrs meta c, nodes', bs5)))))))"
| "rd_items L depth 0 nodes bs = Inr ([], nodes, bs)"
| "rd_items L depth (Suc k) nodes bs =
     rbind (rd_node L depth nodes bs)
       (\<lambda>(n, nodes1, bs1). rbind (rd_items L depth k nodes1 bs1)
         (\<lambda>(c, nodes2, bs2). Inr (ItemNode n # c, nodes2, bs2)))"
  by pat_completeness auto

termination
  by (relation "measures
      [\<lambda>x. case x of
          Inl (L, depth, _, _) \<Rightarrow> 2 * (maxGraphDepth L + 1 - depth) + 1
        | Inr (L, depth, _, _, _) \<Rightarrow> 2 * (maxGraphDepth L + 1 - depth) + 2,
       \<lambda>x. case x of Inl _ \<Rightarrow> 0 | Inr (_, _, cnt, _, _) \<Rightarrow> cnt]")
    auto

declare rd_node.simps [simp del]

section \<open>Entry point\<close>

fun rd_marker :: "bytes \<Rightarrow> bytes \<Rightarrow> binary_error + bytes" where
  "rd_marker [] bs = Inr bs"
| "rd_marker (m # ms) bs =
     rbind (rd_byte bs) (\<lambda>(b, bs'). if b \<noteq> m then Inl MarkerMismatch else rd_marker ms bs')"

definition parse_binary ::
    "bytes \<Rightarrow> num_arg option \<Rightarrow> num_arg option \<Rightarrow> num_arg option \<Rightarrow> binary_error + hson_node" where
  "parse_binary input max_bytes max_depth max_nodes =
     rbind (decode_limits max_bytes max_depth max_nodes) (\<lambda>L.
       if maxBytes L < length input then Inl MaxBytesExceeded
       else rbind (rd_marker MARKER input) (\<lambda>bs. rbind (rd_node L 0 0 bs) (\<lambda>(n, nodes, rest).
         if rest \<noteq> [] then Inl TrailingBytes
         else case assert_invariants n of
           Inl e \<Rightarrow> Inl (InvariantFailed e)
         | Inr u \<Rightarrow> rbind (serialize_binary n) (\<lambda>canonical.
             if canonical \<noteq> input then Inl NotCanonicalBytes else Inr n))))"

section \<open>Bounds\<close>

fun node_depth :: "hson_node \<Rightarrow> nat"
  and items_depth :: "hson_item list \<Rightarrow> nat" where
  "node_depth (HsonNode tag attrs meta content) = items_depth content"
| "items_depth [] = 0"
| "items_depth (ItemPrim p # items) = items_depth items"
| "items_depth (ItemNode n # items) = max (Suc (node_depth n)) (items_depth items)"

fun node_count :: "hson_node \<Rightarrow> nat"
  and items_count :: "hson_item list \<Rightarrow> nat" where
  "node_count (HsonNode tag attrs meta content) = Suc (items_count content)"
| "items_count [] = 0"
| "items_count (ItemPrim p # items) = items_count items"
| "items_count (ItemNode n # items) = node_count n + items_count items"

lemma rd_node_Inr:
  assumes "rd_node L depth nodes bs = Inr (n, nodes', bs')"
  obtains (leaf) d tag bs1 attrs bs2 meta bs3 p where
      "depth \<le> maxGraphDepth L" "Suc nodes \<le> maxGraphNodes L"
      "rd_tag bs = Inr ((d, tag), bs1)" "rd_attrs bs1 = Inr (attrs, bs2)" "rd_meta bs2 = Inr (meta, bs3)"
      "n = HsonNode tag attrs meta [ItemPrim p]" "nodes' = Suc nodes"
    | (inner) d tag bs1 attrs bs2 meta bs3 cnt bs4 c where
      "depth \<le> maxGraphDepth L" "Suc nodes \<le> maxGraphNodes L"
      "rd_tag bs = Inr ((d, tag), bs1)" "rd_attrs bs1 = Inr (attrs, bs2)" "rd_meta bs2 = Inr (meta, bs3)"
      "d \<noteq> STR_NODE" "d \<noteq> VAL_NODE" "rd_count 3 bs3 = Inr (cnt, bs4)"
      "cnt \<le> maxGraphNodes L - Suc nodes"
      "rd_items L (Suc depth) cnt (Suc nodes) bs4 = Inr (c, nodes', bs')"
      "n = HsonNode tag attrs meta c"
  using assms
  by (subst (asm) rd_node.simps) (auto simp: res_simps not_less split: if_splits)

lemma rd_node_bounds:
  "rd_node L depth nodes bs = Inr (n, nodes', bs') \<Longrightarrow>
     depth + node_depth n \<le> maxGraphDepth L \<and> nodes' = nodes + node_count n \<and> nodes' \<le> maxGraphNodes L"
  "rd_items L depth k nodes bs = Inr (c, nodes', bs') \<Longrightarrow> nodes \<le> maxGraphNodes L \<Longrightarrow> depth \<le> Suc (maxGraphDepth L) \<Longrightarrow>
     depth + items_depth c \<le> Suc (maxGraphDepth L) \<and> nodes' = nodes + items_count c \<and>
     nodes' \<le> maxGraphNodes L"
proof (induction L depth nodes bs and L depth k nodes bs arbitrary: n nodes' bs' and c nodes' bs'
    rule: rd_node_rd_items.induct)
  case (1 L depth nodes bs)
  from "1.prems" show ?case
  proof (cases rule: rd_node_Inr)
    case leaf
    then show ?thesis by simp
  next
    case (inner d tag bs1 attrs bs2 meta bs3 cnt bs4 c)
    have "Suc depth + items_depth c \<le> Suc (maxGraphDepth L) \<and> nodes' = Suc nodes + items_count c \<and>
        nodes' \<le> maxGraphNodes L"
      by (rule "1.IH" [OF _ _ inner(3) _ inner(4) _ inner(5) _ _ _ inner(8) _ _ inner(10)])
        (use inner in auto)
    then show ?thesis using inner(11) by simp
  qed
next
  case (3 L depth k nodes bs)
  then show ?case by (fastforce simp: res_simps)
qed auto

text \<open>
  C36: whatever bytes it is given, the parser returns a node only if the input is at most
  \<open>maxBytes\<close> long, the node nests at most \<open>maxGraphDepth\<close> levels and has at most
  \<open>maxGraphNodes\<close> nodes, it is canonical, and the bytes are exactly what the serializer writes
  for it: no second spelling of a value is accepted.
\<close>

theorem parse_binary_bounded_and_canonical:
  assumes "parse_binary input mb md mn = Inr n" and "decode_limits mb md mn = Inr L"
  shows "length input \<le> maxBytes L \<and> node_depth n \<le> maxGraphDepth L \<and> node_count n \<le> maxGraphNodes L \<and>
    invariant_issues True n = [] \<and> serialize_binary n = Inr input"
proof -
  obtain bs nodes where "length input \<le> maxBytes L" "rd_node L 0 0 bs = Inr (n, nodes, [])"
    "assert_invariants n = Inr ()" "serialize_binary n = Inr input"
    using assms by (auto simp: parse_binary_def res_simps not_less split: if_splits sum.splits)
  then show ?thesis using rd_node_bounds(1) [of L 0 0 bs n nodes "[]"] by (simp add: res_simps)
qed

definition sample_leaf :: hson_node where
  "sample_leaf = HsonNode STR_TAG None None [ItemPrim (PStr (js ''a''))]"

definition sample_bytes :: bytes where
  "sample_bytes = [0x48, 0x53, 0x4f, 0x4e, 0x11, 0, 0, 0, 0, 0, 1, 0, 0x61]"

definition sample_limits :: limits where
  "sample_limits = \<lparr> maxBytes = 64, maxGraphDepth = 2, maxGraphNodes = 4 \<rparr>"

lemma sample_decode_limits:
  "decode_limits (Some (IntArg 64)) (Some (IntArg 2)) (Some (IntArg 4)) = Inr sample_limits"
  by (simp add: decode_limits_def positive_integer_def is_safe_integer_def max_safe_integer_def
      sample_limits_def rbind_def)

lemma sample_leaf_invariants: "assert_invariants sample_leaf = Inr ()"
  by code_simp

lemma sample_leaf_string: "w_string (js ''a'') = Inr (drop 7 sample_bytes)"
  by (simp add: w_string_def w_u32_def js_def rbind_def sample_bytes_def)

lemma sample_leaf_written: "serialize_binary sample_leaf = Inr sample_bytes"
proof -
  have "write_node sample_leaf = Inr (drop 4 sample_bytes)"
    by (simp add: sample_leaf_def write_tag_def write_fields_def write_container_def
        write_str_payload_def sample_leaf_string write_then_def rbind_def) (simp add: sample_bytes_def)
  then show ?thesis
    by (simp add: serialize_binary_def sample_leaf_invariants write_then_def rbind_def)
      (simp add: sample_leaf_def sample_bytes_def MARKER_def)
qed

lemma sample_leaf_read:
  "parse_binary sample_bytes (Some (IntArg 64)) (Some (IntArg 2)) (Some (IntArg 4)) = Inr sample_leaf"
proof -
  have marker: "rd_marker MARKER sample_bytes = Inr (drop 4 sample_bytes)"
    by code_simp
  have node: "rd_node sample_limits 0 0 (drop 4 sample_bytes) = Inr (sample_leaf, 1, [])"
    by code_simp
  have size: "length sample_bytes \<le> maxBytes sample_limits"
    by (simp add: sample_bytes_def sample_limits_def)
  show ?thesis
    using size by (simp add: parse_binary_def sample_decode_limits marker node sample_leaf_invariants
        sample_leaf_written rbind_def)
qed

theorem parse_binary_bounded_and_canonical_witness:
  "length sample_bytes \<le> maxBytes sample_limits \<and> node_depth sample_leaf \<le> maxGraphDepth sample_limits \<and>
    node_count sample_leaf \<le> maxGraphNodes sample_limits \<and>
    invariant_issues True sample_leaf = [] \<and> serialize_binary sample_leaf = Inr sample_bytes"
  by (rule parse_binary_bounded_and_canonical [OF sample_leaf_read sample_decode_limits])

end
