(* ===== verification/Binary_Laws.thy ===== *)
theory Binary_Laws
  imports Binary_Codec
begin

text \<open>
  The binary reader inverts the binary writer: numbers, strings, records, nodes; the read-back
  node is the written one with its records in canonical field order, and it is written to the
  same bytes.
\<close>

section \<open>Order of keys\<close>

lemma compare_code_units_less: "compare_code_units p k < 0 \<longleftrightarrow> p < k"
proof (induction p arbitrary: k)
  case Nil
  then show ?case by (cases k) simp_all
next
  case (Cons u us)
  then show ?case by (cases k) (auto simp: word_less_def word_uint_eq_iff)
qed

section \<open>Big-endian numbers\<close>

lemma be_value_digits:
  "be_value (map (\<lambda>i. of_nat (n div 256 ^ i)) (rev [0..<k])) acc = acc * 256 ^ k + n mod 256 ^ k"
proof (induction k arbitrary: acc)
  case (Suc k)
  have u: "unat (of_nat m :: byte) = m mod 256" for m
    by (simp add: unat_of_nat)
  have "n mod 256 ^ Suc k = (n div 256 ^ k mod 256) * 256 ^ k + n mod 256 ^ k"
    using mod_mult2_eq [of n "256 ^ k" 256] by (simp add: mult.commute)
  then show ?case by (simp add: Suc u algebra_simps)
qed simp

lemma byte_of_drop: "(ucast (drop_bit (8 * i) (x :: 'a::len word)) :: byte) = of_nat (unat x div 256 ^ i)"
proof -
  have "(ucast (drop_bit (8 * i) x) :: byte) = of_nat (unat (drop_bit (8 * i) x))" by simp
  also have "unat (drop_bit (8 * i) x) = unat x div 256 ^ i"
    by (simp only: unat_drop_bit_eq) (simp add: drop_bit_eq_div power_mult)
  finally show ?thesis .
qed

section \<open>Writers and readers\<close>

definition inverts :: "'a reader \<Rightarrow> binary_error + bytes \<Rightarrow> 'a \<Rightarrow> bool" where
  "inverts r w v \<longleftrightarrow> (\<forall>bs rest. w = Inr bs \<longrightarrow> r (bs @ rest) = Inr (v, rest))"

lemma inverts_apply: "inverts r w v \<Longrightarrow> w = Inr bs \<Longrightarrow> r (bs @ rest) = Inr (v, rest)"
  by (simp add: inverts_def)

lemma write_then_Inr [res_simps]:
  "write_then w1 w2 = Inr bs \<longleftrightarrow> (\<exists>a b. w1 = Inr a \<and> w2 = Inr b \<and> bs = a @ b)"
  by (auto simp: write_then_def rbind_Inr_iff)

lemma inverts_bind:
  "inverts r w v \<Longrightarrow> inverts (f v) w' u \<Longrightarrow> inverts (rd_bind r f) (write_then w w') u"
  by (auto simp: inverts_def rd_bind_def res_simps)

lemma inverts_map: "inverts r w v \<Longrightarrow> inverts (rd_bind r (\<lambda>x. rd_return (g x))) w (g v)"
  by (auto simp: inverts_def rd_bind_def rd_return_def)

lemma inverts_byte: "inverts (f b) w u \<Longrightarrow> inverts (rd_bind rd_byte f) (write_then (Inr [b]) w) u"
  by (auto simp: inverts_def rd_bind_def res_simps)

lemma inverts_byte_only: "inverts (f b) (Inr []) u \<Longrightarrow> inverts (rd_bind rd_byte f) (Inr [b]) u"
  by (auto simp: inverts_def rd_bind_def res_simps)

lemma inverts_return: "inverts (rd_return v) (Inr []) v"
  by (simp add: inverts_def rd_return_def)

lemma inverts_fail: "inverts r (Inl e) v"
  by (simp add: inverts_def)

lemma w_u32_digits: "n \<le> 0xffffffff \<Longrightarrow> w_u32 n = Inr (map (\<lambda>i. of_nat (n div 256 ^ i)) (rev [0..<4]))"
proof -
  have "rev [0..<4] = [3, 2, 1, 0 :: nat]" by (simp add: upt_rec)
  then show "n \<le> 0xffffffff \<Longrightarrow> ?thesis" by (simp add: w_u32_def)
qed

lemma w_u32_Inr: "w_u32 n = Inr bs \<Longrightarrow> length bs = 4 \<and> be_value bs 0 = n"
proof -
  assume a: "w_u32 n = Inr bs"
  then have n: "n \<le> 0xffffffff" by (auto simp: w_u32_def split: if_splits)
  have "bs = map (\<lambda>i. of_nat (n div 256 ^ i)) (rev [0..<4])" using a w_u32_digits [OF n] by (metis sum.inject(2))
  moreover have "n < 256 ^ 4" using n by simp
  ultimately show ?thesis by (simp only: be_value_digits) simp
qed

lemma inverts_u32: "inverts rd_u32 (w_u32 n) n"
  by (auto simp: inverts_def rd_u32_def dest!: w_u32_Inr)

lemma inverts_f64: "inverts rd_f64 (w_f64 x) x"
proof -
  have "map (\<lambda>i. ucast (drop_bit (8 * i) x)) [7, 6, 5, 4, 3, 2, 1, 0] =
      (map (\<lambda>i. of_nat (unat x div 256 ^ i)) (rev [0..<8]) :: bytes)"
    by (simp only: byte_of_drop) (simp add: upt_rec)
  then have "be_value (map (\<lambda>i. ucast (drop_bit (8 * i) x)) [7, 6, 5, 4, 3, 2, 1, 0]) 0 = unat x mod 256 ^ 8"
    using be_value_digits [of "unat x" 8 0] by simp
  also have "\<dots> = unat x"
  proof -
    have "unat x < 2 ^ 64" using unsigned_less [of x] by simp
    then show ?thesis by simp
  qed
  finally show ?thesis
    by (auto simp: inverts_def rd_f64_def w_f64_def Let_def split: if_splits simp del: list.map)
qed

lemma unit_of_bytes: "push_bit 8 (ucast (ucast (drop_bit 8 u) :: byte)) OR ucast (ucast u :: byte) = (u :: 16 word)"
  by (rule bit_word_eqI) (auto simp: bit_or_iff bit_push_bit_iff bit_ucast_iff bit_drop_bit_eq)

lemma rd_units_written:
  "rd_units (length s) (concat (map (\<lambda>u. [ucast (drop_bit 8 u), ucast u]) s) @ rest) = Inr (s, rest)"
  by (induction s) (simp_all add: rd_return_def rd_bind_def unit_of_bytes)

lemma unit_bytes_length: "length (concat (map (\<lambda>u. [ucast (drop_bit 8 u), ucast u] :: bytes) s)) = 2 * length s"
  by (induction s) simp_all

lemma inverts_string: "inverts rd_string (w_string s) s"
proof -
  have "rd_string (bs @ rest) = Inr (s, rest)" if w: "w_string s = Inr bs" for bs rest
  proof -
    obtain n where n: "w_u32 (length s) = Inr n"
      "bs = n @ concat (map (\<lambda>u. [ucast (drop_bit 8 u), ucast u]) s)"
      using w unfolding w_string_def rbind_Inr_iff by blast
    show ?thesis
      using inverts_apply [OF inverts_u32 n(1)]
      by (simp add: rd_string_def rd_bind_def n(2) rd_units_written unit_bytes_length)
  qed
  then show ?thesis by (simp add: inverts_def)
qed

lemma w_string_length: "w_string s = Inr bs \<Longrightarrow> 4 \<le> length bs"
  by (auto simp: w_string_def res_simps dest: w_u32_Inr)

section \<open>Records\<close>

text \<open>
  The record the reader builds for a written one: the fields sorted by key and read back, in
  the engine's own-key order.
\<close>

definition canon_record :: "(js_string \<Rightarrow> 'v \<Rightarrow> 'w) \<Rightarrow> (js_string \<times> 'v) list \<Rightarrow> (js_string \<times> 'w) list" where
  "canon_record f es = own_key_order (map (\<lambda>(k, v). (k, f k v)) (sort_key fst es))"

lemma sort_key_strict:
  assumes "distinct (map fst es)"
  shows "sorted_wrt (\<lambda>a b. fst a < fst b) (sort_key fst es)"
proof -
  have "distinct (map fst (sort_key fst es))"
  proof -
    have "mset (map fst (sort_key fst es)) = mset (map fst es)" by simp
    then show ?thesis using assms by (metis mset_eq_imp_distinct_iff)
  qed
  then have "sorted_wrt (<) (map fst (sort_key fst es))"
    by (simp only: strict_sorted_iff) simp
  then show ?thesis by (simp add: sorted_wrt_map)
qed

lemma inverts_pairs:
  assumes "\<And>e. e \<in> set es \<Longrightarrow> inverts (rv (fst e)) (wv (fst e) (snd e)) (f (fst e) (snd e))"
    and "sorted_wrt (\<lambda>a b. fst a < fst b) es" and "\<And>p e. prev = Some p \<Longrightarrow> e \<in> set es \<Longrightarrow> p < fst e"
  shows "inverts (rd_pairs rv (length es) prev) (write_pairs wv es) (map (\<lambda>(k, v). (k, f k v)) es)"
  using assms
proof (induction es arbitrary: prev)
  case Nil
  show ?case by (simp add: inverts_return)
next
  case (Cons e es)
  have rest: "inverts (rd_pairs rv (length es) (Some (fst e))) (write_pairs wv es) (map (\<lambda>(k, v). (k, f k v)) es)"
    by (rule Cons.IH) (use Cons.prems in auto)
  have order: "\<not> (case prev of None \<Rightarrow> False | Some p \<Rightarrow> 0 \<le> compare_code_units p (fst e))"
    using Cons.prems(3) compare_code_units_less by (auto simp: not_le split: option.splits)
  have e: "inverts (rv (fst e)) (wv (fst e) (snd e)) (f (fst e) (snd e))" using Cons.prems(1) by simp
  show ?case
    by (simp add: split_def) (intro inverts_bind [OF inverts_string] , simp only: order if_False,
      intro inverts_bind [OF e] inverts_map rest [unfolded split_def])
qed

lemma write_pairs_length:
  assumes "\<And>e b. e \<in> set es \<Longrightarrow> wv (fst e) (snd e) = Inr b \<Longrightarrow> m \<le> length b" and "write_pairs wv es = Inr bs"
  shows "(4 + m) * length es \<le> length bs"
  using assms
proof (induction es arbitrary: bs)
  case (Cons e es)
  then obtain a b c where w: "w_string (fst e) = Inr a" "wv (fst e) (snd e) = Inr b" "write_pairs wv es = Inr c"
    "bs = a @ b @ c"
    by (auto simp: res_simps)
  have "(4 + m) * length es \<le> length c"
    by (rule Cons.IH [OF _ w(3)]) (use Cons.prems(1) in auto)
  moreover have "4 \<le> length a" "m \<le> length b"
    using w_string_length [OF w(1)] Cons.prems(1) [of e b] w(2) by simp_all
  ultimately show ?case by (simp add: w(4))
qed simp

lemma inverts_count:
  assumes "\<And>b. w = Inr b \<Longrightarrow> m * n \<le> length b" and "inverts (f n) w v" and "0 < m"
  shows "inverts (rd_bind (rd_count m) f) (write_then (w_u32 n) w) v"
  unfolding inverts_def
proof (intro allI impI)
  fix bs rest assume "write_then (w_u32 n) w = Inr bs"
  then obtain a b where ab: "w_u32 n = Inr a" "w = Inr b" "bs = a @ b" by (auto simp: res_simps)
  have "n * m \<le> length (b @ rest)" using assms(1) [OF ab(2)] by (simp add: mult.commute)
  then have "n \<le> length (b @ rest) div m" using assms(3) by (simp only: less_eq_div_iff_mult_less_eq)
  then show "rd_bind (rd_count m) f (bs @ rest) = Inr (v, rest)"
    using inverts_apply [OF inverts_u32 ab(1), of "b @ rest"] inverts_apply [OF assms(2) ab(2), of rest]
    by (simp add: rd_bind_def rd_count_def ab(3))
qed

lemma inverts_record:
  assumes "\<And>e. e \<in> set es \<Longrightarrow> inverts (rv (fst e)) (wv (fst e) (snd e)) (f (fst e) (snd e))"
    and "distinct (map fst es)" and "\<And>e b. e \<in> set es \<Longrightarrow> wv (fst e) (snd e) = Inr b \<Longrightarrow> m \<le> length b"
  shows "inverts (rd_record (4 + m) rv) (write_sorted_record wv es) (canon_record f es)"
  unfolding rd_record_def write_sorted_record_def canon_record_def Let_def
proof (rule inverts_count)
  fix b assume "write_pairs wv (sort_key fst es) = Inr b"
  then show "(4 + m) * length (sort_key fst es) \<le> length b"
    using assms(3) by (intro write_pairs_length) auto
next
  show "inverts (rd_bind (rd_pairs rv (length (sort_key fst es)) None) (\<lambda>es. rd_return (own_key_order es)))
      (write_pairs wv (sort_key fst es)) (own_key_order (map (\<lambda>(k, v). (k, f k v)) (sort_key fst es)))"
    using assms(1) sort_key_strict [OF assms(2)]
    by (intro inverts_map inverts_pairs) auto
qed simp

section \<open>Attributes and metadata\<close>

definition canon_style_value :: "js_string \<Rightarrow> attr_value \<Rightarrow> attr_value" where
  "canon_style_value k v =
     (case v of
        ARec es \<Rightarrow>
          ARec ((js ''value'', the (map_of es (js ''value''))) #
            (case map_of es (js ''unit'') of None \<Rightarrow> [] | Some u \<Rightarrow> [(js ''unit'', u)]))
      | _ \<Rightarrow> v)"

definition canon_attr :: "js_string \<Rightarrow> attr_value \<Rightarrow> attr_value" where
  "canon_attr k v = (case v of ARec es \<Rightarrow> ARec (canon_record canon_style_value es) | _ \<Rightarrow> v)"

lemma inverts_number: "inverts (rd_bind rd_f64 (\<lambda>x. rd_return (g x))) (w_f64 x) (g x)"
  by (rule inverts_map [OF inverts_f64])

lemma inverts_text: "inverts (rd_bind rd_string (\<lambda>x. rd_return (g x))) (w_string x) (g x)"
  by (rule inverts_map [OF inverts_string])

lemmas inverts_rules = inverts_byte inverts_byte_only inverts_number inverts_text inverts_return inverts_fail

lemma inverts_style_value: "inverts (rd_style_value k) (write_style_value k v) (canon_style_value k v)"
proof (cases v)
  case AUndef
  then show ?thesis by (simp add: write_style_value_def inverts_fail)
next
  case (APrim p)
  then show ?thesis
    by (cases p)
      (auto simp: write_style_value_def rd_style_value_def canon_style_value_def intro!: inverts_rules)
next
  case (ARec es)
  show ?thesis
  proof (cases "is_typed_css_value v")
    case False
    then show ?thesis by (simp add: ARec write_style_value_def inverts_fail del: is_typed_css_value.simps)
  next
    case True
    then obtain p where p: "map_of es (js ''value'') = Some (APrim p)"
      "(\<exists>x. p = PNum x) \<or> (\<exists>s. p = PStr s)"
      by (auto simp: ARec split: option.splits attr_value.splits prim.splits)
    have u: "map_of es (js ''unit'') = None \<or> map_of es (js ''unit'') = Some AUndef \<or>
        (\<exists>s. map_of es (js ''unit'') = Some (APrim (PStr s)))"
      using True by (auto simp: ARec split: option.splits attr_value.splits prim.splits)
    have unit: "inverts (rd_bind rd_byte
          (\<lambda>u. if u = ABSENT then rd_return (ARec [(js ''value'', v)])
               else if u = PRESENT then rd_return (ARec [(js ''value'', v), (js ''unit'', AUndef)])
               else if u = UNIT_STRING then
                 rd_bind rd_string
                   (\<lambda>s. rd_return (ARec [(js ''value'', v), (js ''unit'', APrim (PStr s))]))
               else rd_fail (UnitState u)))
        (write_unit (map_of es (js ''unit'')))
        (ARec ((js ''value'', v) # (case map_of es (js ''unit'') of None \<Rightarrow> [] | Some u \<Rightarrow> [(js ''unit'', u)])))" for v
      using u by (auto simp: write_unit_def intro!: inverts_rules)
    have "inverts rd_typed_style (write_then (write_primitive (APrim p) True) (write_unit (map_of es (js ''unit''))))
        (canon_style_value k v)"
    proof -
      have assoc: "write_then (write_then (Inr [b]) w) w' = write_then (Inr [b]) (write_then w w')" for b w w'
        by (simp add: write_then_def) (cases w; cases w'; simp)
      have c: "canon_style_value k v = ARec ((js ''value'', APrim p) #
          (case map_of es (js ''unit'') of None \<Rightarrow> [] | Some u \<Rightarrow> [(js ''unit'', u)]))"
        by (simp add: canon_style_value_def ARec p(1))
      from p(2) show ?thesis
      proof (elim disjE exE)
        fix x assume x: "p = PNum x"
        show ?thesis
          unfolding c x write_primitive.simps assoc rd_typed_style_def
          by (rule inverts_byte) (simp, rule inverts_bind, rule inverts_number, rule unit)
      next
        fix s assume s: "p = PStr s"
        show ?thesis
          unfolding c s write_primitive.simps if_True assoc rd_typed_style_def
          by (rule inverts_byte) (simp, rule inverts_bind, rule inverts_text, rule unit)
      qed
    qed
    then show ?thesis
      using True p(1)
      by (auto simp: ARec write_style_value_def rd_style_value_def simp del: is_typed_css_value.simps
          intro!: inverts_byte)
  qed
qed

definition attr_wf :: "attr_value \<Rightarrow> bool" where
  "attr_wf v \<longleftrightarrow> (case v of ARec es \<Rightarrow> distinct (map fst es) | _ \<Rightarrow> True)"

lemma write_primitive_length: "write_primitive v a = Inr b \<Longrightarrow> 1 \<le> length b"
  by (cases "(v, a)" rule: write_primitive.cases) (auto simp: res_simps split: if_splits)

lemma write_style_value_length: "write_style_value k v = Inr b \<Longrightarrow> 1 \<le> length b"
  by (auto simp: write_style_value_def res_simps dest!: write_primitive_length simp del: is_typed_css_value.simps
      split: attr_value.splits if_splits)

lemma write_attr_length: "write_attr k v = Inr b \<Longrightarrow> 1 \<le> length b"
  by (auto simp: write_attr_def write_style_record_def res_simps dest!: write_primitive_length
      split: attr_value.splits if_splits)

lemma inverts_style_record:
  assumes "distinct (map fst es)"
  shows "inverts rd_style_record (write_sorted_record write_style_value es) (canon_record canon_style_value es)"
  using inverts_record [of es rd_style_value write_style_value canon_style_value 1] assms
    inverts_style_value write_style_value_length
  by (simp add: rd_style_record_def numeral_eq_Suc)

lemma inverts_attr: "attr_wf v \<Longrightarrow> inverts (rd_attr_value k) (write_attr k v) (canon_attr k v)"
proof (cases v)
  case AUndef
  then show ?thesis by (simp add: write_attr_def inverts_fail)
next
  case (APrim p)
  then show ?thesis
    by (cases p) (auto simp: write_attr_def rd_attr_value_def canon_attr_def intro!: inverts_rules)
next
  case (ARec es)
  assume "attr_wf v"
  then have "inverts (rd_bind rd_style_record (\<lambda>es. rd_return (ARec es)))
      (write_sorted_record write_style_value es) (ARec (canon_record canon_style_value es))"
    by (intro inverts_map inverts_style_record) (simp add: attr_wf_def ARec)
  then show ?thesis
    by (auto simp: ARec write_attr_def rd_attr_value_def canon_attr_def write_style_record_def
        intro!: inverts_byte inverts_fail)
qed

lemma inverts_meta_value:
  "inverts (rd_bind rd_string (\<lambda>s. rd_return (PStr s))) (write_meta_value k v) v"
  by (cases v) (auto simp: write_meta_value_def intro!: inverts_rules)

lemma inverts_container:
  assumes "\<And>es. c = Some es \<Longrightarrow> inverts rv (write_sorted_record wv es) (g es)"
  shows "inverts (rd_container rv) (write_container wv c) (map_option g c)"
proof (cases c)
  case None
  have "inverts rd_presence (Inr [ABSENT]) False"
    by (auto simp: rd_presence_def intro!: inverts_byte_only inverts_return)
  then show ?thesis
    by (auto simp: None write_container_def rd_container_def inverts_def rd_bind_def rd_return_def)
next
  case (Some es)
  have p: "inverts rd_presence (Inr [PRESENT]) True"
    by (auto simp: rd_presence_def intro!: inverts_byte_only inverts_return)
  have "inverts (rd_bind rv (\<lambda>v. rd_return (Some v))) (write_sorted_record wv es) (Some (g es))"
    using assms [OF Some] by (rule inverts_map)
  then show ?thesis
    unfolding Some write_container_def rd_container_def by (auto intro!: inverts_bind [OF p])
qed

definition canon_attrs :: "hson_attrs \<Rightarrow> hson_attrs" where
  "canon_attrs = canon_record canon_attr"

definition canon_meta :: "hson_meta \<Rightarrow> hson_meta" where
  "canon_meta = canon_record (\<lambda>k v. v)"

definition attrs_wf :: "hson_attrs option \<Rightarrow> bool" where
  "attrs_wf c \<longleftrightarrow> (case c of None \<Rightarrow> True | Some es \<Rightarrow> distinct (map fst es) \<and> (\<forall>e \<in> set es. attr_wf (snd e)))"

definition meta_wf :: "hson_meta option \<Rightarrow> bool" where
  "meta_wf c \<longleftrightarrow> (case c of None \<Rightarrow> True | Some es \<Rightarrow> distinct (map fst es))"

lemma inverts_attrs: "attrs_wf c \<Longrightarrow> inverts rd_attrs (write_container write_attr c) (map_option canon_attrs c)"
  unfolding rd_attrs_def canon_attrs_def
  using inverts_record [of _ rd_attr_value write_attr canon_attr 1] inverts_attr write_attr_length
  by (intro inverts_container) (fastforce simp: attrs_wf_def numeral_eq_Suc)

lemma write_meta_length: "write_meta_value k v = Inr b \<Longrightarrow> 4 \<le> length b"
  by (auto simp: write_meta_value_def dest: w_string_length split: prim.splits)

lemma inverts_meta: "meta_wf c \<Longrightarrow> inverts rd_meta (write_container write_meta_value c) (map_option canon_meta c)"
  unfolding rd_meta_def canon_meta_def
  using inverts_record [of _ "\<lambda>k. rd_bind rd_string (\<lambda>s. rd_return (PStr s))" write_meta_value "\<lambda>k v. v" 4]
    inverts_meta_value write_meta_length
  by (intro inverts_container) (fastforce simp: meta_wf_def)

end
