(* ===== verification/Locus_Session.thy ===== *)
theory Locus_Session
  imports Js_Heap
begin

text \<open>
  The session manager of a locus (\<open>api/locus/locus.session.ts\<close>): sessions with a connection
  epoch, resumption by credential, fencing of the previous attachment, expiry after a grace period.

  The manager calls out to its environment: the attachment it fences, the resources it disposes
  of, the lifecycle listeners, the scheduler. The calls are appended to \<open>m_trace\<close> and the
  timers the scheduler holds are \<open>m_timers\<close>; the callbacks are taken to return without calling the
  manager back. Clock readings and the grace period are numbers of the language (bit patterns),
  with the sum of the two given by the environment.
\<close>

section \<open>State\<close>

datatype session_state = Attached | Disconnected | Expired | Revoked

datatype session_reject_code =
    AlreadyGone
  | CredentialUnknown
  | CredentialMissing
  | CredentialMalformed
  | CredentialExpired
  | CredentialRevoked
  | AttachmentFenced

datatype session_error = Rejected session_reject_code | MalformedGenerated | DuplicateGenerated

type_synonym session_id = js_string

record session =
  s_id :: session_id
  s_credential :: "js_string option"
  s_resumable :: bool
  s_principal :: "js_string option"
  s_state :: session_state
  s_epoch :: nat
  s_attachment :: "nat option"
  s_timer :: "nat option"
  s_disconnected_at :: "js_number option"
  s_expires_at :: "js_number option"
  s_reattachments :: nat
  s_fencings :: nat
  s_expiries :: nat
  s_disposed :: bool

record session_diagnostic =
  d_session :: session_id
  d_state :: session_state
  d_resumable :: bool
  d_epoch :: nat
  d_attached :: bool
  d_subscriptions :: nat
  d_disconnected_at :: "js_number option"
  d_expires_at :: "js_number option"
  d_reattachments :: nat
  d_fencings :: nat
  d_expiries :: nat

datatype attach_kind = Created | Reattached

datatype revoke_reason = Goodbye | LocusDisposed

datatype lifecycle_event =
    AttachedEvent session_diagnostic attach_kind
  | DetachedEvent session_diagnostic
  | ExpiredEvent session_diagnostic
  | RevokedEvent session_diagnostic revoke_reason
  | FencedEvent session_id nat

datatype session_effect =
    CallFence nat session_id nat
  | CallDispose session_id
  | Notify nat lifecycle_event

record manager =
  m_grace :: js_number
  m_sessions :: "(session_id \<times> session) list"
  m_credentials :: "(js_string \<times> session_id) list"
  m_listeners :: "nat list"
  m_rejected :: "(session_reject_code \<times> nat) list"
  m_reattachments :: nat
  m_fencings :: nat
  m_expiries :: nat
  m_disposed :: bool
  m_timers :: "(nat \<times> session_id) list"
  m_next_timer :: nat
  m_trace :: "session_effect list"

text \<open>What the environment answers during one operation.\<close>

record session_env =
  env_now :: js_number
  env_plus :: "js_number \<Rightarrow> js_number \<Rightarrow> js_number"
  env_subscriptions :: "session_id \<Rightarrow> nat"
  env_credential :: js_string

section \<open>Helpers\<close>

definition DEFAULT_GRACE_MS :: js_number where
  "DEFAULT_GRACE_MS = 0x40DD4C0000000000"

definition num_negative :: "js_number \<Rightarrow> bool" where
  "num_negative x \<longleftrightarrow> \<not> num_is_nan x \<and> drop_bit 63 x = 1 \<and> x \<noteq> num_neg_zero"

datatype manager_error = GraceMsInvalid

definition make_locus_session_manager :: "js_number option \<Rightarrow> manager_error + manager" where
  "make_locus_session_manager grace =
     (let g = (case grace of None \<Rightarrow> DEFAULT_GRACE_MS | Some x \<Rightarrow> x) in
      if \<not> num_finite g \<or> num_negative g then Inl GraceMsInvalid
      else Inr \<lparr> m_grace = g, m_sessions = [], m_credentials = [], m_listeners = [], m_rejected = [],
        m_reattachments = 0, m_fencings = 0, m_expiries = 0, m_disposed = False, m_timers = [],
        m_next_timer = 0, m_trace = [] \<rparr>)"

definition valid_credential :: "js_value \<Rightarrow> bool" where
  "valid_credential v = (case v of VStr s \<Rightarrow> 16 \<le> length s \<and> length s \<le> 512 | _ \<Rightarrow> False)"

definition find_session :: "manager \<Rightarrow> session_id \<Rightarrow> session option" where
  "find_session m k = map_of (m_sessions m) k"

text \<open>Writing the fields of a session the manager holds.\<close>

definition put_session :: "session \<Rightarrow> manager \<Rightarrow> manager" where
  "put_session r m = m\<lparr> m_sessions := put_field (s_id r) r (m_sessions m) \<rparr>"

definition session_diagnostic_of :: "session_env \<Rightarrow> session \<Rightarrow> session_diagnostic" where
  "session_diagnostic_of env r =
     \<lparr> d_session = s_id r, d_state = s_state r, d_resumable = s_resumable r, d_epoch = s_epoch r,
       d_attached = (s_attachment r \<noteq> None),
       d_subscriptions = (if s_disposed r then 0 else env_subscriptions env (s_id r)),
       d_disconnected_at = s_disconnected_at r, d_expires_at = s_expires_at r,
       d_reattachments = s_reattachments r, d_fencings = s_fencings r, d_expiries = s_expiries r \<rparr>"

definition session_emit :: "lifecycle_event \<Rightarrow> manager \<Rightarrow> manager" where
  "session_emit ev m = m\<lparr> m_trace := m_trace m @ map (\<lambda>l. Notify l ev) (m_listeners m) \<rparr>"

definition session_on_change :: "nat \<Rightarrow> manager \<Rightarrow> manager" where
  "session_on_change l m =
     (if m_disposed m then m
      else m\<lparr> m_listeners := (if l \<in> set (m_listeners m) then m_listeners m else m_listeners m @ [l]) \<rparr>)"

text \<open>The disposer \<open>session_on_change\<close> returns, with its own \<open>active\<close> flag.\<close>

definition stop_listening :: "nat \<Rightarrow> bool \<Rightarrow> manager \<Rightarrow> bool \<times> manager" where
  "stop_listening l active m =
     (if \<not> active then (False, m)
      else (False, m\<lparr> m_listeners := filter (\<lambda>k. k \<noteq> l) (m_listeners m) \<rparr>))"

definition session_reject :: "session_reject_code \<Rightarrow> manager \<Rightarrow> (session_error + 'a) \<times> manager" where
  "session_reject code m =
     (Inl (Rejected code),
      m\<lparr> m_rejected :=
        put_field code (case map_of (m_rejected m) code of None \<Rightarrow> 1 | Some n \<Rightarrow> Suc n) (m_rejected m) \<rparr>)"

definition dispose_resources :: "session \<times> manager \<Rightarrow> session \<times> manager" where
  "dispose_resources rm =
     (case rm of (r, m) \<Rightarrow>
        if s_disposed r then (r, m)
        else (r\<lparr> s_disposed := True \<rparr>, m\<lparr> m_trace := m_trace m @ [CallDispose (s_id r)] \<rparr>))"

text \<open>\<open>record.stopExpiry?.(); record.stopExpiry = undefined\<close>: the scheduler forgets the timer.\<close>

definition stop_expiry :: "session \<times> manager \<Rightarrow> session \<times> manager" where
  "stop_expiry rm =
     (case rm of (r, m) \<Rightarrow>
        (r\<lparr> s_timer := None \<rparr>, m\<lparr> m_timers := filter (\<lambda>(t, k). s_timer r \<noteq> Some t) (m_timers m) \<rparr>))"

definition expire :: "session_env \<Rightarrow> session \<Rightarrow> manager \<Rightarrow> manager" where
  "expire env r m =
     (if s_state r \<noteq> Disconnected then m
      else case stop_expiry (r, m) of (r1, m1) \<Rightarrow>
        (case dispose_resources
            (r1\<lparr> s_state := Expired, s_expires_at := None, s_expiries := Suc (s_expiries r1) \<rparr>,
             m1\<lparr> m_expiries := Suc (m_expiries m1) \<rparr>) of
           (r2, m2) \<Rightarrow> session_emit (ExpiredEvent (session_diagnostic_of env r2)) (put_session r2 m2)))"

definition schedule_expiry :: "session_env \<Rightarrow> session \<times> manager \<Rightarrow> session \<times> manager" where
  "schedule_expiry env rm =
     (case stop_expiry rm of (r, m) \<Rightarrow>
        (r\<lparr> s_disconnected_at := Some (env_now env),
            s_expires_at := Some (env_plus env (env_now env) (m_grace m)),
            s_timer := Some (m_next_timer m) \<rparr>,
         m\<lparr> m_timers := m_timers m @ [(m_next_timer m, s_id r)], m_next_timer := Suc (m_next_timer m) \<rparr>))"

section \<open>Operations\<close>

definition session_create ::
    "session_env \<Rightarrow> session_id \<Rightarrow> bool \<Rightarrow> nat \<Rightarrow> js_string option \<Rightarrow> manager \<Rightarrow>
     (session_error + session_id \<times> nat \<times> bool \<times> js_string option) \<times> manager" where
  "session_create env sid resumable attachment principal_id m =
     (if m_disposed m then (Inl (Rejected AlreadyGone), m)
      else if find_session m sid \<noteq> None then (Inl (Rejected CredentialUnknown), m)
      else if resumable \<and> \<not> valid_credential (VStr (env_credential env)) then (Inl MalformedGenerated, m)
      else if resumable \<and> map_of (m_credentials m) (env_credential env) \<noteq> None
        then (Inl DuplicateGenerated, m)
      else
        (let cred = (if resumable then Some (env_credential env) else None);
             r = \<lparr> s_id = sid, s_credential = cred, s_resumable = resumable, s_principal = principal_id,
               s_state = Attached, s_epoch = 1, s_attachment = Some attachment, s_timer = None,
               s_disconnected_at = None, s_expires_at = None, s_reattachments = 0, s_fencings = 0,
               s_expiries = 0, s_disposed = False \<rparr>;
             m1 = put_session r m;
             m2 = (case cred of None \<Rightarrow> m1
                   | Some c \<Rightarrow> m1\<lparr> m_credentials := put_field c sid (m_credentials m1) \<rparr>)
         in (Inr (sid, s_epoch r, resumable, cred), session_emit (AttachedEvent (session_diagnostic_of env r) Created) m2)))"

text \<open>The part of \<open>reattach\<close> after its checks.\<close>

definition reattach_session ::
    "session_env \<Rightarrow> session \<Rightarrow> nat \<Rightarrow> manager \<Rightarrow> (session_error + session_id \<times> nat \<times> bool) \<times> manager" where
  "reattach_session env r attachment m =
     (let (r1, m1) =
            (case s_attachment r of
               None \<Rightarrow> (r, m)
             | Some previous \<Rightarrow>
                 (r\<lparr> s_fencings := Suc (s_fencings r) \<rparr>,
                  session_emit (FencedEvent (s_id r) (s_epoch r))
                    (m\<lparr> m_trace := m_trace m @ [CallFence previous (s_id r) (s_epoch r)],
                        m_fencings := Suc (m_fencings m) \<rparr>)));
          (r2, m2) = stop_expiry (r1, m1);
          r3 = r2\<lparr> s_disconnected_at := None, s_expires_at := None, s_epoch := Suc (s_epoch r2),
            s_attachment := Some attachment, s_state := Attached,
            s_reattachments := Suc (s_reattachments r2) \<rparr>;
          m3 = put_session r3 (m2\<lparr> m_reattachments := Suc (m_reattachments m2) \<rparr>)
      in (Inr (s_id r3, s_epoch r3, s_resumable r3),
          session_emit (AttachedEvent (session_diagnostic_of env r3) Reattached) m3))"

definition reattach ::
    "session_env \<Rightarrow> js_value \<Rightarrow> nat \<Rightarrow> js_string option \<Rightarrow> manager \<Rightarrow>
     (session_error + session_id \<times> nat \<times> bool) \<times> manager" where
  "reattach env credential attachment principal_id m =
     (if m_disposed m then session_reject AlreadyGone m
      else if credential = VUndef \<or> credential = VNull \<or> credential = VStr [] then session_reject CredentialMissing m
      else if \<not> valid_credential credential then session_reject CredentialMalformed m
      else case (case credential of VStr c \<Rightarrow> map_of (m_credentials m) c | _ \<Rightarrow> None) of
        None \<Rightarrow> session_reject CredentialUnknown m
      | Some sid \<Rightarrow>
          (case find_session m sid of
             None \<Rightarrow> session_reject CredentialUnknown m
           | Some r \<Rightarrow>
               if s_state r = Expired then session_reject CredentialExpired m
               else if s_state r = Revoked then session_reject CredentialRevoked m
               else if s_principal r \<noteq> principal_id then session_reject CredentialUnknown m
               else reattach_session env r attachment m))"

definition detach :: "session_env \<Rightarrow> session_id \<Rightarrow> nat \<Rightarrow> manager \<Rightarrow> bool \<times> manager" where
  "detach env sid epoch m =
     (case find_session m sid of
        None \<Rightarrow> (False, m)
      | Some r \<Rightarrow>
          if s_state r \<noteq> Attached \<or> s_epoch r \<noteq> epoch then (False, m)
          else
            (let r1 = r\<lparr> s_attachment := None, s_state := Disconnected \<rparr>;
                 (r2, m2) = (if s_resumable r1 then schedule_expiry env (r1, m)
                   else (r1\<lparr> s_disconnected_at := Some (env_now env) \<rparr>, m));
                 m3 = session_emit (DetachedEvent (session_diagnostic_of env r2)) (put_session r2 m2)
             in (True, if s_resumable r2 then m3 else expire env r2 m3)))"

definition goodbye :: "session_env \<Rightarrow> session_id \<Rightarrow> nat \<Rightarrow> manager \<Rightarrow> (session_error + unit) \<times> manager" where
  "goodbye env sid epoch m =
     (case find_session m sid of
        None \<Rightarrow> session_reject AlreadyGone m
      | Some r \<Rightarrow>
          if s_state r = Expired \<or> s_state r = Revoked then session_reject AlreadyGone m
          else if s_state r \<noteq> Attached \<or> s_epoch r \<noteq> epoch then session_reject AttachmentFenced m
          else case stop_expiry (r, m) of (r1, m1) \<Rightarrow>
            (case dispose_resources
                (r1\<lparr> s_attachment := None, s_state := Revoked, s_disconnected_at := None,
                     s_expires_at := None \<rparr>, m1) of
               (r2, m2) \<Rightarrow> (Inr (), session_emit (RevokedEvent (session_diagnostic_of env r2) Goodbye) (put_session r2 m2))))"

definition is_active :: "session_id \<Rightarrow> nat \<Rightarrow> manager \<Rightarrow> bool" where
  "is_active sid epoch m =
     (case find_session m sid of
        None \<Rightarrow> False
      | Some r \<Rightarrow> s_state r = Attached \<and> s_epoch r = epoch \<and> s_attachment r \<noteq> None)"

definition revoke_session :: "session_env \<Rightarrow> session \<Rightarrow> manager \<Rightarrow> manager" where
  "revoke_session env r m =
     (case stop_expiry (r, m) of (r1, m1) \<Rightarrow>
        (let revoke = (s_state r1 \<noteq> Expired \<and> s_state r1 \<noteq> Revoked)
         in case dispose_resources
             (r1\<lparr> s_attachment := None, s_state := (if revoke then Revoked else s_state r1),
                  s_disconnected_at := None, s_expires_at := None \<rparr>, m1) of
            (r2, m2) \<Rightarrow>
              (if revoke then session_emit (RevokedEvent (session_diagnostic_of env r2) LocusDisposed) (put_session r2 m2)
               else put_session r2 m2)))"

definition session_dispose :: "session_env \<Rightarrow> manager \<Rightarrow> manager" where
  "session_dispose env m =
     (if m_disposed m then m
      else (fold (revoke_session env) (map snd (m_sessions m)) (m\<lparr> m_disposed := True \<rparr>))
        \<lparr> m_credentials := [], m_listeners := [] \<rparr>)"

text \<open>The scheduler runs the callback of one timer it still holds.\<close>

definition fire_timer :: "session_env \<Rightarrow> nat \<Rightarrow> manager \<Rightarrow> manager" where
  "fire_timer env t m =
     (case map_of (m_timers m) t of
        None \<Rightarrow> m
      | Some sid \<Rightarrow>
          (case find_session m sid of
             None \<Rightarrow> m
           | Some r \<Rightarrow> expire env r (m\<lparr> m_timers := filter (\<lambda>(u, k). u \<noteq> t) (m_timers m) \<rparr>)))"

section \<open>Diagnostics\<close>

record session_diagnostics =
  active_count :: nat
  attached_count :: nat
  disconnected_count :: nat
  expired_count :: nat
  revoked_count :: nat
  reattachment_total :: nat
  fencing_total :: nat
  expiry_total :: nat
  rejected_counts :: "(session_reject_code \<times> nat) list"
  session_list :: "session_diagnostic list"

definition session_debug :: "session_env \<Rightarrow> manager \<Rightarrow> session_diagnostics" where
  "session_debug env m =
     (let records = map snd (m_sessions m);
          count = (\<lambda>P. length (filter P records))
      in \<lparr> active_count = count (\<lambda>r. s_state r = Attached \<or> s_state r = Disconnected),
           attached_count = count (\<lambda>r. s_state r = Attached),
           disconnected_count = count (\<lambda>r. s_state r = Disconnected),
           expired_count = count (\<lambda>r. s_state r = Expired),
           revoked_count = count (\<lambda>r. s_state r = Revoked),
           reattachment_total = m_reattachments m, fencing_total = m_fencings m,
           expiry_total = m_expiries m, rejected_counts = m_rejected m,
           session_list = map (session_diagnostic_of env) records \<rparr>)"

end
