(* ===== verification/Session_Laws.thy ===== *)
theory Session_Laws
  imports Locus_Session
begin

text \<open>
  The laws of the session manager: its invariant, what a step may do to a session, and the four
  properties that follow. Every operation either leaves the sessions alone, adds one, or is a
  \<open>session_change\<close> of one session.
\<close>

section \<open>The invariant\<close>

definition session_ok :: "session \<Rightarrow> bool" where
  "session_ok r \<longleftrightarrow>
     (s_state r = Attached \<longleftrightarrow> s_attachment r \<noteq> None) \<and>
     (s_state r = Disconnected \<longleftrightarrow> s_timer r \<noteq> None) \<and>
     (s_state r = Disconnected \<longleftrightarrow> s_expires_at r \<noteq> None) \<and>
     (s_state r = Disconnected \<longrightarrow> s_resumable r) \<and>
     (s_disposed r \<longleftrightarrow> s_state r = Expired \<or> s_state r = Revoked) \<and>
     s_epoch r = Suc (s_reattachments r) \<and> s_fencings r \<le> s_reattachments r \<and>
     s_expiries r = of_bool (s_state r = Expired) \<and> (s_credential r \<noteq> None \<longleftrightarrow> s_resumable r)"

definition dispose_count :: "session_effect list \<Rightarrow> session_id \<Rightarrow> nat" where
  "dispose_count tr k = length (filter (\<lambda>e. e = CallDispose k) tr)"

abbreviation disposals :: "manager \<Rightarrow> session_id \<Rightarrow> nat" where
  "disposals m k \<equiv> dispose_count (m_trace m) k"

lemma dispose_count_simps [simp]:
  "dispose_count [] k = 0" "dispose_count (xs @ ys) k = dispose_count xs k + dispose_count ys k"
  "dispose_count (CallDispose j # xs) k = of_bool (k = j) + dispose_count xs k"
  "dispose_count (CallFence a i n # xs) k = dispose_count xs k"
  "dispose_count (Notify l ev # xs) k = dispose_count xs k"
  "dispose_count (map (\<lambda>l. Notify l ev) ls) k = 0"
  by (auto simp: dispose_count_def filter_empty_conv)

definition sessions_inv :: "manager \<Rightarrow> bool" where
  "sessions_inv m \<longleftrightarrow>
     distinct (map fst (m_sessions m)) \<and>
     (\<forall>k r. find_session m k = Some r \<longrightarrow> s_id r = k \<and> session_ok r) \<and>
     (\<forall>k. disposals m k = (case find_session m k of None \<Rightarrow> 0 | Some r \<Rightarrow> of_bool (s_disposed r)))"

definition timers_inv :: "manager \<Rightarrow> bool" where
  "timers_inv m \<longleftrightarrow>
     distinct (map fst (m_timers m)) \<and>
     (\<forall>t k. (t, k) \<in> set (m_timers m) \<longleftrightarrow> (\<exists>r. find_session m k = Some r \<and> s_timer r = Some t)) \<and>
     (\<forall>t k. (t, k) \<in> set (m_timers m) \<longrightarrow> t < m_next_timer m)"

definition totals_inv :: "manager \<Rightarrow> bool" where
  "totals_inv m \<longleftrightarrow>
     m_reattachments m = sum_list (map (s_reattachments \<circ> snd) (m_sessions m)) \<and>
     m_fencings m = sum_list (map (s_fencings \<circ> snd) (m_sessions m)) \<and>
     m_expiries m = sum_list (map (s_expiries \<circ> snd) (m_sessions m))"

definition credentials_inv :: "manager \<Rightarrow> bool" where
  "credentials_inv m \<longleftrightarrow>
     (\<forall>c k. map_of (m_credentials m) c = Some k \<longrightarrow>
        (\<exists>r. find_session m k = Some r \<and> s_credential r = Some c)) \<and>
     (if m_disposed m
      then m_credentials m = [] \<and> m_listeners m = [] \<and> (\<forall>k r. find_session m k = Some r \<longrightarrow> s_disposed r)
      else (\<forall>k r c. find_session m k = Some r \<longrightarrow> s_credential r = Some c \<longrightarrow>
              map_of (m_credentials m) c = Some k))"

abbreviation core_inv :: "manager \<Rightarrow> bool" where
  "core_inv m \<equiv> sessions_inv m \<and> timers_inv m \<and> totals_inv m"

definition manager_inv :: "manager \<Rightarrow> bool" where
  "manager_inv m \<longleftrightarrow> core_inv m \<and> credentials_inv m"

section \<open>One session changes\<close>

lemma find_put [simp]:
  "find_session (m\<lparr> m_sessions := put_field k r es \<rparr>) j = (if j = k then Some r else map_of es j)"
  by (simp add: find_session_def)

lemma stop_filter:
  assumes "timers_inv m" and "find_session m k = Some r"
  shows "filter (\<lambda>(t, j). s_timer r \<noteq> Some t) (m_timers m) = filter (\<lambda>(t, j). j \<noteq> k) (m_timers m)"
proof (rule filter_cong [OF refl])
  fix x assume x: "x \<in> set (m_timers m)"
  obtain t j where tj: "x = (t, j)" by (cases x)
  have "s_timer r = Some t \<longleftrightarrow> j = k"
  proof
    assume "s_timer r = Some t"
    then have "(t, k) \<in> set (m_timers m)" using assms by (auto simp: timers_inv_def)
    then show "j = k" using x tj assms(1) by (auto simp: timers_inv_def dest: eq_key_imp_eq_value)
  next
    assume "j = k"
    then show "s_timer r = Some t" using x tj assms by (auto simp: timers_inv_def)
  qed
  then show "(case x of (t, j) \<Rightarrow> s_timer r \<noteq> Some t) = (case x of (t, j) \<Rightarrow> j \<noteq> k)" by (simp add: tj)
qed

text \<open>
  \<open>session_change m k r m' r'\<close>: the manager \<open>m'\<close> is \<open>m\<close> with the session \<open>r\<close> under \<open>k\<close> replaced by
  \<open>r'\<close>, with the timers, the disposal calls and the counters moved accordingly.
\<close>

definition session_change :: "manager \<Rightarrow> session_id \<Rightarrow> session \<Rightarrow> manager \<Rightarrow> session \<Rightarrow> bool" where
  "session_change m k r m' r' \<longleftrightarrow>
     m_sessions m' = put_field k r' (m_sessions m) \<and> m_next_timer m \<le> m_next_timer m' \<and>
     m_timers m' = filter (\<lambda>(t, j). j \<noteq> k) (m_timers m) @ (case s_timer r' of None \<Rightarrow> [] | Some t \<Rightarrow> [(t, k)]) \<and>
     (\<forall>t. s_timer r' = Some t \<longrightarrow> m_next_timer m \<le> t \<and> t < m_next_timer m') \<and>
     (\<forall>j. disposals m' j = disposals m j + of_bool (j = k \<and> s_disposed r' \<and> \<not> s_disposed r)) \<and>
     m_reattachments m' + s_reattachments r = m_reattachments m + s_reattachments r' \<and>
     m_fencings m' + s_fencings r = m_fencings m + s_fencings r' \<and>
     m_expiries m' + s_expiries r = m_expiries m + s_expiries r' \<and>
     m_credentials m' = m_credentials m \<and> m_disposed m' = m_disposed m"

lemma change_find:
  assumes "session_change m k r m' r'"
  shows "find_session m' j = (if j = k then Some r' else find_session m j)"
  using assms by (simp add: session_change_def find_session_def)

lemma change_core:
  assumes inv: "core_inv m" and old: "find_session m k = Some r" and ch: "session_change m k r m' r'"
    and new: "s_id r' = k" "session_ok r'" "s_disposed r \<Longrightarrow> s_disposed r'"
  shows "core_inv m'"
proof (intro conjI)
  note find = change_find [OF ch]
  show "sessions_inv m'"
    using inv old ch new unfolding sessions_inv_def
    by (auto simp: find session_change_def put_field_distinct split: option.splits)
  have "distinct (map fst (filter (\<lambda>(t, j). j \<noteq> k) (m_timers m)))"
    using inv by (simp add: timers_inv_def distinct_map_filter)
  moreover have "t \<notin> fst ` set (filter (\<lambda>(t, j). j \<noteq> k) (m_timers m))" if "s_timer r' = Some t" for t
    using inv ch that by (fastforce simp: timers_inv_def session_change_def)
  ultimately have "distinct (map fst (m_timers m'))"
    using ch by (auto simp: session_change_def split: option.splits)
  moreover have "(t, j) \<in> set (m_timers m') \<longleftrightarrow> (\<exists>u. find_session m' j = Some u \<and> s_timer u = Some t)" for t j
    using inv ch by (auto simp: find session_change_def timers_inv_def split: option.splits)
  moreover have "t < m_next_timer m'" if tj: "(t, j) \<in> set (m_timers m')" for t j
    using inv ch tj by (fastforce simp: session_change_def timers_inv_def split: option.splits)
  ultimately show "timers_inv m'" by (simp add: timers_inv_def)
  have old': "map_of (m_sessions m) k = Some r" using old by (simp add: find_session_def)
  show "totals_inv m'"
    using inv ch old' put_field_sum [of "s_reattachments \<circ> snd" k r' "m_sessions m"]
      put_field_sum [of "s_fencings \<circ> snd" k r' "m_sessions m"]
      put_field_sum [of "s_expiries \<circ> snd" k r' "m_sessions m"]
    by (simp add: totals_inv_def session_change_def)
qed

lemma change_credentials:
  assumes inv: "credentials_inv m" and old: "find_session m k = Some r" and ch: "session_change m k r m' r'"
    and cred: "s_credential r' = s_credential r" and live: "\<not> m_disposed m"
  shows "credentials_inv m'"
proof -
  have e: "m_credentials m' = m_credentials m" "m_disposed m' = m_disposed m"
    using ch by (simp_all add: session_change_def)
  have bwd: "\<exists>u. find_session m j = Some u \<and> s_credential u = Some c"
    if "map_of (m_credentials m) c = Some j" for c j
    using inv that by (simp add: credentials_inv_def)
  have fwd: "map_of (m_credentials m) c = Some j"
    if "find_session m j = Some u" "s_credential u = Some c" for c j u
    using inv live that by (simp add: credentials_inv_def)
  have "\<exists>u. find_session m' j = Some u \<and> s_credential u = Some c"
    if q: "map_of (m_credentials m) c = Some j" for c j
    using bwd [OF q] old cred by (cases "j = k") (simp_all add: change_find [OF ch])
  moreover have "map_of (m_credentials m) c = Some j"
    if q: "find_session m' j = Some u" "s_credential u = Some c" for c j u
    using q fwd old cred by (cases "j = k") (simp_all add: change_find [OF ch])
  ultimately show ?thesis by (simp add: credentials_inv_def e live)
qed

section \<open>Every operation is such a change\<close>

lemma emit_simps [simp]:
  "m_sessions (session_emit ev m) = m_sessions m" "m_credentials (session_emit ev m) = m_credentials m"
  "m_listeners (session_emit ev m) = m_listeners m" "m_disposed (session_emit ev m) = m_disposed m"
  "m_timers (session_emit ev m) = m_timers m" "m_next_timer (session_emit ev m) = m_next_timer m"
  "m_reattachments (session_emit ev m) = m_reattachments m" "m_fencings (session_emit ev m) = m_fencings m"
  "m_expiries (session_emit ev m) = m_expiries m" "m_grace (session_emit ev m) = m_grace m"
  "disposals (session_emit ev m) k = disposals m k"
  by (simp_all add: session_emit_def)

lemmas session_defs = stop_expiry_def dispose_resources_def put_session_def schedule_expiry_def

lemma session_facts:
  assumes "core_inv m" and "find_session m k = Some r"
  shows "s_id r = k" "session_ok r" "filter (\<lambda>(t, j). s_timer r \<noteq> Some t) (m_timers m) = filter (\<lambda>(t, j). j \<noteq> k) (m_timers m)"
  using assms stop_filter [of m k r] by (auto simp: sessions_inv_def)

lemma no_timer_filter:
  assumes "timers_inv m" and "find_session m k = Some r" and "s_timer r = None"
  shows "filter (\<lambda>(t, j). j \<noteq> k) (m_timers m) = m_timers m"
  using assms by (auto simp: filter_id_conv timers_inv_def)

lemma expire_change:
  assumes inv: "core_inv m" and old: "find_session m k = Some r" and st: "s_state r = Disconnected"
  defines "r' \<equiv> r\<lparr> s_timer := None, s_state := Expired, s_expires_at := None,
    s_expiries := Suc (s_expiries r), s_disposed := True \<rparr>"
  shows "session_change m k r (expire env r m) r' \<and> s_id r' = k \<and> session_ok r'"
  using session_facts [OF inv old] st
  by (simp add: expire_def session_defs session_change_def session_ok_def r'_def Let_def)

lemma reattach_change:
  fixes a :: nat
  assumes inv: "core_inv m" and old: "find_session m k = Some r"
    and st: "s_state r = Attached \<or> s_state r = Disconnected"
  defines "r' \<equiv> r\<lparr> s_fencings := s_fencings r + of_bool (s_attachment r \<noteq> None), s_timer := None,
    s_disconnected_at := None, s_expires_at := None, s_epoch := Suc (s_epoch r),
    s_attachment := Some a, s_state := Attached, s_reattachments := Suc (s_reattachments r) \<rparr>"
  shows "session_change m k r (snd (reattach_session env r a m)) r' \<and> s_id r' = k \<and> session_ok r'"
proof -
  have "session_change m k r (snd (reattach_session env r a m)) r'"
    using session_facts [OF inv old] st
    by (cases "s_attachment r")
      (simp_all add: reattach_session_def session_defs session_change_def session_ok_def r'_def Let_def)
  then show ?thesis
    using session_facts [OF inv old] st by (auto simp: session_ok_def r'_def)
qed

lemma goodbye_change:
  assumes inv: "core_inv m" and old: "find_session m k = Some r" and st: "s_state r = Attached"
  defines "r' \<equiv> r\<lparr> s_timer := None, s_attachment := None, s_state := Revoked,
    s_disconnected_at := None, s_expires_at := None, s_disposed := True \<rparr>"
  shows "session_change m k r (snd (goodbye env k (s_epoch r) m)) r' \<and> s_id r' = k \<and> session_ok r'"
  using session_facts [OF inv old] st old
  by (simp add: goodbye_def session_defs session_change_def session_ok_def r'_def Let_def)

definition revoked :: "session \<Rightarrow> session" where
  "revoked r = r\<lparr> s_timer := None, s_attachment := None,
     s_state := (if s_state r = Expired then Expired else Revoked),
     s_disconnected_at := None, s_expires_at := None, s_disposed := True \<rparr>"

lemma revoke_change:
  assumes inv: "core_inv m" and old: "find_session m k = Some r"
  shows "session_change m k r (revoke_session env r m) (revoked r) \<and> s_id (revoked r) = k \<and> session_ok (revoked r)"
  using session_facts [OF inv old]
  by (cases r; cases "s_state r")
    (simp_all add: revoke_session_def session_defs session_change_def session_ok_def revoked_def Let_def)

lemma detach_change:
  assumes inv: "core_inv m" and old: "find_session m k = Some r" and st: "s_state r = Attached"
  shows "\<exists>r'. session_change m k r (snd (detach env k (s_epoch r) m)) r' \<and> s_id r' = k \<and> session_ok r' \<and>
    s_state r' = (if s_resumable r then Disconnected else Expired) \<and> s_epoch r' = s_epoch r \<and>
    s_credential r' = s_credential r \<and> \<not> s_disposed r"
proof (cases "s_resumable r")
  case True
  define r' where "r' = r\<lparr> s_attachment := None, s_state := Disconnected,
    s_disconnected_at := Some (env_now env),
    s_expires_at := Some (env_plus env (env_now env) (m_grace m)), s_timer := Some (m_next_timer m) \<rparr>"
  have "session_change m k r (snd (detach env k (s_epoch r) m)) r'"
    using session_facts [OF inv old] st old True
    by (simp add: detach_def session_defs session_change_def session_ok_def r'_def Let_def)
  then show ?thesis
    using session_facts [OF inv old] st True by (intro exI [of _ r']) (simp add: session_ok_def r'_def)
next
  case False
  define r' where "r' = r\<lparr> s_attachment := None, s_disconnected_at := Some (env_now env),
    s_timer := None, s_state := Expired, s_expires_at := None,
    s_expiries := Suc (s_expiries r), s_disposed := True \<rparr>"
  have idem: "put_field k u (put_field k w es) = put_field k u es" for u w :: session and es
    by (induction es) auto
  have "session_change m k r (snd (detach env k (s_epoch r) m)) r'"
    using session_facts [OF inv old] st old False
    by (simp add: detach_def expire_def session_defs session_change_def session_ok_def r'_def idem Let_def)
  then show ?thesis
    using session_facts [OF inv old] st False by (intro exI [of _ r']) (simp add: session_ok_def r'_def)
qed

lemma create_inv:
  assumes inv: "manager_inv m"
  shows "manager_inv (snd (session_create env k res a p m))"
proof (cases "m_disposed m \<or> find_session m k \<noteq> None \<or> res \<and> \<not> valid_credential (VStr (env_credential env))
    \<or> res \<and> map_of (m_credentials m) (env_credential env) \<noteq> None")
  case True
  then show ?thesis using inv by (auto simp: session_create_def)
next
  case False
  then have no: "\<not> m_disposed m" "find_session m k = None"
    and cred: "res \<Longrightarrow> map_of (m_credentials m) (env_credential env) = None" by auto
  define m' where "m' = snd (session_create env k res a p m)"
  define r where "r = \<lparr> s_id = k, s_credential = (if res then Some (env_credential env) else None),
    s_resumable = res, s_principal = p, s_state = Attached, s_epoch = 1, s_attachment = Some a,
    s_timer = None, s_disconnected_at = None, s_expires_at = None, s_reattachments = 0, s_fencings = 0,
    s_expiries = 0, s_disposed = False \<rparr>"
  have m': "m_sessions m' = put_field k r (m_sessions m)" "m_timers m' = m_timers m"
    "m_next_timer m' = m_next_timer m" "\<And>j. disposals m' j = disposals m j" "m_disposed m' = m_disposed m"
    "m_reattachments m' = m_reattachments m" "m_fencings m' = m_fencings m" "m_expiries m' = m_expiries m"
    "m_credentials m' = (if res then put_field (env_credential env) k (m_credentials m) else m_credentials m)"
    using False by (auto simp: m'_def session_create_def Let_def put_session_def r_def)
  have find: "find_session m' j = (if j = k then Some r else find_session m j)" for j
    by (simp add: find_session_def m')
  have absent: "map_of (m_sessions m) k = None" using no by (simp add: find_session_def)
  have "sessions_inv m'"
  proof -
    have "session_ok r" "s_id r = k" "\<not> s_disposed r" by (simp_all add: session_ok_def r_def)
    then show ?thesis
      using inv no by (simp add: manager_inv_def sessions_inv_def find m' put_field_distinct)
  qed
  moreover have "timers_inv m'"
    using inv no by (fastforce simp: manager_inv_def timers_inv_def find m' r_def)
  moreover have "totals_inv m'"
    using inv absent put_field_sum [of "s_reattachments \<circ> snd" k r "m_sessions m"]
      put_field_sum [of "s_fencings \<circ> snd" k r "m_sessions m"]
      put_field_sum [of "s_expiries \<circ> snd" k r "m_sessions m"]
    by (simp add: manager_inv_def totals_inv_def m') (simp add: r_def)
  moreover have "credentials_inv m'"
  proof -
    have bwd: "\<exists>u. find_session m j = Some u \<and> s_credential u = Some c"
      if "map_of (m_credentials m) c = Some j" for c j
      using inv that by (simp add: manager_inv_def credentials_inv_def)
    have fwd: "map_of (m_credentials m) c = Some j"
      if "find_session m j = Some u" "s_credential u = Some c" for c j u
      using inv no that by (simp add: manager_inv_def credentials_inv_def)
    have "\<exists>u. find_session m' j = Some u \<and> s_credential u = Some c"
      if q: "map_of (m_credentials m') c = Some j" for c j
    proof (cases "res \<and> c = env_credential env")
      case True
      then show ?thesis using q by (simp add: find m' r_def)
    next
      case False
      then have "map_of (m_credentials m) c = Some j" using q by (auto simp: m' split: if_splits)
      from bwd [OF this] show ?thesis using no by (auto simp: find)
    qed
    moreover have "map_of (m_credentials m') c = Some j"
      if q: "find_session m' j = Some u" "s_credential u = Some c" for c j u
    proof (cases "j = k")
      case True
      then show ?thesis using q by (auto simp: find m' r_def split: if_splits)
    next
      case False
      then have "map_of (m_credentials m) c = Some j" using q fwd by (simp add: find)
      then show ?thesis using cred by (auto simp: m')
    qed
    ultimately show ?thesis using no by (simp add: credentials_inv_def m')
  qed
  ultimately show ?thesis unfolding m'_def [symmetric] by (simp add: manager_inv_def)
qed

lemma revoke_all:
  assumes "core_inv m" and "distinct (map s_id rs)" and "\<forall>r \<in> set rs. find_session m (s_id r) = Some r"
  shows "core_inv (fold (revoke_session env) rs m) \<and>
    (\<forall>k. find_session (fold (revoke_session env) rs m) k =
      (if k \<in> s_id ` set rs then map_option revoked (find_session m k) else find_session m k)) \<and>
    m_disposed (fold (revoke_session env) rs m) = m_disposed m"
  using assms
proof (induction rs arbitrary: m)
  case (Cons r rs)
  let ?m = "revoke_session env r m"
  have ch: "session_change m (s_id r) r ?m (revoked r)" "s_id (revoked r) = s_id r" "session_ok (revoked r)"
    using revoke_change [of m "s_id r" r env] Cons.prems by auto
  have old: "find_session m (s_id r) = Some r" using Cons.prems(3) by simp
  have core: "core_inv ?m"
    by (rule change_core [OF Cons.prems(1) old ch]) (simp add: revoked_def)
  have "find_session ?m (s_id u) = Some u" if u: "u \<in> set rs" for u
  proof -
    have "s_id u \<noteq> s_id r" using Cons.prems(2) imageI [OF u, of s_id] by auto
    moreover have "find_session m (s_id u) = Some u" using Cons.prems(3) u by simp
    ultimately show ?thesis by (simp add: change_find [OF ch(1)])
  qed
  then have "\<forall>u \<in> set rs. find_session ?m (s_id u) = Some u" by blast
  note IH = Cons.IH [OF core _ this]
  have dis: "m_disposed ?m = m_disposed m" using ch(1) by (simp add: session_change_def)
  have r: "find_session m (s_id r) = Some r" "s_id r \<notin> s_id ` set rs" "distinct (map s_id rs)"
    using Cons.prems by auto
  have "find_session (fold (revoke_session env) rs ?m) k =
      (if k \<in> s_id ` set (r # rs) then map_option revoked (find_session m k) else find_session m k)" for k
    using IH [OF r(3)] r by (cases "k = s_id r") (simp_all add: change_find [OF ch(1)])
  then show ?case using IH [OF r(3)] dis by simp
qed simp

section \<open>Reachable managers\<close>

inductive session_step :: "manager \<Rightarrow> manager \<Rightarrow> bool" where
  create: "session_step m (snd (session_create env k res a p m))"
| reattach: "session_step m (snd (reattach env c a p m))"
| detach: "session_step m (snd (detach env k e m))"
| goodbye: "session_step m (snd (goodbye env k e m))"
| fire: "session_step m (fire_timer env t m)"
| listen: "session_step m (session_on_change l m)"
| unlisten: "session_step m (snd (stop_listening l active m))"
| dispose: "session_step m (session_dispose env m)"

inductive_cases session_stepE: "session_step m m'"

abbreviation session_steps :: "manager \<Rightarrow> manager \<Rightarrow> bool" where
  "session_steps \<equiv> session_step\<^sup>*\<^sup>*"

text \<open>
  What a step may do to one session: nothing ends an epoch early or reopens an ended session.
\<close>

definition session_later :: "session \<Rightarrow> session \<Rightarrow> bool" where
  "session_later r r' \<longleftrightarrow>
     s_epoch r \<le> s_epoch r' \<and> s_credential r' = s_credential r \<and>
     (s_state r = Expired \<or> s_state r = Revoked \<longrightarrow> s_state r' = s_state r \<and> s_epoch r' = s_epoch r) \<and>
     (s_epoch r' = s_epoch r \<longrightarrow> s_state r \<noteq> Attached \<longrightarrow> s_state r' \<noteq> Attached)"

lemma session_later_refl: "session_later r r"
  by (simp add: session_later_def)

lemma session_later_trans: "session_later r s \<Longrightarrow> session_later s t \<Longrightarrow> session_later r t"
  by (auto simp: session_later_def)

definition manager_later :: "manager \<Rightarrow> manager \<Rightarrow> bool" where
  "manager_later m m' \<longleftrightarrow>
     (\<forall>k r. find_session m k = Some r \<longrightarrow> (\<exists>r'. find_session m' k = Some r' \<and> session_later r r'))"

lemma same_sessions:
  assumes "manager_inv m" and "m_sessions m' = m_sessions m" and "m_timers m' = m_timers m"
    and "m_next_timer m' = m_next_timer m" and "m_trace m' = m_trace m"
    and "m_reattachments m' = m_reattachments m" and "m_fencings m' = m_fencings m"
    and "m_expiries m' = m_expiries m" and "m_credentials m' = m_credentials m"
    and "m_disposed m' = m_disposed m" and "m_disposed m \<Longrightarrow> m_listeners m' = []"
  shows "manager_inv m' \<and> manager_later m m'"
proof -
  have f: "find_session m' = find_session m" using assms by (simp add: find_session_def fun_eq_iff)
  show ?thesis
    using assms by (simp add: manager_inv_def sessions_inv_def timers_inv_def totals_inv_def
        credentials_inv_def manager_later_def f session_later_refl split: if_splits)
qed

lemma change_inv:
  assumes inv: "manager_inv m" and old: "find_session m k = Some r"
    and ch: "session_change m k r m' r' \<and> s_id r' = k \<and> session_ok r'"
    and later: "session_later r r'" and live: "\<not> s_disposed r"
  shows "manager_inv m' \<and> manager_later m m'"
proof -
  have "\<not> m_disposed m" using inv old live by (auto simp: manager_inv_def credentials_inv_def split: if_splits)
  then have "credentials_inv m'"
    using change_credentials [of m k r m' r'] inv old ch later by (simp add: manager_inv_def session_later_def)
  moreover have "core_inv m'"
    by (rule change_core [of m k r m' r']) (use inv old ch live in \<open>simp_all add: manager_inv_def\<close>)
  ultimately show ?thesis
    using old later by (auto simp: manager_inv_def manager_later_def change_find [of m k r m' r'] ch session_later_refl)
qed

lemma rejected_step:
  assumes "manager_inv m"
  shows "manager_inv (m\<lparr> m_rejected := q \<rparr>) \<and> manager_later m (m\<lparr> m_rejected := q \<rparr>)"
  by (rule same_sessions [OF assms])
    (use assms in \<open>simp_all add: manager_inv_def credentials_inv_def\<close>)

lemma live_session:
  assumes "manager_inv m" and "find_session m k = Some r" and "s_state r = Attached \<or> s_state r = Disconnected"
  shows "core_inv m" "session_ok r" "\<not> s_disposed r"
  using session_facts(2) [of m k r] assms by (auto simp: manager_inv_def session_ok_def)

lemma create_later: "manager_later m (snd (session_create env k res a p m))"
proof -
  have "find_session (snd (session_create env k res a p m)) j = find_session m j" if "j \<noteq> k \<or> find_session m k \<noteq> None" for j
    using that by (auto simp: session_create_def Let_def put_session_def find_session_def split: option.splits)
  then show ?thesis
    unfolding manager_later_def by (metis option.distinct(1) session_later_refl)
qed

lemma reattach_step:
  assumes inv: "manager_inv m"
  shows "manager_inv (snd (reattach env c a p m)) \<and> manager_later m (snd (reattach env c a p m))"
proof -
  note rej = rejected_step [OF inv]
  have "manager_inv (snd (reattach_session env r a m)) \<and> manager_later m (snd (reattach_session env r a m))"
    if q: "find_session m k = Some r" "s_state r \<noteq> Expired" "s_state r \<noteq> Revoked" for k r
  proof -
    have st: "s_state r = Attached \<or> s_state r = Disconnected" using q by (cases "s_state r") auto
    note live = live_session [OF inv q(1) st]
    show ?thesis
      by (rule change_inv [OF inv q(1) reattach_change [OF live(1) q(1) st] _ live(3)])
        (use q st in \<open>auto simp: session_later_def\<close>)
  qed
  then show ?thesis
    using rej by (auto simp: reattach_def session_reject_def split: js_value.splits option.splits)
qed

lemma detach_step:
  assumes inv: "manager_inv m"
  shows "manager_inv (snd (detach env k e m)) \<and> manager_later m (snd (detach env k e m))"
proof (cases "\<exists>r. find_session m k = Some r \<and> s_state r = Attached \<and> s_epoch r = e")
  case True
  then obtain r where r: "find_session m k = Some r" "s_state r = Attached" "s_epoch r = e" by auto
  have core: "core_inv m" using inv by (simp add: manager_inv_def)
  obtain r' where ch: "session_change m k r (snd (detach env k (s_epoch r) m)) r'" "s_id r' = k" "session_ok r'"
    "s_state r' = (if s_resumable r then Disconnected else Expired)" "s_epoch r' = s_epoch r"
    "s_credential r' = s_credential r" "\<not> s_disposed r"
    using detach_change [OF core r(1,2), of env] by blast
  show ?thesis
    unfolding r(3) [symmetric]
    by (rule change_inv [OF inv r(1)]) (use ch r in \<open>auto simp: session_later_def\<close>)
next
  case False
  then have "snd (detach env k e m) = m" by (auto simp: detach_def split: option.splits)
  then show ?thesis using inv same_sessions [OF inv] by (auto simp: manager_later_def session_later_refl)
qed

lemma goodbye_step:
  assumes inv: "manager_inv m"
  shows "manager_inv (snd (goodbye env k e m)) \<and> manager_later m (snd (goodbye env k e m))"
proof (cases "\<exists>r. find_session m k = Some r \<and> s_state r = Attached \<and> s_epoch r = e")
  case True
  then obtain r where r: "find_session m k = Some r" "s_state r = Attached" "s_epoch r = e" by auto
  note live = live_session [OF inv r(1) disjI1 [OF r(2)]]
  show ?thesis
    unfolding r(3) [symmetric]
    by (rule change_inv [OF inv r(1) goodbye_change [OF live(1) r(1,2)] _ live(3)])
      (simp add: session_later_def r(2))
next
  case False
  then show ?thesis
    using rejected_step [OF inv] by (auto simp: goodbye_def session_reject_def split: option.splits)
qed

lemma fire_expire:
  assumes "s_timer r = Some t" and "s_state r = Disconnected"
  shows "expire env r (m\<lparr> m_timers := filter (\<lambda>(u, k). u \<noteq> t) (m_timers m) \<rparr>) = expire env r m"
proof -
  have "filter (\<lambda>x. fst x \<noteq> t \<and> t \<noteq> fst x) (m_timers m) = filter (\<lambda>x. t \<noteq> fst x) (m_timers m)"
    by (rule filter_cong) auto
  then show ?thesis using assms by (simp add: expire_def stop_expiry_def case_prod_unfold)
qed

lemma fire_result:
  assumes inv: "manager_inv m" and t: "(t, k) \<in> set (m_timers m)"
  obtains r where "find_session m k = Some r" "s_timer r = Some t" "s_state r = Disconnected"
    "fire_timer env t m = expire env r m"
proof -
  obtain r where r: "find_session m k = Some r" "s_timer r = Some t"
    using inv t by (auto simp: manager_inv_def timers_inv_def)
  have st: "s_state r = Disconnected"
    using session_facts(2) [OF _ r(1)] inv r(2) by (simp add: manager_inv_def session_ok_def)
  have "map_of (m_timers m) t = Some k"
    using inv t by (simp add: manager_inv_def timers_inv_def)
  then have "fire_timer env t m = expire env r m"
    using r by (simp add: fire_timer_def fire_expire [OF r(2) st])
  then show ?thesis using that r st by blast
qed

lemma fire_step:
  assumes inv: "manager_inv m"
  shows "manager_inv (fire_timer env t m) \<and> manager_later m (fire_timer env t m)"
proof (cases "map_of (m_timers m) t")
  case None
  then show ?thesis using inv by (simp add: fire_timer_def manager_later_def session_later_refl)
next
  case (Some k)
  obtain r where r: "find_session m k = Some r" "s_timer r = Some t" "s_state r = Disconnected"
    "fire_timer env t m = expire env r m"
    using fire_result [OF inv map_of_SomeD [OF Some]] by metis
  note live = live_session [OF inv r(1) disjI2 [OF r(3)]]
  show ?thesis
    unfolding r(4)
    by (rule change_inv [OF inv r(1) expire_change [OF live(1) r(1,3)] _ live(3)])
      (simp add: session_later_def r(3))
qed

lemma dispose_step:
  assumes inv: "manager_inv m"
  shows "manager_inv (session_dispose env m) \<and> manager_later m (session_dispose env m)"
proof (cases "m_disposed m")
  case False
  define m1 where "m1 = m\<lparr> m_disposed := True \<rparr>"
  define rs where "rs = map snd (m_sessions m)"
  define m2 where "m2 = fold (revoke_session env) rs m1"
  have f: "find_session m1 = find_session m" by (simp add: m1_def find_session_def fun_eq_iff)
  have core: "core_inv m1"
    using inv by (simp add: manager_inv_def sessions_inv_def timers_inv_def totals_inv_def f)
      (simp add: m1_def)
  have d: "distinct (map fst (m_sessions m))" using inv by (simp add: manager_inv_def sessions_inv_def)
  have held: "find_session m k = Some r \<and> s_id r = k" if "(k, r) \<in> set (m_sessions m)" for k r
    using inv that d by (simp add: manager_inv_def sessions_inv_def find_session_def)
  have "map s_id rs = map fst (m_sessions m)"
    using held by (auto simp: rs_def)
  then have "distinct (map s_id rs)" using d by simp
  moreover have "\<forall>r \<in> set rs. find_session m1 (s_id r) = Some r"
    using held by (auto simp: rs_def f)
  ultimately have m2: "core_inv m2" "m_disposed m2 = True"
    "\<And>k. find_session m2 k = (if k \<in> s_id ` set rs then map_option revoked (find_session m k) else find_session m k)"
    using revoke_all [OF core, of rs env] by (simp_all add: m2_def f) (simp add: m1_def)
  have all: "k \<in> s_id ` set rs" if "find_session m k = Some r" for k r
  proof -
    have "(k, r) \<in> set (m_sessions m)" using that by (simp add: find_session_def map_of_SomeD)
    then show ?thesis using held by (force simp: rs_def)
  qed
  have gone: "s_disposed r" if "find_session m2 k = Some r" for k r
    using that all by (auto simp: m2(3) revoked_def split: if_splits)
  define m3 where "m3 = m2\<lparr> m_credentials := [], m_listeners := [] \<rparr>"
  have f3: "find_session m3 = find_session m2" by (simp add: m3_def find_session_def fun_eq_iff)
  have "core_inv m3"
    using m2(1) by (simp add: sessions_inv_def timers_inv_def totals_inv_def f3) (simp add: m3_def)
  moreover have "credentials_inv m3"
    using m2(2) gone by (simp add: credentials_inv_def f3) (simp add: m3_def)
  moreover have "manager_later m m3"
    using all by (auto simp: manager_later_def f3 m2(3) session_later_def revoked_def)
  moreover have "session_dispose env m = m3"
    using False by (simp add: session_dispose_def m3_def m2_def m1_def rs_def)
  ultimately show ?thesis by (simp add: manager_inv_def)
qed (use inv in \<open>simp add: session_dispose_def manager_later_def session_later_refl\<close>)

lemma listeners_step:
  assumes "manager_inv m" and "m_disposed m \<Longrightarrow> ls = []"
  shows "manager_inv (m\<lparr> m_listeners := ls \<rparr>) \<and> manager_later m (m\<lparr> m_listeners := ls \<rparr>)"
  by (rule same_sessions [OF assms(1)]) (use assms(2) in simp_all)

lemma unchanged_step: "manager_inv m \<Longrightarrow> manager_inv m \<and> manager_later m m"
  by (simp add: manager_later_def session_later_refl)

lemma session_step_inv:
  assumes "session_step m m'" and inv: "manager_inv m"
  shows "manager_inv m' \<and> manager_later m m'"
  using assms(1)
proof (cases rule: session_step.cases)
  case (create env k res a p)
  then show ?thesis using create_inv [OF inv] create_later by blast
next
  case (listen l)
  then show ?thesis
    using listeners_step [OF inv] unchanged_step [OF inv] by (auto simp: session_on_change_def)
next
  case (unlisten l active)
  have gone: "m_disposed m \<Longrightarrow> m_listeners m = []"
    using inv by (simp add: manager_inv_def credentials_inv_def)
  show ?thesis
    unfolding unlisten using listeners_step [OF inv] unchanged_step [OF inv] gone
    by (simp add: stop_listening_def)
qed (use reattach_step [OF inv] detach_step [OF inv] goodbye_step [OF inv] fire_step [OF inv]
    dispose_step [OF inv] in \<open>simp_all\<close>)

lemma manager_later_trans: "manager_later m m' \<Longrightarrow> manager_later m' m'' \<Longrightarrow> manager_later m m''"
  unfolding manager_later_def by (meson session_later_trans)

lemma session_steps_inv:
  assumes "session_steps m m'" and "manager_inv m"
  shows "manager_inv m' \<and> manager_later m m'"
  using assms
proof (induction rule: rtranclp_induct)
  case base
  then show ?case by (simp add: manager_later_def session_later_refl)
next
  case (step m' m'')
  then show ?case using session_step_inv [OF step.hyps(2)] manager_later_trans by blast
qed

lemma initial_manager_inv:
  assumes "make_locus_session_manager g = Inr m"
  shows "manager_inv m"
  using assms
  by (auto simp: make_locus_session_manager_def Let_def manager_inv_def sessions_inv_def timers_inv_def
      totals_inv_def credentials_inv_def find_session_def split: if_splits)

text \<open>
  C5: in every reachable state of the session manager, an attached session and only an attached
  one has an attachment; a disconnected session and only a disconnected one has a pending expiry
  timer, and that timer belongs to it alone; a session has released its resources exactly when it
  has expired or been revoked, and then exactly once; its epoch counts its reattachments; the
  totals are the sums over the sessions; and until the manager is disposed each credential leads
  to the one session that holds it.
\<close>

theorem session_manager_invariant:
  assumes "make_locus_session_manager g = Inr m0" and "session_steps m0 m"
  shows "manager_inv m"
  using session_steps_inv [OF assms(2) initial_manager_inv [OF assms(1)]] by simp

text \<open>
  C14: a connection epoch that has lost its session, by being fenced, detached, revoked or
  expired, never becomes active again, whatever the manager does later; and a session has at
  most one active epoch.
\<close>

theorem lost_epoch_stays_lost:
  assumes "make_locus_session_manager g = Inr m0" and "session_steps m0 m1" and "is_active k e m1"
    and "session_steps m1 m2" and "\<not> is_active k e m2" and "session_steps m2 m3"
  shows "\<not> is_active k e m3 \<and> (\<forall>e'. is_active k e' m1 \<longrightarrow> e' = e)"
proof -
  have inv1: "manager_inv m1" using session_steps_inv [OF assms(2) initial_manager_inv [OF assms(1)]] by simp
  note s12 = session_steps_inv [OF assms(4) inv1]
  then have inv2: "manager_inv m2" by simp
  note s23 = session_steps_inv [OF assms(6) inv2]
  obtain r1 where r1: "find_session m1 k = Some r1" "s_state r1 = Attached" "s_epoch r1 = e"
    using assms(3) by (auto simp: is_active_def split: option.splits)
  obtain r2 where r2: "find_session m2 k = Some r2" "session_later r1 r2"
    using s12 r1 by (auto simp: manager_later_def)
  obtain r3 where r3: "find_session m3 k = Some r3" "session_later r2 r3"
    using s23 r2 by (auto simp: manager_later_def)
  have "session_ok r2" using session_facts(2) [OF _ r2(1)] inv2 by (simp add: manager_inv_def)
  then have "s_state r2 \<noteq> Attached \<or> s_epoch r2 \<noteq> e"
    using assms(5) r2(1) by (auto simp: is_active_def session_ok_def)
  then have "s_state r3 \<noteq> Attached \<or> s_epoch r3 \<noteq> e"
    using r1 r2(2) r3(2) by (auto simp: session_later_def)
  then show ?thesis using r1 r3(1) by (auto simp: is_active_def)
qed

text \<open>Running every pending timer once.\<close>

lemma expire_all:
  assumes "manager_inv m" and "distinct ts" and "set ts \<subseteq> fst ` set (m_timers m)"
  shows "manager_inv (fold (fire_timer env) ts m) \<and>
    fst ` set (m_timers (fold (fire_timer env) ts m)) = fst ` set (m_timers m) - set ts \<and>
    (\<forall>k r. find_session m k = Some r \<longrightarrow> (\<exists>r'. find_session (fold (fire_timer env) ts m) k = Some r' \<and>
       s_state r' = (if \<exists>t \<in> set ts. s_timer r = Some t then Expired else s_state r)))"
  using assms
proof (induction ts arbitrary: m)
  case (Cons t ts)
  let ?m = "fire_timer env t m"
  obtain k where k: "(t, k) \<in> set (m_timers m)" using Cons.prems(3) by auto
  obtain r where r: "find_session m k = Some r" "s_timer r = Some t" "s_state r = Disconnected"
    "?m = expire env r m" using fire_result [OF Cons.prems(1) k] by metis
  define r' where "r' = r\<lparr> s_timer := None, s_state := Expired, s_expires_at := None,
    s_expiries := Suc (s_expiries r), s_disposed := True \<rparr>"
  have ch: "session_change m k r ?m r'"
    unfolding r(4) r'_def using expire_change [OF _ r(1,3), of env] Cons.prems(1)
    by (simp add: manager_inv_def)
  note inv = Cons.prems(1)
  have inv': "manager_inv ?m" using fire_step [OF inv] by simp
  have only: "s_timer u = Some t \<longleftrightarrow> j = k" if "find_session m j = Some u" for j u
    using inv k r(1,2) that unfolding manager_inv_def timers_inv_def
    by (metis eq_key_imp_eq_value option.inject)
  have timers: "fst ` set (m_timers ?m) = fst ` set (m_timers m) - {t}"
  proof -
    have "(u, j) \<in> set (m_timers ?m) \<longleftrightarrow> (u, j) \<in> set (m_timers m) \<and> u \<noteq> t" for u j
      using ch k inv by (auto simp: session_change_def r'_def manager_inv_def timers_inv_def
          dest: eq_key_imp_eq_value)
    then show ?thesis by force
  qed
  have sub: "set ts \<subseteq> fst ` set (m_timers ?m)" using Cons.prems timers by auto
  have dist: "distinct ts" "t \<notin> set ts" using Cons.prems(2) by auto
  note IH = Cons.IH [OF inv' dist(1) sub]
  note found = IH [THEN conjunct2, THEN conjunct2, rule_format]
  have "\<exists>u'. find_session (fold (fire_timer env) ts ?m) j = Some u' \<and>
      s_state u' = (if \<exists>x \<in> set (t # ts). s_timer u = Some x then Expired else s_state u)"
    if u: "find_session m j = Some u" for j u
  proof (cases "j = k")
    case True
    have "find_session ?m k = Some r'" by (simp add: change_find [OF ch])
    moreover have "u = r" using True u r(1) by simp
    ultimately show ?thesis
      using found [of k r'] True r(2) by (simp add: r'_def)
  next
    case False
    then have "find_session ?m j = Some u" using u by (simp add: change_find [OF ch])
    then show ?thesis using found [of j u] False only [OF u] by simp
  qed
  then show ?case using IH timers by auto
qed auto

text \<open>
  C18: no disconnected session outlives its grace period: from any reachable state, when the
  scheduler has run the timers that are pending, no timer is left, every session that was
  disconnected has expired and has released its resources exactly once, and every other session
  is in the state it was in.
\<close>

theorem disconnected_sessions_expire:
  assumes "make_locus_session_manager g = Inr m0" and "session_steps m0 m"
    and "find_session m k = Some r"
  shows "\<exists>r'. find_session (fold (fire_timer env) (map fst (m_timers m)) m) k = Some r' \<and>
    m_timers (fold (fire_timer env) (map fst (m_timers m)) m) = [] \<and>
    s_state r' = (if s_state r = Disconnected then Expired else s_state r) \<and>
    (s_state r = Disconnected \<longrightarrow>
       disposals (fold (fire_timer env) (map fst (m_timers m)) m) k = 1)"
proof -
  have inv: "manager_inv m"
    using session_steps_inv [OF assms(2) initial_manager_inv [OF assms(1)]] by simp
  let ?m = "fold (fire_timer env) (map fst (m_timers m)) m"
  have "distinct (map fst (m_timers m))" using inv by (simp add: manager_inv_def timers_inv_def)
  have all: "manager_inv ?m \<and> fst ` set (m_timers ?m) = fst ` set (m_timers m) - set (map fst (m_timers m)) \<and>
    (\<forall>k r. find_session m k = Some r \<longrightarrow> (\<exists>r'. find_session ?m k = Some r' \<and>
       s_state r' = (if \<exists>t \<in> set (map fst (m_timers m)). s_timer r = Some t then Expired else s_state r)))"
    by (rule expire_all [OF inv \<open>distinct (map fst (m_timers m))\<close>]) simp
  then have inv': "manager_inv ?m" and none: "m_timers ?m = []" by simp_all
  have "s_state r = Disconnected \<longleftrightarrow> (\<exists>t \<in> set (map fst (m_timers m)). s_timer r = Some t)"
  proof
    assume "s_state r = Disconnected"
    then obtain t where t: "s_timer r = Some t"
      using session_facts(2) [OF _ assms(3)] inv by (auto simp: manager_inv_def session_ok_def)
    then have "(t, k) \<in> set (m_timers m)" using inv assms(3) by (auto simp: manager_inv_def timers_inv_def)
    then show "\<exists>t \<in> set (map fst (m_timers m)). s_timer r = Some t" using t by force
  next
    assume "\<exists>t \<in> set (map fst (m_timers m)). s_timer r = Some t"
    then show "s_state r = Disconnected"
      using session_facts(2) [OF _ assms(3)] inv by (auto simp: manager_inv_def session_ok_def)
  qed
  then obtain r' where r': "find_session ?m k = Some r'"
    "s_state r' = (if s_state r = Disconnected then Expired else s_state r)"
    using all [THEN conjunct2, THEN conjunct2, rule_format, OF assms(3)] by auto
  have "disposals ?m k = of_bool (s_disposed r')" "session_ok r'"
    using inv' r'(1) by (auto simp: manager_inv_def sessions_inv_def)
  then show ?thesis using r' none by (auto simp: session_ok_def)
qed

definition fence_calls :: "session_effect list \<Rightarrow> session_effect list" where
  "fence_calls tr = filter (\<lambda>x. case x of CallFence _ _ _ \<Rightarrow> True | _ \<Rightarrow> False) tr"

lemma fence_calls_simps [simp]:
  "fence_calls [] = []" "fence_calls (xs @ ys) = fence_calls xs @ fence_calls ys"
  "fence_calls (CallFence a k e # xs) = CallFence a k e # fence_calls xs"
  "fence_calls (map (\<lambda>l. Notify l ev) ls) = []"
  by (auto simp: fence_calls_def filter_empty_conv)

lemma reattach_cases:
  assumes inv: "manager_inv m" and live: "\<not> m_disposed m"
  shows "fst (reattach env (VStr c) a p m) = Inr x \<longleftrightarrow> 16 \<le> length c \<and> length c \<le> 512 \<and>
    (\<exists>k r. find_session m k = Some r \<and> s_credential r = Some c \<and> s_principal r = p \<and>
      s_state r \<noteq> Expired \<and> s_state r \<noteq> Revoked \<and> x = (k, Suc (s_epoch r), s_resumable r))"
    and "fst (reattach env (VStr c) a p m) = Inr x \<Longrightarrow> find_session m (fst x) = Some r \<Longrightarrow>
      reattach env (VStr c) a p m = reattach_session env r a m \<and> s_state r \<noteq> Expired \<and> s_state r \<noteq> Revoked"
    (is "?L \<Longrightarrow> ?F r \<Longrightarrow> ?E r")
proof -
  have cred: "map_of (m_credentials m) c = Some k \<longleftrightarrow> (\<exists>r. find_session m k = Some r \<and> s_credential r = Some c)" for k
    using inv live by (auto simp: manager_inv_def credentials_inv_def)
  have res: "fst (reattach_session env r a m) = Inr x \<longleftrightarrow> x = (s_id r, Suc (s_epoch r), s_resumable r)" for r
    by (auto simp: reattach_session_def stop_expiry_def Let_def split: option.splits)
  have id: "s_id r = k" if "find_session m k = Some r" for k r
    using inv that by (simp add: manager_inv_def sessions_inv_def)
  have "(?L \<longleftrightarrow> 16 \<le> length c \<and> length c \<le> 512 \<and>
    (\<exists>k r. find_session m k = Some r \<and> s_credential r = Some c \<and> s_principal r = p \<and>
      s_state r \<noteq> Expired \<and> s_state r \<noteq> Revoked \<and> x = (k, Suc (s_epoch r), s_resumable r))) \<and>
    (?L \<longrightarrow> (\<forall>r. ?F r \<longrightarrow> ?E r))"
  proof (cases "16 \<le> length c \<and> length c \<le> 512")
    case False
    then show ?thesis by (auto simp: reattach_def valid_credential_def session_reject_def)
  next
    case True
    then have ok: "valid_credential (VStr c)" "c \<noteq> []" by (auto simp: valid_credential_def)
    show ?thesis
    proof (cases "map_of (m_credentials m) c")
      case None
      then have "\<not> (\<exists>k r. find_session m k = Some r \<and> s_credential r = Some c)" using cred by force
      then show ?thesis using None ok live by (auto simp: reattach_def session_reject_def)
    next
      case (Some k)
      then obtain r where r: "find_session m k = Some r" "s_credential r = Some c" using cred by blast
      have uniq: "j = k \<and> u = r" if "find_session m j = Some u" "s_credential u = Some c" for j u
        using that cred [of j] Some r by auto
      show ?thesis
      proof (cases "s_principal r = p \<and> s_state r \<noteq> Expired \<and> s_state r \<noteq> Revoked")
        case True
        then have eq: "reattach env (VStr c) a p m = reattach_session env r a m"
          using Some ok live r(1) by (simp add: reattach_def)
        have "(\<exists>k r. find_session m k = Some r \<and> s_credential r = Some c \<and> s_principal r = p \<and>
            s_state r \<noteq> Expired \<and> s_state r \<noteq> Revoked \<and> x = (k, Suc (s_epoch r), s_resumable r)) \<longleftrightarrow>
            x = (k, Suc (s_epoch r), s_resumable r)"
          using True r uniq by blast
        moreover have L: "?L \<longleftrightarrow> x = (k, Suc (s_epoch r), s_resumable r)"
          by (simp only: eq res id [OF r(1)])
        moreover have "?E u" if "?L" "?F u" for u
        proof -
          have "u = r" using that L r(1) by simp
          then show ?thesis using eq True by simp
        qed
        ultimately show ?thesis
          using \<open>16 \<le> length c \<and> length c \<le> 512\<close> by (simp only: L simp_thms) blast
      next
        case False
        then have "\<nexists>y. fst (reattach env (VStr c) a p m) = Inr y"
          using Some ok live r(1) by (auto simp: reattach_def session_reject_def)
        then show ?thesis using False uniq by metis
      qed
    qed
  qed
  then show "?L \<longleftrightarrow> 16 \<le> length c \<and> length c \<le> 512 \<and>
    (\<exists>k r. find_session m k = Some r \<and> s_credential r = Some c \<and> s_principal r = p \<and>
      s_state r \<noteq> Expired \<and> s_state r \<noteq> Revoked \<and> x = (k, Suc (s_epoch r), s_resumable r))"
    and "?L \<Longrightarrow> ?F r \<Longrightarrow> ?E r" by blast+
qed

text \<open>
  C37: a reachable manager that is not disposed resumes a session exactly when the credential is
  well formed and belongs to a session that has neither expired nor been revoked and has the same
  principal. Then the connection gets the next epoch, which is active while the old one is not,
  the expiry timer of the session is gone, and an attachment that was still there is told its old
  epoch, exactly once.
\<close>

theorem reattach_resumes:
  assumes "make_locus_session_manager g = Inr m0" and "session_steps m0 m" and "\<not> m_disposed m"
    and "reattach env (VStr c) a p m = (res, m')"
  shows "(res = Inr (k, e, b) \<longleftrightarrow> 16 \<le> length c \<and> length c \<le> 512 \<and>
      (\<exists>r. find_session m k = Some r \<and> s_credential r = Some c \<and> s_principal r = p \<and>
        s_state r \<noteq> Expired \<and> s_state r \<noteq> Revoked \<and> e = Suc (s_epoch r) \<and> b = s_resumable r)) \<and>
    (res = Inr (k, e, b) \<longrightarrow>
      (\<exists>r. find_session m k = Some r \<and> is_active k e m' \<and> \<not> is_active k (s_epoch r) m' \<and>
        m_timers m' = filter (\<lambda>(t, j). j \<noteq> k) (m_timers m) \<and>
        fence_calls (m_trace m') = fence_calls (m_trace m) @
          (case s_attachment r of None \<Rightarrow> [] | Some b \<Rightarrow> [CallFence b k (s_epoch r)])))"
proof -
  have inv: "manager_inv m"
    using session_steps_inv [OF assms(2) initial_manager_inv [OF assms(1)]] by simp
  note ok = reattach_cases(1) [OF inv assms(3), of env c a p "(k, e, b)", unfolded assms(4)]
  note eq = reattach_cases(2) [OF inv assms(3), of env c a p "(k, e, b)", unfolded assms(4)]
  have "\<exists>r. find_session m k = Some r \<and> is_active k e m' \<and> \<not> is_active k (s_epoch r) m' \<and>
        m_timers m' = filter (\<lambda>(t, j). j \<noteq> k) (m_timers m) \<and>
        fence_calls (m_trace m') = fence_calls (m_trace m) @
          (case s_attachment r of None \<Rightarrow> [] | Some b \<Rightarrow> [CallFence b k (s_epoch r)])"
    if q: "res = Inr (k, e, b)"
  proof -
    obtain r where "find_session m k = Some r" "e = Suc (s_epoch r)" using ok q by auto
    then have r: "find_session m k = Some r" "s_state r \<noteq> Expired" "s_state r \<noteq> Revoked"
      "(res, m') = reattach_session env r a m" "e = Suc (s_epoch r)"
      using eq [of r] q by simp_all
    have st: "s_state r = Attached \<or> s_state r = Disconnected" using r by (cases "s_state r") auto
    have m': "m' = snd (reattach_session env r a m)" using r(4) by (metis snd_conv)
    have core: "core_inv m" using inv by (simp add: manager_inv_def)
    note ch = reattach_change [OF core r(1) st, of env a]
    have id: "s_id r = k" using session_facts(1) [OF core r(1)] .
    have "fence_calls (m_trace m') = fence_calls (m_trace m) @
          (case s_attachment r of None \<Rightarrow> [] | Some b \<Rightarrow> [CallFence b k (s_epoch r)])"
      unfolding m' by (auto simp: reattach_session_def session_defs session_emit_def Let_def id split: option.splits)
    moreover have "is_active k e m' \<and> \<not> is_active k (s_epoch r) m'"
      using change_find [OF conjunct1 [OF ch]] r(5) by (simp add: m' is_active_def)
    moreover have "m_timers m' = filter (\<lambda>(t, j). j \<noteq> k) (m_timers m)"
      using ch by (simp add: m' session_change_def)
    ultimately show ?thesis using r(1) by blast
  qed
  then show ?thesis using ok by auto
qed

section \<open>A sample run\<close>

definition session_sample_env :: session_env where
  "session_sample_env = \<lparr> env_now = 0, env_plus = (\<lambda>x y. y), env_subscriptions = (\<lambda>k. 0),
     env_credential = js ''0123456789abcdef'' \<rparr>"

definition session_sample_start :: manager where
  "session_sample_start = \<lparr> m_grace = DEFAULT_GRACE_MS, m_sessions = [], m_credentials = [], m_listeners = [],
     m_rejected = [], m_reattachments = 0, m_fencings = 0, m_expiries = 0, m_disposed = False,
     m_timers = [], m_next_timer = 0, m_trace = [] \<rparr>"

definition session_sample_attached :: manager where
  "session_sample_attached = snd (session_create session_sample_env (js ''s'') True 7 None session_sample_start)"

definition session_sample_detached :: manager where
  "session_sample_detached = snd (detach session_sample_env (js ''s'') 1 session_sample_attached)"

definition session_sample_resumed :: manager where
  "session_sample_resumed = snd (reattach session_sample_env (VStr (js ''0123456789abcdef'')) 8 None session_sample_attached)"

lemma session_sample_start_made: "make_locus_session_manager None = Inr session_sample_start"
  by (simp add: make_locus_session_manager_def session_sample_start_def DEFAULT_GRACE_MS_def num_finite_def
      num_exponent_def num_negative_def num_neg_zero_def)

lemma session_sample_steps:
  "session_steps session_sample_start session_sample_attached" "session_steps session_sample_attached session_sample_detached"
  "session_steps session_sample_start session_sample_detached" "session_steps session_sample_attached session_sample_resumed"
proof -
  show a: "session_steps session_sample_start session_sample_attached" "session_steps session_sample_attached session_sample_detached"
    "session_steps session_sample_attached session_sample_resumed"
    unfolding session_sample_attached_def session_sample_detached_def session_sample_resumed_def
    by (rule r_into_rtranclp, rule session_step.intros)+
  then show "session_steps session_sample_start session_sample_detached" by (rule_tac rtranclp_trans)
qed

lemma session_sample_facts:
  "is_active (js ''s'') 1 session_sample_attached" "\<not> is_active (js ''s'') 1 session_sample_detached"
  "\<not> is_active (js ''s'') 1 session_sample_resumed" "\<not> m_disposed session_sample_attached"
  by code_simp+

lemma session_manager_invariant_witness: "manager_inv session_sample_detached"
  by (rule session_manager_invariant [OF session_sample_start_made session_sample_steps(3)])

lemma lost_epoch_stays_lost_witness: "\<not> is_active (js ''s'') 1 session_sample_resumed"
  using lost_epoch_stays_lost [OF session_sample_start_made session_sample_steps(1) session_sample_facts(1) session_sample_steps(4)
      session_sample_facts(3) rtranclp.rtrancl_refl] by simp

lemma disconnected_sessions_expire_witness:
  "\<exists>r'. find_session (fold (fire_timer session_sample_env) (map fst (m_timers session_sample_detached)) session_sample_detached) (js ''s'') = Some r' \<and>
     s_state r' = Expired"
proof -
  obtain r where r: "find_session session_sample_detached (js ''s'') = Some r"
    by (cases "find_session session_sample_detached (js ''s'')") (code_simp, blast)
  have "map_option s_state (find_session session_sample_detached (js ''s'')) = Some Disconnected" by code_simp
  then show ?thesis
    using disconnected_sessions_expire [OF session_sample_start_made session_sample_steps(3) r, of session_sample_env] r by auto
qed

lemma reattach_resumes_witness: "is_active (js ''s'') 2 session_sample_resumed"
proof -
  define res where "res = fst (reattach session_sample_env (VStr (js ''0123456789abcdef'')) 8 None session_sample_attached)"
  have run: "reattach session_sample_env (VStr (js ''0123456789abcdef'')) 8 None session_sample_attached = (res, session_sample_resumed)"
    by (simp add: res_def session_sample_resumed_def)
  have "res = Inr (js ''s'', 2, True)" unfolding res_def by code_simp
  then show ?thesis
    using reattach_resumes [OF session_sample_start_made session_sample_steps(1) session_sample_facts(4) run] by blast
qed
end
