(* ===== verification/Canonical_Equal.thy ===== *)
theory Canonical_Equal
  imports Ordered_Value
begin

text \<open>
  Strict graph equality (\<open>core/canonical-hson-equal.ts\<close>): the first difference of two node trees in
  a fixed order, with its kind and its path, and the equality derived from it. The two operands
  share no objects, so the set of visited pairs never cuts a comparison short.
\<close>

section \<open>Differences\<close>

datatype difference_kind =
    ArrayIndexDifference | AttributePresence | AttributeValueDifference | ContentLength | ContentOrdering
  | FieldPresence | MetadataPresence | MetadataValue | NegativeZeroMismatch | NodeNameMismatch
  | QuidDifference | RootLeakage | ScalarValueMismatch | StructuralModeMismatch | ValueTypeMismatch | VsnMismatch

datatype content_hint = MissingNode | ExtraNode

record difference =
  d_kind :: difference_kind
  d_path :: js_string
  d_content :: "content_hint option"

datatype equality_fault = NonFiniteNumber

type_synonym comparison = "equality_fault + difference option"

abbreviation at_difference :: "difference_kind \<Rightarrow> js_string \<Rightarrow> comparison" where
  "at_difference k p \<equiv> Inr (Some \<lparr> d_kind = k, d_path = p, d_content = None \<rparr>)"

text \<open>A difference found first ends the comparison.\<close>

definition unless_found :: "comparison \<Rightarrow> comparison \<Rightarrow> comparison" where
  "unless_found r k = rbind r (\<lambda>d. case d of None \<Rightarrow> k | Some e \<Rightarrow> Inr (Some e))"

lemma unless_found_cong [fundef_cong]:
  "r = s \<Longrightarrow> (s = Inr None \<Longrightarrow> k = l) \<Longrightarrow> unless_found r k = unless_found s l"
  by (auto simp: unless_found_def split: option.splits intro: rbind_cong)

fun first_found :: "('a \<Rightarrow> comparison) \<Rightarrow> 'a list \<Rightarrow> comparison" where
  "first_found f [] = Inr None"
| "first_found f (x # xs) = unless_found (f x) (first_found f xs)"

lemma first_found_cong [fundef_cong]:
  "xs = ys \<Longrightarrow> (\<And>x. x \<in> set ys \<Longrightarrow> f x = g x) \<Longrightarrow> first_found f xs = first_found g ys"
  by (induction ys arbitrary: xs) auto

section \<open>Scalars and records\<close>

fun prim_type :: "prim \<Rightarrow> nat" where
  "prim_type PNull = 0"
| "prim_type (PBool b) = 1"
| "prim_type (PNum x) = 2"
| "prim_type (PStr s) = 3"

fun finite_number :: "prim \<Rightarrow> equality_fault + unit" where
  "finite_number (PNum x) = rguard (num_finite x) NonFiniteNumber"
| "finite_number p = Inr ()"

definition compare_scalar :: "prim \<Rightarrow> prim \<Rightarrow> js_string \<Rightarrow> comparison" where
  "compare_scalar l r path =
     rbind (finite_number l) (\<lambda>u. rbind (finite_number r) (\<lambda>u.
       if prim_object_is l r then Inr None
       else if prim_type l = prim_type (PNum 0) \<and> prim_type r = prim_type (PNum 0) \<and>
           (l = PNum num_neg_zero \<or> r = PNum num_neg_zero) then at_difference NegativeZeroMismatch path
       else if prim_type l \<noteq> prim_type r then at_difference ValueTypeMismatch path
       else at_difference ScalarValueMismatch path))"

datatype record_field = AttributeField | MetadataField | RecordField

definition presence_kind :: "record_field \<Rightarrow> difference_kind" where
  "presence_kind field =
     (case field of AttributeField \<Rightarrow> AttributePresence | MetadataField \<Rightarrow> MetadataPresence
      | RecordField \<Rightarrow> FieldPresence)"

definition field_difference :: "record_field \<Rightarrow> js_string \<Rightarrow> js_string \<Rightarrow> difference \<Rightarrow> difference" where
  "field_difference field key keyPath found =
     (case field of
        AttributeField \<Rightarrow> \<lparr> d_kind = AttributeValueDifference, d_path = keyPath, d_content = None \<rparr>
      | MetadataField \<Rightarrow>
          \<lparr> d_kind = (if key = js ''quid'' then QuidDifference else if key = js ''index'' then ArrayIndexDifference
              else MetadataValue), d_path = keyPath, d_content = None \<rparr>
      | RecordField \<Rightarrow> found)"

definition compare_named_record ::
    "('a \<Rightarrow> 'a \<Rightarrow> js_string \<Rightarrow> comparison) \<Rightarrow> (js_string \<times> 'a) list \<Rightarrow> (js_string \<times> 'a) list \<Rightarrow> js_string \<Rightarrow>
     record_field \<Rightarrow> comparison" where
  "compare_named_record compare_value l r path field =
     first_found (\<lambda>key.
       let keyPath = path @ js ''.'' @ key in
       (case (map_of l key, map_of r key) of
          (Some a, Some b) \<Rightarrow>
            rbind (compare_value a b keyPath) (\<lambda>found. Inr (map_option (field_difference field key keyPath) found))
        | (None, None) \<Rightarrow> Inr None
        | _ \<Rightarrow> at_difference (presence_kind field) keyPath))
       (sort (remdups (map fst l @ map fst r)))"

lemma compare_named_record_cong [fundef_cong]:
  assumes "l = l'" "r = r'" "path = path'" "field = field'"
    and "\<And>k a b p. map_of l' k = Some a \<Longrightarrow> f a b p = g a b p"
  shows "compare_named_record f l r path field = compare_named_record g l' r' path' field'"
  unfolding compare_named_record_def assms(1-4)
  by (rule first_found_cong) (auto simp: assms(5) Let_def split: option.splits)

function compare_attr_value :: "attr_value \<Rightarrow> attr_value \<Rightarrow> js_string \<Rightarrow> comparison" where
  "compare_attr_value (APrim p) r path =
     (case r of
        APrim q \<Rightarrow> compare_scalar p q path
      | _ \<Rightarrow> rbind (finite_number p) (\<lambda>u. at_difference ValueTypeMismatch path))"
| "compare_attr_value AUndef r path =
     (case r of
        AUndef \<Rightarrow> Inr None
      | APrim q \<Rightarrow> rbind (finite_number q) (\<lambda>u. at_difference ValueTypeMismatch path)
      | ARec es \<Rightarrow> at_difference ValueTypeMismatch path)"
| "compare_attr_value (ARec es) r path =
     (case r of
        ARec fs \<Rightarrow> compare_named_record compare_attr_value es fs path RecordField
      | APrim q \<Rightarrow> rbind (finite_number q) (\<lambda>u. at_difference ValueTypeMismatch path)
      | AUndef \<Rightarrow> at_difference ValueTypeMismatch path)"
  by pat_completeness auto
termination
proof (relation "measure (\<lambda>(l, r, p). size l)", simp)
  fix es :: "(js_string \<times> attr_value) list" and k a
  assume "map_of es k = Some a"
  then have "(k, a) \<in> set es" by (rule map_of_SomeD)
  then show "((a, b, p), (ARec es, r, path)) \<in> measure (\<lambda>(l, r, p). size l)" for b p r path
    using size_list_estimation [of "(k, a)" es "size a" "size_prod (\<lambda>_. 0) size"]
    by (force simp: less_Suc_eq_le intro: size_list_estimation')
qed

section \<open>Nodes\<close>

definition tag_difference :: "js_string \<Rightarrow> js_string \<Rightarrow> difference_kind" where
  "tag_difference l r =
     (if (l = ROOT_TAG) \<noteq> (r = ROOT_TAG) then RootLeakage
      else if l = OBJ_TAG \<and> r = ELEM_TAG \<or> l = ELEM_TAG \<and> r = OBJ_TAG then StructuralModeMismatch
      else if starts_with l HSON_SYS_PREFIX \<or> starts_with r HSON_SYS_PREFIX then VsnMismatch
      else NodeNameMismatch)"

definition compare_container ::
    "('a \<Rightarrow> 'a \<Rightarrow> js_string \<Rightarrow> comparison) \<Rightarrow> (js_string \<times> 'a) list option \<Rightarrow> (js_string \<times> 'a) list option \<Rightarrow> js_string \<Rightarrow>
     record_field \<Rightarrow> comparison" where
  "compare_container compare_value l r path field =
     (case (l, r) of
        (Some es, Some fs) \<Rightarrow> compare_named_record compare_value es fs path field
      | (None, None) \<Rightarrow> Inr None
      | _ \<Rightarrow> at_difference (presence_kind field) path)"

text \<open>
  \<open>otest\<close> is the test an array comparison makes before it looks at the items one by one; it is
  the switch \<open>detectOrdering\<close> of the code.
\<close>

fun compare_node ::
    "(hson_item list \<Rightarrow> hson_item list \<Rightarrow> equality_fault + bool) \<Rightarrow> hson_node \<Rightarrow> hson_node \<Rightarrow> js_string \<Rightarrow> comparison"
  and compare_item ::
    "(hson_item list \<Rightarrow> hson_item list \<Rightarrow> equality_fault + bool) \<Rightarrow> hson_item \<Rightarrow> hson_item \<Rightarrow> js_string \<Rightarrow> comparison"
  and compare_items ::
    "(hson_item list \<Rightarrow> hson_item list \<Rightarrow> equality_fault + bool) \<Rightarrow> hson_item list \<Rightarrow> hson_item list \<Rightarrow>
     js_string \<Rightarrow> nat \<Rightarrow> comparison" where
  "compare_node otest (HsonNode t a m c) r path =
     (if t \<noteq> tag_of r then at_difference (tag_difference t (tag_of r)) (path @ js ''.$_tag'')
      else unless_found (compare_container compare_attr_value a (attrs_of r) (path @ js ''.$_attrs'') AttributeField)
        (unless_found (compare_container compare_scalar m (meta_of r) (path @ js ''.$_meta'') MetadataField)
          (let cpath = path @ js ''.$_content'' in
           if length c \<noteq> length (content_of r) then
             Inr (Some \<lparr> d_kind = ContentLength, d_path = cpath,
               d_content = Some (if length c < length (content_of r) then MissingNode else ExtraNode) \<rparr>)
           else rbind (otest c (content_of r)) (\<lambda>b.
             if b then at_difference ContentOrdering cpath else compare_items otest c (content_of r) cpath 0))))"
| "compare_item otest (ItemNode n) r path =
     (case r of
        ItemNode m \<Rightarrow> compare_node otest n m path
      | ItemPrim q \<Rightarrow> rbind (finite_number q) (\<lambda>u. at_difference ValueTypeMismatch path))"
| "compare_item otest (ItemPrim p) r path =
     (case r of
        ItemNode m \<Rightarrow> rbind (finite_number p) (\<lambda>u. at_difference ValueTypeMismatch path)
      | ItemPrim q \<Rightarrow> compare_scalar p q path)"
| "compare_items otest [] rs path i = Inr None"
| "compare_items otest (l # ls) rs path i =
     (case rs of
        [] \<Rightarrow> Inr None
      | r # rs' \<Rightarrow>
          unless_found (compare_item otest l r (path @ js ''['' @ nat_str i @ js '']''))
            (compare_items otest ls rs' path (Suc i)))"

definition values_equal :: "hson_item \<Rightarrow> hson_item \<Rightarrow> equality_fault + bool" where
  "values_equal l r = rbind (compare_item (\<lambda>_ _. Inr False) l r (js ''$'')) (\<lambda>d. Inr (d = None))"

text \<open>
  The greedy matching of a permutation: each left item takes the first unconsumed right item equal
  to it. \<open>rs\<close> holds the right items that are not consumed, in order.
\<close>

fun take_match :: "hson_item \<Rightarrow> hson_item list \<Rightarrow> equality_fault + hson_item list option" where
  "take_match l [] = Inr None"
| "take_match l (r # rs) =
     rbind (values_equal l r) (\<lambda>b.
       if b then Inr (Some rs) else rbind (take_match l rs) (\<lambda>m. Inr (map_option ((#) r) m)))"

fun arrays_are_permutations :: "hson_item list \<Rightarrow> hson_item list \<Rightarrow> equality_fault + bool" where
  "arrays_are_permutations [] rs = Inr True"
| "arrays_are_permutations (l # ls) rs =
     rbind (take_match l rs) (\<lambda>m. case m of None \<Rightarrow> Inr False | Some rs' \<Rightarrow> arrays_are_permutations ls rs')"

fun some_unequal :: "hson_item list \<Rightarrow> hson_item list \<Rightarrow> equality_fault + bool" where
  "some_unequal [] rs = Inr False"
| "some_unequal (l # ls) rs =
     (case rs of
        [] \<Rightarrow> Inr True
      | r # rs' \<Rightarrow> rbind (values_equal l r) (\<lambda>b. if b then some_unequal ls rs' else Inr True))"

definition detect_ordering :: "hson_item list \<Rightarrow> hson_item list \<Rightarrow> equality_fault + bool" where
  "detect_ordering ls rs =
     rbind (some_unequal ls rs) (\<lambda>b. if b then arrays_are_permutations ls rs else Inr False)"

definition canonical_hson_graph_difference :: "hson_node \<Rightarrow> hson_node \<Rightarrow> comparison" where
  "canonical_hson_graph_difference l r = compare_node detect_ordering l r (js ''$'')"

definition canonical_hson_graph_equal :: "hson_node \<Rightarrow> hson_node \<Rightarrow> equality_fault + bool" where
  "canonical_hson_graph_equal l r = rbind (canonical_hson_graph_difference l r) (\<lambda>d. Inr (d = None))"

section \<open>The reference: equal up to the order of keys\<close>

fun sorted_value :: "attr_value \<Rightarrow> attr_value" where
  "sorted_value (ARec es) = ARec (sort_key fst (map (\<lambda>(k, v). (k, sorted_value v)) es))"
| "sorted_value v = v"

definition sorted_attrs :: "hson_attrs \<Rightarrow> hson_attrs" where
  "sorted_attrs es = sort_key fst (map (\<lambda>(k, v). (k, sorted_value v)) es)"

fun sorted_node :: "hson_node \<Rightarrow> hson_node" and sorted_item :: "hson_item \<Rightarrow> hson_item" where
  "sorted_node (HsonNode t a m c) =
     HsonNode t (map_option sorted_attrs a) (map_option (sort_key fst) m) (map sorted_item c)"
| "sorted_item (ItemNode n) = ItemNode (sorted_node n)"
| "sorted_item (ItemPrim p) = ItemPrim p"

text \<open>Operands: distinct keys in every record, finite numbers everywhere.\<close>

fun value_sound :: "attr_value \<Rightarrow> bool" where
  "value_sound AUndef = True"
| "value_sound (APrim p) = prim_finite p"
| "value_sound (ARec es) = (distinct (map fst es) \<and> list_all (\<lambda>(k, v). value_sound v) es)"

fun node_sound :: "hson_node \<Rightarrow> bool" and item_sound :: "hson_item \<Rightarrow> bool" where
  "node_sound (HsonNode t a m c) =
     ((case a of None \<Rightarrow> True | Some es \<Rightarrow> distinct (map fst es) \<and> list_all (\<lambda>(k, v). value_sound v) es) \<and>
      (case m of None \<Rightarrow> True | Some es \<Rightarrow> distinct (map fst es) \<and> list_all (\<lambda>(k, p). prim_finite p) es) \<and>
      list_all item_sound c)"
| "item_sound (ItemNode n) = node_sound n"
| "item_sound (ItemPrim p) = prim_finite p"

end
