(* ===== verification/Live_Commit.thy ===== *)
theory Live_Commit
  imports Value_Admission
begin

text \<open>
  The operations and commits a live map emits (\<open>types/livemap.types.ts\<close>). An operation is
  polymorphic in its values, so that the same data serves a live commit, whose values are
  JavaScript values, and a canonical commit, whose values are detached carriers.
\<close>

datatype root_mode = DataObject | DataArray | ElementMode | FragmentMode

definition is_document_mode :: "root_mode \<Rightarrow> bool" where
  "is_document_mode m \<longleftrightarrow> m = ElementMode \<or> m = FragmentMode"

datatype 'v data_op =
    SetOp live_path "'v option" "'v option"
  | DeleteOp live_path "'v option" "'v option"
  | ReplaceOp live_path "'v option" "'v option"
  | SpliceOp live_path num_arg "'v list" "'v list" "'v option" "'v option"
  | RenameOp live_path js_string js_string "'v option" "'v option"
  | MoveOp live_path num_arg num_arg "'v option" "'v option"

text \<open>A commit target: a document path and the identity the requester saw there.\<close>

datatype 'p doc_target = DocTarget (target_path: 'p) (target_witness: "js_string option")

datatype ('p, 'c) graph_op =
    ReplaceRoot root_mode 'c
  | SetAttr "'p doc_target" js_string attr_value
  | RemoveAttr "'p doc_target" js_string
  | ReplaceAttrs "'p doc_target" hson_attrs
  | EnsureQuid "'p doc_target" js_string
  | ReplaceContent "'p doc_target" num_arg 'c
  | InsertContent "'p doc_target" num_arg 'c
  | RemoveContent "'p doc_target" num_arg
  | MoveContent "'p doc_target" num_arg num_arg

text \<open>Any operation; \<open>ProjectedEnsureQuid\<close> registers an identity at a projected path.\<close>

datatype ('v, 'p, 'c) any_op =
    DataOperation "'v data_op"
  | GraphOperation "('p, 'c) graph_op"
  | ProjectedEnsureQuid live_path js_string

text \<open>
  The live operations carry what the caller passed: numbers not yet checked in document paths, and
  content nodes. \<open>format\<close> and \<open>payload\<close> are the optional structural envelope.
\<close>

type_synonym live_op = "(js_value, num_arg list, hson_item) any_op"

record live_commit =
  c_changed :: bool
  c_rev :: num_arg
  c_prev_rev :: num_arg
  c_ops :: "live_op list"
  c_structural :: bool
  c_payload :: "js_string option"

datatype commit_origin = Authoritative | Replay

datatype commit_observation =
    CommitObserved live_commit commit_origin
  | SnapshotObserved num_arg

end
