(* ===== verification/Document_Path.thy ===== *)
theory Document_Path
  imports Live_Commit
begin

text \<open>
  Canonical document paths (\<open>api/livemap/livemap.document.path.ts\<close>): lists of content indexes
  from the owned document cluster, their resolution, and how one canonical content effect moves a
  known location.
\<close>

section \<open>Paths\<close>

type_synonym document_path = "nat list"

datatype document_path_fault =
    InvalidPathIndex nat num_arg
  | DocumentRootUnavailable
  | PathOutOfRange nat nat
  | PathPrimitiveDescent nat nat

text \<open>The index of the first segment that is refused is part of the error.\<close>

fun validate_from :: "nat \<Rightarrow> num_arg list \<Rightarrow> document_path_fault + document_path" where
  "validate_from i [] = Inr []"
| "validate_from i (s # ss) =
     (case s of
        IntArg k \<Rightarrow>
          if is_safe_integer (IntArg k) \<and> 0 \<le> k then rbind (validate_from (Suc i) ss) (\<lambda>p. Inr (nat k # p))
          else Inl (InvalidPathIndex i s)
      | OtherArg x \<Rightarrow> Inl (InvalidPathIndex i s))"

definition validate_document_path :: "num_arg list \<Rightarrow> document_path_fault + document_path" where
  "validate_document_path input = validate_from 0 input"

text \<open>Lexicographic comparison; a proper prefix comes first.\<close>

fun compare_document_paths :: "document_path \<Rightarrow> document_path \<Rightarrow> int" where
  "compare_document_paths (a # as) (b # bs) =
     (if a < b then - 1 else if b < a then 1 else compare_document_paths as bs)"
| "compare_document_paths [] (b # bs) = - 1"
| "compare_document_paths (a # as) [] = 1"
| "compare_document_paths [] [] = 0"

definition document_path_equal :: "document_path \<Rightarrow> document_path \<Rightarrow> bool" where
  "document_path_equal l r \<longleftrightarrow> compare_document_paths l r = 0"

definition document_path_is_prefix :: "document_path \<Rightarrow> document_path \<Rightarrow> bool" where
  "document_path_is_prefix pre path \<longleftrightarrow>
     (if length path < length pre then False else list_all2 (=) pre (take (length pre) path))"

definition append_document_path :: "document_path \<Rightarrow> num_arg \<Rightarrow> document_path_fault + document_path" where
  "append_document_path path s = validate_document_path (map (\<lambda>k. IntArg (int k)) path @ [s])"

definition parent_document_path :: "document_path \<Rightarrow> document_path option" where
  "parent_document_path path = (if path = [] then None else Some (butlast path))"

section \<open>Resolution\<close>

definition document_path_base :: "hson_node \<Rightarrow> root_mode \<Rightarrow> document_path_fault + hson_node" where
  "document_path_base root mode =
     (let cluster =
            (if tag_of root = ELEM_TAG then Some root
             else if tag_of root = ROOT_TAG then
               (case content_of root of
                  ItemNode c # _ \<Rightarrow> if is_Node (ItemNode c) \<and> tag_of c = ELEM_TAG then Some c else None
                | _ \<Rightarrow> None)
             else None)
      in case cluster of
           None \<Rightarrow> Inl DocumentRootUnavailable
         | Some c \<Rightarrow>
             if mode = FragmentMode then Inr c
             else (case content_of c of
                     ItemNode e # _ \<Rightarrow>
                       if is_Node (ItemNode e) \<and> is_ordinary_element_node e then Inr e
                       else Inl DocumentRootUnavailable
                   | _ \<Rightarrow> Inl DocumentRootUnavailable))"

fun descend :: "nat \<Rightarrow> hson_item \<Rightarrow> document_path \<Rightarrow> document_path_fault + hson_item" where
  "descend i it [] = Inr it"
| "descend i (ItemPrim p) (s # ss) = Inl (PathPrimitiveDescent i s)"
| "descend i (ItemNode n) (s # ss) =
     (if \<not> is_Node (ItemNode n) then Inl (PathPrimitiveDescent i s)
      else if length (content_of n) \<le> s then Inl (PathOutOfRange i s)
      else descend (Suc i) (content_of n ! s) ss)"

definition resolve_document_path ::
    "hson_node \<Rightarrow> root_mode \<Rightarrow> document_path \<Rightarrow> document_path_fault + hson_item" where
  "resolve_document_path root mode path =
     rbind (document_path_base root mode) (\<lambda>base. descend 0 (ItemNode base) path)"

section \<open>Effects\<close>

datatype path_effect =
    InsertEffect document_path num_arg
  | DeleteEffect document_path num_arg
  | ReplaceEffect document_path num_arg
  | MoveEffect document_path num_arg num_arg
  | ReplaceRootEffect

datatype retire_reason = LocationDeleted | LocationReplaced | LocationRootReplaced

datatype path_transform =
    Unchanged document_path
  | Moved document_path
  | Retired retire_reason
  | InvalidEffect

fun document_path_effect_for_graph_operation :: "(document_path, 'c) graph_op \<Rightarrow> path_effect option" where
  "document_path_effect_for_graph_operation (ReplaceRoot m r) = Some ReplaceRootEffect"
| "document_path_effect_for_graph_operation (SetAttr t k v) = None"
| "document_path_effect_for_graph_operation (RemoveAttr t k) = None"
| "document_path_effect_for_graph_operation (ReplaceAttrs t a) = None"
| "document_path_effect_for_graph_operation (EnsureQuid t q) = None"
| "document_path_effect_for_graph_operation (InsertContent t i c) = Some (InsertEffect (target_path t) i)"
| "document_path_effect_for_graph_operation (RemoveContent t i) = Some (DeleteEffect (target_path t) i)"
| "document_path_effect_for_graph_operation (ReplaceContent t i c) = Some (ReplaceEffect (target_path t) i)"
| "document_path_effect_for_graph_operation (MoveContent t i j) = Some (MoveEffect (target_path t) i j)"

fun effect_parent :: "path_effect \<Rightarrow> document_path" where
  "effect_parent (InsertEffect p i) = p"
| "effect_parent (DeleteEffect p i) = p"
| "effect_parent (ReplaceEffect p i) = p"
| "effect_parent (MoveEffect p i j) = p"
| "effect_parent ReplaceRootEffect = []"

fun effect_indexes :: "path_effect \<Rightarrow> num_arg list" where
  "effect_indexes (InsertEffect p i) = [i]"
| "effect_indexes (DeleteEffect p i) = [i]"
| "effect_indexes (ReplaceEffect p i) = [i]"
| "effect_indexes (MoveEffect p i j) = [i, j]"
| "effect_indexes ReplaceRootEffect = []"

definition index_ok :: "num_arg \<Rightarrow> bool" where
  "index_ok a = (case a of IntArg k \<Rightarrow> is_safe_integer a \<and> 0 \<le> k | OtherArg x \<Rightarrow> False)"

definition index_nat :: "num_arg \<Rightarrow> nat" where
  "index_nat a = (case a of IntArg k \<Rightarrow> nat k | OtherArg x \<Rightarrow> 0)"

text \<open>The sibling index an effect gives to sibling \<open>s\<close>.\<close>

fun shift_sibling :: "path_effect \<Rightarrow> nat \<Rightarrow> retire_reason + nat option" where
  "shift_sibling (InsertEffect p i) s = (if index_nat i \<le> s then Inr (Some (s + 1)) else Inr None)"
| "shift_sibling (DeleteEffect p i) s =
     (if s = index_nat i then Inl LocationDeleted
      else if index_nat i < s then Inr (Some (s - 1)) else Inr None)"
| "shift_sibling (ReplaceEffect p i) s = (if s = index_nat i then Inl LocationReplaced else Inr None)"
| "shift_sibling (MoveEffect p i j) s =
     (let from = index_nat i; to = index_nat j in
      if from = to then Inr None
      else if s = from then Inr (Some to)
      else if from < to \<and> from < s \<and> s \<le> to then Inr (Some (s - 1))
      else if to < from \<and> to \<le> s \<and> s < from then Inr (Some (s + 1))
      else Inr None)"
| "shift_sibling ReplaceRootEffect s = Inl LocationRootReplaced"

text \<open>
  \<open>rewrite\<close> validates the new path again, so a sibling index past the safe integers is an error.
\<close>

definition transform_document_path ::
    "document_path \<Rightarrow> path_effect \<Rightarrow> document_path_fault + path_transform" where
  "transform_document_path path e =
     (if e = ReplaceRootEffect then Inr (Retired LocationRootReplaced)
      else if \<not> list_all index_ok (effect_indexes e) then Inr InvalidEffect
      else if \<not> document_path_is_prefix (effect_parent e) path \<or> document_path_equal (effect_parent e) path
        then Inr (Unchanged path)
      else
        (let k = length (effect_parent e) in
         case shift_sibling e (path ! k) of
           Inl reason \<Rightarrow> Inr (Retired reason)
         | Inr None \<Rightarrow> Inr (Unchanged path)
         | Inr (Some s) \<Rightarrow>
             rbind (validate_document_path
                 (map (\<lambda>i. IntArg (int i)) (take k path @ [s] @ drop (Suc k) path)))
               (\<lambda>p. Inr (Moved p))))"

end
