(* ===== verification/Document_Edit.thy ===== *)
theory Document_Edit
  imports Document_Path Ordered_Laws
begin

text \<open>
  How one content effect changes a document and where a known location is afterwards: the edit of
  the content at a path, the sibling lemmas of \<open>transform_document_path\<close> and the theorem that a
  transformed location resolves to the item it named (\<open>api/livemap/livemap.document.path.ts\<close>).
\<close>

section \<open>Editing the content at a path\<close>

fun edit_node :: "hson_node \<Rightarrow> document_path \<Rightarrow> (hson_item list \<Rightarrow> hson_item list) \<Rightarrow> hson_node" where
  "edit_node n [] f = HsonNode (tag_of n) (attrs_of n) (meta_of n) (f (content_of n))"
| "edit_node n (s # ss) f =
     HsonNode (tag_of n) (attrs_of n) (meta_of n)
       (if s < length (content_of n)
        then (content_of n)[s := (case content_of n ! s of
          ItemNode k \<Rightarrow> ItemNode (edit_node k ss f) | ItemPrim p \<Rightarrow> ItemPrim p)]
        else content_of n)"

definition edit_item :: "hson_item \<Rightarrow> document_path \<Rightarrow> (hson_item list \<Rightarrow> hson_item list) \<Rightarrow> hson_item" where
  "edit_item it path f = (case it of ItemNode n \<Rightarrow> ItemNode (edit_node n path f) | ItemPrim p \<Rightarrow> ItemPrim p)"

lemma edit_item_simps [simp]:
  "edit_item (ItemPrim p) path f = ItemPrim p"
  "edit_item (ItemNode n) path f = ItemNode (edit_node n path f)"
  by (simp_all add: edit_item_def)

lemma edit_node_head [simp]:
  "tag_of (edit_node n p f) = tag_of n" "attrs_of (edit_node n p f) = attrs_of n"
  "meta_of (edit_node n p f) = meta_of n"
  by (cases p; simp)+

lemma edit_node_content [simp]:
  "content_of (edit_node n [] f) = f (content_of n)"
  "content_of (edit_node n (s # p) f) =
    (if s < length (content_of n) then (content_of n)[s := edit_item (content_of n ! s) p f] else content_of n)"
  by (simp_all add: edit_item_def)

declare edit_node.simps [simp del]

text \<open>The content edit of an effect; \<open>x\<close> is the item an insertion or a replacement brings.\<close>

fun effect_content :: "path_effect \<Rightarrow> hson_item \<Rightarrow> hson_item list \<Rightarrow> hson_item list" where
  "effect_content (InsertEffect p i) x c = insert_nth (index_nat i) x c"
| "effect_content (DeleteEffect p i) x c = remove_nth (index_nat i) c"
| "effect_content (ReplaceEffect p i) x c = c[index_nat i := x]"
| "effect_content (MoveEffect p i j) x c = (if i = j then c else move_items (index_nat i) (index_nat j) c)"
| "effect_content ReplaceRootEffect x c = c"

fun effect_fits :: "path_effect \<Rightarrow> nat \<Rightarrow> bool" where
  "effect_fits (InsertEffect p i) n = (index_ok i \<and> index_nat i \<le> n)"
| "effect_fits (DeleteEffect p i) n = (index_ok i \<and> index_nat i < n)"
| "effect_fits (ReplaceEffect p i) n = (index_ok i \<and> index_nat i < n)"
| "effect_fits (MoveEffect p i j) n = (index_ok i \<and> index_ok j \<and> index_nat i < n \<and> index_nat j < n)"
| "effect_fits ReplaceRootEffect n = False"

section \<open>Sibling indexes\<close>

lemma index_nat_inject: "index_ok i \<Longrightarrow> index_ok j \<Longrightarrow> index_nat i = index_nat j \<longleftrightarrow> i = j"
  by (auto simp: index_ok_def index_nat_def split: num_arg.splits)

lemma nth_insert: "i \<le> length xs \<Longrightarrow> insert_nth i x xs ! s = (if s < i then xs ! s else if s = i then x else xs ! (s - 1))"
  by (auto simp: insert_nth_def nth_append nth_Cons' min_def)

lemma nth_remove: "s < length xs - 1 \<Longrightarrow> remove_nth i xs ! s = (if s < i then xs ! s else xs ! Suc s)"
  by (auto simp: remove_nth_def nth_append min_def)

lemma length_insert: "i \<le> length xs \<Longrightarrow> length (insert_nth i x xs) = Suc (length xs)"
  by (simp add: insert_nth_def)

lemma length_remove: "i < length xs \<Longrightarrow> length (remove_nth i xs) = length xs - 1"
  by (simp add: remove_nth_def)

lemma length_move: "i < length xs \<Longrightarrow> j < length xs \<Longrightarrow> length (move_items i j xs) = length xs"
  by (auto simp: move_items_def length_insert length_remove)

lemma nth_move:
  assumes "i < length xs" and "j < length xs" and "s < length xs"
  shows "move_items i j xs ! s =
    (if s = j then xs ! i
     else let u = (if s < j then s else s - 1) in if u < i then xs ! u else xs ! Suc u)"
  using assms
  by (auto simp: move_items_def Let_def nth_insert nth_remove length_remove)

lemma shift_sibling_nth:
  assumes "effect_fits e (length c)" and "s < length c" and "shift_sibling e s = Inr r"
  shows "(case r of None \<Rightarrow> s | Some s' \<Rightarrow> s') < length (effect_content e x c) \<and>
    effect_content e x c ! (case r of None \<Rightarrow> s | Some s' \<Rightarrow> s') = c ! s"
proof (cases e)
  case (MoveEffect p i j)
  note m = nth_move [of "index_nat i" c "index_nat j"] length_move [of "index_nat i" c "index_nat j"]
  show ?thesis
    using assms index_nat_inject [of i j]
    by (auto simp: MoveEffect Let_def m split: if_splits)
qed (use assms in \<open>auto simp: nth_insert length_insert nth_remove length_remove split: if_splits\<close>)

lemma shift_sibling_bound:
  assumes "effect_fits e n" and "s < n" and "shift_sibling e s = Inr (Some s')"
  shows "s' \<le> n"
  using assms by (cases e) (auto simp: Let_def split: if_splits)

text \<open>Only the slot of a deletion or of a replacement retires.\<close>

lemma shift_retired:
  "effect_fits e k \<Longrightarrow> shift_sibling e s = Inl r \<longleftrightarrow>
     (\<exists>p i. s = index_nat i \<and> (e = DeleteEffect p i \<and> r = LocationDeleted \<or> e = ReplaceEffect p i \<and> r = LocationReplaced))"
  by (cases e) (auto simp: Let_def)

section \<open>Paths as lists\<close>

lemma compare_eq_0: "compare_document_paths a b = 0 \<longleftrightarrow> a = b"
  by (induction a b rule: compare_document_paths.induct) auto

lemma document_path_equal_iff: "document_path_equal a b \<longleftrightarrow> a = b"
  by (simp add: document_path_equal_def compare_eq_0)

lemma document_path_is_prefix_iff: "document_path_is_prefix a b \<longleftrightarrow> (\<exists>r. b = a @ r)"
proof -
  have "list_all2 (=) a (take (length a) b) \<longleftrightarrow> a = take (length a) b" by (simp add: list_all2_eq)
  then show ?thesis
    by (auto simp: document_path_is_prefix_def) (metis append_take_drop_id)
qed

definition safe_path :: "document_path \<Rightarrow> bool" where
  "safe_path p \<longleftrightarrow> (\<forall>s \<in> set p. int s \<le> max_safe_integer)"

lemma validate_from_nat: "validate_from i (map (\<lambda>k. IntArg (int k)) p) = Inr q \<longleftrightarrow> safe_path p \<and> q = p"
  by (induction p arbitrary: i q) (auto simp: safe_path_def is_safe_integer_def rbind_Inr_iff)

lemma validate_nat: "validate_document_path (map (\<lambda>k. IntArg (int k)) p) = Inr q \<longleftrightarrow> safe_path p \<and> q = p"
  by (simp add: validate_document_path_def validate_from_nat)

section \<open>Descending through an edit\<close>

lemma descend_append:
  "descend i it (p @ q) = rbind (descend i it p) (\<lambda>x. descend (i + length p) x q)"
proof (induction p arbitrary: i it)
  case (Cons s p)
  show ?case
  proof (cases it)
    case (ItemNode n)
    show ?thesis
      unfolding ItemNode by (simp add: Cons.IH del: is_Node.simps)
  qed simp
qed simp

lemma descend_shift:
  "descend i it p = Inr x \<Longrightarrow> descend j it p = Inr x"
proof (induction p arbitrary: i j it)
  case (Cons s p)
  obtain n where it: "it = ItemNode n" using Cons.prems by (cases it) simp_all
  have n: "is_Node (ItemNode n)" "s < length (content_of n)" "descend (Suc i) (content_of n ! s) p = Inr x"
    using Cons.prems unfolding it by (simp_all del: is_Node.simps split: if_splits)
  show ?case unfolding it using n(1,2) Cons.IH [OF n(3), of "Suc j"] by (simp del: is_Node.simps)
qed simp

lemma is_Node_edit [simp]: "is_Node (edit_item it path f) = is_Node it"
  by (cases it) simp_all

lemma descend_edit_prefix:
  assumes "descend i it p = Inr x"
  shows "descend i (edit_item it (p @ q) f) p = Inr (edit_item x q f)"
  using assms
proof (induction i it p rule: descend.induct)
  case (3 i n s ss)
  then show ?case by (auto split: if_splits)
qed auto

lemma descend_edit_below:
  assumes "descend i it p = Inr (ItemNode n)" and "is_Node (ItemNode n)" and "s < length (f (content_of n))"
  shows "descend i (edit_item it p f) (p @ s # r) = descend (Suc (i + length p)) (f (content_of n) ! s) r"
proof -
  have "descend i (edit_item it p f) p = Inr (edit_item (ItemNode n) [] f)"
    using descend_edit_prefix [OF assms(1), of "[]" f] by simp
  then show ?thesis using assms(2,3) by (simp add: descend_append)
qed

lemma descend_edit_apart:
  assumes "descend i it path = Inr x" and "\<not> prefix p path" and "\<not> prefix path p"
  shows "descend i (edit_item it p f) path = Inr x"
  using assms
proof (induction i it path arbitrary: p rule: descend.induct)
  case (3 i n s ss)
  then obtain t ts where p: "p = t # ts" by (cases p) auto
  then show ?case using 3 by (auto simp: nth_list_update split: if_splits)
qed auto

section \<open>A location follows its item\<close>

lemma transform_unchanged_cases:
  assumes "transform_document_path path e = Inr t" and "effect_fits e n"
  shows "(\<not> strict_prefix (effect_parent e) path \<and> t = Unchanged path) \<or>
    (\<exists>s r. path = effect_parent e @ s # r \<and>
      (case shift_sibling e s of
         Inl reason \<Rightarrow> t = Retired reason
       | Inr None \<Rightarrow> t = Unchanged path
       | Inr (Some s') \<Rightarrow> t = Moved (effect_parent e @ s' # r)))"
proof -
  have e: "e \<noteq> ReplaceRootEffect" "list_all index_ok (effect_indexes e)"
    using assms(2) by (cases e; simp)+
  show ?thesis
  proof (cases "strict_prefix (effect_parent e) path")
    case False
    then have "\<not> document_path_is_prefix (effect_parent e) path \<or> document_path_equal (effect_parent e) path"
      by (auto simp: document_path_is_prefix_iff document_path_equal_iff strict_prefix_def prefix_def)
    then show ?thesis using assms(1) e False by (auto simp: transform_document_path_def)
  next
    case True
    then obtain s r where path: "path = effect_parent e @ s # r"
      by (auto elim!: strict_prefixE')
    have below: "document_path_is_prefix (effect_parent e) path" "\<not> document_path_equal (effect_parent e) path"
      using path by (auto simp: document_path_is_prefix_iff document_path_equal_iff)
    show ?thesis
    proof (intro disjI2 exI conjI)
      show "path = effect_parent e @ s # r" by (rule path)
      show "case shift_sibling e s of
          Inl reason \<Rightarrow> t = Retired reason
        | Inr None \<Rightarrow> t = Unchanged path
        | Inr (Some s') \<Rightarrow> t = Moved (effect_parent e @ s' # r)"
        using assms(1) e below
        by (auto simp: transform_document_path_def Let_def path rbind_Inr_iff validate_nat simp del: map_append list.map
            split: sum.splits option.splits)
    qed
  qed
qed

lemma transform_follows_item:
  fixes y :: hson_item
  assumes t: "transform_document_path path e = Inr t"
    and old: "descend i it path = Inr x"
    and parent: "descend i it (effect_parent e) = Inr (ItemNode n)" "is_Node (ItemNode n)"
    and fits: "effect_fits e (length (content_of n))"
  defines "it' \<equiv> edit_item it (effect_parent e) (effect_content e y)"
  shows "case t of
      Unchanged p \<Rightarrow> p = path \<and>
        descend i it' p = Inr (if prefix p (effect_parent e)
          then edit_item x (drop (length p) (effect_parent e)) (effect_content e y) else x)
    | Moved p \<Rightarrow> descend i it' p = Inr x \<and> strict_prefix (effect_parent e) path
    | Retired r \<Rightarrow> \<exists>s q. path = effect_parent e @ s # q \<and> shift_sibling e s = Inl r
    | InvalidEffect \<Rightarrow> False"
proof -
  let ?p = "effect_parent e"
  let ?f = "effect_content e y"
  consider (apart) "\<not> strict_prefix ?p path" "t = Unchanged path"
    | (below) s r where "path = ?p @ s # r" "case shift_sibling e s of Inl reason \<Rightarrow> t = Retired reason
        | Inr None \<Rightarrow> t = Unchanged path | Inr (Some s') \<Rightarrow> t = Moved (?p @ s' # r)"
    using transform_unchanged_cases [OF t fits] by blast
  then show ?thesis
  proof cases
    case apart
    show ?thesis
    proof (cases "prefix path ?p")
      case True
      then obtain q where q: "?p = path @ q" by (auto simp: prefix_def)
      show ?thesis
        using apart descend_edit_prefix [OF old, of q ?f] by (simp add: it'_def q)
    next
      case False
      then have "\<not> prefix ?p path" using apart(1) by (auto simp: strict_prefix_def)
      then show ?thesis
        using apart False descend_edit_apart [OF old] by (simp add: it'_def)
    qed
  next
    case (below s r)
    have s: "s < length (content_of n)" and rest: "descend (Suc (i + length ?p)) (content_of n ! s) r = Inr x"
      using old parent unfolding below(1) by (auto simp: descend_append split: if_splits)
    have moved: "descend i it' (?p @ s' # r) = Inr x"
      if "s' < length (?f (content_of n))" "?f (content_of n) ! s' = content_of n ! s" for s'
      using descend_edit_below [OF parent, of s' ?f r] that rest by (simp add: it'_def)
    have notpre: "\<not> prefix path ?p" by (simp add: below(1))
    show ?thesis
    proof (cases "shift_sibling e s")
      case (Inl reason)
      then show ?thesis using below by auto
    next
      case (Inr w)
      then show ?thesis
        using below moved shift_sibling_nth [OF fits s Inr, of y] notpre
        by (cases w) (auto simp: strict_prefix_def)
    qed
  qed
qed

lemma transform_retired:
  assumes t: "transform_document_path path e = Inr t" and fits: "effect_fits e k"
  shows "t = Retired r \<longleftrightarrow>
    (\<exists>i q. path = effect_parent e @ index_nat i # q \<and>
       (e = DeleteEffect (effect_parent e) i \<and> r = LocationDeleted \<or>
        e = ReplaceEffect (effect_parent e) i \<and> r = LocationReplaced))"
proof -
  consider (apart) "\<not> strict_prefix (effect_parent e) path" "t = Unchanged path"
    | (below) s q where "path = effect_parent e @ s # q" "case shift_sibling e s of Inl reason \<Rightarrow> t = Retired reason
        | Inr None \<Rightarrow> t = Unchanged path | Inr (Some s') \<Rightarrow> t = Moved (effect_parent e @ s' # q)"
    using transform_unchanged_cases [OF t fits] by blast
  then show ?thesis
  proof cases
    case apart
    then show ?thesis by (auto simp: strict_prefix_def prefix_def)
  next
    case (below s q)
    have "t = Retired r \<longleftrightarrow> shift_sibling e s = Inl r"
      using below(2) by (auto split: sum.splits option.splits)
    also have "\<dots> \<longleftrightarrow> (\<exists>i q. path = effect_parent e @ index_nat i # q \<and>
       (e = DeleteEffect (effect_parent e) i \<and> r = LocationDeleted \<or>
        e = ReplaceEffect (effect_parent e) i \<and> r = LocationReplaced))"
      using shift_retired [OF fits, of s r] below(1) by (cases e) auto
    finally show ?thesis .
  qed
qed

section \<open>Editing a document\<close>

text \<open>Where the document cluster or the top-level element sits below the owned root.\<close>

definition base_position :: "hson_node \<Rightarrow> root_mode \<Rightarrow> nat list" where
  "base_position root mode =
     (if tag_of root = ELEM_TAG then [] else [0]) @ (if mode = FragmentMode then [] else [0])"

definition edit_document ::
    "hson_node \<Rightarrow> root_mode \<Rightarrow> document_path \<Rightarrow> (hson_item list \<Rightarrow> hson_item list) \<Rightarrow> hson_node" where
  "edit_document root mode p f = edit_node root (base_position root mode @ p) f"

lemma is_ordinary_edit [simp]: "is_ordinary_element_node (edit_node n p f) = is_ordinary_element_node n"
  by (simp add: is_ordinary_element_node_def)

lemma edit_document_base:
  assumes "document_path_base root mode = Inr b"
  shows "document_path_base (edit_document root mode p f) mode = Inr (edit_node b p f)"
  using assms
  by (auto simp: document_path_base_def edit_document_def base_position_def
      split: if_splits list.splits hson_item.splits)

lemma resolve_document_Inr:
  "resolve_document_path root mode p = Inr x \<longleftrightarrow>
    (\<exists>b. document_path_base root mode = Inr b \<and> descend 0 (ItemNode b) p = Inr x)"
  by (auto simp: resolve_document_path_def rbind_Inr_iff)

text \<open>
  C13: a known location follows its item through every content effect. When an insertion, a
  removal, a replacement or a move is applied to the content of a node of the document, the
  transformed location of any other item resolves to that same item afterwards; the location of
  an ancestor of the edit, or of the edited node, stays where it was and resolves to the edited
  node; and a location is retired exactly when it goes through the slot that the effect deletes or
  replaces, with the reason that says which.
\<close>

theorem document_location_follows_item:
  assumes "transform_document_path path e = Inr t"
    and "resolve_document_path root mode path = Inr x"
    and "resolve_document_path root mode (effect_parent e) = Inr (ItemNode n)" and "is_Node (ItemNode n)"
    and "effect_fits e (length (content_of n))"
  shows "(case t of
      Unchanged p \<Rightarrow> p = path \<and>
        resolve_document_path (edit_document root mode (effect_parent e) (effect_content e y)) mode p =
          Inr (if prefix p (effect_parent e)
            then edit_item x (drop (length p) (effect_parent e)) (effect_content e y) else x)
    | Moved p \<Rightarrow>
        resolve_document_path (edit_document root mode (effect_parent e) (effect_content e y)) mode p = Inr x \<and>
        strict_prefix (effect_parent e) path
    | Retired r \<Rightarrow> True
    | InvalidEffect \<Rightarrow> False) \<and>
    (\<forall>r. t = Retired r \<longleftrightarrow>
       (\<exists>i q. path = effect_parent e @ index_nat i # q \<and>
         (e = DeleteEffect (effect_parent e) i \<and> r = LocationDeleted \<or>
          e = ReplaceEffect (effect_parent e) i \<and> r = LocationReplaced)))"
proof -
  obtain b where b: "document_path_base root mode = Inr b" "descend 0 (ItemNode b) path = Inr x"
    "descend 0 (ItemNode b) (effect_parent e) = Inr (ItemNode n)"
    using assms(2,3) by (auto simp: resolve_document_Inr)
  note new = edit_document_base [OF b(1), of "effect_parent e" "effect_content e y"]
  note follows = transform_follows_item [OF assms(1) b(2,3) assms(4,5), of y]
  have "t = Retired r \<longleftrightarrow>
       (\<exists>i q. path = effect_parent e @ index_nat i # q \<and>
         (e = DeleteEffect (effect_parent e) i \<and> r = LocationDeleted \<or>
          e = ReplaceEffect (effect_parent e) i \<and> r = LocationReplaced))" for r
    by (rule transform_retired [OF assms(1,5)])
  with follows show ?thesis
    by (simp add: resolve_document_path_def new split: path_transform.splits)
qed

definition sample_document :: hson_node where
  "sample_document = bare_node ROOT_TAG [ItemNode (bare_node ELEM_TAG
     [ItemNode (bare_node (js ''p'') [ItemNode (bare_node STR_TAG [ItemPrim (PStr (js ''a''))])]),
      ItemNode (bare_node (js ''hr'') [])])]"

theorem document_location_follows_item_witness:
  "resolve_document_path (edit_document sample_document FragmentMode [] (remove_nth 0)) FragmentMode [0] =
    Inr (ItemNode (bare_node (js ''hr'') []))"
proof -
  define e where "e = DeleteEffect [] (IntArg 0)"
  have t: "transform_document_path [1] e = Inr (Moved [0])"
    unfolding e_def by (simp add: transform_document_path_def document_path_is_prefix_iff document_path_equal_iff
        index_ok_def index_nat_def is_safe_integer_def max_safe_integer_def validate_document_path_def rbind_def)
  have old: "resolve_document_path sample_document FragmentMode [1] = Inr (ItemNode (bare_node (js ''hr'') []))"
    "\<exists>n. resolve_document_path sample_document FragmentMode (effect_parent e) = Inr (ItemNode n) \<and>
       is_Node (ItemNode n) \<and> effect_fits e (length (content_of n))"
    by (simp_all add: e_def resolve_document_path_def document_path_base_def sample_document_def tags_neq
        old_shaped_meta_def index_ok_def index_nat_def is_safe_integer_def max_safe_integer_def)
  then obtain n where n: "resolve_document_path sample_document FragmentMode (effect_parent e) = Inr (ItemNode n)"
    "is_Node (ItemNode n)" "effect_fits e (length (content_of n))" by auto
  have f: "effect_content e y = remove_nth 0" for y by (simp add: e_def index_nat_def fun_eq_iff)
  show ?thesis
    using document_location_follows_item [OF t old(1) n] unfolding f by (simp add: e_def)
qed

end
