(* ===== verification/Document_Identity.thy ===== *)
theory Document_Identity
  imports Document_Edit Persisted_Quid
begin

text \<open>
  The identity overlay of a document (\<open>api/livemap/livemap.document.identity.ts\<close>): the two maps
  between persisted identities and canonical paths, their construction by a traversal of the
  owned root, and their incremental reconciliation with one effect. Node references are trees
  here, so the visited sets of the code never skip a node. The module-level counters and weak
  maps, which no operation reads back, are left out.
\<close>

section \<open>The overlay\<close>

datatype identity_error =
    MalformedIdentity
  | DuplicateIdentity
  | OverlayInvariant
  | IdentityPathFault document_path_fault

record identity_overlay =
  quid_to_path :: "(js_string \<times> document_path) list"
  path_to_quid :: "(document_path \<times> js_string) list"

datatype identity_effect =
    IdentityPreserved js_string document_path
  | IdentityMoved js_string document_path document_path
  | IdentityRetired js_string document_path
  | IdentityIntroduced js_string document_path

definition empty_overlay :: identity_overlay where
  "empty_overlay = \<lparr> quid_to_path = [], path_to_quid = [] \<rparr>"

definition path_for_quid :: "identity_overlay \<Rightarrow> js_string \<Rightarrow> document_path option" where
  "path_for_quid ov q = map_of (quid_to_path ov) q"

definition quid_at_path :: "identity_overlay \<Rightarrow> document_path \<Rightarrow> js_string option" where
  "quid_at_path ov p = map_of (path_to_quid ov) p"

definition add_overlay_entry ::
    "js_string \<Rightarrow> document_path \<Rightarrow> identity_overlay \<Rightarrow> identity_error + identity_overlay" where
  "add_overlay_entry q p ov =
     (if (case path_for_quid ov q of None \<Rightarrow> False | Some p' \<Rightarrow> \<not> document_path_equal p' p)
        then Inl DuplicateIdentity
      else if (case quid_at_path ov p of None \<Rightarrow> False | Some q' \<Rightarrow> q' \<noteq> q) then Inl OverlayInvariant
      else Inr \<lparr> quid_to_path = put_field q p (quid_to_path ov), path_to_quid = put_field p q (path_to_quid ov) \<rparr>)"

fun map_identity_error :: "quid_error \<Rightarrow> identity_error" where
  "map_identity_error DuplicateQuid = DuplicateIdentity"
| "map_identity_error IneligibleQuid = MalformedIdentity"
| "map_identity_error MalformedQuid = MalformedIdentity"

section \<open>Building\<close>

text \<open>
  Where a visited node stands with respect to the canonical path root: at a path below it, on the
  way to it with the remaining indexes, or outside. On a tree the identity tests of the code are
  tests of this position.
\<close>

datatype locator = AtPath document_path | Toward "nat list" | Outside

fun child_locator :: "locator \<Rightarrow> nat \<Rightarrow> locator" where
  "child_locator (AtPath p) i = AtPath (p @ [i])"
| "child_locator (Toward (k # ks)) i = (if i = k then (if ks = [] then AtPath [] else Toward ks) else Outside)"
| "child_locator (Toward []) i = Outside"
| "child_locator Outside i = Outside"

fun indexed_nodes :: "nat \<Rightarrow> hson_item list \<Rightarrow> (nat \<times> hson_node) list" where
  "indexed_nodes i [] = []"
| "indexed_nodes i (ItemPrim p # items) = indexed_nodes (Suc i) items"
| "indexed_nodes i (ItemNode c # items) =
     (if is_Node (ItemNode c) then (i, c) # indexed_nodes (Suc i) items else indexed_nodes (Suc i) items)"

text \<open>The frames pushed for a node: its child nodes, the first one on top.\<close>

definition identity_frames :: "hson_node \<Rightarrow> locator \<Rightarrow> (hson_node \<times> locator) list" where
  "identity_frames n loc = map (\<lambda>(i, c). (c, child_locator loc i)) (indexed_nodes 0 (content_of n))"

definition visit_identity ::
    "hson_node \<Rightarrow> locator \<Rightarrow> identity_overlay \<Rightarrow> identity_error + identity_overlay" where
  "visit_identity n loc ov =
     (case read_hson_node_quid n of
        Inl e \<Rightarrow> Inl (map_identity_error e)
      | Inr None \<Rightarrow> Inr ov
      | Inr (Some q) \<Rightarrow>
          (case loc of AtPath p \<Rightarrow> add_overlay_entry q p ov | _ \<Rightarrow> Inl OverlayInvariant))"

definition frames_size :: "(hson_node \<times> locator) list \<Rightarrow> nat" where
  "frames_size fs = sum_list (map (\<lambda>f. Suc (size (fst f))) fs)"

lemma identity_frames_size: "frames_size (identity_frames n loc) < Suc (size n)"
proof -
  have "sum_list (map (\<lambda>x. Suc (size (snd x))) (indexed_nodes i items)) \<le> size_list size items" for i items
    by (induction i items rule: indexed_nodes.induct) auto
  from this [of 0 "content_of n"] show ?thesis
    by (cases n) (simp add: frames_size_def identity_frames_def comp_def case_prod_unfold)
qed

function build_loop ::
    "(hson_node \<times> locator) list \<Rightarrow> identity_overlay \<Rightarrow> identity_error + identity_overlay" where
  "build_loop [] ov = Inr ov"
| "build_loop ((n, loc) # stack) ov =
     rbind (visit_identity n loc ov) (build_loop (identity_frames n loc @ stack))"
  by pat_completeness auto
termination
  by (relation "measure (\<lambda>(stack, ov). frames_size stack)")
    (use identity_frames_size in \<open>auto simp: frames_size_def\<close>)

definition build_livemap_document_identity_overlay ::
    "hson_node \<Rightarrow> root_mode \<Rightarrow> identity_error + identity_overlay" where
  "build_livemap_document_identity_overlay root mode =
     (if mode = FragmentMode \<and> tag_of root = ROOT_TAG \<and> content_of root = []
      then build_loop [(root, Outside)] empty_overlay
      else case resolve_document_path root mode [] of
        Inl e \<Rightarrow> Inl (IdentityPathFault e)
      | Inr base \<Rightarrow>
          if \<not> is_Node base then Inl OverlayInvariant
          else build_loop
            [(root, if base_position root mode = [] then AtPath [] else Toward (base_position root mode))]
            empty_overlay)"

section \<open>Reconciling\<close>

text \<open>The entries of the current overlay through one effect: the new entries, the evidence and how many changed.\<close>

fun reconcile_entries ::
    "path_effect \<Rightarrow> (js_string \<times> document_path) list \<Rightarrow> identity_overlay \<Rightarrow>
     identity_error + identity_overlay \<times> identity_effect list" where
  "reconcile_entries e [] ov = Inr (ov, [])"
| "reconcile_entries e ((q, p) # es) ov =
     (case transform_document_path p e of
        Inl f \<Rightarrow> Inl (IdentityPathFault f)
      | Inr InvalidEffect \<Rightarrow> Inl OverlayInvariant
      | Inr (Retired r) \<Rightarrow>
          rbind (reconcile_entries e es ov) (\<lambda>(ov', effs). Inr (ov', IdentityRetired q p # effs))
      | Inr (Unchanged p') \<Rightarrow> rbind (add_overlay_entry q p' ov) (reconcile_entries e es)
      | Inr (Moved p') \<Rightarrow>
          rbind (add_overlay_entry q p' ov) (\<lambda>ov1. rbind (reconcile_entries e es ov1)
            (\<lambda>(ov', effs). Inr (ov', IdentityMoved q p p' # effs))))"

text \<open>\<open>scan_incoming_identity_claims\<close>: the claims of an incoming subtree in visiting order.\<close>

function scan_incoming ::
    "(hson_node \<times> locator) list \<Rightarrow> (js_string \<times> document_path) list \<Rightarrow>
     identity_error + (js_string \<times> document_path) list" where
  "scan_incoming [] local = Inr local"
| "scan_incoming ((n, loc) # stack) local =
     (case (read_hson_node_quid n, loc) of
        (Inl e, _) \<Rightarrow> Inl (map_identity_error e)
      | (Inr (Some q), AtPath p) \<Rightarrow>
          if (case map_of local q of None \<Rightarrow> False | Some p' \<Rightarrow> \<not> document_path_equal p' p)
          then Inl DuplicateIdentity
          else scan_incoming (identity_frames n loc @ stack) (put_field q p local)
      | _ \<Rightarrow> scan_incoming (identity_frames n loc @ stack) local)"
  by pat_completeness auto
termination
  by (relation "measure (\<lambda>(stack, local). frames_size stack)")
    (use identity_frames_size in \<open>auto simp: frames_size_def\<close>)

fun add_claims ::
    "(js_string \<times> document_path) list \<Rightarrow> identity_overlay \<Rightarrow> identity_error + identity_overlay" where
  "add_claims [] ov = Inr ov"
| "add_claims ((q, p) # cs) ov = rbind (add_overlay_entry q p ov) (add_claims cs)"

definition incoming_claims ::
    "(hson_item \<times> document_path) option \<Rightarrow> identity_error + (js_string \<times> document_path) list" where
  "incoming_claims incoming =
     (case incoming of
        Some (ItemNode n, p) \<Rightarrow> if is_Node (ItemNode n) then scan_incoming [(n, AtPath p)] [] else Inr []
      | _ \<Rightarrow> Inr [])"

definition reconcile_livemap_document_identity_overlay ::
    "identity_overlay \<Rightarrow> path_effect \<Rightarrow> (hson_item \<times> document_path) option \<Rightarrow>
     identity_error + identity_overlay \<times> identity_effect list" where
  "reconcile_livemap_document_identity_overlay current e incoming =
     rbind (reconcile_entries e (quid_to_path current) empty_overlay) (\<lambda>(ov, effs).
       rbind (incoming_claims incoming) (\<lambda>claims.
         rbind (add_claims claims ov) (\<lambda>ov'.
           (let effects = effs @ map (\<lambda>(q, p). IdentityIntroduced q p) claims
            in if effects = [] then Inr (current, []) else Inr (ov', effects)))))"

definition preserve_livemap_document_identity_at_path ::
    "identity_overlay \<Rightarrow> document_path \<Rightarrow> identity_overlay \<times> identity_effect list" where
  "preserve_livemap_document_identity_at_path ov p =
     (ov, case quid_at_path ov p of None \<Rightarrow> [] | Some q \<Rightarrow> [IdentityPreserved q p])"

definition register_livemap_document_identity_at_path ::
    "identity_overlay \<Rightarrow> js_string \<Rightarrow> document_path \<Rightarrow> identity_error + identity_overlay \<times> identity_effect list" where
  "register_livemap_document_identity_at_path ov q p =
     (if (case path_for_quid ov q of None \<Rightarrow> False | Some p' \<Rightarrow> \<not> document_path_equal p' p)
        then Inl DuplicateIdentity
      else case quid_at_path ov p of
        Some q' \<Rightarrow> if q' = q then Inr (ov, []) else Inl OverlayInvariant
      | None \<Rightarrow>
          rbind (add_overlay_entry q p
              \<lparr> quid_to_path = quid_to_path ov, path_to_quid = map (\<lambda>(q, p). (p, q)) (quid_to_path ov) \<rparr>)
            (\<lambda>ov'. Inr (ov', [IdentityIntroduced q p])))"

definition replace_livemap_document_identity_overlay_effects ::
    "identity_overlay \<Rightarrow> identity_overlay \<Rightarrow> identity_effect list" where
  "replace_livemap_document_identity_overlay_effects current replacement =
     map (\<lambda>(q, p). IdentityRetired q p) (quid_to_path current) @
     map (\<lambda>(q, p). IdentityIntroduced q p) (quid_to_path replacement)"

definition assert_livemap_document_identity_overlay ::
    "hson_node \<Rightarrow> root_mode \<Rightarrow> identity_overlay \<Rightarrow> identity_error + unit" where
  "assert_livemap_document_identity_overlay root mode ov =
     rbind (build_livemap_document_identity_overlay root mode) (\<lambda>expected.
       if length (quid_to_path ov) \<noteq> length (quid_to_path expected) then Inl OverlayInvariant
       else if list_all (\<lambda>(q, p).
           (case path_for_quid ov q of None \<Rightarrow> False | Some p' \<Rightarrow> document_path_equal p' p) \<and>
           quid_at_path ov p = Some q) (quid_to_path expected)
         then Inr () else Inl OverlayInvariant)"

end
