(* ===== verification/Identity_Epoch.thy ===== *)
theory Identity_Epoch
  imports Document_Identity
begin

text \<open>
  Identity epochs (\<open>api/livemap/livemap.identity-epoch.ts\<close>): the ledger of every identity issued in
  the lifetime of one live map. A ledger is the insertion-ordered list of its entries. The weak maps
  that tie a ledger to its entries and an owner to its controller are lookups that always succeed on
  values made here.
\<close>

type_synonym ledger = "js_string list"

abbreviation ledger_ok :: "ledger \<Rightarrow> bool" where
  "ledger_ok l \<equiv> list_all (\<lambda>q. is_persisted_quid (PStr q)) l"

datatype epoch_error = SameEpochQuidReuse | IdentityEpochInvariant | EpochExhausted

record identity_epoch =
  epoch_owner :: nat
  epoch_current :: nat
  epoch_issued :: ledger

definition set_add :: "'a \<Rightarrow> 'a list \<Rightarrow> 'a list" where
  "set_add x xs = (if x \<in> set xs then xs else xs @ [x])"

lemma set_add_simps [simp]:
  "set (set_add x xs) = insert x (set xs)" "distinct (set_add x xs) \<longleftrightarrow> distinct xs"
  by (auto simp: set_add_def)

fun collect_quids :: "js_string list \<Rightarrow> js_string list \<Rightarrow> epoch_error + js_string list" where
  "collect_quids entries [] = Inr entries"
| "collect_quids entries (q # qs) =
     (if \<not> is_persisted_quid (PStr q) then Inl IdentityEpochInvariant
      else collect_quids (set_add q entries) qs)"

definition make_livemap_issued_quid_ledger :: "js_string list \<Rightarrow> epoch_error + ledger" where
  "make_livemap_issued_quid_ledger quids = collect_quids [] quids"

definition validated_quid_set :: "js_string list \<Rightarrow> epoch_error + js_string list" where
  "validated_quid_set quids = collect_quids [] quids"

text \<open>The loop over the identities that are active afterwards.\<close>

fun stage_entries :: "ledger \<Rightarrow> js_string list \<Rightarrow> js_string list \<Rightarrow> js_string list \<Rightarrow> epoch_error + js_string list" where
  "stage_entries current before next [] = Inr next"
| "stage_entries current before next (q # qs) =
     (if q \<in> set current \<and> q \<notin> set before then Inl SameEpochQuidReuse
      else stage_entries current before (set_add q next) qs)"

definition stage_livemap_identity_epoch :: "ledger \<Rightarrow> js_string list \<Rightarrow> js_string list \<Rightarrow> epoch_error + ledger" where
  "stage_livemap_identity_epoch current beforeActive afterActive =
     rbind (validated_quid_set beforeActive) (\<lambda>before.
     rbind (validated_quid_set afterActive) (\<lambda>after.
       if \<not> list_all (\<lambda>q. q \<in> set current) before then Inl IdentityEpochInvariant
       else rbind (stage_entries current before current after) make_livemap_issued_quid_ledger))"

definition retain_livemap_identity_epoch :: "ledger \<Rightarrow> js_string list \<Rightarrow> epoch_error + ledger" where
  "retain_livemap_identity_epoch current restored =
     rbind (validated_quid_set restored) (\<lambda>qs.
       if list_all (\<lambda>q. q \<in> set current) qs then Inr current else Inl IdentityEpochInvariant)"

definition assert_monotonic_ledger :: "ledger \<Rightarrow> ledger \<Rightarrow> epoch_error + unit" where
  "assert_monotonic_ledger current candidate =
     rguard (list_all (\<lambda>q. q \<in> set candidate) current) IdentityEpochInvariant"

definition make_livemap_identity_epoch :: "nat \<Rightarrow> js_string list \<Rightarrow> epoch_error + identity_epoch" where
  "make_livemap_identity_epoch owner active =
     rbind (make_livemap_issued_quid_ledger active) (\<lambda>issued.
       Inr \<lparr> epoch_owner = owner, epoch_current = 0, epoch_issued = issued \<rparr>)"

definition epoch_install :: "ledger \<Rightarrow> identity_epoch \<Rightarrow> epoch_error + identity_epoch" where
  "epoch_install candidate e =
     rbind (assert_monotonic_ledger (epoch_issued e) candidate) (\<lambda>u. Inr (e\<lparr> epoch_issued := candidate \<rparr>))"

definition epoch_replace :: "js_string list \<Rightarrow> identity_epoch \<Rightarrow> epoch_error + identity_epoch" where
  "epoch_replace active e =
     (if \<not> is_safe_integer (IntArg (int (epoch_current e + 1))) then Inl EpochExhausted
      else rbind (make_livemap_issued_quid_ledger active) (\<lambda>issued.
        Inr (e\<lparr> epoch_current := epoch_current e + 1, epoch_issued := issued \<rparr>)))"

definition livemap_identity_epoch_accounting :: "identity_epoch \<Rightarrow> nat \<times> nat" where
  "livemap_identity_epoch_accounting e = (epoch_current e, length (epoch_issued e))"

section \<open>What staging does\<close>

lemma collect_quids_Inr:
  "collect_quids entries qs = Inr r \<Longrightarrow>
    set r = set entries \<union> set qs \<and> (distinct entries \<longrightarrow> distinct r) \<and> (\<forall>q \<in> set qs. is_persisted_quid (PStr q))"
  by (induction qs arbitrary: entries) (fastforce split: if_splits)+

lemma collect_quids_total:
  "\<forall>q \<in> set qs. is_persisted_quid (PStr q) \<Longrightarrow> \<exists>r. collect_quids entries qs = Inr r"
  by (induction qs arbitrary: entries) auto

lemma stage_entries_Inr:
  "stage_entries current before nxt after = Inr r \<Longrightarrow>
    set r = set nxt \<union> set after \<and> (\<forall>q \<in> set after. q \<in> set current \<longrightarrow> q \<in> set before)"
  by (induction after arbitrary: nxt) (auto split: if_splits)

lemma stage_entries_total:
  "\<forall>q \<in> set after. q \<in> set current \<longrightarrow> q \<in> set before \<Longrightarrow> \<exists>r. stage_entries current before nxt after = Inr r"
  by (induction after arbitrary: nxt) auto

text \<open>
  Staging succeeds exactly when every active identity is issued, and every identity active afterwards
  is either new to the ledger or was active before. The ledger grows by the identities active
  afterwards.
\<close>

lemma stage_Inr:
  assumes "stage_livemap_identity_epoch current before after = Inr r"
  shows "set r = set current \<union> set after \<and> distinct r \<and> set before \<subseteq> set current \<and>
    (\<forall>q \<in> set after. q \<in> set current \<longrightarrow> q \<in> set before) \<and> ledger_ok r"
proof -
  obtain b a n where s: "collect_quids [] before = Inr b" "collect_quids [] after = Inr a"
    "list_all (\<lambda>q. q \<in> set current) b" "stage_entries current b current a = Inr n" "collect_quids [] n = Inr r"
    using assms by (auto simp: stage_livemap_identity_epoch_def validated_quid_set_def make_livemap_issued_quid_ledger_def
        rbind_Inr_iff split: if_splits)
  have "set b = set before" "set a = set after" "set r = set n" "distinct r" "\<forall>q \<in> set n. is_persisted_quid (PStr q)"
    using collect_quids_Inr [OF s(1)] collect_quids_Inr [OF s(2)] collect_quids_Inr [OF s(5)] by simp_all
  then show ?thesis using stage_entries_Inr [OF s(4)] s(3) by (auto simp: list_all_iff)
qed

lemma stage_total:
  assumes "\<forall>q \<in> set before \<union> set current \<union> set after. is_persisted_quid (PStr q)" and "set before \<subseteq> set current"
    and "\<forall>q \<in> set after. q \<in> set current \<longrightarrow> q \<in> set before"
  shows "\<exists>r. stage_livemap_identity_epoch current before after = Inr r"
proof -
  obtain b a where s: "collect_quids [] before = Inr b" "collect_quids [] after = Inr a"
    using collect_quids_total [of before "[]"] collect_quids_total [of after "[]"] assms(1) by auto
  have sets: "set b = set before" "set a = set after" using collect_quids_Inr [OF s(1)] collect_quids_Inr [OF s(2)] by simp_all
  obtain n where n: "stage_entries current b current a = Inr n"
    using stage_entries_total [of a current b current] assms(3) sets by auto
  then have "\<forall>q \<in> set n. is_persisted_quid (PStr q)" using stage_entries_Inr [OF n] sets assms(1) by auto
  then obtain r where "collect_quids [] n = Inr r" using collect_quids_total by blast
  then show ?thesis
    using s n sets assms(2)
    by (auto simp: stage_livemap_identity_epoch_def validated_quid_set_def make_livemap_issued_quid_ledger_def list_all_iff)
qed

lemma retain_Inr:
  "retain_livemap_identity_epoch current restored = Inr r \<Longrightarrow> r = current \<and> set restored \<subseteq> set current"
  using collect_quids_Inr [of "[]" restored]
  by (auto simp: retain_livemap_identity_epoch_def validated_quid_set_def rbind_Inr_iff list_all_iff split: if_splits)

lemma epoch_install_Inr:
  "epoch_install l e = Inr e' \<longleftrightarrow> set (epoch_issued e) \<subseteq> set l \<and> e' = e\<lparr> epoch_issued := l \<rparr>"
  by (auto simp: epoch_install_def assert_monotonic_ledger_def rbind_Inr_iff rguard_Inr_iff list_all_iff)

lemma epoch_replace_Inr:
  "epoch_replace qs e = Inr e' \<Longrightarrow>
    epoch_owner e' = epoch_owner e \<and> epoch_current e' = epoch_current e + 1 \<and> set (epoch_issued e') = set qs \<and>
    ledger_ok (epoch_issued e')"
  using collect_quids_Inr [of "[]" qs]
  by (auto simp: epoch_replace_def make_livemap_issued_quid_ledger_def rbind_Inr_iff list_all_iff split: if_splits)

end
