(* ===== verification/Document_Root.thy ===== *)
theory Document_Root
  imports Document_Identity Invariants Array_Index
begin

text \<open>
  Kinds of document root (\<open>api/livemap/livemap.document.ts\<close>): the classification of a root as element,
  fragment, standalone text or projected value, the cluster whose paths are the document's paths, and
  the detached reads of a document.
\<close>

datatype root_fault =
    MalformedRoot
  | UnsupportedRootTag
  | PrimitiveTopLevel
  | UnsupportedCluster
  | ModeMismatch root_mode

fun is_ordinary_element_item :: "hson_item \<Rightarrow> bool" where
  "is_ordinary_element_item (ItemNode n) = is_ordinary_element_node n"
| "is_ordinary_element_item (ItemPrim p) = False"

definition classify_document_cluster :: "hson_node \<Rightarrow> root_mode" where
  "classify_document_cluster cluster =
     (case content_of cluster of
        [it] \<Rightarrow> if is_ordinary_element_item it then ElementMode else FragmentMode
      | _ \<Rightarrow> FragmentMode)"

definition classify_live_root_shape :: "hson_node \<Rightarrow> root_fault + root_mode" where
  "classify_live_root_shape root =
     (if tag_of root = OBJ_TAG then Inr DataObject
      else if tag_of root = ARR_TAG then Inr DataArray
      else if tag_of root = ELEM_TAG then Inr (classify_document_cluster root)
      else if tag_of root \<noteq> ROOT_TAG then Inl UnsupportedRootTag
      else case content_of root of
        [] \<Rightarrow> Inr FragmentMode
      | it # its \<Rightarrow>
          (case it of
             ItemPrim p \<Rightarrow> Inl PrimitiveTopLevel
           | ItemNode cluster \<Rightarrow>
               if \<not> is_Node it then Inl PrimitiveTopLevel
               else if tag_of cluster = OBJ_TAG then Inr DataObject
               else if tag_of cluster = ARR_TAG then Inr DataArray
               else if tag_of cluster \<noteq> ELEM_TAG then Inl UnsupportedCluster
               else Inr (classify_document_cluster cluster)))"

definition classify_live_root_mode :: "hson_node \<Rightarrow> root_fault + root_mode" where
  "classify_live_root_mode root =
     (case assert_invariants root of
        Inl e \<Rightarrow> Inl MalformedRoot
      | Inr u \<Rightarrow> classify_live_root_shape root)"

definition assert_live_root_mode :: "hson_node \<Rightarrow> root_mode list \<Rightarrow> root_fault + root_mode" where
  "assert_live_root_mode root accepted =
     rbind (classify_live_root_mode root) (\<lambda>observed.
       if observed \<in> set accepted then Inr observed else Inl (ModeMismatch observed))"

definition document_cluster :: "hson_node \<Rightarrow> hson_node option" where
  "document_cluster root =
     (if tag_of root = ELEM_TAG then Some root
      else case content_of root of
        ItemNode c # its \<Rightarrow> if is_Node (ItemNode c) \<and> tag_of c = ELEM_TAG then Some c else None
      | _ \<Rightarrow> None)"

definition detached_document_content :: "hson_node \<Rightarrow> hson_item list option" where
  "detached_document_content root =
     (if tag_of root = ROOT_TAG \<and> content_of root = [] then Some []
      else map_option content_of (document_cluster root))"

definition detached_top_level_element :: "hson_node \<Rightarrow> hson_node option" where
  "detached_top_level_element root =
     (case document_cluster root of
        Some c \<Rightarrow>
          (case content_of c of
             [ItemNode e] \<Rightarrow> if is_ordinary_element_node e then Some e else None
           | _ \<Rightarrow> None)
      | None \<Rightarrow> None)"

text \<open>\<open>byQuid\<close> of the document facade: the node an active identity names.\<close>

definition document_by_quid ::
    "hson_node \<Rightarrow> root_mode \<Rightarrow> identity_overlay \<Rightarrow> prim \<Rightarrow> document_path_fault + hson_node option" where
  "document_by_quid root mode ov q =
     (case q of
        PStr s \<Rightarrow>
          if \<not> is_persisted_quid q then Inr None
          else (case path_for_quid ov s of
                  None \<Rightarrow> Inr None
                | Some p \<Rightarrow>
                    rbind (resolve_document_path root mode p) (\<lambda>it.
                      Inr (case it of ItemNode n \<Rightarrow> if is_Node it then Some n else None | ItemPrim x \<Rightarrow> None)))
      | _ \<Rightarrow> Inr None)"

end
