(* ===== verification/Public_Attrs.thy ===== *)
theory Public_Attrs
  imports Hson_Metadata Binary_Laws
begin

text \<open>
  Public attributes (\<open>core/public-attrs.ts\<close>, \<open>core/public-attr-transitions.ts\<close> and
  \<open>canonical_inline_style\<close> of \<open>core/inline-style.ts\<close>): names, values, the canonical bag and the
  transitions between bags. A bag is the list of its own entries in enumeration order.
\<close>

section \<open>Names and values\<close>

definition is_public_attr_name :: "js_string \<Rightarrow> bool" where
  "is_public_attr_name v \<longleftrightarrow>
     is_valid_hson_attribute_name v \<and> \<not> starts_with (to_lower v) HSON_META_MARKUP_PREFIX \<and>
     \<not> starts_with (to_lower v) HSON_META_TRANSIT_PREFIX \<and> \<not> starts_with (to_lower v) TRANSIT_PREFIX"

text \<open>The value of a typed CSS record and, where it has one, its unit.\<close>

definition inspect_typed_css_value :: "attr_value \<Rightarrow> (attr_value \<times> attr_value option) option" where
  "inspect_typed_css_value v =
     (case v of
        ARec es \<Rightarrow>
          if is_typed_css_value v
          then Some (the (map_of es (js ''value'')), map_of es (js ''unit'')) else None
      | _ \<Rightarrow> None)"

definition canonical_style_item :: "attr_value \<Rightarrow> attr_value" where
  "canonical_style_item item =
     (case inspect_typed_css_value item of
        Some (v, Some u) \<Rightarrow> ARec [(js ''value'', v), (js ''unit'', u)]
      | Some (v, None) \<Rightarrow> ARec [(js ''value'', v)]
      | None \<Rightarrow> item)"

text \<open>
  \<open>style[key] = item\<close> on an ordinary object is no own property for the key \<open>__proto__\<close>, and the
  engine lists integer keys first.
\<close>

definition PROTO_KEY :: js_string where
  "PROTO_KEY = js ''__proto__''"

definition canonical_inline_style :: "attr_value \<Rightarrow> attr_value option" where
  "canonical_inline_style v =
     (case v of
        ARec es \<Rightarrow>
          if list_all (\<lambda>(k, item). item \<noteq> AUndef \<and> is_css_declaration_value item) (sort_key fst es)
          then Some (ARec (own_key_order (map (\<lambda>(k, item). (k, canonical_style_item item))
            (filter (\<lambda>(k, item). k \<noteq> PROTO_KEY) (sort_key fst es)))))
          else None
      | _ \<Rightarrow> None)"

definition is_finite_primitive :: "attr_value \<Rightarrow> bool" where
  "is_finite_primitive v =
     (case v of APrim (PNum x) \<Rightarrow> num_finite x | APrim _ \<Rightarrow> True | _ \<Rightarrow> False)"

definition decode_public_attr_value :: "js_string \<Rightarrow> attr_value \<Rightarrow> attr_value option" where
  "decode_public_attr_value name v =
     (if is_finite_primitive v then Some v
      else if name = js ''style'' then canonical_inline_style v else None)"

fun decode_attr_entries :: "(js_string \<times> attr_value) list \<Rightarrow> hson_attrs option" where
  "decode_attr_entries [] = Some []"
| "decode_attr_entries ((k, v) # es) =
     (if \<not> is_public_attr_name k then None
      else case decode_public_attr_value k v of
        None \<Rightarrow> None
      | Some w \<Rightarrow> map_option (\<lambda>rest. (k, w) # rest) (decode_attr_entries es))"

definition decode_public_attrs :: "attr_value \<Rightarrow> hson_attrs option" where
  "decode_public_attrs v = (case v of ARec es \<Rightarrow> decode_attr_entries (sort_key fst es) | _ \<Rightarrow> None)"

section \<open>Equality\<close>

text \<open>\<open>===\<close> on primitives: the two zeros are equal and NaN is not equal to itself.\<close>

definition strict_eq_prim :: "prim \<Rightarrow> prim \<Rightarrow> bool" where
  "strict_eq_prim a b \<longleftrightarrow>
     (case (a, b) of
        (PNum x, PNum y) \<Rightarrow>
          \<not> num_is_nan x \<and> \<not> num_is_nan y \<and>
          (x = y \<or> x \<in> {num_pos_zero, num_neg_zero} \<and> y \<in> {num_pos_zero, num_neg_zero})
      | _ \<Rightarrow> a = b)"

fun canonical_attr_value_equal :: "attr_value \<Rightarrow> attr_value \<Rightarrow> bool"
  and canonical_entries_equal :: "(js_string \<times> attr_value) list \<Rightarrow> (js_string \<times> attr_value) list \<Rightarrow> bool" where
  "canonical_attr_value_equal AUndef w \<longleftrightarrow> w = AUndef"
| "canonical_attr_value_equal (APrim p) w \<longleftrightarrow> (case w of APrim q \<Rightarrow> strict_eq_prim p q | _ \<Rightarrow> False)"
| "canonical_attr_value_equal (ARec es) w \<longleftrightarrow> (case w of ARec fs \<Rightarrow> canonical_entries_equal es fs | _ \<Rightarrow> False)"
| "canonical_entries_equal [] fs \<longleftrightarrow> fs = []"
| "canonical_entries_equal ((k, v) # es) fs \<longleftrightarrow>
     (case fs of [] \<Rightarrow> False
      | (k', w) # fs' \<Rightarrow> k = k' \<and> canonical_attr_value_equal v w \<and> canonical_entries_equal es fs')"

definition canonical_public_attrs_equal :: "hson_attrs \<Rightarrow> hson_attrs \<Rightarrow> bool" where
  "canonical_public_attrs_equal l r \<longleftrightarrow> canonical_entries_equal l r"

section \<open>Transitions\<close>

datatype attrs_error = InvalidAttributeBag

definition canonical_attrs :: "hson_attrs \<Rightarrow> attrs_error + hson_attrs" where
  "canonical_attrs values =
     (case decode_public_attrs (ARec values) of None \<Rightarrow> Inl InvalidAttributeBag | Some a \<Rightarrow> Inr a)"

definition canonical_attr_is_flag :: "hson_attrs \<Rightarrow> js_string \<Rightarrow> bool" where
  "canonical_attr_is_flag attrs name \<longleftrightarrow> map_of attrs name = Some (APrim (PStr name))"

definition drop_field :: "'k \<Rightarrow> ('k \<times> 'v) list \<Rightarrow> ('k \<times> 'v) list" where
  "drop_field k es = filter (\<lambda>e. fst e \<noteq> k) es"

definition put_fields :: "('k \<times> 'v) list \<Rightarrow> ('k \<times> 'v) list \<Rightarrow> ('k \<times> 'v) list" where
  "put_fields es fs = fold (\<lambda>(k, v). put_field k v) fs es"

definition plan_public_attr_set :: "hson_attrs \<Rightarrow> js_string \<Rightarrow> attr_value \<Rightarrow> attrs_error + hson_attrs" where
  "plan_public_attr_set current name v = canonical_attrs (put_field name v current)"

definition plan_public_attrs_set_many :: "hson_attrs \<Rightarrow> hson_attrs \<Rightarrow> attrs_error + hson_attrs" where
  "plan_public_attrs_set_many current values = canonical_attrs (put_fields current values)"

definition plan_public_attr_drop :: "hson_attrs \<Rightarrow> js_string \<Rightarrow> attrs_error + hson_attrs" where
  "plan_public_attr_drop current name = canonical_attrs (drop_field name current)"

definition plan_public_attrs_drop_many :: "hson_attrs \<Rightarrow> js_string list \<Rightarrow> attrs_error + hson_attrs" where
  "plan_public_attrs_drop_many current names = canonical_attrs (fold drop_field names current)"

definition plan_public_attrs_replace :: "hson_attrs \<Rightarrow> attrs_error + hson_attrs" where
  "plan_public_attrs_replace values = canonical_attrs values"

definition plan_public_attrs_clear :: "attrs_error + hson_attrs" where
  "plan_public_attrs_clear = canonical_attrs []"

text \<open>\<open>next[name] = name\<close>: an assignment of a string to \<open>__proto__\<close> has no effect.\<close>

definition assign_flag :: "js_string \<Rightarrow> hson_attrs \<Rightarrow> hson_attrs" where
  "assign_flag name attrs =
     (if name = PROTO_KEY \<and> map_of attrs name = None then attrs else put_field name (APrim (PStr name)) attrs)"

definition plan_public_flags_set :: "hson_attrs \<Rightarrow> js_string list \<Rightarrow> attrs_error + hson_attrs" where
  "plan_public_flags_set current names = canonical_attrs (fold assign_flag names current)"

definition plan_public_flags_clear :: "hson_attrs \<Rightarrow> js_string list \<Rightarrow> attrs_error + hson_attrs" where
  "plan_public_flags_clear current names =
     canonical_attrs (fold (\<lambda>name next. if canonical_attr_is_flag current name then drop_field name next else next)
       names current)"

section \<open>Canonical bags\<close>

text \<open>A record of the model has distinct keys at every level.\<close>

fun record_ok :: "attr_value \<Rightarrow> bool" where
  "record_ok (ARec es) \<longleftrightarrow> distinct (map fst es) \<and> (\<forall>e \<in> set es. record_ok (snd e))"
| "record_ok _ \<longleftrightarrow> True"

definition sorted_keys :: "(js_string \<times> 'a) list \<Rightarrow> bool" where
  "sorted_keys es \<longleftrightarrow> sorted_wrt (\<lambda>a b. fst a < fst b) es"

lemma sorted_keys_sort: "distinct (map fst es) \<Longrightarrow> sorted_keys (sort_key fst es)"
  by (simp add: sorted_keys_def sort_key_strict)

lemma sorted_keys_distinct: "sorted_keys es \<Longrightarrow> distinct (map fst es)"
proof -
  assume "sorted_keys es"
  then have "sorted_wrt (<) (map fst es)" by (simp add: sorted_keys_def sorted_wrt_map)
  then show ?thesis by (simp add: strict_sorted_iff)
qed

lemma sorted_keys_unique:
  assumes "sorted_keys es" and "sorted_keys fs" and "set es = set fs"
  shows "es = fs"
proof -
  have e: "sorted_wrt (<) (map fst es)" "sorted_wrt (<) (map fst fs)"
    using assms by (simp_all add: sorted_keys_def sorted_wrt_map)
  have k: "map fst es = map fst fs"
    by (rule sorted_distinct_set_unique) (use e assms(3) in \<open>simp_all add: strict_sorted_iff\<close>)
  have m: "map_of es = map_of fs"
    using assms sorted_keys_distinct by (metis map_of_inject_set)
  have "map snd es = map snd fs"
  proof -
    have "map snd xs = map (\<lambda>k. the (map_of xs k)) (map fst xs)" if "distinct (map fst xs)" for xs :: "(js_string \<times> 'a) list"
      using that by (auto simp: map_of_eq_Some_iff)
    then show ?thesis using sorted_keys_distinct assms(1,2) k m by metis
  qed
  then show ?thesis using k by (metis zip_map_fst_snd)
qed

lemma sort_sorted_keys: "sorted_keys es \<Longrightarrow> sort_key fst es = es"
  by (rule sorted_keys_unique) (auto intro: sorted_keys_sort sorted_keys_distinct)

lemma sort_own_key_order: "sorted_keys es \<Longrightarrow> sort_key fst (own_key_order es) = es"
  by (rule sorted_keys_unique) (auto intro!: sorted_keys_sort simp: sorted_keys_distinct)

lemma map_of_sort_key:
  fixes es :: "(js_string \<times> 'a) list"
  assumes d: "distinct (map fst es)"
  shows "map_of (sort_key fst es) = map_of es"
proof -
  have "distinct (map fst (sort_key fst es))" by (rule sorted_keys_distinct [OF sorted_keys_sort [OF d]])
  then show ?thesis using d by (metis map_of_inject_set set_sort)
qed

lemma sorted_keys_map: "sorted_keys (map (\<lambda>(k, v). (k, f k v)) es) \<longleftrightarrow> sorted_keys es"
  by (simp add: sorted_keys_def sorted_wrt_map case_prod_unfold)

lemma sorted_keys_filter: "sorted_keys es \<Longrightarrow> sorted_keys (filter P es)"
  by (simp add: sorted_keys_def sorted_wrt_filter)

section \<open>Inline style is idempotent\<close>

lemma typed_css_canonical:
  assumes "inspect_typed_css_value v = Some (a, u)"
  shows "inspect_typed_css_value (canonical_style_item v) = Some (a, u)"
proof -
  obtain es where v: "v = ARec es" "is_typed_css_value v" "a = the (map_of es (js ''value''))" "u = map_of es (js ''unit'')"
    using assms by (auto simp: inspect_typed_css_value_def split: attr_value.splits if_splits)
  then show ?thesis
    using assms
    by (auto simp: inspect_typed_css_value_def canonical_style_item_def split: option.splits attr_value.splits prim.splits)
qed

lemma canonical_style_item_idem: "canonical_style_item (canonical_style_item v) = canonical_style_item v"
proof (cases "inspect_typed_css_value v")
  case (Some p)
  then show ?thesis using typed_css_canonical [of v] by (cases p) (simp add: canonical_style_item_def)
qed (simp add: canonical_style_item_def)

lemma canonical_style_item_valid:
  assumes "v \<noteq> AUndef" and "is_css_declaration_value v"
  shows "canonical_style_item v \<noteq> AUndef \<and> is_css_declaration_value (canonical_style_item v)"
proof (cases "inspect_typed_css_value v")
  case (Some p)
  then have "inspect_typed_css_value (canonical_style_item v) = Some p" using typed_css_canonical [of v] by (cases p) simp
  then obtain es where "canonical_style_item v = ARec es" "is_typed_css_value (canonical_style_item v)"
    by (auto simp: inspect_typed_css_value_def split: attr_value.splits if_splits)
  then show ?thesis by simp
qed (use assms in \<open>simp add: canonical_style_item_def\<close>)

lemma canonical_inline_style_idem:
  assumes "canonical_inline_style v = Some w" and "record_ok v"
  shows "canonical_inline_style w = Some w"
proof -
  obtain es where es: "v = ARec es" "distinct (map fst es)"
      "\<forall>(k, item) \<in> set es. item \<noteq> AUndef \<and> is_css_declaration_value item"
    using assms by (auto simp: canonical_inline_style_def list_all_iff split: attr_value.splits if_splits)
  define ms where "ms = map (\<lambda>(k, item). (k, canonical_style_item item)) (filter (\<lambda>(k, item). k \<noteq> PROTO_KEY) (sort_key fst es))"
  have w: "w = ARec (own_key_order ms)"
    using assms(1) by (auto simp: es(1) canonical_inline_style_def ms_def split: if_splits)
  have sorted: "sorted_keys ms"
    unfolding ms_def by (subst sorted_keys_map) (intro sorted_keys_filter sorted_keys_sort es(2))
  have valid: "list_all (\<lambda>(k, item). item \<noteq> AUndef \<and> is_css_declaration_value item) ms"
    using es(3) canonical_style_item_valid by (auto simp: ms_def list_all_iff)
  have "filter (\<lambda>(k, item). k \<noteq> PROTO_KEY) ms = ms"
    by (rule filter_True) (auto simp: ms_def)
  moreover have "map (\<lambda>(k, item). (k, canonical_style_item item)) ms = ms"
    by (rule map_idI) (auto simp: ms_def canonical_style_item_idem)
  ultimately show ?thesis
    using valid by (simp add: w canonical_inline_style_def sort_own_key_order [OF sorted])
qed

section \<open>Decoding a bag\<close>

lemma decode_entries_Some:
  "decode_attr_entries es = Some a \<longleftrightarrow>
    list_all2 (\<lambda>(k, v) (k', w). k' = k \<and> is_public_attr_name k \<and> decode_public_attr_value k v = Some w) es a"
  by (induction es arbitrary: a) (auto simp: list_all2_Cons1 split: option.splits if_splits)

lemma decode_entries_fst: "decode_attr_entries es = Some a \<Longrightarrow> map fst a = map fst es"
  unfolding decode_entries_Some by (induction rule: list_all2_induct) auto

lemma decode_entries_lookup:
  "decode_attr_entries es = Some a \<Longrightarrow> map_of a k = Option.bind (map_of es k) (decode_public_attr_value k)"
  unfolding decode_entries_Some by (induction rule: list_all2_induct) auto

lemma decode_attr_value_idem:
  assumes "decode_public_attr_value k v = Some w" and "record_ok v"
  shows "decode_public_attr_value k w = Some w"
proof (cases "is_finite_primitive v")
  case False
  then have s: "k = js ''style''" "canonical_inline_style v = Some w"
    using assms(1) by (simp_all add: decode_public_attr_value_def split: if_splits)
  then have "\<not> is_finite_primitive w" by (auto simp: canonical_inline_style_def is_finite_primitive_def split: attr_value.splits if_splits)
  then show ?thesis using s canonical_inline_style_idem assms(2) by (simp add: decode_public_attr_value_def)
qed (use assms in \<open>simp add: decode_public_attr_value_def\<close>)

definition canonical_bag :: "hson_attrs \<Rightarrow> bool" where
  "canonical_bag a \<longleftrightarrow> sorted_keys a \<and> (\<forall>(k, v) \<in> set a. is_public_attr_name k \<and> decode_public_attr_value k v = Some v)"

lemma canonical_bag_distinct: "canonical_bag a \<Longrightarrow> distinct (map fst a)"
  by (simp add: canonical_bag_def sorted_keys_distinct)

lemma canonical_bag_decodes: "canonical_bag a \<Longrightarrow> decode_public_attrs (ARec a) = Some a"
proof -
  assume c: "canonical_bag a"
  then have "sort_key fst a = a" by (simp add: canonical_bag_def sort_sorted_keys)
  moreover have "decode_attr_entries a = Some a"
    using c unfolding decode_entries_Some by (auto simp: canonical_bag_def intro: list.rel_refl_strong)
  ultimately show ?thesis by (simp add: decode_public_attrs_def)
qed

lemma sorted_keys_fst: "sorted_keys es \<longleftrightarrow> sorted_wrt (<) (map fst es)"
  by (simp add: sorted_keys_def sorted_wrt_map)

lemma decode_canonical:
  assumes "decode_public_attrs v = Some a" and "record_ok v"
  shows "canonical_bag a"
proof -
  obtain es where es: "v = ARec es" "decode_attr_entries (sort_key fst es) = Some a"
    using assms(1) by (auto simp: decode_public_attrs_def split: attr_value.splits)
  have "sorted_keys a"
    using sorted_keys_sort [of es] assms(2) decode_entries_fst [OF es(2)] by (simp add: sorted_keys_fst es(1))
  moreover have "is_public_attr_name k \<and> decode_public_attr_value k w = Some w" if m: "(k, w) \<in> set a" for k w
  proof -
    have "\<exists>u. (k, u) \<in> set (sort_key fst es) \<and> is_public_attr_name k \<and> decode_public_attr_value k u = Some w"
    proof -
      obtain i where i: "i < length a" "a ! i = (k, w)" using m by (auto simp: in_set_conv_nth)
      have l: "i < length (sort_key fst es)" using i(1) decode_entries_fst [OF es(2)] by (metis length_map)
      obtain k' u where ku: "sort_key fst es ! i = (k', u)" by force
      have "k = k' \<and> is_public_attr_name k' \<and> decode_public_attr_value k' u = Some w"
        using list_all2_nthD [OF es(2) [unfolded decode_entries_Some] l] by (simp add: ku i(2))
      then show ?thesis using ku nth_mem [OF l] by auto
    qed
    then show ?thesis using decode_attr_value_idem assms(2) es(1) by auto
  qed
  ultimately show ?thesis by (auto simp: canonical_bag_def)
qed

lemma canonical_bag_unique:
  assumes "canonical_bag a" and "canonical_bag b" and "map_of a = map_of b"
  shows "a = b"
  using assms by (intro sorted_keys_unique) (auto simp: canonical_bag_def map_of_inject_set sorted_keys_distinct)

section \<open>Transitions on canonical bags\<close>

lemma canonical_attrs_result:
  assumes "distinct (map fst es)" and "\<forall>(k, v) \<in> set es. is_public_attr_name k \<and> decode_public_attr_value k v = Some v"
  shows "\<exists>a. canonical_attrs es = Inr a \<and> canonical_bag a \<and> map_of a = map_of es"
proof -
  define a where "a = sort_key fst es"
  have bag: "canonical_bag a"
    using assms sorted_keys_sort by (auto simp: canonical_bag_def a_def)
  have "decode_public_attrs (ARec es) = decode_public_attrs (ARec a)"
    using bag sort_sorted_keys [of a] by (simp add: decode_public_attrs_def a_def canonical_bag_def)
  then show ?thesis
    using canonical_bag_decodes [OF bag] bag map_of_sort_key [OF assms(1)] by (simp add: canonical_attrs_def a_def)
qed

lemma drop_field_lookup [simp]: "map_of (drop_field k es) = (map_of es)(k := None)"
  by (induction es) (auto simp: drop_field_def fun_eq_iff)

lemma drop_field_distinct: "distinct (map fst es) \<Longrightarrow> distinct (map fst (drop_field k es))"
  by (simp add: drop_field_def distinct_map_filter)

lemma set_put_field_sub: "set (put_field k v es) \<subseteq> insert (k, v) (set es)"
  by (induction es) (auto split: if_splits)

text \<open>What the folds of the transitions keep.\<close>

definition public_entries :: "hson_attrs \<Rightarrow> bool" where
  "public_entries es \<longleftrightarrow> distinct (map fst es) \<and>
     (\<forall>(k, v) \<in> set es. is_public_attr_name k \<and> decode_public_attr_value k v = Some v)"

lemma public_entries_bag: "canonical_bag a \<Longrightarrow> public_entries a"
  by (simp add: public_entries_def canonical_bag_def sorted_keys_distinct)

lemma public_entries_put:
  "public_entries es \<Longrightarrow> is_public_attr_name k \<Longrightarrow> decode_public_attr_value k v = Some v \<Longrightarrow> public_entries (put_field k v es)"
  using set_put_field_sub [of k v es] by (fastforce simp: public_entries_def put_field_distinct)

lemma public_entries_drop: "public_entries es \<Longrightarrow> public_entries (drop_field k es)"
  by (auto simp: public_entries_def drop_field_distinct) (auto simp: drop_field_def)

lemma public_entries_result:
  "public_entries es \<Longrightarrow> \<exists>a. canonical_attrs es = Inr a \<and> canonical_bag a \<and> map_of a = map_of es"
  by (rule canonical_attrs_result) (auto simp: public_entries_def)

lemma put_field_map: "map_of (put_field k v es) = (map_of es)(k \<mapsto> v)"
  by (simp add: fun_eq_iff)

lemma put_fields_result:
  assumes "public_entries es" and "public_entries fs"
  shows "public_entries (put_fields es fs) \<and> map_of (put_fields es fs) = map_of es ++ map_of fs"
  using assms
proof (induction fs arbitrary: es)
  case (Cons f fs)
  obtain k v where f: "f = (k, v)" by force
  have fs: "public_entries fs" "public_entries (put_field k v es)" "k \<notin> fst ` set fs"
    using Cons.prems public_entries_put [of es k v] by (auto simp: f public_entries_def)
  have "put_fields es (f # fs) = put_fields (put_field k v es) fs" by (simp add: put_fields_def f)
  moreover have "map_of (put_field k v es) ++ map_of fs = map_of es ++ map_of (f # fs)"
  proof -
    have "map_of fs k = None" using fs(3) by (simp add: map_of_eq_None_iff)
    then show ?thesis by (auto simp: f map_add_def fun_eq_iff split: option.splits)
  qed
  ultimately show ?case using Cons.IH [OF fs(2,1)] by presburger
qed (simp add: put_fields_def)

lemma drop_fields_result:
  "public_entries es \<Longrightarrow> public_entries (fold drop_field names es) \<and>
    map_of (fold drop_field names es) = (\<lambda>k. if k \<in> set names then None else map_of es k)"
  by (induction names arbitrary: es) (auto simp: public_entries_drop fun_eq_iff)

lemma assign_flags_result:
  assumes "public_entries es" and "\<forall>n \<in> set names. is_public_attr_name n \<and> n \<noteq> PROTO_KEY"
  shows "public_entries (fold assign_flag names es) \<and>
    map_of (fold assign_flag names es) = (\<lambda>k. if k \<in> set names then Some (APrim (PStr k)) else map_of es k)"
  using assms
proof (induction names arbitrary: es)
  case (Cons n names)
  have "assign_flag n es = put_field n (APrim (PStr n)) es" using Cons.prems by (simp add: assign_flag_def)
  moreover have "public_entries (put_field n (APrim (PStr n)) es)"
    using Cons.prems by (intro public_entries_put) (simp_all add: decode_public_attr_value_def is_finite_primitive_def)
  ultimately show ?case using Cons by (auto simp: fun_eq_iff)
qed simp

lemma clear_flags_result:
  assumes "public_entries es"
  shows "public_entries (fold (\<lambda>name next. if canonical_attr_is_flag c name then drop_field name next else next) names es) \<and>
    map_of (fold (\<lambda>name next. if canonical_attr_is_flag c name then drop_field name next else next) names es) =
      (\<lambda>k. if k \<in> set names \<and> canonical_attr_is_flag c k then None else map_of es k)"
  using assms by (induction names arbitrary: es) (auto simp: public_entries_drop fun_eq_iff)

text \<open>What a transition returns: a bag in canonical form, which decoding leaves as it is.\<close>

definition gives_bag :: "attrs_error + hson_attrs \<Rightarrow> (js_string \<Rightarrow> attr_value option) \<Rightarrow> bool" where
  "gives_bag r f \<longleftrightarrow>
     (\<exists>bag. r = Inr bag \<and> map_of bag = f \<and> decode_public_attrs (ARec bag) = Some bag \<and> sorted_keys bag)"

lemma public_entries_gives: "public_entries es \<Longrightarrow> gives_bag (canonical_attrs es) (map_of es)"
  using public_entries_result [of es] canonical_bag_decodes
  by (fastforce simp: gives_bag_def canonical_bag_def)

text \<open>
  C38: the public attribute transitions. Decoding any record gives a bag in canonical form: sorted by
  name, and left as it is when decoded again. On a canonical bag every
  transition succeeds, returns a bag in canonical form again and is exactly a map update: setting one
  attribute, overlaying a bag, dropping names, replacing everything by a bag, clearing everything, setting
  flags (each name to its own text) and clearing flags, which removes a listed name only where it is
  in flag form.
\<close>

theorem public_attr_transitions:
  assumes "decode_public_attrs v = Some current" and "record_ok v"
    and "decode_public_attrs w = Some values" and "record_ok w"
    and "is_public_attr_name name" and "decode_public_attr_value name x = Some y" and "record_ok x"
    and "\<forall>n \<in> set flags. is_public_attr_name n \<and> n \<noteq> PROTO_KEY"
  shows "decode_public_attrs (ARec current) = Some current \<and> sorted_keys current \<and>
    gives_bag (plan_public_attr_set current name y) ((map_of current)(name \<mapsto> y)) \<and>
    gives_bag (plan_public_attrs_set_many current values) (map_of current ++ map_of values) \<and>
    gives_bag (plan_public_attr_drop current name) ((map_of current)(name := None)) \<and>
    gives_bag (plan_public_attrs_drop_many current names) (\<lambda>k. if k \<in> set names then None else map_of current k) \<and>
    plan_public_attrs_replace values = Inr values \<and> gives_bag (plan_public_attrs_replace values) (map_of values) \<and>
    plan_public_attrs_clear = Inr [] \<and> gives_bag plan_public_attrs_clear Map.empty \<and>
    gives_bag (plan_public_flags_set current flags)
      (\<lambda>k. if k \<in> set flags then Some (APrim (PStr k)) else map_of current k) \<and>
    gives_bag (plan_public_flags_clear current names)
      (\<lambda>k. if k \<in> set names \<and> canonical_attr_is_flag current k then None else map_of current k)"
proof (intro conjI)
  note bag = decode_canonical [OF assms(1,2)] decode_canonical [OF assms(3,4)]
  note pub = public_entries_bag [OF bag(1)] public_entries_bag [OF bag(2)]
  show "decode_public_attrs (ARec current) = Some current" "sorted_keys current"
    using canonical_bag_decodes bag(1) by (auto simp: canonical_bag_def)
  show "gives_bag (plan_public_attr_set current name y) ((map_of current)(name \<mapsto> y))"
    using public_entries_gives [OF public_entries_put [OF pub(1) assms(5) decode_attr_value_idem [OF assms(6,7)]]]
    by (simp add: plan_public_attr_set_def put_field_map)
  show "gives_bag (plan_public_attrs_set_many current values) (map_of current ++ map_of values)"
    using put_fields_result [OF pub] public_entries_gives [of "put_fields current values"]
    by (simp add: plan_public_attrs_set_many_def)
  show "gives_bag (plan_public_attr_drop current name) ((map_of current)(name := None))"
    using public_entries_gives [OF public_entries_drop [OF pub(1)]] by (simp add: plan_public_attr_drop_def)
  show "gives_bag (plan_public_attrs_drop_many current names) (\<lambda>k. if k \<in> set names then None else map_of current k)"
    using drop_fields_result [OF pub(1), of names] public_entries_gives [of "fold drop_field names current"]
    by (simp add: plan_public_attrs_drop_many_def)
  show replace: "plan_public_attrs_replace values = Inr values"
    using canonical_bag_decodes [OF bag(2)] by (simp add: plan_public_attrs_replace_def canonical_attrs_def)
  show "gives_bag (plan_public_attrs_replace values) (map_of values)"
    unfolding replace using canonical_bag_decodes bag(2) by (auto simp: gives_bag_def canonical_bag_def)
  show clear: "plan_public_attrs_clear = Inr []"
    by (simp add: plan_public_attrs_clear_def canonical_attrs_def decode_public_attrs_def)
  show "gives_bag plan_public_attrs_clear Map.empty"
    unfolding clear by (simp add: gives_bag_def decode_public_attrs_def sorted_keys_def)
  show "gives_bag (plan_public_flags_set current flags)
      (\<lambda>k. if k \<in> set flags then Some (APrim (PStr k)) else map_of current k)"
    using assign_flags_result [OF pub(1) assms(8)] public_entries_gives [of "fold assign_flag flags current"]
    by (simp add: plan_public_flags_set_def)
  show "gives_bag (plan_public_flags_clear current names)
      (\<lambda>k. if k \<in> set names \<and> canonical_attr_is_flag current k then None else map_of current k)"
    using clear_flags_result [OF pub(1), of current names] public_entries_gives
      [of "fold (\<lambda>name next. if canonical_attr_is_flag current name then drop_field name next else next) names current"]
    by (simp add: plan_public_flags_clear_def)
qed

theorem public_attr_transitions_witness:
  "plan_public_flags_clear [(js ''a'', APrim (PStr (js ''a''))), (js ''b'', APrim PNull)] [js ''a'', js ''b''] =
      Inr [(js ''b'', APrim PNull)] \<and>
    (\<exists>next. plan_public_attrs_set_many [(js ''a'', APrim (PStr (js ''a''))), (js ''b'', APrim PNull)]
        [(js ''b'', APrim (PBool True))] = Inr next \<and> map_of next (js ''b'') = Some (APrim (PBool True)))"
proof -
  let ?v = "ARec [(js ''b'', APrim PNull), (js ''a'', APrim (PStr (js ''a'')))]"
  let ?c = "[(js ''a'', APrim (PStr (js ''a''))), (js ''b'', APrim PNull)]"
  have public: "is_public_attr_name (js ''a'')" "is_public_attr_name (js ''b'')"
    by (simp_all add: is_public_attr_name_def is_valid_hson_attribute_name_def js_def name_start_unit_def is_ascii_letter_def
        to_lower_def lower_unit_def starts_with_def HSON_META_MARKUP_PREFIX_def HSON_META_TRANSIT_PREFIX_def TRANSIT_PREFIX_def)
  have less: "js ''a'' < js ''b''" by (simp add: js_def)
  have v: "decode_public_attrs ?v = Some ?c"
    using public less by (simp add: decode_public_attrs_def sort_key_def insort_key.simps decode_public_attr_value_def is_finite_primitive_def)
  have w: "decode_public_attrs (ARec [(js ''b'', APrim (PBool True))]) = Some [(js ''b'', APrim (PBool True))]"
    using public by (simp add: decode_public_attrs_def decode_public_attr_value_def is_finite_primitive_def)
  have x: "decode_public_attr_value (js ''a'') (APrim PNull) = Some (APrim PNull)"
    by (simp add: decode_public_attr_value_def is_finite_primitive_def)
  note all = public_attr_transitions [OF v _ w _ public(1) x, of "[]" "[js ''a'', js ''b'']"]
  show ?thesis
  proof
    show "plan_public_flags_clear ?c [js ''a'', js ''b''] = Inr [(js ''b'', APrim PNull)]"
      using public by (simp add: plan_public_flags_clear_def canonical_attrs_def canonical_attr_is_flag_def drop_field_def
          decode_public_attrs_def decode_public_attr_value_def is_finite_primitive_def)
    show "\<exists>next. plan_public_attrs_set_many ?c [(js ''b'', APrim (PBool True))] = Inr next \<and>
        map_of next (js ''b'') = Some (APrim (PBool True))"
      using all by (auto simp: gives_bag_def map_add_Some_iff)
  qed
qed

text \<open>
  A flag named \<open>__proto__\<close> is an admissible attribute name, but setting it, and a style declaration
  of that name, are lost without an error.
\<close>

lemma proto_key_is_lost:
  "is_public_attr_name PROTO_KEY \<and> plan_public_flags_set [] [PROTO_KEY] = Inr [] \<and>
    plan_public_attr_set [] PROTO_KEY (APrim (PStr PROTO_KEY)) = Inr [(PROTO_KEY, APrim (PStr PROTO_KEY))] \<and>
    canonical_inline_style (ARec [(PROTO_KEY, APrim (PStr (js ''x'')))]) = Some (ARec [])"
proof -
  have p: "is_public_attr_name PROTO_KEY"
    by (simp add: PROTO_KEY_def is_public_attr_name_def is_valid_hson_attribute_name_def js_def name_start_unit_def is_ascii_letter_def
        name_unit_def to_lower_def lower_unit_def starts_with_def HSON_META_MARKUP_PREFIX_def
        HSON_META_TRANSIT_PREFIX_def TRANSIT_PREFIX_def)
  show ?thesis
    using p by (simp add: plan_public_flags_set_def plan_public_attr_set_def assign_flag_def canonical_attrs_def decode_public_attrs_def
        decode_public_attr_value_def is_finite_primitive_def canonical_inline_style_def own_key_order_def)
qed

end
