(* ===== verification/Document_Target.thy ===== *)
theory Document_Target
  imports Document_Root Public_Attrs
begin

text \<open>
  Targets of document operations (\<open>api/livemap/livemap.document.target.ts\<close>): validation of what a
  caller passes, resolution of a path or of an active identity to its node, and the lowering of a
  request to the canonical target a commit stores.
\<close>

section \<open>Errors\<close>

datatype mutation_code =
    INVALID_DOCUMENT_TARGET | DOCUMENT_TARGET_NOT_FOUND | DOCUMENT_TARGET_KIND | INVALID_DOCUMENT_PATH
  | INVALID_DOCUMENT_PATH_INDEX | DOCUMENT_PATH_OUT_OF_RANGE | DOCUMENT_PATH_PRIMITIVE_DESCENT
  | INVALID_DOCUMENT_COMMIT_TARGET | INVALID_DOCUMENT_WITNESS | DOCUMENT_WITNESS_MISMATCH
  | INVALID_DOCUMENT_ATTRIBUTE_NAME | INVALID_DOCUMENT_ATTRIBUTE_VALUE | DOCUMENT_ATTRIBUTE_NOT_FOUND
  | PROTECTED_DOCUMENT_METADATA | INVALID_DOCUMENT_CONTENT_INDEX | INVALID_DOCUMENT_REPLACEMENT
  | INVALID_DOCUMENT_IDENTITY | DOCUMENT_IDENTITY_INELIGIBLE | DOCUMENT_IDENTITY_COLLISION
  | DOCUMENT_IDENTITY_REUSE | DOCUMENT_IDENTITY_DIFFERENT | DOCUMENT_MODE_MISMATCH

datatype document_operation =
    OpSetAttr | OpRemoveAttr | OpReplaceAttrs | OpGetAttr | OpHasAttr | OpListAttrs | OpMustGetAttr
  | OpReplaceContent | OpInsertContent | OpRemoveContent | OpMoveContent | OpReplaceRoot | OpEnsureQuid

text \<open>Beside the coded errors: errors of other modules that an operation lets through.\<close>

datatype document_error =
    DocumentError mutation_code document_operation
  | AttributesFault attrs_error
  | RootFault root_fault
  | QuidFault quid_error

text \<open>A malformed path, one that is no array, is answered before the segments are looked at.\<close>

fun map_path_error :: "document_operation \<Rightarrow> document_path_fault \<Rightarrow> document_error" where
  "map_path_error op (InvalidPathIndex i s) = DocumentError INVALID_DOCUMENT_PATH_INDEX op"
| "map_path_error op (PathPrimitiveDescent i s) = DocumentError DOCUMENT_PATH_PRIMITIVE_DESCENT op"
| "map_path_error op (PathOutOfRange i s) = DocumentError DOCUMENT_PATH_OUT_OF_RANGE op"
| "map_path_error op DocumentRootUnavailable = DocumentError DOCUMENT_TARGET_NOT_FOUND op"

definition lift_path :: "document_operation \<Rightarrow> document_path_fault + 'a \<Rightarrow> document_error + 'a" where
  "lift_path op r = (case r of Inl f \<Rightarrow> Inl (map_path_error op f) | Inr a \<Rightarrow> Inr a)"

section \<open>Targets as they arrive\<close>

text \<open>
  What a caller passes as a target: \<open>None\<close> when it is no plain record, otherwise its own
  enumerable fields. A field is text, an array of numbers, a record of primitives, or anything else.
\<close>

datatype target_field =
    TextField js_string
  | PathField "num_arg list"
  | RecordField "(js_string \<times> prim) list"
  | OtherField

type_synonym target_input = "(js_string \<times> target_field) list option"

definition has_exact_keys :: "(js_string \<times> 'a) list \<Rightarrow> js_string list \<Rightarrow> bool" where
  "has_exact_keys fs keys \<longleftrightarrow> length fs = length keys \<and> list_all (\<lambda>(k, v). k \<in> set keys) fs"

definition has_only_keys :: "(js_string \<times> 'a) list \<Rightarrow> js_string list \<Rightarrow> bool" where
  "has_only_keys fs keys \<longleftrightarrow> list_all (\<lambda>(k, v). k \<in> set keys) fs"

definition validate_path :: "document_operation \<Rightarrow> target_field option \<Rightarrow> document_error + document_path" where
  "validate_path op f =
     (case f of
        Some (PathField p) \<Rightarrow> lift_path op (validate_document_path p)
      | _ \<Rightarrow> Inl (DocumentError INVALID_DOCUMENT_PATH op))"

datatype request_target = PathRequest document_path | QuidRequest js_string

definition normalize_document_request_target ::
    "target_input \<Rightarrow> document_operation \<Rightarrow> document_error + request_target" where
  "normalize_document_request_target input op =
     (case input of
        None \<Rightarrow> Inl (DocumentError INVALID_DOCUMENT_TARGET op)
      | Some fs \<Rightarrow>
          if map_of fs (js ''kind'') = Some (TextField (js ''path'')) then
            (if \<not> has_exact_keys fs [js ''kind'', js ''path''] then Inl (DocumentError INVALID_DOCUMENT_TARGET op)
             else rbind (validate_path op (map_of fs (js ''path''))) (\<lambda>p. Inr (PathRequest p)))
          else if map_of fs (js ''kind'') = Some (TextField (js ''quid'')) then
            (case map_of fs (js ''quid'') of
               Some (TextField q) \<Rightarrow>
                 if has_exact_keys fs [js ''kind'', js ''quid''] \<and> is_persisted_quid (PStr q)
                 then Inr (QuidRequest q) else Inl (DocumentError INVALID_DOCUMENT_TARGET op)
             | _ \<Rightarrow> Inl (DocumentError INVALID_DOCUMENT_TARGET op))
          else Inl (DocumentError INVALID_DOCUMENT_TARGET op))"

definition normalize_witness :: "target_field \<Rightarrow> document_operation \<Rightarrow> document_error + js_string" where
  "normalize_witness f op =
     (case f of
        RecordField fs \<Rightarrow>
          (case map_of fs (js ''quid'') of
             Some (PStr q) \<Rightarrow>
               if has_exact_keys fs [js ''quid''] \<and> is_persisted_quid (PStr q) then Inr q
               else Inl (DocumentError INVALID_DOCUMENT_WITNESS op)
           | _ \<Rightarrow> Inl (DocumentError INVALID_DOCUMENT_WITNESS op))
      | _ \<Rightarrow> Inl (DocumentError INVALID_DOCUMENT_WITNESS op))"

type_synonym commit_target = "document_path doc_target"

definition normalize_document_commit_target ::
    "target_input \<Rightarrow> document_operation \<Rightarrow> document_error + commit_target" where
  "normalize_document_commit_target input op =
     (case input of
        None \<Rightarrow> Inl (DocumentError INVALID_DOCUMENT_COMMIT_TARGET op)
      | Some fs \<Rightarrow>
          if map_of fs (js ''kind'') \<noteq> Some (TextField (js ''path''))
            then Inl (DocumentError INVALID_DOCUMENT_COMMIT_TARGET op)
          else if \<not> has_only_keys fs [js ''kind'', js ''path'', js ''witness''] \<or> map_of fs (js ''path'') = None
            then Inl (DocumentError INVALID_DOCUMENT_COMMIT_TARGET op)
          else rbind (validate_path op (map_of fs (js ''path''))) (\<lambda>p.
            (case map_of fs (js ''witness'') of
               None \<Rightarrow> Inr (DocTarget p None)
             | Some w \<Rightarrow> rbind (normalize_witness w op) (\<lambda>q. Inr (DocTarget p (Some q))))))"

section \<open>Resolution\<close>

definition resolve_path ::
    "hson_node \<Rightarrow> root_mode \<Rightarrow> document_path \<Rightarrow> document_operation \<Rightarrow> document_error + hson_item" where
  "resolve_path root mode path op = lift_path op (resolve_document_path root mode path)"

definition resolve_quid_request ::
    "hson_node \<Rightarrow> root_mode \<Rightarrow> identity_overlay \<Rightarrow> js_string \<Rightarrow> document_operation \<Rightarrow>
     document_error + document_path \<times> hson_item" where
  "resolve_quid_request root mode ov q op =
     (case path_for_quid ov q of
        None \<Rightarrow> Inl (DocumentError DOCUMENT_TARGET_NOT_FOUND op)
      | Some p \<Rightarrow>
          rbind (resolve_path root mode p op) (\<lambda>endpoint.
            if \<not> is_ordinary_element_item endpoint then Inl (DocumentError INVALID_DOCUMENT_IDENTITY op)
            else if read_hson_node_quid (item_node endpoint) \<noteq> Inr (Some q)
              then Inl (DocumentError INVALID_DOCUMENT_IDENTITY op)
            else Inr (p, endpoint)))"

definition resolve_document_target ::
    "hson_node \<Rightarrow> root_mode \<Rightarrow> identity_overlay \<Rightarrow> request_target \<Rightarrow> document_operation \<Rightarrow>
     document_error + hson_item" where
  "resolve_document_target root mode ov target op =
     (case target of
        PathRequest p \<Rightarrow> resolve_path root mode p op
      | QuidRequest q \<Rightarrow> rbind (resolve_quid_request root mode ov q op) (\<lambda>(p, endpoint). Inr endpoint))"

definition canonicalize_document_request_target ::
    "hson_node \<Rightarrow> root_mode \<Rightarrow> identity_overlay \<Rightarrow> target_input \<Rightarrow> document_operation \<Rightarrow>
     document_error + commit_target \<times> hson_item" where
  "canonicalize_document_request_target root mode ov input op =
     rbind (normalize_document_request_target input op) (\<lambda>request.
       (case request of
          PathRequest p \<Rightarrow> rbind (resolve_path root mode p op) (\<lambda>endpoint. Inr (DocTarget p None, endpoint))
        | QuidRequest q \<Rightarrow>
            rbind (resolve_quid_request root mode ov q op) (\<lambda>(p, endpoint).
              if \<not> is_ordinary_element_item endpoint then Inl (DocumentError DOCUMENT_TARGET_KIND op)
              else Inr (DocTarget p (Some q), endpoint))))"

definition resolve_document_commit_target ::
    "hson_node \<Rightarrow> root_mode \<Rightarrow> identity_overlay \<Rightarrow> target_input \<Rightarrow> document_operation \<Rightarrow>
     document_error + commit_target \<times> hson_item" where
  "resolve_document_commit_target root mode ov input op =
     rbind (normalize_document_commit_target input op) (\<lambda>target.
       rbind (resolve_path root mode (target_path target) op) (\<lambda>endpoint.
         if (case (target_witness target, quid_at_path ov (target_path target)) of
               (Some w, Some active) \<Rightarrow> is_ordinary_element_item endpoint \<and> active \<noteq> w
             | _ \<Rightarrow> False)
         then Inl (DocumentError DOCUMENT_WITNESS_MISMATCH op)
         else Inr (target, endpoint)))"

definition require_document_attr_element :: "hson_item \<Rightarrow> document_operation \<Rightarrow> document_error + hson_node" where
  "require_document_attr_element endpoint op =
     (if is_ordinary_element_item endpoint then Inr (item_node endpoint)
      else Inl (DocumentError DOCUMENT_TARGET_KIND op))"

end
