(* ===== verification/Document_Install.thy ===== *)
theory Document_Install
  imports Canonical_Equal Identity_Epoch Document_Target
begin

text \<open>
  Captures of a document and their admission (\<open>api/livemap/livemap.document.capture.ts\<close>,
  \<open>api/livemap/livemap.document.install.ts\<close>). The weak map from a capture object to its provenance is
  the second argument of \<open>CaptureInput\<close>: it is present exactly for the object the map handed out, and
  a copy or a decoded capture has none.
\<close>

section \<open>Captures\<close>

datatype identity_policy = SameEpoch | PreserveMetadata | StripIdentity | RejectIdentity | UnknownPolicy

datatype capture_category = DefaultCapture | PolicyCapture identity_policy

datatype provenance_code =
    SameEpochProvenanceRequired
  | StaleIdentityEpoch
  | ForeignIdentityEpoch
  | IdentityPolicyMismatch
  | UnsupportedCaptureCategory

datatype install_code = MalformedCaptureEnvelope | DuplicatePreservedClaims | InstallPolicyMismatch

datatype install_error =
    InstallError install_code
  | ProvenanceError provenance_code
  | InstallQuidFault quid_error
  | InstallEqualityFault equality_fault
  | InstallRevError num_arg nat

record document_capture =
  cap_kind :: js_string
  cap_mode :: js_string
  cap_rev :: num_arg
  cap_root :: hson_item

record capture_provenance =
  prov_owner :: nat
  prov_epoch :: nat
  prov_category :: capture_category
  prov_mode :: js_string
  prov_rev :: num_arg
  prov_root :: hson_node

datatype capture_input = NotACapture | CaptureInput document_capture "capture_provenance option"

definition mode_name :: "root_mode \<Rightarrow> js_string" where
  "mode_name m =
     (case m of ElementMode \<Rightarrow> js ''element'' | FragmentMode \<Rightarrow> js ''fragment''
      | DataObject \<Rightarrow> js ''data-object'' | DataArray \<Rightarrow> js ''data-array'')"

definition HSON_DOCUMENT_KIND :: js_string where
  "HSON_DOCUMENT_KIND = js ''hson-document''"

text \<open>Removal of every persisted identity that \<open>is_Node\<close> children reach.\<close>

definition without_quid :: "hson_meta option \<Rightarrow> hson_meta option" where
  "without_quid m =
     (case m of
        None \<Rightarrow> None
      | Some es \<Rightarrow>
          if HSON_META_QUID \<notin> fst ` set es then m
          else (let es' = filter (\<lambda>e. fst e \<noteq> HSON_META_QUID) es in if es' = [] then None else Some es'))"

fun clone_hson_graph_without_quids :: "hson_node \<Rightarrow> hson_node" and strip_item :: "hson_item \<Rightarrow> hson_item" where
  "clone_hson_graph_without_quids (HsonNode t a m c) = HsonNode t a (without_quid m) (map strip_item c)"
| "strip_item (ItemNode n) = (if is_Node (ItemNode n) then ItemNode (clone_hson_graph_without_quids n) else ItemNode n)"
| "strip_item (ItemPrim p) = ItemPrim p"

definition capture_category_of :: "identity_policy option \<Rightarrow> install_error + capture_category" where
  "capture_category_of options =
     (case options of
        None \<Rightarrow> Inr DefaultCapture
      | Some p \<Rightarrow>
          if p = SameEpoch \<or> p = PreserveMetadata \<or> p = StripIdentity then Inr (PolicyCapture p)
          else Inl (ProvenanceError UnsupportedCaptureCategory))"

definition capture_livemap_document ::
    "identity_epoch \<Rightarrow> root_mode \<Rightarrow> nat \<Rightarrow> hson_node \<Rightarrow> identity_policy option \<Rightarrow> install_error + capture_input" where
  "capture_livemap_document ctl mode revision root options =
     rbind (capture_category_of options) (\<lambda>category.
       let captureRoot = (if category = PolicyCapture StripIdentity then clone_hson_graph_without_quids root else root);
           capture = \<lparr> cap_kind = HSON_DOCUMENT_KIND, cap_mode = mode_name mode, cap_rev = IntArg (int revision),
             cap_root = ItemNode captureRoot \<rparr>
       in Inr (CaptureInput capture
         (if options = None then None
          else Some \<lparr> prov_owner = epoch_owner ctl, prov_epoch = epoch_current ctl, prov_category = category,
            prov_mode = mode_name mode, prov_rev = IntArg (int revision), prov_root = captureRoot \<rparr>)))"

section \<open>Admission\<close>

definition install_identity :: "identity_policy option \<Rightarrow> install_error + identity_policy" where
  "install_identity identity =
     (case identity of
        None \<Rightarrow> Inr PreserveMetadata
      | Some UnknownPolicy \<Rightarrow> Inl (ProvenanceError UnsupportedCaptureCategory)
      | Some p \<Rightarrow> Inr p)"

definition validate_livemap_document_admission ::
    "identity_epoch \<Rightarrow> capture_input \<Rightarrow> identity_policy option \<Rightarrow> install_error + identity_policy" where
  "validate_livemap_document_admission ctl input identity =
     rbind (install_identity identity) (\<lambda>policy.
       if policy \<noteq> SameEpoch then Inr policy
       else (case input of
           CaptureInput capture (Some p) \<Rightarrow>
             if prov_category p \<noteq> PolicyCapture SameEpoch then Inl (ProvenanceError IdentityPolicyMismatch)
             else if prov_owner p \<noteq> epoch_owner ctl then Inl (ProvenanceError ForeignIdentityEpoch)
             else if prov_epoch p \<noteq> epoch_current ctl then Inl (ProvenanceError StaleIdentityEpoch)
             else if cap_mode capture \<noteq> prov_mode p \<or> cap_rev capture \<noteq> prov_rev p
               then Inl (ProvenanceError IdentityPolicyMismatch)
             else (case compare_item detect_ordering (cap_root capture) (ItemNode (prov_root p)) (js ''$'') of
                 Inl e \<Rightarrow> Inl (InstallEqualityFault e)
               | Inr d \<Rightarrow> if d = None then Inr policy else Inl (ProvenanceError IdentityPolicyMismatch))
         | _ \<Rightarrow> Inl (ProvenanceError SameEpochProvenanceRequired)))"

datatype install_options = NoInstallOptions | MalformedOptions | InstallOptions "num_arg option" "identity_policy option"

definition options_identity :: "install_options \<Rightarrow> identity_policy option" where
  "options_identity o' = (case o' of InstallOptions r i \<Rightarrow> i | _ \<Rightarrow> None)"

definition num_arg_revision :: "num_arg \<Rightarrow> nat option" where
  "num_arg_revision x = (case x of IntArg i \<Rightarrow> if 0 \<le> i then Some (nat i) else None | _ \<Rightarrow> None)"

definition assert_install_options :: "install_options \<Rightarrow> nat \<Rightarrow> install_error + unit" where
  "assert_install_options options actualRev =
     (case options of
        NoInstallOptions \<Rightarrow> Inr ()
      | MalformedOptions \<Rightarrow> Inl (InstallError MalformedCaptureEnvelope)
      | InstallOptions None i \<Rightarrow> Inr ()
      | InstallOptions (Some expected) i \<Rightarrow>
          (case num_arg_revision expected of
             None \<Rightarrow> Inl (InstallError MalformedCaptureEnvelope)
           | Some r \<Rightarrow> rguard (r = actualRev) (InstallRevError expected actualRev)))"

definition assert_capture_object :: "capture_input \<Rightarrow> install_error + document_capture" where
  "assert_capture_object input =
     (case input of NotACapture \<Rightarrow> Inl (InstallError MalformedCaptureEnvelope) | CaptureInput c p \<Rightarrow> Inr c)"

text \<open>The claims of a tree in visiting order.\<close>

fun tree_claims :: "hson_node \<Rightarrow> quid_error + js_string list" and item_tree_claims :: "hson_item \<Rightarrow> quid_error + js_string list" where
  "tree_claims (HsonNode t a m c) =
     rbind (read_hson_node_quid (HsonNode t a m c)) (\<lambda>q.
     rbind (traverse item_tree_claims c) (\<lambda>below.
       Inr ((case q of None \<Rightarrow> [] | Some s \<Rightarrow> [s]) @ concat below)))"
| "item_tree_claims (ItemNode n) = (if is_Node (ItemNode n) then tree_claims n else Inr [])"
| "item_tree_claims (ItemPrim p) = Inr []"

record prepared_install =
  pi_mode :: root_mode
  pi_root :: hson_node
  pi_overlay :: identity_overlay

definition prepare_document_install ::
    "document_capture \<Rightarrow> root_mode \<Rightarrow> identity_policy \<Rightarrow> install_error + prepared_install" where
  "prepare_document_install capture targetMode identity =
     (let malformed = InstallError MalformedCaptureEnvelope in
      if cap_kind capture \<noteq> HSON_DOCUMENT_KIND then Inl malformed
      else if cap_mode capture \<noteq> mode_name ElementMode \<and> cap_mode capture \<noteq> mode_name FragmentMode then Inl malformed
      else if num_arg_revision (cap_rev capture) = None then Inl malformed
      else if \<not> is_Node (cap_root capture) then Inl malformed
      else
        (let detached = (if identity = StripIdentity then clone_hson_graph_without_quids (item_node (cap_root capture))
            else item_node (cap_root capture))
         in case normalize_hson_array_index_order detached of
              Inl e \<Rightarrow> Inl malformed
            | Inr root \<Rightarrow>
                (case classify_live_root_mode root of
                   Inl e \<Rightarrow> Inl malformed
                 | Inr observed \<Rightarrow>
                     if \<not> is_document_mode observed then Inl malformed
                     else if mode_name observed \<noteq> cap_mode capture then Inl malformed
                     else if observed \<noteq> targetMode then Inl malformed
                     else
                       rbind (if identity = RejectIdentity
                           then (case tree_claims root of
                               Inl e \<Rightarrow> Inl (InstallQuidFault e)
                             | Inr claims \<Rightarrow> rguard (claims = []) (InstallError InstallPolicyMismatch))
                           else Inr ()) (\<lambda>u.
                         (case build_livemap_document_identity_overlay root observed of
                            Inl e \<Rightarrow> Inl (InstallError
                              (if e = DuplicateIdentity then DuplicatePreservedClaims else MalformedCaptureEnvelope))
                          | Inr overlay \<Rightarrow> Inr \<lparr> pi_mode = observed, pi_root = root, pi_overlay = overlay \<rparr>)))))"

end
