(* ===== verification/Live_Transition.thy ===== *)
theory Live_Transition
  imports Live_Commit
begin

text \<open>
  The transition controller of one live map (\<open>api/livemap/livemap.authority.ts\<close>). A prepared
  transition is a token, here its index among the records the controller made; a token without a
  record belongs to another authority. A record holds the closures it was prepared with as functions
  on the state \<open>'s\<close> of the map: the test that its base is still current, the installation, which returns
  the state it reached and whether it threw on the way, and the notification, which returns the state after
  the observers ran and whether one of them threw.
\<close>

datatype transition_error_code =
    TransitionForeign
  | TransitionStale
  | TransitionAlreadyAccepted
  | TransitionDiscarded
  | TransitionInvalid
  | ManagedMutationRejected
  | AlreadyManaged

datatype transition_state = PendingTransition | AcceptedTransition | DiscardedTransition

datatype notification_policy = LegacyPolicy | IsolatePolicy

record ('c, 's) transition_record =
  t_state :: transition_state
  t_base :: nat
  t_generation :: nat
  t_mode :: root_mode
  t_changed :: bool
  t_commit :: 'c
  t_current :: "'s \<Rightarrow> bool"
  t_install :: "'s \<Rightarrow> 's \<times> bool"
  t_notify :: "'s \<Rightarrow> 's \<times> bool"

record ('c, 's) controller =
  k_mode :: root_mode
  k_records :: "('c, 's) transition_record list"
  k_generation :: nat
  k_owner :: "nat option"

text \<open>The revision of the map is read through \<open>revision\<close>.\<close>

definition new_controller :: "root_mode \<Rightarrow> ('c, 's) controller" where
  "new_controller mode = \<lparr> k_mode = mode, k_records = [], k_generation = 0, k_owner = None \<rparr>"

definition prepare_transition ::
    "nat \<Rightarrow> bool \<Rightarrow> nat \<Rightarrow> nat \<Rightarrow> 'c \<Rightarrow> ('s \<Rightarrow> bool) \<Rightarrow> ('s \<Rightarrow> 's \<times> bool) \<Rightarrow> ('s \<Rightarrow> 's \<times> bool) \<Rightarrow> ('c, 's) controller \<Rightarrow>
     transition_error_code + nat \<times> ('c, 's) controller" where
  "prepare_transition revision changed prevRev newRev commit current install notify k =
     (if prevRev \<noteq> revision \<or> newRev \<noteq> (if changed then revision + 1 else revision) then Inl TransitionInvalid
      else Inr (length (k_records k),
        k\<lparr> k_records := k_records k @
          [\<lparr> t_state = PendingTransition, t_base = revision, t_generation = k_generation k, t_mode = k_mode k,
             t_changed = changed, t_commit = commit, t_current = current, t_install = install, t_notify = notify \<rparr>] \<rparr>))"

definition record_for :: "('c, 's) controller \<Rightarrow> nat \<Rightarrow> transition_error_code + ('c, 's) transition_record" where
  "record_for k token = (if token < length (k_records k) then Inr (k_records k ! token) else Inl TransitionForeign)"

definition set_transition_state :: "nat \<Rightarrow> transition_state \<Rightarrow> ('c, 's) controller \<Rightarrow> ('c, 's) controller" where
  "set_transition_state token st k =
     k\<lparr> k_records := (k_records k)[token := (k_records k ! token)\<lparr> t_state := st \<rparr>] \<rparr>"

definition next_generation :: "('c, 's) controller \<Rightarrow> ('c, 's) controller" where
  "next_generation k = k\<lparr> k_generation := k_generation k + 1 \<rparr>"

text \<open>
  What an acceptance ends with: an error, or the commit with the number of failed notifications, or
  the exception of an observer, which the legacy policy lets through once the state is installed.
\<close>

datatype 'c acceptance =
    AcceptFailed transition_error_code
  | AcceptDone 'c nat
  | AcceptThrew 'c

definition accept_transition ::
    "('s \<Rightarrow> nat) \<Rightarrow> nat \<Rightarrow> notification_policy \<Rightarrow> ('c, 's) controller \<times> 's \<Rightarrow>
     'c acceptance \<times> ('c, 's) controller \<times> 's" where
  "accept_transition revision token policy ks =
     (case ks of (k, s) \<Rightarrow>
       (case record_for k token of
          Inl e \<Rightarrow> (AcceptFailed e, k, s)
        | Inr r \<Rightarrow>
            if t_state r = AcceptedTransition then (AcceptFailed TransitionAlreadyAccepted, k, s)
            else if t_state r = DiscardedTransition then (AcceptFailed TransitionDiscarded, k, s)
            else if t_mode r \<noteq> k_mode k \<or> t_base r \<noteq> revision s \<or> t_generation r \<noteq> k_generation k \<or> \<not> t_current r s
              then (AcceptFailed TransitionStale, k, s)
            else if \<not> t_changed r then (AcceptDone (t_commit r) 0, set_transition_state token AcceptedTransition k, s)
            else (case t_install r s of
                (s1, True) \<Rightarrow> (AcceptFailed TransitionInvalid, next_generation (set_transition_state token DiscardedTransition k), s1)
              | (s1, False) \<Rightarrow>
                  (case t_notify r s1 of (s2, threw) \<Rightarrow>
                    (if \<not> threw then AcceptDone (t_commit r) 0
                     else if policy = LegacyPolicy then AcceptThrew (t_commit r) else AcceptDone (t_commit r) 1,
                     set_transition_state token AcceptedTransition (next_generation k), s2)))))"

definition discard_transition :: "nat \<Rightarrow> ('c, 's) controller \<Rightarrow> transition_error_code + ('c, 's) controller" where
  "discard_transition token k =
     rbind (record_for k token) (\<lambda>r.
       if t_state r = AcceptedTransition then Inl TransitionAlreadyAccepted
       else Inr (if t_state r = DiscardedTransition then k else set_transition_state token DiscardedTransition k))"

definition invalidate_transitions :: "('c, 's) controller \<Rightarrow> ('c, 's) controller" where
  "invalidate_transitions k = next_generation k"

definition assert_public_mutation_allowed :: "('c, 's) controller \<Rightarrow> transition_error_code + unit" where
  "assert_public_mutation_allowed k = rguard (k_owner k = None) ManagedMutationRejected"

definition claim_management :: "nat \<Rightarrow> ('c, 's) controller \<Rightarrow> transition_error_code + ('c, 's) controller" where
  "claim_management owner k =
     (if k_owner k \<noteq> None \<and> k_owner k \<noteq> Some owner then Inl AlreadyManaged
      else Inr (k\<lparr> k_owner := Some owner \<rparr>))"

definition release_management :: "nat \<Rightarrow> ('c, 's) controller \<Rightarrow> ('c, 's) controller" where
  "release_management owner k = (if k_owner k = Some owner then k\<lparr> k_owner := None \<rparr> else k)"

section \<open>Runs of a controller\<close>

text \<open>
  Any order of operations, and in between any change of the map that does not go through the
  controller (\<open>Outside\<close>: replays and restores, which invalidate). The log records each
  installation with the token and the state it installed on.
\<close>

datatype ('c, 's) controller_step =
    PrepareStep bool nat nat 'c "'s \<Rightarrow> bool" "'s \<Rightarrow> 's \<times> bool" "'s \<Rightarrow> 's \<times> bool"
  | AcceptStep nat notification_policy
  | DiscardStep nat
  | ReplaceStateStep 's
  | ClaimStep nat
  | ReleaseStep nat

record ('c, 's) controller_run =
  r_controller :: "('c, 's) controller"
  r_map :: 's
  r_log :: "(nat \<times> nat \<times> 's) list"

definition installs :: "('s \<Rightarrow> nat) \<Rightarrow> nat \<Rightarrow> ('c, 's) controller \<Rightarrow> 's \<Rightarrow> bool" where
  "installs revision token k s =
     (case record_for k token of
        Inl e \<Rightarrow> False
      | Inr r \<Rightarrow> t_state r = PendingTransition \<and> t_mode r = k_mode k \<and> t_base r = revision s \<and>
          t_generation r = k_generation k \<and> t_current r s \<and> t_changed r \<and> \<not> snd (t_install r s))"

fun control_step :: "('s \<Rightarrow> nat) \<Rightarrow> ('c, 's) controller_step \<Rightarrow> ('c, 's) controller_run \<Rightarrow> ('c, 's) controller_run" where
  "control_step revision (PrepareStep changed p r c current install notify) x =
     (case prepare_transition (revision (r_map x)) changed p r c current install notify (r_controller x) of
        Inl e \<Rightarrow> x | Inr (token, k) \<Rightarrow> x\<lparr> r_controller := k \<rparr>)"
| "control_step revision (AcceptStep token policy) x =
     (case accept_transition revision token policy (r_controller x, r_map x) of
        (result, k, s) \<Rightarrow>
          \<lparr> r_controller = k, r_map = s,
            r_log = r_log x @ (if installs revision token (r_controller x) (r_map x)
              then [(token, k_generation (r_controller x), r_map x)] else []) \<rparr>)"
| "control_step revision (DiscardStep token) x =
     (case discard_transition token (r_controller x) of Inl e \<Rightarrow> x | Inr k \<Rightarrow> x\<lparr> r_controller := k \<rparr>)"
| "control_step revision (ReplaceStateStep s) x =
     x\<lparr> r_controller := invalidate_transitions (r_controller x), r_map := s \<rparr>"
| "control_step revision (ClaimStep owner) x =
     (case claim_management owner (r_controller x) of Inl e \<Rightarrow> x | Inr k \<Rightarrow> x\<lparr> r_controller := k \<rparr>)"
| "control_step revision (ReleaseStep owner) x = x\<lparr> r_controller := release_management owner (r_controller x) \<rparr>"

definition controller_run :: "('s \<Rightarrow> nat) \<Rightarrow> ('c, 's) controller_step list \<Rightarrow> ('c, 's) controller_run \<Rightarrow> ('c, 's) controller_run" where
  "controller_run revision steps x = foldl (\<lambda>y st. control_step revision st y) x steps"

definition new_run :: "root_mode \<Rightarrow> 's \<Rightarrow> ('c, 's) controller_run" where
  "new_run mode s = \<lparr> r_controller = new_controller mode, r_map = s, r_log = [] \<rparr>"

end
