(* ===== verification/Identity_Laws.thy ===== *)
theory Identity_Laws
  imports Document_Identity
begin

text \<open>
  Laws of the document identity overlay. An overlay is a one-to-one relation between identities
  and paths; building it collects the claims of every node a traversal visits, and the visited
  nodes are exactly the resolvable paths. An edit of the content of one node changes the claims
  the way \<open>transform_document_path\<close> moves paths, so that reconciliation with one effect agrees
  with a fresh scan of the edited root.
\<close>

section \<open>Overlays as one-to-one relations\<close>

definition one_one :: "('a \<times> 'b) set \<Rightarrow> bool" where
  "one_one S \<longleftrightarrow> (\<forall>a b a' b'. (a, b) \<in> S \<longrightarrow> (a', b') \<in> S \<longrightarrow> (a = a' \<longleftrightarrow> b = b'))"

definition overlay_pairs :: "identity_overlay \<Rightarrow> (js_string \<times> document_path) set" where
  "overlay_pairs ov = set (quid_to_path ov)"

definition overlay_ok :: "identity_overlay \<Rightarrow> bool" where
  "overlay_ok ov \<longleftrightarrow> distinct (map fst (quid_to_path ov)) \<and> distinct (map fst (path_to_quid ov)) \<and>
     (\<forall>q p. (p, q) \<in> set (path_to_quid ov) \<longleftrightarrow> (q, p) \<in> set (quid_to_path ov))"

lemma one_one_mono: "one_one S \<Longrightarrow> T \<subseteq> S \<Longrightarrow> one_one T"
  unfolding one_one_def by blast

lemma overlay_lookups:
  assumes "overlay_ok ov"
  shows "path_for_quid ov q = Some p \<longleftrightarrow> (q, p) \<in> overlay_pairs ov"
    "quid_at_path ov p = Some q \<longleftrightarrow> (q, p) \<in> overlay_pairs ov"
  using assms by (auto simp: overlay_ok_def path_for_quid_def quid_at_path_def overlay_pairs_def
      map_of_eq_Some_iff)

lemma overlay_one_one:
  assumes "overlay_ok ov"
  shows "one_one (overlay_pairs ov)"
  unfolding one_one_def
proof (intro allI impI)
  fix q p q' p' assume "(q, p) \<in> overlay_pairs ov" "(q', p') \<in> overlay_pairs ov"
  then have "path_for_quid ov q = Some p" "path_for_quid ov q' = Some p'" "quid_at_path ov p = Some q" "quid_at_path ov p' = Some q'"
    by (simp_all add: overlay_lookups [OF assms])
  then show "q = q' \<longleftrightarrow> p = p'" by auto
qed

lemma set_put_field:
  assumes "distinct (map fst es)"
  shows "set (put_field k v es) = insert (k, v) {(k', v') \<in> set es. k' \<noteq> k}"
  using assms
proof (induction es)
  case (Cons e es)
  obtain k0 v0 where e: "e = (k0, v0)" by force
  show ?case
  proof (cases "k0 = k")
    case True
    have "k \<notin> fst ` set es" using Cons.prems by (simp add: e True)
    then have "{(k', v') \<in> set es. k' \<noteq> k} = set es" by force
    then show ?thesis by (auto simp: e True)
  next
    case False
    then show ?thesis using Cons by (auto simp: e)
  qed
qed simp

lemma empty_overlay_ok [simp]: "overlay_ok empty_overlay" "overlay_pairs empty_overlay = {}"
  by (simp_all add: empty_overlay_def overlay_ok_def overlay_pairs_def)

lemma add_overlay_entry_result:
  assumes ok: "overlay_ok ov"
  shows "case add_overlay_entry q p ov of
      Inl e \<Rightarrow> \<not> one_one (insert (q, p) (overlay_pairs ov))
    | Inr ov' \<Rightarrow> overlay_ok ov' \<and> overlay_pairs ov' = insert (q, p) (overlay_pairs ov)"
proof (cases "one_one (insert (q, p) (overlay_pairs ov))")
  case True
  then have same: "q' = q \<longleftrightarrow> p' = p" if "(q', p') \<in> overlay_pairs ov" for q' p'
    using that by (auto simp: one_one_def)
  have "path_for_quid ov q = None \<or> path_for_quid ov q = Some p"
    using same overlay_lookups(1) [OF ok, of q] by (cases "path_for_quid ov q") auto
  moreover have "quid_at_path ov p = None \<or> quid_at_path ov p = Some q"
    using same overlay_lookups(2) [OF ok, of p] by (cases "quid_at_path ov p") auto
  ultimately have add: "add_overlay_entry q p ov =
      Inr \<lparr> quid_to_path = put_field q p (quid_to_path ov), path_to_quid = put_field p q (path_to_quid ov) \<rparr>"
    by (auto simp: add_overlay_entry_def document_path_equal_iff)
  have d: "distinct (map fst (quid_to_path ov))" "distinct (map fst (path_to_quid ov))"
    and sw: "\<And>q p. (p, q) \<in> set (path_to_quid ov) \<longleftrightarrow> (q, p) \<in> overlay_pairs ov"
    using ok by (simp_all add: overlay_ok_def overlay_pairs_def)
  have s1: "set (put_field q p (quid_to_path ov)) = insert (q, p) (overlay_pairs ov)"
    using same by (auto simp: set_put_field [OF d(1)] overlay_pairs_def)
  have s2: "(p', q') \<in> set (put_field p q (path_to_quid ov)) \<longleftrightarrow> (q', p') \<in> insert (q, p) (overlay_pairs ov)" for q' p'
    using same [of q' p'] by (auto simp: set_put_field [OF d(2)] sw)
  show ?thesis
    using d s2 by (simp add: add overlay_ok_def put_field_distinct overlay_pairs_def s1 [unfolded overlay_pairs_def])
next
  case False
  have "\<exists>e. add_overlay_entry q p ov = Inl e"
  proof (rule ccontr)
    assume "\<nexists>e. add_overlay_entry q p ov = Inl e"
    then have "\<not> (\<exists>p'. path_for_quid ov q = Some p' \<and> p' \<noteq> p)" "\<not> (\<exists>q'. quid_at_path ov p = Some q' \<and> q' \<noteq> q)"
      by (auto simp: add_overlay_entry_def document_path_equal_iff split: if_splits option.splits)
    then have "q' = q \<longleftrightarrow> p' = p" if "(q', p') \<in> overlay_pairs ov" for q' p'
      using that by (auto simp: overlay_lookups [OF ok])
    then have "one_one (insert (q, p) (overlay_pairs ov))"
      using overlay_one_one [OF ok] unfolding one_one_def by blast
    then show False using False by simp
  qed
  then show ?thesis using False by auto
qed

lemma add_claims_result:
  assumes "overlay_ok ov"
  shows "case add_claims cs ov of
      Inl e \<Rightarrow> \<not> one_one (overlay_pairs ov \<union> set cs)
    | Inr ov' \<Rightarrow> overlay_ok ov' \<and> overlay_pairs ov' = overlay_pairs ov \<union> set cs"
  using assms
proof (induction cs ov rule: add_claims.induct)
  case (2 q p cs ov)
  note add = add_overlay_entry_result [OF "2.prems", of q p]
  show ?case
  proof (cases "add_overlay_entry q p ov")
    case (Inl e)
    then have "\<not> one_one (overlay_pairs ov \<union> set ((q, p) # cs))"
      using add one_one_mono [of _ "insert (q, p) (overlay_pairs ov)"] by auto
    then show ?thesis by (simp add: Inl)
  next
    case (Inr ov1)
    then show ?thesis using add "2.IH" [of ov1] by (auto split: sum.splits)
  qed
qed simp

section \<open>Everything a traversal visits\<close>

function visit_all :: "(hson_node \<times> locator) list \<Rightarrow> (hson_node \<times> locator) list" where
  "visit_all [] = []"
| "visit_all ((n, loc) # stack) = (n, loc) # visit_all (identity_frames n loc @ stack)"
  by pat_completeness auto
termination
  by (relation "measure frames_size")
    (use identity_frames_size in \<open>auto simp: frames_size_def\<close>)

lemma visit_all_append: "visit_all (fs @ gs) = visit_all fs @ visit_all gs"
  by (induction fs rule: visit_all.induct) simp_all

lemma visit_all_concat: "set (visit_all fs) = (\<Union>f \<in> set fs. set (visit_all [f]))"
proof (induction fs)
  case (Cons f fs)
  show ?case using Cons visit_all_append [of "[f]" fs] by simp
qed simp

lemma visit_all_single:
  "set (visit_all [(n, loc)]) = insert (n, loc) (\<Union>(i, c) \<in> set (indexed_nodes 0 (content_of n)).
     set (visit_all [(c, child_locator loc i)]))"
proof -
  have "set (visit_all [(n, loc)]) = insert (n, loc) (set (visit_all (identity_frames n loc)))" by simp
  also have "set (visit_all (identity_frames n loc)) = (\<Union>f \<in> set (identity_frames n loc). set (visit_all [f]))"
    by (rule visit_all_concat)
  also have "\<dots> = (\<Union>(i, c) \<in> set (indexed_nodes 0 (content_of n)). set (visit_all [(c, child_locator loc i)]))"
    by (simp add: identity_frames_def case_prod_unfold del: visit_all.simps)
  finally show ?thesis .
qed

lemma indexed_nodes_iff:
  "(i, c) \<in> set (indexed_nodes k items) \<longleftrightarrow>
    k \<le> i \<and> i - k < length items \<and> items ! (i - k) = ItemNode c \<and> is_Node (ItemNode c)"
proof (induction k items rule: indexed_nodes.induct)
  case (1 k)
  then show ?case by simp
next
  case (2 k p items)
  then show ?case by (cases "i = k") (auto simp: nth_Cons' Suc_diff_le le_Suc_eq not_less_eq_eq)
next
  case (3 k c' items)
  then show ?case by (cases "i = k") (auto simp: nth_Cons' Suc_diff_le le_Suc_eq not_less_eq_eq)
qed

lemma indexed_nodes_0:
  "(i, c) \<in> set (indexed_nodes 0 items) \<longleftrightarrow> i < length items \<and> items ! i = ItemNode c \<and> is_Node (ItemNode c)"
  by (simp add: indexed_nodes_iff)

definition frame_claims :: "(hson_node \<times> locator) set \<Rightarrow> (js_string \<times> document_path) set" where
  "frame_claims F = {(q, p). \<exists>n. (n, AtPath p) \<in> F \<and> read_hson_node_quid n = Inr (Some q)}"

definition frames_readable :: "(hson_node \<times> locator) set \<Rightarrow> bool" where
  "frames_readable F \<longleftrightarrow> (\<forall>(n, loc) \<in> F. \<exists>r. read_hson_node_quid n = Inr r \<and> (r \<noteq> None \<longrightarrow> (\<exists>p. loc = AtPath p)))"

lemma build_loop_result:
  assumes "overlay_ok ov"
  shows "case build_loop fs ov of
      Inl e \<Rightarrow> \<not> (frames_readable (set (visit_all fs)) \<and> one_one (overlay_pairs ov \<union> frame_claims (set (visit_all fs))))
    | Inr ov' \<Rightarrow> frames_readable (set (visit_all fs)) \<and> overlay_ok ov' \<and>
        overlay_pairs ov' = overlay_pairs ov \<union> frame_claims (set (visit_all fs))"
  using assms
proof (induction fs ov rule: build_loop.induct)
  case (1 ov)
  then show ?case by (simp add: frames_readable_def frame_claims_def)
next
  case (2 n loc stack ov)
  define F where "F = set (visit_all (identity_frames n loc @ stack))"
  have all: "set (visit_all ((n, loc) # stack)) = insert (n, loc) F" by (simp add: F_def)
  show ?case
  proof (cases "read_hson_node_quid n")
    case (Inl e)
    then have "\<not> frames_readable (insert (n, loc) F)" by (auto simp: frames_readable_def)
    then show ?thesis unfolding all by (simp add: visit_identity_def Inl)
  next
    case (Inr r)
    show ?thesis
    proof (cases r)
      case None
      have "frame_claims (insert (n, loc) F) = frame_claims F" "frames_readable (insert (n, loc) F) = frames_readable F"
        using Inr None by (auto simp: frame_claims_def frames_readable_def)
      moreover have "visit_identity n loc ov = Inr ov" by (simp add: visit_identity_def Inr None)
      ultimately show ?thesis using "2.IH" [of ov] "2.prems" unfolding all F_def [symmetric]
        by (simp only: build_loop.simps rbind_simps)
    next
      case (Some q)
      show ?thesis
      proof (cases loc)
        case (AtPath p)
        have cl: "frame_claims (insert (n, loc) F) = insert (q, p) (frame_claims F)"
          "frames_readable (insert (n, loc) F) = frames_readable F"
          using Inr Some AtPath by (auto simp: frame_claims_def frames_readable_def)
        have v: "visit_identity n loc ov = add_overlay_entry q p ov"
          by (simp add: visit_identity_def Inr Some AtPath)
        note add = add_overlay_entry_result [OF "2.prems", of q p]
        show ?thesis
        proof (cases "add_overlay_entry q p ov")
          case (Inl e)
          then have "\<not> one_one (overlay_pairs ov \<union> insert (q, p) (frame_claims F))"
            using add one_one_mono [of "overlay_pairs ov \<union> insert (q, p) (frame_claims F)" "insert (q, p) (overlay_pairs ov)"]
            by auto
          then show ?thesis unfolding all cl by (simp add: v Inl)
        next
          case ov1: (Inr ov1)
          then show ?thesis
            using add "2.IH" [of ov1] v unfolding all cl F_def [symmetric]
            by (auto split: sum.splits)
        qed
      qed (use Inr Some in \<open>auto simp: all visit_identity_def frames_readable_def\<close>)
    qed
  qed
qed

section \<open>The visited nodes are the resolvable paths\<close>

lemma descend_Cons_node:
  assumes "is_Node (ItemNode n)" and "is_Node (ItemNode m)"
  shows "descend 0 (ItemNode n) (i # r) = Inr (ItemNode m) \<longleftrightarrow>
    (\<exists>c. (i, c) \<in> set (indexed_nodes 0 (content_of n)) \<and> descend 0 (ItemNode c) r = Inr (ItemNode m))"
proof
  assume "descend 0 (ItemNode n) (i # r) = Inr (ItemNode m)"
  then have i: "i < length (content_of n)" "descend (Suc 0) (content_of n ! i) r = Inr (ItemNode m)"
    by (auto simp del: is_Node.simps split: if_splits)
  obtain c where "content_of n ! i = ItemNode c" "is_Node (ItemNode c)"
    using i(2) assms(2) by (cases "content_of n ! i"; cases r) (auto simp del: is_Node.simps split: if_splits)
  then show "\<exists>c. (i, c) \<in> set (indexed_nodes 0 (content_of n)) \<and> descend 0 (ItemNode c) r = Inr (ItemNode m)"
    using i descend_shift [OF i(2), of 0] by (intro exI [of _ c]) (simp add: indexed_nodes_0)
next
  assume "\<exists>c. (i, c) \<in> set (indexed_nodes 0 (content_of n)) \<and> descend 0 (ItemNode c) r = Inr (ItemNode m)"
  then obtain c where c: "(i, c) \<in> set (indexed_nodes 0 (content_of n))" "descend 0 (ItemNode c) r = Inr (ItemNode m)"
    by blast
  show "descend 0 (ItemNode n) (i # r) = Inr (ItemNode m)"
    using c(1) assms(1) descend_shift [OF c(2), of "Suc 0"] by (simp add: indexed_nodes_0)
qed

lemma indexed_nodes_size:
  assumes "(i, c) \<in> set (indexed_nodes 0 (content_of n))"
  shows "size c < size n"
proof -
  have "ItemNode c \<in> set (content_of n)" using assms by (metis indexed_nodes_0 nth_mem)
  then have "size (ItemNode c) \<le> size_list size (content_of n)" by (rule size_list_estimation') simp
  then show ?thesis by (cases n) simp
qed

lemma visited_iff:
  assumes "is_Node (ItemNode n)"
  shows "(m, l) \<in> set (visit_all [(n, loc)]) \<longleftrightarrow>
    (\<exists>r. descend 0 (ItemNode n) r = Inr (ItemNode m) \<and> is_Node (ItemNode m) \<and> l = foldl child_locator loc r)"
  using assms
proof (induction "size n" arbitrary: n loc rule: less_induct)
  case less
  have "(m, l) \<in> set (visit_all [(n, loc)]) \<longleftrightarrow> (m = n \<and> l = loc) \<or>
      (\<exists>i c. (i, c) \<in> set (indexed_nodes 0 (content_of n)) \<and> (m, l) \<in> set (visit_all [(c, child_locator loc i)]))"
    by (auto simp: visit_all_single [of n loc] simp del: visit_all.simps)
  also have "\<dots> \<longleftrightarrow> (m = n \<and> l = loc) \<or>
      (\<exists>i r. descend 0 (ItemNode n) (i # r) = Inr (ItemNode m) \<and> is_Node (ItemNode m) \<and> l = foldl child_locator loc (i # r))"
  proof -
    have "(m, l) \<in> set (visit_all [(c, child_locator loc i)]) \<longleftrightarrow>
        (\<exists>r. descend 0 (ItemNode c) r = Inr (ItemNode m) \<and> is_Node (ItemNode m) \<and> l = foldl child_locator loc (i # r))"
      if "(i, c) \<in> set (indexed_nodes 0 (content_of n))" for i c
      using less.hyps [OF indexed_nodes_size [OF that], of "child_locator loc i"] that by (simp add: indexed_nodes_0)
    then show ?thesis using descend_Cons_node [OF less.prems] by blast
  qed
  also have "\<dots> \<longleftrightarrow> (\<exists>r. descend 0 (ItemNode n) r = Inr (ItemNode m) \<and> is_Node (ItemNode m) \<and> l = foldl child_locator loc r)"
    (is "_ \<longleftrightarrow> (\<exists>r. ?at r)")
  proof -
    have "?at [] \<longleftrightarrow> m = n \<and> l = loc" using less.prems by auto
    then show ?thesis by (metis (no_types, lifting) list.exhaust)
  qed
  finally show ?case .
qed

definition node_at :: "hson_item \<Rightarrow> document_path \<Rightarrow> hson_node \<Rightarrow> bool" where
  "node_at it r m \<longleftrightarrow> descend 0 it r = Inr (ItemNode m) \<and> is_Node (ItemNode m)"

definition item_claims :: "hson_item \<Rightarrow> (js_string \<times> document_path) set" where
  "item_claims it = {(q, r). \<exists>m. node_at it r m \<and> read_hson_node_quid m = Inr (Some q)}"

lemma foldl_at: "foldl child_locator (AtPath p) r = AtPath (p @ r)"
  by (induction r arbitrary: p) simp_all

lemma foldl_outside [simp]: "foldl child_locator Outside r = Outside"
  by (induction r) simp_all

lemma foldl_toward:
  assumes "ks \<noteq> []"
  shows "foldl child_locator (Toward ks) r = AtPath p \<longleftrightarrow> r = ks @ p"
  using assms
proof (induction r arbitrary: ks)
  case (Cons i r)
  then obtain k ks' where ks: "ks = k # ks'" by (cases ks) auto
  show ?case using Cons.IH [of ks'] by (auto simp: ks foldl_at)
qed simp

definition start_locator :: "nat list \<Rightarrow> locator" where
  "start_locator ks = (if ks = [] then AtPath [] else Toward ks)"

lemma foldl_start: "foldl child_locator (start_locator ks) r = AtPath p \<longleftrightarrow> r = ks @ p"
  by (simp add: start_locator_def foldl_at foldl_toward)

lemma visited_at:
  assumes "is_Node (ItemNode n)"
  shows "frame_claims (set (visit_all [(n, AtPath p)])) = {(q, p @ r) |q r. (q, r) \<in> item_claims (ItemNode n)}"
    "frames_readable (set (visit_all [(n, AtPath p)])) \<longleftrightarrow>
      (\<forall>r m. node_at (ItemNode n) r m \<longrightarrow> (\<exists>q. read_hson_node_quid m = Inr q))"
proof -
  have v: "(m, l) \<in> set (visit_all [(n, AtPath p)]) \<longleftrightarrow> (\<exists>r. node_at (ItemNode n) r m \<and> l = AtPath (p @ r))" for m l
    unfolding visited_iff [OF assms] node_at_def foldl_at by blast
  show "frame_claims (set (visit_all [(n, AtPath p)])) = {(q, p @ r) |q r. (q, r) \<in> item_claims (ItemNode n)}"
    unfolding frame_claims_def item_claims_def v by auto
  show "frames_readable (set (visit_all [(n, AtPath p)])) \<longleftrightarrow>
      (\<forall>r m. node_at (ItemNode n) r m \<longrightarrow> (\<exists>q. read_hson_node_quid m = Inr q))"
    unfolding frames_readable_def Ball_def split_paired_All case_prod_conv v by blast
qed

lemma visited_from_root:
  assumes "is_Node (ItemNode n)"
  shows "frame_claims (set (visit_all [(n, start_locator ks)])) = {(q, p). (q, ks @ p) \<in> item_claims (ItemNode n)}"
    "frames_readable (set (visit_all [(n, start_locator ks)])) \<longleftrightarrow>
      (\<forall>r m. node_at (ItemNode n) r m \<longrightarrow> (\<exists>q. read_hson_node_quid m = Inr q \<and> (q \<noteq> None \<longrightarrow> prefix ks r)))"
proof -
  show "frame_claims (set (visit_all [(n, start_locator ks)])) = {(q, p). (q, ks @ p) \<in> item_claims (ItemNode n)}"
    unfolding frame_claims_def visited_iff [OF assms] item_claims_def node_at_def
    by (auto simp del: is_Node.simps simp: eq_commute [of "AtPath _"] foldl_start)
  have "frames_readable (set (visit_all [(n, start_locator ks)])) \<longleftrightarrow>
      (\<forall>r m. node_at (ItemNode n) r m \<longrightarrow> (\<exists>q. read_hson_node_quid m = Inr q \<and>
         (q \<noteq> None \<longrightarrow> (\<exists>p. foldl child_locator (start_locator ks) r = AtPath p))))"
    unfolding frames_readable_def node_at_def Ball_def
    by (auto simp del: is_Node.simps visit_all.simps simp: visited_iff [OF assms] split_paired_All)
  then show "frames_readable (set (visit_all [(n, start_locator ks)])) \<longleftrightarrow>
      (\<forall>r m. node_at (ItemNode n) r m \<longrightarrow> (\<exists>q. read_hson_node_quid m = Inr q \<and> (q \<noteq> None \<longrightarrow> prefix ks r)))"
    by (simp add: foldl_start prefix_def)
qed

lemma scan_incoming_result:
  assumes "scan_incoming fs local = Inr cs" and "distinct (map fst local)"
    and "\<And>n l. (n, l) \<in> set (visit_all fs) \<Longrightarrow> \<exists>p. l = AtPath p"
  shows "frames_readable (set (visit_all fs)) \<and> distinct (map fst cs) \<and>
    set cs = set local \<union> frame_claims (set (visit_all fs))"
  using assms
proof (induction fs "local" rule: scan_incoming.induct)
  case (1 "local")
  then show ?case by (simp add: frames_readable_def frame_claims_def)
next
  case (2 n loc stack "local")
  define F where "F = set (visit_all (identity_frames n loc @ stack))"
  have all: "set (visit_all ((n, loc) # stack)) = insert (n, loc) F" by (simp add: F_def)
  obtain p where p: "loc = AtPath p" using "2.prems"(3) by fastforce
  have at: "\<And>n l. (n, l) \<in> F \<Longrightarrow> \<exists>p. l = AtPath p" using "2.prems"(3) unfolding all by blast
  obtain w where r: "read_hson_node_quid n = Inr w"
    using "2.prems"(1) by (cases "read_hson_node_quid n") (simp_all add: p)
  show ?case
  proof (cases w)
    case None
    have "frame_claims (insert (n, loc) F) = frame_claims F" "frames_readable (insert (n, loc) F) = frames_readable F"
      using r None by (auto simp: frame_claims_def frames_readable_def)
    moreover have "frames_readable F \<and> distinct (map fst cs) \<and> set cs = set local \<union> frame_claims F"
      using "2.IH"(1) [of "Inr w" loc w] "2.prems"(1,2) r at None unfolding F_def by (simp add: p)
    ultimately show ?thesis unfolding all by simp
  next
    case (Some q)
    have cl: "frame_claims (insert (n, loc) F) = insert (q, p) (frame_claims F)"
      "frames_readable (insert (n, loc) F) = frames_readable F"
      using r Some p by (auto simp: frame_claims_def frames_readable_def)
    have free: "\<not> (case map_of local q of None \<Rightarrow> False | Some p' \<Rightarrow> \<not> document_path_equal p' p)"
      and rest: "scan_incoming (identity_frames n loc @ stack) (put_field q p local) = Inr cs"
      using "2.prems"(1) r Some p by (auto split: if_splits)
    have "set (put_field q p local) = insert (q, p) (set local)"
    proof (cases "map_of local q")
      case None
      then show ?thesis by (simp add: put_field_fresh map_of_eq_None_iff)
    next
      case (Some p')
      then have "map_of local q = Some p" using free by (simp add: document_path_equal_iff)
      then have "(q, x) \<in> set local \<longleftrightarrow> x = p" for x using map_of_eq_Some_iff [OF "2.prems"(2), of q x] by auto
      then show ?thesis by (auto simp: set_put_field [OF "2.prems"(2)])
    qed
    moreover have "frames_readable F \<and> distinct (map fst cs) \<and> set cs = set (put_field q p local) \<union> frame_claims F"
      using "2.IH"(2) [of "Inr w" loc w q p] r free rest Some p "2.prems"(2) at
      unfolding F_def by (simp add: put_field_distinct)
    ultimately show ?thesis unfolding all cl by auto
  qed
qed

lemma incoming_claims_result:
  assumes "incoming_claims (Some (x, p)) = Inr cs"
  shows "distinct (map fst cs)" "set cs = {(q, p @ r) |q r. (q, r) \<in> item_claims x}"
    "node_at x r m \<Longrightarrow> \<exists>q. read_hson_node_quid m = Inr q"
proof -
  have "distinct (map fst cs) \<and> set cs = {(q, p @ r) |q r. (q, r) \<in> item_claims x} \<and>
    (\<forall>r m. node_at x r m \<longrightarrow> (\<exists>q. read_hson_node_quid m = Inr q))"
  proof (cases "\<exists>n. x = ItemNode n \<and> is_Node x")
    case True
    then obtain n where n: "x = ItemNode n" "is_Node (ItemNode n)" by auto
    have "scan_incoming [(n, AtPath p)] [] = Inr cs" using assms n by (simp add: incoming_claims_def)
    moreover have "\<exists>p. l = AtPath p" if "(m, l) \<in> set (visit_all [(n, AtPath p)])" for m l
      using that unfolding visited_iff [OF n(2)] foldl_at by blast
    ultimately show ?thesis
      using scan_incoming_result [of "[(n, AtPath p)]" "[]" cs] visited_at [OF n(2), of p] n(1) by auto
  next
    case False
    then have "descend 0 x r \<noteq> Inr (ItemNode m) \<or> \<not> is_Node (ItemNode m)" for r m
      by (cases r; cases x) (auto simp del: is_Node.simps)
    then have "\<not> node_at x r m" for r m by (simp add: node_at_def)
    moreover have "cs = []" using assms False by (auto simp: incoming_claims_def split: hson_item.splits if_splits)
    ultimately show ?thesis by (auto simp: item_claims_def)
  qed
  then show "distinct (map fst cs)" "set cs = {(q, p @ r) |q r. (q, r) \<in> item_claims x}"
    "node_at x r m \<Longrightarrow> \<exists>q. read_hson_node_quid m = Inr q" by blast+
qed

text \<open>The pairs that survive an effect.\<close>

definition surviving :: "path_effect \<Rightarrow> (js_string \<times> document_path) set \<Rightarrow> (js_string \<times> document_path) set" where
  "surviving e S = {(q, p'). \<exists>p. (q, p) \<in> S \<and>
     (transform_document_path p e = Inr (Unchanged p') \<or> transform_document_path p e = Inr (Moved p'))}"

lemma reconcile_entries_result:
  assumes "reconcile_entries e es ov = Inr (ov', effs)" and "overlay_ok ov"
  shows "overlay_ok ov' \<and> overlay_pairs ov' = overlay_pairs ov \<union> surviving e (set es) \<and>
    (\<forall>(q, p) \<in> set es. \<exists>t. transform_document_path p e = Inr t \<and> t \<noteq> InvalidEffect)"
  using assms
proof (induction e es ov arbitrary: ov' effs rule: reconcile_entries.induct)
  case (1 e ov)
  then show ?case by (simp add: surviving_def)
next
  case (2 e q p es ov)
  obtain t where t: "transform_document_path p e = Inr t" "t \<noteq> InvalidEffect"
    using "2.prems"(1) by (cases "transform_document_path p e") (auto split: path_transform.splits)
  have split: "surviving e (set ((q, p) # es)) =
      (case t of Unchanged p' \<Rightarrow> {(q, p')} | Moved p' \<Rightarrow> {(q, p')} | _ \<Rightarrow> {}) \<union> surviving e (set es)"
    using t by (auto simp: surviving_def split: path_transform.splits)
  note add = add_overlay_entry_result [OF "2.prems"(2), of q]
  show ?case
  proof (cases t)
    case (Unchanged p')
    obtain ov1 where ov1: "add_overlay_entry q p' ov = Inr ov1" "reconcile_entries e es ov1 = Inr (ov', effs)"
      using "2.prems"(1) t Unchanged by (auto simp: rbind_Inr_iff)
    show ?thesis
      using "2.IH"(1) [OF t(1) Unchanged ov1] add [of p'] t unfolding split by (simp add: ov1 Unchanged)
  next
    case (Moved p')
    obtain ov1 effs1 where ov1: "add_overlay_entry q p' ov = Inr ov1" "reconcile_entries e es ov1 = Inr (ov', effs1)"
      using "2.prems"(1) t Moved by (auto simp: rbind_Inr_iff)
    show ?thesis
      using "2.IH"(2) [OF t(1) Moved ov1] add [of p'] t unfolding split by (simp add: ov1 Moved)
  next
    case (Retired r)
    obtain effs1 where "reconcile_entries e es ov = Inr (ov', effs1)"
      using "2.prems"(1) t Retired by (auto simp: rbind_Inr_iff)
    then show ?thesis
      using "2.IH"(3) [OF t(1) Retired] "2.prems"(2) t unfolding split by (simp add: Retired)
  qed (use t in simp)
qed

section \<open>What an edit leaves\<close>

definition reads_at :: "hson_item \<Rightarrow> document_path \<Rightarrow> quid_error + js_string option \<Rightarrow> bool" where
  "reads_at it r v \<longleftrightarrow> (\<exists>m. node_at it r m \<and> read_hson_node_quid m = v)"

lemma item_claims_reads: "item_claims it = {(q, r). reads_at it r (Inr (Some q))}"
  by (simp add: item_claims_def reads_at_def)

lemma kid_tag_edit [simp]: "kid_tag (edit_item it p f) = kid_tag it"
  by (cases it) simp_all

lemma read_quid_edit:
  assumes "p = [] \<Longrightarrow> tag_of n \<noteq> OBJ_TAG"
  shows "read_hson_node_quid (edit_node n p f) = read_hson_node_quid n"
proof (cases p)
  case Nil
  have "assert_hson_node_quid_eligible (tag_of n) (meta_of n) ks =
      rguard (\<not> old_shaped_meta (meta_of n) \<and> \<not> starts_with (tag_of n) HSON_SYS_PREFIX \<or> tag_of n = ARR_TAG) IneligibleQuid"
    for ks using assms Nil
    by (simp add: assert_hson_node_quid_eligible_def quid_eligible_def is_projected_container_quid_eligible_def)
  then have "read_quid (tag_of n) (meta_of n) ks = read_quid (tag_of n) (meta_of n) ks'" for ks ks'
    by (cases "meta_lookup (meta_of n) HSON_META_QUID") (simp_all add: read_quid_def)
  then show ?thesis by (simp add: read_hson_node_quid_def Nil)
next
  case (Cons s r)
  have "map kid_tag (content_of (edit_node n p f)) = map kid_tag (content_of n)"
    by (simp add: Cons map_update) (metis list_update_id map_update nth_map)
  then show ?thesis by (simp add: read_hson_node_quid_def)
qed

lemma descend_edit_prefix_eq:
  "descend i (edit_item it (p @ q) f) p = rbind (descend i it p) (\<lambda>x. Inr (edit_item x q f))"
proof (induction i it p rule: descend.induct)
  case (3 i n s ss)
  then show ?case by (auto simp del: is_Node.simps simp: is_Node.simps(2))
qed auto

lemma descend_edit_apart_eq:
  assumes "\<not> prefix p path" and "\<not> prefix path p"
  shows "descend i (edit_item it p f) path = descend i it path"
  using assms
proof (induction i it path arbitrary: p rule: descend.induct)
  case (3 i n s ss)
  then obtain t ts where p: "p = t # ts" by (cases p) auto
  then show ?case using 3 by (auto simp: nth_list_update)
qed auto

lemma reads_at_outside:
  assumes "node_at it p n" and "read_hson_node_quid (edit_node n [] f) = read_hson_node_quid n"
    and "\<not> strict_prefix p r"
  shows "reads_at (edit_item it p f) r v \<longleftrightarrow> reads_at it r v"
proof (cases "prefix r p")
  case True
  then obtain q where q: "p = r @ q" by (auto simp: prefix_def)
  have "descend 0 (edit_item it p f) r = rbind (descend 0 it r) (\<lambda>x. Inr (edit_item x q f))"
    unfolding q by (rule descend_edit_prefix_eq)
  then have iff: "node_at (edit_item it p f) r m' \<longleftrightarrow> (\<exists>m. node_at it r m \<and> m' = edit_node m q f)" for m'
    unfolding node_at_def
    by (cases "descend 0 it r") (auto simp: edit_item_def split: hson_item.splits)
  have "read_hson_node_quid (edit_node m q f) = read_hson_node_quid m" if "node_at it r m" for m
  proof (cases q)
    case Nil
    then show ?thesis using assms(1,2) that by (simp add: node_at_def q)
  qed (intro read_quid_edit, simp)
  then show ?thesis unfolding reads_at_def iff by auto
next
  case False
  then show ?thesis using assms(3)
    by (simp add: reads_at_def node_at_def descend_edit_apart_eq strict_prefix_def) (metis descend_edit_apart_eq)
qed

lemma node_at_below:
  assumes "node_at it p n"
  shows "node_at it (p @ s # r) m \<longleftrightarrow> s < length (content_of n) \<and> node_at (content_of n ! s) r m"
proof -
  have "descend 0 it (p @ s # r) = descend (length p) (ItemNode n) (s # r)" "is_Node (ItemNode n)"
    using assms by (simp_all add: node_at_def descend_append)
  moreover have "descend (Suc (length p)) (content_of n ! s) r = Inr (ItemNode m) \<longleftrightarrow>
      descend 0 (content_of n ! s) r = Inr (ItemNode m)"
    using descend_shift by blast
  ultimately show ?thesis by (simp add: node_at_def del: is_Node.simps)
qed

lemma reads_at_below:
  assumes "node_at it p n"
  shows "reads_at it (p @ s # r) v \<longleftrightarrow> s < length (content_of n) \<and> reads_at (content_of n ! s) r v"
  unfolding reads_at_def node_at_below [OF assms] by blast

lemma node_at_edited:
  assumes "node_at it p n"
  shows "node_at (edit_item it p f) p (edit_node n [] f)"
proof -
  have "descend 0 (edit_item it (p @ []) f) p = rbind (descend 0 it p) (\<lambda>x. Inr (edit_item x [] f))"
    by (rule descend_edit_prefix_eq)
  then show ?thesis using assms by (simp add: node_at_def)
qed

section \<open>Where the items of the new content come from\<close>

fun effect_slot :: "path_effect \<Rightarrow> nat option" where
  "effect_slot (InsertEffect p i) = Some (index_nat i)"
| "effect_slot (ReplaceEffect p i) = Some (index_nat i)"
| "effect_slot (DeleteEffect p i) = None"
| "effect_slot (MoveEffect p i j) = None"
| "effect_slot ReplaceRootEffect = None"

lemma effect_slot_nth:
  assumes "effect_fits e (length c)" and "effect_slot e = Some i"
  shows "i < length (effect_content e x c) \<and> effect_content e x c ! i = x"
  using assms by (cases e) (auto simp: nth_insert length_insert)

lemma new_sibling_origin:
  assumes "effect_fits e (length c)" and "s' < length (effect_content e x c)"
  shows "effect_slot e = Some s' \<or> (s' < length c \<and> shift_sibling e s' = Inr None) \<or>
    (\<exists>s < length c. shift_sibling e s = Inr (Some s'))"
proof (cases e)
  case (InsertEffect p i)
  consider "s' < index_nat i" | "s' = index_nat i" | "index_nat i < s'" by linarith
  then show ?thesis
  proof cases
    case 3
    then have "s' - 1 < length c \<and> shift_sibling e (s' - 1) = Inr (Some s')"
      using assms by (auto simp: InsertEffect length_insert)
    then show ?thesis by blast
  qed (use assms in \<open>simp_all add: InsertEffect\<close>)
next
  case (DeleteEffect p i)
  show ?thesis
  proof (cases "s' < index_nat i")
    case True
    then show ?thesis using assms by (simp add: DeleteEffect)
  next
    case False
    then have "Suc s' < length c \<and> shift_sibling e (Suc s') = Inr (Some s')"
      using assms by (simp add: DeleteEffect length_remove)
    then show ?thesis by blast
  qed
next
  case (ReplaceEffect p i)
  then show ?thesis using assms by (cases "s' = index_nat i") auto
next
  case (MoveEffect p i j)
  define a b where "a = index_nat i" and "b = index_nat j"
  have fits: "a < length c" "b < length c" "s' < length c"
    using assms unfolding a_def b_def by (auto simp: MoveEffect length_move split: if_splits)
  note sh = shift_sibling.simps(4) [of p i j, folded a_def b_def, folded MoveEffect, unfolded Let_def]
  consider "a = b" | "s' = b" "a \<noteq> b" | "a < b" "a \<le> s'" "s' < b" | "b < a" "b < s'" "s' \<le> a"
    | "a < b" "s' < a \<or> b < s'" | "b < a" "s' < b \<or> a < s'"
    by linarith
  then show ?thesis
  proof cases
    case 2
    then have "shift_sibling e a = Inr (Some s')" by (simp add: sh)
    then show ?thesis using fits by blast
  next
    case 3
    then have "shift_sibling e (Suc s') = Inr (Some s')" by (simp add: sh)
    then show ?thesis using fits 3 by (metis Suc_leI le_less_trans)
  next
    case 4
    then obtain t where t: "s' = Suc t" by (cases s') auto
    then have "shift_sibling e t = Inr (Some s')" using 4 by (simp add: sh)
    then show ?thesis using fits t by (metis Suc_lessD)
  next
    case 1
    then show ?thesis using fits by (simp add: sh)
  next
    case 5
    then have "shift_sibling e s' = Inr None" by (auto simp: sh)
    then show ?thesis using fits by simp
  next
    case 6
    then have "shift_sibling e s' = Inr None" by (auto simp: sh)
    then show ?thesis using fits by simp
  qed
qed (use assms in simp)

section \<open>Reconciling is a fresh scan\<close>

text \<open>The incoming subtree of an effect, with the path it takes in the edited document.\<close>

definition effect_incoming :: "path_effect \<Rightarrow> hson_item \<Rightarrow> (hson_item \<times> document_path) option" where
  "effect_incoming e x = map_option (\<lambda>i. (x, effect_parent e @ [i])) (effect_slot e)"

lemma transform_below:
  assumes "transform_document_path (effect_parent e @ s # r) e = Inr t" and "effect_fits e k"
  shows "case shift_sibling e s of
      Inl reason \<Rightarrow> t = Retired reason
    | Inr None \<Rightarrow> t = Unchanged (effect_parent e @ s # r)
    | Inr (Some s') \<Rightarrow> t = Moved (effect_parent e @ s' # r)"
proof -
  have "strict_prefix (effect_parent e) (effect_parent e @ s # r)" by (simp add: strict_prefix_def)
  then show ?thesis using transform_unchanged_cases [OF assms] by force
qed

lemma edited_claims:
  assumes parent: "node_at it (effect_parent e) n"
      "read_hson_node_quid (edit_node n [] (effect_content e x)) = read_hson_node_quid n"
    and fits: "effect_fits e (length (content_of n))"
    and ok: "\<And>q p. (q, p) \<in> item_claims it \<Longrightarrow> \<exists>t. transform_document_path p e = Inr t"
  shows "item_claims (edit_item it (effect_parent e) (effect_content e x)) =
    surviving e (item_claims it) \<union>
    (case effect_incoming e x of None \<Rightarrow> {} | Some (y, p) \<Rightarrow> {(q, p @ r) |q r. (q, r) \<in> item_claims y})"
    (is "item_claims ?it' = ?S \<union> ?I")
proof -
  let ?P = "effect_parent e"
  let ?c = "content_of n"
  let ?c' = "effect_content e x ?c"
  have parent': "node_at ?it' ?P (edit_node n [] (effect_content e x))" by (rule node_at_edited [OF parent(1)])
  have at': "reads_at ?it' (?P @ s # r) v \<longleftrightarrow> s < length ?c' \<and> reads_at (?c' ! s) r v" for s r v
    using reads_at_below [OF parent'] by simp
  note at = reads_at_below [OF parent(1)]
  note apart = reads_at_outside [OF parent]
  have below: "strict_prefix ?P p \<longleftrightarrow> (\<exists>s r. p = ?P @ s # r)" for p
    by (auto simp: strict_prefix_def elim!: strict_prefixE')
      (metis append_Nil2 neq_Nil_conv prefix_def)
  have I: "(q, p) \<in> ?I \<longleftrightarrow> (\<exists>i r. effect_slot e = Some i \<and> p = ?P @ i # r \<and> reads_at x r (Inr (Some q)))" for q p
    by (auto simp: effect_incoming_def item_claims_reads split: option.splits)
  have sub: "(q, p) \<in> ?S \<union> ?I" if claim: "reads_at ?it' p (Inr (Some q))" for q p
  proof (cases "strict_prefix ?P p")
    case False
    then have c: "(q, p) \<in> item_claims it" using claim apart by (simp add: item_claims_reads)
    obtain t where t: "transform_document_path p e = Inr t" using ok [OF c] by blast
    have "t = Unchanged p" using transform_unchanged_cases [OF t fits] False below by blast
    then show ?thesis using c t by (auto simp: surviving_def)
  next
    case True
    then obtain s' r where p: "p = ?P @ s' # r" using below by blast
    have s': "s' < length ?c'" "reads_at (?c' ! s') r (Inr (Some q))" using claim at' by (simp_all add: p)
    have stays: "(q, p) \<in> ?S" if s: "s < length ?c" "shift_sibling e s = Inr w" "s' = (case w of None \<Rightarrow> s | Some u \<Rightarrow> u)" for s w
    proof -
      have "?c' ! s' = ?c ! s" using shift_sibling_nth [OF fits s(1,2), of x] s(3) by simp
      then have c: "(q, ?P @ s # r) \<in> item_claims it" using s' s(1) at by (simp add: item_claims_reads)
      obtain t where t: "transform_document_path (?P @ s # r) e = Inr t" using ok [OF c] by blast
      have "t = Unchanged p \<or> t = Moved p"
        using transform_below [OF t fits] s(2,3) by (cases w) (simp_all add: p)
      then show ?thesis using c t by (auto simp: surviving_def)
    qed
    consider "effect_slot e = Some s'" | "s' < length ?c" "shift_sibling e s' = Inr None"
      | s where "s < length ?c" "shift_sibling e s = Inr (Some s')"
      using new_sibling_origin [OF fits s'(1)] by blast
    then show ?thesis
    proof cases
      case 1
      then have "reads_at x r (Inr (Some q))" using effect_slot_nth [OF fits 1] s' by simp
      then have "(q, p) \<in> ?I" using 1 unfolding I p by blast
      then show ?thesis ..
    next
      case 2
      then show ?thesis using stays [of s' None] by simp
    next
      case 3
      then show ?thesis using stays [of s "Some s'"] by simp
    qed
  qed
  have sup_S: "reads_at ?it' p' (Inr (Some q))" if "(q, p') \<in> ?S" for q p'
  proof -
    obtain p t where p: "(q, p) \<in> item_claims it" "transform_document_path p e = Inr t" "t = Unchanged p' \<or> t = Moved p'"
      using \<open>(q, p') \<in> ?S\<close> by (auto simp: surviving_def)
    show ?thesis
    proof (cases "strict_prefix ?P p")
      case False
      then have "p' = p" using transform_unchanged_cases [OF p(2) fits] p(3) below by blast
      then show ?thesis using p(1) apart False by (simp add: item_claims_reads)
    next
      case True
      then obtain s r where sr: "p = ?P @ s # r" using below by blast
      have s: "s < length ?c" "reads_at (?c ! s) r (Inr (Some q))" using p(1) at by (simp_all add: item_claims_reads sr)
      obtain w where w: "shift_sibling e s = Inr w" "p' = ?P @ (case w of None \<Rightarrow> s | Some u \<Rightarrow> u) # r"
        using transform_below [OF p(2) [unfolded sr] fits] p(3) by (cases "shift_sibling e s") (auto split: option.splits)
      show ?thesis
        using shift_sibling_nth [OF fits s(1) w(1), of x] s(2) at' by (simp add: w(2))
    qed
  qed
  have sup_I: "reads_at ?it' p (Inr (Some q))" if "(q, p) \<in> ?I" for q p
    using that effect_slot_nth [OF fits] at' unfolding I by auto
  show ?thesis
    using sub sup_S sup_I unfolding item_claims_reads [of ?it'] by blast
qed

lemma base_node_at:
  assumes "document_path_base root mode = Inr b" and "is_Node (ItemNode root)"
  shows "node_at (ItemNode root) (base_position root mode) b"
  using assms
  by (auto simp: document_path_base_def base_position_def node_at_def is_ordinary_element_node_def
      split: if_splits list.splits hson_item.splits)

lemma base_position_edit [simp]: "base_position (edit_node root p f) mode = base_position root mode"
  by (simp add: base_position_def)

lemma node_at_append:
  assumes "node_at it ks b"
  shows "node_at it (ks @ p) m \<longleftrightarrow> node_at (ItemNode b) p m"
proof -
  have "descend 0 it (ks @ p) = descend (length ks) (ItemNode b) p"
    using assms by (simp add: node_at_def descend_append)
  then show ?thesis
    unfolding node_at_def using descend_shift [of _ "ItemNode b" p "ItemNode m"] by metis
qed

lemma claims_below_base:
  assumes "node_at it ks b"
  shows "(q, ks @ p) \<in> item_claims it \<longleftrightarrow> (q, p) \<in> item_claims (ItemNode b)"
  by (simp add: item_claims_def node_at_append [OF assms])

definition claims_readable :: "hson_node \<Rightarrow> nat list \<Rightarrow> bool" where
  "claims_readable root ks \<longleftrightarrow>
     (\<forall>r m. node_at (ItemNode root) r m \<longrightarrow> (\<exists>q. read_hson_node_quid m = Inr q \<and> (q \<noteq> None \<longrightarrow> prefix ks r)))"

lemma readable_at:
  assumes "claims_readable root ks" and "reads_at (ItemNode root) r v"
  shows "\<exists>q. v = Inr q \<and> (q \<noteq> None \<longrightarrow> prefix ks r)"
  using assms unfolding claims_readable_def reads_at_def by blast

lemma build_overlay_result:
  assumes base: "document_path_base root mode = Inr b" and root: "is_Node (ItemNode root)"
  shows "case build_livemap_document_identity_overlay root mode of
      Inl e \<Rightarrow> \<not> (claims_readable root (base_position root mode) \<and> one_one (item_claims (ItemNode b)))
    | Inr ov \<Rightarrow> claims_readable root (base_position root mode) \<and> overlay_ok ov \<and>
        overlay_pairs ov = item_claims (ItemNode b)"
proof -
  let ?ks = "base_position root mode"
  have at: "node_at (ItemNode root) ?ks b" by (rule base_node_at [OF base root])
  have nonempty: "\<not> (mode = FragmentMode \<and> tag_of root = ROOT_TAG \<and> content_of root = [])"
    using base by (auto simp: document_path_base_def tags_neq)
  have "build_livemap_document_identity_overlay root mode = build_loop [(root, start_locator ?ks)] empty_overlay"
    using nonempty at base
    by (auto simp: build_livemap_document_identity_overlay_def resolve_document_path_def start_locator_def
        node_at_def simp del: build_loop.simps)
  moreover have "{(q, p). (q, ?ks @ p) \<in> item_claims (ItemNode root)} = item_claims (ItemNode b)"
    using claims_below_base [OF at] by auto
  ultimately show ?thesis
    using build_loop_result [of empty_overlay "[(root, start_locator ?ks)]"]
    unfolding visited_from_root [OF root] claims_readable_def [symmetric]
    by (simp only: empty_overlay_ok Un_empty_left simp_thms)
qed

lemma overlay_card: "overlay_ok ov \<Longrightarrow> card (overlay_pairs ov) = length (quid_to_path ov)"
  by (simp add: overlay_ok_def overlay_pairs_def distinct_map distinct_card)

lemma assert_overlay_iff:
  assumes "document_path_base root mode = Inr b" and "is_Node (ItemNode root)" and ok: "overlay_ok ov"
  shows "assert_livemap_document_identity_overlay root mode ov = Inr () \<longleftrightarrow>
    claims_readable root (base_position root mode) \<and> overlay_pairs ov = item_claims (ItemNode b)"
proof (cases "build_livemap_document_identity_overlay root mode")
  case (Inl e)
  then show ?thesis
    using build_overlay_result [OF assms(1,2)] overlay_one_one [OF ok]
    by (auto simp: assert_livemap_document_identity_overlay_def)
next
  case (Inr ex)
  note ex = build_overlay_result [OF assms(1,2), unfolded Inr, simplified]
  have look: "(case path_for_quid ov q of None \<Rightarrow> False | Some p' \<Rightarrow> document_path_equal p' p) \<and> quid_at_path ov p = Some q
      \<longleftrightarrow> (q, p) \<in> overlay_pairs ov" for q p
    using overlay_lookups(1) [OF ok, of q p] overlay_lookups(2) [OF ok, of p q] by (auto simp: document_path_equal_iff split: option.split)
  have fin: "finite (overlay_pairs ov)" "card (overlay_pairs ov) = length (quid_to_path ov)"
      "card (overlay_pairs ex) = length (quid_to_path ex)"
    using overlay_card [OF ok] overlay_card [of ex] ex by (simp_all add: overlay_pairs_def [of ov])
  have "assert_livemap_document_identity_overlay root mode ov = Inr () \<longleftrightarrow>
      length (quid_to_path ov) = length (quid_to_path ex) \<and> overlay_pairs ex \<subseteq> overlay_pairs ov"
    unfolding assert_livemap_document_identity_overlay_def Inr look
    by (auto simp: list_all_iff overlay_pairs_def [of ex])
  also have "\<dots> \<longleftrightarrow> overlay_pairs ov = overlay_pairs ex"
    using fin card_subset_eq [OF fin(1), of "overlay_pairs ex"] by auto
  finally show ?thesis using ex by auto
qed

lemma reconcile_unchanged:
  assumes "reconcile_entries e es ov = Inr (ov', [])" and "(q, p) \<in> set es"
  shows "transform_document_path p e = Inr (Unchanged p)"
  using assms
proof (induction e es ov rule: reconcile_entries.induct)
  case (2 e q' p' es ov)
  have same: "p2 = p1" if "transform_document_path p1 e = Inr (Unchanged p2)" for p1 p2
    using that by (auto simp: transform_document_path_def Let_def rbind_Inr_iff split: if_splits sum.splits option.splits)
  obtain p2 where t: "transform_document_path p' e = Inr (Unchanged p2)"
    using "2.prems"(1) by (auto simp: rbind_Inr_iff split: sum.splits path_transform.splits)
  obtain ov1 where "add_overlay_entry q' p2 ov = Inr ov1" "reconcile_entries e es ov1 = Inr (ov', [])"
    using "2.prems"(1) t by (auto simp: rbind_Inr_iff)
  then show ?case using "2.IH"(1) [OF t refl] "2.prems"(2) t same [OF t] by auto
qed simp

lemma reconcile_result:
  assumes "reconcile_livemap_document_identity_overlay ov e incoming = Inr (ov', effs)" and "overlay_ok ov"
  shows "\<exists>claims. incoming_claims incoming = Inr claims \<and> overlay_ok ov' \<and>
    overlay_pairs ov' = surviving e (overlay_pairs ov) \<union> set claims \<and>
    (\<forall>(q, p) \<in> overlay_pairs ov. \<exists>t. transform_document_path p e = Inr t)"
proof -
  obtain ov1 effs1 claims ov2 where r: "reconcile_entries e (quid_to_path ov) empty_overlay = Inr (ov1, effs1)"
    "incoming_claims incoming = Inr claims" "add_claims claims ov1 = Inr ov2"
    "(ov', effs) = (if effs1 @ map (\<lambda>(q, p). IdentityIntroduced q p) claims = [] then (ov, [])
       else (ov2, effs1 @ map (\<lambda>(q, p). IdentityIntroduced q p) claims))"
    using assms(1)
    by (auto simp: reconcile_livemap_document_identity_overlay_def rbind_Inr_iff Let_def split: if_splits)
  have ov1: "overlay_ok ov1" "overlay_pairs ov1 = surviving e (overlay_pairs ov)"
    "\<forall>(q, p) \<in> overlay_pairs ov. \<exists>t. transform_document_path p e = Inr t"
    using reconcile_entries_result [OF r(1)] by (auto simp: overlay_pairs_def [of ov])
  have ov2: "overlay_ok ov2" "overlay_pairs ov2 = surviving e (overlay_pairs ov) \<union> set claims"
    using add_claims_result [OF ov1(1), of claims] r(3) ov1(2) by simp_all
  show ?thesis
  proof (cases "effs1 = [] \<and> claims = []")
    case False
    then show ?thesis using r(2,4) ov1(3) ov2 by auto
  next
    case True
    then have un: "transform_document_path p e = Inr (Unchanged p)" if "(q, p) \<in> overlay_pairs ov" for q p
      using reconcile_unchanged [of e "quid_to_path ov"] r(1) that by (auto simp: overlay_pairs_def)
    have "surviving e (overlay_pairs ov) = overlay_pairs ov"
      unfolding surviving_def using un by auto
    then show ?thesis using True r(2,4) ov1(3) assms(2) by auto
  qed
qed

lemma reconcile_full_scan:
  assumes "assert_livemap_document_identity_overlay root mode ov = Inr ()" and "overlay_ok ov"
    and "is_Node (ItemNode root)"
    and "resolve_document_path root mode (effect_parent e) = Inr (ItemNode n)" and "is_Node (ItemNode n)"
    and "read_hson_node_quid (edit_node n [] (effect_content e x)) = read_hson_node_quid n"
    and "effect_fits e (length (content_of n))"
    and "reconcile_livemap_document_identity_overlay ov e (effect_incoming e x) = Inr (ov', effs)"
  shows "overlay_ok ov' \<and>
    assert_livemap_document_identity_overlay
      (edit_document root mode (effect_parent e) (effect_content e x)) mode ov' = Inr ()"
proof -
  let ?f = "effect_content e x"
  let ?ks = "base_position root mode"
  let ?root' = "edit_document root mode (effect_parent e) ?f"
  obtain b where b: "document_path_base root mode = Inr b" and parent: "node_at (ItemNode b) (effect_parent e) n"
    using assms(4,5) by (auto simp: resolve_document_Inr node_at_def)
  have b': "document_path_base ?root' mode = Inr (edit_node b (effect_parent e) ?f)"
    by (rule edit_document_base [OF b])
  have root': "is_Node (ItemNode ?root')" using assms(3) by (simp add: edit_document_def)
  have old: "claims_readable root ?ks" "overlay_pairs ov = item_claims (ItemNode b)"
    using assms(1) assert_overlay_iff [OF b assms(3,2)] by simp_all
  obtain claims where rec: "incoming_claims (effect_incoming e x) = Inr claims" "overlay_ok ov'"
      "overlay_pairs ov' = surviving e (item_claims (ItemNode b)) \<union> set claims"
      "\<And>q p. (q, p) \<in> item_claims (ItemNode b) \<Longrightarrow> \<exists>t. transform_document_path p e = Inr t"
    using reconcile_result [OF assms(8,2)] unfolding old(2) by fast
  have claims: "set claims = (case effect_incoming e x of None \<Rightarrow> {} | Some (y, p) \<Rightarrow> {(q, p @ r) |q r. (q, r) \<in> item_claims y})"
  proof (cases "effect_incoming e x")
    case None
    then show ?thesis using rec(1) by (simp add: incoming_claims_def)
  next
    case (Some i)
    obtain y p where "i = (y, p)" by force
    then show ?thesis using Some rec(1) incoming_claims_result(2) [of y p claims] by simp
  qed
  have new: "overlay_pairs ov' = item_claims (ItemNode (edit_node b (effect_parent e) ?f))"
    using edited_claims [OF parent assms(6,7) rec(4)] rec(3) claims by simp
  have "claims_readable ?root' ?ks"
    unfolding claims_readable_def
  proof (intro allI impI)
    fix r m assume at: "node_at (ItemNode ?root') r m"
    let ?P = "?ks @ effect_parent e"
    have full: "node_at (ItemNode root) ?P n"
      using node_at_append [OF base_node_at [OF b assms(3)]] parent by simp
    have reads: "reads_at (edit_item (ItemNode root) ?P ?f) r (read_hson_node_quid m)"
      unfolding reads_at_def using at by (intro exI [of _ m]) (simp add: edit_document_def)
    show "\<exists>q. read_hson_node_quid m = Inr q \<and> (q \<noteq> None \<longrightarrow> prefix ?ks r)"
    proof (cases "strict_prefix ?P r")
      case False
      then have "reads_at (ItemNode root) r (read_hson_node_quid m)"
        using reads reads_at_outside [OF full assms(6)] by blast
      then show ?thesis by (rule readable_at [OF old(1)])
    next
      case True
      then obtain s r' where r: "r = ?P @ s # r'" by (auto elim!: strict_prefixE')
      have below: "s < length (?f (content_of n))" "reads_at (?f (content_of n) ! s) r' (read_hson_node_quid m)"
        using reads reads_at_below [OF node_at_edited [OF full, of ?f]] by (simp_all add: r)
      have pre: "prefix ?ks r" by (simp add: r)
      have kept: ?thesis if "s0 < length (content_of n)" "?f (content_of n) ! s = content_of n ! s0" for s0
      proof -
        have "reads_at (ItemNode root) (?P @ s0 # r') (read_hson_node_quid m)"
          using reads_at_below [OF full] that below by simp
        then show ?thesis using readable_at [OF old(1)] pre by blast
      qed
      consider "effect_slot e = Some s" | "s < length (content_of n)" "shift_sibling e s = Inr None"
        | s0 where "s0 < length (content_of n)" "shift_sibling e s0 = Inr (Some s)"
        using new_sibling_origin [OF assms(7) below(1)] by blast
      then show ?thesis
      proof cases
        case 1
        then have "incoming_claims (Some (x, effect_parent e @ [s])) = Inr claims"
          using rec(1) by (simp add: effect_incoming_def)
        moreover have "reads_at x r' (read_hson_node_quid m)"
          using below effect_slot_nth [OF assms(7) 1, of x] by simp
        ultimately have "\<exists>q. read_hson_node_quid m = Inr q"
          unfolding reads_at_def by (metis incoming_claims_result(3))
        then show ?thesis using pre by blast
      next
        case 2
        then show ?thesis using kept [of s] shift_sibling_nth [OF assms(7) 2] by simp
      next
        case 3
        then show ?thesis using kept [of s0] shift_sibling_nth [OF assms(7) 3] by simp
      qed
    qed
  qed
  then show ?thesis
    using assert_overlay_iff [OF b' root' rec(2)] rec(2) new by (simp add: edit_document_def)
qed

text \<open>
  C8: the incremental overlay is the full scan. If the overlay of a document agrees with a
  fresh scan of its root, and a content effect that fits is applied both to the document and,
  by reconciliation with the incoming subtree's claims, to the overlay, then a successful
  reconciliation leaves an overlay that agrees with a fresh scan of the edited root: no claim is
  lost, duplicated or left at a stale path, although only the old claims and the incoming
  subtree were read.
\<close>

theorem reconciled_overlay_is_full_scan:
  assumes "assert_livemap_document_identity_overlay root mode ov = Inr ()" and "overlay_ok ov"
    and "is_Node (ItemNode root)"
    and "resolve_document_path root mode (effect_parent e) = Inr (ItemNode n)" and "is_Node (ItemNode n)"
    and "tag_of n \<noteq> OBJ_TAG" and "effect_fits e (length (content_of n))"
    and "reconcile_livemap_document_identity_overlay ov e (effect_incoming e x) = Inr (ov', effs)"
  shows "overlay_ok ov' \<and>
    assert_livemap_document_identity_overlay
      (edit_document root mode (effect_parent e) (effect_content e x)) mode ov' = Inr ()"
  by (rule reconcile_full_scan [OF assms(1-5) read_quid_edit assms(7,8)]) (rule assms(6))

definition identified :: "hson_node \<Rightarrow> js_string \<Rightarrow> hson_node" where
  "identified n q = HsonNode (tag_of n) (attrs_of n) (Some [(HSON_META_QUID, PStr q)]) (content_of n)"

definition identified_document :: hson_node where
  "identified_document = bare_node ROOT_TAG [ItemNode (bare_node ELEM_TAG
     [ItemNode (bare_node (js ''p'') []), ItemNode (identified (bare_node (js ''hr'') []) (js ''000000001''))])]"

theorem reconciled_overlay_is_full_scan_witness:
  "\<exists>ov effs. reconcile_livemap_document_identity_overlay
       \<lparr> quid_to_path = [(js ''000000001'', [1])], path_to_quid = [([1], js ''000000001'')] \<rparr>
       (InsertEffect [] (IntArg 0))
       (effect_incoming (InsertEffect [] (IntArg 0)) (ItemNode (identified (bare_node (js ''p'') []) (js ''000000002'')))) =
         Inr (ov, effs) \<and>
     path_for_quid ov (js ''000000001'') = Some [2] \<and> path_for_quid ov (js ''000000002'') = Some [0] \<and>
     assert_livemap_document_identity_overlay
       (edit_document identified_document FragmentMode []
         (insert_nth 0 (ItemNode (identified (bare_node (js ''p'') []) (js ''000000002''))))) FragmentMode ov = Inr ()"
proof -
  define e where "e = InsertEffect [] (IntArg 0)"
  define x where "x = ItemNode (identified (bare_node (js ''p'') []) (js ''000000002''))"
  define ov where "ov = \<lparr> quid_to_path = [(js ''000000001'', [1::nat])], path_to_quid = [([1], js ''000000001'')] \<rparr>"
  define ov' where "ov' = \<lparr> quid_to_path = [(js ''000000001'', [2::nat]), (js ''000000002'', [0])],
    path_to_quid = [([2], js ''000000001''), ([0], js ''000000002'')] \<rparr>"
  have quids: "is_persisted_quid (PStr (js ''000000001''))" "is_persisted_quid (PStr (js ''000000002''))"
    by (simp_all add: is_persisted_quid_def PERSISTED_QUID_LENGTH_def PERSISTED_QUID_ALPHABET_def js_def)
  have reads: "read_hson_node_quid (identified (bare_node t []) q) = Inr (Some q)"
    if "is_persisted_quid (PStr q)" "\<not> starts_with t HSON_SYS_PREFIX" for t q
    using that by (simp add: read_hson_node_quid_def read_quid_def meta_lookup_def identified_def
        assert_hson_node_quid_eligible_def quid_eligible_def old_shaped_meta_def HSON_META_QUID_def)
  have bare: "read_hson_node_quid (bare_node t c) = Inr None" for t c
    by (simp add: read_hson_node_quid_def read_quid_def meta_lookup_def)
  have tags: "\<not> starts_with (js ''p'') HSON_SYS_PREFIX" "\<not> starts_with (js ''hr'') HSON_SYS_PREFIX"
    by (simp_all add: HSON_SYS_PREFIX_def)
  have shape: "is_Node (ItemNode (identified n q))" "content_of (identified n q) = content_of n" for n q
    by (simp_all add: identified_def old_shaped_meta_def HSON_META_QUID_def)
  have q: "js ''000000001'' \<noteq> js ''000000002''" by simp
  have moved: "transform_document_path [1] e = Inr (Moved [2])"
    unfolding e_def by (simp add: transform_document_path_def document_path_is_prefix_iff document_path_equal_iff
        index_ok_def index_nat_def is_safe_integer_def max_safe_integer_def validate_document_path_def rbind_def)
  have incoming: "incoming_claims (effect_incoming e x) = Inr [(js ''000000002'', [0])]"
    by (simp add: effect_incoming_def e_def x_def incoming_claims_def shape reads quids tags identity_frames_def
        index_nat_def del: is_Node.simps)
  have rec: "reconcile_livemap_document_identity_overlay ov e (effect_incoming e x) =
      Inr (ov', [IdentityMoved (js ''000000001'') [1] [2], IdentityIntroduced (js ''000000002'') [0]])"
    using q by (simp add: reconcile_livemap_document_identity_overlay_def incoming ov_def moved [unfolded One_nat_def] ov'_def
        add_overlay_entry_def empty_overlay_def path_for_quid_def quid_at_path_def)
  have ok: "overlay_ok ov" by (auto simp: ov_def overlay_ok_def)
  have base: "document_path_base identified_document FragmentMode =
      Inr (bare_node ELEM_TAG [ItemNode (bare_node (js ''p'') []),
        ItemNode (identified (bare_node (js ''hr'') []) (js ''000000001''))])"
    by (simp add: document_path_base_def identified_document_def tags_neq)
  have pos: "base_position identified_document FragmentMode = [0]"
    by (simp add: base_position_def identified_document_def tags_neq)
  have fresh: "build_livemap_document_identity_overlay identified_document FragmentMode = Inr ov"
    by (simp add: build_livemap_document_identity_overlay_def resolve_document_path_def base pos)
      (simp add: identified_document_def identity_frames_def visit_identity_def bare reads quids tags shape
        add_overlay_entry_def empty_overlay_def path_for_quid_def quid_at_path_def ov_def del: is_Node.simps)
  have agrees: "assert_livemap_document_identity_overlay identified_document FragmentMode ov = Inr ()"
    unfolding assert_livemap_document_identity_overlay_def fresh
    by (simp add: ov_def path_for_quid_def quid_at_path_def document_path_equal_iff)
  have f: "effect_content e x = insert_nth 0 x" by (simp add: e_def index_nat_def fun_eq_iff)
  have at: "resolve_document_path identified_document FragmentMode (effect_parent e) =
      Inr (ItemNode (bare_node ELEM_TAG [ItemNode (bare_node (js ''p'') []),
        ItemNode (identified (bare_node (js ''hr'') []) (js ''000000001''))]))"
    by (simp add: resolve_document_path_def base e_def)
  have fits: "effect_fits e (Suc (Suc 0))"
    by (simp add: e_def index_ok_def index_nat_def is_safe_integer_def max_safe_integer_def)
  have "assert_livemap_document_identity_overlay
      (edit_document identified_document FragmentMode (effect_parent e) (insert_nth 0 x)) FragmentMode ov' = Inr ()"
    using reconciled_overlay_is_full_scan [OF agrees ok _ at _ _ _ rec] fits
    by (simp add: f identified_document_def tags_neq)
  then show ?thesis
    using rec by (auto simp: e_def x_def ov_def ov'_def path_for_quid_def)
qed

end
