(* ===== verification/Node_Update.thy ===== *)
theory Node_Update
  imports Identity_Laws
begin

text \<open>
  Changes of one node in place, by path, and what an identity scan reads afterwards. A head change
  alters the attributes or the metadata of a node and keeps its content, so every other node reads
  as before.
\<close>

section \<open>Changing the head of one node\<close>

fun update_node :: "hson_node \<Rightarrow> document_path \<Rightarrow> (hson_node \<Rightarrow> hson_node) \<Rightarrow> hson_node" where
  "update_node n [] g = g n"
| "update_node n (s # ss) g =
     HsonNode (tag_of n) (attrs_of n) (meta_of n)
       (if s < length (content_of n)
        then (content_of n)[s := (case content_of n ! s of
          ItemNode k \<Rightarrow> ItemNode (update_node k ss g) | ItemPrim p \<Rightarrow> ItemPrim p)]
        else content_of n)"

definition update_item :: "hson_item \<Rightarrow> document_path \<Rightarrow> (hson_node \<Rightarrow> hson_node) \<Rightarrow> hson_item" where
  "update_item it path g = (case it of ItemNode n \<Rightarrow> ItemNode (update_node n path g) | ItemPrim p \<Rightarrow> ItemPrim p)"

lemma update_item_simps [simp]:
  "update_item (ItemPrim p) path g = ItemPrim p"
  "update_item (ItemNode n) path g = ItemNode (update_node n path g)"
  by (simp_all add: update_item_def)

lemma update_node_below [simp]:
  "tag_of (update_node n (s # p) g) = tag_of n" "attrs_of (update_node n (s # p) g) = attrs_of n"
  "meta_of (update_node n (s # p) g) = meta_of n"
  "content_of (update_node n (s # p) g) =
    (if s < length (content_of n) then (content_of n)[s := update_item (content_of n ! s) p g] else content_of n)"
  by (simp_all add: update_item_def)

declare update_node.simps(2) [simp del]

text \<open>A change that keeps a node's tag, its content and its being a node.\<close>

definition head_change :: "(hson_node \<Rightarrow> hson_node) \<Rightarrow> bool" where
  "head_change g \<longleftrightarrow> (\<forall>n. tag_of (g n) = tag_of n \<and> content_of (g n) = content_of n \<and>
     is_Node (ItemNode (g n)) = is_Node (ItemNode n))"

lemma head_change_node:
  assumes "head_change g"
  shows "tag_of (update_node n p g) = tag_of n"
    "old_shaped_meta (meta_of (update_node n p g)) = old_shaped_meta (meta_of n)"
  using assms by (cases p; simp add: head_change_def)+

lemma is_Node_update:
  assumes "head_change g"
  shows "is_Node (update_item it p g) = is_Node it"
  by (cases it) (simp_all add: head_change_node [OF assms])

lemma kid_tag_update: "head_change g \<Longrightarrow> kid_tag (update_item it p g) = kid_tag it"
  by (cases it) (simp_all add: head_change_node)

lemma descend_update:
  assumes "head_change g"
  shows "descend i (update_item it p g) r =
    rbind (descend i it r) (\<lambda>x. Inr (if prefix r p then update_item x (drop (length r) p) g else x))"
proof (induction i it r arbitrary: p rule: descend.induct)
  case (3 i n s ss)
  have node: "is_Node (ItemNode (update_node n p g)) = is_Node (ItemNode n)"
    by (simp add: head_change_node [OF assms])
  show ?case
  proof (cases "is_Node (ItemNode n) \<and> s < length (content_of n)")
    case False
    then have "\<not> is_Node (ItemNode n) \<or> length (content_of n) \<le> s" by linarith
    moreover have "length (content_of (update_node n p g)) = length (content_of n)"
      using assms by (cases p) (auto simp: head_change_def)
    ultimately show ?thesis using node by (auto simp del: is_Node.simps)
  next
    case True
    note IH = "3.IH" [of "tl p"]
    show ?thesis
    proof (cases p)
      case Nil
      have "content_of (g n) = content_of n" using assms by (simp add: head_change_def)
      then show ?thesis using True node
        by (cases "descend (Suc i) (content_of n ! s) ss") (simp_all add: Nil del: is_Node.simps)
    next
      case (Cons t ts)
      then show ?thesis using True node 3
        by (cases "s = t") (auto simp del: is_Node.simps simp: nth_list_update rbind_def split: sum.split)
    qed
  qed
qed auto

lemma node_at_update:
  assumes "head_change g" and "node_at it r m"
  shows "node_at (update_item it p g) r (if prefix r p then update_node m (drop (length r) p) g else m)"
  using assms by (auto simp: node_at_def descend_update head_change_node)

lemma node_at_update_iff:
  assumes "head_change g"
  shows "node_at (update_item it p g) r m' \<longleftrightarrow>
    (\<exists>m. node_at it r m \<and> m' = (if prefix r p then update_node m (drop (length r) p) g else m))"
proof
  assume n: "node_at (update_item it p g) r m'"
  then obtain x where x: "descend 0 it r = Inr x" "ItemNode m' = (if prefix r p then update_item x (drop (length r) p) g else x)"
    by (auto simp: node_at_def descend_update [OF assms] rbind_Inr_iff)
  then obtain m where m: "x = ItemNode m" by (cases x) (auto split: if_splits)
  then have "is_Node (ItemNode m)" using n x by (auto simp: node_at_def head_change_node [OF assms] split: if_splits)
  then show "\<exists>m. node_at it r m \<and> m' = (if prefix r p then update_node m (drop (length r) p) g else m)"
    using x m by (auto simp: node_at_def split: if_splits)
qed (use node_at_update [OF assms] in blast)

lemma node_kids_update:
  assumes "head_change g"
  shows "node_kids (update_node n p g) = node_kids n"
proof (cases p)
  case (Cons s r)
  then show ?thesis
    by (simp add: map_update kid_tag_update [OF assms]) (metis list_update_id map_update nth_map)
qed (use assms in \<open>simp add: head_change_def\<close>)

text \<open>Only the reading of the changed node itself can differ.\<close>

lemma reads_at_update:
  assumes "head_change g" and "r \<noteq> p"
  shows "reads_at (update_item it p g) r v \<longleftrightarrow> reads_at it r v"
proof -
  have "read_hson_node_quid (if prefix r p then update_node m (drop (length r) p) g else m) = read_hson_node_quid m" for m
  proof (cases "prefix r p")
    case True
    then obtain s q where "drop (length r) p = s # q" using assms(2) by (cases "drop (length r) p") (auto simp: prefix_def)
    then show ?thesis
      using node_kids_update [OF assms(1), of m "s # q"] by (simp add: read_hson_node_quid_def)
  qed simp
  then show ?thesis unfolding reads_at_def node_at_update_iff [OF assms(1)] by metis
qed

lemma reads_at_updated:
  assumes "head_change g"
  shows "reads_at (update_item it p g) p v \<longleftrightarrow> (\<exists>m. node_at it p m \<and> read_hson_node_quid (g m) = v)"
  unfolding reads_at_def node_at_update_iff [OF assms] by (simp add: drop_all [OF order_refl]) blast

definition update_document ::
    "hson_node \<Rightarrow> root_mode \<Rightarrow> document_path \<Rightarrow> (hson_node \<Rightarrow> hson_node) \<Rightarrow> hson_node" where
  "update_document root mode p g = update_node root (base_position root mode @ p) g"

lemma update_document_base:
  assumes "head_change g" and "document_path_base root mode = Inr b"
  shows "document_path_base (update_document root mode p g) mode = Inr (update_node b p g)"
proof -
  note head = head_change_node [OF assms(1)]
  have ord: "is_ordinary_element_node (update_node n p g) = is_ordinary_element_node n" for n p
    by (simp add: is_ordinary_element_node_def head)
  show ?thesis
    using assms(2)
    by (cases "tag_of root = ELEM_TAG"; cases "mode = FragmentMode")
      (auto simp: document_path_base_def update_document_def base_position_def ord head
        split: if_splits list.splits hson_item.splits)
qed

lemma base_position_update: "head_change g \<Longrightarrow> base_position (update_document root mode p g) mode = base_position root mode"
  by (simp add: base_position_def update_document_def head_change_node)

end
