(* ===== verification/Document_Mutation.thy ===== *)
theory Document_Mutation
  imports Document_Target Node_Update
begin

text \<open>
  Preparation of document mutations (\<open>api/livemap/livemap.document.mutation.ts\<close>): each function takes a
  document and a request, checks the request, edits a clone, reconciles the identity overlay and
  returns the candidate with the operation to record, or an error. Attribute planning is
  \<open>Public_Attrs\<close>, targets are \<open>Document_Target\<close>.
\<close>

section \<open>Candidates\<close>

type_synonym document_op = "(document_path, hson_item) graph_op"

record prepared_mutation =
  m_root :: hson_node
  m_overlay :: identity_overlay
  m_operation :: document_op
  m_effects :: "identity_effect list"

datatype target_authority = RequestAuthority | CommitAuthority

definition prepare_target ::
    "hson_node \<Rightarrow> root_mode \<Rightarrow> identity_overlay \<Rightarrow> target_input \<Rightarrow> document_operation \<Rightarrow> target_authority \<Rightarrow>
     document_error + commit_target \<times> hson_item" where
  "prepare_target root mode ov input op authority =
     (if authority = RequestAuthority then canonicalize_document_request_target root mode ov input op
      else resolve_document_commit_target root mode ov input op)"

text \<open>\<open>reconcile_operation_identity\<close>: the identity consequence of one operation.\<close>

fun reconcile_operation_identity ::
    "identity_overlay \<Rightarrow> document_op \<Rightarrow> identity_error + identity_overlay \<times> identity_effect list" where
  "reconcile_operation_identity ov (ReplaceRoot m r) = Inl OverlayInvariant"
| "reconcile_operation_identity ov (SetAttr t k v) =
     Inr (preserve_livemap_document_identity_at_path ov (target_path t))"
| "reconcile_operation_identity ov (RemoveAttr t k) =
     Inr (preserve_livemap_document_identity_at_path ov (target_path t))"
| "reconcile_operation_identity ov (ReplaceAttrs t a) =
     Inr (preserve_livemap_document_identity_at_path ov (target_path t))"
| "reconcile_operation_identity ov (EnsureQuid t q) =
     register_livemap_document_identity_at_path ov q (target_path t)"
| "reconcile_operation_identity ov (InsertContent t i c) =
     (case append_document_path (target_path t) i of
        Inl f \<Rightarrow> Inl (IdentityPathFault f)
      | Inr p \<Rightarrow> reconcile_livemap_document_identity_overlay ov (InsertEffect (target_path t) i) (Some (c, p)))"
| "reconcile_operation_identity ov (ReplaceContent t i c) =
     (case append_document_path (target_path t) i of
        Inl f \<Rightarrow> Inl (IdentityPathFault f)
      | Inr p \<Rightarrow> reconcile_livemap_document_identity_overlay ov (ReplaceEffect (target_path t) i) (Some (c, p)))"
| "reconcile_operation_identity ov (RemoveContent t i) =
     reconcile_livemap_document_identity_overlay ov (DeleteEffect (target_path t) i) None"
| "reconcile_operation_identity ov (MoveContent t i j) =
     reconcile_livemap_document_identity_overlay ov (MoveEffect (target_path t) i j) None"

text \<open>
  The checks every candidate passes before it is handed over: its identities reconcile, it
  satisfies the invariants, and it stays in the mode of its facade.
\<close>

definition prepare_finished_mutation ::
    "root_mode \<Rightarrow> hson_node \<Rightarrow> identity_overlay \<Rightarrow> document_op \<Rightarrow> document_operation \<Rightarrow>
     document_error + prepared_mutation" where
  "prepare_finished_mutation mode root ov operation op =
     (case reconcile_operation_identity ov operation of
        Inl e \<Rightarrow>
          Inl (DocumentError (if e = DuplicateIdentity then DOCUMENT_IDENTITY_COLLISION else INVALID_DOCUMENT_IDENTITY) op)
      | Inr (ov', effects) \<Rightarrow>
          (case assert_invariants root of
             Inl e \<Rightarrow> Inl (DocumentError INVALID_DOCUMENT_REPLACEMENT op)
           | Inr u \<Rightarrow>
               (case classify_live_root_mode root of
                  Inl e \<Rightarrow> Inl (RootFault e)
                | Inr m \<Rightarrow>
                    if m \<noteq> mode then Inl (DocumentError DOCUMENT_MODE_MISMATCH op)
                    else Inr \<lparr> m_root = root, m_overlay = ov', m_operation = operation, m_effects = effects \<rparr>)))"

section \<open>Attributes\<close>

definition normalize_attr_name :: "js_string \<Rightarrow> document_operation \<Rightarrow> document_error + js_string" where
  "normalize_attr_name name op =
     (if starts_with name HSON_META_MARKUP_PREFIX then Inl (DocumentError PROTECTED_DOCUMENT_METADATA op)
      else if \<not> is_public_attr_name name then Inl (DocumentError INVALID_DOCUMENT_ATTRIBUTE_NAME op)
      else Inr name)"

definition normalize_attr_value ::
    "js_string \<Rightarrow> attr_value \<Rightarrow> document_operation \<Rightarrow> document_error + attr_value" where
  "normalize_attr_value name v op =
     (case decode_public_attr_value name v of
        None \<Rightarrow> Inl (DocumentError INVALID_DOCUMENT_ATTRIBUTE_VALUE op)
      | Some w \<Rightarrow> Inr w)"

definition own_attrs :: "hson_node \<Rightarrow> hson_attrs" where
  "own_attrs n = (case attrs_of n of None \<Rightarrow> [] | Some es \<Rightarrow> es)"

definition decode_own_attrs :: "hson_node \<Rightarrow> document_error \<Rightarrow> document_error + hson_attrs" where
  "decode_own_attrs n e = (case decode_public_attrs (ARec (own_attrs n)) of None \<Rightarrow> Inl e | Some a \<Rightarrow> Inr a)"

definition lift_attrs :: "attrs_error + 'a \<Rightarrow> document_error + 'a" where
  "lift_attrs r = (case r of Inl e \<Rightarrow> Inl (AttributesFault e) | Inr a \<Rightarrow> Inr a)"

definition with_attrs :: "hson_attrs option \<Rightarrow> hson_node \<Rightarrow> hson_node" where
  "with_attrs a n = HsonNode (tag_of n) a (meta_of n) (content_of n)"

definition stored_attrs :: "hson_attrs \<Rightarrow> hson_attrs option" where
  "stored_attrs a = (if a = [] then None else Some a)"

definition prepare_set_document_attr ::
    "hson_node \<Rightarrow> root_mode \<Rightarrow> identity_overlay \<Rightarrow> target_input \<Rightarrow> js_string \<Rightarrow> attr_value \<Rightarrow> target_authority \<Rightarrow>
     document_error + prepared_mutation" where
  "prepare_set_document_attr root mode ov targetInput nameInput valueInput authority =
     rbind (normalize_attr_name nameInput OpSetAttr) (\<lambda>name.
     rbind (normalize_attr_value name valueInput OpSetAttr) (\<lambda>v.
     rbind (prepare_target root mode ov targetInput OpSetAttr authority) (\<lambda>(target, endpoint).
     rbind (require_document_attr_element endpoint OpSetAttr) (\<lambda>element.
     rbind (decode_own_attrs element (DocumentError INVALID_DOCUMENT_ATTRIBUTE_VALUE OpSetAttr)) (\<lambda>current.
     rbind (lift_attrs (plan_public_attr_set current name v)) (\<lambda>next.
       prepare_finished_mutation mode
         (update_document root mode (target_path target) (with_attrs (Some next))) ov
         (SetAttr target name v) OpSetAttr))))))"

definition prepare_remove_document_attr ::
    "hson_node \<Rightarrow> root_mode \<Rightarrow> identity_overlay \<Rightarrow> target_input \<Rightarrow> js_string \<Rightarrow> target_authority \<Rightarrow>
     document_error + prepared_mutation" where
  "prepare_remove_document_attr root mode ov targetInput nameInput authority =
     rbind (normalize_attr_name nameInput OpRemoveAttr) (\<lambda>name.
     rbind (prepare_target root mode ov targetInput OpRemoveAttr authority) (\<lambda>(target, endpoint).
     rbind (require_document_attr_element endpoint OpRemoveAttr) (\<lambda>element.
     rbind (decode_own_attrs element (DocumentError INVALID_DOCUMENT_ATTRIBUTE_VALUE OpRemoveAttr)) (\<lambda>current.
     rbind (lift_attrs (plan_public_attr_drop current name)) (\<lambda>next.
       prepare_finished_mutation mode
         (update_document root mode (target_path target) (with_attrs (stored_attrs next))) ov
         (RemoveAttr target name) OpRemoveAttr)))))"

definition prepare_replace_document_attrs ::
    "hson_node \<Rightarrow> root_mode \<Rightarrow> identity_overlay \<Rightarrow> target_input \<Rightarrow> attr_value \<Rightarrow> target_authority \<Rightarrow>
     document_error + prepared_mutation" where
  "prepare_replace_document_attrs root mode ov targetInput attrsInput authority =
     (case decode_public_attrs attrsInput of
        None \<Rightarrow> Inl (DocumentError INVALID_DOCUMENT_ATTRIBUTE_VALUE OpReplaceAttrs)
      | Some decoded \<Rightarrow>
          rbind (lift_attrs (plan_public_attrs_replace decoded)) (\<lambda>attrs.
          rbind (prepare_target root mode ov targetInput OpReplaceAttrs authority) (\<lambda>(target, endpoint).
          rbind (require_document_attr_element endpoint OpReplaceAttrs) (\<lambda>element.
            prepare_finished_mutation mode
              (update_document root mode (target_path target) (with_attrs (stored_attrs attrs))) ov
              (ReplaceAttrs target attrs) OpReplaceAttrs))))"

section \<open>Content\<close>

definition normalize_content_index :: "num_arg \<Rightarrow> document_operation \<Rightarrow> document_error + nat" where
  "normalize_content_index i op =
     (if index_ok i then Inr (index_nat i) else Inl (DocumentError INVALID_DOCUMENT_CONTENT_INDEX op))"

fun prim_is_finite :: "prim \<Rightarrow> bool" where
  "prim_is_finite (PNum x) = num_finite x"
| "prim_is_finite p = True"

definition clone_content :: "hson_item \<Rightarrow> document_operation \<Rightarrow> document_error + hson_item" where
  "clone_content it op =
     (case it of
        ItemNode n \<Rightarrow> if is_Node it then Inr it else Inl (DocumentError INVALID_DOCUMENT_REPLACEMENT op)
      | ItemPrim p \<Rightarrow> if prim_is_finite p then Inr it else Inl (DocumentError INVALID_DOCUMENT_REPLACEMENT op))"

definition insertion_content :: "hson_node \<Rightarrow> hson_item \<Rightarrow> hson_item" where
  "insertion_content endpoint content =
     (case content of
        ItemPrim (PStr s) \<Rightarrow>
          if tag_of endpoint = ELEM_TAG then ItemNode (bare_node STR_TAG [content]) else content
      | _ \<Rightarrow> content)"

definition require_content_endpoint :: "hson_item \<Rightarrow> document_operation \<Rightarrow> document_error + hson_node" where
  "require_content_endpoint endpoint op =
     (if is_Node endpoint then Inr (item_node endpoint) else Inl (DocumentError DOCUMENT_TARGET_KIND op))"

definition require_existing_content_index ::
    "hson_node \<Rightarrow> nat \<Rightarrow> document_operation \<Rightarrow> document_error + unit" where
  "require_existing_content_index endpoint i op =
     rguard (i < length (content_of endpoint)) (DocumentError INVALID_DOCUMENT_CONTENT_INDEX op)"

definition prepare_replace_document_content ::
    "hson_node \<Rightarrow> root_mode \<Rightarrow> identity_overlay \<Rightarrow> target_input \<Rightarrow> num_arg \<Rightarrow> hson_item \<Rightarrow> target_authority \<Rightarrow>
     document_error + prepared_mutation" where
  "prepare_replace_document_content root mode ov targetInput indexInput replacementInput authority =
     rbind (normalize_content_index indexInput OpReplaceContent) (\<lambda>i.
     rbind (clone_content replacementInput OpReplaceContent) (\<lambda>replacement.
     rbind (prepare_target root mode ov targetInput OpReplaceContent authority) (\<lambda>(target, endpointItem).
     rbind (require_content_endpoint endpointItem OpReplaceContent) (\<lambda>endpoint.
       if length (content_of endpoint) \<le> i then Inl (DocumentError INVALID_DOCUMENT_CONTENT_INDEX OpReplaceContent)
       else
         (let x = insertion_content endpoint replacement in
          rbind (clone_content x OpReplaceContent) (\<lambda>recorded.
            prepare_finished_mutation mode
              (edit_document root mode (target_path target) (\<lambda>c. c[i := x])) ov
              (ReplaceContent target indexInput recorded) OpReplaceContent))))))"

text \<open>
  An empty fragment has no cluster to insert into: one is created, and only the root path names it.
\<close>

definition prepare_empty_fragment_insert_target ::
    "target_input \<Rightarrow> target_authority \<Rightarrow> document_error + commit_target" where
  "prepare_empty_fragment_insert_target targetInput authority =
     (if authority = RequestAuthority then
        rbind (normalize_document_request_target targetInput OpInsertContent) (\<lambda>request.
          (case request of
             QuidRequest q \<Rightarrow> Inl (DocumentError DOCUMENT_TARGET_NOT_FOUND OpInsertContent)
           | PathRequest p \<Rightarrow>
               if p \<noteq> [] then Inl (DocumentError DOCUMENT_PATH_OUT_OF_RANGE OpInsertContent)
               else Inr (DocTarget p None)))
      else
        rbind (normalize_document_commit_target targetInput OpInsertContent) (\<lambda>target.
          if target_path target \<noteq> [] then Inl (DocumentError DOCUMENT_PATH_OUT_OF_RANGE OpInsertContent)
          else Inr target))"

definition prepare_insert_document_content ::
    "hson_node \<Rightarrow> root_mode \<Rightarrow> identity_overlay \<Rightarrow> target_input \<Rightarrow> num_arg \<Rightarrow> hson_item \<Rightarrow> target_authority \<Rightarrow>
     document_error + prepared_mutation" where
  "prepare_insert_document_content root mode ov targetInput indexInput contentInput authority =
     rbind (normalize_content_index indexInput OpInsertContent) (\<lambda>i.
     rbind (clone_content contentInput OpInsertContent) (\<lambda>content.
       if mode = FragmentMode \<and> tag_of root = ROOT_TAG \<and> content_of root = [] then
         rbind (prepare_empty_fragment_insert_target targetInput authority) (\<lambda>target.
           if i > 0 then Inl (DocumentError INVALID_DOCUMENT_CONTENT_INDEX OpInsertContent)
           else
             (let endpoint = bare_node ELEM_TAG [] in
              prepare_finished_mutation mode
                (HsonNode (tag_of root) (attrs_of root) (meta_of root)
                   [ItemNode (bare_node ELEM_TAG [insertion_content endpoint content])]) ov
                (InsertContent target indexInput content) OpInsertContent))
       else
         rbind (prepare_target root mode ov targetInput OpInsertContent authority) (\<lambda>(target, endpointItem).
         rbind (require_content_endpoint endpointItem OpInsertContent) (\<lambda>endpoint.
           if i > length (content_of endpoint) then Inl (DocumentError INVALID_DOCUMENT_CONTENT_INDEX OpInsertContent)
           else prepare_finished_mutation mode
             (edit_document root mode (target_path target) (insert_nth i (insertion_content endpoint content))) ov
             (InsertContent target indexInput content) OpInsertContent))))"

text \<open>Removing the last item of a fragment's cluster removes the cluster as well.\<close>

definition prepare_remove_document_content ::
    "hson_node \<Rightarrow> root_mode \<Rightarrow> identity_overlay \<Rightarrow> target_input \<Rightarrow> num_arg \<Rightarrow> target_authority \<Rightarrow>
     document_error + prepared_mutation" where
  "prepare_remove_document_content root mode ov targetInput indexInput authority =
     rbind (normalize_content_index indexInput OpRemoveContent) (\<lambda>i.
     rbind (prepare_target root mode ov targetInput OpRemoveContent authority) (\<lambda>(target, endpointItem).
     rbind (require_content_endpoint endpointItem OpRemoveContent) (\<lambda>endpoint.
     rbind (require_existing_content_index endpoint i OpRemoveContent) (\<lambda>u.
       (let root' = edit_document root mode (target_path target) (remove_nth i);
            root'' = (if mode = FragmentMode \<and> tag_of endpoint = ELEM_TAG \<and> remove_nth i (content_of endpoint) = [] \<and>
                target_path target = [] \<and> tag_of root = ROOT_TAG
              then HsonNode (tag_of root) (attrs_of root) (meta_of root) [] else root')
        in prepare_finished_mutation mode root'' ov (RemoveContent target indexInput) OpRemoveContent)))))"

definition prepare_move_document_content ::
    "hson_node \<Rightarrow> root_mode \<Rightarrow> identity_overlay \<Rightarrow> target_input \<Rightarrow> num_arg \<Rightarrow> num_arg \<Rightarrow> target_authority \<Rightarrow>
     document_error + prepared_mutation" where
  "prepare_move_document_content root mode ov targetInput fromInput toInput authority =
     rbind (normalize_content_index fromInput OpMoveContent) (\<lambda>i.
     rbind (normalize_content_index toInput OpMoveContent) (\<lambda>j.
     rbind (prepare_target root mode ov targetInput OpMoveContent authority) (\<lambda>(target, endpointItem).
     rbind (require_content_endpoint endpointItem OpMoveContent) (\<lambda>endpoint.
     rbind (require_existing_content_index endpoint i OpMoveContent) (\<lambda>u.
     rbind (require_existing_content_index endpoint j OpMoveContent) (\<lambda>u.
       prepare_finished_mutation mode
         (edit_document root mode (target_path target) (\<lambda>c. if i \<noteq> j then move_items i j c else c)) ov
         (MoveContent target fromInput toInput) OpMoveContent))))))"

section \<open>Identity\<close>

text \<open>\<open>assign_hson_node_quid\<close> as the change it makes to the node in place.\<close>

definition assigned_quid :: "js_string \<Rightarrow> hson_node \<Rightarrow> hson_node" where
  "assigned_quid quid m = (case assign_hson_node_quid m (PStr quid) of Inl e \<Rightarrow> m | Inr (q, n) \<Rightarrow> n)"

definition prepare_ensure_document_quid ::
    "hson_node \<Rightarrow> root_mode \<Rightarrow> identity_overlay \<Rightarrow> target_input \<Rightarrow> prim \<Rightarrow> document_error + prepared_mutation" where
  "prepare_ensure_document_quid root mode ov targetInput quidInput =
     (case quidInput of
        PStr quid \<Rightarrow>
          if \<not> is_persisted_quid quidInput then Inl (DocumentError INVALID_DOCUMENT_IDENTITY OpEnsureQuid)
          else rbind (prepare_target root mode ov targetInput OpEnsureQuid CommitAuthority) (\<lambda>(target, endpoint).
            if \<not> is_ordinary_element_item endpoint then Inl (DocumentError DOCUMENT_IDENTITY_INELIGIBLE OpEnsureQuid)
            else (case read_hson_node_quid (item_node endpoint) of
                Inl e \<Rightarrow> Inl (QuidFault e)
              | Inr (Some existing) \<Rightarrow>
                  if existing \<noteq> quid then Inl (DocumentError DOCUMENT_IDENTITY_DIFFERENT OpEnsureQuid)
                  else prepare_finished_mutation mode root ov (EnsureQuid target quid) OpEnsureQuid
              | Inr None \<Rightarrow>
                  if path_for_quid ov quid \<noteq> None then Inl (DocumentError DOCUMENT_IDENTITY_COLLISION OpEnsureQuid)
                  else (case assign_hson_node_quid (item_node endpoint) quidInput of
                      Inl e \<Rightarrow> Inl (QuidFault e)
                    | Inr (q, n) \<Rightarrow>
                        prepare_finished_mutation mode
                          (update_document root mode (target_path target) (assigned_quid quid)) ov
                          (EnsureQuid target quid) OpEnsureQuid)))
      | _ \<Rightarrow> Inl (DocumentError INVALID_DOCUMENT_IDENTITY OpEnsureQuid))"

section \<open>Operations as data\<close>

text \<open>
  A graph operation as it arrives from a commit: its envelope already taken apart, its fields not
  yet checked. \<open>RawUnsupported\<close> stands for every other input, \<open>replace-root\<close> included.
\<close>

datatype raw_op =
    RawSetAttr target_input js_string attr_value
  | RawRemoveAttr target_input js_string
  | RawReplaceAttrs target_input attr_value
  | RawReplaceContent target_input num_arg hson_item
  | RawInsertContent target_input num_arg hson_item
  | RawRemoveContent target_input num_arg
  | RawMoveContent target_input num_arg num_arg
  | RawEnsureQuid target_input prim
  | RawUnsupported

fun prepare_graph_operation ::
    "hson_node \<Rightarrow> root_mode \<Rightarrow> identity_overlay \<Rightarrow> raw_op \<Rightarrow> target_authority \<Rightarrow>
     document_error + prepared_mutation" where
  "prepare_graph_operation root mode ov (RawSetAttr t k v) auth = prepare_set_document_attr root mode ov t k v auth"
| "prepare_graph_operation root mode ov (RawRemoveAttr t k) auth = prepare_remove_document_attr root mode ov t k auth"
| "prepare_graph_operation root mode ov (RawReplaceAttrs t a) auth = prepare_replace_document_attrs root mode ov t a auth"
| "prepare_graph_operation root mode ov (RawReplaceContent t i c) auth =
     prepare_replace_document_content root mode ov t i c auth"
| "prepare_graph_operation root mode ov (RawInsertContent t i c) auth =
     prepare_insert_document_content root mode ov t i c auth"
| "prepare_graph_operation root mode ov (RawRemoveContent t i) auth = prepare_remove_document_content root mode ov t i auth"
| "prepare_graph_operation root mode ov (RawMoveContent t i j) auth = prepare_move_document_content root mode ov t i j auth"
| "prepare_graph_operation root mode ov (RawEnsureQuid t q) auth = prepare_ensure_document_quid root mode ov t q"
| "prepare_graph_operation root mode ov RawUnsupported auth =
     Inl (DocumentError INVALID_DOCUMENT_REPLACEMENT OpReplaceContent)"

definition prepare_document_graph_operation ::
    "hson_node \<Rightarrow> root_mode \<Rightarrow> identity_overlay \<Rightarrow> raw_op \<Rightarrow> document_error + prepared_mutation" where
  "prepare_document_graph_operation root mode ov input = prepare_graph_operation root mode ov input CommitAuthority"

end
