(* ===== verification/Document_Core.thy ===== *)
theory Document_Core
  imports Document_Install Live_Transition Document_Mutation
begin

text \<open>
  A live document: its owned root, overlay, revision and identity epoch, and the operations that
  change them (the document part of \<open>api/livemap/livemap.core.ts\<close>,
  \<open>api/livemap/livemap.document.replay.ts\<close> and the requests of
  \<open>api/livemap/livemap.document.mutation.ts\<close>). Observers are taken to return normally; what they are
  told is the list of events. An attached document schema is a name and its verdict on a root. Revisions stay
  below \<open>2 ^ 53\<close>, where the code's number addition is exact.
\<close>

section \<open>State\<close>

record graph_commit =
  g_changed :: bool
  g_prev_rev :: nat
  g_rev :: nat
  g_ops :: "document_op list"

datatype document_event = CommitEvent graph_commit commit_origin | SnapshotEvent nat

record document_map =
  dm_mode :: root_mode
  dm_root :: hson_node
  dm_overlay :: identity_overlay
  dm_rev :: nat
  dm_epoch :: identity_epoch
  dm_schema :: "(nat \<times> (hson_node \<Rightarrow> bool)) option"
  dm_events :: "document_event list"

record live_document =
  ld_controller :: "(graph_commit, document_map) controller"
  ld_map :: document_map

datatype continuity = SameEpochContinuity | NewEpochContinuity

datatype replay_input_code =
    InvalidReplayEnvelope
  | RootOperationComposition nat
  | UnchangedStagedOperation nat
  | EmptyGraphCommit

datatype core_error =
    CoreMutation document_error
  | CoreTransition transition_error_code
  | CoreEpoch epoch_error
  | CoreSchema
  | CoreEquality equality_fault
  | CoreInstall install_error
  | CoreRevision nat nat
  | CoreReplayInput replay_input_code
  | CoreStaging nat document_error

definition livemap_document_identity_quids :: "identity_overlay \<Rightarrow> js_string list" where
  "livemap_document_identity_quids ov = map fst (quid_to_path ov)"

definition schema_rejects :: "document_map \<Rightarrow> hson_node \<Rightarrow> bool" where
  "schema_rejects m root = (case dm_schema m of None \<Rightarrow> False | Some (name, ok) \<Rightarrow> \<not> ok root)"

fun operation_name :: "document_op \<Rightarrow> document_operation" where
  "operation_name (SetAttr t k v) = OpSetAttr"
| "operation_name (RemoveAttr t k) = OpRemoveAttr"
| "operation_name (ReplaceAttrs t a) = OpReplaceAttrs"
| "operation_name (EnsureQuid t q) = OpEnsureQuid"
| "operation_name (InsertContent t i c) = OpInsertContent"
| "operation_name (RemoveContent t i) = OpRemoveContent"
| "operation_name (MoveContent t i j) = OpMoveContent"
| "operation_name _ = OpReplaceContent"

section \<open>Transitions\<close>

definition emit_commit :: "graph_commit \<Rightarrow> commit_origin \<Rightarrow> document_map \<Rightarrow> document_map" where
  "emit_commit commit origin m = m\<lparr> dm_events := dm_events m @ [CommitEvent commit origin] \<rparr>"

text \<open>\<open>prepare_document_transition\<close> followed by the acceptance under the legacy policy.\<close>

definition run_document_transition ::
    "graph_commit \<Rightarrow> (document_map \<Rightarrow> document_map \<times> bool) \<Rightarrow> live_document \<Rightarrow>
     (core_error + graph_commit) \<times> live_document" where
  "run_document_transition commit install ld =
     (let m = ld_map ld in
      case prepare_transition (dm_rev m) (g_changed commit) (g_prev_rev commit) (g_rev commit) commit
          (\<lambda>s. canonical_hson_graph_equal (dm_root m) (dm_root m) = Inr True) install
          (\<lambda>s. (emit_commit commit Authoritative s, False)) (ld_controller ld) of
        Inl e \<Rightarrow> (Inl (CoreTransition e), ld)
      | Inr (token, k) \<Rightarrow>
          (case accept_transition dm_rev token LegacyPolicy (k, m) of
             (AcceptFailed e, k', m') \<Rightarrow> (Inl (CoreTransition e), \<lparr> ld_controller = k', ld_map = m' \<rparr>)
           | (AcceptDone c n, k', m') \<Rightarrow> (Inr c, \<lparr> ld_controller = k', ld_map = m' \<rparr>)
           | (AcceptThrew c, k', m') \<Rightarrow> (Inr c, \<lparr> ld_controller = k', ld_map = m' \<rparr>)))"

definition install_owned ::
    "hson_node \<Rightarrow> identity_overlay \<Rightarrow> nat \<Rightarrow> epoch_error + identity_epoch \<Rightarrow> document_map \<Rightarrow> document_map \<times> bool" where
  "install_owned root overlay revision epoch m =
     (case epoch of
        Inl e \<Rightarrow> (m, True)
      | Inr ep \<Rightarrow> (m\<lparr> dm_root := root, dm_overlay := overlay, dm_rev := revision, dm_epoch := ep \<rparr>, False))"

definition apply_mutation :: "prepared_mutation \<Rightarrow> live_document \<Rightarrow> (core_error + graph_commit) \<times> live_document" where
  "apply_mutation candidate ld =
     (let m = ld_map ld in
      case assert_public_mutation_allowed (ld_controller ld) of
        Inl e \<Rightarrow> (Inl (CoreTransition e), ld)
      | Inr u \<Rightarrow>
          if schema_rejects m (m_root candidate) then (Inl CoreSchema, ld)
          else (case stage_livemap_identity_epoch (epoch_issued (dm_epoch m))
              (livemap_document_identity_quids (dm_overlay m)) (livemap_document_identity_quids (m_overlay candidate)) of
            Inl SameEpochQuidReuse \<Rightarrow>
              (Inl (CoreMutation (DocumentError DOCUMENT_IDENTITY_REUSE (operation_name (m_operation candidate)))), ld)
          | Inl e \<Rightarrow> (Inl (CoreEpoch e), ld)
          | Inr nextLedger \<Rightarrow>
              (case canonical_hson_graph_equal (dm_root m) (m_root candidate) of
                 Inl e \<Rightarrow> (Inl (CoreEquality e), ld)
               | Inr unchanged \<Rightarrow>
                   (let commit = (if unchanged
                        then \<lparr> g_changed = False, g_prev_rev = dm_rev m, g_rev = dm_rev m, g_ops = [] \<rparr>
                        else \<lparr> g_changed = True, g_prev_rev = dm_rev m, g_rev = dm_rev m + 1,
                          g_ops = [m_operation candidate] \<rparr>)
                    in run_document_transition commit
                      (\<lambda>s. install_owned (m_root candidate) (m_overlay candidate) (g_rev commit)
                        (epoch_install nextLedger (dm_epoch s)) s) ld))))"

text \<open>A request of the document facade: prepare against the owned state, then apply.\<close>

definition request_operation :: "raw_op \<Rightarrow> live_document \<Rightarrow> (core_error + graph_commit) \<times> live_document" where
  "request_operation input ld =
     (let m = ld_map ld in
      case prepare_graph_operation (dm_root m) (dm_mode m) (dm_overlay m) input RequestAuthority of
        Inl e \<Rightarrow> (Inl (CoreMutation e), ld)
      | Inr candidate \<Rightarrow> apply_mutation candidate ld)"

section \<open>Installing captures\<close>

definition replace_root_commit :: "document_map \<Rightarrow> prepared_install \<Rightarrow> bool \<Rightarrow> graph_commit" where
  "replace_root_commit m candidate unchanged =
     (if unchanged then \<lparr> g_changed = False, g_prev_rev = dm_rev m, g_rev = dm_rev m, g_ops = [] \<rparr>
      else \<lparr> g_changed = True, g_prev_rev = dm_rev m, g_rev = dm_rev m + 1,
        g_ops = [ReplaceRoot (pi_mode candidate) (ItemNode (pi_root candidate))] \<rparr>)"

definition apply_install :: "prepared_install \<Rightarrow> continuity \<Rightarrow> live_document \<Rightarrow> (core_error + graph_commit) \<times> live_document" where
  "apply_install candidate cont ld =
     (let m = ld_map ld; quids = livemap_document_identity_quids (pi_overlay candidate) in
      case assert_public_mutation_allowed (ld_controller ld) of
        Inl e \<Rightarrow> (Inl (CoreTransition e), ld)
      | Inr u \<Rightarrow>
          if schema_rejects m (pi_root candidate) then (Inl CoreSchema, ld)
          else (case canonical_hson_graph_equal (dm_root m) (pi_root candidate) of
            Inl e \<Rightarrow> (Inl (CoreEquality e), ld)
          | Inr unchanged \<Rightarrow>
              (let commit = replace_root_commit m candidate unchanged in
               case (if cont = SameEpochContinuity
                   then map_sum id Some (retain_livemap_identity_epoch (epoch_issued (dm_epoch m)) quids) else Inr None) of
                 Inl e \<Rightarrow> (Inl (CoreEpoch e), ld)
               | Inr retained \<Rightarrow>
                   run_document_transition commit
                     (\<lambda>s. install_owned (pi_root candidate) (pi_overlay candidate) (g_rev commit)
                       (case retained of None \<Rightarrow> epoch_replace quids (dm_epoch s)
                        | Some l \<Rightarrow> epoch_install l (dm_epoch s)) s) ld)))"

definition restore_install ::
    "prepared_install \<Rightarrow> nat \<Rightarrow> continuity \<Rightarrow> live_document \<Rightarrow> (core_error + unit) \<times> live_document" where
  "restore_install candidate revision cont ld =
     (let m = ld_map ld; quids = livemap_document_identity_quids (pi_overlay candidate) in
      case assert_public_mutation_allowed (ld_controller ld) of
        Inl e \<Rightarrow> (Inl (CoreTransition e), ld)
      | Inr u \<Rightarrow>
          if schema_rejects m (pi_root candidate) then (Inl CoreSchema, ld)
          else (case (if cont = NewEpochContinuity then epoch_replace quids (dm_epoch m)
              else rbind (retain_livemap_identity_epoch (epoch_issued (dm_epoch m)) quids)
                (\<lambda>l. epoch_install l (dm_epoch m))) of
            Inl e \<Rightarrow> (Inl (CoreEpoch e), ld)
          | Inr ep \<Rightarrow>
              (Inr (), \<lparr> ld_controller = invalidate_transitions (ld_controller ld),
                ld_map = m\<lparr> dm_root := pi_root candidate, dm_overlay := pi_overlay candidate, dm_rev := revision,
                  dm_epoch := ep, dm_events := dm_events m @ [SnapshotEvent revision] \<rparr> \<rparr>)))"

definition admit_capture :: "capture_input \<Rightarrow> install_options \<Rightarrow> document_map \<Rightarrow> install_error + prepared_install \<times> nat \<times> continuity" where
  "admit_capture input options m =
     rbind (assert_install_options options (dm_rev m)) (\<lambda>u.
     rbind (assert_capture_object input) (\<lambda>capture.
     rbind (validate_livemap_document_admission (dm_epoch m) input (options_identity options)) (\<lambda>identity.
     rbind (prepare_document_install capture (dm_mode m) identity) (\<lambda>candidate.
       Inr (candidate, the (num_arg_revision (cap_rev capture)),
         if identity = SameEpoch then SameEpochContinuity else NewEpochContinuity)))))"

definition install_livemap_document_capture ::
    "capture_input \<Rightarrow> install_options \<Rightarrow> live_document \<Rightarrow> (core_error + graph_commit) \<times> live_document" where
  "install_livemap_document_capture input options ld =
     (case admit_capture input options (ld_map ld) of
        Inl e \<Rightarrow> (Inl (CoreInstall e), ld)
      | Inr (candidate, revision, cont) \<Rightarrow> apply_install candidate cont ld)"

definition restore_livemap_document_capture ::
    "capture_input \<Rightarrow> install_options \<Rightarrow> live_document \<Rightarrow> (core_error + unit) \<times> live_document" where
  "restore_livemap_document_capture input options ld =
     (case admit_capture input options (ld_map ld) of
        Inl e \<Rightarrow> (Inl (CoreInstall e), ld)
      | Inr (candidate, revision, cont) \<Rightarrow> restore_install candidate revision cont ld)"

definition capture_document :: "identity_policy option \<Rightarrow> live_document \<Rightarrow> install_error + capture_input" where
  "capture_document options ld =
     (let m = ld_map ld in capture_livemap_document (dm_epoch m) (dm_mode m) (dm_rev m) (dm_root m) options)"

definition use_document_schema :: "nat \<times> (hson_node \<Rightarrow> bool) \<Rightarrow> live_document \<Rightarrow> (core_error + unit) \<times> live_document" where
  "use_document_schema schema ld =
     (let m = ld_map ld in
      if map_option fst (dm_schema m) = Some (fst schema) then (Inr (), ld)
      else if dm_schema m \<noteq> None then (Inl CoreSchema, ld)
      else (case assert_public_mutation_allowed (ld_controller ld) of
          Inl e \<Rightarrow> (Inl (CoreTransition e), ld)
        | Inr u \<Rightarrow>
            if \<not> snd schema (dm_root m) then (Inl CoreSchema, ld)
            else (Inr (), \<lparr> ld_controller = invalidate_transitions (ld_controller ld),
              ld_map = m\<lparr> dm_schema := Some schema \<rparr> \<rparr>)))"

section \<open>Replay\<close>

text \<open>
  What a replica receives: the fields of the commit, and each operation as either a complete root
  replacement, a root replacement with missing or unknown fields, or another operation.
\<close>

datatype replay_op = ReplayRoot "js_string option" hson_item | ReplayRootMalformed | ReplayGraph raw_op

datatype envelope_field = BoolField bool | NumberField num_arg | OpsField "replay_op list" | OtherField

type_synonym replay_input = "(js_string \<times> envelope_field) list option"

record replay_envelope =
  e_prev_rev :: nat
  e_rev :: nat
  e_ops :: "replay_op list"

definition must_graph_commit_envelope :: "replay_input \<Rightarrow> core_error + replay_envelope" where
  "must_graph_commit_envelope input =
     (let bad = Inl (CoreReplayInput InvalidReplayEnvelope) in
      case input of
        None \<Rightarrow> bad
      | Some fs \<Rightarrow>
          if length fs \<noteq> 4 \<or> \<not> list_all (\<lambda>(k, v). k \<in> {js ''changed'', js ''prevRev'', js ''rev'', js ''ops''}) fs then bad
          else if map_of fs (js ''changed'') \<noteq> Some (BoolField True) then bad
          else (case (map_of fs (js ''prevRev''), map_of fs (js ''rev''), map_of fs (js ''ops'')) of
              (Some (NumberField p), Some (NumberField r), opsField) \<Rightarrow>
                (case (num_arg_revision p, num_arg_revision r) of
                   (Some prev, Some now) \<Rightarrow>
                     if now \<noteq> prev + 1 then bad
                     else (case opsField of
                         Some (OpsField ops) \<Rightarrow>
                           if ops = [] then bad else Inr \<lparr> e_prev_rev = prev, e_rev = now, e_ops = ops \<rparr>
                       | _ \<Rightarrow> bad)
                 | _ \<Rightarrow> bad)
            | _ \<Rightarrow> bad))"

fun raw_target :: "raw_op \<Rightarrow> target_input" where
  "raw_target (RawSetAttr t k v) = t"
| "raw_target (RawRemoveAttr t k) = t"
| "raw_target (RawReplaceAttrs t a) = t"
| "raw_target (RawReplaceContent t i c) = t"
| "raw_target (RawInsertContent t i c) = t"
| "raw_target (RawRemoveContent t i) = t"
| "raw_target (RawMoveContent t i j) = t"
| "raw_target (RawEnsureQuid t q) = t"
| "raw_target RawUnsupported = None"

definition is_legacy_quid_target_operation :: "raw_op \<Rightarrow> bool" where
  "is_legacy_quid_target_operation input =
     (case raw_target input of None \<Rightarrow> False | Some fs \<Rightarrow> map_of fs (js ''kind'') = Some (TextField (js ''quid'')))"

definition prepare_legacy_quid_target_graph_operation ::
    "hson_node \<Rightarrow> root_mode \<Rightarrow> identity_overlay \<Rightarrow> raw_op \<Rightarrow> document_error + prepared_mutation" where
  "prepare_legacy_quid_target_graph_operation root mode ov input =
     (if \<not> is_legacy_quid_target_operation input
        then Inl (DocumentError INVALID_DOCUMENT_COMMIT_TARGET OpReplaceContent)
      else prepare_graph_operation root mode ov input RequestAuthority)"

record staged_replay =
  s_root :: hson_node
  s_overlay :: identity_overlay
  s_ledger :: ledger
  s_ops :: "document_op list"
  s_effects :: "identity_effect list"

definition replay_capture :: "js_string \<Rightarrow> nat \<Rightarrow> hson_item \<Rightarrow> document_capture" where
  "replay_capture mode revision root =
     \<lparr> cap_kind = HSON_DOCUMENT_KIND, cap_mode = mode, cap_rev = IntArg (int revision), cap_root = root \<rparr>"

text \<open>Only a mutation error is reported with the index of its operation.\<close>

definition staging_error :: "nat \<Rightarrow> document_error \<Rightarrow> core_error" where
  "staging_error index e = (case e of DocumentError c op \<Rightarrow> CoreStaging index e | _ \<Rightarrow> CoreMutation e)"

definition replay_step :: "root_mode \<Rightarrow> replay_envelope \<Rightarrow> nat \<Rightarrow> replay_op \<Rightarrow> staged_replay \<Rightarrow> core_error + staged_replay" where
  "replay_step mode envelope index input st =
     (case input of
        ReplayRootMalformed \<Rightarrow> Inl (CoreReplayInput InvalidReplayEnvelope)
      | ReplayRoot modeInput rootInput \<Rightarrow>
          if length (e_ops envelope) \<noteq> 1 then Inl (CoreReplayInput (RootOperationComposition index))
          else (case modeInput of
              None \<Rightarrow> Inl (CoreInstall (InstallError MalformedCaptureEnvelope))
            | Some name \<Rightarrow>
                (case prepare_document_install (replay_capture name (e_rev envelope) rootInput) mode PreserveMetadata of
                   Inl e \<Rightarrow> Inl (CoreInstall e)
                 | Inr prepared \<Rightarrow> Inr \<lparr> s_root = pi_root prepared, s_overlay = pi_overlay prepared, s_ledger = s_ledger st,
                     s_ops = s_ops st @ [ReplaceRoot (pi_mode prepared) (ItemNode (pi_root prepared))],
                     s_effects = s_effects st @
                       replace_livemap_document_identity_overlay_effects (s_overlay st) (pi_overlay prepared) \<rparr>))
      | ReplayGraph raw \<Rightarrow>
          (case (if is_legacy_quid_target_operation raw
              then prepare_legacy_quid_target_graph_operation (s_root st) mode (s_overlay st) raw
              else prepare_document_graph_operation (s_root st) mode (s_overlay st) raw) of
             Inl e \<Rightarrow> Inl (staging_error index e)
           | Inr prepared \<Rightarrow>
               (case canonical_hson_graph_equal (s_root st) (m_root prepared) of
                  Inl e \<Rightarrow> Inl (CoreEquality e)
                | Inr same \<Rightarrow>
                    if same then Inl (CoreReplayInput (UnchangedStagedOperation index))
                    else (case stage_livemap_identity_epoch (s_ledger st)
                        (livemap_document_identity_quids (s_overlay st))
                        (livemap_document_identity_quids (m_overlay prepared)) of
                      Inl SameEpochQuidReuse \<Rightarrow>
                        Inl (CoreStaging index (DocumentError DOCUMENT_IDENTITY_REUSE (operation_name (m_operation prepared))))
                    | Inl e \<Rightarrow> Inl (CoreEpoch e)
                    | Inr l \<Rightarrow> Inr \<lparr> s_root = m_root prepared, s_overlay = m_overlay prepared, s_ledger = l,
                        s_ops = s_ops st @ [m_operation prepared], s_effects = s_effects st @ m_effects prepared \<rparr>))))"

fun replay_steps :: "root_mode \<Rightarrow> replay_envelope \<Rightarrow> nat \<Rightarrow> replay_op list \<Rightarrow> staged_replay \<Rightarrow> core_error + staged_replay" where
  "replay_steps mode envelope index [] st = Inr st"
| "replay_steps mode envelope index (input # inputs) st =
     rbind (replay_step mode envelope index input st) (replay_steps mode envelope (Suc index) inputs)"

definition replaces_root :: "document_op list \<Rightarrow> bool" where
  "replaces_root ops = (case ops of ReplaceRoot m r # os \<Rightarrow> True | _ \<Rightarrow> False)"

definition apply_replay :: "staged_replay \<Rightarrow> graph_commit \<Rightarrow> live_document \<Rightarrow> (core_error + graph_commit) \<times> live_document" where
  "apply_replay st commit ld =
     (let m = ld_map ld in
      case assert_public_mutation_allowed (ld_controller ld) of
        Inl e \<Rightarrow> (Inl (CoreTransition e), ld)
      | Inr u \<Rightarrow>
          if schema_rejects m (s_root st) then (Inl CoreSchema, ld)
          else (case (if replaces_root (g_ops commit)
              then epoch_replace (livemap_document_identity_quids (s_overlay st)) (dm_epoch m)
              else epoch_install (s_ledger st) (dm_epoch m)) of
            Inl e \<Rightarrow> (Inl (CoreEpoch e), ld)
          | Inr ep \<Rightarrow>
              (Inr commit, \<lparr> ld_controller = invalidate_transitions (ld_controller ld),
                ld_map = emit_commit commit Replay
                  (m\<lparr> dm_root := s_root st, dm_overlay := s_overlay st, dm_rev := g_rev commit, dm_epoch := ep \<rparr>) \<rparr>)))"

definition replay_livemap_document_commit :: "replay_input \<Rightarrow> live_document \<Rightarrow> (core_error + graph_commit) \<times> live_document" where
  "replay_livemap_document_commit input ld =
     (let m = ld_map ld in
      case must_graph_commit_envelope input of
        Inl e \<Rightarrow> (Inl e, ld)
      | Inr envelope \<Rightarrow>
          if e_prev_rev envelope \<noteq> dm_rev m then (Inl (CoreRevision (e_prev_rev envelope) (dm_rev m)), ld)
          else (case replay_steps (dm_mode m) envelope 0 (e_ops envelope)
              \<lparr> s_root = dm_root m, s_overlay = dm_overlay m, s_ledger = epoch_issued (dm_epoch m), s_ops = [],
                s_effects = [] \<rparr> of
            Inl e \<Rightarrow> (Inl e, ld)
          | Inr st \<Rightarrow>
              if s_ops st = [] then (Inl (CoreReplayInput EmptyGraphCommit), ld)
              else apply_replay st \<lparr> g_changed = True, g_prev_rev = e_prev_rev envelope, g_rev = e_rev envelope,
                g_ops = s_ops st \<rparr> ld))"

end
