(* ===== verification/Mutation_Laws.thy ===== *)
theory Mutation_Laws
  imports Document_Mutation Invariant_Laws
begin

text \<open>
  Correctness of document mutation: a document state is its root, its mode and its identity overlay
  (\<open>document_ok\<close>: the root is classified as that mode and the overlay is the identity scan of the
  document), and every graph operation, whoever asks for it, leaves such a state or reports an error.
  The reference is \<open>assert_livemap_document_identity_overlay\<close>: an overlay maintained step by step is
  compared with the full scan of the candidate.
\<close>

section \<open>What the invariants say of a resolvable node\<close>

lemma occurrences_self: "(p, n) \<in> set (occurrences p n)"
  by (cases n) simp

lemma item_occurrences_mem: "ItemNode k \<in> set items \<Longrightarrow> set (occurrences p k) \<subseteq> set (item_occurrences p items)"
proof (induction items)
  case (Cons it items)
  then show ?case by (cases it) auto
qed simp

lemma descend_occurs:
  "descend i (ItemNode n) r = Inr (ItemNode m) \<Longrightarrow> \<exists>p'. (p', m) \<in> set (occurrences p n)"
proof (induction r arbitrary: i n p)
  case (Cons s r)
  have d: "s < length (content_of n)" "descend (Suc i) (content_of n ! s) r = Inr (ItemNode m)"
    using Cons.prems by (auto simp del: is_Node.simps split: if_splits)
  obtain k where k: "content_of n ! s = ItemNode k"
    using d(2) by (cases "content_of n ! s"; cases r) auto
  obtain p' where p': "(p', m) \<in> set (occurrences (Some (tag_of n)) k)"
    using Cons.IH d(2) unfolding k by blast
  have "ItemNode k \<in> set (content_of n)" using d(1) k by (metis nth_mem)
  then have "(p', m) \<in> set (item_occurrences (Some (tag_of n)) (content_of n))"
    using p' item_occurrences_mem by blast
  then show ?case by (cases n) auto
qed (use occurrences_self in auto)

lemma meta_rule_reads: "meta_rule n \<Longrightarrow> \<exists>v. read_hson_node_quid n = Inr v"
proof (cases "meta_of n")
  case (Some es)
  assume r: "meta_rule n"
  show ?thesis
  proof (cases "HSON_META_QUID \<in> fst ` set es")
    case True
    then have "validate_hson_node_quid n = Inr ()" using r Some by (simp add: meta_rule_def)
    then show ?thesis by (auto simp: validate_hson_node_quid_def rbind_Inr_iff)
  next
    case False
    then have "map_of es HSON_META_QUID = None" by (simp add: map_of_eq_None_iff)
    then show ?thesis by (simp add: read_hson_node_quid_def read_quid_def meta_lookup_def Some)
  qed
qed (simp add: read_hson_node_quid_def read_quid_def meta_lookup_def)

lemma invariants_read:
  assumes "assert_invariants root = Inr u" and "node_at (ItemNode root) r m"
  shows "\<exists>v. read_hson_node_quid m = Inr v"
proof -
  obtain p where "(p, m) \<in> set (occurrences (Some (tag_of root)) root)"
    using descend_occurs [of 0 root r m "Some (tag_of root)"] assms(2) by (auto simp: node_at_def)
  moreover have "rules_hold (occurrences (Some (tag_of root)) root)"
    using assms(1) by (simp add: assert_invariants_Inr invariant_issues_Nil)
  ultimately have "node_rule p m" by auto
  then show ?thesis by (intro meta_rule_reads) (simp add: node_rule_def)
qed

text \<open>Two nodes with the same metadata that both read, read the same.\<close>

lemma read_quid_meta:
  assumes "meta_of n = meta_of m" and "read_hson_node_quid n = Inr v" and "read_hson_node_quid m = Inr w"
  shows "v = w"
  using assms
  by (auto simp: read_hson_node_quid_def read_quid_def rbind_Inr_iff split: option.splits prim.splits if_splits)

section \<open>Documents in agreement with their overlay\<close>

definition document_ok :: "hson_node \<Rightarrow> root_mode \<Rightarrow> identity_overlay \<Rightarrow> bool" where
  "document_ok root mode ov \<longleftrightarrow>
     is_Node (ItemNode root) \<and> is_document_mode mode \<and> classify_live_root_mode root = Inr mode \<and>
     overlay_ok ov \<and> assert_livemap_document_identity_overlay root mode ov = Inr ()"

lemma classify_invariants: "classify_live_root_mode root = Inr m \<Longrightarrow> assert_invariants root = Inr ()"
  by (auto simp: classify_live_root_mode_def split: sum.splits)

lemma finished_Inr:
  assumes "prepare_finished_mutation mode root ov operation op = Inr m"
  shows "m_root m = root" "m_operation m = operation" "classify_live_root_mode root = Inr mode"
    "reconcile_operation_identity ov operation = Inr (m_overlay m, m_effects m)"
  using assms
  by (auto simp: prepare_finished_mutation_def split: sum.splits prod.splits if_splits)

lemma append_path_Inr:
  assumes "append_document_path p i = Inr q"
  shows "index_ok i \<and> q = p @ [index_nat i]"
proof -
  have "validate_from k (map (\<lambda>k. IntArg (int k)) p @ [i]) = Inr q \<Longrightarrow> index_ok i \<and> q = p @ [index_nat i]" for k
    by (induction p arbitrary: k q)
      (auto simp: index_ok_def index_nat_def rbind_Inr_iff split: num_arg.splits if_splits)
  then show ?thesis using assms by (simp add: append_document_path_def validate_document_path_def)
qed

lemma incoming_insertion: "incoming_claims (Some (insertion_content n c, p)) = incoming_claims (Some (c, p))"
proof (cases "insertion_content n c = c")
  case False
  then obtain s where s: "c = ItemPrim (PStr s)" "insertion_content n c = ItemNode (bare_node STR_TAG [c])"
    by (auto simp: insertion_content_def split: hson_item.splits prim.splits if_splits)
  have "read_hson_node_quid (bare_node STR_TAG [c]) = Inr None"
    by (simp add: read_hson_node_quid_def read_quid_def meta_lookup_def)
  then have "incoming_claims (Some (ItemNode (bare_node STR_TAG [c]), p)) = Inr []"
    by (simp add: incoming_claims_def identity_frames_def s(1))
  moreover have "incoming_claims (Some (c, p)) = Inr []" by (simp add: incoming_claims_def s(1))
  ultimately show ?thesis by (simp only: s(2))
qed simp

lemma reconcile_incoming_cong:
  "incoming_claims i = incoming_claims j \<Longrightarrow>
    reconcile_livemap_document_identity_overlay ov e i = reconcile_livemap_document_identity_overlay ov e j"
  by (simp add: reconcile_livemap_document_identity_overlay_def)

section \<open>Targets resolve\<close>

lemma lift_path_Inr [simp]: "lift_path op r = Inr a \<longleftrightarrow> r = Inr a"
  by (auto simp: lift_path_def split: sum.splits)

lemma resolve_quid_Inr:
  "resolve_quid_request root mode ov q op = Inr (p, x) \<Longrightarrow>
    path_for_quid ov q = Some p \<and> resolve_document_path root mode p = Inr x \<and>
    is_ordinary_element_item x \<and> read_hson_node_quid (item_node x) = Inr (Some q)"
  by (auto simp: resolve_quid_request_def resolve_path_def rbind_Inr_iff split: option.splits if_splits)

lemma prepare_target_Inr:
  assumes "prepare_target root mode ov input op authority = Inr (target, x)"
  shows "resolve_document_path root mode (target_path target) = Inr x"
proof (cases "authority = RequestAuthority")
  case True
  then obtain request where "(case request of
      PathRequest p \<Rightarrow> rbind (resolve_path root mode p op) (\<lambda>endpoint. Inr (DocTarget p None, endpoint))
    | QuidRequest q \<Rightarrow> rbind (resolve_quid_request root mode ov q op) (\<lambda>(p, endpoint).
        if \<not> is_ordinary_element_item endpoint then Inl (DocumentError DOCUMENT_TARGET_KIND op)
        else Inr (DocTarget p (Some q), endpoint))) = Inr (target, x)"
    using assms by (auto simp: prepare_target_def canonicalize_document_request_target_def rbind_Inr_iff)
  then show ?thesis
    by (cases request) (auto simp: resolve_path_def rbind_Inr_iff split: if_splits dest: resolve_quid_Inr)
next
  case False
  then show ?thesis using assms
    by (auto simp: prepare_target_def resolve_document_commit_target_def resolve_path_def rbind_Inr_iff
        split: if_splits)
qed

lemma resolved_node_at:
  assumes "resolve_document_path root mode p = Inr x" and "is_Node x" and "is_Node (ItemNode root)"
  shows "\<exists>b. document_path_base root mode = Inr b \<and> node_at (ItemNode b) p (item_node x) \<and>
    node_at (ItemNode root) (base_position root mode @ p) (item_node x)"
proof -
  obtain n where n: "x = ItemNode n" using assms(2) by (cases x) auto
  obtain b where b: "document_path_base root mode = Inr b" "node_at (ItemNode b) p n"
    using assms(1,2) by (auto simp: resolve_document_Inr node_at_def n)
  then show ?thesis using node_at_append [OF base_node_at [OF b(1) assms(3)]] by (auto simp: n)
qed

section \<open>Agreement from the claims\<close>

lemma document_ok_from_claims:
  assumes "is_Node (ItemNode root)" and "is_document_mode mode" and "classify_live_root_mode root = Inr mode"
    and "document_path_base root mode = Inr b" and "overlay_ok ov" and "overlay_pairs ov = item_claims (ItemNode b)"
    and "\<And>r q. reads_at (ItemNode root) r (Inr (Some q)) \<Longrightarrow> prefix (base_position root mode) r"
  shows "document_ok root mode ov"
proof -
  have "claims_readable root (base_position root mode)"
    unfolding claims_readable_def
  proof (intro allI impI)
    fix r m assume at: "node_at (ItemNode root) r m"
    obtain v where v: "read_hson_node_quid m = Inr v"
      using invariants_read [OF classify_invariants [OF assms(3)] at] by blast
    then show "\<exists>q. read_hson_node_quid m = Inr q \<and> (q \<noteq> None \<longrightarrow> prefix (base_position root mode) r)"
      using assms(7) at by (cases v) (auto simp: reads_at_def)
  qed
  then show ?thesis
    using assms assert_overlay_iff [OF assms(4,1,5)] by (simp add: document_ok_def)
qed

lemma document_ok_claims:
  assumes "document_ok root mode ov" and "document_path_base root mode = Inr b"
  shows "overlay_pairs ov = item_claims (ItemNode b)"
    "reads_at (ItemNode root) r (Inr (Some q)) \<Longrightarrow> prefix (base_position root mode) r"
  using assms assert_overlay_iff [OF assms(2), of ov] readable_at [of root "base_position root mode" r "Inr (Some q)"]
  by (auto simp: document_ok_def)

section \<open>Each kind of candidate\<close>

lemma content_candidate:
  assumes ok: "document_ok root mode ov"
    and at: "resolve_document_path root mode (effect_parent e) = Inr (ItemNode n)" and n: "is_Node (ItemNode n)"
    and fits: "effect_fits e (length (content_of n))"
    and rec: "reconcile_livemap_document_identity_overlay ov e (effect_incoming e x) = Inr (ov', effs)"
    and new: "classify_live_root_mode (edit_document root mode (effect_parent e) (effect_content e x)) = Inr mode"
  shows "document_ok (edit_document root mode (effect_parent e) (effect_content e x)) mode ov'"
proof -
  let ?P = "base_position root mode @ effect_parent e"
  have root: "is_Node (ItemNode root)" using ok by (simp add: document_ok_def)
  have full: "node_at (ItemNode root) ?P n" using resolved_node_at [OF at n root] by auto
  have "node_at (edit_item (ItemNode root) ?P (effect_content e x)) ?P (edit_node n [] (effect_content e x))"
    by (rule node_at_edited [OF full])
  then have "\<exists>v. read_hson_node_quid (edit_node n [] (effect_content e x)) = Inr v"
    using invariants_read [OF classify_invariants [OF new]] by (simp add: edit_document_def)
  moreover have "\<exists>v. read_hson_node_quid n = Inr v"
    using invariants_read [OF classify_invariants full] ok by (auto simp: document_ok_def)
  ultimately have "read_hson_node_quid (edit_node n [] (effect_content e x)) = read_hson_node_quid n"
    using read_quid_meta [of "edit_node n [] (effect_content e x)" n] by auto
  from reconcile_full_scan [OF _ _ root at n this fits rec] show ?thesis
    using ok new root by (auto simp: document_ok_def edit_document_def)
qed

lemma head_candidate:
  assumes ok: "document_ok root mode ov" and head: "head_change g"
    and at: "resolve_document_path root mode p = Inr (ItemNode n)" and n: "is_Node (ItemNode n)"
    and ov': "overlay_ok ov'"
      "overlay_pairs ov' = {(q, r) \<in> overlay_pairs ov. r \<noteq> p} \<union> {(q, p) |q. read_hson_node_quid (g n) = Inr (Some q)}"
    and new: "classify_live_root_mode (update_document root mode p g) = Inr mode"
  shows "document_ok (update_document root mode p g) mode ov'"
proof -
  let ?ks = "base_position root mode"
  have root: "is_Node (ItemNode root)" using ok by (simp add: document_ok_def)
  obtain b where b: "document_path_base root mode = Inr b" "node_at (ItemNode b) p n" "node_at (ItemNode root) (?ks @ p) n"
    using resolved_node_at [OF at n root] by auto
  note old = document_ok_claims [OF ok b(1)]
  have it: "update_item (ItemNode root) (?ks @ p) g = ItemNode (update_document root mode p g)"
    "update_item (ItemNode b) p g = ItemNode (update_node b p g)"
    by (simp_all add: update_document_def)
  have claims: "overlay_pairs ov' = item_claims (ItemNode (update_node b p g))"
  proof -
    have at_p: "reads_at (ItemNode (update_node b p g)) p (Inr (Some q)) \<longleftrightarrow> read_hson_node_quid (g n) = Inr (Some q)" for q
      using reads_at_updated [OF head, of "ItemNode b" p] b(2) unfolding it by (auto simp: node_at_def)
    have "reads_at (ItemNode (update_node b p g)) r (Inr (Some q)) \<longleftrightarrow>
        (if r = p then read_hson_node_quid (g n) = Inr (Some q) else (q, r) \<in> overlay_pairs ov)" for r q
      using at_p reads_at_update [OF head, of r p "ItemNode b"] old(1) unfolding it by (simp add: item_claims_reads)
    then show ?thesis unfolding item_claims_reads ov'(2) by (auto split: if_splits)
  qed
  show ?thesis
  proof (rule document_ok_from_claims [OF _ _ new update_document_base [OF head b(1)] ov'(1) claims])
    show "is_Node (ItemNode (update_document root mode p g))"
      using root head_change_node [OF head] by (simp add: update_document_def)
    show "is_document_mode mode" using ok by (simp add: document_ok_def)
    fix r q assume "reads_at (ItemNode (update_document root mode p g)) r (Inr (Some q))"
    then show "prefix (base_position (update_document root mode p g) mode) r"
      using reads_at_update [OF head, of r "?ks @ p" "ItemNode root"] old(2) [of r q]
      unfolding it base_position_update [OF head] by (cases "r = ?ks @ p") auto
  qed
qed

section \<open>Registering an identity\<close>

lemma overlay_rebuilt_ok:
  assumes "overlay_ok ov"
  shows "overlay_ok \<lparr> quid_to_path = quid_to_path ov, path_to_quid = map (\<lambda>(q, p). (p, q)) (quid_to_path ov) \<rparr>"
proof -
  have d: "distinct (map fst (quid_to_path ov))" using assms by (simp add: overlay_ok_def)
  have "inj_on snd (set (quid_to_path ov))"
    using overlay_one_one [OF assms] by (auto simp: inj_on_def one_one_def overlay_pairs_def)
  then have "distinct (map snd (quid_to_path ov))"
    using d by (simp add: distinct_map)
  then show ?thesis using d by (auto simp: overlay_ok_def comp_def case_prod_unfold intro: rev_image_eqI)
qed

lemma register_result:
  assumes ok: "overlay_ok ov" and reg: "register_livemap_document_identity_at_path ov q p = Inr (ov', effs)"
  shows "overlay_ok ov' \<and> overlay_pairs ov' = insert (q, p) (overlay_pairs ov)"
proof (cases "quid_at_path ov p")
  case (Some q')
  then have "q' = q" "ov' = ov"
    using reg by (auto simp: register_livemap_document_identity_at_path_def split: if_splits)
  then show ?thesis using Some ok overlay_lookups(2) [OF ok, of p q] by auto
next
  case None
  let ?re = "\<lparr> quid_to_path = quid_to_path ov, path_to_quid = map (\<lambda>(q, p). (p, q)) (quid_to_path ov) \<rparr>"
  have "add_overlay_entry q p ?re = Inr ov'"
    using reg None by (auto simp: register_livemap_document_identity_at_path_def rbind_Inr_iff split: if_splits)
  moreover have "overlay_pairs ?re = overlay_pairs ov" by (simp add: overlay_pairs_def)
  ultimately show ?thesis
    using add_overlay_entry_result [OF overlay_rebuilt_ok [OF ok], of q p] by simp
qed

lemma assigned_quid_eq:
  "assigned_quid q m = m \<or> assigned_quid q m = with_meta m (Some (put_field HSON_META_QUID (PStr q) (ensure_node_meta (meta_of m))))"
  by (auto simp: assigned_quid_def assign_hson_node_quid_def rbind_def split: sum.splits)

lemma head_change_assigned: "head_change (assigned_quid q)"
  unfolding head_change_def
proof (intro allI conjI)
  fix n
  note c = assigned_quid_eq [of q n]
  have "old_shaped_meta (Some (put_field HSON_META_QUID v (ensure_node_meta (meta_of n)))) = old_shaped_meta (meta_of n)" for v
    by (auto simp: old_shaped_meta_def put_field_fst ensure_node_meta_def HSON_META_QUID_def split: option.splits)
  then show "is_Node (ItemNode (assigned_quid q n)) = is_Node (ItemNode n)" using c by auto
  show "tag_of (assigned_quid q n) = tag_of n" "content_of (assigned_quid q n) = content_of n"
    using c by auto
qed

lemma head_change_attrs: "head_change (with_attrs a)"
  by (simp add: head_change_def with_attrs_def)

lemma read_with_attrs: "read_hson_node_quid (with_attrs a n) = read_hson_node_quid n"
  by (simp add: read_hson_node_quid_def with_attrs_def)

lemma claims_at_node:
  assumes "document_ok root mode ov" and "resolve_document_path root mode p = Inr (ItemNode n)" and "is_Node (ItemNode n)"
  shows "(q, p) \<in> overlay_pairs ov \<longleftrightarrow> read_hson_node_quid n = Inr (Some q)"
proof -
  obtain b where "document_path_base root mode = Inr b" "node_at (ItemNode b) p n"
    using resolved_node_at [OF assms(2,3)] assms(1) by (auto simp: document_ok_def)
  then show ?thesis
    using document_ok_claims(1) [OF assms(1)] by (auto simp: item_claims_def node_at_def)
qed

lemma attrs_candidate:
  assumes ok: "document_ok root mode ov" and at: "resolve_document_path root mode p = Inr x"
    and x: "is_ordinary_element_item x"
    and new: "classify_live_root_mode (update_document root mode p (with_attrs a)) = Inr mode"
  shows "document_ok (update_document root mode p (with_attrs a)) mode ov"
proof -
  obtain n where n: "x = ItemNode n" "is_Node (ItemNode n)"
    using x by (cases x) (auto simp: is_ordinary_element_node_def)
  have "overlay_pairs ov = {(q, r) \<in> overlay_pairs ov. r \<noteq> p} \<union>
      {(q, p) |q. read_hson_node_quid (with_attrs a n) = Inr (Some q)}"
    using claims_at_node [OF ok at [unfolded n] n(2)] by (auto simp: read_with_attrs)
  moreover have "overlay_ok ov" using ok by (simp add: document_ok_def)
  ultimately show ?thesis using head_candidate [OF ok head_change_attrs at [unfolded n] n(2) _ _ new] by blast
qed

lemma quid_candidate:
  assumes ok: "document_ok root mode ov" and at: "resolve_document_path root mode p = Inr (ItemNode n)"
    and n: "is_Node (ItemNode n)" "read_hson_node_quid n = Inr None"
    and assign: "assign_hson_node_quid n (PStr q) = Inr r"
    and reg: "register_livemap_document_identity_at_path ov q p = Inr (ov', effs)"
    and new: "classify_live_root_mode (update_document root mode p (assigned_quid q)) = Inr mode"
  shows "document_ok (update_document root mode p (assigned_quid q)) mode ov'"
proof -
  let ?n = "assigned_quid q n"
  have meta: "meta_lookup (meta_of ?n) HSON_META_QUID = Some (PStr q)"
    using assign by (auto simp: assigned_quid_def assign_hson_node_quid_def rbind_Inr_iff meta_lookup_def split: if_splits)
  have "node_at (ItemNode root) (base_position root mode @ p) n"
    using resolved_node_at [OF at n(1)] ok by (auto simp: document_ok_def)
  then have "node_at (update_item (ItemNode root) (base_position root mode @ p) (assigned_quid q)) (base_position root mode @ p) ?n"
    using node_at_update [OF head_change_assigned, of "ItemNode root" "base_position root mode @ p" n "base_position root mode @ p"]
    by simp
  then obtain v where v: "read_hson_node_quid ?n = Inr v"
    using invariants_read [OF classify_invariants [OF new]] by (auto simp: update_document_def)
  then have read: "read_hson_node_quid ?n = Inr (Some q)"
    using meta by (auto simp: read_hson_node_quid_def read_quid_def rbind_Inr_iff split: if_splits)
  have "overlay_ok ov' \<and> overlay_pairs ov' = insert (q, p) (overlay_pairs ov)"
    using register_result [OF _ reg] ok by (simp add: document_ok_def)
  moreover have "(q', p) \<notin> overlay_pairs ov" for q' using claims_at_node [OF ok at n(1)] n(2) by simp
  ultimately show ?thesis
    by (intro head_candidate [OF ok head_change_assigned at n(1) _ _ new]) (auto simp: read)
qed

section \<open>Empty fragments\<close>

lemma no_claims_overlay: "overlay_ok ov \<Longrightarrow> overlay_pairs ov = {} \<longleftrightarrow> quid_to_path ov = []"
  by (simp add: overlay_pairs_def)

lemma empty_root_overlay:
  assumes "tag_of root = ROOT_TAG" and "content_of root = []"
  shows "build_livemap_document_identity_overlay root FragmentMode =
    (case read_hson_node_quid root of Inl e \<Rightarrow> Inl (map_identity_error e)
     | Inr None \<Rightarrow> Inr empty_overlay | Inr (Some q) \<Rightarrow> Inl OverlayInvariant)"
  using assms
  by (simp add: build_livemap_document_identity_overlay_def visit_identity_def identity_frames_def rbind_def
      split: sum.split option.split)

lemma empty_root_ok:
  assumes "tag_of root = ROOT_TAG" and "content_of root = []" and "overlay_ok ov"
  shows "assert_livemap_document_identity_overlay root FragmentMode ov = Inr () \<longleftrightarrow>
    read_hson_node_quid root = Inr None \<and> overlay_pairs ov = {}"
  using no_claims_overlay [OF assms(3)]
  by (auto simp: assert_livemap_document_identity_overlay_def empty_root_overlay [OF assms(1,2)] empty_overlay_def
      rbind_def split: sum.split option.split)

lemma element_tag_unread: "tag_of n = ELEM_TAG \<Longrightarrow> read_hson_node_quid n \<noteq> Inr (Some q)"
  by (auto simp: read_hson_node_quid_def read_quid_def rbind_Inr_iff assert_hson_node_quid_eligible_def rguard_def
      quid_eligible_def is_projected_container_quid_eligible_def tags_neq split: option.splits if_splits)

lemma node_at_leaf: "content_of n = [] \<Longrightarrow> node_at (ItemNode n) r m \<longleftrightarrow> r = [] \<and> m = n \<and> is_Node (ItemNode n)"
  by (cases r) (auto simp: node_at_def)

lemma childless_claims:
  assumes "content_of n = []" and "tag_of n = ELEM_TAG"
  shows "item_claims (ItemNode n) = {}"
  using element_tag_unread [OF assms(2)] by (auto simp: item_claims_def node_at_leaf [OF assms(1)])

lemma fill_empty_fragment:
  assumes ok: "document_ok root FragmentMode ov" and root: "tag_of root = ROOT_TAG" "content_of root = []"
    and i: "index_ok i" "index_nat i = 0"
    and rec: "reconcile_livemap_document_identity_overlay ov (InsertEffect [] i) (Some (x, [0])) = Inr (ov', effs)"
    and new: "classify_live_root_mode (HsonNode (tag_of root) (attrs_of root) (meta_of root)
        [ItemNode (bare_node ELEM_TAG [x])]) = Inr FragmentMode" (is "classify_live_root_mode ?root' = _")
  shows "document_ok ?root' FragmentMode ov'"
proof -
  have ov: "overlay_ok ov" "overlay_pairs ov = {}" "read_hson_node_quid root = Inr None" "is_Node (ItemNode root)"
    using ok empty_root_ok [OF root] by (auto simp: document_ok_def)
  let ?k = "bare_node ELEM_TAG [x]"
  have base: "document_path_base ?root' FragmentMode = Inr ?k"
    using root by (simp add: document_path_base_def tags_neq)
  have ks: "base_position ?root' FragmentMode = [0]"
    using root by (simp add: base_position_def tags_neq)
  have none: "read_hson_node_quid (bare_node t c) = Inr None" for t c
    by (simp add: read_hson_node_quid_def read_quid_def meta_lookup_def)
  have empty: "item_claims (ItemNode (bare_node ELEM_TAG [])) = {}" by (simp add: childless_claims)
  have "item_claims (edit_item (ItemNode (bare_node ELEM_TAG [])) [] (insert_nth 0 x)) =
      {(q, 0 # r) |q r. (q, r) \<in> item_claims x}"
  proof -
    have "effect_content (InsertEffect [] i) x = insert_nth 0 x" by (simp add: i fun_eq_iff)
    then show ?thesis
      using edited_claims [of "ItemNode (bare_node ELEM_TAG [])" "InsertEffect [] i" "bare_node ELEM_TAG []" x] none i
      by (simp add: node_at_def empty surviving_def effect_incoming_def edit_node.simps)
  qed
  then have claims: "item_claims (ItemNode ?k) = {(q, 0 # r) |q r. (q, r) \<in> item_claims x}"
    by (simp add: edit_node.simps insert_nth_def)
  obtain cs where cs: "incoming_claims (Some (x, [0])) = Inr cs" "overlay_ok ov'"
      "overlay_pairs ov' = surviving (InsertEffect [] i) (overlay_pairs ov) \<union> set cs"
    using reconcile_result [OF rec ov(1)] by auto
  have pairs: "overlay_pairs ov' = item_claims (ItemNode ?k)"
    using cs(3) incoming_claims_result(2) [OF cs(1)] by (simp add: claims ov(2) surviving_def)
  show ?thesis
  proof (rule document_ok_from_claims [OF _ _ new base cs(2) pairs])
    show "is_Node (ItemNode ?root')" using ov(4) by simp
    show "is_document_mode FragmentMode" by (simp add: is_document_mode_def)
    fix r q assume at: "reads_at (ItemNode ?root') r (Inr (Some q))"
    show "prefix (base_position ?root' FragmentMode) r"
    proof (cases r)
      case Nil
      then have "read_hson_node_quid ?root' = Inr (Some q)" using at by (simp add: reads_at_def node_at_def)
      then show ?thesis using read_quid_meta [of ?root' root] ov(3) by auto
    next
      case (Cons s r')
      then show ?thesis using at by (auto simp: ks reads_at_def node_at_def split: if_splits)
    qed
  qed
qed

lemma empty_fragment_again:
  assumes ok: "document_ok root FragmentMode ov" and root: "tag_of root = ROOT_TAG"
    and at: "resolve_document_path root FragmentMode [] = Inr (ItemNode n)" and n: "is_Node (ItemNode n)"
    and i: "index_ok i" "index_nat i < length (content_of n)" "remove_nth (index_nat i) (content_of n) = []"
    and rec: "reconcile_livemap_document_identity_overlay ov (DeleteEffect [] i) None = Inr (ov', effs)"
    and new: "classify_live_root_mode (HsonNode (tag_of root) (attrs_of root) (meta_of root) []) = Inr FragmentMode"
      (is "classify_live_root_mode ?root' = _")
  shows "document_ok ?root' FragmentMode ov'"
proof -
  have ov: "overlay_ok ov" "is_Node (ItemNode root)" using ok by (auto simp: document_ok_def)
  have base: "document_path_base root FragmentMode = Inr n" using at by (simp add: resolve_document_Inr)
  have tag: "tag_of n = ELEM_TAG"
    using base root by (auto simp: document_path_base_def tags_neq split: list.splits hson_item.splits if_splits)
  have all: "overlay_ok ov' \<and> overlay_pairs ov' = surviving (DeleteEffect [] i) (overlay_pairs ov) \<and>
      (\<forall>(q, p) \<in> overlay_pairs ov. \<exists>t. transform_document_path p (DeleteEffect [] i) = Inr t)"
    using reconcile_result [OF rec ov(1)] by (simp add: incoming_claims_def)
  then have rec': "overlay_ok ov'" "overlay_pairs ov' = surviving (DeleteEffect [] i) (overlay_pairs ov)"
      "\<And>q p. (q, p) \<in> overlay_pairs ov \<Longrightarrow> \<exists>t. transform_document_path p (DeleteEffect [] i) = Inr t"
    by auto
  have f: "effect_content (DeleteEffect [] i) x = remove_nth (index_nat i)" for x by (simp add: fun_eq_iff)
  have "item_claims (edit_item (ItemNode n) [] (remove_nth (index_nat i))) =
      surviving (DeleteEffect [] i) (item_claims (ItemNode n))"
    using edited_claims [of "ItemNode n" "DeleteEffect [] i" n x] n i rec'(3) document_ok_claims(1) [OF ok base]
      read_quid_edit [of "[]" n "remove_nth (index_nat i)"] tag
    by (simp add: node_at_def f effect_incoming_def tags_neq)
  moreover have "item_claims (edit_item (ItemNode n) [] (remove_nth (index_nat i))) = {}"
    using i(3) tag by (simp add: childless_claims)
  ultimately have empty: "overlay_pairs ov' = {}"
    using rec'(2) document_ok_claims(1) [OF ok base] by simp
  have ks: "base_position root FragmentMode = [0]" using root by (simp add: base_position_def tags_neq)
  have "\<not> reads_at (ItemNode root) [] (Inr (Some q))" for q
    using document_ok_claims(2) [OF ok base, of "[]" q] ks by auto
  then have none: "read_hson_node_quid root \<noteq> Inr (Some q)" for q
    using ov(2) by (auto simp: reads_at_def node_at_def)
  obtain v w where vw: "read_hson_node_quid root = Inr v" "read_hson_node_quid ?root' = Inr w"
    using invariants_read [OF classify_invariants, of root FragmentMode "[]" root]
      invariants_read [OF classify_invariants [OF new], of "[]" ?root'] ok ov(2)
    by (auto simp: document_ok_def node_at_def)
  then have "read_hson_node_quid ?root' = Inr None"
    using read_quid_meta [of ?root' root w v] none by (cases v) auto
  then show ?thesis
    using empty_root_ok [of ?root' ov'] new ov(2) rec'(1) empty root by (simp add: document_ok_def is_document_mode_def)
qed

section \<open>Every operation keeps the document in agreement\<close>

lemma element_endpoint:
  "require_document_attr_element x op = Inr n \<longleftrightarrow> is_ordinary_element_item x \<and> x = ItemNode n"
  by (cases x) (auto simp: require_document_attr_element_def)

lemma content_endpoint:
  "require_content_endpoint x op = Inr n \<longleftrightarrow> is_Node x \<and> x = ItemNode n"
  by (cases x) (auto simp: require_content_endpoint_def)

lemma content_index_Inr: "normalize_content_index i op = Inr k \<longleftrightarrow> index_ok i \<and> k = index_nat i"
  by (auto simp: normalize_content_index_def)

lemma clone_content_Inr: "clone_content x op = Inr y \<Longrightarrow> y = x"
  by (auto simp: clone_content_def split: hson_item.splits if_splits)

lemma existing_index_Inr: "require_existing_content_index n i op = Inr u \<longleftrightarrow> i < length (content_of n)"
  by (simp add: require_existing_content_index_def rguard_def)

lemmas prepare_parts = rbind_Inr_iff element_endpoint content_endpoint content_index_Inr existing_index_Inr

lemma preserved_overlay: "fst (preserve_livemap_document_identity_at_path ov p) = ov"
  by (simp add: preserve_livemap_document_identity_at_path_def)

lemma attrs_finished:
  assumes "document_ok root mode ov" and "prepare_target root mode ov input op authority = Inr (target, ItemNode n)"
    and "is_ordinary_element_node n"
    and "prepare_finished_mutation mode (update_document root mode (target_path target) (with_attrs a)) ov operation op = Inr m"
    and "reconcile_operation_identity ov operation = Inr (preserve_livemap_document_identity_at_path ov (target_path target))"
  shows "document_ok (m_root m) mode (m_overlay m)"
proof -
  note f = finished_Inr [OF assms(4)]
  have "m_overlay m = ov"
    using f(4) assms(5) preserved_overlay [of ov "target_path target"] by (metis fst_conv sum.inject(2))
  then show ?thesis
    using attrs_candidate [OF assms(1) prepare_target_Inr [OF assms(2)]] assms(3) f(1,3) by simp
qed

lemma prepare_attrs_ok:
  assumes ok: "document_ok root mode ov"
  shows "prepare_set_document_attr root mode ov t k v authority = Inr m \<Longrightarrow> document_ok (m_root m) mode (m_overlay m)"
    "prepare_remove_document_attr root mode ov t k authority = Inr m \<Longrightarrow> document_ok (m_root m) mode (m_overlay m)"
    "prepare_replace_document_attrs root mode ov t v authority = Inr m \<Longrightarrow> document_ok (m_root m) mode (m_overlay m)"
  by (auto simp: prepare_set_document_attr_def prepare_remove_document_attr_def prepare_replace_document_attrs_def
      prepare_parts split: option.splits intro: attrs_finished [OF ok])

lemma content_finished:
  assumes ok: "document_ok root mode ov"
    and target: "prepare_target root mode ov input op authority = Inr (target, ItemNode n)" "is_Node (ItemNode n)"
    and fin: "prepare_finished_mutation mode (edit_document root mode (target_path target) (effect_content e x)) ov operation op = Inr m"
    and rec: "\<And>r. reconcile_operation_identity ov operation = Inr r \<Longrightarrow>
      reconcile_livemap_document_identity_overlay ov e (effect_incoming e x) = Inr r"
    and e: "effect_parent e = target_path target" "effect_fits e (length (content_of n))"
  shows "document_ok (m_root m) mode (m_overlay m)"
proof -
  note f = finished_Inr [OF fin]
  have "document_ok (edit_document root mode (effect_parent e) (effect_content e x)) mode (m_overlay m)"
    using prepare_target_Inr [OF target(1)] f(1,3) rec [OF f(4)] e
    by (intro content_candidate [OF ok _ target(2) e(2)]) simp_all
  then show ?thesis using f(1) e(1) by simp
qed

lemma insert_incoming:
  assumes "reconcile_operation_identity ov (InsertContent t i c) = Inr r"
  shows "reconcile_livemap_document_identity_overlay ov (InsertEffect (target_path t) i)
      (Some (insertion_content n c, target_path t @ [index_nat i])) = Inr r"
proof -
  obtain p where p: "append_document_path (target_path t) i = Inr p"
    "reconcile_livemap_document_identity_overlay ov (InsertEffect (target_path t) i) (Some (c, p)) = Inr r"
    using assms by (auto split: sum.splits)
  then show ?thesis
    using append_path_Inr [OF p(1)] reconcile_incoming_cong [OF incoming_insertion, of ov _ n c p] by simp
qed

lemma replace_incoming:
  assumes "reconcile_operation_identity ov (ReplaceContent t i c) = Inr r"
  shows "reconcile_livemap_document_identity_overlay ov (ReplaceEffect (target_path t) i)
      (Some (c, target_path t @ [index_nat i])) = Inr r"
proof -
  obtain p where p: "append_document_path (target_path t) i = Inr p"
    "reconcile_livemap_document_identity_overlay ov (ReplaceEffect (target_path t) i) (Some (c, p)) = Inr r"
    using assms by (auto split: sum.splits)
  then show ?thesis using append_path_Inr [OF p(1)] by simp
qed

lemma prepare_replace_ok:
  assumes ok: "document_ok root mode ov" and prep: "prepare_replace_document_content root mode ov t i c authority = Inr m"
  shows "document_ok (m_root m) mode (m_overlay m)"
proof -
  obtain target n recorded where p: "index_ok i" "prepare_target root mode ov t OpReplaceContent authority = Inr (target, ItemNode n)"
    "is_Node (ItemNode n)" "index_nat i < length (content_of n)" "recorded = insertion_content n c"
    "prepare_finished_mutation mode (edit_document root mode (target_path target)
       (\<lambda>cs. cs[index_nat i := insertion_content n c])) ov (ReplaceContent target i recorded) OpReplaceContent = Inr m"
    using prep by (auto simp: prepare_replace_document_content_def prepare_parts Let_def not_le split: if_splits
        dest!: clone_content_Inr)
  have f: "effect_content (ReplaceEffect (target_path target) i) x = (\<lambda>cs. cs[index_nat i := x])" for x
    by (simp add: fun_eq_iff)
  show ?thesis
    using content_finished [OF ok p(2,3), of "ReplaceEffect (target_path target) i" "insertion_content n c"
        "ReplaceContent target i recorded" m] p replace_incoming
    by (simp add: f effect_incoming_def)
qed

lemma prepare_remove_ok:
  assumes ok: "document_ok root mode ov" and prep: "prepare_remove_document_content root mode ov t i authority = Inr m"
  shows "document_ok (m_root m) mode (m_overlay m)"
proof -
  obtain target n where p: "index_ok i" "prepare_target root mode ov t OpRemoveContent authority = Inr (target, ItemNode n)"
    "is_Node (ItemNode n)" "index_nat i < length (content_of n)"
    "prepare_finished_mutation mode
       (if mode = FragmentMode \<and> tag_of n = ELEM_TAG \<and> remove_nth (index_nat i) (content_of n) = [] \<and>
          target_path target = [] \<and> tag_of root = ROOT_TAG
        then HsonNode (tag_of root) (attrs_of root) (meta_of root) []
        else edit_document root mode (target_path target) (remove_nth (index_nat i)))
       ov (RemoveContent target i) OpRemoveContent = Inr m" (is "prepare_finished_mutation _ (if ?gone then _ else _) _ _ _ = _")
    using prep by (auto simp: prepare_remove_document_content_def prepare_parts Let_def)
  show ?thesis
  proof (cases ?gone)
    case False
    have f: "effect_content (DeleteEffect (target_path target) i) x = remove_nth (index_nat i)" for x by (simp add: fun_eq_iff)
    show ?thesis
      using content_finished [OF ok p(2,3), of "DeleteEffect (target_path target) i" _ "RemoveContent target i" m] p False
      by (simp add: f effect_incoming_def)
  next
    case True
    note fin = finished_Inr [OF p(5) [unfolded if_P [OF True]]]
    show ?thesis
      using empty_fragment_again [of root ov n i "m_overlay m" "m_effects m"] True fin prepare_target_Inr [OF p(2)] ok p(1,3,4)
      by simp
  qed
qed

lemma prepare_move_ok:
  assumes ok: "document_ok root mode ov" and prep: "prepare_move_document_content root mode ov t i j authority = Inr m"
  shows "document_ok (m_root m) mode (m_overlay m)"
proof -
  obtain target n where p: "index_ok i" "index_ok j" "prepare_target root mode ov t OpMoveContent authority = Inr (target, ItemNode n)"
    "is_Node (ItemNode n)" "index_nat i < length (content_of n)" "index_nat j < length (content_of n)"
    "prepare_finished_mutation mode (edit_document root mode (target_path target)
       (\<lambda>c. if index_nat i \<noteq> index_nat j then move_items (index_nat i) (index_nat j) c else c)) ov
       (MoveContent target i j) OpMoveContent = Inr m"
    using prep by (auto simp: prepare_move_document_content_def prepare_parts)
  have f: "effect_content (MoveEffect (target_path target) i j) x =
      (\<lambda>c. if index_nat i \<noteq> index_nat j then move_items (index_nat i) (index_nat j) c else c)" for x
    using index_nat_inject [OF p(1,2)] by (auto simp: fun_eq_iff)
  show ?thesis
    using content_finished [OF ok p(3,4), of "MoveEffect (target_path target) i j" _ "MoveContent target i j" m] p
    by (simp add: f effect_incoming_def)
qed

lemma prepare_insert_ok:
  assumes ok: "document_ok root mode ov" and prep: "prepare_insert_document_content root mode ov t i c authority = Inr m"
  shows "document_ok (m_root m) mode (m_overlay m)"
proof (cases "mode = FragmentMode \<and> tag_of root = ROOT_TAG \<and> content_of root = []")
  case True
  obtain target where p: "index_ok i" "index_nat i = 0" "prepare_empty_fragment_insert_target t authority = Inr target"
    "prepare_finished_mutation mode (HsonNode (tag_of root) (attrs_of root) (meta_of root)
       [ItemNode (bare_node ELEM_TAG [insertion_content (bare_node ELEM_TAG []) c])]) ov (InsertContent target i c)
       OpInsertContent = Inr m"
    using prep True by (auto simp: prepare_insert_document_content_def prepare_parts Let_def split: if_splits
        dest!: clone_content_Inr)
  have t: "target_path target = []"
  proof (cases "authority = RequestAuthority")
    case True
    then obtain request where "normalize_document_request_target t OpInsertContent = Inr request"
      "(case request of QuidRequest q \<Rightarrow> Inl (DocumentError DOCUMENT_TARGET_NOT_FOUND OpInsertContent)
        | PathRequest p \<Rightarrow> if p \<noteq> [] then Inl (DocumentError DOCUMENT_PATH_OUT_OF_RANGE OpInsertContent)
            else Inr (DocTarget p None)) = Inr target"
      using p(3) by (auto simp: prepare_empty_fragment_insert_target_def rbind_Inr_iff)
    then show ?thesis by (cases request) (auto split: if_splits)
  qed (use p(3) in \<open>auto simp: prepare_empty_fragment_insert_target_def rbind_Inr_iff split: if_splits\<close>)
  note fin = finished_Inr [OF p(4)]
  have "reconcile_livemap_document_identity_overlay ov (InsertEffect [] i)
      (Some (insertion_content (bare_node ELEM_TAG []) c, [0])) = Inr (m_overlay m, m_effects m)"
    using insert_incoming [OF fin(4), of "bare_node ELEM_TAG []"] by (simp add: t p(2))
  then show ?thesis
    using fill_empty_fragment [of root ov i] ok True p(1,2) fin(1,3) by simp
next
  case False
  obtain target n where p: "index_ok i" "prepare_target root mode ov t OpInsertContent authority = Inr (target, ItemNode n)"
    "is_Node (ItemNode n)" "index_nat i \<le> length (content_of n)"
    "prepare_finished_mutation mode (edit_document root mode (target_path target)
       (insert_nth (index_nat i) (insertion_content n c))) ov (InsertContent target i c) OpInsertContent = Inr m"
    using prep False by (auto simp: prepare_insert_document_content_def prepare_parts split: if_splits dest!: clone_content_Inr)
  have f: "effect_content (InsertEffect (target_path target) i) x = insert_nth (index_nat i) x" for x by (simp add: fun_eq_iff)
  show ?thesis
    using content_finished [OF ok p(2,3), of "InsertEffect (target_path target) i" "insertion_content n c"
        "InsertContent target i c" m] p insert_incoming
    by (simp add: f effect_incoming_def)
qed

lemma prepare_ensure_ok:
  assumes ok: "document_ok root mode ov" and prep: "prepare_ensure_document_quid root mode ov t q = Inr m"
  shows "document_ok (m_root m) mode (m_overlay m)"
proof -
  obtain quid where q: "q = PStr quid" using prep by (cases q) (auto simp: prepare_ensure_document_quid_def)
  obtain target x where t: "prepare_target root mode ov t OpEnsureQuid CommitAuthority = Inr (target, x)"
    "(if \<not> is_ordinary_element_item x then Inl (DocumentError DOCUMENT_IDENTITY_INELIGIBLE OpEnsureQuid)
      else (case read_hson_node_quid (item_node x) of
          Inl e \<Rightarrow> Inl (QuidFault e)
        | Inr (Some existing) \<Rightarrow>
            if existing \<noteq> quid then Inl (DocumentError DOCUMENT_IDENTITY_DIFFERENT OpEnsureQuid)
            else prepare_finished_mutation mode root ov (EnsureQuid target quid) OpEnsureQuid
        | Inr None \<Rightarrow>
            if path_for_quid ov quid \<noteq> None then Inl (DocumentError DOCUMENT_IDENTITY_COLLISION OpEnsureQuid)
            else (case assign_hson_node_quid (item_node x) q of
                Inl e \<Rightarrow> Inl (QuidFault e)
              | Inr (q, n) \<Rightarrow>
                  prepare_finished_mutation mode (update_document root mode (target_path target) (assigned_quid quid)) ov
                    (EnsureQuid target quid) OpEnsureQuid))) = Inr m"
    using prep unfolding q by (auto simp: prepare_ensure_document_quid_def rbind_Inr_iff split: if_splits)
  have ord: "is_ordinary_element_item x" using t(2) by (auto split: if_splits)
  obtain existing where r: "read_hson_node_quid (item_node x) = Inr existing"
    using t(2) ord by (cases "read_hson_node_quid (item_node x)") auto
  have p5: "(existing = Some quid \<and> prepare_finished_mutation mode root ov (EnsureQuid target quid) OpEnsureQuid = Inr m) \<or>
     (existing = None \<and> (\<exists>r. assign_hson_node_quid (item_node x) (PStr quid) = Inr r) \<and>
      prepare_finished_mutation mode (update_document root mode (target_path target) (assigned_quid quid)) ov
        (EnsureQuid target quid) OpEnsureQuid = Inr m)"
    using t(2) ord r by (cases existing) (auto simp: q split: if_splits sum.splits)
  obtain n where n: "x = ItemNode n" "is_Node (ItemNode n)"
    using ord by (cases x) (auto simp: is_ordinary_element_node_def)
  note at = prepare_target_Inr [OF t(1) [unfolded n]]
  show ?thesis using p5
  proof (elim disjE conjE exE)
    fix r
    assume "existing = None" and fin: "prepare_finished_mutation mode (update_document root mode (target_path target) (assigned_quid quid)) ov
        (EnsureQuid target quid) OpEnsureQuid = Inr m"
      and "assign_hson_node_quid (item_node x) (PStr quid) = Inr r"
    then show ?thesis
      using quid_candidate [OF ok at n(2)] finished_Inr [OF fin] r n(1) by simp
  next
    assume e: "existing = Some quid" and fin: "prepare_finished_mutation mode root ov (EnsureQuid target quid) OpEnsureQuid = Inr m"
    note f = finished_Inr [OF fin]
    have "(quid, target_path target) \<in> overlay_pairs ov" using claims_at_node [OF ok at n(2)] r n(1) e by simp
    then have "path_for_quid ov quid = Some (target_path target)" "quid_at_path ov (target_path target) = Some quid"
      using overlay_lookups ok by (auto simp: document_ok_def)
    then have "m_overlay m = ov"
      using f(4) by (simp add: register_livemap_document_identity_at_path_def document_path_equal_iff)
    then show ?thesis using ok f(1) by simp
  qed
qed

lemma prepared_ok:
  assumes "document_ok root mode ov" and "prepare_graph_operation root mode ov input authority = Inr m"
  shows "document_ok (m_root m) mode (m_overlay m)"
  using assms prepare_attrs_ok prepare_replace_ok prepare_insert_ok prepare_remove_ok prepare_move_ok prepare_ensure_ok
  by (cases input) auto

text \<open>
  C6: a prepared mutation is a document in agreement with its overlay. Start from a document that
  satisfies the invariants, is in its facade's mode and whose overlay agrees with a full scan. If
  any graph operation, whether requested or recorded in a commit, is prepared successfully, its
  candidate root satisfies the invariants, is in the same mode, and its candidate overlay, which was
  derived without scanning the document, agrees with a full scan of the candidate root. This covers
  filling an empty fragment and emptying one.
\<close>

theorem prepared_mutation_keeps_document:
  assumes "document_ok root mode ov" and "prepare_graph_operation root mode ov input authority = Inr m"
  shows "document_ok (m_root m) mode (m_overlay m) \<and> assert_invariants (m_root m) = Inr ()"
  using prepared_ok [OF assms] classify_invariants by (auto simp: document_ok_def)

section \<open>A sample\<close>

definition leaf_elements :: "js_string list \<Rightarrow> hson_item list" where
  "leaf_elements ts = map (\<lambda>t. ItemNode (bare_node t [])) ts"

definition leaf_fragment :: "js_string list \<Rightarrow> hson_node" where
  "leaf_fragment ts = bare_node ROOT_TAG [ItemNode (bare_node ELEM_TAG (leaf_elements ts))]"

definition root_path_request :: target_input where
  "root_path_request = Some [(js ''kind'', TextField (js ''path'')), (js ''path'', PathField [])]"

lemma leaf_fragment_classified:
  assumes ts: "\<And>t. t \<in> set ts \<Longrightarrow> \<not> starts_with t HSON_SYS_PREFIX" and len: "length ts > 1"
  shows "classify_live_root_mode (leaf_fragment ts) = Inr FragmentMode"
proof -
  let ?k = "bare_node ELEM_TAG (leaf_elements ts)"
  have occ: "set (item_occurrences (Some ELEM_TAG) (leaf_elements us)) =
      (\<lambda>t. (Some ELEM_TAG, bare_node t [])) ` set us" for us
    by (induction us) (auto simp: leaf_elements_def)
  have leaf: "node_rule (Some ELEM_TAG) (bare_node t [])" if "t \<in> set ts" for t
    using ts [OF that] user_tag_neq [OF ts [OF that]]
    by (simp add: plain_node_rule shape_rule_def)
  have children: "child_nodes P (leaf_elements ts) \<longleftrightarrow> (\<forall>t \<in> set ts. P (bare_node t []))" for P
    by (auto simp: child_nodes_def leaf_elements_def)
  have "node_rule p ?k" for p
  proof -
    have "leaf_elements ts \<noteq> []" using len by (auto simp: leaf_elements_def)
    then show ?thesis
      by (auto simp: plain_node_rule shape_rule_def Let_def children tags_neq dest: user_tag_neq [OF ts])
  qed
  moreover have "node_rule p (leaf_fragment ts)" for p
    by (simp add: leaf_fragment_def plain_node_rule shape_rule_def Let_def tags_neq)
  ultimately have "rules_hold (occurrences (Some ROOT_TAG) (leaf_fragment ts))"
    using leaf by (auto simp: leaf_fragment_def occ)
  moreover have "new_shape_items (leaf_elements us)" for us
    by (induction us) (auto simp: leaf_elements_def)
  ultimately have "assert_invariants (leaf_fragment ts) = Inr ()"
    by (simp add: assert_invariants_Inr invariant_issues_Nil leaf_fragment_def)
  moreover have "classify_document_cluster ?k = FragmentMode"
    using len by (auto simp: classify_document_cluster_def leaf_elements_def split: list.split)
  ultimately show ?thesis
    by (simp add: classify_live_root_mode_def classify_live_root_shape_def leaf_fragment_def tags_neq)
qed

lemma leaf_fragment_base: "document_path_base (leaf_fragment ts) FragmentMode = Inr (bare_node ELEM_TAG (leaf_elements ts))"
  by (simp add: document_path_base_def leaf_fragment_def tags_neq)

lemma bare_unread: "read_hson_node_quid (bare_node t c) = Inr None"
  by (simp add: read_hson_node_quid_def read_quid_def meta_lookup_def)

lemma leaf_fragment_ok:
  assumes ts: "\<And>t. t \<in> set ts \<Longrightarrow> \<not> starts_with t HSON_SYS_PREFIX" and len: "length ts > 1"
  shows "document_ok (leaf_fragment ts) FragmentMode empty_overlay"
proof -
  have leaf: "node_at (leaf_elements us ! s) r m \<Longrightarrow> s < length us \<Longrightarrow> \<exists>t. m = bare_node t []" for us s r m
    by (auto simp: leaf_elements_def node_at_leaf)
  have none: "\<not> reads_at (ItemNode (bare_node ELEM_TAG (leaf_elements ts))) r (Inr (Some q))" for r q
  proof (cases r)
    case (Cons s r')
    have "node_at (ItemNode (bare_node ELEM_TAG (leaf_elements ts))) [] (bare_node ELEM_TAG (leaf_elements ts))"
      by (simp add: node_at_def)
    from node_at_below [OF this, of s r'] show ?thesis
      using leaf [of ts s r'] bare_unread by (auto simp: Cons reads_at_def) (metis Inr_inject length_map leaf_elements_def option.distinct(1))
  qed (simp add: reads_at_def node_at_def bare_unread)
  show ?thesis
  proof (rule document_ok_from_claims [OF _ _ leaf_fragment_classified [OF ts len] leaf_fragment_base])
    show "overlay_pairs empty_overlay = item_claims (ItemNode (bare_node ELEM_TAG (leaf_elements ts)))"
      using none by (simp add: item_claims_reads)
    fix r q assume at: "reads_at (ItemNode (leaf_fragment ts)) r (Inr (Some q))"
    have root: "node_at (ItemNode (leaf_fragment ts)) [] (leaf_fragment ts)" by (simp add: node_at_def leaf_fragment_def)
    have pos: "base_position (leaf_fragment ts) FragmentMode = [0]"
      by (simp add: base_position_def leaf_fragment_def tags_neq)
    show "prefix (base_position (leaf_fragment ts) FragmentMode) r"
    proof (cases r)
      case Nil
      then show ?thesis using at by (simp add: reads_at_def node_at_def leaf_fragment_def bare_unread)
    next
      case (Cons s r')
      then show ?thesis using at node_at_below [OF root, of s r'] unfolding pos by (auto simp: reads_at_def leaf_fragment_def)
    qed
  qed (simp_all add: leaf_fragment_def is_document_mode_def)
qed

lemma inserted_leaf:
  "\<exists>m. prepare_graph_operation (leaf_fragment [js ''p'', js ''hr'']) FragmentMode empty_overlay
       (RawInsertContent root_path_request (IntArg 0) (ItemNode (bare_node (js ''br'') []))) RequestAuthority = Inr m \<and>
     m_root m = leaf_fragment [js ''br'', js ''p'', js ''hr''] \<and> m_overlay m = empty_overlay"
proof -
  let ?r = "leaf_fragment [js ''p'', js ''hr'']"
  let ?br = "ItemNode (bare_node (js ''br'') [])"
  have after: "classify_live_root_mode (leaf_fragment [js ''br'', js ''p'', js ''hr'']) = Inr FragmentMode"
    by (rule leaf_fragment_classified) (auto simp: HSON_SYS_PREFIX_def)
  have edit: "edit_document ?r FragmentMode [] (insert_nth 0 ?br) = leaf_fragment [js ''br'', js ''p'', js ''hr'']"
    by (simp add: edit_document_def base_position_def leaf_fragment_def tags_neq edit_node.simps insert_nth_def leaf_elements_def)
  have target: "prepare_target ?r FragmentMode empty_overlay root_path_request OpInsertContent RequestAuthority =
      Inr (DocTarget [] None, ItemNode (bare_node ELEM_TAG (leaf_elements [js ''p'', js ''hr''])))"
    by (simp add: prepare_target_def canonicalize_document_request_target_def normalize_document_request_target_def
        root_path_request_def has_exact_keys_def validate_path_def validate_document_path_def lift_path_def rbind_def
        resolve_path_def resolve_document_path_def leaf_fragment_base)
  have rec: "reconcile_operation_identity empty_overlay (InsertContent (DocTarget [] None) (IntArg 0) ?br) = Inr (empty_overlay, [])"
    by (simp add: append_document_path_def validate_document_path_def is_safe_integer_def max_safe_integer_def rbind_def
        reconcile_livemap_document_identity_overlay_def empty_overlay_def incoming_claims_def identity_frames_def bare_unread)
  show ?thesis
    using rec after classify_invariants [OF after]
    by (auto simp: prepare_insert_document_content_def normalize_content_index_def index_ok_def index_nat_def
        is_safe_integer_def max_safe_integer_def clone_content_def leaf_fragment_def [of "[js ''p'', js ''hr'']"]
        target [unfolded leaf_fragment_def [of "[js ''p'', js ''hr'']"]] require_content_endpoint_def insertion_content_def
        edit [unfolded leaf_fragment_def [of "[js ''p'', js ''hr'']"]] prepare_finished_mutation_def)
qed

lemma witness_fragment_ok: "document_ok (leaf_fragment [js ''p'', js ''hr'']) FragmentMode empty_overlay"
  by (rule leaf_fragment_ok) (auto simp: HSON_SYS_PREFIX_def)

theorem prepared_mutation_keeps_document_witness:
  "\<exists>m. prepare_graph_operation (leaf_fragment [js ''p'', js ''hr'']) FragmentMode empty_overlay
       (RawInsertContent root_path_request (IntArg 0) (ItemNode (bare_node (js ''br'') []))) RequestAuthority = Inr m \<and>
     m_root m = leaf_fragment [js ''br'', js ''p'', js ''hr''] \<and>
     document_ok (m_root m) FragmentMode (m_overlay m)"
  using inserted_leaf prepared_mutation_keeps_document [OF witness_fragment_ok] by blast

end
