(* ===== verification/Replay_Laws.thy ===== *)
theory Replay_Laws
  imports Mutation_Laws
begin

text \<open>
  Replay of one recorded operation: the operation a mutation records, received by a replica as commit
  data, prepares the same candidate from the same document.
\<close>

section \<open>A recorded operation replays\<close>

text \<open>The recorded operation as the data a replica receives.\<close>

definition recorded_target :: "commit_target \<Rightarrow> target_input" where
  "recorded_target t =
     Some ([(js ''kind'', TextField (js ''path'')), (js ''path'', PathField (map (\<lambda>k. IntArg (int k)) (target_path t)))] @
       (case target_witness t of None \<Rightarrow> [] | Some q \<Rightarrow> [(js ''witness'', RecordField [(js ''quid'', PStr q)])]))"

fun recorded_operation :: "document_op \<Rightarrow> raw_op" where
  "recorded_operation (SetAttr t k v) = RawSetAttr (recorded_target t) k v"
| "recorded_operation (RemoveAttr t k) = RawRemoveAttr (recorded_target t) k"
| "recorded_operation (ReplaceAttrs t a) = RawReplaceAttrs (recorded_target t) (ARec a)"
| "recorded_operation (ReplaceContent t i c) = RawReplaceContent (recorded_target t) i c"
| "recorded_operation (InsertContent t i c) = RawInsertContent (recorded_target t) i c"
| "recorded_operation (RemoveContent t i) = RawRemoveContent (recorded_target t) i"
| "recorded_operation (MoveContent t i j) = RawMoveContent (recorded_target t) i j"
| "recorded_operation (EnsureQuid t q) = RawEnsureQuid (recorded_target t) (PStr q)"
| "recorded_operation (ReplaceRoot m r) = RawUnsupported"

definition target_ok :: "commit_target \<Rightarrow> bool" where
  "target_ok t \<longleftrightarrow> safe_path (target_path t) \<and>
     (case target_witness t of None \<Rightarrow> True | Some q \<Rightarrow> is_persisted_quid (PStr q))"

lemma recorded_target_normal:
  assumes "target_ok t"
  shows "normalize_document_commit_target (recorded_target t) op = Inr t"
proof -
  have "validate_document_path (map (\<lambda>k. IntArg (int k)) (target_path t)) = Inr (target_path t)"
    using assms by (simp add: validate_nat target_ok_def)
  then show ?thesis
    using assms
    by (cases t; cases "target_witness t")
      (simp_all add: recorded_target_def normalize_document_commit_target_def has_only_keys_def validate_path_def
        lift_path_def normalize_witness_def has_exact_keys_def target_ok_def)
qed

lemma validate_Inr_safe: "validate_document_path input = Inr p \<Longrightarrow> safe_path p"
proof -
  have "validate_from i input = Inr p \<Longrightarrow> safe_path p" for i
    by (induction input arbitrary: i p)
      (auto simp: safe_path_def is_safe_integer_def rbind_Inr_iff split: num_arg.splits if_splits)
  then show "validate_document_path input = Inr p \<Longrightarrow> safe_path p" by (simp add: validate_document_path_def)
qed

lemma validate_path_safe: "validate_path op f = Inr p \<Longrightarrow> safe_path p"
  by (auto simp: validate_path_def split: option.splits target_field.splits dest: validate_Inr_safe)

definition safe_overlay :: "identity_overlay \<Rightarrow> bool" where
  "safe_overlay ov \<longleftrightarrow> list_all (\<lambda>(q, p). is_persisted_quid (PStr q) \<and> list_all (\<lambda>s. int s \<le> max_safe_integer) p) (quid_to_path ov)"

lemma safe_overlay_entry:
  "safe_overlay ov \<Longrightarrow> path_for_quid ov q = Some p \<Longrightarrow> safe_path p \<and> is_persisted_quid (PStr q)"
  by (force simp: safe_overlay_def path_for_quid_def list_all_iff safe_path_def dest: map_of_SomeD)

lemma commit_target_ok:
  assumes "normalize_document_commit_target input op = Inr t"
  shows "target_ok t"
proof -
  obtain fs p where fs: "input = Some fs" "validate_path op (map_of fs (js ''path'')) = Inr p"
    "(case map_of fs (js ''witness'') of None \<Rightarrow> Inr (DocTarget p None)
      | Some w \<Rightarrow> rbind (normalize_witness w op) (\<lambda>q. Inr (DocTarget p (Some q)))) = Inr t"
    using assms by (auto simp: normalize_document_commit_target_def rbind_Inr_iff split: option.splits if_splits)
  have "is_persisted_quid (PStr q)" if "normalize_witness w op = Inr q" for w q
    using that by (auto simp: normalize_witness_def split: target_field.splits option.splits prim.splits if_splits)
  then show ?thesis
    using fs(3) validate_path_safe [OF fs(2)] by (auto simp: target_ok_def rbind_Inr_iff split: option.splits)
qed

lemma retarget:
  assumes ok: "overlay_ok ov" "safe_overlay ov" and prep: "prepare_target root mode ov input op authority = Inr (t, x)"
  shows "prepare_target root mode ov (recorded_target t) op CommitAuthority = Inr (t, x)"
proof -
  note at = prepare_target_Inr [OF prep]
  have t: "target_ok t \<and> \<not> (case (target_witness t, quid_at_path ov (target_path t)) of
      (Some w, Some active) \<Rightarrow> is_ordinary_element_item x \<and> active \<noteq> w | _ \<Rightarrow> False)"
  proof (cases "authority = RequestAuthority")
    case False
    then show ?thesis
      using prep commit_target_ok
      by (auto simp: prepare_target_def resolve_document_commit_target_def rbind_Inr_iff split: if_splits)
  next
    case True
    then obtain request where r: "normalize_document_request_target input op = Inr request"
      "(case request of
        PathRequest p \<Rightarrow> rbind (resolve_path root mode p op) (\<lambda>endpoint. Inr (DocTarget p None, endpoint))
      | QuidRequest q \<Rightarrow> rbind (resolve_quid_request root mode ov q op) (\<lambda>(p, endpoint).
          if \<not> is_ordinary_element_item endpoint then Inl (DocumentError DOCUMENT_TARGET_KIND op)
          else Inr (DocTarget p (Some q), endpoint))) = Inr (t, x)"
      using prep by (auto simp: prepare_target_def canonicalize_document_request_target_def rbind_Inr_iff)
    show ?thesis
    proof (cases request)
      case (PathRequest p)
      have "safe_path p"
        using r(1) PathRequest validate_path_safe
        by (auto simp: normalize_document_request_target_def rbind_Inr_iff split: option.splits if_splits target_field.splits)
      then show ?thesis using r(2) PathRequest by (auto simp: rbind_Inr_iff target_ok_def)
    next
      case (QuidRequest q)
      obtain p where p: "t = DocTarget p (Some q)" "resolve_quid_request root mode ov q op = Inr (p, x)"
        using r(2) QuidRequest by (auto simp: rbind_Inr_iff split: if_splits)
      then have "path_for_quid ov q = Some p" using resolve_quid_Inr by blast
      then have "quid_at_path ov p = Some q" "safe_path p \<and> is_persisted_quid (PStr q)"
        using overlay_lookups [OF ok(1)] safe_overlay_entry [OF ok(2)] by auto
      then show ?thesis by (simp add: p(1) target_ok_def)
    qed
  qed
  then show ?thesis
    by (simp add: prepare_target_def resolve_document_commit_target_def recorded_target_normal resolve_path_def lift_path_def at)
qed

text \<open>The attribute values of an operation are records with distinct keys.\<close>

fun raw_ok :: "raw_op \<Rightarrow> bool" where
  "raw_ok (RawSetAttr t k v) = record_ok v"
| "raw_ok (RawReplaceAttrs t v) = record_ok v"
| "raw_ok _ = True"

lemma normalize_value_again:
  "normalize_attr_value k v op = Inr w \<Longrightarrow> record_ok v \<Longrightarrow> normalize_attr_value k w op = Inr w"
  using decode_attr_value_idem [of k v w] by (auto simp: normalize_attr_value_def split: option.splits)

lemma normalize_name_same: "normalize_attr_name k op = Inr k' \<Longrightarrow> k' = k"
  by (auto simp: normalize_attr_name_def split: if_splits)

lemma insertion_content_again: "insertion_content n (insertion_content n c) = insertion_content n c"
  by (auto simp: insertion_content_def split: hson_item.splits prim.splits)

lemma finished_operation: "prepare_finished_mutation mode root ov operation op = Inr m \<Longrightarrow> m_operation m = operation"
  by (rule finished_Inr(2))

lemma lift_attrs_Inr: "lift_attrs r = Inr a \<longleftrightarrow> r = Inr a"
  by (auto simp: lift_attrs_def split: sum.splits)

definition clonable :: "hson_item \<Rightarrow> bool" where
  "clonable x = (case x of ItemNode n \<Rightarrow> is_Node x | ItemPrim p \<Rightarrow> prim_is_finite p)"

lemma clone_content_iff: "clone_content x op = Inr y \<longleftrightarrow> y = x \<and> clonable x"
  by (auto simp: clone_content_def clonable_def split: hson_item.splits)

definition attr_name_ok :: "js_string \<Rightarrow> bool" where
  "attr_name_ok k \<longleftrightarrow> \<not> starts_with k HSON_META_MARKUP_PREFIX \<and> is_public_attr_name k"

lemma attr_name_iff: "normalize_attr_name k op = Inr k' \<longleftrightarrow> k' = k \<and> attr_name_ok k"
  by (auto simp: normalize_attr_name_def attr_name_ok_def)

lemmas replay_parts = prepare_parts clone_content_iff attr_name_iff lift_attrs_Inr

lemma plan_replace_decodes:
  assumes "decode_public_attrs v = Some d" and "record_ok v" and "plan_public_attrs_replace d = Inr a"
  shows "a = d \<and> decode_public_attrs (ARec d) = Some d"
  using canonical_bag_decodes [OF decode_canonical [OF assms(1,2)]] assms(3)
  by (simp add: plan_public_attrs_replace_def canonical_attrs_def)

lemma replay_attrs:
  assumes ov: "overlay_ok ov" "safe_overlay ov"
  shows "prepare_set_document_attr root mode ov t k v authority = Inr m \<Longrightarrow> record_ok v \<Longrightarrow>
    prepare_document_graph_operation root mode ov (recorded_operation (m_operation m)) = Inr m"
  "prepare_remove_document_attr root mode ov t k authority = Inr m \<Longrightarrow>
    prepare_document_graph_operation root mode ov (recorded_operation (m_operation m)) = Inr m"
  "prepare_replace_document_attrs root mode ov t v authority = Inr m \<Longrightarrow> record_ok v \<Longrightarrow>
    prepare_document_graph_operation root mode ov (recorded_operation (m_operation m)) = Inr m"
proof -
  assume r: "record_ok v"
  assume "prepare_set_document_attr root mode ov t k v authority = Inr m"
  then obtain w target n current nxt where p: "attr_name_ok k" "normalize_attr_value k v OpSetAttr = Inr w"
    "prepare_target root mode ov t OpSetAttr authority = Inr (target, ItemNode n)" "is_ordinary_element_node n"
    "decode_own_attrs n (DocumentError INVALID_DOCUMENT_ATTRIBUTE_VALUE OpSetAttr) = Inr current"
    "plan_public_attr_set current k w = Inr nxt"
    "prepare_finished_mutation mode (update_document root mode (target_path target) (with_attrs (Some nxt))) ov
       (SetAttr target k w) OpSetAttr = Inr m"
    by (auto simp: prepare_set_document_attr_def prepare_parts lift_attrs_Inr attr_name_iff)
  then show "prepare_document_graph_operation root mode ov (recorded_operation (m_operation m)) = Inr m"
    using p retarget [OF ov p(3)] normalize_value_again [OF p(2) r] finished_operation [OF p(7)]
    by (simp add: prepare_document_graph_operation_def prepare_set_document_attr_def replay_parts)
next
  assume "prepare_remove_document_attr root mode ov t k authority = Inr m"
  then obtain target n current nxt where p: "attr_name_ok k"
    "prepare_target root mode ov t OpRemoveAttr authority = Inr (target, ItemNode n)" "is_ordinary_element_node n"
    "decode_own_attrs n (DocumentError INVALID_DOCUMENT_ATTRIBUTE_VALUE OpRemoveAttr) = Inr current"
    "plan_public_attr_drop current k = Inr nxt"
    "prepare_finished_mutation mode (update_document root mode (target_path target) (with_attrs (stored_attrs nxt))) ov
       (RemoveAttr target k) OpRemoveAttr = Inr m"
    by (auto simp: prepare_remove_document_attr_def prepare_parts lift_attrs_Inr attr_name_iff)
  then show "prepare_document_graph_operation root mode ov (recorded_operation (m_operation m)) = Inr m"
    using p retarget [OF ov p(2)] finished_operation [OF p(6)]
    by (simp add: prepare_document_graph_operation_def prepare_remove_document_attr_def replay_parts)
next
  assume r: "record_ok v"
  assume "prepare_replace_document_attrs root mode ov t v authority = Inr m"
  then obtain d a target n where p: "decode_public_attrs v = Some d" "plan_public_attrs_replace d = Inr a"
    "prepare_target root mode ov t OpReplaceAttrs authority = Inr (target, ItemNode n)" "is_ordinary_element_node n"
    "prepare_finished_mutation mode (update_document root mode (target_path target) (with_attrs (stored_attrs a))) ov
       (ReplaceAttrs target a) OpReplaceAttrs = Inr m"
    by (auto simp: prepare_replace_document_attrs_def prepare_parts lift_attrs_Inr split: option.splits)
  then show "prepare_document_graph_operation root mode ov (recorded_operation (m_operation m)) = Inr m"
    using p retarget [OF ov p(3)] finished_operation [OF p(5)] plan_replace_decodes [OF p(1) r p(2)]
    by (simp add: prepare_document_graph_operation_def prepare_replace_document_attrs_def replay_parts)
qed

lemma replay_replace_content:
  assumes ov: "overlay_ok ov" "safe_overlay ov"
    and req: "prepare_replace_document_content root mode ov t i c authority = Inr m"
  shows "prepare_document_graph_operation root mode ov (recorded_operation (m_operation m)) = Inr m"
proof -
  obtain target n where p: "index_ok i" "clonable (insertion_content n c)"
    "prepare_target root mode ov t OpReplaceContent authority = Inr (target, ItemNode n)"
    "is_Node (ItemNode n)" "\<not> length (content_of n) \<le> index_nat i"
    "prepare_finished_mutation mode (edit_document root mode (target_path target)
       (\<lambda>cs. cs[index_nat i := insertion_content n c])) ov (ReplaceContent target i (insertion_content n c)) OpReplaceContent = Inr m"
    using req by (auto simp del: is_Node.simps simp: prepare_replace_document_content_def replay_parts Let_def split: if_splits)
  show ?thesis
    using p retarget [OF ov p(3)] finished_operation [OF p(6)]
    by (simp del: is_Node.simps add: prepare_document_graph_operation_def prepare_replace_document_content_def
        insertion_content_again replay_parts Let_def)
qed

lemma empty_fragment_target:
  assumes "prepare_empty_fragment_insert_target t authority = Inr target"
  shows "prepare_empty_fragment_insert_target (recorded_target target) CommitAuthority = Inr target"
proof -
  have "target_ok target \<and> target_path target = []"
  proof (cases "authority = RequestAuthority")
    case True
    then obtain request where "(case request of QuidRequest q \<Rightarrow> Inl (DocumentError DOCUMENT_TARGET_NOT_FOUND OpInsertContent)
        | PathRequest p \<Rightarrow> if p \<noteq> [] then Inl (DocumentError DOCUMENT_PATH_OUT_OF_RANGE OpInsertContent)
            else Inr (DocTarget p None)) = Inr target"
      using assms by (auto simp: prepare_empty_fragment_insert_target_def rbind_Inr_iff)
    then show ?thesis by (cases request) (auto simp: target_ok_def safe_path_def split: if_splits)
  qed (use assms commit_target_ok in \<open>auto simp: prepare_empty_fragment_insert_target_def rbind_Inr_iff split: if_splits\<close>)
  then show ?thesis by (simp add: prepare_empty_fragment_insert_target_def recorded_target_normal)
qed

lemma not_empty_fragment:
  "\<not> (mode = FragmentMode \<and> tag_of root = ROOT_TAG \<and> content_of root = []) \<Longrightarrow>
    prepare_insert_document_content root mode ov t i c authority = Inr m \<longleftrightarrow>
    index_ok i \<and> clonable c \<and> (\<exists>target n. prepare_target root mode ov t OpInsertContent authority = Inr (target, ItemNode n) \<and>
      is_Node (ItemNode n) \<and> \<not> index_nat i > length (content_of n) \<and>
      prepare_finished_mutation mode (edit_document root mode (target_path target)
        (insert_nth (index_nat i) (insertion_content n c))) ov (InsertContent target i c) OpInsertContent = Inr m)"
  by (auto simp del: is_Node.simps simp: prepare_insert_document_content_def replay_parts split: if_splits)

lemma replay_insert_content:
  assumes ov: "overlay_ok ov" "safe_overlay ov"
    and req: "prepare_insert_document_content root mode ov t i c authority = Inr m"
  shows "prepare_document_graph_operation root mode ov (recorded_operation (m_operation m)) = Inr m"
proof (cases "mode = FragmentMode \<and> tag_of root = ROOT_TAG \<and> content_of root = []")
  case True
  obtain target where p: "index_ok i" "index_nat i = 0" "clonable c"
    "prepare_empty_fragment_insert_target t authority = Inr target"
    "prepare_finished_mutation mode (HsonNode (tag_of root) (attrs_of root) (meta_of root)
       [ItemNode (bare_node ELEM_TAG [insertion_content (bare_node ELEM_TAG []) c])]) ov (InsertContent target i c)
       OpInsertContent = Inr m"
    using req True by (auto simp del: is_Node.simps simp: prepare_insert_document_content_def replay_parts Let_def split: if_splits)
  show ?thesis
    using p empty_fragment_target [OF p(4)] finished_operation [OF p(5)] True
    by (simp del: is_Node.simps add: prepare_document_graph_operation_def prepare_insert_document_content_def replay_parts Let_def)
next
  case False
  obtain target n where p: "prepare_target root mode ov t OpInsertContent authority = Inr (target, ItemNode n)"
    "prepare_finished_mutation mode (edit_document root mode (target_path target)
       (insert_nth (index_nat i) (insertion_content n c))) ov (InsertContent target i c) OpInsertContent = Inr m"
    using req unfolding not_empty_fragment [OF False] by blast
  show ?thesis
    using req p retarget [OF ov p(1)] finished_operation [OF p(2)]
    by (simp only: prepare_document_graph_operation_def recorded_operation.simps prepare_graph_operation.simps
        not_empty_fragment [OF False])
qed

lemma replay_remove_content:
  assumes ov: "overlay_ok ov" "safe_overlay ov"
    and req: "prepare_remove_document_content root mode ov t i authority = Inr m"
  shows "prepare_document_graph_operation root mode ov (recorded_operation (m_operation m)) = Inr m"
proof -
  obtain target x where p: "prepare_target root mode ov t OpRemoveContent authority = Inr (target, x)"
    using req by (auto simp: prepare_remove_document_content_def rbind_Inr_iff)
  moreover have "m_operation m = RemoveContent target i"
    using req p by (auto simp: prepare_remove_document_content_def rbind_Inr_iff Let_def dest!: finished_operation)
  ultimately show ?thesis
    using req retarget [OF ov p] by (simp add: prepare_document_graph_operation_def prepare_remove_document_content_def)
qed

lemma replay_move_content:
  assumes ov: "overlay_ok ov" "safe_overlay ov"
    and req: "prepare_move_document_content root mode ov t i j authority = Inr m"
  shows "prepare_document_graph_operation root mode ov (recorded_operation (m_operation m)) = Inr m"
proof -
  obtain target x where p: "prepare_target root mode ov t OpMoveContent authority = Inr (target, x)"
    using req by (auto simp: prepare_move_document_content_def rbind_Inr_iff)
  moreover have "m_operation m = MoveContent target i j"
    using req p by (auto simp: prepare_move_document_content_def rbind_Inr_iff dest!: finished_operation)
  ultimately show ?thesis
    using req retarget [OF ov p] by (simp add: prepare_document_graph_operation_def prepare_move_document_content_def)
qed

lemma replay_ensure:
  assumes ov: "overlay_ok ov" "safe_overlay ov"
    and req: "prepare_ensure_document_quid root mode ov t q = Inr m"
  shows "prepare_document_graph_operation root mode ov (recorded_operation (m_operation m)) = Inr m"
proof -
  obtain quid where q: "q = PStr quid" "is_persisted_quid (PStr quid)"
    using req by (cases q) (auto simp: prepare_ensure_document_quid_def split: if_splits)
  obtain target x where t: "prepare_target root mode ov t OpEnsureQuid CommitAuthority = Inr (target, x)"
    using req q by (auto simp: prepare_ensure_document_quid_def rbind_Inr_iff)
  have op: "m_operation m = EnsureQuid target quid"
    using req t q
    by (auto simp: prepare_ensure_document_quid_def dest: finished_operation
        split: if_splits sum.splits option.splits prod.splits)
  show ?thesis
    using req q retarget [OF ov t] unfolding op
    by (simp add: prepare_document_graph_operation_def prepare_ensure_document_quid_def t)
qed

lemma replay_any:
  assumes ov: "overlay_ok ov" "safe_overlay ov"
    and req: "prepare_graph_operation root mode ov input authority = Inr m" and ok: "raw_ok input"
  shows "prepare_document_graph_operation root mode ov (recorded_operation (m_operation m)) = Inr m"
  using req ok
  by (cases input) (auto intro: replay_attrs [OF ov] replay_replace_content [OF ov] replay_insert_content [OF ov]
      replay_remove_content [OF ov] replay_move_content [OF ov] replay_ensure [OF ov])

text \<open>
  C11: replicas converge. Whatever a caller requested, by path or by identity, the operation recorded
  in the commit, prepared as a commit against the same document, gives the same candidate: root,
  overlay, operation and identity evidence. Recording lowers a request to a path with an identity
  witness, decodes attribute values and wraps text, and none of it changes what is replayed.
\<close>

theorem recorded_operation_replays:
  assumes "overlay_ok ov" and "safe_overlay ov" and "raw_ok input"
    and "prepare_graph_operation root mode ov input authority = Inr m"
  shows "prepare_document_graph_operation root mode ov (recorded_operation (m_operation m)) = Inr m"
  by (rule replay_any [OF assms(1,2,4,3)])


theorem recorded_operation_replays_witness:
  "\<exists>m. prepare_graph_operation (leaf_fragment [js ''p'', js ''hr'']) FragmentMode empty_overlay
       (RawInsertContent root_path_request (IntArg 0) (ItemNode (bare_node (js ''br'') []))) RequestAuthority = Inr m \<and>
     m_root m = leaf_fragment [js ''br'', js ''p'', js ''hr''] \<and>
     prepare_document_graph_operation (leaf_fragment [js ''p'', js ''hr'']) FragmentMode empty_overlay
       (recorded_operation (m_operation m)) = Inr m"
proof -
  have "overlay_ok empty_overlay" "safe_overlay empty_overlay"
    using witness_fragment_ok by (simp_all add: document_ok_def safe_overlay_def empty_overlay_def)
  moreover have "raw_ok (RawInsertContent root_path_request (IntArg 0) (ItemNode (bare_node (js ''br'') [])))" by simp
  ultimately show ?thesis using inserted_leaf recorded_operation_replays by blast
qed

end
