(* ===== verification/Canonical_Laws.thy ===== *)
theory Canonical_Laws
  imports Canonical_Equal
begin

text \<open>
  Laws of strict graph equality: every comparison decides a relation on the operands, and on sound
  nodes that relation is equality up to the order of keys.
\<close>

text \<open>A comparison that decides a relation: it does not fail, and it finds nothing exactly when the relation holds.\<close>

definition decides :: "comparison \<Rightarrow> bool \<Rightarrow> bool" where
  "decides c b \<longleftrightarrow> (\<exists>d. c = Inr d \<and> (d = None \<longleftrightarrow> b))"

lemma decides_simps [simp]:
  "decides (Inr None) b \<longleftrightarrow> b" "decides (Inr (Some d)) b \<longleftrightarrow> \<not> b" "\<not> decides (Inl e) b"
  by (auto simp: decides_def)

lemma decides_unless_found:
  "decides r b \<Longrightarrow> (r = Inr None \<Longrightarrow> decides k c) \<Longrightarrow> decides (unless_found r k) (b \<and> c)"
  by (auto simp: decides_def unless_found_def)

lemma decides_first_found:
  "(\<And>x. x \<in> set xs \<Longrightarrow> decides (f x) (P x)) \<Longrightarrow> decides (first_found f xs) (list_all P xs)"
  by (induction xs) (auto intro!: decides_unless_found)

lemma decides_relabel:
  "decides c b \<Longrightarrow> decides (rbind c (\<lambda>d. Inr (map_option g d))) b"
  by (auto simp: decides_def)

lemma finite_number_sound: "prim_finite p \<Longrightarrow> finite_number p = Inr ()"
  by (cases p) auto

lemma compare_scalar_decides:
  "prim_finite p \<Longrightarrow> prim_finite q \<Longrightarrow> decides (compare_scalar p q path) (p = q)"
  by (auto simp: compare_scalar_def finite_number_sound prim_object_is_iff Let_def)

lemma sort_key_map_of_eq:
  assumes "distinct (map fst es)" and "distinct (map fst fs)"
  shows "sort_key fst es = sort_key fst fs \<longleftrightarrow> map_of es = map_of fs"
proof
  assume "sort_key fst es = sort_key fst fs"
  then have "set es = set fs" by (metis set_sort)
  then show "map_of es = map_of fs" using assms by (metis map_of_inject_set)
next
  assume "map_of es = map_of fs"
  then have s: "set es = set fs" using assms map_of_inject_set by blast
  have "distinct (map fst (sort_key fst es))" "distinct (map fst (sort_key fst fs))"
    using assms by (simp_all add: distinct_map)
  moreover have "sorted (map fst (sort_key fst es))" "sorted (map fst (sort_key fst fs))" by simp_all
  moreover have "set (sort_key fst es) = set (sort_key fst fs)" using s by simp
  ultimately show "sort_key fst es = sort_key fst fs" by (rule_tac map_sorted_distinct_set_unique [where f = fst]) (auto simp: distinct_map)
qed

lemma map_of_map_second: "map_of (map (\<lambda>(k, v). (k, g v)) es) k = map_option g (map_of es k)"
  by (induction es) auto

lemma map_fst_second [simp]: "map (fst \<circ> (\<lambda>(k, v). (k, g v))) es = map fst es"
  by (induction es) auto

text \<open>Two records with the same lookups, seen through \<open>g\<close>.\<close>

lemma compare_named_record_decides:
  assumes "distinct (map fst l)" "distinct (map fst r)"
    and cmp: "\<And>k a b p. (k, a) \<in> set l \<Longrightarrow> (k, b) \<in> set r \<Longrightarrow> decides (f a b p) (g a = g b)"
  shows "decides (compare_named_record f l r path field)
    (sort_key fst (map (\<lambda>(k, v). (k, g v)) l) = sort_key fst (map (\<lambda>(k, v). (k, g v)) r))"
proof -
  let ?keys = "sort (remdups (map fst l @ map fst r))"
  let ?same = "\<lambda>k. map_option g (map_of l k) = map_option g (map_of r k)"
  have "decides (compare_named_record f l r path field) (list_all ?same ?keys)"
    unfolding compare_named_record_def
    by (rule decides_first_found)
      (auto simp: Let_def split: option.splits intro!: decides_relabel cmp dest: map_of_SomeD)
  moreover have "list_all ?same ?keys \<longleftrightarrow> (\<forall>k. ?same k)"
  proof -
    have "?same k" if "k \<notin> set ?keys" for k
    proof -
      have "map_of l k = None" "map_of r k = None" using that by (auto simp: map_of_eq_None_iff)
      then show ?thesis by simp
    qed
    then show ?thesis by (auto simp: list_all_iff)
  qed
  moreover have "(\<forall>k. ?same k) \<longleftrightarrow> sort_key fst (map (\<lambda>(k, v). (k, g v)) l) = sort_key fst (map (\<lambda>(k, v). (k, g v)) r)"
    using assms(1,2) by (subst sort_key_map_of_eq) (simp_all add: fun_eq_iff map_of_map_second)
  ultimately show ?thesis by simp
qed

lemma compare_attr_value_decides:
  "value_sound l \<Longrightarrow> value_sound r \<Longrightarrow> decides (compare_attr_value l r path) (sorted_value l = sorted_value r)"
proof (induction l arbitrary: r path)
  case (ARec es)
  show ?case
  proof (cases r)
    case r: (ARec fs)
    have "decides (compare_named_record compare_attr_value es fs path RecordField)
      (sort_key fst (map (\<lambda>(k, v). (k, sorted_value v)) es) = sort_key fst (map (\<lambda>(k, v). (k, sorted_value v)) fs))"
    proof (rule compare_named_record_decides)
      fix k a b p assume "(k, a) \<in> set es" "(k, b) \<in> set fs"
      then show "decides (compare_attr_value a b p) (sorted_value a = sorted_value b)"
        using ARec r by (fastforce simp: list_all_iff)
    qed (use ARec r in auto)
    then show ?thesis by (simp add: r)
  qed (use ARec in \<open>auto simp: finite_number_sound\<close>)
qed (auto split: attr_value.splits simp: finite_number_sound intro: compare_scalar_decides)

lemma compare_container_decides:
  assumes "\<And>es fs. l = Some es \<Longrightarrow> r = Some fs \<Longrightarrow> decides (compare_named_record f es fs path field) (h es = h fs)"
  shows "decides (compare_container f l r path field) (map_option h l = map_option h r)"
  using assms by (auto simp: compare_container_def split: option.splits)

section \<open>Nodes\<close>

text \<open>An order test that only answers yes for lists that differ.\<close>

definition careful :: "(hson_item list \<Rightarrow> hson_item list \<Rightarrow> equality_fault + bool) \<Rightarrow> bool" where
  "careful t \<longleftrightarrow> (\<forall>ls rs. list_all item_sound ls \<longrightarrow> list_all item_sound rs \<longrightarrow>
     (\<exists>b. t ls rs = Inr b \<and> (b \<longrightarrow> map sorted_item ls \<noteq> map sorted_item rs)))"

lemma careful_test:
  "careful t \<Longrightarrow> list_all item_sound ls \<Longrightarrow> list_all item_sound rs \<Longrightarrow>
    \<exists>b. t ls rs = Inr b \<and> (b \<longrightarrow> map sorted_item ls \<noteq> map sorted_item rs)"
  by (simp add: careful_def)

lemma compare_decides:
  "careful t \<Longrightarrow> node_sound l \<Longrightarrow> node_sound m \<Longrightarrow> decides (compare_node t l m path) (sorted_node l = sorted_node m)"
  "careful t \<Longrightarrow> item_sound x \<Longrightarrow> item_sound y \<Longrightarrow> decides (compare_item t x y path) (sorted_item x = sorted_item y)"
  "careful t \<Longrightarrow> list_all item_sound xs \<Longrightarrow> list_all item_sound ys \<Longrightarrow> length xs = length ys \<Longrightarrow>
    decides (compare_items t xs ys path i) (map sorted_item xs = map sorted_item ys)"
proof (induction t l m path and t x y path and t xs ys path i rule: compare_node_compare_item_compare_items.induct)
  case (1 test t a m c r path)
  obtain t' a' m' c' where r: "r = HsonNode t' a' m' c'" by (cases r)
  have at: "decides (compare_container compare_attr_value a a' p AttributeField) (map_option sorted_attrs a = map_option sorted_attrs a')" for p
    unfolding sorted_attrs_def
    by (rule compare_container_decides, rule compare_named_record_decides)
      (use 1 r in \<open>auto simp: list_all_iff intro!: compare_attr_value_decides\<close>)
  have "decides (compare_container compare_scalar m m' p MetadataField)
      (map_option (\<lambda>es. sort_key fst (map (\<lambda>(k, v). (k, id v)) es)) m =
       map_option (\<lambda>es. sort_key fst (map (\<lambda>(k, v). (k, id v)) es)) m')" for p
    by (rule compare_container_decides, rule compare_named_record_decides)
      (use 1 r in \<open>auto simp: list_all_iff intro!: compare_scalar_decides\<close>)
  then have mt: "decides (compare_container compare_scalar m m' p MetadataField)
      (map_option (sort_key fst) m = map_option (sort_key fst) m')" for p by simp
  have kids: "decides (if length c \<noteq> length c' then Inr (Some d)
      else rbind (test c c') (\<lambda>b. if b then at_difference ContentOrdering p else compare_items test c c' p 0))
      (map sorted_item c = map sorted_item c')" if "t = t'" "compare_container compare_attr_value a a' (path @ js ''.$_attrs'') AttributeField = Inr None"
        "compare_container compare_scalar m m' (path @ js ''.$_meta'') MetadataField = Inr None" "p = path @ js ''.$_content''" for d p
  proof (cases "length c = length c'")
    case True
    from careful_test [of test c c'] 1 r obtain b where b: "test c c' = Inr b" "b \<longrightarrow> map sorted_item c \<noteq> map sorted_item c'"
      by auto
    show ?thesis
    proof (cases b)
      case False
      have "decides (compare_items test c c' p 0) (map sorted_item c = map sorted_item c')"
        using 1 r b False True that by simp
      then show ?thesis using b False True by simp
    qed (use b True in auto)
  qed (auto dest: map_eq_imp_length_eq)
  show ?case
  proof (cases "t = t'")
    case True
    have "decides (compare_node test (HsonNode t a m c) r path)
       (map_option sorted_attrs a = map_option sorted_attrs a' \<and>
        map_option (sort_key fst) m = map_option (sort_key fst) m' \<and> map sorted_item c = map sorted_item c')"
      unfolding compare_node.simps r Let_def using True
      by (simp only: simp_thms if_False hson_node.sel not_True_eq_False) (intro decides_unless_found at mt kids [OF True _ _ refl])
    then show ?thesis by (simp add: r True)
  qed (simp add: r)
next
  case (5 test l ls rs path i)
  then show ?case
    by (cases rs) (auto simp: Let_def intro!: decides_unless_found)
qed (auto split: hson_item.splits simp: finite_number_sound compare_scalar_decides)

lemma values_equal_iff:
  "item_sound l \<Longrightarrow> item_sound r \<Longrightarrow> values_equal l r = Inr (sorted_item l = sorted_item r)"
proof -
  assume s: "item_sound l" "item_sound r"
  have "careful (\<lambda>_ _. Inr False)" by (simp add: careful_def ex_bool_eq)
  from compare_decides(2) [OF this s, of "js ''$''"] show ?thesis by (auto simp: decides_def values_equal_def)
qed

lemma some_unequal_result:
  "list_all item_sound ls \<Longrightarrow> list_all item_sound rs \<Longrightarrow>
    \<exists>b. some_unequal ls rs = Inr b \<and> (b \<longrightarrow> map sorted_item ls \<noteq> map sorted_item rs)"
  by (induction ls rs rule: some_unequal.induct) (auto simp: values_equal_iff split: list.splits)

lemma take_match_result:
  "item_sound l \<Longrightarrow> list_all item_sound rs \<Longrightarrow>
    \<exists>m. take_match l rs = Inr m \<and> (\<forall>rs'. m = Some rs' \<longrightarrow> list_all item_sound rs')"
  by (induction rs) (auto simp: values_equal_iff)

lemma permutations_result:
  "list_all item_sound ls \<Longrightarrow> list_all item_sound rs \<Longrightarrow> \<exists>b. arrays_are_permutations ls rs = Inr b"
proof (induction ls arbitrary: rs)
  case (Cons l ls)
  then obtain m where "take_match l rs = Inr m" "\<forall>rs'. m = Some rs' \<longrightarrow> list_all item_sound rs'"
    using take_match_result [of l rs] by auto
  then show ?case using Cons by (cases m) (auto simp: ex_bool_eq)
qed (simp add: ex_bool_eq)

lemma detect_ordering_careful: "careful detect_ordering"
  unfolding careful_def
proof (intro allI impI)
  fix ls rs assume s: "list_all item_sound ls" "list_all item_sound rs"
  from some_unequal_result [OF this] obtain b where
    "some_unequal ls rs = Inr b" "b \<longrightarrow> map sorted_item ls \<noteq> map sorted_item rs" by blast
  moreover from permutations_result [OF s] obtain b' where "arrays_are_permutations ls rs = Inr b'" by blast
  ultimately show "\<exists>b. detect_ordering ls rs = Inr b \<and> (b \<longrightarrow> map sorted_item ls \<noteq> map sorted_item rs)"
    by (cases b) (auto simp: detect_ordering_def)
qed

lemma graph_equal_result:
  "node_sound l \<Longrightarrow> node_sound r \<Longrightarrow> canonical_hson_graph_equal l r = Inr (sorted_node l = sorted_node r)"
  using compare_decides(1) [OF detect_ordering_careful, of l r "js ''$''"]
  by (auto simp: decides_def canonical_hson_graph_equal_def canonical_hson_graph_difference_def)

text \<open>
  C21: strict graph equality. On nodes whose records have distinct keys and whose numbers are finite
  the comparison does not fail, and it reports no difference exactly when the two trees are equal up
  to the order of the keys of each record. In particular the test for reordered content never hides
  or invents a difference.
\<close>

theorem canonical_equality_up_to_key_order:
  assumes "node_sound l" and "node_sound r"
  shows "canonical_hson_graph_equal l r = Inr (sorted_node l = sorted_node r) \<and>
    (canonical_hson_graph_difference l r = Inr None \<longleftrightarrow> sorted_node l = sorted_node r)"
  using compare_decides(1) [OF detect_ordering_careful assms, of "js ''$''"] graph_equal_result [OF assms]
  by (auto simp: decides_def canonical_hson_graph_difference_def)

theorem canonical_equality_up_to_key_order_witness:
  "canonical_hson_graph_equal
      (HsonNode (js ''p'') (Some [(js ''b'', APrim PNull), (js ''a'', APrim (PBool True))]) None [])
      (HsonNode (js ''p'') (Some [(js ''a'', APrim (PBool True)), (js ''b'', APrim PNull)]) None []) = Inr True \<and>
    canonical_hson_graph_equal (bare_node (js ''p'') [ItemPrim (PBool True), ItemPrim PNull])
      (bare_node (js ''p'') [ItemPrim PNull, ItemPrim (PBool True)]) = Inr False \<and>
    canonical_hson_graph_difference (bare_node (js ''p'') [ItemPrim (PBool True), ItemPrim PNull])
      (bare_node (js ''p'') [ItemPrim PNull, ItemPrim (PBool True)]) =
      Inr (Some \<lparr> d_kind = ContentOrdering, d_path = js ''$.$_content'', d_content = None \<rparr>)"
proof (intro conjI)
  show "canonical_hson_graph_equal
      (HsonNode (js ''p'') (Some [(js ''b'', APrim PNull), (js ''a'', APrim (PBool True))]) None [])
      (HsonNode (js ''p'') (Some [(js ''a'', APrim (PBool True)), (js ''b'', APrim PNull)]) None []) = Inr True"
    by (subst conjunct1 [OF canonical_equality_up_to_key_order]) (auto simp: sorted_attrs_def js_def)
  show "canonical_hson_graph_equal (bare_node (js ''p'') [ItemPrim (PBool True), ItemPrim PNull])
      (bare_node (js ''p'') [ItemPrim PNull, ItemPrim (PBool True)]) = Inr False"
    by (subst conjunct1 [OF canonical_equality_up_to_key_order]) auto
  show "canonical_hson_graph_difference (bare_node (js ''p'') [ItemPrim (PBool True), ItemPrim PNull])
      (bare_node (js ''p'') [ItemPrim PNull, ItemPrim (PBool True)]) =
      Inr (Some \<lparr> d_kind = ContentOrdering, d_path = js ''$.$_content'', d_content = None \<rparr>)"
    by (simp add: canonical_hson_graph_difference_def compare_container_def unless_found_def detect_ordering_def
        values_equal_def compare_scalar_def Let_def js_def)
qed

end
