(* ===== verification/Document_Core_Laws.thy ===== *)
theory Document_Core_Laws
  imports Document_Core Replay_Laws Canonical_Laws
begin

text \<open>
  Laws of a live document: what a request does to the state, replay of recorded commits at another
  document, and the fate of identities within one epoch.
\<close>

section \<open>What a request does\<close>

definition candidate_commit :: "nat \<Rightarrow> prepared_mutation \<Rightarrow> graph_commit" where
  "candidate_commit revision candidate =
     \<lparr> g_changed = True, g_prev_rev = revision, g_rev = revision + 1, g_ops = [m_operation candidate] \<rparr>"

lemma candidate_commit_simps [simp]:
  "g_changed (candidate_commit revision candidate)" "g_prev_rev (candidate_commit revision candidate) = revision"
  "g_rev (candidate_commit revision candidate) = Suc revision"
  "g_ops (candidate_commit revision candidate) = [m_operation candidate]"
  by (simp_all add: candidate_commit_def)

definition staged :: "document_map \<Rightarrow> prepared_mutation \<Rightarrow> ledger \<Rightarrow> bool" where
  "staged m candidate l \<longleftrightarrow>
     \<not> schema_rejects m (m_root candidate) \<and>
     stage_livemap_identity_epoch (epoch_issued (dm_epoch m)) (livemap_document_identity_quids (dm_overlay m))
       (livemap_document_identity_quids (m_overlay candidate)) = Inr l \<and>
     canonical_hson_graph_equal (dm_root m) (m_root candidate) = Inr False"

definition advanced :: "document_map \<Rightarrow> hson_node \<Rightarrow> identity_overlay \<Rightarrow> nat \<Rightarrow> ledger \<Rightarrow> document_map" where
  "advanced m root ov revision l =
     m\<lparr> dm_root := root, dm_overlay := ov, dm_rev := revision, dm_epoch := (dm_epoch m)\<lparr> epoch_issued := l \<rparr> \<rparr>"

text \<open>A transition run on the state it was prepared for either fails, does nothing, or installs.\<close>

lemma transition_run:
  assumes "run_document_transition commit install ld = (r, ld')" and "snd (install (ld_map ld)) \<Longrightarrow> fst (install (ld_map ld)) = ld_map ld"
  shows "ld_map ld' = ld_map ld \<and> (\<forall>c. r = Inr c \<longrightarrow> c = commit \<and> \<not> g_changed commit) \<or>
    (\<exists>s. g_changed commit \<and> install (ld_map ld) = (s, False) \<and> r = Inr commit \<and> ld_map ld' = emit_commit commit Authoritative s)"
  using assms
  by (auto simp: run_document_transition_def Let_def prepare_transition_def accept_transition_def record_for_def
      split: if_splits bool.splits prod.splits)

lemma owned_run:
  assumes "run_document_transition commit (\<lambda>st. install_owned root ov n (epoch st) st) ld = (r, ld')"
  shows "ld_map ld' = ld_map ld \<and> (\<forall>c. r = Inr c \<longrightarrow> c = commit \<and> \<not> g_changed commit) \<or>
    (\<exists>ep. g_changed commit \<and> epoch (ld_map ld) = Inr ep \<and> r = Inr commit \<and>
      ld_map ld' = emit_commit commit Authoritative
        ((ld_map ld)\<lparr> dm_root := root, dm_overlay := ov, dm_rev := n, dm_epoch := ep \<rparr>))"
proof (cases "epoch (ld_map ld)")
  case (Inl e)
  then have i: "install_owned root ov n (epoch (ld_map ld)) (ld_map ld) = (ld_map ld, True)"
    by (simp add: install_owned_def)
  from transition_run [OF assms] show ?thesis using i by auto
next
  case (Inr ep)
  then have i: "install_owned root ov n (epoch (ld_map ld)) (ld_map ld) =
      ((ld_map ld)\<lparr> dm_root := root, dm_overlay := ov, dm_rev := n, dm_epoch := ep \<rparr>, False)"
    by (simp add: install_owned_def)
  from transition_run [OF assms] show ?thesis using i Inr by auto
qed

lemma apply_mutation_cases:
  assumes run: "apply_mutation candidate ld = (r, ld')"
  shows "ld_map ld' = ld_map ld \<and> (\<forall>c. r = Inr c \<longrightarrow> \<not> g_changed c) \<or>
    (\<exists>l. staged (ld_map ld) candidate l \<and> r = Inr (candidate_commit (dm_rev (ld_map ld)) candidate) \<and>
       ld_map ld' = emit_commit (candidate_commit (dm_rev (ld_map ld)) candidate) Authoritative
         (advanced (ld_map ld) (m_root candidate) (m_overlay candidate) (dm_rev (ld_map ld) + 1) l))"
proof -
  let ?m = "ld_map ld"
  let ?c = "candidate_commit (dm_rev ?m) candidate"
  have failed: ?thesis if "apply_mutation candidate ld = (Inl e, ld)" for e using run that by auto
  consider (managed) e where "assert_public_mutation_allowed (ld_controller ld) = Inl e"
    | (schema) u where "assert_public_mutation_allowed (ld_controller ld) = Inr u" "schema_rejects ?m (m_root candidate)"
    | (free) u where "assert_public_mutation_allowed (ld_controller ld) = Inr u" "\<not> schema_rejects ?m (m_root candidate)"
    by (cases "assert_public_mutation_allowed (ld_controller ld)") auto
  then show ?thesis
  proof cases
    case free
    define stage where "stage = stage_livemap_identity_epoch (epoch_issued (dm_epoch ?m))
      (livemap_document_identity_quids (dm_overlay ?m)) (livemap_document_identity_quids (m_overlay candidate))"
    define eq where "eq = canonical_hson_graph_equal (dm_root ?m) (m_root candidate)"
    note unfold = apply_mutation_def Let_def free stage_def [symmetric] eq_def [symmetric]
    show ?thesis
    proof (cases stage)
      case (Inl e)
      then show ?thesis using failed by (cases e) (auto simp: unfold)
    next
      case l: (Inr l)
      show ?thesis
      proof (cases eq)
        case (Inl e)
        then show ?thesis using failed l by (auto simp: unfold)
      next
        case (Inr u)
        show ?thesis
        proof (cases u)
          case True
          obtain commit root ov n where "run_document_transition commit
              (\<lambda>st. install_owned root ov n (epoch_install l (dm_epoch st)) st) ld = (r, ld')" "\<not> g_changed commit"
            using run l Inr True by (simp add: unfold)
          from owned_run [OF this(1)] this(2) show ?thesis by auto
        next
          case False
          have "run_document_transition ?c
              (\<lambda>st. install_owned (m_root candidate) (m_overlay candidate) (g_rev ?c) (epoch_install l (dm_epoch st)) st) ld = (r, ld')"
            using run l Inr False by (simp add: unfold candidate_commit_def)
          from owned_run [OF this] show ?thesis
            using l Inr False free
            by (auto simp: epoch_install_Inr staged_def advanced_def stage_def eq_def split: sum.splits)
        qed
      qed
    qed
  qed (use failed in \<open>auto simp: apply_mutation_def Let_def\<close>)
qed

lemma request_cases:
  assumes "request_operation input ld = (r, ld')"
  obtains (same) "ld_map ld' = ld_map ld" "\<And>c. r = Inr c \<Longrightarrow> \<not> g_changed c"
  | (advances) candidate l where
      "prepare_graph_operation (dm_root (ld_map ld)) (dm_mode (ld_map ld)) (dm_overlay (ld_map ld)) input RequestAuthority = Inr candidate"
      "staged (ld_map ld) candidate l" "r = Inr (candidate_commit (dm_rev (ld_map ld)) candidate)"
      "ld_map ld' = emit_commit (candidate_commit (dm_rev (ld_map ld)) candidate) Authoritative
         (advanced (ld_map ld) (m_root candidate) (m_overlay candidate) (dm_rev (ld_map ld) + 1) l)"
proof (cases "prepare_graph_operation (dm_root (ld_map ld)) (dm_mode (ld_map ld)) (dm_overlay (ld_map ld)) input RequestAuthority")
  case (Inl e)
  then show ?thesis using assms same by (auto simp: request_operation_def)
next
  case (Inr candidate)
  then have "apply_mutation candidate ld = (r, ld')" using assms by (simp add: request_operation_def)
  from apply_mutation_cases [OF this] show ?thesis using Inr same advances by blast
qed

section \<open>Replay of a recorded commit\<close>

fun recorded_replay_op :: "document_op \<Rightarrow> replay_op" where
  "recorded_replay_op (ReplaceRoot m r) = ReplayRoot (Some (mode_name m)) r"
| "recorded_replay_op operation = ReplayGraph (recorded_operation operation)"

definition recorded_commit :: "graph_commit \<Rightarrow> replay_input" where
  "recorded_commit c = Some [(js ''changed'', BoolField (g_changed c)), (js ''prevRev'', NumberField (IntArg (int (g_prev_rev c)))),
     (js ''rev'', NumberField (IntArg (int (g_rev c)))), (js ''ops'', OpsField (map recorded_replay_op (g_ops c)))]"

lemma num_arg_revision_nat: "num_arg_revision (IntArg (int n)) = Some n"
  by (simp add: num_arg_revision_def)

lemma recorded_envelope:
  "must_graph_commit_envelope (recorded_commit (candidate_commit revision candidate)) =
    Inr \<lparr> e_prev_rev = revision, e_rev = Suc revision, e_ops = [recorded_replay_op (m_operation candidate)] \<rparr>"
  by (simp add: must_graph_commit_envelope_def recorded_commit_def num_arg_revision_nat Let_def del: of_nat_Suc)

lemma recorded_not_legacy: "\<not> is_legacy_quid_target_operation (recorded_operation operation)"
  by (cases operation) (auto simp: is_legacy_quid_target_operation_def recorded_target_def)

lemma recorded_graph_op:
  assumes "prepare_document_graph_operation root mode ov (recorded_operation operation) = Inr m"
  shows "recorded_replay_op operation = ReplayGraph (recorded_operation operation)"
  using assms by (cases operation) (auto simp: prepare_document_graph_operation_def)

definition same_document :: "document_map \<Rightarrow> document_map \<Rightarrow> bool" where
  "same_document a b \<longleftrightarrow> dm_mode a = dm_mode b \<and> dm_root a = dm_root b \<and> dm_overlay a = dm_overlay b \<and>
     dm_rev a = dm_rev b \<and> epoch_issued (dm_epoch a) = epoch_issued (dm_epoch b) \<and> dm_schema a = dm_schema b"

lemma replay_candidate:
  assumes prep: "prepare_document_graph_operation (dm_root (ld_map ld)) (dm_mode (ld_map ld)) (dm_overlay (ld_map ld))
      (recorded_operation (m_operation candidate)) = Inr candidate"
    and "staged (ld_map ld) candidate l" and "k_owner (ld_controller ld) = None"
  shows "replay_livemap_document_commit (recorded_commit (candidate_commit (dm_rev (ld_map ld)) candidate)) ld =
    (Inr (candidate_commit (dm_rev (ld_map ld)) candidate),
     \<lparr> ld_controller = invalidate_transitions (ld_controller ld),
       ld_map = emit_commit (candidate_commit (dm_rev (ld_map ld)) candidate) Replay
         (advanced (ld_map ld) (m_root candidate) (m_overlay candidate) (dm_rev (ld_map ld) + 1) l) \<rparr>)"
proof -
  have sub: "set (epoch_issued (dm_epoch (ld_map ld))) \<subseteq> set l"
    using assms(2) stage_Inr by (auto simp: staged_def)
  have root: "\<not> replaces_root [m_operation candidate]"
    using recorded_graph_op [OF prep] by (cases "m_operation candidate") (auto simp: replaces_root_def)
  show ?thesis
    using assms sub recorded_not_legacy root
    by (simp add: replay_livemap_document_commit_def recorded_envelope recorded_graph_op [OF prep] replay_step_def
        staged_def apply_replay_def assert_public_mutation_allowed_def epoch_install_def assert_monotonic_ledger_def
        list_all_iff subset_iff advanced_def Let_def, simp add: candidate_commit_def)
qed

lemma same_staged: "same_document a b \<Longrightarrow> staged a candidate l \<Longrightarrow> staged b candidate l"
  by (simp add: same_document_def staged_def schema_rejects_def)

lemma request_then_replay:
  assumes "request_operation input a = (Inr c, a')" and "g_changed c" and same: "same_document (ld_map a) (ld_map b)"
    and "overlay_ok (dm_overlay (ld_map a))" "safe_overlay (dm_overlay (ld_map a))" "raw_ok input"
    and free: "k_owner (ld_controller b) = None"
  shows "\<exists>b'. replay_livemap_document_commit (recorded_commit c) b = (Inr c, b') \<and>
    same_document (ld_map a') (ld_map b') \<and> k_owner (ld_controller b') = None"
  using assms(1)
proof (cases rule: request_cases)
  case same
  then show ?thesis using assms(2) by blast
next
  case (advances candidate l)
  have "prepare_document_graph_operation (dm_root (ld_map b)) (dm_mode (ld_map b)) (dm_overlay (ld_map b))
      (recorded_operation (m_operation candidate)) = Inr candidate"
    using replay_any [OF assms(4,5) advances(1) assms(6)] same by (simp add: same_document_def)
  from replay_candidate [OF this same_staged [OF same advances(2)] free] show ?thesis
    using advances same free
    by (simp add: same_document_def advanced_def emit_commit_def invalidate_transitions_def next_generation_def)
qed

section \<open>Streams of commits\<close>

text \<open>The changed commits a list of requests publishes, and their replay in order.\<close>

fun request_run :: "raw_op list \<Rightarrow> live_document \<Rightarrow> graph_commit list \<times> live_document" where
  "request_run [] ld = ([], ld)"
| "request_run (input # inputs) ld =
     (case request_operation input ld of
        (r, ld1) \<Rightarrow>
          (case request_run inputs ld1 of
             (cs, ld2) \<Rightarrow> ((case r of Inr c \<Rightarrow> if g_changed c then [c] else [] | Inl e \<Rightarrow> []) @ cs, ld2)))"

fun replay_run :: "graph_commit list \<Rightarrow> live_document \<Rightarrow> (core_error + unit) \<times> live_document" where
  "replay_run [] ld = (Inr (), ld)"
| "replay_run (c # cs) ld =
     (case replay_livemap_document_commit (recorded_commit c) ld of
        (Inl e, ld1) \<Rightarrow> (Inl e, ld1)
      | (Inr c', ld1) \<Rightarrow> replay_run cs ld1)"

text \<open>Every state a run of requests passes through keeps its identity paths at safe-integer indexes.\<close>

fun safe_run :: "raw_op list \<Rightarrow> live_document \<Rightarrow> bool" where
  "safe_run [] ld = safe_overlay (dm_overlay (ld_map ld))"
| "safe_run (input # inputs) ld =
     (safe_overlay (dm_overlay (ld_map ld)) \<and> safe_run inputs (snd (request_operation input ld)))"

definition live_ok :: "document_map \<Rightarrow> bool" where
  "live_ok m \<longleftrightarrow> document_ok (dm_root m) (dm_mode m) (dm_overlay m) \<and>
     set (livemap_document_identity_quids (dm_overlay m)) \<subseteq> set (epoch_issued (dm_epoch m)) \<and>
     ledger_ok (epoch_issued (dm_epoch m))"

lemma live_overlay_ok: "live_ok m \<Longrightarrow> overlay_ok (dm_overlay m)"
  by (simp add: live_ok_def document_ok_def)

lemma request_keeps_live:
  assumes "request_operation input ld = (r, ld')" and "live_ok (ld_map ld)"
  shows "live_ok (ld_map ld')"
  using assms(1)
proof (cases rule: request_cases)
  case (advances candidate l)
  have "document_ok (m_root candidate) (dm_mode (ld_map ld)) (m_overlay candidate)"
    using prepared_ok [OF _ advances(1)] assms(2) by (simp add: live_ok_def)
  moreover have "set (livemap_document_identity_quids (m_overlay candidate)) \<subseteq> set l \<and> ledger_ok l"
    using advances(2) stage_Inr by (fastforce simp: staged_def)
  ultimately show ?thesis by (simp add: advances live_ok_def advanced_def emit_commit_def)
qed (use assms in simp)

lemma unchanged_same: "same_document a b \<Longrightarrow> a' = a \<Longrightarrow> same_document a' b"
  by simp

lemma replicas_converge:
  assumes "live_ok (ld_map a)" and "same_document (ld_map a) (ld_map b)" and "k_owner (ld_controller b) = None"
    and "list_all raw_ok inputs" and "safe_run inputs a"
  shows "\<exists>b'. replay_run (fst (request_run inputs a)) b = (Inr (), b') \<and>
    same_document (ld_map (snd (request_run inputs a))) (ld_map b')"
  using assms
proof (induction inputs arbitrary: a b)
  case (Cons input inputs)
  obtain r a1 where r: "request_operation input a = (r, a1)" by (cases "request_operation input a")
  obtain cs a2 where run: "request_run inputs a1 = (cs, a2)" by (cases "request_run inputs a1")
  have live: "live_ok (ld_map a1)" using request_keeps_live [OF r] Cons.prems(1) by simp
  have rest: "list_all raw_ok inputs" "safe_run inputs a1" using Cons.prems(4,5) r by auto
  show ?case
  proof (cases "\<exists>c. r = Inr c \<and> g_changed c")
    case True
    then obtain c where c: "r = Inr c" "g_changed c" by blast
    have "raw_ok input" "safe_overlay (dm_overlay (ld_map a))" using Cons.prems(4,5) by auto
    from request_then_replay [OF r [unfolded c(1)] c(2) Cons.prems(2) live_overlay_ok [OF Cons.prems(1)] this(2,1) Cons.prems(3)]
    obtain b1 where b1: "replay_livemap_document_commit (recorded_commit c) b = (Inr c, b1)"
      "same_document (ld_map a1) (ld_map b1)" "k_owner (ld_controller b1) = None" by blast
    from Cons.IH [OF live b1(2,3) rest] show ?thesis by (simp add: r run c b1(1))
  next
    case False
    have "ld_map a1 = ld_map a" using r False by (cases rule: request_cases) auto
    then have "same_document (ld_map a1) (ld_map b)" using Cons.prems(2) by simp
    from Cons.IH [OF live this Cons.prems(3) rest] False show ?thesis
      by (auto simp: r run split: sum.splits)
  qed
qed simp

text \<open>
  C1: replicas converge. Two live documents start in the same state. One serves any list of requests,
  by path or by identity, some of which may fail or change nothing; the commits it publishes, recorded
  as data and replayed in order by the other, are all accepted there and leave it with the same root,
  identity overlay, revision and ledger of issued identities.
\<close>

theorem replayed_commits_converge:
  assumes "live_ok (ld_map a)" and "same_document (ld_map a) (ld_map b)" and "k_owner (ld_controller b) = None"
    and "list_all raw_ok inputs" and "safe_run inputs a"
  shows "\<exists>b'. replay_run (fst (request_run inputs a)) b = (Inr (), b') \<and>
    same_document (ld_map (snd (request_run inputs a))) (ld_map b')"
  by (rule replicas_converge [OF assms])

section \<open>Retired identities\<close>

text \<open>
  Every operation on a live document: requests, replays, installs and restores of captures, the
  attachment of a schema and the claims of an owner.
\<close>

datatype document_step =
    RequestStep raw_op
  | ReplayStep replay_input
  | InstallStep capture_input install_options
  | RestoreStep capture_input install_options
  | SchemaStep "nat \<times> (hson_node \<Rightarrow> bool)"
  | ManageStep nat
  | UnmanageStep nat

fun step_document :: "document_step \<Rightarrow> live_document \<Rightarrow> live_document" where
  "step_document (RequestStep input) ld = snd (request_operation input ld)"
| "step_document (ReplayStep input) ld = snd (replay_livemap_document_commit input ld)"
| "step_document (InstallStep input options) ld = snd (install_livemap_document_capture input options ld)"
| "step_document (RestoreStep input options) ld = snd (restore_livemap_document_capture input options ld)"
| "step_document (SchemaStep schema) ld = snd (use_document_schema schema ld)"
| "step_document (ManageStep owner) ld =
     (case claim_management owner (ld_controller ld) of Inl e \<Rightarrow> ld | Inr k \<Rightarrow> ld\<lparr> ld_controller := k \<rparr>)"
| "step_document (UnmanageStep owner) ld = ld\<lparr> ld_controller := release_management owner (ld_controller ld) \<rparr>"

fun restores_identity :: "document_step \<Rightarrow> bool" where
  "restores_identity (InstallStep input options) = (options_identity options = Some SameEpoch)"
| "restores_identity (RestoreStep input options) = (options_identity options = Some SameEpoch)"
| "restores_identity _ = False"

definition document_steps :: "document_step list \<Rightarrow> live_document \<Rightarrow> live_document" where
  "document_steps steps ld = foldl (\<lambda>d s. step_document s d) ld steps"

abbreviation active :: "document_map \<Rightarrow> js_string set" where
  "active m \<equiv> set (livemap_document_identity_quids (dm_overlay m))"

abbreviation issued :: "document_map \<Rightarrow> js_string set" where
  "issued m \<equiv> set (epoch_issued (dm_epoch m))"

text \<open>
  What a step does to the identities, the mode and the owner being fixed: a new epoch, or the same epoch with a ledger that keeps its
  entries and no entry that becomes active again.
\<close>

definition epoch_step :: "document_map \<Rightarrow> document_map \<Rightarrow> bool" where
  "epoch_step m m' \<longleftrightarrow>
     dm_mode m' = dm_mode m \<and> epoch_owner (dm_epoch m') = epoch_owner (dm_epoch m) \<and>
     (epoch_current (dm_epoch m) < epoch_current (dm_epoch m') \<or>
      epoch_current (dm_epoch m) = epoch_current (dm_epoch m') \<and> issued m \<subseteq> issued m' \<and>
        active m' \<inter> issued m \<subseteq> active m) \<and>
     (ledger_ok (epoch_issued (dm_epoch m)) \<longrightarrow> ledger_ok (epoch_issued (dm_epoch m')))"

lemma epoch_step_refl [simp]: "epoch_step m m"
  by (simp add: epoch_step_def)

lemma epoch_step_trans: "epoch_step m1 m2 \<Longrightarrow> epoch_step m2 m3 \<Longrightarrow> epoch_step m1 m3"
  unfolding epoch_step_def by auto

lemma stage_epoch_step:
  "stage_livemap_identity_epoch (epoch_issued (dm_epoch m)) (livemap_document_identity_quids (dm_overlay m))
     (livemap_document_identity_quids ov) = Inr l \<Longrightarrow> epoch_step m (advanced m root ov revision l)"
  using stage_Inr by (fastforce simp: epoch_step_def advanced_def)

lemma epoch_step_emit [simp]: "epoch_step m (emit_commit c origin m') \<longleftrightarrow> epoch_step m m'"
  by (simp add: epoch_step_def emit_commit_def)

lemma request_epoch_step:
  assumes "request_operation input ld = (r, ld')"
  shows "epoch_step (ld_map ld) (ld_map ld')"
  using assms
proof (cases rule: request_cases)
  case (advances candidate l)
  then show ?thesis by (auto simp: staged_def intro: stage_epoch_step)
qed simp

lemma apply_install_step:
  "epoch_step (ld_map ld) (ld_map (snd (apply_install candidate NewEpochContinuity ld)))"
proof -
  let ?m = "ld_map ld"
  have run: "epoch_step ?m (ld_map ld')"
    if "run_document_transition commit (\<lambda>s. install_owned root ov r (epoch_replace qs (dm_epoch s)) s) ld = (res, ld')"
    for commit root ov r qs res ld'
    using owned_run [OF that]
    by (auto simp: epoch_step_def emit_commit_def dest: epoch_replace_Inr split: sum.splits)
  show ?thesis
    by (auto simp: apply_install_def Let_def split: sum.splits intro!: run prod.collapse [symmetric])
qed

lemma restore_install_step:
  "epoch_step (ld_map ld) (ld_map (snd (restore_install candidate revision NewEpochContinuity ld)))"
  by (auto simp: restore_install_def Let_def epoch_step_def dest: epoch_replace_Inr split: sum.splits)

lemma admit_new_epoch:
  assumes "admit_capture input options m = Inr (candidate, revision, cont)" and "options_identity options \<noteq> Some SameEpoch"
  shows "cont = NewEpochContinuity"
  using assms by (auto simp: admit_capture_def validate_livemap_document_admission_def install_identity_def rbind_Inr_iff
      split: option.splits identity_policy.splits if_splits)

section \<open>Replays\<close>

definition staging_ok :: "document_map \<Rightarrow> staged_replay \<Rightarrow> bool" where
  "staging_ok m st \<longleftrightarrow> issued m \<subseteq> set (s_ledger st) \<and>
     set (livemap_document_identity_quids (s_overlay st)) \<inter> issued m \<subseteq> active m \<and>
     (ledger_ok (epoch_issued (dm_epoch m)) \<longrightarrow> ledger_ok (s_ledger st))"

lemma replay_step_ok:
  assumes "replay_step mode envelope index input st = Inr st'" and "staging_ok m st" and "\<forall>a b. input \<noteq> ReplayRoot a b"
  shows "staging_ok m st'"
  using assms stage_Inr
  by (fastforce simp: replay_step_def staging_ok_def split: replay_op.splits sum.splits if_splits epoch_error.splits)

lemma replay_steps_ok:
  "replay_steps mode envelope index inputs st = Inr st' \<Longrightarrow> staging_ok m st \<Longrightarrow>
    (\<forall>a b. ReplayRoot a b \<notin> set inputs) \<Longrightarrow> staging_ok m st'"
proof (induction inputs arbitrary: index st)
  case (Cons input inputs)
  then obtain st1 where st1: "replay_step mode envelope index input st = Inr st1"
    "replay_steps mode envelope (Suc index) inputs st1 = Inr st'" by (auto simp: rbind_Inr_iff)
  have "staging_ok m st1" using replay_step_ok [OF st1(1) Cons.prems(2)] Cons.prems(3) by auto
  then show ?case using Cons.IH [OF st1(2)] Cons.prems(3) by simp
qed simp

lemma replay_root_alone:
  "replay_steps mode envelope index inputs st = Inr st' \<Longrightarrow> ReplayRoot a b \<in> set inputs \<Longrightarrow> length (e_ops envelope) = 1"
  by (induction inputs arbitrary: index st) (auto simp: rbind_Inr_iff replay_step_def split: if_splits)

lemma replay_epoch_step:
  "epoch_step (ld_map ld) (ld_map (snd (replay_livemap_document_commit input ld)))"
proof -
  let ?m = "ld_map ld"
  let ?start = "\<lparr> s_root = dm_root ?m, s_overlay = dm_overlay ?m, s_ledger = epoch_issued (dm_epoch ?m), s_ops = [],
    s_effects = [] \<rparr>"
  have applied: "epoch_step ?m (ld_map (snd (apply_replay st commit ld)))"
    if "\<not> replaces_root (g_ops commit) \<Longrightarrow> staging_ok ?m st" for st commit
    using that
    by (auto simp: apply_replay_def Let_def epoch_step_def staging_ok_def emit_commit_def epoch_install_Inr
        dest: epoch_replace_Inr split: sum.splits)
  have staged: "staging_ok ?m st"
    if steps: "replay_steps mode envelope 0 (e_ops envelope) ?start = Inr st" and "\<not> replaces_root (s_ops st)" for mode envelope st
  proof (cases "\<exists>a b. ReplayRoot a b \<in> set (e_ops envelope)")
    case True
    then obtain a b where ab: "ReplayRoot a b \<in> set (e_ops envelope)" by blast
    with replay_root_alone [OF steps ab] have "e_ops envelope = [ReplayRoot a b]"
      by (auto simp: length_Suc_conv)
    then have "replaces_root (s_ops st)"
      using steps by (auto simp: replay_step_def replaces_root_def split: option.splits sum.splits)
    then show ?thesis using that by simp
  next
    case False
    then show ?thesis using replay_steps_ok [OF steps, of ?m] by (auto simp: staging_ok_def)
  qed
  show ?thesis
    unfolding replay_livemap_document_commit_def Let_def
    by (auto split: sum.splits intro!: applied staged)
qed

lemma step_epoch_step: "\<not> restores_identity st \<Longrightarrow> epoch_step (ld_map ld) (ld_map (step_document st ld))"
proof (cases st)
  case (RequestStep input)
  then show ?thesis using request_epoch_step [of input ld] by (cases "request_operation input ld") auto
next
  case (InstallStep input options)
  assume "\<not> restores_identity st"
  then show ?thesis
    using InstallStep apply_install_step
    by (auto simp: install_livemap_document_capture_def split: sum.splits dest!: admit_new_epoch)
next
  case (RestoreStep input options)
  assume "\<not> restores_identity st"
  then show ?thesis
    using RestoreStep restore_install_step
    by (auto simp: restore_livemap_document_capture_def split: sum.splits dest!: admit_new_epoch)
next
  case (ReplayStep input)
  then show ?thesis by (simp add: replay_epoch_step)
qed (auto simp: use_document_schema_def Let_def epoch_step_def split: sum.splits)

lemma steps_epoch_step:
  "list_all (\<lambda>st. \<not> restores_identity st) steps \<Longrightarrow> epoch_step (ld_map ld) (ld_map (document_steps steps ld))"
  unfolding document_steps_def
proof (induction steps arbitrary: ld)
  case (Cons st steps)
  then have "epoch_step (ld_map ld) (ld_map (step_document st ld))" using step_epoch_step by simp
  then show ?case using Cons.IH [of "step_document st ld"] Cons.prems epoch_step_trans by auto
qed simp

text \<open>
  Steps of every kind, same-epoch captures included: the epoch never goes back, and within one epoch
  the ledger keeps its entries.
\<close>

definition epoch_grows :: "document_map \<Rightarrow> document_map \<Rightarrow> bool" where
  "epoch_grows m m' \<longleftrightarrow>
     dm_mode m' = dm_mode m \<and> epoch_owner (dm_epoch m') = epoch_owner (dm_epoch m) \<and>
     (epoch_current (dm_epoch m) < epoch_current (dm_epoch m') \<or>
      epoch_current (dm_epoch m) = epoch_current (dm_epoch m') \<and> issued m \<subseteq> issued m') \<and>
     (ledger_ok (epoch_issued (dm_epoch m)) \<longrightarrow> ledger_ok (epoch_issued (dm_epoch m')))"

lemma epoch_grows_refl [simp]: "epoch_grows m m"
  by (simp add: epoch_grows_def)

lemma epoch_grows_trans: "epoch_grows m1 m2 \<Longrightarrow> epoch_grows m2 m3 \<Longrightarrow> epoch_grows m1 m3"
  unfolding epoch_grows_def by auto

lemma epoch_step_grows: "epoch_step m m' \<Longrightarrow> epoch_grows m m'"
  by (auto simp: epoch_step_def epoch_grows_def)

lemma apply_install_grows: "epoch_grows (ld_map ld) (ld_map (snd (apply_install candidate cont ld)))"
proof (cases "cont = SameEpochContinuity")
  case True
  have run: "epoch_grows (ld_map ld) (ld_map ld')"
    if "run_document_transition commit (\<lambda>s. install_owned root ov r (epoch_install l (dm_epoch s)) s) ld = (res, ld')"
      "retain_livemap_identity_epoch (epoch_issued (dm_epoch (ld_map ld))) qs = Inr l"
    for commit root ov r qs l res ld'
    using owned_run [OF that(1)] retain_Inr [OF that(2)]
    by (auto simp: epoch_grows_def emit_commit_def epoch_install_Inr)
  show ?thesis
    using True
    by (auto simp: apply_install_def Let_def map_sum_def split: sum.splits intro!: run prod.collapse [symmetric])
next
  case False
  then have "cont = NewEpochContinuity" by (cases cont) simp_all
  then show ?thesis using epoch_step_grows [OF apply_install_step] by simp
qed

lemma restore_install_grows: "epoch_grows (ld_map ld) (ld_map (snd (restore_install candidate revision cont ld)))"
proof (cases "cont = NewEpochContinuity")
  case True
  then show ?thesis using epoch_step_grows [OF restore_install_step] by simp
next
  case False
  then show ?thesis
    by (auto simp: restore_install_def Let_def epoch_grows_def rbind_Inr_iff epoch_install_Inr dest!: retain_Inr split: sum.splits)
qed

lemma step_grows: "epoch_grows (ld_map ld) (ld_map (step_document st ld))"
proof (cases "restores_identity st")
  case False
  then show ?thesis using epoch_step_grows [OF step_epoch_step] by blast
next
  case True
  then show ?thesis
    using apply_install_grows restore_install_grows
    by (cases st) (auto simp: install_livemap_document_capture_def restore_livemap_document_capture_def split: sum.splits)
qed

lemma steps_grow: "epoch_grows (ld_map ld) (ld_map (document_steps steps ld))"
  unfolding document_steps_def
proof (induction steps arbitrary: ld)
  case (Cons st steps)
  show ?case using epoch_grows_trans [OF step_grows [of ld st]] Cons.IH [of "step_document st ld"] by simp
qed simp

text \<open>
  C2: a retired identity is never used again. Within one identity epoch, whatever requests, replays,
  installs, restores and claims follow each other, an identity that has been issued and is no longer
  active does not become active again and stays issued, unless a capture is explicitly admitted as
  same-epoch identity.
\<close>

theorem retired_identity_stays_retired:
  assumes "list_all (\<lambda>st. \<not> restores_identity st) steps"
    and "epoch_current (dm_epoch (ld_map (document_steps steps ld))) = epoch_current (dm_epoch (ld_map ld))"
    and "q \<in> set (epoch_issued (dm_epoch (ld_map ld)))"
    and "q \<notin> set (livemap_document_identity_quids (dm_overlay (ld_map ld)))"
  shows "q \<in> set (epoch_issued (dm_epoch (ld_map (document_steps steps ld)))) \<and>
    q \<notin> set (livemap_document_identity_quids (dm_overlay (ld_map (document_steps steps ld))))"
  using steps_epoch_step [OF assms(1), of ld] assms(2-4) by (auto simp: epoch_step_def)

section \<open>Concrete runs\<close>

abbreviation insert_br :: raw_op where
  "insert_br \<equiv> RawInsertContent root_path_request (IntArg 0) (ItemNode (bare_node (js ''br'') []))"

definition sample_live :: "ledger \<Rightarrow> live_document" where
  "sample_live l =
     \<lparr> ld_controller = new_controller FragmentMode,
       ld_map = \<lparr> dm_mode = FragmentMode, dm_root = leaf_fragment [js ''p'', js ''hr''], dm_overlay = empty_overlay,
         dm_rev = 0, dm_epoch = \<lparr> epoch_owner = 0, epoch_current = 0, epoch_issued = l \<rparr>, dm_schema = None, dm_events = [] \<rparr> \<rparr>"

lemma sample_live_simps [simp]:
  "dm_mode (ld_map (sample_live l)) = FragmentMode"
  "dm_root (ld_map (sample_live l)) = leaf_fragment [js ''p'', js ''hr'']"
  "dm_overlay (ld_map (sample_live l)) = empty_overlay" "dm_rev (ld_map (sample_live l)) = 0"
  "epoch_issued (dm_epoch (ld_map (sample_live l))) = l" "epoch_current (dm_epoch (ld_map (sample_live l))) = 0"
  "k_owner (ld_controller (sample_live l)) = None" "dm_schema (ld_map (sample_live l)) = None"
  by (simp_all add: sample_live_def new_controller_def)

lemma empty_quids [simp]: "livemap_document_identity_quids empty_overlay = []"
  by (simp add: livemap_document_identity_quids_def empty_overlay_def)

lemma sample_live_ok: "ledger_ok l \<Longrightarrow> live_ok (ld_map (sample_live l))"
  using witness_fragment_ok by (simp add: live_ok_def)

lemma stage_empty: "ledger_ok l \<Longrightarrow> \<exists>l'. stage_livemap_identity_epoch l [] [] = Inr l'"
  by (rule stage_total) (auto simp: list_all_iff)

lemma leaf_fragments_differ:
  "canonical_hson_graph_equal (leaf_fragment [js ''p'', js ''hr'']) (leaf_fragment [js ''br'', js ''p'', js ''hr'']) = Inr False"
  "canonical_hson_graph_equal (leaf_fragment [js ''p'', js ''hr'']) (leaf_fragment [js ''p'', js ''hr'']) = Inr True"
  by (subst graph_equal_result; simp add: leaf_fragment_def leaf_elements_def)+

lemma sample_insert:
  assumes "ledger_ok l" "request_operation insert_br (sample_live l) = (r, ld')"
  shows "dm_root (ld_map ld') = leaf_fragment [js ''br'', js ''p'', js ''hr''] \<and> dm_overlay (ld_map ld') = empty_overlay \<and>
    dm_rev (ld_map ld') = 1 \<and> epoch_current (dm_epoch (ld_map ld')) = 0 \<and> k_owner (ld_controller ld') = None \<and>
    dm_schema (ld_map ld') = None"
proof -
  obtain m where m: "prepare_graph_operation (leaf_fragment [js ''p'', js ''hr'']) FragmentMode empty_overlay insert_br RequestAuthority = Inr m"
    "m_root m = leaf_fragment [js ''br'', js ''p'', js ''hr'']" "m_overlay m = empty_overlay"
    using inserted_leaf by blast
  obtain l' where l': "stage_livemap_identity_epoch l [] [] = Inr l'" using stage_empty [OF assms(1)] by blast
  then have "set l \<subseteq> set l'" using stage_Inr by fastforce
  then have inst: "epoch_install l' \<lparr> epoch_owner = 0, epoch_current = 0, epoch_issued = l \<rparr> =
      Inr \<lparr> epoch_owner = 0, epoch_current = 0, epoch_issued = l' \<rparr>"
    by (simp add: epoch_install_Inr)
  show ?thesis
    using assms(2) m l' inst
    by (auto simp del: prepare_graph_operation.simps simp: request_operation_def Let_def apply_mutation_def assert_public_mutation_allowed_def
        schema_rejects_def leaf_fragments_differ run_document_transition_def prepare_transition_def accept_transition_def
        record_for_def install_owned_def emit_commit_def
        set_transition_state_def next_generation_def sample_live_def new_controller_def)
qed

theorem replayed_commits_converge_witness:
  "\<exists>b'. replay_run (fst (request_run [insert_br] (sample_live []))) (sample_live []) = (Inr (), b') \<and>
    dm_root (ld_map b') = leaf_fragment [js ''br'', js ''p'', js ''hr''] \<and> dm_rev (ld_map b') = 1"
proof -
  obtain r ld' where r: "request_operation insert_br (sample_live []) = (r, ld')"
    by (cases "request_operation insert_br (sample_live [])")
  have after: "dm_root (ld_map ld') = leaf_fragment [js ''br'', js ''p'', js ''hr'']" "dm_overlay (ld_map ld') = empty_overlay"
    "dm_rev (ld_map ld') = 1"
    using sample_insert [OF _ r] by simp_all
  have safe: "safe_overlay empty_overlay" by (simp add: safe_overlay_def empty_overlay_def)
  from replayed_commits_converge [of "sample_live []" "sample_live []" "[insert_br]"] show ?thesis
    using after safe sample_live_ok [of "[]"] by (auto simp: r same_document_def)
qed

abbreviation sample_quid :: js_string where
  "sample_quid \<equiv> js ''000000000''"

theorem retired_identity_stays_retired_witness:
  "\<exists>l. sample_quid \<in> set l \<and>
    sample_quid \<in> set (epoch_issued (dm_epoch (ld_map (document_steps [RequestStep insert_br] (sample_live l))))) \<and>
    sample_quid \<notin> set (livemap_document_identity_quids (dm_overlay (ld_map (document_steps [RequestStep insert_br] (sample_live l)))))"
proof -
  have q: "is_persisted_quid (PStr sample_quid)" by (simp add: is_persisted_quid_def PERSISTED_QUID_LENGTH_def PERSISTED_QUID_ALPHABET_def js_def)
  obtain r ld' where r: "request_operation insert_br (sample_live [sample_quid]) = (r, ld')"
    by (cases "request_operation insert_br (sample_live [sample_quid])")
  have "epoch_current (dm_epoch (ld_map (document_steps [RequestStep insert_br] (sample_live [sample_quid])))) = 0"
    using sample_insert [OF _ r] q by (simp add: document_steps_def r)
  from retired_identity_stays_retired [of "[RequestStep insert_br]" "sample_live [sample_quid]" sample_quid] this
  show ?thesis by (intro exI [of _ "[sample_quid]"]) simp
qed

end
