(* ===== verification/Capture_Laws.thy ===== *)
theory Capture_Laws
  imports Document_Core_Laws
begin

text \<open>
  Same-epoch captures: their admission after any steps within the epoch, and what they restore.
\<close>

section \<open>Captures\<close>

lemma rules_index_ordered:
  "rules_hold (occurrences parent n) \<Longrightarrow> index_ordered n"
  "rules_hold (item_occurrences parent items) \<Longrightarrow> \<forall>it \<in> set items. item_ordered it"
proof (induction parent n and parent items rule: occurrences_item_occurrences.induct)
  case (1 parent tag attrs meta content)
  then have "node_rule parent (HsonNode tag attrs meta content)" by simp
  then have "tag = ARR_TAG \<Longrightarrow> \<forall>i < length content. indexed_as (content ! i) i"
    by (simp add: node_rule_def shape_rule_def Let_def)
  then show ?case using 1 by simp
qed auto

lemma invariants_normalized: "assert_invariants n = Inr u \<Longrightarrow> normalize_hson_array_index_order n = Inr n"
  by (auto simp: assert_invariants_Inr invariant_issues_Nil intro!: normalize_fixed(1) rules_index_ordered(1))

text \<open>The scan of a document that is in order succeeds and agrees with its overlay.\<close>

lemma document_scan:
  assumes "document_ok root mode ov"
  obtains ex where "build_livemap_document_identity_overlay root mode = Inr ex" "overlay_ok ex"
    "set (quid_to_path ex) = set (quid_to_path ov)"
proof -
  obtain ex where ex: "build_livemap_document_identity_overlay root mode = Inr ex"
    "length (quid_to_path ov) = length (quid_to_path ex)"
    "list_all (\<lambda>(q, p). (case path_for_quid ov q of None \<Rightarrow> False | Some p' \<Rightarrow> document_path_equal p' p) \<and>
       quid_at_path ov p = Some q) (quid_to_path ex)"
    using assms by (auto simp: document_ok_def assert_livemap_document_identity_overlay_def rbind_Inr_iff split: if_splits)
  have ok: "overlay_ok ov" and root: "is_Node (ItemNode root)" using assms by (auto simp: document_ok_def)
  have ok': "overlay_ok ex"
  proof (cases "mode = FragmentMode \<and> tag_of root = ROOT_TAG \<and> content_of root = []")
    case True
    then have "ex = empty_overlay"
      using ex(1) by (auto simp: build_livemap_document_identity_overlay_def rbind_Inr_iff visit_identity_def identity_frames_def
          split: sum.splits option.splits)
    then show ?thesis by simp
  next
    case False
    then obtain b where "document_path_base root mode = Inr b"
      using ex(1) by (auto simp: build_livemap_document_identity_overlay_def resolve_document_path_def rbind_Inr_iff
          split: sum.splits)
    from build_overlay_result [OF this root] show ?thesis using ex(1) by simp
  qed
  have sub: "set (quid_to_path ex) \<subseteq> set (quid_to_path ov)"
    using ex(3) overlay_lookups [OF ok] by (fastforce simp: list_all_iff overlay_pairs_def)
  moreover have "card (set (quid_to_path ex)) = card (set (quid_to_path ov))"
    using overlay_card [OF ok] overlay_card [OF ok'] ex(2) by (simp add: overlay_pairs_def)
  ultimately have "set (quid_to_path ex) = set (quid_to_path ov)" by (metis card_subset_eq List.finite_set)
  then show thesis using that ex(1) ok' by blast
qed

lemma mode_name_inject: "mode_name a = mode_name b \<longleftrightarrow> a = b"
  by (cases a; cases b) (auto simp: mode_name_def)

lemma retain_total:
  "set qs \<subseteq> set current \<Longrightarrow> \<forall>q \<in> set qs. is_persisted_quid (PStr q) \<Longrightarrow> retain_livemap_identity_epoch current qs = Inr current"
  using collect_quids_total [of qs "[]"] collect_quids_Inr [of "[]" qs]
  by (fastforce simp: retain_livemap_identity_epoch_def validated_quid_set_def list_all_iff rbind_def)

lemma capture_admitted:
  assumes ok: "live_ok m" and sound: "node_sound (dm_root m)"
    and cap: "capture_livemap_document (dm_epoch m) (dm_mode m) (dm_rev m) (dm_root m) (Some SameEpoch) = Inr input"
    and later: "epoch_grows m m'" "epoch_current (dm_epoch m') = epoch_current (dm_epoch m)"
  obtains candidate where
    "admit_capture input (InstallOptions None (Some SameEpoch)) m' = Inr (candidate, dm_rev m, SameEpochContinuity)"
    "pi_root candidate = dm_root m" "set (quid_to_path (pi_overlay candidate)) = set (quid_to_path (dm_overlay m))"
    "overlay_ok (pi_overlay candidate)"
    "build_livemap_document_identity_overlay (dm_root m) (dm_mode m) = Inr (pi_overlay candidate)"
proof -
  have d: "document_ok (dm_root m) (dm_mode m) (dm_overlay m)" using ok by (simp add: live_ok_def)
  have doc: "is_Node (ItemNode (dm_root m))" "is_document_mode (dm_mode m)" "classify_live_root_mode (dm_root m) = Inr (dm_mode m)"
    using d by (auto simp: document_ok_def)
  have norm: "normalize_hson_array_index_order (dm_root m) = Inr (dm_root m)"
    using classify_invariants [OF doc(3)] invariants_normalized by blast
  obtain ex where ex: "build_livemap_document_identity_overlay (dm_root m) (dm_mode m) = Inr ex" "overlay_ok ex"
    "set (quid_to_path ex) = set (quid_to_path (dm_overlay m))" using document_scan [OF d] .
  have same: "compare_node detect_ordering (dm_root m) (dm_root m) (js ''$'') = Inr None"
    using compare_decides(1) [OF detect_ordering_careful sound sound, of "js ''$''"] by (auto simp: decides_def)
  have mode: "mode_name (dm_mode m) = mode_name ElementMode \<or> mode_name (dm_mode m) = mode_name FragmentMode"
    using doc(2) by (auto simp: is_document_mode_def)
  let ?c = "\<lparr> pi_mode = dm_mode m, pi_root = dm_root m, pi_overlay = ex \<rparr>"
  have "admit_capture input (InstallOptions None (Some SameEpoch)) m' = Inr (?c, dm_rev m, SameEpochContinuity)"
    using cap later doc norm ex same mode
    by (auto simp: capture_livemap_document_def capture_category_of_def admit_capture_def assert_install_options_def
        assert_capture_object_def validate_livemap_document_admission_def install_identity_def options_identity_def
        prepare_document_install_def num_arg_revision_nat epoch_grows_def mode_name_inject Let_def simp del: is_Node.simps)
  then show thesis by (rule that) (use ex in simp_all)
qed

text \<open>
  C12: a same-epoch capture restores the document it was taken from. However requests, replays,
  installs, restores and claims change the document in the meantime, installs and restores of other
  same-epoch captures included, as long as they end in the same epoch, restoring the capture succeeds
  and brings back the root, the revision and the identities, with the ledger of issued identities as it
  is now.
\<close>

theorem same_epoch_capture_restores:
  assumes "live_ok (ld_map d)" and "node_sound (dm_root (ld_map d))"
    and "capture_document (Some SameEpoch) d = Inr input"
    and "epoch_current (dm_epoch (ld_map (document_steps steps d))) = epoch_current (dm_epoch (ld_map d))"
    and "k_owner (ld_controller (document_steps steps d)) = None"
    and "\<not> schema_rejects (ld_map (document_steps steps d)) (dm_root (ld_map d))"
  shows "\<exists>d'. restore_livemap_document_capture input (InstallOptions None (Some SameEpoch)) (document_steps steps d) = (Inr (), d') \<and>
    dm_root (ld_map d') = dm_root (ld_map d) \<and> dm_rev (ld_map d') = dm_rev (ld_map d) \<and>
    set (quid_to_path (dm_overlay (ld_map d'))) = set (quid_to_path (dm_overlay (ld_map d))) \<and>
    dm_epoch (ld_map d') = dm_epoch (ld_map (document_steps steps d)) \<and> live_ok (ld_map d')"
proof -
  let ?now = "document_steps steps d"
  have later: "epoch_grows (ld_map d) (ld_map ?now)" by (rule steps_grow)
  from capture_admitted [OF assms(1,2) _ later assms(4)] assms(3) obtain candidate where c:
    "admit_capture input (InstallOptions None (Some SameEpoch)) (ld_map ?now) = Inr (candidate, dm_rev (ld_map d), SameEpochContinuity)"
    "pi_root candidate = dm_root (ld_map d)" "set (quid_to_path (pi_overlay candidate)) = set (quid_to_path (dm_overlay (ld_map d)))"
    "overlay_ok (pi_overlay candidate)"
    "build_livemap_document_identity_overlay (dm_root (ld_map d)) (dm_mode (ld_map d)) = Inr (pi_overlay candidate)"
    by (auto simp: capture_document_def Let_def)
  let ?qs = "livemap_document_identity_quids (pi_overlay candidate)"
  have qs: "set ?qs = active (ld_map d)" using c(3) by (simp add: livemap_document_identity_quids_def)
  have sub: "set ?qs \<subseteq> issued (ld_map ?now)"
    using later assms(1,4) qs by (auto simp: epoch_grows_def live_ok_def)
  have "\<forall>q \<in> set ?qs. is_persisted_quid (PStr q)"
    using assms(1) qs by (auto simp: live_ok_def list_all_iff)
  then have keep: "retain_livemap_identity_epoch (epoch_issued (dm_epoch (ld_map ?now))) ?qs = Inr (epoch_issued (dm_epoch (ld_map ?now)))"
    using retain_total [OF sub] by blast
  have install: "epoch_install (epoch_issued e) e = Inr e" for e
    by (simp add: epoch_install_Inr)
  have lookups: "list_all (\<lambda>(q, p). (case path_for_quid (pi_overlay candidate) q of None \<Rightarrow> False
        | Some p' \<Rightarrow> document_path_equal p' p) \<and> quid_at_path (pi_overlay candidate) p = Some q)
      (quid_to_path (pi_overlay candidate))"
  proof (unfold list_all_iff, clarify)
    fix q p assume "(q, p) \<in> set (quid_to_path (pi_overlay candidate))"
    then show "(case path_for_quid (pi_overlay candidate) q of None \<Rightarrow> False | Some p' \<Rightarrow> document_path_equal p' p) \<and>
        quid_at_path (pi_overlay candidate) p = Some q"
      using overlay_lookups(1) [OF c(4), of q p] overlay_lookups(2) [OF c(4), of p q] by (simp add: overlay_pairs_def document_path_equal_iff)
  qed
  have ok: "document_ok (dm_root (ld_map d)) (dm_mode (ld_map d)) (pi_overlay candidate)"
    using assms(1) c(4,5) lookups
    by (auto simp: live_ok_def document_ok_def assert_livemap_document_identity_overlay_def)
  have live: "ledger_ok (epoch_issued (dm_epoch (ld_map ?now)))"
    using later assms(1) by (simp add: epoch_grows_def live_ok_def)
  show ?thesis
    using assms(5,6) c sub ok later live
    by (auto simp: restore_livemap_document_capture_def restore_install_def Let_def assert_public_mutation_allowed_def keep install
        live_ok_def epoch_grows_def)
qed

theorem same_epoch_capture_restores_witness:
  "\<exists>input d'. capture_document (Some SameEpoch) (sample_live []) = Inr input \<and>
    restore_livemap_document_capture input (InstallOptions None (Some SameEpoch))
      (document_steps [RequestStep insert_br] (sample_live [])) = (Inr (), d') \<and>
    dm_root (ld_map d') = leaf_fragment [js ''p'', js ''hr''] \<and> dm_rev (ld_map d') = 0"
proof -
  obtain r ld' where r: "request_operation insert_br (sample_live []) = (r, ld')"
    by (cases "request_operation insert_br (sample_live [])")
  note after = sample_insert [OF _ r, simplified]
  obtain input where input: "capture_document (Some SameEpoch) (sample_live []) = Inr input"
    by (auto simp: capture_document_def capture_livemap_document_def capture_category_of_def Let_def)
  have "node_sound (leaf_fragment [js ''p'', js ''hr''])" by (simp add: leaf_fragment_def leaf_elements_def)
  then show ?thesis
    using same_epoch_capture_restores [OF sample_live_ok _ input, of "[RequestStep insert_br]"] after input
    by (auto simp: document_steps_def r schema_rejects_def)
qed

end
