(* ===== verification/Transition_Laws.thy ===== *)
theory Transition_Laws
  imports Live_Transition
begin

text \<open>
  Laws of the transition controller: a log of installations and its invariant.
\<close>

definition log_entry_ok :: "('s \<Rightarrow> nat) \<Rightarrow> ('c, 's) controller \<Rightarrow> nat \<times> nat \<times> 's \<Rightarrow> bool" where
  "log_entry_ok revision k e =
     (case e of (token, gen, s) \<Rightarrow>
        token < length (k_records k) \<and> gen < k_generation k \<and>
        (let r = k_records k ! token in
          t_state r = AcceptedTransition \<and> t_changed r \<and> t_generation r = gen \<and> t_base r = revision s \<and> t_current r s))"

definition run_ok :: "('s \<Rightarrow> nat) \<Rightarrow> ('c, 's) controller_run \<Rightarrow> bool" where
  "run_ok revision x \<longleftrightarrow>
     sorted_wrt (<) (map (\<lambda>(token, gen, s). gen) (r_log x)) \<and> list_all (log_entry_ok revision (r_controller x)) (r_log x)"

text \<open>A controller with at least these records, in which accepted ones stay accepted, keeps every entry.\<close>

definition keeps_accepted :: "('c, 's) controller \<Rightarrow> ('c, 's) controller \<Rightarrow> bool" where
  "keeps_accepted k k' \<longleftrightarrow>
     k_generation k \<le> k_generation k' \<and> length (k_records k) \<le> length (k_records k') \<and>
     (\<forall>i < length (k_records k). t_state (k_records k ! i) = AcceptedTransition \<longrightarrow> k_records k' ! i = k_records k ! i)"

lemma keeps_entry: "keeps_accepted k k' \<Longrightarrow> log_entry_ok revision k e \<Longrightarrow> log_entry_ok revision k' e"
  by (auto simp: keeps_accepted_def log_entry_ok_def Let_def)

lemma keeps_entries:
  "keeps_accepted k k' \<Longrightarrow> list_all (log_entry_ok revision k) es \<Longrightarrow> list_all (log_entry_ok revision k') es"
  unfolding list_all_iff using keeps_entry by blast

lemma keeps_refl [simp]: "keeps_accepted k k"
  by (simp add: keeps_accepted_def)

lemma keeps_set_state:
  "k_records k ! token = r \<Longrightarrow> t_state r \<noteq> AcceptedTransition \<Longrightarrow> k_generation k \<le> k_generation k' \<Longrightarrow>
    k_records k' = (k_records k)[token := r'] \<Longrightarrow> keeps_accepted k k'"
  unfolding keeps_accepted_def by (metis length_list_update nth_list_update_neq order_refl)

lemma pending_state: "st \<noteq> AcceptedTransition \<Longrightarrow> st \<noteq> DiscardedTransition \<Longrightarrow> st = PendingTransition"
  by (cases st) auto

lemma accept_keeps:
  assumes "accept_transition revision token policy (k, s) = (result, k', s')"
  shows "keeps_accepted k k'"
proof (cases "token < length (k_records k) \<and> t_state (k_records k ! token) \<noteq> AcceptedTransition")
  case True
  then have "keeps_accepted k k'" if "k_generation k \<le> k_generation k'" "k_records k' = (k_records k)[token := r']" for r'
    using keeps_set_state that by blast
  then show ?thesis
    using assms by (auto simp: accept_transition_def record_for_def set_transition_state_def next_generation_def
        split: if_splits bool.splits prod.splits)
next
  case False
  then show ?thesis
    using assms by (cases "token < length (k_records k)") (auto simp: accept_transition_def record_for_def)
qed

lemma accept_installs:
  assumes "accept_transition revision token policy (k, s) = (result, k', s')" and "installs revision token k s"
  shows "log_entry_ok revision k' (token, k_generation k, s)"
  using assms by (auto simp: accept_transition_def installs_def record_for_def set_transition_state_def next_generation_def
      log_entry_ok_def Let_def split: if_splits bool.splits prod.splits)

lemma accept_not_installing:
  assumes "\<not> installs revision token k s" and "accept_transition revision token policy (k, s) = (result, k', s')"
  shows "s' = s \<or> result = AcceptFailed TransitionInvalid \<and> t_state (k_records k' ! token) = DiscardedTransition \<and>
    k_generation k' = k_generation k + 1 \<and> t_install (k_records k ! token) s = (s', True)"
proof (cases "token < length (k_records k)")
  case True
  obtain s1 threw where i: "t_install (k_records k ! token) s = (s1, threw)" by force
  show ?thesis
    using assms True i
    by (cases threw) (auto simp: accept_transition_def installs_def record_for_def set_transition_state_def next_generation_def
        dest: pending_state split: if_splits prod.splits)
qed (use assms in \<open>simp add: accept_transition_def record_for_def\<close>)

lemma prepare_keeps:
  "prepare_transition n changed p r c current install notify k = Inr (token, k') \<Longrightarrow> keeps_accepted k k'"
  by (auto simp: prepare_transition_def keeps_accepted_def nth_append split: if_splits)

lemma discard_keeps:
  "discard_transition token k = Inr k' \<Longrightarrow> keeps_accepted k k'"
  using keeps_set_state [of k token]
  by (auto simp: discard_transition_def record_for_def set_transition_state_def split: if_splits)

lemma sorted_gens_snoc:
  "sorted_wrt (<) (map (\<lambda>(token, gen, s). gen) es) \<Longrightarrow> list_all (log_entry_ok revision k) es \<Longrightarrow>
    sorted_wrt (<) (map (\<lambda>(token, gen, s). gen) (es @ [(token, k_generation k, s)]))"
  by (force simp: sorted_wrt_append list_all_iff log_entry_ok_def)

lemma control_step_ok:
  "run_ok revision x \<Longrightarrow> run_ok revision (control_step revision st x)"
proof (cases st)
  case (AcceptStep token policy)
  assume ok: "run_ok revision x"
  obtain result k s where a: "accept_transition revision token policy (r_controller x, r_map x) = (result, k, s)"
    by (cases "accept_transition revision token policy (r_controller x, r_map x)") auto
  show ?thesis
    using ok accept_installs [OF a] keeps_entries [OF accept_keeps [OF a]]
      sorted_gens_snoc [of "r_log x" revision "r_controller x" token "r_map x"]
    by (auto simp: AcceptStep a run_ok_def simp del: map_append)
qed (auto simp: run_ok_def invalidate_transitions_def next_generation_def claim_management_def release_management_def
    split: sum.splits if_splits prod.splits dest: prepare_keeps discard_keeps
    intro: keeps_entries elim!: keeps_entries [rotated] simp: keeps_accepted_def)

lemma controller_run_ok: "run_ok revision x \<Longrightarrow> run_ok revision (controller_run revision steps x)"
  unfolding controller_run_def by (induction steps arbitrary: x) (auto intro: control_step_ok)

lemma run_tokens_distinct:
  assumes "run_ok revision x"
  shows "distinct (map fst (r_log x))"
proof -
  have gens: "map (\<lambda>(token, gen, s). gen) (r_log x) =
      map (\<lambda>token. t_generation (k_records (r_controller x) ! token)) (map fst (r_log x))"
    using assms by (auto simp: run_ok_def list_all_iff log_entry_ok_def Let_def)
  have "distinct (map (\<lambda>(token, gen, s). gen) (r_log x))"
    using assms strict_sorted_iff by (auto simp: run_ok_def)
  then show ?thesis unfolding gens by (rule distinct_map [THEN iffD1, THEN conjunct1])
qed

text \<open>
  C19: a prepared transition is installed at most once, and only on the state it was prepared for.
  However preparations, acceptances, discards, claims and changes from outside follow each other, the
  tokens in the log of installations are distinct, each entry is an accepted transition whose base
  revision and base test held on the state it was installed on, and the generations of the entries
  strictly increase: of all transitions prepared between two changes of the map at most one is
  installed. An acceptance that is not such an installation leaves the state as it was, or it fails
  because the installation itself threw: then the state is the one the installation reached, the
  transition is discarded and every other prepared transition becomes stale.
\<close>

theorem transition_installed_once_on_its_base:
  "run_ok revision (controller_run revision steps (new_run mode s)) \<and>
    distinct (map fst (r_log (controller_run revision steps (new_run mode s)))) \<and>
    (case accept_transition revision token policy (k, now) of (result, k', s') \<Rightarrow>
       s' = now \<or> installs revision token k now \<or>
       result = AcceptFailed TransitionInvalid \<and> t_state (k_records k' ! token) = DiscardedTransition \<and>
         k_generation k' = k_generation k + 1 \<and> t_install (k_records k ! token) now = (s', True))"
proof -
  have ok: "run_ok revision (controller_run revision steps (new_run mode s))"
    by (rule controller_run_ok) (simp add: run_ok_def new_run_def)
  obtain result k' s' where a: "accept_transition revision token policy (k, now) = (result, k', s')"
    by (cases "accept_transition revision token policy (k, now)")
  show ?thesis
    using ok run_tokens_distinct [OF ok] accept_not_installing [OF _ a] by (auto simp: a)
qed

end
