(* ===== verification/Data_Plan.thy ===== *)
theory Data_Plan
  imports Ordered_Laws Value_Admission
begin

text \<open>
  The planner of a projected live map (\<open>api/livemap/livemap.core.ts\<close>): public calls become write
  intents, write intents are run against an immutable carrier and leave the operations of the
  commit (\<open>api/livemap/livemap.transport.ts\<close>), and the operations of a commit are checked and
  planned again when it is replayed. A batch stages its calls on a candidate of its own.
\<close>

section \<open>Operations and intents\<close>

datatype put_kind = PutSet | PutReplace

text \<open>\<open>LiveMapProjectedDataOp\<close>: every operation carries the value before and the value after.\<close>

datatype projected_op =
    PutData put_kind live_path "opv option" opv
  | DropData live_path "opv option"
  | SpliceData live_path num_arg "opv list" "opv list" "opv list" "opv list"
  | RenameData live_path js_string js_string "(js_string \<times> opv) list" "(js_string \<times> opv) list"
  | MoveData live_path num_arg num_arg "opv list" "opv list"

fun op_path :: "projected_op \<Rightarrow> live_path" where
  "op_path (PutData k p prev next') = p"
| "op_path (DropData p prev) = p"
| "op_path (SpliceData p start removed inserted prev next') = p"
| "op_path (RenameData p src dst prev next') = p"
| "op_path (MoveData p src dst prev next') = p"

fun op_prev :: "projected_op \<Rightarrow> opv option" where
  "op_prev (PutData k p prev next') = prev"
| "op_prev (DropData p prev) = prev"
| "op_prev (SpliceData p start removed inserted prev next') = Some (OArr prev)"
| "op_prev (RenameData p src dst prev next') = Some (OObj prev)"
| "op_prev (MoveData p src dst prev next') = Some (OArr prev)"

fun op_next :: "projected_op \<Rightarrow> opv option" where
  "op_next (PutData k p prev next') = Some next'"
| "op_next (DropData p prev) = None"
| "op_next (SpliceData p start removed inserted prev next') = Some (OArr next')"
| "op_next (RenameData p src dst prev next') = Some (OObj next')"
| "op_next (MoveData p src dst prev next') = Some (OArr next')"

datatype write_op =
    WriteSet live_path opv
  | WriteReplace live_path opv
  | WriteDelete live_path
  | WriteSplice live_path num_arg num_arg "opv list"
  | WriteRename live_path js_string js_string
  | WriteMove live_path num_arg num_arg
  | WriteConstructiveSet live_path "(js_string \<times> opv) list"

datatype path_action = ActDelete | ActReplace | ActSet | ActSetMany
datatype path_kind = ArrayKind | ObjectKind
datatype move_role = MoveSource | MoveDestination

datatype plan_error =
    PlanCarrier opv_error
  | PlanAdmission adm_error
  | PathPartInvalid nat
  | PathUnresolved path_action live_path
  | PathNotObject path_action live_path
  | PathKindError live_path path_kind
  | SetManyNotObject live_path
  | RenameSourceAbsent live_path js_string
  | MoveIndexUnresolved move_role live_path num_arg
  | DeletesRoot
  | DeletesArrayIndex live_path
  | SpliceStartArgument live_path num_arg
  | SpliceCountArgument live_path num_arg
  | ReplayMismatch live_path "opv option" "opv option"
  | BatchClosed
  | RevisionConflict nat nat
  | SchemaRejected

definition lift_plan :: "opv_error + 'a \<Rightarrow> plan_error + 'a" where
  "lift_plan r = (case r of Inl e \<Rightarrow> Inl (PlanCarrier e) | Inr a \<Rightarrow> Inr a)"

section \<open>Checks of a plan step\<close>

definition must_resolved_projected_value :: "path_action \<Rightarrow> live_path \<Rightarrow> opv option \<Rightarrow> plan_error + opv" where
  "must_resolved_projected_value act path v =
     (case v of Some x \<Rightarrow> Inr x | None \<Rightarrow> Inl (PathUnresolved act path))"

definition must_resolved_path :: "path_action \<Rightarrow> live_path \<Rightarrow> opv option \<Rightarrow> plan_error + unit" where
  "must_resolved_path act path v =
     (if path = [] \<or> v \<noteq> None then Inr () else Inl (PathUnresolved act path))"

definition must_resolved_object_path :: "path_action \<Rightarrow> live_path \<Rightarrow> opv option \<Rightarrow> plan_error + unit" where
  "must_resolved_object_path act path v =
     (case v of
        None \<Rightarrow> Inl (PathUnresolved act path)
      | Some x \<Rightarrow> if is_ordered_projected_object x then Inr () else Inl (PathNotObject act path))"

definition must_core_array_value :: "opv option \<Rightarrow> live_path \<Rightarrow> plan_error + opv list" where
  "must_core_array_value v path =
     (case v of Some (OArr vs) \<Rightarrow> Inr vs | _ \<Rightarrow> Inl (PathKindError path ArrayKind))"

definition must_core_object_value ::
    "opv option \<Rightarrow> live_path \<Rightarrow> plan_error + (js_string \<times> opv) list" where
  "must_core_object_value v path =
     (case v of Some (OObj es) \<Rightarrow> Inr es | _ \<Rightarrow> Inl (PathKindError path ObjectKind))"

definition must_core_move_index :: "opv list \<Rightarrow> live_path \<Rightarrow> num_arg \<Rightarrow> move_role \<Rightarrow> plan_error + unit" where
  "must_core_move_index vs path a role =
     (if safe_index a (length vs) \<noteq> None then Inr () else Inl (MoveIndexUnresolved role path a))"

definition must_plan_projected_delete :: "opv \<Rightarrow> live_path \<Rightarrow> plan_error + unit" where
  "must_plan_projected_delete root path =
     (if path = [] then Inl DeletesRoot
      else (case (last path, ordered_projected_value_at root (butlast path)) of
          (PIdx a, Some (OArr vs)) \<Rightarrow> Inl (DeletesArrayIndex path)
        | _ \<Rightarrow> Inr ()))"

section \<open>Planning\<close>

fun constructive_entries ::
    "live_path \<Rightarrow> (js_string \<times> opv) list \<Rightarrow> opv \<Rightarrow> plan_error + opv \<times> projected_op list" where
  "constructive_entries path [] candidate = Inr (candidate, [])"
| "constructive_entries path ((key, v) # es) candidate =
     (let childPath = append_live_path path (PKey key);
          prev = ordered_projected_value_at candidate childPath
      in rbind (lift_plan (ordered_projected_value_set candidate childPath v)) (\<lambda>c.
         rbind (constructive_entries path es c) (\<lambda>(value, ops).
           Inr (value, if optional_ordered_projected_value_equal prev (Some v) then ops
             else PutData PutSet childPath prev v # ops))))"

definition plan_constructive_set_write_op ::
    "opv \<Rightarrow> live_path \<Rightarrow> (js_string \<times> opv) list \<Rightarrow> plan_error + opv \<times> projected_op list" where
  "plan_constructive_set_write_op root path es =
     (case ordered_projected_value_at root path of
        None \<Rightarrow> Inl (PathUnresolved ActSet path)
      | Some cur \<Rightarrow>
          if \<not> is_ordered_projected_object cur then Inl (PathNotObject ActSet path)
          else constructive_entries path es root)"

fun plan_write_op :: "write_op \<Rightarrow> opv \<Rightarrow> plan_error + opv \<times> projected_op list" where
  "plan_write_op (WriteConstructiveSet path es) root = plan_constructive_set_write_op root path es"
| "plan_write_op (WriteSplice path start deleteCount items) root =
     rbind (must_resolved_projected_value ActSet path (ordered_projected_value_at root path)) (\<lambda>prev.
     rbind (lift_plan (ordered_projected_array_splice root path start deleteCount items)) (\<lambda>(value, removed).
     rbind (must_resolved_projected_value ActSet path (ordered_projected_value_at value path)) (\<lambda>next'.
       if ordered_projected_value_equal prev next' then Inr (value, [])
       else rbind (must_core_array_value (Some removed) path) (\<lambda>rs.
         rbind (must_core_array_value (Some prev) path) (\<lambda>ps.
         rbind (must_core_array_value (Some next') path) (\<lambda>ns.
           Inr (value, [SpliceData path start rs items ps ns])))))))"
| "plan_write_op (WriteRename path src dst) root =
     rbind (must_core_object_value (ordered_projected_value_at root path) path) (\<lambda>prev.
       if src \<notin> fst ` set prev then Inl (RenameSourceAbsent path src)
       else if src = dst then Inr (root, [])
       else rbind (lift_plan (ordered_projected_object_rename root path src dst)) (\<lambda>c.
         rbind (must_core_object_value (ordered_projected_value_at c path) path) (\<lambda>next'.
           Inr (c, [RenameData path src dst prev next']))))"
| "plan_write_op (WriteMove path src dst) root =
     rbind (must_core_array_value (ordered_projected_value_at root path) path) (\<lambda>prev.
     rbind (must_core_move_index prev path src MoveSource) (\<lambda>u.
     rbind (must_core_move_index prev path dst MoveDestination) (\<lambda>u.
       if src = dst then Inr (root, [])
       else rbind (lift_plan (ordered_projected_array_move root path src dst)) (\<lambda>c.
         rbind (must_core_array_value (ordered_projected_value_at c path) path) (\<lambda>next'.
           Inr (c, [MoveData path src dst prev next']))))))"
| "plan_write_op (WriteSet path v) root =
     (let prev = ordered_projected_value_at root path in
      rbind (lift_plan (ordered_projected_value_set root path v)) (\<lambda>c.
        Inr (c, if optional_ordered_projected_value_equal prev (Some v) then []
          else [PutData PutSet path prev v])))"
| "plan_write_op (WriteReplace path v) root =
     rbind (must_resolved_projected_value ActReplace path (ordered_projected_value_at root path)) (\<lambda>prev.
     rbind (lift_plan (ordered_projected_value_replace root path v)) (\<lambda>c.
       Inr (c, if ordered_projected_value_equal prev v then [] else [PutData PutReplace path (Some prev) v])))"
| "plan_write_op (WriteDelete path) root =
     rbind (must_resolved_projected_value ActDelete path (ordered_projected_value_at root path)) (\<lambda>prev.
     rbind (must_plan_projected_delete root path) (\<lambda>u.
     rbind (lift_plan (ordered_projected_value_delete root path)) (\<lambda>c.
       Inr (c, [DropData path (Some prev)]))))"

fun plan_write_ops :: "opv \<Rightarrow> write_op list \<Rightarrow> plan_error + opv \<times> projected_op list" where
  "plan_write_ops root [] = Inr (root, [])"
| "plan_write_ops root (w # ws) =
     rbind (plan_write_op w root) (\<lambda>(candidate, ops).
     rbind (plan_write_ops candidate ws) (\<lambda>(value, more). Inr (value, ops @ more)))"

section \<open>Replay\<close>

definition must_replay_value :: "live_path \<Rightarrow> opv option \<Rightarrow> opv option \<Rightarrow> plan_error + unit" where
  "must_replay_value path expected actual =
     (if optional_ordered_projected_value_equal expected actual then Inr ()
      else Inl (ReplayMismatch path expected actual))"

fun projected_write_op_from_transport :: "projected_op \<Rightarrow> write_op" where
  "projected_write_op_from_transport (DropData path prev) = WriteDelete path"
| "projected_write_op_from_transport (SpliceData path start removed inserted prev next') =
     WriteSplice path start (IntArg (int (length removed))) inserted"
| "projected_write_op_from_transport (RenameData path src dst prev next') = WriteRename path src dst"
| "projected_write_op_from_transport (MoveData path src dst prev next') = WriteMove path src dst"
| "projected_write_op_from_transport (PutData kind path prev next') =
     (case kind of PutSet \<Rightarrow> WriteSet path next' | PutReplace \<Rightarrow> WriteReplace path next')"

fun replay_write_ops :: "opv \<Rightarrow> projected_op list \<Rightarrow> plan_error + write_op list" where
  "replay_write_ops candidate [] = Inr []"
| "replay_write_ops candidate (op # ops) =
     rbind (must_replay_value (op_path op) (op_prev op)
         (ordered_projected_value_at candidate (op_path op))) (\<lambda>u.
     let w = projected_write_op_from_transport op in
     rbind (plan_write_ops candidate [w]) (\<lambda>(value, planned).
     rbind (must_replay_value (op_path op) (op_next op)
         (ordered_projected_value_at value (op_path op))) (\<lambda>u.
     rbind (replay_write_ops value ops) (\<lambda>ws. Inr (w # ws)))))"

section \<open>Public calls\<close>

text \<open>A path argument holds strings and numbers; only non-negative integers are indexes.\<close>

definition path_part_valid :: "path_part \<Rightarrow> bool" where
  "path_part_valid part = (case part of PKey k \<Rightarrow> True | PIdx a \<Rightarrow> num_arg_index a \<noteq> None)"

fun must_live_path_from :: "nat \<Rightarrow> live_path \<Rightarrow> plan_error + live_path" where
  "must_live_path_from i [] = Inr []"
| "must_live_path_from i (part # parts) =
     (if path_part_valid part then rbind (must_live_path_from (Suc i) parts) (\<lambda>ps. Inr (part # ps))
      else Inl (PathPartInvalid i))"

definition must_live_path :: "live_path \<Rightarrow> plan_error + live_path" where
  "must_live_path path = must_live_path_from 0 path"

definition adm_of_part :: "path_part \<Rightarrow> adm_part" where
  "adm_of_part part =
     (case part of
        PKey k \<Rightarrow> AKey k
      | PIdx a \<Rightarrow> (case num_arg_index a of Some i \<Rightarrow> AIdx i | None \<Rightarrow> AIdx 0))"

definition must_ordered_projected_value :: "js_heap \<Rightarrow> js_value \<Rightarrow> live_path \<Rightarrow> plan_error + opv" where
  "must_ordered_projected_value h v path =
     (case admit_projected_value h v (map adm_of_part path) of
        Inl e \<Rightarrow> Inl (PlanAdmission e)
      | Inr x \<Rightarrow> Inr x)"

definition must_ordered_projected_object ::
    "js_heap \<Rightarrow> js_value \<Rightarrow> live_path \<Rightarrow> plan_error + (js_string \<times> opv) list" where
  "must_ordered_projected_object h v path =
     rbind (must_ordered_projected_value h v path) (\<lambda>x.
       case x of OObj es \<Rightarrow> Inr es | _ \<Rightarrow> Inl (SetManyNotObject path))"

definition write_ops_from_set ::
    "js_heap \<Rightarrow> live_path \<Rightarrow> js_value \<Rightarrow> opv option \<Rightarrow> plan_error + write_op list" where
  "write_ops_from_set h path v cur =
     rbind (must_ordered_projected_value h v path) (\<lambda>x.
     rbind (must_resolved_path ActSet path cur) (\<lambda>u.
       case x of
         OObj es \<Rightarrow>
           if path = [] then Inr [WriteSet path x]
           else if (case cur of None \<Rightarrow> False | Some c \<Rightarrow> \<not> is_ordered_projected_object c)
             then Inr [WriteSet path x]
           else Inr [WriteConstructiveSet path es]
       | _ \<Rightarrow> Inr [WriteSet path x]))"

definition write_ops_from_set_many ::
    "live_path \<Rightarrow> (js_string \<times> opv) list \<Rightarrow> opv option \<Rightarrow> plan_error + write_op list" where
  "write_ops_from_set_many path es cur =
     rbind (must_resolved_object_path ActSetMany path cur) (\<lambda>u.
       Inr (map (\<lambda>(key, v). WriteSet (append_live_path path (PKey key)) v) es))"

text \<open>\<open>None\<close> for the path is the one-argument call, which replaces the root.\<close>

definition replace_write_op_from_args ::
    "js_heap \<Rightarrow> live_path option \<Rightarrow> js_value \<Rightarrow> plan_error + live_path \<times> opv" where
  "replace_write_op_from_args h pathArg v =
     (case pathArg of
        None \<Rightarrow> rbind (must_ordered_projected_value h v []) (\<lambda>x. Inr ([], x))
      | Some p \<Rightarrow>
          rbind (must_live_path p) (\<lambda>path.
          rbind (must_ordered_projected_value h v path) (\<lambda>x. Inr (path, x))))"

definition normalize_splice_start :: "nat \<Rightarrow> num_arg \<Rightarrow> live_path \<Rightarrow> plan_error + nat" where
  "normalize_splice_start len start path =
     (case start of
        OtherArg x \<Rightarrow> Inl (SpliceStartArgument path start)
      | IntArg i \<Rightarrow> if i < 0 then Inr (nat (max (int len + i) 0)) else Inr (nat (min i (int len))))"

definition normalize_splice_delete_count ::
    "nat \<Rightarrow> nat \<Rightarrow> num_arg \<Rightarrow> live_path \<Rightarrow> plan_error + nat" where
  "normalize_splice_delete_count len start deleteCount path =
     (case deleteCount of
        OtherArg x \<Rightarrow> Inl (SpliceCountArgument path deleteCount)
      | IntArg i \<Rightarrow>
          if i < 0 then Inl (SpliceCountArgument path deleteCount)
          else Inr (nat (min i (int len - int start))))"

fun splice_items_from ::
    "js_heap \<Rightarrow> live_path \<Rightarrow> nat \<Rightarrow> js_value list \<Rightarrow> plan_error + opv list" where
  "splice_items_from h path i [] = Inr []"
| "splice_items_from h path i (v # vs) =
     rbind (must_ordered_projected_value h v (append_live_path path (PIdx (IntArg (int i))))) (\<lambda>x.
     rbind (splice_items_from h path (Suc i) vs) (\<lambda>xs. Inr (x # xs)))"

definition splice_write_op ::
    "js_heap \<Rightarrow> live_path \<Rightarrow> opv option \<Rightarrow> num_arg \<Rightarrow> num_arg \<Rightarrow> js_value list \<Rightarrow> plan_error + write_op" where
  "splice_write_op h path cur start deleteCount items =
     rbind (must_core_array_value cur path) (\<lambda>vs.
     rbind (normalize_splice_start (length vs) start path) (\<lambda>s.
     rbind (normalize_splice_delete_count (length vs) s deleteCount path) (\<lambda>d.
     rbind (splice_items_from h path s items) (\<lambda>xs.
       Inr (WriteSplice path (IntArg (int s)) (IntArg (int d)) xs)))))"

datatype data_call =
    CallSet live_path js_value
  | CallReplace "live_path option" js_value
  | CallSetMany live_path js_value
  | CallSplice live_path num_arg num_arg "js_value list"
  | CallDelete live_path

text \<open>The intents of one call, read against the current value; the core and a batch share them.\<close>

fun call_write_ops :: "js_heap \<Rightarrow> data_call \<Rightarrow> opv \<Rightarrow> plan_error + write_op list" where
  "call_write_ops h (CallSet p v) cur =
     rbind (must_live_path p) (\<lambda>path. write_ops_from_set h path v (ordered_projected_value_at cur path))"
| "call_write_ops h (CallReplace p v) cur =
     rbind (replace_write_op_from_args h p v) (\<lambda>(path, x).
     rbind (must_resolved_path ActReplace path (ordered_projected_value_at cur path)) (\<lambda>u.
       Inr [WriteReplace path x]))"
| "call_write_ops h (CallSetMany p v) cur =
     rbind (must_live_path p) (\<lambda>path.
     rbind (must_ordered_projected_object h v path) (\<lambda>es.
       write_ops_from_set_many path es (ordered_projected_value_at cur path)))"
| "call_write_ops h (CallSplice p start deleteCount items) cur =
     rbind (must_live_path p) (\<lambda>path.
     rbind (splice_write_op h path (ordered_projected_value_at cur path) start deleteCount items) (\<lambda>w.
       Inr [w]))"
| "call_write_ops h (CallDelete p) cur =
     rbind (must_live_path p) (\<lambda>path.
     rbind (must_resolved_path ActDelete path (ordered_projected_value_at cur path)) (\<lambda>u.
       Inr [WriteDelete path]))"

section \<open>Batches\<close>

text \<open>
  The transaction object of a batch: the candidate the next call reads, the intents collected and
  whether the callback is still running. A call that throws leaves the transaction as it was, so
  the callback may catch the error and go on; \<open>batch_calls\<close> collects what each call returned.
\<close>

record batch_tx =
  tx_candidate :: opv
  tx_ops :: "write_op list"
  tx_open :: bool

definition make_batch_tx :: "opv \<Rightarrow> batch_tx" where
  "make_batch_tx root = \<lparr> tx_candidate = root, tx_ops = [], tx_open = True \<rparr>"

definition push_write_ops :: "write_op list \<Rightarrow> batch_tx \<Rightarrow> plan_error + batch_tx" where
  "push_write_ops ops tx =
     rbind (plan_write_ops (tx_candidate tx) ops) (\<lambda>(value, planned).
       Inr (tx\<lparr> tx_candidate := value, tx_ops := tx_ops tx @ ops \<rparr>))"

definition batch_call :: "js_heap \<Rightarrow> data_call \<Rightarrow> batch_tx \<Rightarrow> plan_error + batch_tx" where
  "batch_call h c tx =
     (if \<not> tx_open tx then Inl BatchClosed
      else rbind (call_write_ops h c (tx_candidate tx)) (\<lambda>ops. push_write_ops ops tx))"

fun batch_calls :: "js_heap \<Rightarrow> data_call list \<Rightarrow> batch_tx \<Rightarrow> (plan_error + unit) list \<times> batch_tx" where
  "batch_calls h [] tx = ([], tx)"
| "batch_calls h (c # cs) tx =
     (case batch_call h c tx of
        Inl e \<Rightarrow> (let (rs, end_tx) = batch_calls h cs tx in (Inl e # rs, end_tx))
      | Inr tx' \<Rightarrow> (let (rs, end_tx) = batch_calls h cs tx' in (Inr () # rs, end_tx)))"

end
