(* ===== verification/Ordered_Json.thy ===== *)
theory Ordered_Json
  imports Ordered_Value
begin

text \<open>
  The JSON text of a carrier (\<open>api/transform/utils/json-utils/ordered-json.ts\<close>): the parser that
  keeps the order of properties and refuses a repeated one, and the emitter. The parser runs on the
  source that is left; while it runs, a position is the number of code units left. Two
  conversions of the language are arguments: \<open>spell\<close> is \<open>JSON.stringify\<close> of a number, \<open>read\<close> is
  \<open>Number\<close> of a text that matched the number grammar. The recursion depth of the engine is not bounded.
\<close>

section \<open>Positions and errors\<close>

record text_position =
  at_index :: nat
  at_line :: nat
  at_column :: nat

datatype json_fault =
    ExpectedString
  | ControlCharacter
  | UnterminatedEscape
  | InvalidUnicodeEscape
  | InvalidEscape
  | UnterminatedString
  | InvalidNumber
  | ExpectedCommaOrArrayCloser
  | UnterminatedArray
  | ExpectedColon
  | ExpectedCommaOrObjectCloser
  | UnterminatedObject
  | UnexpectedToken
  | TrailingSource

datatype 'p json_error =
    JsonSyntax json_fault nat
  | JsonDuplicateProperty js_string 'p 'p
  | JsonNonfinite
  | JsonCarrier opv_error

fun position_from :: "js_string \<Rightarrow> nat \<Rightarrow> nat \<Rightarrow> nat \<times> nat" where
  "position_from [] line column = (line, column)"
| "position_from (u # us) line column =
     (if u = 0x0D then
        (case us of
           [] \<Rightarrow> (Suc line, 1)
         | v # vs \<Rightarrow> if v = 0x0A then position_from vs (Suc line) 1 else position_from us (Suc line) 1)
      else if u = 0x0A then position_from us (Suc line) 1
      else position_from us line (Suc column))"

definition source_position :: "js_string \<Rightarrow> nat \<Rightarrow> text_position" where
  "source_position source offset =
     (case position_from (take offset source) 1 1 of
        (line, column) \<Rightarrow> \<lparr> at_index = offset, at_line = line, at_column = column \<rparr>)"

definition locate_error :: "js_string \<Rightarrow> nat json_error \<Rightarrow> text_position json_error" where
  "locate_error source e =
     (let len = length source in
      case e of
        JsonSyntax f left \<Rightarrow> JsonSyntax f (len - left)
      | JsonDuplicateProperty path dup origin \<Rightarrow>
          JsonDuplicateProperty path (source_position source (len - dup)) (source_position source (len - origin))
      | JsonNonfinite \<Rightarrow> JsonNonfinite
      | JsonCarrier c \<Rightarrow> JsonCarrier c)"

definition json_fail :: "json_fault \<Rightarrow> js_string \<Rightarrow> nat json_error + 'a" where
  "json_fail f r = Inl (JsonSyntax f (length r))"

definition lift_json :: "opv_error + 'a \<Rightarrow> 'p json_error + 'a" where
  "lift_json r = (case r of Inl e \<Rightarrow> Inl (JsonCarrier e) | Inr a \<Rightarrow> Inr a)"

section \<open>Tokens\<close>

definition json_ws :: "16 word \<Rightarrow> bool" where
  "json_ws u \<longleftrightarrow> u = 0x20 \<or> u = 0x09 \<or> u = 0x0A \<or> u = 0x0D"

definition skip_ws :: "js_string \<Rightarrow> js_string" where
  "skip_ws r = dropWhile json_ws r"

definition is_digit :: "16 word \<Rightarrow> bool" where
  "is_digit u \<longleftrightarrow> 0x30 \<le> u \<and> u \<le> 0x39"

definition hex_value :: "16 word \<Rightarrow> 16 word option" where
  "hex_value u =
     (if is_digit u then Some (u - 0x30)
      else if 0x61 \<le> u \<and> u \<le> 0x66 then Some (u - 0x57)
      else if 0x41 \<le> u \<and> u \<le> 0x46 then Some (u - 0x37)
      else None)"

text \<open>\<open>String.fromCharCode(Number.parseInt(hex, 16))\<close> of four hexadecimal digits.\<close>

fun hex_unit :: "js_string \<Rightarrow> 16 word option" where
  "hex_unit [a, b, c, d] =
     (case (hex_value a, hex_value b, hex_value c, hex_value d) of
        (Some p, Some q, Some r, Some s) \<Rightarrow> Some (((p * 16 + q) * 16 + r) * 16 + s)
      | _ \<Rightarrow> None)"
| "hex_unit _ = None"

definition simple_escape :: "16 word \<Rightarrow> 16 word option" where
  "simple_escape u =
     (if u = 0x22 then Some 0x22 else if u = 0x5C then Some 0x5C else if u = 0x2F then Some 0x2F
      else if u = 0x62 then Some 0x08 else if u = 0x66 then Some 0x0C else if u = 0x6E then Some 0x0A
      else if u = 0x72 then Some 0x0D else if u = 0x74 then Some 0x09 else None)"

text \<open>The switch on the unit after a backslash.\<close>

definition parse_escape :: "js_string \<Rightarrow> nat json_error + (16 word \<times> js_string)" where
  "parse_escape us =
     (case us of
        [] \<Rightarrow> json_fail UnterminatedEscape []
      | e # es \<Rightarrow>
          (case simple_escape e of
             Some v \<Rightarrow> Inr (v, es)
           | None \<Rightarrow>
               if e = 0x75 then
                 (case hex_unit (take 4 es) of
                    Some v \<Rightarrow> Inr (v, drop 4 es)
                  | None \<Rightarrow> json_fail InvalidUnicodeEscape es)
               else json_fail InvalidEscape es))"

lemma parse_escape_length: "parse_escape us = Inr (v, r) \<Longrightarrow> length r < length us"
  by (auto simp: parse_escape_def json_fail_def split: list.splits option.splits if_splits)

text \<open>The body of a string after its opening quote, with the units read so far.\<close>

function parse_string_body :: "js_string \<Rightarrow> js_string \<Rightarrow> nat json_error + js_string \<times> js_string" where
  "parse_string_body acc [] = json_fail UnterminatedString []"
| "parse_string_body acc (u # us) =
     (if u < 0x20 then json_fail ControlCharacter (u # us)
      else if u = 0x22 then Inr (acc, us)
      else if u \<noteq> 0x5C then parse_string_body (acc @ [u]) us
      else rbind (parse_escape us) (\<lambda>(v, r). parse_string_body (acc @ [v]) r))"
  by pat_completeness auto
termination by (relation "measure (length \<circ> snd)") (auto dest: parse_escape_length)

definition parse_string_token :: "js_string \<Rightarrow> nat json_error + js_string \<times> js_string" where
  "parse_string_token r =
     (case r of
        u # us \<Rightarrow> if u = 0x22 then parse_string_body [] us else json_fail ExpectedString r
      | [] \<Rightarrow> json_fail ExpectedString r)"

text \<open>
  The number grammar \<open>-?(0|[1-9][0-9]*)(\.[0-9]+)?([eE][+-]?[0-9]+)?\<close> at the start of the source;
  a fraction or an exponent without digits is not taken.
\<close>

definition digits_of :: "js_string \<Rightarrow> js_string" where
  "digits_of r = takeWhile is_digit r"

definition integer_part :: "js_string \<Rightarrow> js_string option" where
  "integer_part r =
     (case r of
        u # us \<Rightarrow>
          if u = 0x30 then Some [u] else if is_digit u then Some (u # digits_of us) else None
      | [] \<Rightarrow> None)"

definition fraction_part :: "js_string \<Rightarrow> js_string" where
  "fraction_part r =
     (case r of
        u # us \<Rightarrow> if u = 0x2E \<and> digits_of us \<noteq> [] then u # digits_of us else []
      | [] \<Rightarrow> [])"

definition exponent_part :: "js_string \<Rightarrow> js_string" where
  "exponent_part r =
     (case r of
        u # us \<Rightarrow>
          if u = 0x65 \<or> u = 0x45 then
            (let sign = (case us of v # vs \<Rightarrow> if v = 0x2B \<or> v = 0x2D then [v] else [] | [] \<Rightarrow> []);
                 ds = digits_of (drop (length sign) us)
             in if ds \<noteq> [] then u # sign @ ds else [])
          else []
      | [] \<Rightarrow> [])"

definition unsigned_match :: "js_string \<Rightarrow> js_string option" where
  "unsigned_match r =
     (case integer_part r of
        None \<Rightarrow> None
      | Some i \<Rightarrow>
          (let f = fraction_part (drop (length i) r);
               e = exponent_part (drop (length i + length f) r)
           in Some (i @ f @ e)))"

definition number_match :: "js_string \<Rightarrow> js_string option" where
  "number_match r =
     (case r of
        u # us \<Rightarrow> if u = 0x2D then map_option ((#) u) (unsigned_match us) else unsigned_match r
      | [] \<Rightarrow> None)"

definition parse_number :: "(js_string \<Rightarrow> js_number) \<Rightarrow> js_string \<Rightarrow> nat json_error + opv \<times> js_string" where
  "parse_number read r =
     (case number_match r of
        None \<Rightarrow> json_fail InvalidNumber r
      | Some t \<Rightarrow>
          (case hsonNumber (read t) of
             Inl e \<Rightarrow> Inl JsonNonfinite
           | Inr x \<Rightarrow> Inr (OPrim (PNum x), drop (length t) r)))"

section \<open>The emitter\<close>

definition is_high_surrogate :: "16 word \<Rightarrow> bool" where
  "is_high_surrogate u \<longleftrightarrow> 0xD800 \<le> u \<and> u \<le> 0xDBFF"

definition is_low_surrogate :: "16 word \<Rightarrow> bool" where
  "is_low_surrogate u \<longleftrightarrow> 0xDC00 \<le> u \<and> u \<le> 0xDFFF"

definition hex_digit :: "16 word \<Rightarrow> 16 word" where
  "hex_digit d = (if d < 10 then 0x30 + d else 0x57 + d)"

definition unicode_escape :: "16 word \<Rightarrow> js_string" where
  "unicode_escape u =
     [0x5C, 0x75, hex_digit (drop_bit 12 u), hex_digit (drop_bit 8 u AND 0xF),
      hex_digit (drop_bit 4 u AND 0xF), hex_digit (u AND 0xF)]"

text \<open>\<open>JSON.stringify\<close> of a string: pairs of surrogates are kept, a lone one is escaped.\<close>

definition quote_unit :: "16 word \<Rightarrow> js_string" where
  "quote_unit u =
     (if u = 0x08 then [0x5C, 0x62] else if u = 0x09 then [0x5C, 0x74] else if u = 0x0A then [0x5C, 0x6E]
      else if u = 0x0C then [0x5C, 0x66] else if u = 0x0D then [0x5C, 0x72]
      else if u = 0x22 then [0x5C, 0x22] else if u = 0x5C then [0x5C, 0x5C]
      else if u < 0x20 \<or> is_high_surrogate u \<or> is_low_surrogate u then unicode_escape u
      else [u])"

fun quote_units :: "js_string \<Rightarrow> js_string" where
  "quote_units [] = []"
| "quote_units [u] = quote_unit u"
| "quote_units (u # v # us) =
     (if is_high_surrogate u \<and> is_low_surrogate v then u # v # quote_units us
      else quote_unit u @ quote_units (v # us))"

definition quote_json_string :: "js_string \<Rightarrow> js_string" where
  "quote_json_string s = [0x22] @ quote_units s @ [0x22]"

fun join_text :: "js_string \<Rightarrow> js_string list \<Rightarrow> js_string" where
  "join_text sep [] = []"
| "join_text sep [t] = t"
| "join_text sep (t # ts) = t @ sep @ join_text sep ts"

definition indent_of :: "nat \<Rightarrow> js_string" where
  "indent_of depth = replicate (2 * depth) 0x20"

text \<open>The left value is the error thrown for a number that is not finite.\<close>

fun emit_ordered_json :: "(js_number \<Rightarrow> js_string) \<Rightarrow> nat \<Rightarrow> opv \<Rightarrow> number_error + js_string" where
  "emit_ordered_json spell depth (OPrim PNull) = Inr (js ''null'')"
| "emit_ordered_json spell depth (OPrim (PStr s)) = Inr (quote_json_string s)"
| "emit_ordered_json spell depth (OPrim (PBool b)) = Inr (if b then js ''true'' else js ''false'')"
| "emit_ordered_json spell depth (OPrim (PNum x)) =
     (if \<not> num_finite x then Inl NumberNonfinite
      else Inr (if num_object_is x num_neg_zero then js ''-0'' else spell x))"
| "emit_ordered_json spell depth (OArr vs) =
     (if vs = [] then Inr (js ''[]'')
      else rbind (traverse (emit_ordered_json spell (Suc depth)) vs) (\<lambda>ts.
        Inr (js ''['' @ [0x0A] @ join_text [0x2C, 0x0A] (map (\<lambda>t. indent_of (Suc depth) @ t) ts) @
          [0x0A] @ indent_of depth @ js '']'')))"
| "emit_ordered_json spell depth (OObj es) =
     (if es = [] then Inr (js ''{}'')
      else rbind (traverse (\<lambda>e. emit_ordered_json spell (Suc depth) (snd e)) es) (\<lambda>ts.
        Inr (js ''{'' @ [0x0A] @
          join_text [0x2C, 0x0A] (map2 (\<lambda>e t. indent_of (Suc depth) @ quote_json_string (fst e) @ [0x3A, 0x20] @ t) es ts) @
          [0x0A] @ indent_of depth @ js ''}'')))"

section \<open>The parser\<close>

definition property_path :: "js_string \<Rightarrow> js_string \<Rightarrow> js_string" where
  "property_path path key = path @ js ''['' @ quote_json_string key @ js '']''"

definition item_path :: "js_string \<Rightarrow> nat \<Rightarrow> js_string" where
  "item_path path n = path @ js ''['' @ nat_str n @ js '']''"

text \<open>
  \<open>parse_items\<close> and \<open>parse_entries\<close> are the loops of \<open>parseArray\<close> and \<open>parseObject\<close>, entered where an
  item or a key is expected; \<open>seen\<close> holds the first declaration of every key.
\<close>

function parse_value ::
    "(js_string \<Rightarrow> js_number) \<Rightarrow> js_string \<Rightarrow> js_string \<Rightarrow> nat json_error + opv \<times> js_string"
  and parse_items ::
    "(js_string \<Rightarrow> js_number) \<Rightarrow> js_string \<Rightarrow> opv list \<Rightarrow> js_string \<Rightarrow> nat json_error + opv \<times> js_string"
  and parse_entries ::
    "(js_string \<Rightarrow> js_number) \<Rightarrow> js_string \<Rightarrow> (js_string \<times> nat) list \<Rightarrow> (js_string \<times> opv) list \<Rightarrow> js_string \<Rightarrow>
     nat json_error + opv \<times> js_string" where
  "parse_value read path source =
     (case skip_ws source of
        [] \<Rightarrow> json_fail UnexpectedToken []
      | u # us \<Rightarrow>
          if u = 0x22 then rbind (parse_string_token (u # us)) (\<lambda>(s, rest'). Inr (OPrim (PStr s), rest'))
          else if u = 0x7B then
            (case skip_ws us of
               [] \<Rightarrow> json_fail UnterminatedObject []
             | v # vs \<Rightarrow>
                 if v = 0x7D then rbind (lift_json (ordered_projected_object [])) (\<lambda>x. Inr (x, vs))
                 else parse_entries read path [] [] (v # vs))
          else if u = 0x5B then
            (case skip_ws us of
               [] \<Rightarrow> json_fail UnterminatedArray []
             | v # vs \<Rightarrow>
                 if v = 0x5D then rbind (lift_json (ordered_projected_array [])) (\<lambda>x. Inr (x, vs))
                 else parse_items read path [] (v # vs))
          else if starts_with (u # us) (js ''true'') then Inr (OPrim (PBool True), drop 4 (u # us))
          else if starts_with (u # us) (js ''false'') then Inr (OPrim (PBool False), drop 5 (u # us))
          else if starts_with (u # us) (js ''null'') then Inr (OPrim PNull, drop 4 (u # us))
          else if u = 0x2D \<or> is_digit u then parse_number read (u # us)
          else json_fail UnexpectedToken (u # us))"
| "parse_items read path acc source =
     (if source = [] then json_fail UnterminatedArray []
      else rbind (parse_value read (item_path path (length acc)) source) (\<lambda>(x, r).
        let vs = acc @ [x] in
        case skip_ws r of
          [] \<Rightarrow> json_fail ExpectedCommaOrArrayCloser []
        | u # us \<Rightarrow>
            if u = 0x5D then rbind (lift_json (ordered_projected_array vs)) (\<lambda>y. Inr (y, us))
            else if u \<noteq> 0x2C then json_fail ExpectedCommaOrArrayCloser (u # us)
            else parse_items read path vs (skip_ws us)))"
| "parse_entries read path seen acc source =
     (if source = [] then json_fail UnterminatedObject []
      else rbind (parse_string_token source) (\<lambda>(key, r).
        case map_of seen key of
          Some origin \<Rightarrow> Inl (JsonDuplicateProperty (property_path path key) (length source) origin)
        | None \<Rightarrow>
            (case skip_ws r of
               [] \<Rightarrow> json_fail ExpectedColon []
             | c # cs \<Rightarrow>
                 if c \<noteq> 0x3A then json_fail ExpectedColon (c # cs)
                 else rbind (parse_value read (property_path path key) cs) (\<lambda>(x, r').
                   let es = acc @ [(key, x)] in
                   case skip_ws r' of
                     [] \<Rightarrow> json_fail ExpectedCommaOrObjectCloser []
                   | u # us \<Rightarrow>
                       if u = 0x7D then rbind (lift_json (ordered_projected_object es)) (\<lambda>y. Inr (y, us))
                       else if u \<noteq> 0x2C then json_fail ExpectedCommaOrObjectCloser (u # us)
                       else parse_entries read path ((key, length source) # seen) es (skip_ws us)))))"
  by pat_completeness auto

section \<open>The parser consumes what it reads\<close>

lemma skip_ws_length: "length (skip_ws r) \<le> length r"
  by (simp add: skip_ws_def length_dropWhile_le)

lemma skip_ws_Cons_length: "skip_ws r = u # us \<Longrightarrow> length us < length r"
  using skip_ws_length [of r] by simp

lemma parse_string_body_length: "parse_string_body acc r = Inr (s, r') \<Longrightarrow> length r' < length r"
proof (induction acc r rule: parse_string_body.induct)
  case (2 acc u us)
  show ?case
  proof (cases "u < 0x20 \<or> u = 0x22 \<or> u \<noteq> 0x5C")
    case True
    with 2 show ?thesis by (auto simp: json_fail_def split: if_splits)
  next
    case False
    with "2.prems" obtain v q where "parse_escape us = Inr (v, q)" "parse_string_body (acc @ [v]) q = Inr (s, r')"
      by (auto simp: rbind_Inr_iff split: if_splits)
    with "2.IH"(2) [of "(v, q)" v q] False parse_escape_length [of us v q] show ?thesis by simp
  qed
qed (simp add: json_fail_def)

lemma parse_string_token_length: "parse_string_token r = Inr (s, r') \<Longrightarrow> length r' < length r"
  by (auto simp: parse_string_token_def json_fail_def split: list.splits if_splits dest: parse_string_body_length)

lemma integer_part_nonempty: "integer_part r = Some t \<Longrightarrow> t \<noteq> []"
  by (auto simp: integer_part_def split: list.splits if_splits)

lemma parse_number_length: "parse_number read r = Inr (x, r') \<Longrightarrow> length r' < length r"
  by (cases r)
    (auto simp: parse_number_def number_match_def unsigned_match_def json_fail_def Let_def
      split: option.splits sum.splits if_splits dest: integer_part_nonempty)

lemma parser_consumes:
  "parse_value_parse_items_parse_entries_dom (Inl (read, path, r)) \<Longrightarrow>
     parse_value read path r = Inr (v, r') \<Longrightarrow> length r' < length r"
  "parse_value_parse_items_parse_entries_dom (Inr (Inl (read, path, acc, r))) \<Longrightarrow>
     parse_items read path acc r = Inr (v, r') \<Longrightarrow> length r' < length r"
  "parse_value_parse_items_parse_entries_dom (Inr (Inr (read, path, seen, es, r))) \<Longrightarrow>
     parse_entries read path seen es r = Inr (v, r') \<Longrightarrow> length r' < length r"
proof (induction read path r and read path acc r and read path seen es r arbitrary: v r' and v r' and v r'
    rule: parse_value_parse_items_parse_entries.pinduct)
  case (1 read path source)
  note val = parse_value.psimps [OF "1.hyps"]
  show ?case
  proof (cases "skip_ws source")
    case Nil
    with "1.prems" show ?thesis by (simp add: val json_fail_def)
  next
    case (Cons u us)
    with "1.prems" "1.IH" skip_ws_length [of source] show ?thesis
      by (auto simp: val json_fail_def rbind_Inr_iff split: if_splits list.splits
          dest!: skip_ws_Cons_length parse_string_token_length parse_number_length) fastforce+
  qed
next
  case (2 read path acc source)
  note items = parse_items.psimps [OF "2.hyps"]
  from "2.prems" obtain x r where x: "parse_value read (item_path path (length acc)) source = Inr (x, r)"
    and s: "source \<noteq> []"
    by (auto simp: items json_fail_def rbind_Inr_iff split: if_splits)
  have len: "length r < length source" by (rule "2.IH"(1) [OF s x])
  show ?case
  proof (cases "skip_ws r")
    case Nil
    with "2.prems" x s show ?thesis by (simp add: items json_fail_def)
  next
    case (Cons u us)
    note us = skip_ws_Cons_length [OF Cons]
    have "length r' < length (skip_ws us)" if "u = 0x2C" "parse_items read path (acc @ [x]) (skip_ws us) = Inr (v, r')"
      using "2.IH"(2) [OF s x refl refl Cons] that by simp
    with "2.prems" x s Cons len us skip_ws_length [of us] show ?thesis
      by (fastforce simp: items json_fail_def rbind_Inr_iff Let_def split: if_splits)
  qed
next
  case (3 read path seen acc source)
  note entries = parse_entries.psimps [OF "3.hyps"]
  from "3.prems" obtain key r where key: "parse_string_token source = Inr (key, r)" and s: "source \<noteq> []"
    and fresh: "map_of seen key = None"
    by (auto simp: entries json_fail_def rbind_Inr_iff split: if_splits option.splits)
  from "3.prems" key s fresh obtain cs where cs: "skip_ws r = 0x3A # cs"
    by (auto simp: entries json_fail_def split: if_splits list.splits)
  with "3.prems" key s fresh obtain x q where x: "parse_value read (property_path path key) cs = Inr (x, q)"
    by (auto simp: entries json_fail_def rbind_Inr_iff)
  have len: "length q < length source"
    using "3.IH"(1) [OF s key refl fresh cs _ x] skip_ws_Cons_length [OF cs] parse_string_token_length [OF key] by simp
  show ?case
  proof (cases "skip_ws q")
    case Nil
    with "3.prems" x s key fresh cs show ?thesis by (simp add: entries json_fail_def)
  next
    case (Cons u us)
    note us = skip_ws_Cons_length [OF Cons]
    have "length r' < length (skip_ws us)"
      if "u = 0x2C" "parse_entries read path ((key, length source) # seen) (acc @ [(key, x)]) (skip_ws us) = Inr (v, r')"
      using "3.IH"(2) [OF s key refl fresh cs _ x refl refl Cons] that by simp
    with "3.prems" x s key fresh cs Cons len us skip_ws_length [of us] show ?thesis
      by (fastforce simp: entries json_fail_def rbind_Inr_iff Let_def split: if_splits)
  qed
qed

termination parse_value
proof (relation "measure (\<lambda>x. case x of
    Inl (read, path, r) \<Rightarrow> 2 * length r
  | Inr (Inl (read, path, acc, r)) \<Rightarrow> Suc (2 * length r)
  | Inr (Inr (read, path, seen, acc, r)) \<Rightarrow> Suc (2 * length r))", goal_cases)
  case (2 read path source u us v vs)
  then show ?case using skip_ws_Cons_length [of source u us] skip_ws_Cons_length [of us v vs] by simp
next
  case (3 read path source u us v vs)
  then show ?case using skip_ws_Cons_length [of source u us] skip_ws_Cons_length [of us v vs] by simp
next
  case (5 read path acc source z x r vs u us)
  then have "length r < length source" using parser_consumes(1) [of read "item_path path (length acc)" source x r] by simp
  with 5 skip_ws_Cons_length [of r u us] skip_ws_length [of us] show ?case by simp
qed (auto dest!: parse_string_token_length skip_ws_Cons_length parser_consumes(1)
    intro: le_less_trans [OF skip_ws_length])

text \<open>The public entry: the whole source has to be one value.\<close>

definition parse_ordered_json_text ::
    "(js_string \<Rightarrow> js_number) \<Rightarrow> js_string \<Rightarrow> text_position json_error + opv" where
  "parse_ordered_json_text read source =
     (case parse_value read (js ''$'') source of
        Inl e \<Rightarrow> Inl (locate_error source e)
      | Inr (v, rest') \<Rightarrow>
          if skip_ws rest' \<noteq> [] then Inl (JsonSyntax TrailingSource (length source - length (skip_ws rest')))
          else Inr v)"

declare parse_value.simps [simp del] parse_items.simps [simp del] parse_entries.simps [simp del]

end
