(* ===== verification/Ordered_Json_Laws.thy ===== *)
theory Ordered_Json_Laws
  imports Ordered_Json
begin

text \<open>
  The emitted text of a valid carrier is read back: strings by their escapes, numbers by the laws
  of the language's conversions, arrays and objects by induction on their members.
\<close>

section \<open>Strings\<close>

lemma hex_value_digit: "d < 16 \<Longrightarrow> hex_value (hex_digit d) = Some d"
proof -
  assume d: "d < 16"
  define n where "n = unat d"
  have n: "n < 16" using d by (simp add: n_def word_less_nat_alt)
  have "d = of_nat n" by (simp add: n_def)
  moreover have "n \<in> set [0..<16]" using n by simp
  then have "hex_value (hex_digit (of_nat n)) = Some (of_nat n)"
    by (simp add: upt_conv_Cons) (elim disjE; simp add: hex_digit_def hex_value_def is_digit_def)
  ultimately show ?thesis by simp
qed

lemma unit_nibbles:
  fixes u :: "16 word"
  shows "((drop_bit 12 u * 16 + (drop_bit 8 u AND 0xF)) * 16 + (drop_bit 4 u AND 0xF)) * 16 + (u AND 0xF) = u"
    and "drop_bit 12 u < 16" "drop_bit 8 u AND 0xF < 16" "drop_bit 4 u AND 0xF < 16" "u AND 0xF < 16"
proof -
  define n where "n = unat u"
  have u: "u = of_nat n" by (simp add: n_def)
  have n: "n < 65536" using unsigned_less [of u, where ?'a = nat] by (simp add: n_def)
  have m: "(0xF :: 16 word) = mask 4" by (simp add: mask_eq_exp_minus_1)
  have dd: "unat (drop_bit k u) = n div 2 ^ k" for k
    unfolding n_def unat_drop_bit_eq by (rule drop_bit_eq_div)
  have d: "drop_bit k u = of_nat (n div 2 ^ k)" for k
  proof -
    have "drop_bit k u = of_nat (unat (drop_bit k u))" by simp
    then show ?thesis unfolding dd .
  qed
  have t: "w AND 0xF = of_nat (unat w mod 16)" for w :: "16 word"
  proof -
    have "unat (w AND 0xF) = unat w mod 16"
      unfolding m by (simp add: take_bit_eq_mask [symmetric] unsigned_take_bit_eq) (simp add: take_bit_eq_mod)
    moreover have "w AND 0xF = of_nat (unat (w AND 0xF))" by simp
    ultimately show ?thesis by simp
  qed
  have "n div 4096 = n div 256 div 16" "n div 256 = n div 16 div 16" by (simp_all add: div_mult2_eq [symmetric])
  then have "((n div 4096 * 16 + n div 256 mod 16) * 16 + n div 16 mod 16) * 16 + n mod 16 = n"
    by (simp only: div_mult_mod_eq)
  then have "of_nat (((n div 4096 * 16 + n div 256 mod 16) * 16 + n div 16 mod 16) * 16 + n mod 16) = u"
    unfolding u by (rule arg_cong)
  then have e: "((of_nat (n div 4096) * 16 + of_nat (n div 256 mod 16)) * 16 + of_nat (n div 16 mod 16)) * 16 +
      of_nat (n mod 16) = u"
    unfolding of_nat_add of_nat_mult of_nat_numeral .
  have nib: "drop_bit 12 u = of_nat (n div 4096)" "drop_bit 8 u AND 0xF = of_nat (n div 256 mod 16)"
    "drop_bit 4 u AND 0xF = of_nat (n div 16 mod 16)" "u AND 0xF = of_nat (n mod 16)"
    using d [of 12] dd [of 8] dd [of 4] t [of "drop_bit 8 u"] t [of "drop_bit 4 u"] t [of u] n_def by simp_all
  from e show "((drop_bit 12 u * 16 + (drop_bit 8 u AND 0xF)) * 16 + (drop_bit 4 u AND 0xF)) * 16 + (u AND 0xF) = u"
    unfolding nib .
  have lt: "w AND 0xF < 16" for w :: "16 word"
    by (simp add: word_less_nat_alt m take_bit_eq_mask [symmetric] unsigned_take_bit_eq)
      (simp add: take_bit_eq_mod)
  show "drop_bit 8 u AND 0xF < 16" "drop_bit 4 u AND 0xF < 16" "u AND 0xF < 16" by (fact lt)+
  show "drop_bit 12 u < 16" using n by (simp add: word_less_nat_alt dd)
qed

lemma hex_unit_escape:
  "hex_unit [hex_digit (drop_bit 12 u), hex_digit (drop_bit 8 u AND 0xF),
      hex_digit (drop_bit 4 u AND 0xF), hex_digit (u AND 0xF)] = Some u"
  by (simp only: hex_unit.simps hex_value_digit [OF unit_nibbles(2)] hex_value_digit [OF unit_nibbles(3)]
      hex_value_digit [OF unit_nibbles(4)] hex_value_digit [OF unit_nibbles(5)] option.case prod.case unit_nibbles(1))

lemma parse_unicode_escape:
  "parse_string_body acc (unicode_escape u @ r) = parse_string_body (acc @ [u]) r"
  by (simp add: unicode_escape_def parse_escape_def simple_escape_def hex_unit_escape del: hex_unit.simps)

lemma parse_quote_unit: "parse_string_body acc (quote_unit u @ r) = parse_string_body (acc @ [u]) r"
proof -
  have e: "parse_string_body acc ([0x5C, e] @ r) = parse_string_body (acc @ [v]) r"
    if "simple_escape e = Some v" for e v
    using that by (simp add: parse_escape_def)
  show ?thesis
  proof (cases "u < 0x20 \<or> is_high_surrogate u \<or> is_low_surrogate u")
    case True
    then show ?thesis
      unfolding quote_unit_def by (simp add: e simple_escape_def parse_unicode_escape del: append.simps)
  next
    case False
    then show ?thesis
      unfolding quote_unit_def by (auto simp: e simple_escape_def simp del: append_Cons parse_string_body.simps) simp
  qed
qed

lemma parse_quote_units:
  "parse_string_body acc (quote_units s @ 0x22 # r) = Inr (acc @ s, r)"
proof (induction s arbitrary: acc rule: quote_units.induct)
  case (3 u v us)
  show ?case
  proof (cases "is_high_surrogate u \<and> is_low_surrogate v")
    case True
    have plain: "\<not> w < 0x20" "w \<noteq> 0x22" "w \<noteq> 0x5C" if "0xD800 \<le> w" for w :: "16 word"
      using that by (auto simp: word_le_nat_alt word_less_nat_alt)
    from True have "0xD800 \<le> u" "0xD800 \<le> v"
      by (auto simp: is_high_surrogate_def is_low_surrogate_def word_le_nat_alt)
    with plain [of u] plain [of v] True "3.IH"(1) [OF True, of "acc @ [u, v]"] show ?thesis by simp
  next
    case False
    then have "quote_units (u # v # us) = quote_unit u @ quote_units (v # us)"
      by (simp only: quote_units.simps if_False)
    with "3.IH"(2) [OF False, of "acc @ [u]"] show ?thesis
      by (simp add: parse_quote_unit del: quote_units.simps parse_string_body.simps)
  qed
qed (simp_all add: parse_quote_unit)

lemma parse_quoted:
  "parse_string_token (quote_json_string s @ r) = Inr (s, r)"
  by (simp add: parse_string_token_def quote_json_string_def parse_quote_units)

section \<open>Numbers\<close>

text \<open>A source that does not go on with a number.\<close>

definition number_end :: "js_string \<Rightarrow> bool" where
  "number_end r \<longleftrightarrow> (case r of [] \<Rightarrow> True
     | u # us \<Rightarrow> \<not> is_digit u \<and> u \<noteq> 0x2E \<and> u \<noteq> 0x65 \<and> u \<noteq> 0x45 \<and> u \<noteq> 0x2B \<and> u \<noteq> 0x2D)"

lemma digits_of_append: "number_end r \<Longrightarrow> digits_of (x @ r) = digits_of x"
  by (induction x) (auto simp: digits_of_def number_end_def split: list.splits)

lemma integer_part_append: "number_end r \<Longrightarrow> x \<noteq> [] \<Longrightarrow> integer_part (x @ r) = integer_part x"
  by (cases x) (auto simp: integer_part_def digits_of_append)

lemma fraction_part_append: "number_end r \<Longrightarrow> fraction_part (x @ r) = fraction_part x"
proof (cases x)
  case Nil
  then show "number_end r \<Longrightarrow> ?thesis" by (auto simp: fraction_part_def number_end_def split: list.splits)
qed (auto simp: fraction_part_def digits_of_append)

lemma exponent_part_append:
  assumes "number_end r"
  shows "exponent_part (x @ r) = exponent_part x"
proof (cases x)
  case Nil
  with assms show ?thesis by (auto simp: exponent_part_def number_end_def split: list.splits)
next
  case (Cons u us)
  show ?thesis
  proof (cases us)
    case Nil
    with Cons assms show ?thesis
      by (cases r) (auto simp: exponent_part_def number_end_def digits_of_def)
  next
    case (Cons v vs)
    then show ?thesis
      using \<open>x = u # us\<close> digits_of_append [OF assms, of us] digits_of_append [OF assms, of vs]
      by (auto simp: exponent_part_def)
  qed
qed

lemma integer_part_length: "integer_part x = Some i \<Longrightarrow> length i \<le> length x"
  by (auto simp: integer_part_def digits_of_def length_takeWhile_le split: list.splits if_splits)

lemma fraction_part_length: "length (fraction_part x) \<le> length x"
  by (auto simp: fraction_part_def digits_of_def length_takeWhile_le split: list.splits)

lemma unsigned_match_append:
  assumes "number_end r" and "x \<noteq> []"
  shows "unsigned_match (x @ r) = unsigned_match x"
proof (cases "integer_part x")
  case None
  with assms show ?thesis by (simp add: unsigned_match_def integer_part_append)
next
  case (Some i)
  let ?y = "drop (length i) x"
  have y: "drop (length i) (x @ r) = ?y @ r" using integer_part_length [OF Some] by simp
  have f: "fraction_part (?y @ r) = fraction_part ?y" by (rule fraction_part_append [OF assms(1)])
  have "drop (length i + length (fraction_part ?y)) (x @ r) = drop (length (fraction_part ?y)) ?y @ r"
    using integer_part_length [OF Some] fraction_part_length [of ?y] by (simp add: add.commute)
  with Some y f exponent_part_append [OF assms(1)] show ?thesis
    by (simp add: unsigned_match_def integer_part_append [OF assms] Let_def add.commute)
qed

lemma number_match_append:
  assumes "number_match t = Some t" and "number_end r"
  shows "number_match (t @ r) = Some t"
proof (cases t)
  case Nil
  with assms show ?thesis by (simp add: number_match_def)
next
  case (Cons u us)
  show ?thesis
  proof (cases "u = 0x2D")
    case True
    with Cons assms(1) have "us \<noteq> []" by (auto simp: number_match_def unsigned_match_def integer_part_def)
    from unsigned_match_append [OF assms(2) this] assms(1) Cons True show ?thesis
      by (auto simp: number_match_def)
  next
    case False
    with unsigned_match_append [OF assms(2), of "u # us"] assms(1) Cons show ?thesis
      by (auto simp: number_match_def)
  qed
qed

lemma number_match_head: "number_match (u # us) = Some t \<Longrightarrow> u = 0x2D \<or> is_digit u"
  by (auto simp: number_match_def unsigned_match_def integer_part_def is_digit_def split: if_splits option.splits)

section \<open>Emitted text\<close>

text \<open>
  What \<open>Number::toString\<close> and \<open>Number\<close> of ECMAScript promise: the text of a finite number other than
  \<open>-0\<close> is a number of the JSON grammar, and reading it gives the number back; \<open>-0\<close> reads as itself.
\<close>

definition number_text_law :: "(js_number \<Rightarrow> js_string) \<Rightarrow> (js_string \<Rightarrow> js_number) \<Rightarrow> bool" where
  "number_text_law spell read \<longleftrightarrow>
     (\<forall>x. num_finite x \<longrightarrow> x \<noteq> num_neg_zero \<longrightarrow> number_match (spell x) = Some (spell x) \<and> read (spell x) = x) \<and>
     read (js ''-0'') = num_neg_zero"

lemma js_units: "js [] = []" "js (c # cs) = of_char c # js cs"
  by (simp_all add: js_def)

lemma skip_ws_simps [simp]:
  "skip_ws [] = []" "\<not> json_ws u \<Longrightarrow> skip_ws (u # us) = u # us" "json_ws u \<Longrightarrow> skip_ws (u # us) = skip_ws us"
  by (simp_all add: skip_ws_def)

lemma skip_ws_indent [simp]: "skip_ws (indent_of d @ r) = skip_ws r"
proof -
  have "json_ws 0x20" by (simp add: json_ws_def)
  then have "skip_ws (replicate n 0x20 @ r) = skip_ws r" for n by (induction n) simp_all
  then show ?thesis by (simp add: indent_of_def)
qed

lemma ws_units [simp]:
  "json_ws 0x20" "json_ws 0x0A" "\<not> json_ws 0x2C" "\<not> json_ws 0x5D" "\<not> json_ws 0x7D" "\<not> json_ws 0x3A"
  "\<not> json_ws 0x22" "\<not> json_ws 0x5B" "\<not> json_ws 0x7B" "\<not> json_ws 0x2D"
  "\<not> json_ws 0x74" "\<not> json_ws 0x66" "\<not> json_ws 0x6E"
  by (simp_all add: json_ws_def)

lemma digit_not_ws: "is_digit u \<Longrightarrow> \<not> json_ws u"
  by (auto simp: is_digit_def json_ws_def)

text \<open>A value followed by something that does not go on with a number is read back.\<close>

definition reads_back :: "(js_string \<Rightarrow> js_number) \<Rightarrow> js_string \<Rightarrow> opv \<Rightarrow> bool" where
  "reads_back read t v \<longleftrightarrow>
     (\<exists>u us. t = u # us \<and> \<not> json_ws u) \<and>
     (\<forall>path r. number_end r \<longrightarrow> parse_value read path (t @ r) = Inr (v, r))"

lemma reads_backD:
  "reads_back read t v \<Longrightarrow> number_end r \<Longrightarrow> parse_value read path (t @ r) = Inr (v, r)"
  "reads_back read t v \<Longrightarrow> skip_ws (t @ r) = t @ r" "reads_back read t v \<Longrightarrow> t \<noteq> []"
  by (auto simp: reads_back_def)

lemma number_end_units [simp]:
  "number_end []" "number_end (0x2C # r)" "number_end (0x0A # r)"
  by (simp_all add: number_end_def is_digit_def)

lemma string_reads_back: "reads_back read (quote_json_string s) (OPrim (PStr s))"
proof -
  have q: "\<exists>us. quote_json_string s = 0x22 # us" by (simp add: quote_json_string_def)
  then obtain us where us: "quote_json_string s = 0x22 # us" by blast
  show ?thesis
    using parse_quoted [of s] by (simp add: reads_back_def us parse_value.simps)
qed

lemma word_reads_back:
  "reads_back read (js ''true'') (OPrim (PBool True))" "reads_back read (js ''false'') (OPrim (PBool False))"
  "reads_back read (js ''null'') (OPrim PNull)"
  by (simp_all add: reads_back_def js_units parse_value.simps starts_with_def is_digit_def)

lemma number_reads_back:
  assumes "number_match t = Some t" and "read t = x" and "num_finite x"
  shows "reads_back read t (OPrim (PNum x))"
proof -
  from assms(1) obtain u us where t: "t = u # us" by (cases t) (auto simp: number_match_def)
  from number_match_head [of u us t] assms(1) t have u: "u = 0x2D \<or> is_digit u" by simp
  then have ws: "\<not> json_ws u" using digit_not_ws by auto
  have kind: "u \<noteq> 0x22" "u \<noteq> 0x7B" "u \<noteq> 0x5B" "u \<noteq> 0x74" "u \<noteq> 0x66" "u \<noteq> 0x6E"
    using u by (auto simp: is_digit_def word_le_nat_alt)
  then have lit: "\<not> starts_with (u # us @ r) (js ''true'')" "\<not> starts_with (u # us @ r) (js ''false'')"
    "\<not> starts_with (u # us @ r) (js ''null'')" for r
    by (simp_all add: starts_with_def js_units)
  have "parse_value read path (t @ r) = Inr (OPrim (PNum x), r)" if "number_end r" for path r
    using number_match_append [OF assms(1) that] assms(2,3) u ws kind lit
    by (simp add: t parse_value.simps parse_number_def hsonNumber_def)
  then show ?thesis using t ws by (auto simp: reads_back_def)
qed

section \<open>Arrays and objects\<close>

definition items_tail :: "nat \<Rightarrow> js_string list \<Rightarrow> js_string \<Rightarrow> js_string \<Rightarrow> js_string" where
  "items_tail d ts close r =
     join_text [0x2C, 0x0A] (map (\<lambda>t. indent_of (Suc d) @ t) ts) @ [0x0A] @ indent_of d @ close @ r"

lemma items_tail_simps:
  "skip_ws (items_tail d [t] close r) = skip_ws (t @ 0x0A # indent_of d @ close @ r)"
  "skip_ws (items_tail d (t # t' # ts) close r) = skip_ws (t @ 0x2C # 0x0A # items_tail d (t' # ts) close r)"
  by (simp_all add: items_tail_def)

lemma parse_item_step:
  assumes "reads_back read t v" and "number_end r"
  shows "parse_items read path acc (t @ r) =
    (case skip_ws r of
       [] \<Rightarrow> json_fail ExpectedCommaOrArrayCloser []
     | u # us \<Rightarrow>
         if u = 0x5D then rbind (lift_json (ordered_projected_array (acc @ [v]))) (\<lambda>y. Inr (y, us))
         else if u \<noteq> 0x2C then json_fail ExpectedCommaOrArrayCloser (u # us)
         else parse_items read path (acc @ [v]) (skip_ws us))"
  using reads_backD(1) [OF assms] reads_backD(3) [OF assms(1)]
  by (subst parse_items.simps) (simp add: Let_def)

lemma parse_items_back:
  assumes "list_all2 (reads_back read) ts vs" and "ts \<noteq> []"
    and "\<forall>v \<in> set (acc @ vs). opv_ok v"
  shows "parse_items read path acc (skip_ws (items_tail d ts [0x5D] r)) = Inr (OArr (acc @ vs), r)"
  using assms
proof (induction ts arbitrary: vs acc)
  case (Cons t ts)
  then obtain v ws where vs: "vs = v # ws" and t: "reads_back read t v" and ts: "list_all2 (reads_back read) ts ws"
    by (auto simp: list_all2_Cons1)
  have lift: "lift_json (ordered_projected_array us) = Inr (OArr us)" if "\<forall>u \<in> set us. opv_ok u" for us
    using that by (simp add: lift_json_def ordered_projected_array_def assert_sound(3) [THEN iffD2])
  show ?case
  proof (cases ts)
    case Nil
    with ts have "ws = []" by simp
    with Nil t vs Cons.prems(3) show ?thesis
      by (simp add: items_tail_simps reads_backD(2) parse_item_step lift)
  next
    case (Cons t' ts')
    have "parse_items read path (acc @ [v]) (skip_ws (items_tail d ts [0x5D] r)) = Inr (OArr ((acc @ [v]) @ ws), r)"
      using Cons.IH [OF ts] Cons.prems(3) vs Cons by simp
    with Cons t vs show ?thesis
      by (simp add: items_tail_simps reads_backD(2) parse_item_step)
  qed
qed simp

definition entry_text :: "(js_string \<times> opv) \<Rightarrow> js_string \<Rightarrow> js_string" where
  "entry_text e t = quote_json_string (fst e) @ [0x3A, 0x20] @ t"

lemma quote_cons: "\<exists>us. quote_json_string s = 0x22 # us"
  by (simp add: quote_json_string_def)

lemma entry_head: "skip_ws (entry_text e t @ r) = entry_text e t @ r" "entry_text e t \<noteq> []"
  using quote_cons [of "fst e"] by (auto simp: entry_text_def)

lemma parse_entry_step:
  assumes "reads_back read t (snd e)" and "number_end r" and "map_of seen (fst e) = None"
  shows "parse_entries read path seen acc (entry_text e t @ r) =
    (case skip_ws r of
       [] \<Rightarrow> json_fail ExpectedCommaOrObjectCloser []
     | u # us \<Rightarrow>
         if u = 0x7D then rbind (lift_json (ordered_projected_object (acc @ [e]))) (\<lambda>y. Inr (y, us))
         else if u \<noteq> 0x2C then json_fail ExpectedCommaOrObjectCloser (u # us)
         else parse_entries read path ((fst e, length (entry_text e t @ r)) # seen) (acc @ [e]) (skip_ws us))"
proof -
  let ?src = "entry_text e t @ r"
  have tok: "parse_string_token ?src = Inr (fst e, 0x3A # 0x20 # t @ r)"
    using parse_quoted [of "fst e"] by (simp add: entry_text_def)
  have val: "parse_value read (property_path path (fst e)) (0x20 # t @ r) = Inr (snd e, r)"
  proof -
    have "parse_value read p (0x20 # t @ r) = parse_value read p (t @ r)" for p
      by (subst (1 2) parse_value.simps) simp
    with reads_backD(1) [OF assms(1,2)] show ?thesis by simp
  qed
  show ?thesis
  proof (cases e)
    case (Pair k v)
    with tok val assms(3) show ?thesis
      unfolding Pair by (subst parse_entries.simps) (simp add: entry_head Let_def split: list.split)
  qed
qed

lemma parse_entries_back:
  assumes "list_all2 (\<lambda>t e. reads_back read t (snd e)) ts es" and "ts \<noteq> []"
    and "distinct (map fst (acc @ es))" and "\<forall>e \<in> set (acc @ es). opv_ok (snd e)"
    and "fst ` set seen = fst ` set acc"
  shows "parse_entries read path seen acc (skip_ws (items_tail d (map2 entry_text es ts) [0x7D] r)) =
    Inr (OObj (acc @ es), r)"
  using assms
proof (induction ts arbitrary: es acc seen)
  case (Cons t ts)
  then obtain e fs where es: "es = e # fs" and t: "reads_back read t (snd e)"
    and ts: "list_all2 (\<lambda>t e. reads_back read t (snd e)) ts fs"
    by (auto simp: list_all2_Cons1)
  have lift: "lift_json (ordered_projected_object es) = Inr (OObj es)"
    if "distinct (map fst es)" "\<forall>e \<in> set es. opv_ok (snd e)" for es
    using that by (simp add: lift_json_def ordered_projected_object_def assert_sound(2) [THEN iffD2])
  have fresh: "map_of seen (fst e) = None"
    using Cons.prems(3,5) es by (auto simp: map_of_eq_None_iff)
  show ?case
  proof (cases ts)
    case Nil
    with ts have "fs = []" by simp
    with Nil t es fresh Cons.prems(3,4) show ?thesis
      by (simp add: items_tail_simps entry_head parse_entry_step lift)
  next
    case (Cons t' ts')
    from ts Cons obtain e' fs' where fs: "fs = e' # fs'" by (auto simp: list_all2_Cons1)
    let ?tail = "items_tail d (map2 entry_text fs ts) [0x7D] r"
    have "parse_entries read path ((fst e, n) # seen) (acc @ [e]) (skip_ws ?tail) = Inr (OObj ((acc @ [e]) @ fs), r)"
      for n
      using Cons.prems(3,4,5) es Cons by (intro Cons.IH [OF ts]) auto
    with Cons fs t es fresh show ?thesis
      by (simp add: items_tail_simps entry_head parse_entry_step)
  qed
qed simp

lemma reads_back_head: "reads_back read (u # us) v \<Longrightarrow> u \<noteq> 0x5D"
proof
  assume "reads_back read (u # us) v" and u: "u = 0x5D"
  from reads_backD(1) [OF this(1), of "[]" "[]"] u show False
    by (simp add: parse_value.simps json_fail_def starts_with_def js_units is_digit_def)
qed

lemma items_start:
  assumes "reads_back read t v" and "skip_ws (items_tail d (t # ts) close r) = u # us"
  shows "u \<noteq> 0x5D"
proof -
  from assms(1) obtain w ws where t: "t = w # ws" "\<not> json_ws w" by (auto simp: reads_back_def)
  with assms(2) have "u = w" by (cases ts) (simp_all add: items_tail_def)
  with assms(1) t reads_back_head show ?thesis by blast
qed

lemma array_reads_back:
  assumes "list_all2 (reads_back read) ts vs" and "ts \<noteq> []" and "\<forall>v \<in> set vs. opv_ok v"
  shows "reads_back read (js ''['' @ [0x0A] @ join_text [0x2C, 0x0A] (map (\<lambda>t. indent_of (Suc d) @ t) ts) @
    [0x0A] @ indent_of d @ js '']'') (OArr vs)"
proof -
  let ?text = "js ''['' @ [0x0A] @ join_text [0x2C, 0x0A] (map (\<lambda>t. indent_of (Suc d) @ t) ts) @
    [0x0A] @ indent_of d @ js '']''"
  from assms(1,2) obtain t tr v vr where ts: "ts = t # tr" "vs = v # vr" "reads_back read t v"
    by (cases ts) (auto simp: list_all2_Cons1)
  have "parse_value read path (?text @ r) = Inr (OArr vs, r)" for path r
  proof -
    let ?s = "skip_ws (items_tail d ts [0x5D] r)"
    have items: "parse_items read path [] ?s = Inr (OArr vs, r)"
      using parse_items_back [OF assms(1,2), of "[]"] assms(3) by simp
    then obtain w ws where w: "?s = w # ws"
      by (cases ?s) (simp_all add: parse_items.simps json_fail_def)
    have "w \<noteq> 0x5D" using items_start ts w by blast
    moreover have "?text @ r = 0x5B # 0x0A # items_tail d ts [0x5D] r"
      by (simp add: items_tail_def js_units)
    ultimately show ?thesis using items w by (simp add: parse_value.simps)
  qed
  then show ?thesis by (simp add: reads_back_def js_units)
qed

lemma object_reads_back:
  assumes "list_all2 (\<lambda>t e. reads_back read t (snd e)) ts es" and "ts \<noteq> []"
    and "distinct (map fst es)" and "\<forall>e \<in> set es. opv_ok (snd e)"
  shows "reads_back read (js ''{'' @ [0x0A] @ join_text [0x2C, 0x0A]
      (map2 (\<lambda>e t. indent_of (Suc d) @ quote_json_string (fst e) @ [0x3A, 0x20] @ t) es ts) @
    [0x0A] @ indent_of d @ js ''}'') (OObj es)"
proof -
  let ?join = "join_text [0x2C, 0x0A]
      (map2 (\<lambda>e t. indent_of (Suc d) @ quote_json_string (fst e) @ [0x3A, 0x20] @ t) es ts)"
  let ?text = "js ''{'' @ [0x0A] @ ?join @ [0x0A] @ indent_of d @ js ''}''"
  have join: "?join = join_text [0x2C, 0x0A] (map (\<lambda>t. indent_of (Suc d) @ t) (map2 entry_text es ts))"
    by (simp add: entry_text_def comp_def split_def)
  from assms(1,2) obtain t tr e er where ts: "ts = t # tr" "es = e # er"
    by (cases ts) (auto simp: list_all2_Cons1)
  have "parse_value read path (?text @ r) = Inr (OObj es, r)" for path r
  proof -
    let ?s = "skip_ws (items_tail d (map2 entry_text es ts) [0x7D] r)"
    have entries: "parse_entries read path [] [] ?s = Inr (OObj es, r)"
      using parse_entries_back [OF assms(1,2), of "[]"] assms(3,4) by simp
    obtain ws where w: "?s = 0x22 # ws"
      using quote_cons [of "fst e"] ts
      by (cases "map2 entry_text er tr") (auto simp: items_tail_def entry_text_def)
    have "?text @ r = 0x7B # 0x0A # items_tail d (map2 entry_text es ts) [0x7D] r"
      unfolding join by (simp add: items_tail_def js_units)
    then show ?thesis using entries w by (simp add: parse_value.simps)
  qed
  then show ?thesis by (simp add: reads_back_def js_units)
qed

lemma empty_reads_back: "reads_back read (js ''[]'') (OArr [])" "reads_back read (js ''{}'') (OObj [])"
  by (simp_all add: reads_back_def js_units parse_value.simps lift_json_def ordered_projected_array_def
      ordered_projected_object_def)

lemma emitted_reads_back:
  assumes "number_text_law spell read"
  shows "opv_ok v \<Longrightarrow> \<exists>t. emit_ordered_json spell d v = Inr t \<and> reads_back read t v"
proof (induction v arbitrary: d)
  case (OPrim p)
  show ?case
  proof (cases p)
    case (PNum x)
    with OPrim have x: "num_finite x" by simp
    show ?thesis
    proof (cases "x = num_neg_zero")
      case True
      have "number_match (js ''-0'') = Some (js ''-0'')"
        by (simp add: js_units number_match_def unsigned_match_def integer_part_def fraction_part_def exponent_part_def)
      from number_reads_back [OF this _ x] True x assms PNum show ?thesis
        by (simp add: num_object_is_def number_text_law_def)
    next
      case False
      with x assms have "number_match (spell x) = Some (spell x)" "read (spell x) = x"
        by (simp_all add: number_text_law_def)
      from number_reads_back [of "spell x" read x] this False x PNum show ?thesis by (simp add: num_object_is_finite)
    qed
  qed (simp_all add: string_reads_back word_reads_back)
next
  case (OArr vs)
  show ?case
  proof (cases "vs = []")
    case False
    define f where "f v = projr (emit_ordered_json spell (Suc d) v)" for v
    have f: "emit_ordered_json spell (Suc d) v = Inr (f v) \<and> reads_back read (f v) v" if "v \<in> set vs" for v
      using OArr.IH [OF that, of "Suc d"] OArr.prems that by (auto simp: f_def)
    then have "traverse (emit_ordered_json spell (Suc d)) vs = Inr (map f vs)" by (intro traverse_total) simp
    moreover have "list_all2 (reads_back read) (map f vs) vs" using f by (simp add: list_all2_map1 list.rel_refl_strong)
    ultimately show ?thesis using array_reads_back [of read "map f vs" vs d] OArr.prems False by simp
  qed (simp add: empty_reads_back)
next
  case (OObj es)
  show ?case
  proof (cases "es = []")
    case False
    define f where "f e = projr (emit_ordered_json spell (Suc d) (snd e))" for e :: "js_string \<times> opv"
    have f: "emit_ordered_json spell (Suc d) (snd e) = Inr (f e) \<and> reads_back read (f e) (snd e)" if "e \<in> set es" for e
    proof -
      have "opv_ok (snd e)" using OObj.prems that by simp
      with OObj.IH [of e "snd e" "Suc d"] that obtain t
        where "emit_ordered_json spell (Suc d) (snd e) = Inr t" "reads_back read t (snd e)"
        by (cases e) auto
      then show ?thesis by (simp add: f_def)
    qed
    then have "traverse (\<lambda>e. emit_ordered_json spell (Suc d) (snd e)) es = Inr (map f es)" by (intro traverse_total) simp
    moreover have "list_all2 (\<lambda>t e. reads_back read t (snd e)) (map f es) es"
      using f by (simp add: list_all2_map1 list.rel_refl_strong)
    ultimately show ?thesis using object_reads_back [of read "map f es" es d] OObj.prems False by simp
  qed (simp add: empty_reads_back)
qed

lemma json_text_back:
  assumes "number_text_law spell read" and "opv_ok v"
  shows "\<exists>t. emit_ordered_json spell 0 v = Inr t \<and> parse_ordered_json_text read t = Inr v"
proof -
  from emitted_reads_back [OF assms] obtain t where t: "emit_ordered_json spell 0 v = Inr t" "reads_back read t v" by blast
  from reads_backD(1) [OF t(2), of "[]" "js ''$''"] t(1) show ?thesis by (simp add: parse_ordered_json_text_def)
qed

section \<open>A concrete pair of conversions\<close>

definition spell_bits :: "js_number \<Rightarrow> js_string" where
  "spell_bits x = nat_str (unat x)"

definition read_bits :: "js_string \<Rightarrow> js_number" where
  "read_bits t =
     (if t = js ''-0'' then num_neg_zero
      else of_nat (foldl (\<lambda>a u. 10 * a + unat (u - 0x30)) 0 t))"

lemma digit_unit_facts: "d < 10 \<Longrightarrow> is_digit (digit_unit d) \<and> unat (digit_unit d - 0x30) = d \<and> (digit_unit d = 0x30 \<longleftrightarrow> d = 0)"
proof -
  assume "d < 10"
  then have "d \<in> set [0..<10]" by simp
  then show ?thesis
    by (simp add: upt_conv_Cons) (elim disjE; simp add: digit_unit_def is_digit_def)
qed

lemma nat_digits_nonempty: "nat_digits n \<noteq> []"
  by (subst nat_digits.simps) simp

lemma nat_digits_head: "n \<noteq> 0 \<Longrightarrow> hd (nat_digits n) \<noteq> 0"
proof (induction n rule: nat_digits.induct)
  case (1 n)
  then show ?case by (subst nat_digits.simps) (auto simp: nat_digits_nonempty)
qed

lemma nat_str_match: "number_match (nat_str n) = Some (nat_str n)"
proof -
  obtain d ds where ds: "nat_digits n = d # ds" using nat_digits_nonempty by (cases "nat_digits n") auto
  have lt: "d < 10" "\<forall>x \<in> set ds. x < 10" using nat_digits_lt [of n] ds by auto
  have all: "digits_of (map digit_unit ds) = map digit_unit ds"
    using lt(2) digit_unit_facts by (simp add: digits_of_def takeWhile_eq_all_conv)
  have nil: "d = 0 \<Longrightarrow> ds = []"
    using nat_digits_head [of n] ds by (cases "n = 0") (simp_all add: nat_digits.simps)
  have "digit_unit d \<noteq> 0x2D" using digit_unit_facts [OF lt(1)] by (auto simp: is_digit_def)
  moreover have "integer_part (map digit_unit (d # ds)) = Some (map digit_unit (d # ds))"
    using digit_unit_facts [OF lt(1)] nil all by (auto simp: integer_part_def)
  ultimately show ?thesis
    using ds by (simp add: nat_str_def number_match_def unsigned_match_def fraction_part_def exponent_part_def)
qed

lemma nat_str_value: "foldl (\<lambda>a u. 10 * a + unat (u - 0x30)) 0 (nat_str n) = n"
proof -
  have "foldl (\<lambda>a u. 10 * a + unat (u - 0x30)) a (map digit_unit ds) = foldl (\<lambda>a d. 10 * a + d) a ds"
    if "\<forall>d \<in> set ds. d < 10" for a ds
    using that digit_unit_facts by (induction ds arbitrary: a) auto
  then show ?thesis using nat_digits_lt [of n] nat_digits_value [of n] by (simp add: nat_str_def)
qed

lemma bits_law: "number_text_law spell_bits read_bits"
proof -
  have "nat_str n \<noteq> js ''-0''" for n
  proof
    assume e: "nat_str n = js ''-0''"
    have "number_match (js ''-0'') = Some (nat_str n)" unfolding e [symmetric] by (rule nat_str_match)
    then have "is_digit (hd (nat_str n))"
      using nat_digits_nonempty [of n] nat_digits_lt [of n] digit_unit_facts
      by (simp add: nat_str_def hd_map)
    with e show False by (simp add: js_units is_digit_def)
  qed
  then show ?thesis
    by (simp add: number_text_law_def spell_bits_def read_bits_def nat_str_match nat_str_value)
qed

text \<open>
  C9: every valid carrier has a JSON text, and parsing that text gives the carrier back: strings
  with quotes, control characters and lone surrogates, both zeros, and the order of properties,
  integer-like names included. The number conversions are those of the language.
\<close>

theorem json_text_roundtrip:
  assumes "number_text_law spell read" and "opv_ok v"
  shows "\<exists>t. emit_ordered_json spell 0 v = Inr t \<and> parse_ordered_json_text read t = Inr v"
  using assms by (rule json_text_back)

theorem json_text_roundtrip_witness:
  "\<exists>t. emit_ordered_json spell_bits 0 (OObj [(js ''a'', OArr [OPrim (PNum 0x8000000000000000), OPrim PNull]), (js ''0'', OPrim (PStr [0xD800, 0x22]))]) = Inr t \<and>
    parse_ordered_json_text read_bits t =
      Inr (OObj [(js ''a'', OArr [OPrim (PNum 0x8000000000000000), OPrim PNull]), (js ''0'', OPrim (PStr [0xD800, 0x22]))])"
  by (rule json_text_roundtrip [OF bits_law]) (simp add: num_finite_def num_exponent_def)

end
