(* ===== verification/Data_Transport.thy ===== *)
theory Data_Transport
  imports Data_Plan Ordered_Json_Laws Value_Materialization
begin

text \<open>
  The wire form of commits and values (\<open>api/livemap/livemap.transport.ts\<close>): an operation becomes a
  carrier object with its fields in a fixed order, a sequence of operations an array of them, and
  the carrier its JSON text. Decoding checks the fields, their order and their types.
  Indexes stay below \<open>2 ^ 53\<close>, where every number is the natural number it spells.
\<close>

datatype codec_reason =
    KindUnsupported
  | SpliceStartInvalidField
  | DeleteNextPresent
  | NextAbsent
  | PresenceInvalid js_string
  | NotArrayField js_string
  | NotObjectField js_string
  | NotStringField js_string
  | NotMoveIndex js_string
  | PathInvalid
  | NotOperationObject
  | FieldsInvalid
  | PayloadNotArray
  | PayloadNotJson "text_position json_error"

datatype codec_error = CodecError codec_reason "nat option"

section \<open>Operations as carriers\<close>

definition arg_number :: "num_arg \<Rightarrow> js_number" where
  "arg_number a = (case a of IntArg i \<Rightarrow> if i < 0 then num_neg_zero + num_of_nat (nat (- i)) else num_of_nat (nat i) | OtherArg x \<Rightarrow> x)"

definition part_carrier :: "path_part \<Rightarrow> opv" where
  "part_carrier part = (case part of PKey k \<Rightarrow> OPrim (PStr k) | PIdx a \<Rightarrow> OPrim (PNum (arg_number a)))"

definition optional_to_carrier :: "opv option \<Rightarrow> opv_error + opv" where
  "optional_to_carrier v = (case v of None \<Rightarrow> ordered_projected_array [] | Some x \<Rightarrow> ordered_projected_array [x])"

fun kind_name :: "projected_op \<Rightarrow> js_string" where
  "kind_name (PutData k p prev next') = (case k of PutSet \<Rightarrow> js ''set'' | PutReplace \<Rightarrow> js ''replace'')"
| "kind_name (DropData p prev) = js ''delete''"
| "kind_name (SpliceData p start removed inserted prev next') = js ''splice''"
| "kind_name (RenameData p src dst prev next') = js ''rename''"
| "kind_name (MoveData p src dst prev next') = js ''move''"

definition put_drop_carrier :: "js_string \<Rightarrow> live_path \<Rightarrow> opv option \<Rightarrow> opv option \<Rightarrow> opv_error + opv" where
  "put_drop_carrier kind path prev next' =
     rbind (ordered_projected_array (map part_carrier path)) (\<lambda>p.
     rbind (optional_to_carrier prev) (\<lambda>a.
     rbind (optional_to_carrier next') (\<lambda>b.
       ordered_projected_object
         [(js ''kind'', OPrim (PStr kind)), (js ''path'', p), (js ''prev'', a), (js ''next'', b)])))"

definition edit_carrier :: "js_string \<Rightarrow> live_path \<Rightarrow> opv \<Rightarrow> opv \<Rightarrow> opv \<Rightarrow> opv \<Rightarrow> opv_error + opv" where
  "edit_carrier kind path src dst prev next' =
     rbind (ordered_projected_array (map part_carrier path)) (\<lambda>p.
       ordered_projected_object
         [(js ''kind'', OPrim (PStr kind)), (js ''path'', p), (js ''from'', src), (js ''to'', dst),
          (js ''prev'', prev), (js ''next'', next')])"

fun projected_op_to_carrier :: "projected_op \<Rightarrow> opv_error + opv" where
  "projected_op_to_carrier (SpliceData path start removed inserted prev next') =
     rbind (ordered_projected_array (map part_carrier path)) (\<lambda>p.
     rbind (ordered_projected_array removed) (\<lambda>r.
     rbind (ordered_projected_array inserted) (\<lambda>i.
     rbind (ordered_projected_array prev) (\<lambda>a.
     rbind (ordered_projected_array next') (\<lambda>b.
       ordered_projected_object
         [(js ''kind'', OPrim (PStr (js ''splice''))), (js ''path'', p),
          (js ''start'', OPrim (PNum (arg_number start))),
          (js ''removed'', r), (js ''inserted'', i), (js ''prev'', a), (js ''next'', b)])))))"
| "projected_op_to_carrier (RenameData path src dst prev next') =
     edit_carrier (js ''rename'') path (OPrim (PStr src)) (OPrim (PStr dst)) (OObj prev) (OObj next')"
| "projected_op_to_carrier (MoveData path src dst prev next') =
     edit_carrier (js ''move'') path (OPrim (PNum (arg_number src))) (OPrim (PNum (arg_number dst)))
       (OArr prev) (OArr next')"
| "projected_op_to_carrier (PutData k path prev next') =
     put_drop_carrier (kind_name (PutData k path prev next')) path prev (Some next')"
| "projected_op_to_carrier (DropData path prev) = put_drop_carrier (js ''delete'') path prev None"

section \<open>Carriers as operations\<close>

definition record_value :: "(js_string \<times> opv) list \<Rightarrow> js_string \<Rightarrow> opv option" where
  "record_value es key = map_option snd (find (\<lambda>e. fst e = key) es)"

definition codec_fail :: "nat \<Rightarrow> codec_reason \<Rightarrow> codec_error + 'a" where
  "codec_fail i r = Inl (CodecError r (Some i))"

definition must_exact_keys :: "nat \<Rightarrow> (js_string \<times> opv) list \<Rightarrow> js_string list \<Rightarrow> codec_error + unit" where
  "must_exact_keys i es keys = (if map fst es = keys then Inr () else codec_fail i FieldsInvalid)"

definition must_optional :: "nat \<Rightarrow> opv option \<Rightarrow> js_string \<Rightarrow> codec_error + opv option" where
  "must_optional i v field =
     (case v of
        Some (OArr []) \<Rightarrow> Inr None
      | Some (OArr [x]) \<Rightarrow> Inr (Some x)
      | _ \<Rightarrow> codec_fail i (PresenceInvalid field))"

definition must_array :: "nat \<Rightarrow> opv option \<Rightarrow> js_string \<Rightarrow> codec_error + opv list" where
  "must_array i v field = (case v of Some (OArr vs) \<Rightarrow> Inr vs | _ \<Rightarrow> codec_fail i (NotArrayField field))"

definition must_object :: "nat \<Rightarrow> opv option \<Rightarrow> js_string \<Rightarrow> codec_error + (js_string \<times> opv) list" where
  "must_object i v field = (case v of Some (OObj es) \<Rightarrow> Inr es | _ \<Rightarrow> codec_fail i (NotObjectField field))"

definition must_string :: "nat \<Rightarrow> opv option \<Rightarrow> js_string \<Rightarrow> codec_error + js_string" where
  "must_string i v field =
     (case v of Some (OPrim (PStr s)) \<Rightarrow> Inr s | _ \<Rightarrow> codec_fail i (NotStringField field))"

definition number_index :: "opv \<Rightarrow> int option" where
  "number_index v =
     (case v of
        OPrim (PNum x) \<Rightarrow> (case num_int x of Some n \<Rightarrow> if 0 \<le> n then Some n else None | None \<Rightarrow> None)
      | _ \<Rightarrow> None)"

definition must_move_index :: "nat \<Rightarrow> opv option \<Rightarrow> js_string \<Rightarrow> codec_error + num_arg" where
  "must_move_index i v field =
     (case Option.bind v number_index of
        Some n \<Rightarrow> if n \<le> max_safe_integer then Inr (IntArg n) else codec_fail i (NotMoveIndex field)
      | None \<Rightarrow> codec_fail i (NotMoveIndex field))"

definition decode_part :: "nat \<Rightarrow> opv \<Rightarrow> codec_error + path_part" where
  "decode_part i v =
     (case v of
        OPrim (PStr k) \<Rightarrow> Inr (PKey k)
      | _ \<Rightarrow> (case number_index v of Some n \<Rightarrow> Inr (PIdx (IntArg n)) | None \<Rightarrow> codec_fail i PathInvalid))"

definition must_path :: "nat \<Rightarrow> opv option \<Rightarrow> codec_error + live_path" where
  "must_path i v =
     (case v of Some (OArr vs) \<Rightarrow> traverse (decode_part i) vs | _ \<Rightarrow> codec_fail i PathInvalid)"

definition decode_splice :: "nat \<Rightarrow> (js_string \<times> opv) list \<Rightarrow> codec_error + projected_op" where
  "decode_splice i es =
     rbind (must_exact_keys i es (map js [''kind'', ''path'', ''start'', ''removed'', ''inserted'', ''prev'', ''next''])) (\<lambda>u.
     case Option.bind (record_value es (js ''start'')) number_index of
       None \<Rightarrow> codec_fail i SpliceStartInvalidField
     | Some start \<Rightarrow>
         rbind (must_path i (record_value es (js ''path''))) (\<lambda>path.
         rbind (must_array i (record_value es (js ''removed'')) (js ''removed'')) (\<lambda>removed.
         rbind (must_array i (record_value es (js ''inserted'')) (js ''inserted'')) (\<lambda>inserted.
         rbind (must_array i (record_value es (js ''prev'')) (js ''prev'')) (\<lambda>prev.
         rbind (must_array i (record_value es (js ''next'')) (js ''next'')) (\<lambda>next'.
           Inr (SpliceData path (IntArg start) removed inserted prev next')))))))"

definition edit_keys :: "js_string list" where
  "edit_keys = map js [''kind'', ''path'', ''from'', ''to'', ''prev'', ''next'']"

definition decode_rename :: "nat \<Rightarrow> (js_string \<times> opv) list \<Rightarrow> codec_error + projected_op" where
  "decode_rename i es =
     rbind (must_exact_keys i es edit_keys) (\<lambda>u.
     rbind (must_path i (record_value es (js ''path''))) (\<lambda>path.
     rbind (must_string i (record_value es (js ''from'')) (js ''rename from'')) (\<lambda>src.
     rbind (must_string i (record_value es (js ''to'')) (js ''rename to'')) (\<lambda>dst.
     rbind (must_object i (record_value es (js ''prev'')) (js ''prev'')) (\<lambda>prev.
     rbind (must_object i (record_value es (js ''next'')) (js ''next'')) (\<lambda>next'.
       Inr (RenameData path src dst prev next')))))))"

definition decode_move :: "nat \<Rightarrow> (js_string \<times> opv) list \<Rightarrow> codec_error + projected_op" where
  "decode_move i es =
     rbind (must_exact_keys i es edit_keys) (\<lambda>u.
     rbind (must_path i (record_value es (js ''path''))) (\<lambda>path.
     rbind (must_move_index i (record_value es (js ''from'')) (js ''move from'')) (\<lambda>src.
     rbind (must_move_index i (record_value es (js ''to'')) (js ''move to'')) (\<lambda>dst.
     rbind (must_array i (record_value es (js ''prev'')) (js ''prev'')) (\<lambda>prev.
     rbind (must_array i (record_value es (js ''next'')) (js ''next'')) (\<lambda>next'.
       Inr (MoveData path src dst prev next')))))))"

definition decode_put_or_drop ::
    "nat \<Rightarrow> put_kind option \<Rightarrow> (js_string \<times> opv) list \<Rightarrow> codec_error + projected_op" where
  "decode_put_or_drop i kind es =
     rbind (must_exact_keys i es (map js [''kind'', ''path'', ''prev'', ''next''])) (\<lambda>u.
     rbind (must_path i (record_value es (js ''path''))) (\<lambda>path.
     rbind (must_optional i (record_value es (js ''prev'')) (js ''prev'')) (\<lambda>prev.
     rbind (must_optional i (record_value es (js ''next'')) (js ''next'')) (\<lambda>next'.
       case kind of
         None \<Rightarrow> if next' \<noteq> None then codec_fail i DeleteNextPresent else Inr (DropData path prev)
       | Some k \<Rightarrow> (case next' of None \<Rightarrow> codec_fail i NextAbsent | Some x \<Rightarrow> Inr (PutData k path prev x))))))"

definition carrier_to_projected_op :: "nat \<Rightarrow> opv \<Rightarrow> codec_error + projected_op" where
  "carrier_to_projected_op i v =
     (case v of
        OObj es \<Rightarrow>
          (case record_value es (js ''kind'') of
             Some (OPrim (PStr kind)) \<Rightarrow>
               if kind = js ''splice'' then decode_splice i es
               else if kind = js ''rename'' then decode_rename i es
               else if kind = js ''move'' then decode_move i es
               else if kind = js ''delete'' then decode_put_or_drop i None es
               else if kind = js ''set'' then decode_put_or_drop i (Some PutSet) es
               else if kind = js ''replace'' then decode_put_or_drop i (Some PutReplace) es
               else codec_fail i KindUnsupported
           | _ \<Rightarrow> codec_fail i KindUnsupported)
      | _ \<Rightarrow> codec_fail i NotOperationObject)"

section \<open>Payloads\<close>

datatype transport_fault = TransportCarrier opv_error | TransportNumber

definition encode_projected_value_transport ::
    "(js_number \<Rightarrow> js_string) \<Rightarrow> opv \<Rightarrow> transport_fault + js_string" where
  "encode_projected_value_transport spell v =
     (case emit_ordered_json spell 0 v of Inl e \<Rightarrow> Inl TransportNumber | Inr t \<Rightarrow> Inr t)"

definition decode_projected_value_payload ::
    "(js_string \<Rightarrow> js_number) \<Rightarrow> js_string \<Rightarrow> codec_error + opv" where
  "decode_projected_value_payload read payload =
     (case parse_ordered_json_text read payload of
        Inl e \<Rightarrow> Inl (CodecError (PayloadNotJson e) None)
      | Inr v \<Rightarrow> Inr v)"

definition encode_livemap_replay_transport ::
    "(js_number \<Rightarrow> js_string) \<Rightarrow> projected_op list \<Rightarrow> transport_fault + js_string" where
  "encode_livemap_replay_transport spell ops =
     (case rbind (traverse projected_op_to_carrier ops) ordered_projected_array of
        Inl e \<Rightarrow> Inl (TransportCarrier e)
      | Inr c \<Rightarrow> encode_projected_value_transport spell c)"

fun decode_ops_from :: "nat \<Rightarrow> opv list \<Rightarrow> codec_error + projected_op list" where
  "decode_ops_from i [] = Inr []"
| "decode_ops_from i (v # vs) =
     rbind (carrier_to_projected_op i v) (\<lambda>op. rbind (decode_ops_from (Suc i) vs) (\<lambda>ops. Inr (op # ops)))"

definition decode_livemap_replay_payload ::
    "(js_string \<Rightarrow> js_number) \<Rightarrow> js_string \<Rightarrow> codec_error + projected_op list" where
  "decode_livemap_replay_payload read payload =
     rbind (decode_projected_value_payload read payload) (\<lambda>v.
       case v of OArr vs \<Rightarrow> decode_ops_from 0 vs | _ \<Rightarrow> Inl (CodecError PayloadNotArray None))"

section \<open>What a plan emits can be sent\<close>

definition index_ok :: "num_arg \<Rightarrow> bool" where
  "index_ok a \<longleftrightarrow> (\<exists>n. a = IntArg n \<and> 0 \<le> n \<and> n \<le> max_safe_integer)"

definition path_ok :: "live_path \<Rightarrow> bool" where
  "path_ok path \<longleftrightarrow> (\<forall>a. PIdx a \<in> set path \<longrightarrow> index_ok a)"

fun op_ok :: "projected_op \<Rightarrow> bool" where
  "op_ok (PutData k p prev next') \<longleftrightarrow> path_ok p \<and> pred_option opv_ok prev \<and> opv_ok next'"
| "op_ok (DropData p prev) \<longleftrightarrow> path_ok p \<and> pred_option opv_ok prev"
| "op_ok (SpliceData p start removed inserted prev next') \<longleftrightarrow> path_ok p \<and> index_ok start \<and>
     opv_ok (OArr removed) \<and> opv_ok (OArr inserted) \<and> opv_ok (OArr prev) \<and> opv_ok (OArr next')"
| "op_ok (RenameData p src dst prev next') \<longleftrightarrow> path_ok p \<and> opv_ok (OObj prev) \<and> opv_ok (OObj next')"
| "op_ok (MoveData p src dst prev next') \<longleftrightarrow> path_ok p \<and> index_ok src \<and> index_ok dst \<and>
     opv_ok (OArr prev) \<and> opv_ok (OArr next')"

lemma index_number:
  assumes "index_ok a"
  shows "num_finite (arg_number a)" "number_index (OPrim (PNum (arg_number a))) = Some (case a of IntArg n \<Rightarrow> n)"
    "a = IntArg (case a of IntArg n \<Rightarrow> n)" "(case a of IntArg n \<Rightarrow> n) \<le> max_safe_integer"
proof -
  from assms obtain n where n: "a = IntArg n" "0 \<le> n" "n \<le> max_safe_integer" by (auto simp: index_ok_def)
  then have "nat n < 2 ^ 53" by (simp add: max_safe_integer_def nat_less_iff)
  from num_int_num_of_nat [OF this] n have num: "num_int (arg_number a) = Some n" by (simp add: arg_number_def)
  then show "num_finite (arg_number a)" by (auto simp: num_int_def Let_def split: if_splits)
  show "number_index (OPrim (PNum (arg_number a))) = Some (case a of IntArg n \<Rightarrow> n)"
    using num n by (simp add: number_index_def)
  show "a = IntArg (case a of IntArg n \<Rightarrow> n)" "(case a of IntArg n \<Rightarrow> n) \<le> max_safe_integer" using n by simp_all
qed

lemma path_carrier:
  assumes "path_ok path"
  shows "ordered_projected_array (map part_carrier path) = Inr (OArr (map part_carrier path))"
    and "must_path i (Some (OArr (map part_carrier path))) = Inr path"
    and "opv_ok (OArr (map part_carrier path))"
proof -
  have part: "opv_ok (part_carrier p) \<and> decode_part i (part_carrier p) = Inr p" if "p \<in> set path" for p
  proof (cases p)
    case (PIdx a)
    with that assms have "index_ok a" by (auto simp: path_ok_def)
    from index_number [OF this] PIdx show ?thesis by (simp add: part_carrier_def decode_part_def)
  qed (simp add: part_carrier_def decode_part_def)
  then show ok: "opv_ok (OArr (map part_carrier path))" by auto
  then show "ordered_projected_array (map part_carrier path) = Inr (OArr (map part_carrier path))"
    by (simp add: ordered_projected_array_iff)
  have "traverse (decode_part i) (map part_carrier path) = Inr path"
    using part by (induction path) auto
  then show "must_path i (Some (OArr (map part_carrier path))) = Inr path" by (simp add: must_path_def)
qed

section \<open>Decoding what was encoded\<close>

lemma field_names [simp]: "js s = js t \<longleftrightarrow> s = t"
  by (rule js_inject)

lemma record_value_simps [simp]:
  "record_value [] k = None"
  "record_value ((k', v) # es) k = (if k' = k then Some v else record_value es k)"
  by (simp_all add: record_value_def)

lemma optional_carrier:
  assumes "pred_option opv_ok v"
  shows "\<exists>vs. optional_to_carrier v = Inr (OArr vs) \<and> opv_ok (OArr vs) \<and> must_optional i (Some (OArr vs)) f = Inr v"
  using assms by (cases v) (auto simp: optional_to_carrier_def must_optional_def ordered_projected_array_iff)

lemma array_factory: "opv_ok (OArr vs) \<Longrightarrow> ordered_projected_array vs = Inr (OArr vs)"
  by (simp add: ordered_projected_array_iff)

lemma object_factory: "opv_ok (OObj es) \<Longrightarrow> ordered_projected_object es = Inr (OObj es)"
  by (simp add: ordered_projected_object_iff)

lemma put_drop_back:
  assumes "path_ok path" and "pred_option opv_ok prev" and "pred_option opv_ok next'"
  shows "\<exists>es. put_drop_carrier kind path prev next' = Inr (OObj es) \<and> opv_ok (OObj es) \<and>
    record_value es (js ''kind'') = Some (OPrim (PStr kind)) \<and>
    decode_put_or_drop i k es =
      (case k of
         None \<Rightarrow> if next' \<noteq> None then codec_fail i DeleteNextPresent else Inr (DropData path prev)
       | Some k \<Rightarrow> (case next' of None \<Rightarrow> codec_fail i NextAbsent | Some x \<Rightarrow> Inr (PutData k path prev x)))"
proof -
  note p = path_carrier [OF assms(1)]
  obtain a where a: "optional_to_carrier prev = Inr (OArr a)" "opv_ok (OArr a)"
    "must_optional i (Some (OArr a)) (js ''prev'') = Inr prev"
    using optional_carrier [OF assms(2), of i] by blast
  obtain b where b: "optional_to_carrier next' = Inr (OArr b)" "opv_ok (OArr b)"
    "must_optional i (Some (OArr b)) (js ''next'') = Inr next'"
    using optional_carrier [OF assms(3), of i] by blast
  let ?es = "[(js ''kind'', OPrim (PStr kind)), (js ''path'', OArr (map part_carrier path)),
    (js ''prev'', OArr a), (js ''next'', OArr b)]"
  have ok: "opv_ok (OObj ?es)" using p(3) a(2) b(2) by simp
  have "put_drop_carrier kind path prev next' = Inr (OObj ?es)"
    unfolding put_drop_carrier_def p(1) a(1) b(1) rbind_simps object_factory [OF ok] ..
  moreover have "decode_put_or_drop i k ?es =
      (case k of
         None \<Rightarrow> if next' \<noteq> None then codec_fail i DeleteNextPresent else Inr (DropData path prev)
       | Some k \<Rightarrow> (case next' of None \<Rightarrow> codec_fail i NextAbsent | Some x \<Rightarrow> Inr (PutData k path prev x)))"
    by (simp add: decode_put_or_drop_def must_exact_keys_def p(2) a(3) b(3))
  ultimately show ?thesis using ok by (intro exI [of _ ?es]) simp
qed

lemma edit_carrier_eq:
  assumes "path_ok path" and "opv_ok src" and "opv_ok dst" and "opv_ok prev" and "opv_ok next'"
  shows "edit_carrier kind path src dst prev next' = Inr (OObj
    [(js ''kind'', OPrim (PStr kind)), (js ''path'', OArr (map part_carrier path)), (js ''from'', src), (js ''to'', dst),
     (js ''prev'', prev), (js ''next'', next')])" (is "_ = Inr (OObj ?es)")
    and "opv_ok (OObj [(js ''kind'', OPrim (PStr kind)), (js ''path'', OArr (map part_carrier path)), (js ''from'', src),
      (js ''to'', dst), (js ''prev'', prev), (js ''next'', next')])"
proof -
  show ok: "opv_ok (OObj ?es)" using path_carrier(3) [OF assms(1)] assms(2-) by simp
  show "edit_carrier kind path src dst prev next' = Inr (OObj ?es)"
    unfolding edit_carrier_def path_carrier(1) [OF assms(1)] rbind_simps object_factory [OF ok] ..
qed

lemma projected_op_back:
  assumes "op_ok x"
  shows "\<exists>c. projected_op_to_carrier x = Inr c \<and> opv_ok c \<and> carrier_to_projected_op i c = Inr x"
proof (cases x)
  case (PutData k path prev next')
  with assms put_drop_back [of path prev "Some next'" "kind_name x" i "Some k"] show ?thesis
    by (cases k) (auto simp: carrier_to_projected_op_def)
next
  case (DropData path prev)
  with assms put_drop_back [of path prev None "js ''delete''" i None] show ?thesis
    by (auto simp: carrier_to_projected_op_def)
next
  case (SpliceData path start removed inserted prev next')
  with assms have ok: "path_ok path" "index_ok start" "opv_ok (OArr removed)" "opv_ok (OArr inserted)"
    "opv_ok (OArr prev)" "opv_ok (OArr next')" by simp_all
  note p = path_carrier [OF ok(1)]
  obtain n where n: "start = IntArg n" using ok(2) by (auto simp: index_ok_def)
  let ?es = "[(js ''kind'', OPrim (PStr (js ''splice''))), (js ''path'', OArr (map part_carrier path)),
     (js ''start'', OPrim (PNum (arg_number start))),
     (js ''removed'', OArr removed), (js ''inserted'', OArr inserted), (js ''prev'', OArr prev), (js ''next'', OArr next')]"
  have es: "opv_ok (OObj ?es)" using p(3) index_number(1) [OF ok(2)] ok(3-) by simp
  have c: "projected_op_to_carrier x = Inr (OObj ?es)"
    unfolding SpliceData projected_op_to_carrier.simps p(1) rbind_simps array_factory [OF ok(3)]
      array_factory [OF ok(4)] array_factory [OF ok(5)] array_factory [OF ok(6)] object_factory [OF es] ..
  have "carrier_to_projected_op i (OObj ?es) = Inr x"
    using index_number(2) [OF ok(2)] n p(2)
    by (simp add: carrier_to_projected_op_def decode_splice_def must_exact_keys_def must_array_def SpliceData)
  with c es show ?thesis by blast
next
  case (RenameData path src dst prev next')
  with assms have ok: "path_ok path" "opv_ok (OPrim (PStr src))" "opv_ok (OPrim (PStr dst))" "opv_ok (OObj prev)"
    "opv_ok (OObj next')" by simp_all
  show ?thesis
    using edit_carrier_eq [OF ok, of "js ''rename''"] path_carrier(2) [OF ok(1)]
    by (simp add: RenameData carrier_to_projected_op_def decode_rename_def must_exact_keys_def edit_keys_def
        must_string_def must_object_def)
next
  case (MoveData path src dst prev next')
  with assms have idx: "index_ok src" "index_ok dst" by simp_all
  with MoveData assms have ok: "path_ok path" "opv_ok (OPrim (PNum (arg_number src)))"
    "opv_ok (OPrim (PNum (arg_number dst)))" "opv_ok (OArr prev)" "opv_ok (OArr next')"
    using index_number(1) by simp_all
  obtain m n where mn: "src = IntArg m" "dst = IntArg n" using idx by (auto simp: index_ok_def)
  show ?thesis
    using edit_carrier_eq [OF ok, of "js ''move''"] path_carrier(2) [OF ok(1)] index_number(2,4) [OF idx(1)]
      index_number(2,4) [OF idx(2)] mn
    by (simp add: MoveData carrier_to_projected_op_def decode_move_def must_exact_keys_def edit_keys_def
        must_move_index_def must_array_def)
qed

lemma projected_ops_back:
  "list_all op_ok ops \<Longrightarrow> \<exists>cs. traverse projected_op_to_carrier ops = Inr cs \<and> (\<forall>c \<in> set cs. opv_ok c) \<and>
     decode_ops_from i cs = Inr ops"
proof (induction ops arbitrary: i)
  case (Cons x ops)
  then obtain c where c: "projected_op_to_carrier x = Inr c" "opv_ok c" "carrier_to_projected_op i c = Inr x"
    using projected_op_back [of x i] by auto
  from Cons obtain cs where "traverse projected_op_to_carrier ops = Inr cs" "\<forall>c \<in> set cs. opv_ok c"
    "decode_ops_from (Suc i) cs = Inr ops" by auto
  with c show ?case by (intro exI [of _ "c # cs"]) simp
qed simp

lemma payload_back:
  assumes "number_text_law spell read" and "list_all op_ok ops"
  shows "\<exists>payload. encode_livemap_replay_transport spell ops = Inr payload \<and>
    decode_livemap_replay_payload read payload = Inr ops"
proof -
  obtain cs where cs: "traverse projected_op_to_carrier ops = Inr cs" "\<forall>c \<in> set cs. opv_ok c"
    "decode_ops_from 0 cs = Inr ops" using projected_ops_back [OF assms(2)] by blast
  then have ok: "opv_ok (OArr cs)" by simp
  from json_text_back [OF assms(1) this] obtain t
    where t: "emit_ordered_json spell 0 (OArr cs) = Inr t" "parse_ordered_json_text read t = Inr (OArr cs)" by blast
  from t(1) cs(1) array_factory [OF ok] have "encode_livemap_replay_transport spell ops = Inr t"
    unfolding encode_livemap_replay_transport_def encode_projected_value_transport_def
    by (simp only: rbind_simps sum.case)
  moreover from t(2) cs(3) have "decode_livemap_replay_payload read t = Inr ops"
    by (simp add: decode_livemap_replay_payload_def decode_projected_value_payload_def)
  ultimately show ?thesis by blast
qed

text \<open>
  C39: the payload a live map writes for the operations of a commit, read by a receiver, gives
  back exactly those operations, with number conversions that invert each other.
\<close>

theorem commit_payload_roundtrip:
  assumes "number_text_law spell read" and "list_all op_ok ops"
  shows "\<exists>payload. encode_livemap_replay_transport spell ops = Inr payload \<and>
    decode_livemap_replay_payload read payload = Inr ops"
  by (rule payload_back [OF assms])

theorem commit_payload_roundtrip_witness:
  "\<exists>payload. encode_livemap_replay_transport spell_bits
      [PutData PutSet [PKey (js ''n''), PIdx (IntArg 2)] None (OPrim (PNum 0x3FF8000000000000)),
       SpliceData [] (IntArg 1) [] [OPrim PNull] [] [OPrim PNull]] = Inr payload \<and>
    decode_livemap_replay_payload read_bits payload = Inr
      [PutData PutSet [PKey (js ''n''), PIdx (IntArg 2)] None (OPrim (PNum 0x3FF8000000000000)),
       SpliceData [] (IntArg 1) [] [OPrim PNull] [] [OPrim PNull]]"
  by (rule commit_payload_roundtrip [OF bits_law])
    (simp add: path_ok_def index_ok_def max_safe_integer_def num_finite_def num_exponent_def)


end
