(* ===== verification/Live_Editor.thy ===== *)
theory Live_Editor
  imports Data_Plan Value_Graph Value_Materialization
begin

text \<open>
  Reading and editing the node graph of a projected live map through projected paths
  (\<open>api/livemap/livemap.editor.ts\<close>). The code writes into the node it resolved; the owned graph is a
  tree without shared nodes, so a write is the tree with that node changed. A public read makes fresh
  JavaScript objects, so it takes the heap and returns it with the new objects at its end.
\<close>

datatype edit_error =
    EditGraph graph_error
  | EditReplacesRoot
  | EditDeletesRoot
  | EditPathUnresolved live_path
  | EditParentUnresolved live_path
  | EditCannotSet live_path
  | EditInvalidIndex live_path
  | EditNotItem live_path
  | EditDeletesIndex live_path
  | EditCannotDelete live_path
  | EditArrayChild
  | EditArrayItemPayload

definition lift_graph :: "graph_error + 'a \<Rightarrow> edit_error + 'a" where
  "lift_graph r = (case r of Inl e \<Rightarrow> Inl (EditGraph e) | Inr a \<Rightarrow> Inr a)"

section \<open>Resolution\<close>

definition is_value_node :: "hson_node \<Rightarrow> bool" where
  "is_value_node n \<longleftrightarrow> is_value_tag (tag_of n)"

definition unwrap_value_payload :: "hson_node \<Rightarrow> hson_node option" where
  "unwrap_value_payload w =
     (if is_value_node w then Some w
      else (case content_of w of
          ItemNode c # rest' \<Rightarrow> if is_Node (ItemNode c) then Some c else None
        | _ \<Rightarrow> None))"

definition is_wrapper :: "js_string \<Rightarrow> hson_item \<Rightarrow> bool" where
  "is_wrapper k x \<longleftrightarrow> (case x of ItemNode c \<Rightarrow> is_Node x \<and> tag_of c = k | ItemPrim p \<Rightarrow> False)"

text \<open>\<open>findIndex\<close>: the first position whose item satisfies the test.\<close>

primrec find_index :: "('a \<Rightarrow> bool) \<Rightarrow> 'a list \<Rightarrow> nat option" where
  "find_index f [] = None"
| "find_index f (x # xs) = (if f x then Some 0 else map_option Suc (find_index f xs))"

definition child_slot :: "hson_node \<Rightarrow> path_part \<Rightarrow> nat option" where
  "child_slot n part =
     (case part of
        PKey k \<Rightarrow> if tag_of n = OBJ_TAG then find_index (is_wrapper k) (content_of n) else None
      | PIdx a \<Rightarrow>
          if tag_of n \<noteq> ARR_TAG then None
          else (case num_arg_index a of
              None \<Rightarrow> None
            | Some i \<Rightarrow>
                if i < length (content_of n) \<and> is_wrapper II_TAG (content_of n ! i) then Some i else None))"

definition find_child_wrapper :: "hson_node \<Rightarrow> path_part \<Rightarrow> hson_node option" where
  "find_child_wrapper n part = map_option (\<lambda>i. item_node (content_of n ! i)) (child_slot n part)"

fun resolve_wrapper_node :: "hson_node \<Rightarrow> live_path \<Rightarrow> hson_node option" where
  "resolve_wrapper_node cur [] = Some cur"
| "resolve_wrapper_node cur (part # path) =
     (case unwrap_value_payload cur of
        None \<Rightarrow> None
      | Some v \<Rightarrow>
          (case find_child_wrapper v part of
             None \<Rightarrow> None
           | Some c \<Rightarrow> resolve_wrapper_node c path))"

definition resolve_value_node :: "hson_node \<Rightarrow> live_path \<Rightarrow> hson_node option" where
  "resolve_value_node root path = Option.bind (resolve_wrapper_node root path) unwrap_value_payload"

definition resolve_parent_node :: "hson_node \<Rightarrow> live_path \<Rightarrow> (hson_node \<times> path_part) option" where
  "resolve_parent_node root path =
     (if path = [] then None
      else map_option (\<lambda>n. (n, last path)) (resolve_value_node root (butlast path)))"

definition project_live_path :: "hson_node \<Rightarrow> live_path \<Rightarrow> edit_error + opv option" where
  "project_live_path root path =
     (case resolve_value_node root path of
        None \<Rightarrow> Inr None
      | Some n \<Rightarrow> rbind (lift_graph (projected_value_from_hson_node n)) (\<lambda>v. Inr (Some v)))"

section \<open>Public reads\<close>

text \<open>
  \<open>node_to_json_value\<close>: a canonical value node is read as its carrier and materialised; any other node
  by the historical fallback readers, which skip what they do not understand.
\<close>

definition string_node_to_value :: "hson_node \<Rightarrow> js_string" where
  "string_node_to_value n = (case content_of n of ItemPrim (PStr s) # xs \<Rightarrow> s | _ \<Rightarrow> [])"

definition primitive_node_to_value :: "hson_node \<Rightarrow> prim" where
  "primitive_node_to_value n = (case content_of n of ItemPrim p # xs \<Rightarrow> p | _ \<Rightarrow> PNull)"

definition unwrap_transparent_object_payload :: "hson_node \<Rightarrow> hson_node option" where
  "unwrap_transparent_object_payload n =
     (if tag_of n \<noteq> OBJ_TAG then None
      else (case filter is_Node (content_of n) of
          [ItemNode c] \<Rightarrow> if tag_of c \<in> {STR_TAG, VAL_TAG, ARR_TAG} then Some c else None
        | _ \<Rightarrow> None))"

text \<open>\<open>Object.defineProperty\<close> on the object under construction: a property defined again keeps its place.\<close>

definition define_property :: "(js_string \<times> js_value) list \<Rightarrow> js_string \<Rightarrow> js_value \<Rightarrow> (js_string \<times> js_value) list" where
  "define_property kws k w =
     (case object_entry_index kws k of None \<Rightarrow> kws @ [(k, w)] | Some i \<Rightarrow> kws[i := (k, w)])"

lemma payload_smaller: "unwrap_value_payload c = Some p \<Longrightarrow> size p \<le> size c"
  by (cases c) (auto simp: unwrap_value_payload_def split: if_splits list.splits hson_item.splits)

lemma content_smaller: "Suc (2 * size_list size (content_of n)) < 2 * size n"
  by (cases n) simp

lemma transparent_smaller: "unwrap_transparent_object_payload n = Some c \<Longrightarrow> size c < size n"
proof -
  assume "unwrap_transparent_object_payload n = Some c"
  then have "filter is_Node (content_of n) = [ItemNode c]"
    by (auto simp: unwrap_transparent_object_payload_def split: if_splits list.splits hson_item.splits)
  then have "ItemNode c \<in> set (content_of n)" using filter_eq_ConsD by fastforce
  then have "size (ItemNode c) \<le> size_list size (content_of n)" by (rule size_list_estimation') simp
  then show ?thesis by (cases n) simp
qed

function node_to_json_value :: "hson_node \<Rightarrow> js_heap \<Rightarrow> edit_error + js_value \<times> js_heap"
  and object_node_to_value ::
    "hson_item list \<Rightarrow> (js_string \<times> js_value) list \<Rightarrow> js_heap \<Rightarrow> edit_error + (js_string \<times> js_value) list \<times> js_heap"
  and array_node_to_value :: "hson_item list \<Rightarrow> js_heap \<Rightarrow> edit_error + js_value list \<times> js_heap" where
  "node_to_json_value n h =
     (if is_projected_value_hson_node n
      then rbind (lift_graph (projected_value_from_hson_node n)) (\<lambda>v.
        lift_graph (lift_carrier (materialize_projected_value v h)))
      else (case unwrap_transparent_object_payload n of
          Some c \<Rightarrow> node_to_json_value c h
        | None \<Rightarrow>
            if tag_of n = STR_TAG then Inr (VStr (string_node_to_value n), h)
            else if tag_of n = VAL_TAG then Inr (prim_value (primitive_node_to_value n), h)
            else if tag_of n = ARR_TAG
            then rbind (array_node_to_value (content_of n) h) (\<lambda>(ws, h').
              Inr (VRef (length h'), h' @ [plain_array (array_props ws)]))
            else rbind (object_node_to_value (content_of n) [] h) (\<lambda>(kws, h').
              Inr (VRef (length h'), h' @ [plain_object (data_props (own_key_order kws))]))))"
| "object_node_to_value [] out h = Inr (out, h)"
| "object_node_to_value (x # xs) out h =
     (case x of
        ItemPrim p \<Rightarrow> object_node_to_value xs out h
      | ItemNode c \<Rightarrow>
          if \<not> is_Node x \<or> starts_with (tag_of c) HSON_SYS_PREFIX then object_node_to_value xs out h
          else (case unwrap_value_payload c of
              None \<Rightarrow> object_node_to_value xs out h
            | Some p \<Rightarrow> rbind (node_to_json_value p h) (\<lambda>(w, h').
                object_node_to_value xs (define_property out (tag_of c) w) h')))"
| "array_node_to_value [] h = Inr ([], h)"
| "array_node_to_value (x # xs) h =
     (case x of
        ItemPrim p \<Rightarrow> Inl EditArrayChild
      | ItemNode c \<Rightarrow>
          if \<not> is_Node x \<or> tag_of c \<noteq> II_TAG then Inl EditArrayChild
          else (case unwrap_value_payload c of
              None \<Rightarrow> Inl EditArrayItemPayload
            | Some p \<Rightarrow> rbind (node_to_json_value p h) (\<lambda>(w, h').
                rbind (array_node_to_value xs h') (\<lambda>(ws, h''). Inr (w # ws, h'')))))"
  by pat_completeness auto
termination node_to_json_value
  by (relation "measure (\<lambda>x. case x of
        Inl (n, h) \<Rightarrow> 2 * size n
      | Inr (Inl (xs, out, h)) \<Rightarrow> 2 * size_list size xs + 1
      | Inr (Inr (xs, h)) \<Rightarrow> 2 * size_list size xs + 1)")
    (auto intro: content_smaller dest!: payload_smaller transparent_smaller)

definition snap_live_path :: "hson_node \<Rightarrow> live_path \<Rightarrow> js_heap \<Rightarrow> edit_error + js_value option \<times> js_heap" where
  "snap_live_path root path h =
     (case resolve_value_node root path of
        None \<Rightarrow> Inr (None, h)
      | Some n \<Rightarrow> rbind (node_to_json_value n h) (\<lambda>(w, h'). Inr (Some w, h')))"

section \<open>Writing into a resolved parent\<close>

definition with_content :: "hson_node \<Rightarrow> hson_item list \<Rightarrow> hson_node" where
  "with_content n c = HsonNode (tag_of n) (attrs_of n) (meta_of n) c"

definition write_object_property :: "hson_node \<Rightarrow> js_string \<Rightarrow> opv \<Rightarrow> edit_error + hson_node" where
  "write_object_property parent key v =
     rbind (lift_graph (projected_object_property_to_hson_node key v)) (\<lambda>w.
       Inr (with_content parent
         (case find_index (is_wrapper key) (content_of parent) of
            None \<Rightarrow> content_of parent @ [ItemNode w]
          | Some i \<Rightarrow> (content_of parent)[i := ItemNode w])))"

definition write_array_index :: "hson_node \<Rightarrow> num_arg \<Rightarrow> opv \<Rightarrow> live_path \<Rightarrow> edit_error + hson_node" where
  "write_array_index parent a v path =
     (case num_arg_index a of
        None \<Rightarrow> Inl (EditInvalidIndex path)
      | Some i \<Rightarrow>
          if length (content_of parent) \<le> i then Inl (EditInvalidIndex path)
          else if \<not> is_wrapper II_TAG (content_of parent ! i) then Inl (EditNotItem path)
          else rbind (lift_graph (projected_array_item_to_hson_node a v)) (\<lambda>w.
            Inr (with_content parent ((content_of parent)[i := ItemNode w]))))"

definition write_child_value :: "hson_node \<Rightarrow> path_part \<Rightarrow> opv \<Rightarrow> live_path \<Rightarrow> edit_error + hson_node" where
  "write_child_value parent key v path =
     (case key of
        PKey k \<Rightarrow> if tag_of parent = OBJ_TAG then write_object_property parent k v else Inl (EditCannotSet path)
      | PIdx a \<Rightarrow> if tag_of parent = ARR_TAG then write_array_index parent a v path else Inl (EditCannotSet path))"

definition delete_object_property :: "hson_node \<Rightarrow> js_string \<Rightarrow> hson_node" where
  "delete_object_property parent key =
     (case find_index (is_wrapper key) (content_of parent) of
        None \<Rightarrow> parent
      | Some i \<Rightarrow> with_content parent (remove_nth i (content_of parent)))"

definition delete_child_value :: "hson_node \<Rightarrow> path_part \<Rightarrow> live_path \<Rightarrow> edit_error + hson_node" where
  "delete_child_value parent key path =
     (case key of
        PKey k \<Rightarrow> if tag_of parent = OBJ_TAG then Inr (delete_object_property parent k) else Inl (EditCannotDelete path)
      | PIdx a \<Rightarrow> if tag_of parent = ARR_TAG then Inl (EditDeletesIndex path) else Inl (EditCannotDelete path))"

text \<open>The graph with the value node at a path rewritten; \<open>None\<close> where the path does not resolve.\<close>

definition modify_payload ::
    "(hson_node \<Rightarrow> (edit_error + hson_node) option) \<Rightarrow> hson_node \<Rightarrow> (edit_error + hson_node) option" where
  "modify_payload f w =
     (if is_value_node w then f w
      else (case content_of w of
          ItemNode c # rest' \<Rightarrow>
            if is_Node (ItemNode c)
            then map_option (\<lambda>r. rbind r (\<lambda>c'. Inr (with_content w (ItemNode c' # rest')))) (f c)
            else None
        | _ \<Rightarrow> None))"

fun modify_value_node ::
    "(hson_node \<Rightarrow> edit_error + hson_node) \<Rightarrow> hson_node \<Rightarrow> live_path \<Rightarrow> (edit_error + hson_node) option" where
  "modify_value_node f root [] = modify_payload (\<lambda>n. Some (f n)) root"
| "modify_value_node f root (part # path) =
     modify_payload (\<lambda>n.
       case child_slot n part of
         None \<Rightarrow> None
       | Some i \<Rightarrow>
           map_option (\<lambda>r. rbind r (\<lambda>c'. Inr (with_content n ((content_of n)[i := ItemNode c']))))
             (modify_value_node f (item_node (content_of n ! i)) path)) root"

section \<open>Edits\<close>

text \<open>
  The values before and after are carriers in \<open>LiveMapProjectedEditResult\<close> and JavaScript values in
  \<open>LiveMapEditResult\<close>.
\<close>

record 'v edit_result =
  edit_root :: hson_node
  edit_changed :: bool
  edit_prev :: "'v option"
  edit_next :: "'v option"

definition write_at_parent ::
    "(hson_node \<Rightarrow> path_part \<Rightarrow> live_path \<Rightarrow> edit_error + hson_node) \<Rightarrow> hson_node \<Rightarrow> live_path \<Rightarrow> edit_error + hson_node" where
  "write_at_parent f root path =
     (case modify_value_node (\<lambda>n. f n (last path) path) root (butlast path) of
        None \<Rightarrow> Inl (EditParentUnresolved (butlast path))
      | Some r \<Rightarrow> r)"

definition set_live_path_from_projected :: "hson_node \<Rightarrow> live_path \<Rightarrow> opv \<Rightarrow> edit_error + opv edit_result" where
  "set_live_path_from_projected root path v =
     (if path = [] then Inl EditReplacesRoot
      else rbind (project_live_path root path) (\<lambda>prev.
        rbind (write_at_parent (\<lambda>n key p. write_child_value n key v p) root path) (\<lambda>r.
          Inr \<lparr> edit_root = r, edit_changed = \<not> optional_ordered_projected_value_equal prev (Some v),
            edit_prev = prev, edit_next = Some v \<rparr>)))"

definition delete_live_path ::
    "hson_node \<Rightarrow> live_path \<Rightarrow> js_heap \<Rightarrow> edit_error + js_value edit_result \<times> js_heap" where
  "delete_live_path root path h =
     (if path = [] then Inl EditDeletesRoot
      else rbind (snap_live_path root path h) (\<lambda>(prev, h').
        if prev = None then Inl (EditPathUnresolved path)
        else rbind (write_at_parent delete_child_value root path) (\<lambda>r.
          rbind (snap_live_path r path h') (\<lambda>(next', h'').
            Inr (\<lparr> edit_root = r, edit_changed = True, edit_prev = prev, edit_next = next' \<rparr>, h'')))))"

definition replace_live_root_from_projected :: "hson_node \<Rightarrow> opv \<Rightarrow> edit_error + opv edit_result" where
  "replace_live_root_from_projected root v =
     rbind (project_live_path root []) (\<lambda>prev.
     rbind (lift_graph (projected_value_to_hson_root v)) (\<lambda>r.
       Inr \<lparr> edit_root = r, edit_changed = \<not> optional_ordered_projected_value_equal prev (Some v),
         edit_prev = prev, edit_next = Some v \<rparr>))"

definition replace_live_path_from_projected :: "hson_node \<Rightarrow> live_path \<Rightarrow> opv \<Rightarrow> edit_error + opv edit_result" where
  "replace_live_path_from_projected root path v =
     (if path = [] then replace_live_root_from_projected root v
      else rbind (project_live_path root path) (\<lambda>prev.
        case prev of
          None \<Rightarrow> Inl (EditPathUnresolved path)
        | Some old \<Rightarrow>
            rbind (write_at_parent (\<lambda>n key p. write_child_value n key v p) root path) (\<lambda>r.
              Inr \<lparr> edit_root = r, edit_changed = \<not> ordered_projected_value_equal old v,
                edit_prev = prev, edit_next = Some v \<rparr>)))"

text \<open>
  \<open>apply_projected_transport_ops\<close> of the core: only the addressed branches are rebuilt. The owned graph
  is written in place, so the graph reached so far is part of the outcome of a run that throws. The core
  drops what an edit returns; the values a deletion reads are new objects nobody keeps, so they are made
  on a heap of their own.
\<close>

definition edit_for_op :: "hson_node \<Rightarrow> projected_op \<Rightarrow> edit_error + hson_node" where
  "edit_for_op root op =
     (case op of
        DropData path prev \<Rightarrow> rbind (delete_live_path root path []) (\<lambda>(r, h). Inr (edit_root r))
      | PutData kind path prev v \<Rightarrow>
          (case kind of
             PutSet \<Rightarrow> rbind (set_live_path_from_projected root path v) (\<lambda>r. Inr (edit_root r))
           | PutReplace \<Rightarrow> rbind (replace_live_path_from_projected root path v) (\<lambda>r. Inr (edit_root r)))
      | SpliceData path start removed inserted prev v \<Rightarrow>
          rbind (replace_live_path_from_projected root path (OArr v)) (\<lambda>r. Inr (edit_root r))
      | RenameData path src dst prev v \<Rightarrow>
          rbind (replace_live_path_from_projected root path (OObj v)) (\<lambda>r. Inr (edit_root r))
      | MoveData path src dst prev v \<Rightarrow>
          rbind (replace_live_path_from_projected root path (OArr v)) (\<lambda>r. Inr (edit_root r)))"

fun apply_projected_transport_ops :: "hson_node \<Rightarrow> projected_op list \<Rightarrow> hson_node \<times> (edit_error + unit)" where
  "apply_projected_transport_ops root [] = (root, Inr ())"
| "apply_projected_transport_ops root (op # ops) =
     (case edit_for_op root op of
        Inl e \<Rightarrow> (root, Inl e)
      | Inr r \<Rightarrow> apply_projected_transport_ops r ops)"

end
