(* ===== verification/Data_Plan_Laws.thy ===== *)
theory Data_Plan_Laws
  imports Data_Plan
begin

text \<open>
  What a plan says about the carriers around it: every operation it leaves carries the value
  before and after and plans to itself again, so that a replay on the same carrier passes every
  check and ends in the same value. The calls of a batch stage one such plan.
\<close>

section \<open>Writes that change nothing\<close>

lemma write_at_noop:
  "opv_ok root \<Longrightarrow> ordered_projected_value_at root path = Some u \<Longrightarrow>
     write_at root path u allow = Inr t \<Longrightarrow> t = root"
proof (induction path arbitrary: root t)
  case (Cons p rest)
  from Cons.prems(3) show ?case
  proof (cases rule: write_at_cases)
    case (item a rest' vs i c)
    with Cons.prems have u: "ordered_projected_value_at (vs ! i) rest = Some u" and ok: "opv_ok (vs ! i)"
      by (auto simp: value_at_Cons step_part_OArr array_slot_Some simp del: step_part.simps)
    from Cons.IH [OF ok u] item have "c = vs ! i" by simp
    with item show ?thesis by simp
  next
    case (entry k rest' es i c)
    then have idx: "i < length es" by (auto dest: object_entry_index_Some)
    from entry Cons.prems idx have u: "ordered_projected_value_at (snd (es ! i)) rest = Some u"
      and ok: "opv_ok (snd (es ! i))"
      by (auto simp: value_at_Cons step_part_OObj entry_value_nth simp del: step_part.simps)
    from Cons.IH [OF ok u] entry have "c = snd (es ! i)" by simp
    with entry show ?thesis by (simp add: entry_update_back)
  next
    case (append k es)
    then have "map_of es k = None" by (simp add: object_entry_index_None map_of_eq_None_iff)
    with append Cons.prems(2) show ?thesis
      by (auto simp: value_at_Cons step_part_OObj simp del: step_part.simps)
  qed simp
qed simp

lemma write_at_weaken: "write_at root path v False = Inr t \<Longrightarrow> write_at root path v True = Inr t"
proof (induction path arbitrary: root t)
  case (Cons p rest)
  from Cons.prems show ?case
    by (cases rule: write_at_cases)
      (use Cons.IH in \<open>cases rest, auto simp: res_simps array_slot_def split: option.splits if_splits\<close>)
qed simp

lemma replace_noop:
  "opv_ok root \<Longrightarrow> ordered_projected_value_at root path = Some u \<Longrightarrow>
     ordered_projected_value_replace root path u = Inr t \<Longrightarrow> t = root"
  by (auto simp: ordered_projected_value_replace_def split: if_splits intro: write_at_noop)

lemma set_same:
  assumes "opv_ok v" and "ordered_projected_value_set root path v = Inr t"
  shows "opv_ok t" and "ordered_projected_value_at t path = Some v"
    and "opv_ok root \<Longrightarrow> ordered_projected_value_at root path = Some v \<Longrightarrow> t = root"
  using assms
  by (auto simp: ordered_projected_value_set_def split: if_splits
      dest: write_at_ok write_at_same write_at_noop)

lemma lift_plan_Inr [simp]: "lift_plan r = Inr a \<longleftrightarrow> r = Inr a"
  by (cases r) (simp_all add: lift_plan_def)

lemma lift_plan_simp [simp]: "lift_plan (Inr a) = Inr a"
  by (simp add: lift_plan_def)

lemma splice_result:
  assumes "ordered_projected_array_splice root path start del items = Inr (t, r)"
  obtains vs i d where "ordered_projected_value_at root path = Some (OArr vs)"
    "num_arg_index start = Some i" "num_arg_index del = Some d" "i + d \<le> length vs"
    "r = OArr (take d (drop i vs))" "opv_ok (OArr (splice_items i d items vs))"
    "ordered_projected_value_replace root path (OArr (splice_items i d items vs)) = Inr t"
  using assms
  by (auto simp: ordered_projected_array_splice_def rbind_Inr_iff ordered_projected_array_iff
      split: option.splits opv.splits if_splits)

lemma splice_result_again:
  assumes "ordered_projected_array_splice root path start del items = Inr (t, OArr rs)"
  shows "ordered_projected_array_splice root path start (IntArg (int (length rs))) items = Inr (t, OArr rs)"
proof -
  from assms obtain vs i d where "ordered_projected_value_at root path = Some (OArr vs)"
    "num_arg_index start = Some i" "num_arg_index del = Some d" "i + d \<le> length vs"
    "OArr rs = OArr (take d (drop i vs))" "opv_ok (OArr (splice_items i d items vs))"
    "ordered_projected_value_replace root path (OArr (splice_items i d items vs)) = Inr t"
    by (rule splice_result)
  moreover then have "num_arg_index (IntArg (int (length rs))) = Some d"
    by (simp add: num_arg_index_def)
  ultimately show ?thesis
    using assms
    by (simp add: ordered_projected_array_splice_def rbind_Inr_iff ordered_projected_array_iff)
qed

section \<open>What an operation says about the two carriers around it\<close>

definition op_explains :: "opv \<Rightarrow> projected_op \<Rightarrow> opv \<Rightarrow> bool" where
  "op_explains root o' c \<longleftrightarrow>
     opv_ok c \<and> op_prev o' = ordered_projected_value_at root (op_path o') \<and>
     op_next o' = ordered_projected_value_at c (op_path o') \<and>
     plan_write_op (projected_write_op_from_transport o') root = Inr (c, [o'])"

fun ops_explain :: "opv \<Rightarrow> projected_op list \<Rightarrow> opv \<Rightarrow> bool" where
  "ops_explain root [] c \<longleftrightarrow> c = root"
| "ops_explain root (o' # os) c \<longleftrightarrow> (\<exists>m. op_explains root o' m \<and> ops_explain m os c)"

lemma ops_explain_append:
  "ops_explain root (os @ os') c \<longleftrightarrow> (\<exists>m. ops_explain root os m \<and> ops_explain m os' c)"
  by (induction os arbitrary: root) auto

lemma ops_explain_ok: "opv_ok root \<Longrightarrow> ops_explain root os c \<Longrightarrow> opv_ok c"
  by (induction os arbitrary: root) (auto simp: op_explains_def)

fun write_ok :: "write_op \<Rightarrow> bool" where
  "write_ok (WriteSet p v) = opv_ok v"
| "write_ok (WriteReplace p v) = opv_ok v"
| "write_ok (WriteConstructiveSet p es) = (\<forall>e \<in> set es. opv_ok (snd e))"
| "write_ok _ = True"

lemma prev_ok: "opv_ok root \<Longrightarrow> pred_option opv_ok (ordered_projected_value_at root path)"
  by (cases "ordered_projected_value_at root path") (auto dest: value_at_ok)

lemma must_value_iff:
  "must_core_array_value v path = Inr vs \<longleftrightarrow> v = Some (OArr vs)"
  "must_core_object_value v path = Inr es \<longleftrightarrow> v = Some (OObj es)"
  by (auto simp: must_core_array_value_def must_core_object_value_def split: option.splits opv.splits)

lemmas must_simps = must_resolved_projected_value_def must_core_array_value_def must_core_object_value_def
  must_core_move_index_def must_resolved_path_def

lemma set_explained:
  assumes "opv_ok root" and "opv_ok v" and "ordered_projected_value_set root path v = Inr c"
  shows "ops_explain root (if optional_ordered_projected_value_equal (ordered_projected_value_at root path) (Some v)
    then [] else [PutData PutSet path (ordered_projected_value_at root path) v]) c"
  using set_same [OF assms(2,3)] assms optional_equal_sound [OF prev_ok [OF assms(1)]]
  by (auto simp: op_explains_def)

lemma constructive_explained:
  "opv_ok root \<Longrightarrow> \<forall>e \<in> set es. opv_ok (snd e) \<Longrightarrow> constructive_entries path es root = Inr (c, ops) \<Longrightarrow>
     ops_explain root ops c"
proof (induction es arbitrary: root c ops)
  case (Cons e es)
  obtain k v where e: "e = (k, v)" by force
  let ?p = "append_live_path path (PKey k)"
  from Cons.prems(3) e obtain m os where m: "ordered_projected_value_set root ?p v = Inr m"
    and os: "constructive_entries path es m = Inr (c, os)"
    and ops: "ops = (if optional_ordered_projected_value_equal (ordered_projected_value_at root ?p) (Some v) then []
      else [PutData PutSet ?p (ordered_projected_value_at root ?p) v]) @ os"
    by (auto simp: Let_def rbind_Inr_iff split: if_splits)
  have v: "opv_ok v" using Cons.prems(2) e by simp
  from set_same(1) [OF v m] Cons.IH [OF _ _ os] Cons.prems(2) set_explained [OF Cons.prems(1) v m]
  show ?case unfolding ops ops_explain_append by auto
qed simp

lemma write_op_explained:
  assumes "opv_ok root" and "write_ok w" and "plan_write_op w root = Inr (c, ops)"
  shows "ops_explain root ops c"
proof (cases w)
  case (WriteSet path v)
  with assms set_explained [of root v path c] show ?thesis
    by (auto simp: Let_def rbind_Inr_iff)
next
  case (WriteReplace path v)
  with assms obtain prev where prev: "ordered_projected_value_at root path = Some prev"
    and c: "ordered_projected_value_replace root path v = Inr c"
    and ops: "ops = (if ordered_projected_value_equal prev v then [] else [PutData PutReplace path (Some prev) v])"
    by (auto simp: rbind_Inr_iff must_simps split: option.splits)
  have v: "opv_ok v" using assms(2) WriteReplace by simp
  have "opv_ok prev" using assms(1) prev by (rule value_at_ok)
  then show ?thesis
    using ops c prev replace_noop [OF assms(1), of path v c] ops.replace_inv [OF assms(1) v c]
      ops.at_replace_same [OF assms(1) v c]
    by (auto simp: op_explains_def equal_sound must_simps)
next
  case (WriteDelete path)
  with assms obtain prev where prev: "ordered_projected_value_at root path = Some prev"
    and c: "ordered_projected_value_delete root path = Inr c"
    and must: "must_plan_projected_delete root path = Inr ()"
    and ops: "ops = [DropData path (Some prev)]"
    by (auto simp: rbind_Inr_iff must_simps split: option.splits)
  from c have d: "delete_at root path = Inr c"
    by (simp add: ordered_projected_value_delete_def split: if_splits)
  show ?thesis
    using prev c must ops delete_at_ok [OF d] delete_at_gone [OF assms(1) d]
    by (auto simp: op_explains_def must_simps)
next
  case (WriteSplice path start del items)
  with assms obtain prev r next' where prev: "ordered_projected_value_at root path = Some prev"
    and c: "ordered_projected_array_splice root path start del items = Inr (c, r)"
    and nxt: "ordered_projected_value_at c path = Some next'"
    and rest: "(if ordered_projected_value_equal prev next' then Inr (c, [])
       else rbind (must_core_array_value (Some r) path) (\<lambda>rs.
         rbind (must_core_array_value (Some prev) path) (\<lambda>ps.
         rbind (must_core_array_value (Some next') path) (\<lambda>ns.
           Inr (c, [SpliceData path start rs items ps ns]))))) = Inr (c, ops)"
    by (auto simp: rbind_Inr_iff must_resolved_projected_value_def split: option.splits if_splits)
  from c obtain vs i d where s: "ordered_projected_value_at root path = Some (OArr vs)"
    "r = OArr (take d (drop i vs))" "opv_ok (OArr (splice_items i d items vs))"
    "ordered_projected_value_replace root path (OArr (splice_items i d items vs)) = Inr c"
    by (rule splice_result)
  note ok = ops.replace_inv [OF assms(1) s(3,4)]
  have n: "next' = OArr (splice_items i d items vs)"
    using ops.at_replace_same [OF assms(1) s(3,4)] nxt by simp
  have "opv_ok prev" using assms(1) prev by (rule value_at_ok)
  then have eq: "ordered_projected_value_equal prev next' \<longleftrightarrow> prev = next'" by (rule equal_sound)
  show ?thesis
  proof (cases "prev = next'")
    case True
    with rest eq have "ops = []" by simp
    moreover have "c = root"
      using replace_noop [OF assms(1) _ s(4)] prev True n by simp
    ultimately show ?thesis by simp
  next
    case False
    with rest eq s prev n have ops: "ops = [SpliceData path start (take d (drop i vs)) items vs (splice_items i d items vs)]"
      by (auto simp: must_core_array_value_def)
    have again: "ordered_projected_array_splice root path start (IntArg (int (length (take d (drop i vs))))) items
        = Inr (c, OArr (take d (drop i vs)))"
      using splice_result_again [of root path start del items c] c s(2) by simp
    show ?thesis
      using ok again prev nxt s(1) n False eq
      by (auto simp: ops op_explains_def must_simps simp del: length_take length_drop)
  qed
next
  case (WriteRename path src dst)
  with assms obtain prev where prev: "ordered_projected_value_at root path = Some (OObj prev)"
    and src: "src \<in> fst ` set prev"
    and rest: "if src = dst then c = root \<and> ops = [] else
      ordered_projected_object_rename root path src dst = Inr c \<and>
      (\<exists>next'. ordered_projected_value_at c path = Some (OObj next') \<and> ops = [RenameData path src dst prev next'])"
    by (auto simp: rbind_Inr_iff must_value_iff split: if_splits)
  show ?thesis
  proof (cases "src = dst")
    case False
    with rest obtain next' where c: "ordered_projected_object_rename root path src dst = Inr c"
      and n: "ordered_projected_value_at c path = Some (OObj next')" and ops: "ops = [RenameData path src dst prev next']"
      by auto
    from c prev False obtain nx where nx: "ordered_projected_object (rename_entries src dst prev) = Inr nx"
      and r: "ordered_projected_value_replace root path nx = Inr c"
      by (auto simp: ordered_projected_object_rename_def rbind_Inr_iff split: option.splits)
    from nx have "opv_ok nx" by (auto simp: ordered_projected_object_iff)
    from ops.replace_inv [OF assms(1) this r] have "opv_ok c" .
    with c prev src n False show ?thesis
      by (auto simp: ops op_explains_def must_core_object_value_def)
  qed (use rest in simp)
next
  case (WriteMove path src dst)
  with assms obtain prev where prev: "ordered_projected_value_at root path = Some (OArr prev)"
    and must: "must_core_move_index prev path src MoveSource = Inr ()" "must_core_move_index prev path dst MoveDestination = Inr ()"
    and rest: "if src = dst then c = root \<and> ops = [] else
      ordered_projected_array_move root path src dst = Inr c \<and>
      (\<exists>next'. ordered_projected_value_at c path = Some (OArr next') \<and> ops = [MoveData path src dst prev next'])"
    by (auto simp: rbind_Inr_iff must_value_iff split: if_splits)
  show ?thesis
  proof (cases "src = dst")
    case False
    with rest obtain next' where c: "ordered_projected_array_move root path src dst = Inr c"
      and n: "ordered_projected_value_at c path = Some (OArr next')" and ops: "ops = [MoveData path src dst prev next']"
      by auto
    from must obtain i j where ij: "safe_index src (length prev) = Some i" "safe_index dst (length prev) = Some j"
      by (auto simp: must_core_move_index_def split: if_splits)
    have "opv_ok c"
    proof (cases "i = j")
      case True
      with c prev ij assms(1) show ?thesis by (simp add: ordered_projected_array_move_def)
    next
      case False
      with c prev ij have nx: "opv_ok (OArr (move_items i j prev))"
        and r: "ordered_projected_value_replace root path (OArr (move_items i j prev)) = Inr c"
        by (auto simp: ordered_projected_array_move_def rbind_Inr_iff ordered_projected_array_iff)
      from ops.replace_inv [OF assms(1) nx r] show ?thesis .
    qed
    with c prev must n False show ?thesis
      by (auto simp: ops op_explains_def must_core_array_value_def)
  qed (use rest in simp)
next
  case (WriteConstructiveSet path es)
  with assms constructive_explained [of root es path c ops] show ?thesis
    by (auto simp: plan_constructive_set_write_op_def split: option.splits if_splits)
qed

lemma write_ops_explained:
  "opv_ok root \<Longrightarrow> list_all write_ok ws \<Longrightarrow> plan_write_ops root ws = Inr (c, ops) \<Longrightarrow> ops_explain root ops c"
proof (induction ws arbitrary: root c ops)
  case (Cons w ws)
  from Cons.prems(3) obtain m os more where m: "plan_write_op w root = Inr (m, os)"
    and more: "plan_write_ops m ws = Inr (c, more)" and ops: "ops = os @ more"
    by (auto simp: rbind_Inr_iff)
  have x: "ops_explain root os m"
    using Cons.prems(1,2) m by (auto intro: write_op_explained)
  with ops_explain_ok [OF Cons.prems(1) x] Cons.IH [OF _ _ more] Cons.prems(2) show ?case
    unfolding ops ops_explain_append by auto
qed simp

lemma explained_replay:
  "opv_ok root \<Longrightarrow> ops_explain root ops c \<Longrightarrow>
     replay_write_ops root ops = Inr (map projected_write_op_from_transport ops) \<and>
     plan_write_ops root (map projected_write_op_from_transport ops) = Inr (c, ops)"
proof (induction ops arbitrary: root)
  case (Cons x ops)
  from Cons.prems(2) obtain m where m: "op_explains root x m" "ops_explain m ops c" by auto
  have ok: "opv_ok m" using m(1) by (simp add: op_explains_def)
  have "optional_ordered_projected_value_equal (op_prev x) (ordered_projected_value_at root (op_path x))"
    "optional_ordered_projected_value_equal (op_next x) (ordered_projected_value_at m (op_path x))"
    using m(1) prev_ok [OF Cons.prems(1)] prev_ok [OF ok]
    by (simp_all add: op_explains_def optional_equal_sound)
  with Cons.IH [OF ok m(2)] m(1) show ?case
    by (simp add: op_explains_def must_replay_value_def)
qed simp

section \<open>Calls\<close>

lemma admitted_ok: "admit_visit h act w path = Inr v \<Longrightarrow> opv_ok v"
  by (cases w)
    (auto simp: hsonNumber_def lift_adm_Inr rbind_Inr_iff ordered_projected_array_iff ordered_projected_object_iff
      split: option.splits if_splits)

lemma must_value_ok: "must_ordered_projected_value h w path = Inr v \<Longrightarrow> opv_ok v"
  by (auto simp: must_ordered_projected_value_def admit_projected_value_def split: sum.splits dest: admitted_ok)

lemma splice_items_from_ok: "splice_items_from h path i ws = Inr vs \<Longrightarrow> \<forall>v \<in> set vs. opv_ok v"
  by (induction ws arbitrary: i vs) (auto simp: rbind_Inr_iff dest: must_value_ok)

lemma must_object_iff:
  "must_ordered_projected_object h v p = Inr es \<longleftrightarrow> must_ordered_projected_value h v p = Inr (OObj es)"
  by (cases "must_ordered_projected_value h v p")
    (auto simp: must_ordered_projected_object_def split: opv.splits)

lemma set_write_ok: "write_ops_from_set h path v cur = Inr ws \<Longrightarrow> list_all write_ok ws"
proof -
  assume w: "write_ops_from_set h path v cur = Inr ws"
  then obtain x where x: "must_ordered_projected_value h v path = Inr x"
    by (auto simp: write_ops_from_set_def rbind_Inr_iff)
  from must_value_ok [OF x] w x show ?thesis
    by (cases x) (auto simp: write_ops_from_set_def rbind_Inr_iff split: if_splits)
qed

lemma call_write_ok: "call_write_ops h c cur = Inr ws \<Longrightarrow> list_all write_ok ws"
proof (cases c)
  case (CallSet p v)
  moreover assume "call_write_ops h c cur = Inr ws"
  ultimately show ?thesis by (auto simp: rbind_Inr_iff dest: set_write_ok)
next
  case (CallReplace p v)
  moreover assume "call_write_ops h c cur = Inr ws"
  ultimately obtain path path' x where "must_ordered_projected_value h v path' = Inr x" "ws = [WriteReplace path x]"
    by (auto simp: rbind_Inr_iff replace_write_op_from_args_def split: option.splits)
  then show ?thesis by (auto dest: must_value_ok)
next
  case (CallSetMany p v)
  moreover assume "call_write_ops h c cur = Inr ws"
  ultimately obtain path es where "must_ordered_projected_value h v path = Inr (OObj es)"
    "ws = map (\<lambda>(key, v). WriteSet (append_live_path path (PKey key)) v) es"
    by (auto simp: rbind_Inr_iff must_object_iff write_ops_from_set_many_def)
  then show ?thesis by (fastforce simp: list_all_iff dest!: must_value_ok)
next
  case (CallSplice p start deleteCount items)
  moreover assume "call_write_ops h c cur = Inr ws"
  ultimately show ?thesis by (auto simp: rbind_Inr_iff splice_write_op_def)
next
  case (CallDelete p)
  moreover assume "call_write_ops h c cur = Inr ws"
  ultimately show ?thesis by (auto simp: rbind_Inr_iff)
qed

section \<open>Batches\<close>

lemma plan_write_ops_append:
  "plan_write_ops root ws = Inr (c, ops) \<Longrightarrow> plan_write_ops c ws' = Inr (v, ops2) \<Longrightarrow>
     plan_write_ops root (ws @ ws') = Inr (v, ops @ ops2)"
  by (induction ws arbitrary: root ops) (auto simp: rbind_Inr_iff)

definition staged_from :: "opv \<Rightarrow> batch_tx \<Rightarrow> bool" where
  "staged_from root tx \<longleftrightarrow>
     list_all write_ok (tx_ops tx) \<and> (\<exists>ops. plan_write_ops root (tx_ops tx) = Inr (tx_candidate tx, ops))"

lemma batch_call_staged:
  "staged_from root tx \<Longrightarrow> batch_call h c tx = Inr tx' \<Longrightarrow> staged_from root tx'"
  by (auto simp: staged_from_def batch_call_def push_write_ops_def rbind_Inr_iff
      split: if_splits dest: call_write_ok plan_write_ops_append)

lemma batch_calls_staged:
  "staged_from root tx \<Longrightarrow> batch_calls h cs tx = (rs, tx') \<Longrightarrow> staged_from root tx'"
  by (induction cs arbitrary: tx rs)
    (auto split: sum.splits prod.splits simp: Let_def dest: batch_call_staged)

section \<open>Properties\<close>

text \<open>
  C7: whatever calls a batch makes on a valid carrier, and whichever of them throw and are caught,
  the intents it collected can be planned on the initial carrier: the plan ends in the candidate
  the last call saw, which is valid. The operations of that plan, replayed on the initial
  carrier, pass every check of the values before and after and plan to the same candidate and the
  same operations; without operations the carrier is unchanged.
\<close>

theorem batch_commit_replays:
  assumes "opv_ok root" and "batch_calls h cs (make_batch_tx root) = (rs, tx)"
  shows "\<exists>ops ws. plan_write_ops root (tx_ops tx) = Inr (tx_candidate tx, ops) \<and> opv_ok (tx_candidate tx) \<and>
    replay_write_ops root ops = Inr ws \<and> plan_write_ops root ws = Inr (tx_candidate tx, ops) \<and>
    (ops = [] \<longrightarrow> tx_candidate tx = root)"
proof -
  have "staged_from root (make_batch_tx root)" by (simp add: staged_from_def make_batch_tx_def)
  from batch_calls_staged [OF this assms(2)] obtain ops
    where w: "list_all write_ok (tx_ops tx)" and p: "plan_write_ops root (tx_ops tx) = Inr (tx_candidate tx, ops)"
    by (auto simp: staged_from_def)
  from write_ops_explained [OF assms(1) w p] have x: "ops_explain root ops (tx_candidate tx)" .
  from p ops_explain_ok [OF assms(1) x] explained_replay [OF assms(1) x] x show ?thesis by auto
qed

definition sample_calls :: "data_call list" where
  "sample_calls =
     [CallSet [PKey (js ''count'')] (VStr (js ''x'')), CallDelete [PKey (js ''gone'')],
      CallSplice [PKey (js ''tags'')] (IntArg (- 1)) (IntArg 5) [VBool True],
      CallSet [PKey (js ''name'')] (VStr (js ''Ada''))]"

lemmas plan_eval = make_batch_tx_def batch_call_def push_write_ops_def must_live_path_def path_part_valid_def
  write_ops_from_set_def must_ordered_projected_value_def must_ordered_projected_object_def
  write_ops_from_set_many_def replace_write_op_from_args_def splice_write_op_def normalize_splice_start_def
  normalize_splice_delete_count_def must_simps must_plan_projected_delete_def admit_projected_value_def
  lift_plan_def must_replay_value_def append_live_path_def adm_of_part_def Let_def
  optional_ordered_projected_value_equal_def

lemma sample_batch_run:
  "\<exists>rs tx. batch_calls [] sample_calls (make_batch_tx sample_carrier) = (rs, tx) \<and>
     map (\<lambda>r. r = Inr ()) rs = [False, False, True, True] \<and> length (tx_ops tx) = 2"
  by (simp add: sample_calls_def plan_eval sample_eval ordered_projected_array_splice_def splice_items_def assert_sound)

theorem batch_commit_replays_witness:
  "\<exists>rs tx ops ws. batch_calls [] sample_calls (make_batch_tx sample_carrier) = (rs, tx) \<and>
     map (\<lambda>r. r = Inr ()) rs = [False, False, True, True] \<and>
     plan_write_ops sample_carrier (tx_ops tx) = Inr (tx_candidate tx, ops) \<and>
     replay_write_ops sample_carrier ops = Inr ws"
proof -
  obtain rs tx where run: "batch_calls [] sample_calls (make_batch_tx sample_carrier) = (rs, tx)"
    and rs: "map (\<lambda>r. r = Inr ()) rs = [False, False, True, True]"
    using sample_batch_run by (elim exE conjE) (rule that)
  have "opv_ok sample_carrier" by (simp add: sample_carrier_def)
  from batch_commit_replays [OF this run] obtain ops ws
    where "plan_write_ops sample_carrier (tx_ops tx) = Inr (tx_candidate tx, ops)"
      "replay_write_ops sample_carrier ops = Inr ws" by (elim exE conjE) (rule that)
  with run rs show ?thesis by (intro exI conjI)
qed

end
