(* ===== verification/Editor_Laws.thy ===== *)
theory Editor_Laws
  imports Live_Editor Data_Plan_Laws
begin

text \<open>
  The graph editor does to the node graph of a carrier what the carrier's own operations do to the
  carrier: the edits of one branch agree with building the graph anew, reads agree at every path
  without a reserved name, and so does the sequence of edits that installs a commit.
\<close>

text \<open>\<open>agrees r s\<close>: one run succeeds exactly when the other does, with the same result.\<close>

definition agrees :: "'e + 'a \<Rightarrow> 'f + 'a \<Rightarrow> bool" where
  "agrees r s \<longleftrightarrow> (\<forall>a. r = Inr a \<longleftrightarrow> s = Inr a)"

section \<open>Nodes of containers\<close>

lemma lift_graph_Inr [simp]: "lift_graph r = Inr a \<longleftrightarrow> r = Inr a"
  by (cases r) (simp_all add: lift_graph_def)

lemma plain_member_meta [simp]:
  "\<not> old_shaped_meta (meta_of (property_node k m))" "\<not> old_shaped_meta (meta_of (item_wrapper i m))"
  by (simp_all add: property_node_def item_wrapper_def old_shaped_meta_def HSON_META_INDEX_def)

lemma wrapper_tags [simp]:
  "tag_of (property_node k m) = k" "tag_of (item_wrapper i m) = II_TAG"
  by (simp_all add: property_node_def item_wrapper_def)

lemma is_wrapper_node [simp]:
  "is_wrapper t (ItemNode (property_node k m)) \<longleftrightarrow> t = k" "is_wrapper II_TAG (ItemNode (item_wrapper i m))"
  by (auto simp: is_wrapper_def)

lemma array_node_iff:
  "projected_value_to_hson_node (OArr vs) = Inr n \<longleftrightarrow>
     (\<exists>c. n = bare_node ARR_TAG c \<and> to_items 0 vs = Inr c)"
proof -
  have "opv_ok (OArr vs)" if "to_items 0 vs = Inr c" for c
    using that to_hson_total(3) [of 0 vs] projectable_ok by auto
  then show ?thesis by (auto simp: res_simps assert_sound value_node_def)
qed

lemma object_node_iff:
  "projected_value_to_hson_node (OObj es) = Inr n \<longleftrightarrow>
     distinct (map fst es) \<and> (\<exists>c. n = bare_node OBJ_TAG c \<and> to_members es = Inr c)"
proof -
  have "\<forall>e \<in> set es. opv_ok (snd e)" if "to_members es = Inr c" for c
    using that to_hson_total(2) [of es] projectable_ok by auto
  then show ?thesis by (auto simp: res_simps assert_sound value_node_def)
qed

declare projected_value_to_hson_node.simps(2,3) [simp del]

definition item_of :: "nat \<Rightarrow> opv \<Rightarrow> hson_item \<Rightarrow> bool" where
  "item_of i v x \<longleftrightarrow> int i \<le> max_safe_integer \<and>
     (\<exists>m. projected_value_to_hson_node v = Inr m \<and> x = ItemNode (item_wrapper i m))"

definition member_of :: "(js_string \<times> opv) \<Rightarrow> hson_item \<Rightarrow> bool" where
  "member_of e x \<longleftrightarrow> \<not> starts_with (fst e) HSON_SYS_PREFIX \<and>
     (\<exists>m. projected_value_to_hson_node (snd e) = Inr m \<and> x = ItemNode (property_node (fst e) m))"

lemma to_items_iff:
  "to_items j vs = Inr c \<longleftrightarrow> length c = length vs \<and> (\<forall>i < length vs. item_of (j + i) (vs ! i) (c ! i))"
proof (induction vs arbitrary: j c)
  case (Cons v vs)
  have "to_items j (v # vs) = Inr c \<longleftrightarrow>
      (\<exists>x cs. c = x # cs \<and> item_of j v x \<and> to_items (Suc j) vs = Inr cs)"
    by (auto simp: res_simps item_of_def)
  also have "\<dots> \<longleftrightarrow> length c = length (v # vs) \<and> (\<forall>i < length (v # vs). item_of (j + i) ((v # vs) ! i) (c ! i))"
    unfolding Cons.IH by (cases c) (auto simp: All_less_Suc2)
  finally show ?case .
qed auto

lemma to_members_iff: "to_members es = Inr c \<longleftrightarrow> list_all2 member_of es c"
proof (induction es arbitrary: c)
  case (Cons e es)
  then show ?case by (cases e) (auto simp: res_simps member_of_def list_all2_Cons1)
qed auto

lemma find_member: "list_all2 member_of es c \<Longrightarrow> find_index (is_wrapper k) c = object_entry_index es k"
  by (induction es c rule: list_all2_induct) (auto simp: member_of_def)

lemma item_of_unique: "item_of i v x \<Longrightarrow> item_of i v y \<Longrightarrow> x = y"
  by (auto simp: item_of_def)

lemma update_items:
  assumes "to_items j vs = Inr c" and "i < length vs"
  shows "to_items j (vs[i := v]) = Inr d \<longleftrightarrow> (\<exists>x. item_of (j + i) v x \<and> d = c[i := x])"
proof
  assume d: "to_items j (vs[i := v]) = Inr d"
  have "item_of (j + i) v (d ! i)" using d assms(2) by (auto simp: to_items_iff)
  moreover have "d = c[i := d ! i]"
  proof (rule nth_equalityI)
    show "length d = length (c[i := d ! i])" using d assms(1) by (simp add: to_items_iff)
    fix k assume k: "k < length d"
    show "d ! k = c[i := d ! i] ! k"
    proof (cases "k = i")
      case False
      from d assms k have "item_of (j + k) (vs[i := v] ! k) (d ! k)" "item_of (j + k) (vs ! k) (c ! k)"
        by (simp_all add: to_items_iff)
      with False item_of_unique show ?thesis by auto
    qed (use d assms in \<open>simp add: to_items_iff\<close>)
  qed
  ultimately show "\<exists>x. item_of (j + i) v x \<and> d = c[i := x]" by blast
next
  assume "\<exists>x. item_of (j + i) v x \<and> d = c[i := x]"
  with assms show "to_items j (vs[i := v]) = Inr d" by (auto simp: to_items_iff nth_list_update)
qed

lemma member_of_unique: "member_of e x \<Longrightarrow> member_of e y \<Longrightarrow> x = y"
  by (auto simp: member_of_def)

lemma members_unique: "list_all2 member_of es c \<Longrightarrow> list_all2 member_of es d \<Longrightarrow> c = d"
  by (auto simp: to_members_iff [symmetric])

lemma update_members:
  assumes "list_all2 member_of es c" and "i < length es"
  shows "list_all2 member_of (es[i := e]) d \<longleftrightarrow> (\<exists>x. member_of e x \<and> d = c[i := x])"
proof
  assume d: "list_all2 member_of (es[i := e]) d"
  from list_all2_nthD [OF d, of i] assms(2) have "member_of e (d ! i)" by simp
  moreover from this assms have "list_all2 member_of (es[i := e]) (c[i := d ! i])" by (intro list_all2_update_cong)
  with d have "d = c[i := d ! i]" by (rule members_unique)
  ultimately show "\<exists>x. member_of e x \<and> d = c[i := x]" by blast
qed (use assms in \<open>auto intro: list_all2_update_cong\<close>)

section \<open>Wrappers\<close>

definition rewrap :: "hson_node \<Rightarrow> hson_node \<Rightarrow> hson_node" where
  "rewrap w n = (if is_value_node w then n else with_content w (ItemNode n # tl (content_of w)))"

lemma modify_payload_unwrap:
  assumes "unwrap_value_payload w = Some n"
  shows "modify_payload f w = map_option (\<lambda>r. rbind r (\<lambda>c. Inr (rewrap w c))) (f n)"
proof (cases "is_value_node w")
  case True
  with assms have "modify_payload f w = f n" by (simp add: modify_payload_def unwrap_value_payload_def)
  moreover have "rbind r (\<lambda>c. Inr (rewrap w c)) = r" for r :: "edit_error + hson_node"
    using True by (cases r) (simp_all add: rewrap_def)
  ultimately show ?thesis by (simp add: option.map_id0 [unfolded id_def])
next
  case False
  with assms obtain cs where "content_of w = ItemNode n # cs" "is_Node (ItemNode n)"
    by (auto simp: unwrap_value_payload_def split: list.splits hson_item.splits if_splits)
  with False show ?thesis by (simp add: modify_payload_def rewrap_def)
qed

lemma value_node_tag:
  assumes "projected_value_to_hson_node v = Inr n"
  shows "is_value_node n" "is_Node (ItemNode n)" "unwrap_value_payload n = Some n"
  using to_hson_reads(1) [OF assms] reads_as_is_Node
  by (auto simp: reads_as_def is_value_node_def unwrap_value_payload_def)

definition is_container :: "opv \<Rightarrow> bool" where
  "is_container v \<longleftrightarrow> (case v of OPrim p \<Rightarrow> False | _ \<Rightarrow> True)"

lemma container_tag:
  assumes "projected_value_to_hson_node v = Inr n" and "is_container v"
  shows "tag_of n = OBJ_TAG \<or> tag_of n = ARR_TAG"
  using assms by (cases v) (auto simp: is_container_def array_node_iff object_node_iff)

lemma item_wrapper_unwrap:
  assumes "projected_value_to_hson_node v = Inr m"
  shows "unwrap_value_payload (item_wrapper i m) = Some m" and "rewrap (item_wrapper i m) m' = item_wrapper i m'"
  using value_node_tag(2) [OF assms]
  by (simp_all add: unwrap_value_payload_def rewrap_def is_value_node_def is_value_tag_def item_wrapper_def
      with_content_def)

lemma property_node_unwrap:
  assumes "\<not> starts_with k HSON_SYS_PREFIX" and "projected_value_to_hson_node v = Inr m" and "is_container v"
  shows "unwrap_value_payload (property_node k m) = Some m"
    and "projected_value_to_hson_node v' = Inr m' \<Longrightarrow> is_container v' \<Longrightarrow>
      rewrap (property_node k m) m' = property_node k m'"
  using assms(1) user_key_not_value_tag [OF assms(1)] container_tag [OF assms(2,3)] value_node_tag(2) [OF assms(2)]
    container_tag [of v' m']
  by (auto simp: unwrap_value_payload_def rewrap_def is_value_node_def property_node_def with_content_def)

section \<open>Edits below a carrier\<close>

inductive edited :: "(opv \<Rightarrow> path_part \<Rightarrow> opv \<Rightarrow> bool) \<Rightarrow> opv \<Rightarrow> live_path \<Rightarrow> opv \<Rightarrow> bool" for L where
  leaf: "L v part v' \<Longrightarrow> edited L v [part] v'"
| item: "path \<noteq> [] \<Longrightarrow> array_slot vs a = Some i \<Longrightarrow> edited L (vs ! i) path c \<Longrightarrow>
    edited L (OArr vs) (PIdx a # path) (OArr (vs[i := c]))"
| entry: "path \<noteq> [] \<Longrightarrow> object_entry_index es k = Some i \<Longrightarrow> edited L (snd (es ! i)) path c \<Longrightarrow>
    edited L (OObj es) (PKey k # path) (OObj (es[i := (k, c)]))"

definition contained :: "(opv \<Rightarrow> path_part \<Rightarrow> opv \<Rightarrow> bool) \<Rightarrow> bool" where
  "contained L \<longleftrightarrow> (\<forall>v part v'. L v part v' \<longrightarrow> is_container v \<and> is_container v')"

text \<open>A node edit \<open>f\<close> that does to the node of a value what \<open>L\<close> does to the value.\<close>

definition edits_node ::
    "(opv \<Rightarrow> path_part \<Rightarrow> opv \<Rightarrow> bool) \<Rightarrow> (hson_node \<Rightarrow> path_part \<Rightarrow> edit_error + hson_node) \<Rightarrow> bool" where
  "edits_node L f \<longleftrightarrow> (\<forall>v part v' n. L v part v' \<longrightarrow> projected_value_to_hson_node v = Inr n \<longrightarrow>
     agrees (projected_value_to_hson_node v') (f n part))"

lemma edited_containers: "edited L v path v' \<Longrightarrow> contained L \<Longrightarrow> is_container v \<and> is_container v'"
  by (induction rule: edited.induct) (auto simp: is_container_def contained_def)

lemma array_child_slot:
  assumes "to_items 0 vs = Inr c" and "array_slot vs a = Some i"
  obtains m where "child_slot (bare_node ARR_TAG c) (PIdx a) = Some i" "i < length vs"
    "projected_value_to_hson_node (vs ! i) = Inr m" "c ! i = ItemNode (item_wrapper i m)"
proof -
  from assms(2) have i: "num_arg_index a = Some i" "i < length vs" by (simp_all add: array_slot_Some)
  with assms(1) obtain m where "projected_value_to_hson_node (vs ! i) = Inr m" "c ! i = ItemNode (item_wrapper i m)"
    "length c = length vs" by (auto simp: to_items_iff item_of_def)
  with i show thesis by (intro that) (simp_all add: child_slot_def)
qed

lemma object_child_slot:
  assumes "list_all2 member_of es c" and "object_entry_index es k = Some i"
  obtains m where "child_slot (bare_node OBJ_TAG c) (PKey k) = Some i" "i < length es"
    "projected_value_to_hson_node (snd (es ! i)) = Inr m" "c ! i = ItemNode (property_node k m)"
    "\<not> starts_with k HSON_SYS_PREFIX"
proof -
  from object_entry_index_Some [OF assms(2)] have i: "i < length es" "fst (es ! i) = k" by simp_all
  from list_all2_nthD [OF assms(1) i(1)] i(2) obtain m where
    "projected_value_to_hson_node (snd (es ! i)) = Inr m" "c ! i = ItemNode (property_node k m)"
    "\<not> starts_with k HSON_SYS_PREFIX" by (auto simp: member_of_def)
  with i assms show thesis by (intro that) (simp_all add: child_slot_def find_member)
qed

lemma modify_edited:
  assumes "edits_node L f" and "contained L"
  shows "edited L v path v' \<Longrightarrow> projected_value_to_hson_node v = Inr n \<Longrightarrow> unwrap_value_payload w = Some n \<Longrightarrow>
    \<exists>r. modify_value_node (\<lambda>n. f n (last path)) w (butlast path) = Some r \<and>
      (\<forall>g. r = Inr g \<longleftrightarrow> (\<exists>n'. projected_value_to_hson_node v' = Inr n' \<and> g = rewrap w n'))"
proof (induction arbitrary: n w rule: edited.induct)
  case (leaf v part v')
  show ?case
    using assms(1) leaf.hyps leaf.prems(1) modify_payload_unwrap [OF leaf.prems(2)]
    by (auto simp: edits_node_def agrees_def rbind_Inr_iff)
next
  case (item path vs a i c)
  from item.prems(1) obtain cs where n: "n = bare_node ARR_TAG cs" and cs: "to_items 0 vs = Inr cs"
    by (auto simp: array_node_iff)
  from array_child_slot [OF cs item.hyps(2)] obtain m where m: "child_slot n (PIdx a) = Some i" "i < length vs"
    "projected_value_to_hson_node (vs ! i) = Inr m" "cs ! i = ItemNode (item_wrapper i m)" unfolding n by blast
  from item.IH [OF m(3) item_wrapper_unwrap(1) [OF m(3), of i]] obtain r
    where r: "modify_value_node (\<lambda>n. f n (last path)) (item_wrapper i m) (butlast path) = Some r"
      and rI: "\<And>g. r = Inr g \<longleftrightarrow> (\<exists>m'. projected_value_to_hson_node c = Inr m' \<and> g = item_wrapper i m')"
    unfolding item_wrapper_unwrap(2) [OF m(3)] by blast
  let ?r = "rbind (rbind r (\<lambda>c'. Inr (with_content n (cs[i := ItemNode c'])))) (\<lambda>c. Inr (rewrap w c))"
  have "item_of i (vs ! i) (cs ! i)" using cs m(2) by (simp add: to_items_iff)
  then have "int i \<le> max_safe_integer" by (simp add: item_of_def)
  then have out: "projected_value_to_hson_node (OArr (vs[i := c])) = Inr n' \<longleftrightarrow>
      (\<exists>m'. projected_value_to_hson_node c = Inr m' \<and> n' = bare_node ARR_TAG (cs[i := ItemNode (item_wrapper i m')]))"
    for n'
    using update_items [OF cs m(2), of c] by (auto simp: array_node_iff item_of_def)
  have "modify_value_node (\<lambda>n. f n (last (PIdx a # path))) w (butlast (PIdx a # path)) = Some ?r"
    using item.hyps(1) modify_payload_unwrap [OF item.prems(2)] m(1,4) r n by simp
  moreover have "?r = Inr g \<longleftrightarrow> (\<exists>n'. projected_value_to_hson_node (OArr (vs[i := c])) = Inr n' \<and> g = rewrap w n')" for g
    unfolding out by (auto simp: rbind_Inr_iff rI with_content_def n)
  ultimately show ?case by blast
next
  case (entry path es k i c)
  from entry.prems(1) obtain cs where n: "n = bare_node OBJ_TAG cs" and cs: "list_all2 member_of es cs"
    and d: "distinct (map fst es)"
    by (auto simp: object_node_iff to_members_iff)
  from object_child_slot [OF cs entry.hyps(2)] obtain m where m: "child_slot n (PKey k) = Some i" "i < length es"
    "projected_value_to_hson_node (snd (es ! i)) = Inr m" "cs ! i = ItemNode (property_node k m)"
    "\<not> starts_with k HSON_SYS_PREFIX" unfolding n by blast
  have con: "is_container (snd (es ! i))" "is_container c"
    using edited_containers [OF entry.hyps(3) assms(2)] by simp_all
  note unwrap = property_node_unwrap [OF m(5) m(3) con(1)]
  from entry.IH [OF m(3) unwrap(1)] obtain r
    where r: "modify_value_node (\<lambda>n. f n (last path)) (property_node k m) (butlast path) = Some r"
      and r': "\<And>g. r = Inr g \<longleftrightarrow> (\<exists>m'. projected_value_to_hson_node c = Inr m' \<and> g = rewrap (property_node k m) m')"
    by blast
  have rI: "r = Inr g \<longleftrightarrow> (\<exists>m'. projected_value_to_hson_node c = Inr m' \<and> g = property_node k m')" for g
    unfolding r' using unwrap(2) [OF _ con(2)] by auto
  let ?r = "rbind (rbind r (\<lambda>c'. Inr (with_content n (cs[i := ItemNode c'])))) (\<lambda>c. Inr (rewrap w c))"
  have keys: "distinct (map fst (es[i := (k, c)]))"
    using d keys_update_index [OF entry.hyps(2)] by simp
  then have out: "projected_value_to_hson_node (OObj (es[i := (k, c)])) = Inr n' \<longleftrightarrow>
      (\<exists>m'. projected_value_to_hson_node c = Inr m' \<and> n' = bare_node OBJ_TAG (cs[i := ItemNode (property_node k m')]))"
    for n'
    using update_members [OF cs m(2), of "(k, c)"] m(5) by (auto simp: object_node_iff to_members_iff member_of_def)
  have "modify_value_node (\<lambda>n. f n (last (PKey k # path))) w (butlast (PKey k # path)) = Some ?r"
    using entry.hyps(1) modify_payload_unwrap [OF entry.prems(2)] m(1,4) r n by simp
  moreover have "?r = Inr g \<longleftrightarrow> (\<exists>n'. projected_value_to_hson_node (OObj (es[i := (k, c)])) = Inr n' \<and> g = rewrap w n')" for g
    unfolding out by (auto simp: rbind_Inr_iff rI with_content_def n)
  ultimately show ?case by blast
qed

section \<open>Leaf writes\<close>

lemma array_item_node:
  assumes "num_arg_index a = Some i" and "int i \<le> max_safe_integer"
  shows "projected_array_item_to_hson_node a v = Inr w \<longleftrightarrow> item_of i v (ItemNode w)"
proof -
  from assms(1) have "a = IntArg (int i)" by (auto simp: num_arg_index_def split: num_arg.splits if_splits)
  with assms show ?thesis
    by (auto simp: projected_array_item_to_hson_node_def is_safe_integer_def item_of_def res_simps)
qed

lemma property_node_member:
  "projected_object_property_to_hson_node k v = Inr w \<longleftrightarrow> member_of (k, v) (ItemNode w)"
  by (auto simp: projected_object_property_to_hson_node_def member_of_def res_simps)

definition leaf_write :: "opv \<Rightarrow> opv \<Rightarrow> path_part \<Rightarrow> opv \<Rightarrow> bool" where
  "leaf_write x v part v' \<longleftrightarrow> write_at v [part] x True = Inr v'"

lemma leaf_write_agrees: "edits_node (leaf_write x) (\<lambda>n part. write_child_value n part x P)"
  unfolding edits_node_def
proof (intro allI impI)
  fix v part v' n
  assume assms: "leaf_write x v part v'" "projected_value_to_hson_node v = Inr n"
  from assms(1) have "write_at v [part] x True = Inr v'" by (simp add: leaf_write_def)
  then show "agrees (projected_value_to_hson_node v') (write_child_value n part x P)"
  proof (cases rule: write_at_cases)
    case (item a rest' vs i c)
    with assms(2) obtain cs where n: "n = bare_node ARR_TAG cs" and cs: "to_items 0 vs = Inr cs"
      by (auto simp: array_node_iff)
    from item array_child_slot [OF cs item(3)] obtain m where m: "i < length vs" "num_arg_index a = Some i"
      "cs ! i = ItemNode (item_wrapper i m)" by (auto simp: array_slot_Some)
    have "item_of i (vs ! i) (cs ! i)" "length cs = length vs" using cs m(1) by (simp_all add: to_items_iff)
    then have "int i \<le> max_safe_integer" by (simp add: item_of_def)
    note w = array_item_node [OF m(2) this]
    show ?thesis
    proof -
      have "write_child_value n part x P =
          rbind (lift_graph (projected_array_item_to_hson_node a x)) (\<lambda>w. Inr (bare_node ARR_TAG (cs[i := ItemNode w])))"
        using item m n \<open>length cs = length vs\<close> by (simp add: write_child_value_def write_array_index_def with_content_def)
      moreover have "projected_value_to_hson_node v' = Inr n' \<longleftrightarrow>
          (\<exists>w. item_of i x (ItemNode w) \<and> n' = bare_node ARR_TAG (cs[i := ItemNode w]))" for n'
        using item update_items [OF cs m(1), of x] by (auto simp: array_node_iff item_of_def)
      ultimately show ?thesis by (auto simp: agrees_def rbind_Inr_iff w)
    qed
  next
    case (entry k rest' es i c)
    with assms(2) obtain cs where n: "n = bare_node OBJ_TAG cs" and cs: "list_all2 member_of es cs"
      and d: "distinct (map fst es)"
      by (auto simp: object_node_iff to_members_iff)
    have i: "i < length es" using entry by (auto dest: object_entry_index_Some)
    have keys: "distinct (map fst (es[i := (k, x)]))" using d keys_update_index [OF entry(3)] by simp
    show ?thesis
    proof -
      have "write_child_value n part x P =
          rbind (lift_graph (projected_object_property_to_hson_node k x)) (\<lambda>w. Inr (bare_node OBJ_TAG (cs[i := ItemNode w])))"
        using entry n find_member [OF cs, of k]
        by (simp add: write_child_value_def write_object_property_def with_content_def)
      moreover have "projected_value_to_hson_node v' = Inr n' \<longleftrightarrow>
          (\<exists>w. member_of (k, x) (ItemNode w) \<and> n' = bare_node OBJ_TAG (cs[i := ItemNode w]))" for n'
        using entry keys update_members [OF cs i, of "(k, x)"]
        by (auto simp: object_node_iff to_members_iff member_of_def)
      ultimately show ?thesis by (auto simp: agrees_def rbind_Inr_iff property_node_member)
    qed
  next
    case (append k es)
    with assms(2) obtain cs where n: "n = bare_node OBJ_TAG cs" and cs: "list_all2 member_of es cs"
      by (auto simp: object_node_iff to_members_iff)
    have out: "list_all2 member_of (es @ [(k, x)]) d \<longleftrightarrow> (\<exists>w. member_of (k, x) (ItemNode w) \<and> d = cs @ [ItemNode w])" for d
    proof
      assume "list_all2 member_of (es @ [(k, x)]) d"
      then obtain d' y where "d = d' @ [y]" "list_all2 member_of es d'" "member_of (k, x) y"
        by (auto simp: list_all2_append1 list_all2_Cons1)
      moreover from this members_unique [OF cs] have "d' = cs" by simp
      ultimately show "\<exists>w. member_of (k, x) (ItemNode w) \<and> d = cs @ [ItemNode w]" by (auto simp: member_of_def)
    next
      assume "\<exists>w. member_of (k, x) (ItemNode w) \<and> d = cs @ [ItemNode w]"
      with cs show "list_all2 member_of (es @ [(k, x)]) d" by (auto intro: list_all2_appendI)
    qed
    have dist: "distinct (map fst (es @ [(k, x)]))" using append(5,6) by (simp del: map_append)
    have "projected_value_to_hson_node v' = Inr n' \<longleftrightarrow>
        (\<exists>w. member_of (k, x) (ItemNode w) \<and> n' = bare_node OBJ_TAG (cs @ [ItemNode w]))" for n'
      unfolding append(5) object_node_iff to_members_iff out using dist by blast
    moreover have "write_child_value n part x P =
        rbind (lift_graph (projected_object_property_to_hson_node k x)) (\<lambda>w. Inr (bare_node OBJ_TAG (cs @ [ItemNode w])))"
      using append n find_member [OF cs, of k]
      by (simp add: write_child_value_def write_object_property_def with_content_def)
    ultimately show ?thesis by (auto simp: agrees_def rbind_Inr_iff property_node_member)
  qed simp
qed

section \<open>Reading\<close>

text \<open>The value node a path leads to; a primitive property value sits in an object cluster.\<close>

definition presents :: "hson_node \<Rightarrow> opv \<Rightarrow> bool" where
  "presents p v \<longleftrightarrow> projected_value_to_hson_node v = Inr p \<or>
     \<not> is_container v \<and> (\<exists>m. projected_value_to_hson_node v = Inr m \<and> tag_of m \<noteq> OBJ_TAG \<and> tag_of m \<noteq> ARR_TAG \<and>
       p = bare_node OBJ_TAG [ItemNode m])"

lemma presents_container: "presents p v \<Longrightarrow> is_container v \<Longrightarrow> projected_value_to_hson_node v = Inr p"
  by (auto simp: presents_def)

lemma presents_reads: "presents p v \<Longrightarrow> projected_value_from_hson_node p = Inr v \<and> is_projected_value_hson_node p"
proof -
  assume "presents p v"
  then consider "projected_value_to_hson_node v = Inr p"
    | m where "projected_value_to_hson_node v = Inr m" "p = value_node OBJ_TAG [ItemNode m]" "tag_of m \<noteq> OBJ_TAG" "tag_of m \<noteq> ARR_TAG"
    by (auto simp: presents_def value_node_def)
  then show ?thesis
  proof cases
    case 1
    from to_hson_reads(1) [OF 1] show ?thesis by (auto simp: reads_as_def is_projected_value_hson_node_def)
  next
    case 2
    with property_payload_reads [OF to_hson_reads(1) [OF 2(1)]] show ?thesis
      by (simp add: is_projected_value_hson_node_def value_node_def)
  qed
qed

lemma prim_tag: "projected_value_to_hson_node (OPrim p) = Inr m \<Longrightarrow> tag_of m = STR_TAG \<or> tag_of m = VAL_TAG"
  by (cases p) (auto simp: res_simps value_node_def hsonNumber_def split: if_splits sum.splits)

lemma property_presents:
  assumes "projected_value_to_hson_node v = Inr m" and "\<not> starts_with k HSON_SYS_PREFIX"
  shows "\<exists>p. unwrap_value_payload (property_node k m) = Some p \<and> presents p v"
proof (cases "is_container v")
  case True
  with property_node_unwrap(1) [OF assms(2,1)] assms(1) show ?thesis by (auto simp: presents_def)
next
  case False
  then obtain q where "v = OPrim q" by (cases v) (auto simp: is_container_def)
  with assms(1) prim_tag [of q m] have "tag_of m = STR_TAG \<or> tag_of m = VAL_TAG" by simp
  with False assms user_key_not_value_tag [OF assms(2)] show ?thesis
    by (auto simp: presents_def unwrap_value_payload_def is_value_node_def property_node_def value_node_def)
qed

lemma container_child:
  assumes "projected_value_to_hson_node v = Inr n" and "is_container v"
  shows "case step_part (Some v) part of
      None \<Rightarrow> find_child_wrapper n part = None
    | Some d \<Rightarrow> \<exists>w p. find_child_wrapper n part = Some w \<and> unwrap_value_payload w = Some p \<and> presents p d"
proof (cases v)
  case (OArr vs)
  with assms obtain cs where n: "n = bare_node ARR_TAG cs" and cs: "to_items 0 vs = Inr cs"
    by (auto simp: array_node_iff)
  show ?thesis
  proof (cases part)
    case (PIdx a)
    show ?thesis
    proof (cases "array_slot vs a")
      case None
      moreover have "length cs = length vs" using cs by (simp add: to_items_iff)
      ultimately show ?thesis
        using OArr PIdx n
        by (auto simp: step_part_OArr find_child_wrapper_def child_slot_def array_slot_def simp del: step_part.simps
            split: option.splits)
    next
      case (Some i)
      from array_child_slot [OF cs Some] obtain m where m: "child_slot n (PIdx a) = Some i"
        "projected_value_to_hson_node (vs ! i) = Inr m" "cs ! i = ItemNode (item_wrapper i m)" unfolding n by blast
      with OArr PIdx Some n item_wrapper_unwrap(1) [OF m(2)] show ?thesis
        by (simp add: step_part_OArr find_child_wrapper_def presents_def del: step_part.simps)
    qed
  qed (simp add: OArr n find_child_wrapper_def child_slot_def)
next
  case (OObj es)
  with assms obtain cs where n: "n = bare_node OBJ_TAG cs" and cs: "list_all2 member_of es cs"
    by (auto simp: object_node_iff to_members_iff)
  show ?thesis
  proof (cases part)
    case (PKey k)
    show ?thesis
    proof (cases "object_entry_index es k")
      case None
      with OObj PKey n find_member [OF cs, of k] show ?thesis
        by (simp add: find_child_wrapper_def child_slot_def object_entry_value_def)
    next
      case (Some i)
      from object_child_slot [OF cs Some] obtain m where m: "child_slot n (PKey k) = Some i"
        "projected_value_to_hson_node (snd (es ! i)) = Inr m" "cs ! i = ItemNode (property_node k m)"
        "\<not> starts_with k HSON_SYS_PREFIX" unfolding n by blast
      with OObj PKey Some n property_presents [OF m(2,4)] show ?thesis
        by (simp add: find_child_wrapper_def object_entry_value_def)
    qed
  qed (simp add: OObj n find_child_wrapper_def child_slot_def)
qed (use assms in \<open>simp add: is_container_def\<close>)

lemma resolve_Cons:
  "unwrap_value_payload w = Some n \<Longrightarrow>
     resolve_value_node w (part # path) =
       (case find_child_wrapper n part of None \<Rightarrow> None | Some c \<Rightarrow> resolve_value_node c path)"
  by (simp add: resolve_value_node_def split: option.split)

text \<open>A path without reserved names.\<close>

definition plain_path :: "live_path \<Rightarrow> bool" where
  "plain_path path \<longleftrightarrow> (\<forall>k. PKey k \<in> set path \<longrightarrow> \<not> starts_with k HSON_SYS_PREFIX)"

text \<open>
  Where a path leads: exactly to the node of the value there. Only below a primitive value do the
  reserved names matter: the cluster around it has a child with a reserved tag.
\<close>

lemma resolve_presents:
  assumes "presents n v" and "unwrap_value_payload w = Some n"
    and "plain_path path \<or> path = [] \<or> (\<exists>u. ordered_projected_value_at v (butlast path) = Some u \<and> is_container u)"
  shows "case ordered_projected_value_at v path of
      None \<Rightarrow> resolve_value_node w path = None
    | Some c \<Rightarrow> \<exists>p. resolve_value_node w path = Some p \<and> presents p c"
  using assms
proof (induction path arbitrary: v n w)
  case Nil
  then show ?case by (simp add: resolve_value_node_def)
next
  case (Cons part path)
  show ?case
  proof (cases "is_container v")
    case True
    note child = container_child [OF presents_container [OF Cons.prems(1) True] True, of part]
    show ?thesis
    proof (cases "step_part (Some v) part")
      case None
      with child Cons.prems(2) show ?thesis by (simp add: resolve_Cons value_at_Cons)
    next
      case (Some d)
      with child obtain c p where c: "find_child_wrapper n part = Some c" "unwrap_value_payload c = Some p" "presents p d"
        by auto
      have "plain_path path \<or> path = [] \<or> (\<exists>u. ordered_projected_value_at d (butlast path) = Some u \<and> is_container u)"
        using Cons.prems(3) Some by (cases "path = []") (auto simp: plain_path_def value_at_Cons)
      from Cons.IH [OF c(3,2) this] Some c(1) Cons.prems(2) show ?thesis
        by (cases "ordered_projected_value_at d path") (simp_all add: resolve_Cons value_at_Cons)
    qed
  next
    case False
    then obtain q where v: "v = OPrim q" by (cases v) (auto simp: is_container_def)
    from Cons.prems(1) v obtain m where m: "projected_value_to_hson_node v = Inr m" "n = m \<or> n = bare_node OBJ_TAG [ItemNode m]"
      by (auto simp: presents_def)
    have tag: "tag_of m = STR_TAG \<or> tag_of m = VAL_TAG" using m(1) v prim_tag by simp
    have "plain_path (part # path)"
    proof -
      have "\<not> (\<exists>u. ordered_projected_value_at v (butlast (part # path)) = Some u \<and> is_container u)"
        using v by (cases path) (auto simp: value_at_Cons is_container_def)
      with Cons.prems(3) show ?thesis by (elim disjE) blast+
    qed
    then have "find_child_wrapper n part = None"
      using m(2) tag user_tag_neq
      by (cases part) (auto simp: find_child_wrapper_def child_slot_def plain_path_def is_wrapper_def)
    with v Cons.prems(2) show ?thesis by (simp add: resolve_Cons value_at_Cons)
  qed
qed

text \<open>What a public read returns for a carrier value: fresh objects for it, or nothing.\<close>

definition read_fresh :: "opv option \<Rightarrow> js_heap \<Rightarrow> js_value option \<times> js_heap" where
  "read_fresh u h = (case u of None \<Rightarrow> (None, h) | Some x \<Rightarrow> map_prod Some id (mat_visit x h))"

lemma read_resolved:
  assumes "presents n v" and "unwrap_value_payload w = Some n" and "opv_ok v"
    and "plain_path path \<or> path = [] \<or> (\<exists>u. ordered_projected_value_at v (butlast path) = Some u \<and> is_container u)"
  shows "project_live_path w path = Inr (ordered_projected_value_at v path)"
    and "snap_live_path w path h = Inr (read_fresh (ordered_projected_value_at v path) h)"
proof -
  note r = resolve_presents [OF assms(1,2,4)]
  show "project_live_path w path = Inr (ordered_projected_value_at v path)"
    using r presents_reads by (auto simp: project_live_path_def lift_graph_def split: option.splits)
  show "snap_live_path w path h = Inr (read_fresh (ordered_projected_value_at v path) h)"
  proof (cases "ordered_projected_value_at v path")
    case None
    with r show ?thesis by (simp add: snap_live_path_def read_fresh_def)
  next
    case (Some u)
    with r obtain p where p: "resolve_value_node w path = Some p" "presents p u" by auto
    have "opv_ok u" using assms(3) Some by (rule value_at_ok)
    then have "assert_opv u = Inr ()" by (simp add: assert_sound)
    then have "node_to_json_value p h = Inr (mat_visit u h)"
      using presents_reads [OF p(2)]
      by (simp add: node_to_json_value.simps [of p h] lift_graph_def lift_carrier_def
          materialize_projected_value_def)
    then show ?thesis using p(1) Some by (simp add: snap_live_path_def read_fresh_def split: prod.split)
  qed
qed

section \<open>Edits\<close>

definition leaf_delete :: "opv \<Rightarrow> path_part \<Rightarrow> opv \<Rightarrow> bool" where
  "leaf_delete v part v' \<longleftrightarrow> delete_at v [part] = Inr v'"

lemma remove_members:
  "list_all2 member_of es c \<Longrightarrow> list_all2 member_of (remove_nth i es) (remove_nth i c)"
  by (auto simp: remove_nth_def intro!: list_all2_appendI list_all2_takeI list_all2_dropI)

lemma leaf_delete_agrees: "edits_node leaf_delete (\<lambda>n part. delete_child_value n part P)"
  unfolding edits_node_def
proof (intro allI impI)
  fix v part v' n
  assume assms: "leaf_delete v part v'" "projected_value_to_hson_node v = Inr n"
  from assms(1) have "delete_at v [part] = Inr v'" by (simp add: leaf_delete_def)
  then obtain k es i where k: "part = PKey k" "v = OObj es" "object_entry_index es k = Some i" "v' = OObj (remove_nth i es)"
    by (cases rule: delete_at_cases) auto
  with assms(2) obtain cs where n: "n = bare_node OBJ_TAG cs" and cs: "list_all2 member_of es cs"
    and d: "distinct (map fst es)"
    by (auto simp: object_node_iff to_members_iff)
  have "projected_value_to_hson_node v' = Inr n' \<longleftrightarrow> n' = bare_node OBJ_TAG (remove_nth i cs)" for n'
    using k(4) remove_members [OF cs, of i] members_unique d distinct_remove_nth [OF d, of i]
    by (auto simp: object_node_iff to_members_iff map_remove_nth)
  moreover have "delete_child_value n part P = Inr (bare_node OBJ_TAG (remove_nth i cs))"
    using k n find_member [OF cs, of k] by (simp add: delete_child_value_def delete_object_property_def with_content_def)
  ultimately show "agrees (projected_value_to_hson_node v') (delete_child_value n part P)" by (auto simp: agrees_def)
qed

lemma leaf_containers: "contained (leaf_write x)" "contained leaf_delete"
  unfolding leaf_write_def leaf_delete_def contained_def
  by (auto elim: write_at_cases delete_at_cases simp: is_container_def)

lemma write_edited: "write_at v path x True = Inr v' \<Longrightarrow> path \<noteq> [] \<Longrightarrow> edited (leaf_write x) v path v'"
proof (induction path arbitrary: v v')
  case (Cons part path)
  show ?case
  proof (cases "path = []")
    case True
    with Cons.prems show ?thesis by (auto simp: leaf_write_def intro: edited.leaf)
  next
    case False
    from Cons.prems(1) False show ?thesis
      by (cases rule: write_at_cases) (auto intro: edited.item edited.entry Cons.IH)
  qed
qed simp

lemma delete_edited: "delete_at v path = Inr v' \<Longrightarrow> edited leaf_delete v path v'"
proof (induction path arbitrary: v v')
  case (Cons part path)
  from Cons.prems show ?case
  proof (cases rule: delete_at_cases)
    case (leaf k es i)
    with Cons.prems have "leaf_delete v part v'" by (simp add: leaf_delete_def)
    with leaf show ?thesis by (auto intro: edited.leaf)
  qed (auto intro: edited.item edited.entry Cons.IH)
qed simp

lemma edited_parent:
  "edited L v path v' \<Longrightarrow> contained L \<Longrightarrow>
     path \<noteq> [] \<and> (\<exists>u. ordered_projected_value_at v (butlast path) = Some u \<and> is_container u)"
proof (induction rule: edited.induct)
  case (item path vs a i c)
  then show ?case
    by (auto simp: value_at_Cons step_part_OArr simp del: step_part.simps)
next
  case (entry path es k i c)
  then show ?case
    by (auto simp: value_at_Cons step_part_OObj entry_value_nth simp del: step_part.simps)
qed (auto simp: contained_def)

section \<open>The owned graph\<close>

lemma root_node_iff:
  "projected_value_to_hson_root v = Inr g \<longleftrightarrow>
     (\<exists>n. projected_value_to_hson_node v = Inr n \<and> g = bare_node ROOT_TAG [ItemNode n])"
  by (auto simp: projected_value_to_hson_root_def res_simps)

lemma root_unwrap:
  assumes "is_Node (ItemNode n)"
  shows "unwrap_value_payload (bare_node ROOT_TAG [ItemNode n]) = Some n"
    and "rewrap (bare_node ROOT_TAG [ItemNode n]) m = bare_node ROOT_TAG [ItemNode m]"
  using assms by (simp_all add: unwrap_value_payload_def is_value_node_def is_value_tag_def rewrap_def with_content_def)

lemma root_read:
  assumes "projected_value_to_hson_root v = Inr g"
    and "plain_path path \<or> path = [] \<or> (\<exists>u. ordered_projected_value_at v (butlast path) = Some u \<and> is_container u)"
  shows "project_live_path g path = Inr (ordered_projected_value_at v path)"
    and "snap_live_path g path h = Inr (read_fresh (ordered_projected_value_at v path) h)"
proof -
  have ok: "opv_ok v" using assms(1) to_hson_total(1) [of v] projectable_ok by (auto simp: root_node_iff)
  from assms(1) obtain n where n: "projected_value_to_hson_node v = Inr n" "g = bare_node ROOT_TAG [ItemNode n]"
    by (auto simp: root_node_iff)
  have "unwrap_value_payload g = Some n" using root_unwrap(1) value_node_tag(2) [OF n(1)] n(2) by simp
  moreover have "presents n v" using n(1) by (simp add: presents_def)
  ultimately show "project_live_path g path = Inr (ordered_projected_value_at v path)"
    "snap_live_path g path h = Inr (read_fresh (ordered_projected_value_at v path) h)"
    using read_resolved ok assms(2) by blast+
qed

lemma root_edit:
  assumes "projected_value_to_hson_root v = Inr g" and "edited L v path v'"
    and "edits_node L (\<lambda>n part. f n part path)" and "contained L"
  shows "agrees (projected_value_to_hson_root v') (write_at_parent f g path)"
proof -
  from assms(1) obtain n where n: "projected_value_to_hson_node v = Inr n" "g = bare_node ROOT_TAG [ItemNode n]"
    by (auto simp: root_node_iff)
  note u = root_unwrap [OF value_node_tag(2) [OF n(1)]]
  have "unwrap_value_payload g = Some n" using u(1) n(2) by simp
  from modify_edited [OF assms(3,4,2) n(1) this] u(2) n(2) obtain r
    where "modify_value_node (\<lambda>n. f n (last path) path) g (butlast path) = Some r"
      and "\<And>h. r = Inr h \<longleftrightarrow> (\<exists>n'. projected_value_to_hson_node v' = Inr n' \<and> h = bare_node ROOT_TAG [ItemNode n'])"
    by auto
  then show ?thesis by (auto simp: agrees_def write_at_parent_def root_node_iff)
qed

definition edits_to :: "edit_error + hson_node \<Rightarrow> opv \<Rightarrow> bool" where
  "edits_to r v' \<longleftrightarrow> agrees (projected_value_to_hson_root v') r"

lemma set_edits:
  assumes "projected_value_to_hson_root v = Inr g" and "ordered_projected_value_set v path x = Inr v'"
  shows "edits_to (rbind (set_live_path_from_projected g path x) (\<lambda>r. Inr (edit_root r))) v'"
proof -
  from assms(2) have w: "write_at v path x True = Inr v'" and p: "path \<noteq> []"
    by (auto simp: ordered_projected_value_set_def split: if_splits)
  note ed = write_edited [OF w p]
  have "project_live_path g path = Inr (ordered_projected_value_at v path)"
    using edited_parent [OF ed leaf_containers(1)] root_read(1) [OF assms(1)] by blast
  moreover have ag: "agrees (projected_value_to_hson_root v') (write_at_parent (\<lambda>n key p. write_child_value n key x p) g path)"
    by (rule root_edit [OF assms(1) ed leaf_write_agrees leaf_containers(1)])
  moreover have "rbind (set_live_path_from_projected g path x) (\<lambda>r. Inr (edit_root r)) =
      write_at_parent (\<lambda>n key p. write_child_value n key x p) g path"
    using p calculation(1)
    by (cases "write_at_parent (\<lambda>n key p. write_child_value n key x p) g path")
      (simp_all add: set_live_path_from_projected_def)
  ultimately show ?thesis by (simp add: edits_to_def)
qed

lemma replace_edits:
  assumes "projected_value_to_hson_root v = Inr g" and "ordered_projected_value_replace v path x = Inr v'"
  shows "edits_to (rbind (replace_live_path_from_projected g path x) (\<lambda>r. Inr (edit_root r))) v'"
proof (cases "path = []")
  case True
  then show ?thesis
    using assms root_read(1) [OF assms(1), of "[]"]
    by (auto simp: edits_to_def agrees_def replace_live_path_from_projected_def replace_live_root_from_projected_def rbind_Inr_iff
        ordered_projected_value_replace_def)
next
  case False
  with assms(2) have r: "write_at v path x False = Inr v'" by (simp add: ordered_projected_value_replace_def)
  from write_at_resolves [OF r] obtain u where u: "ordered_projected_value_at v path = Some u" by auto
  have "opv_ok v" using assms(1) to_hson_total(1) [of v] projectable_ok by (auto simp: root_node_iff)
  have w: "write_at v path x True = Inr v'" using r by (rule write_at_weaken)
  note ed = write_edited [OF w False]
  have "project_live_path g path = Inr (ordered_projected_value_at v path)"
    using edited_parent [OF ed leaf_containers(1)] root_read(1) [OF assms(1)] by blast
  moreover have ag: "agrees (projected_value_to_hson_root v') (write_at_parent (\<lambda>n key p. write_child_value n key x p) g path)"
    by (rule root_edit [OF assms(1) ed leaf_write_agrees leaf_containers(1)])
  moreover have "rbind (replace_live_path_from_projected g path x) (\<lambda>r. Inr (edit_root r)) =
      write_at_parent (\<lambda>n key p. write_child_value n key x p) g path"
    using False u calculation(1)
    by (cases "write_at_parent (\<lambda>n key p. write_child_value n key x p) g path")
      (simp_all add: replace_live_path_from_projected_def)
  ultimately show ?thesis by (simp add: edits_to_def)
qed

lemma delete_edits:
  assumes "projected_value_to_hson_root v = Inr g" and "ordered_projected_value_delete v path = Inr v'"
  shows "edits_to (rbind (delete_live_path g path []) (\<lambda>(r, h). Inr (edit_root r))) v'"
proof -
  from assms(2) have d: "delete_at v path = Inr v'" and p: "path \<noteq> []"
    by (auto simp: ordered_projected_value_delete_def split: if_splits)
  note ed = delete_edited [OF d]
  have ok: "opv_ok v" using assms(1) to_hson_total(1) [of v] projectable_ok by (auto simp: root_node_iff)
  note parent = edited_parent [OF ed leaf_containers(2)]
  obtain u where u: "ordered_projected_value_at v path = Some u" using delete_at_gone [OF ok d] by auto
  have "snap_live_path g path [] = Inr (read_fresh (Some u) [])"
    using parent u root_read(2) [OF assms(1), of path] by simp
  moreover have ag: "agrees (projected_value_to_hson_root v') (write_at_parent delete_child_value g path)"
    by (rule root_edit [OF assms(1) ed leaf_delete_agrees leaf_containers(2)])
  moreover have "\<exists>a. snap_live_path g' path h = Inr a" if g': "projected_value_to_hson_root v' = Inr g'" for g' h
  proof -
    have "\<exists>u. ordered_projected_value_at v' (butlast path) = Some u \<and> is_container u"
      using ed leaf_containers(2)
    proof (induction rule: edited.induct)
      case (item path vs a i c)
      then show ?case
        by (auto simp: value_at_Cons step_part_OArr array_slot_def simp del: step_part.simps split: option.splits if_splits)
    next
      case (entry path es k i c)
      then show ?case
        by (auto simp: value_at_Cons step_part_OObj map_of_update_index simp del: step_part.simps)
    qed (auto simp: contained_def)
    with root_read(2) [OF g'] show ?thesis by blast
  qed
  moreover have "rbind (delete_live_path g path []) (\<lambda>(r, h). Inr (edit_root r)) =
      write_at_parent delete_child_value g path"
  proof (cases "write_at_parent delete_child_value g path")
    case (Inr k)
    with ag have "projected_value_to_hson_root v' = Inr k" by (simp add: agrees_def)
    with calculation(3) have s: "\<exists>a. snap_live_path k path h = Inr a" for h by blast
    obtain w h where m: "mat_visit u [] = (w, h)" by fastforce
    from s obtain n h' where "snap_live_path k path h = Inr (n, h')" by fastforce
    with Inr p calculation(1) m show ?thesis by (simp add: delete_live_path_def read_fresh_def)
  next
    case (Inl e)
    obtain w h where m: "mat_visit u [] = (w, h)" by fastforce
    with Inl p calculation(1) show ?thesis by (simp add: delete_live_path_def read_fresh_def)
  qed
  ultimately show ?thesis by (simp add: edits_to_def)
qed

section \<open>Installing the operations of a commit\<close>

lemma rename_written:
  assumes "opv_ok root" and "op_explains root (RenameData path src dst prev next') c"
  shows "ordered_projected_value_replace root path (OObj next') = Inr c"
proof -
  from assms(2) obtain es where es: "ordered_projected_value_at root path = Some (OObj es)" and ne: "src \<noteq> dst"
    and r: "ordered_projected_object_rename root path src dst = Inr c"
    by (auto simp: op_explains_def rbind_Inr_iff must_value_iff split: if_splits)
  from r es ne obtain nx where nx: "ordered_projected_object (rename_entries src dst es) = Inr nx"
    and w: "ordered_projected_value_replace root path nx = Inr c"
    by (auto simp: ordered_projected_object_rename_def rbind_Inr_iff split: option.splits)
  from nx have "opv_ok nx" by (auto simp: ordered_projected_object_iff)
  from ops.at_replace_same [OF assms(1) this w] assms(2) have "nx = OObj next'" by (simp add: op_explains_def)
  with w show ?thesis by simp
qed

lemma move_written:
  assumes "opv_ok root" and "op_explains root (MoveData path src dst prev next') c"
  shows "ordered_projected_value_replace root path (OArr next') = Inr c"
proof -
  from assms(2) obtain vs where vs: "ordered_projected_value_at root path = Some (OArr vs)" and ne: "src \<noteq> dst"
    and must: "must_core_move_index vs path src MoveSource = Inr ()" "must_core_move_index vs path dst MoveDestination = Inr ()"
    and r: "ordered_projected_array_move root path src dst = Inr c"
    by (auto simp: op_explains_def rbind_Inr_iff must_value_iff split: if_splits)
  from must obtain i j where ij: "safe_index src (length vs) = Some i" "safe_index dst (length vs) = Some j"
    by (auto simp: must_core_move_index_def split: if_splits)
  have "i \<noteq> j" using ij ne num_arg_index_inject by (auto simp: safe_index_def split: if_splits option.splits)
  with r vs ij have ok: "opv_ok (OArr (move_items i j vs))"
    and w: "ordered_projected_value_replace root path (OArr (move_items i j vs)) = Inr c"
    by (auto simp: ordered_projected_array_move_def rbind_Inr_iff ordered_projected_array_iff)
  from ops.at_replace_same [OF assms(1) ok w] assms(2) w show ?thesis by (simp add: op_explains_def)
qed

lemma splice_written:
  assumes "opv_ok root" and "op_explains root (SpliceData path start removed inserted prev next') c"
  shows "ordered_projected_value_replace root path (OArr next') = Inr c"
proof -
  from assms(2) obtain r where s: "ordered_projected_array_splice root path start (IntArg (int (length removed))) inserted
      = Inr (c, r)"
    by (auto simp: op_explains_def rbind_Inr_iff split: if_splits)
  then obtain vs i d where "opv_ok (OArr (splice_items i d inserted vs))"
    "ordered_projected_value_replace root path (OArr (splice_items i d inserted vs)) = Inr c"
    by (rule splice_result)
  with ops.at_replace_same [OF assms(1) this] assms(2) show ?thesis by (simp add: op_explains_def)
qed

lemma op_installed:
  assumes "projected_value_to_hson_root root = Inr g" and "op_explains root x c"
  shows "edits_to (edit_for_op g x) c"
proof -
  have ok: "opv_ok root" using assms(1) to_hson_total(1) [of root] projectable_ok by (auto simp: root_node_iff)
  show ?thesis
  proof (cases x)
    case (PutData kind path prev v)
    show ?thesis
    proof (cases kind)
      case PutSet
      with PutData assms(2) have "ordered_projected_value_set root path v = Inr c"
        by (auto simp: op_explains_def rbind_Inr_iff Let_def)
      with set_edits [OF assms(1)] PutData PutSet show ?thesis by (simp add: edit_for_op_def)
    next
      case PutReplace
      with PutData assms(2) have "ordered_projected_value_replace root path v = Inr c"
        by (auto simp: op_explains_def rbind_Inr_iff)
      with replace_edits [OF assms(1)] PutData PutReplace show ?thesis by (simp add: edit_for_op_def)
    qed
  next
    case (DropData path prev)
    with assms(2) have "ordered_projected_value_delete root path = Inr c"
      by (auto simp: op_explains_def rbind_Inr_iff)
    with delete_edits [OF assms(1)] DropData show ?thesis by (simp add: edit_for_op_def)
  next
    case (SpliceData path start removed inserted prev v)
    with replace_edits [OF assms(1)] splice_written [OF ok] assms(2) show ?thesis by (simp add: edit_for_op_def)
  next
    case (RenameData path src dst prev v)
    with replace_edits [OF assms(1)] rename_written [OF ok] assms(2) show ?thesis by (simp add: edit_for_op_def)
  next
    case (MoveData path src dst prev v)
    with replace_edits [OF assms(1)] move_written [OF ok] assms(2) show ?thesis by (simp add: edit_for_op_def)
  qed
qed

text \<open>Every carrier the operations lead through has a node form.\<close>

fun projectable_along :: "opv \<Rightarrow> projected_op list \<Rightarrow> bool" where
  "projectable_along root [] \<longleftrightarrow> True"
| "projectable_along root (op # ops) \<longleftrightarrow>
     (case plan_write_op (projected_write_op_from_transport op) root of
        Inl e \<Rightarrow> False
      | Inr (m, planned) \<Rightarrow> projectable m \<and> projectable_along m ops)"

lemma ops_installed:
  "projected_value_to_hson_root root = Inr g \<Longrightarrow> ops_explain root ops v \<Longrightarrow>
     apply_projected_transport_ops g ops = (h, Inr ()) \<longleftrightarrow>
       projectable_along root ops \<and> projected_value_to_hson_root v = Inr h"
proof (induction ops arbitrary: root g)
  case (Cons x ops)
  from Cons.prems(2) obtain m where m: "op_explains root x m" "ops_explain m ops v" by auto
  have plan: "plan_write_op (projected_write_op_from_transport x) root = Inr (m, [x])"
    using m(1) by (simp add: op_explains_def)
  note edit = op_installed [OF Cons.prems(1) m(1), unfolded edits_to_def agrees_def, rule_format]
  show ?case
  proof (cases "edit_for_op g x")
    case (Inl e)
    with edit have "\<not> (\<exists>k. projected_value_to_hson_root m = Inr k)" by auto
    then have "\<not> projectable m" using to_hson_total(1) [of m] by (auto simp: root_node_iff)
    with Inl plan show ?thesis by simp
  next
    case (Inr r)
    with edit [of r] have k: "projected_value_to_hson_root m = Inr r" by auto
    then have "projectable m" using to_hson_total(1) [of m] by (auto simp: root_node_iff)
    with Cons.IH [OF k m(2)] Inr plan show ?thesis by simp
  qed
qed auto

text \<open>
  C10: on the graph of a carrier, the operations a plan leaves, applied one after the other to only
  the branches they address, end without an error exactly when every carrier on the way has a node
  form, and then in the very graph that building the planned carrier anew gives.
\<close>

theorem delta_install_is_rebuild:
  assumes "projected_value_to_hson_root root = Inr g" and "list_all write_ok ws"
    and "plan_write_ops root ws = Inr (v, ops)"
  shows "apply_projected_transport_ops g ops = (h, Inr ()) \<longleftrightarrow>
    projectable_along root ops \<and> projected_value_to_hson_root v = Inr h"
proof -
  have "opv_ok root" using assms(1) to_hson_total(1) [of root] projectable_ok by (auto simp: root_node_iff)
  from write_ops_explained [OF this assms(2,3)] ops_installed [OF assms(1)] show ?thesis by blast
qed




text \<open>The condition on names is needed: the cluster of a primitive property can be entered.\<close>

lemma reserved_segment_enters_cluster:
  "\<exists>g. projected_value_to_hson_root (OObj [(js ''name'', OPrim (PStr (js ''Ada'')))]) = Inr g \<and>
     snap_live_path g [PKey (js ''name''), PKey STR_TAG] h = Inr (Some (VStr (js ''Ada'')), h)"
  by (simp add: projected_value_to_hson_root_def projected_value_to_hson_node.simps assert_sound lift_carrier_def
      assert_projected_object_key_def HSON_SYS_PREFIX_def property_node_def value_node_def snap_live_path_def
      resolve_value_node_def unwrap_value_payload_def is_value_node_def find_child_wrapper_def child_slot_def
      is_wrapper_def tag_defs is_value_tag_def is_projected_value_hson_node_def prim_from_str_def lift_graph_def
      node_to_json_value.simps materialize_projected_value_def)


lemma sample_plan:
  "plan_write_ops sample_graph_value [WriteMove [PKey (js ''b'')] (IntArg 0) (IntArg 1), WriteDelete [PKey (js ''a'')]] =
   Inr (OObj [(js ''b'', OArr [OPrim (PStr (js ''x'')), OPrim PNull])],
     [MoveData [PKey (js ''b'')] (IntArg 0) (IntArg 1) [OPrim PNull, OPrim (PStr (js ''x''))] [OPrim (PStr (js ''x'')), OPrim PNull],
      DropData [PKey (js ''a'')] (Some (OObj []))])"
  by (simp add: sample_graph_value_def plan_eval sample_eval ordered_projected_array_move_def safe_index_def
      is_safe_integer_def max_safe_integer_def move_items_def remove_nth_def insert_nth_def assert_sound)

theorem delta_install_is_rebuild_witness:
  "\<exists>v ops h. plan_write_ops sample_graph_value
      [WriteMove [PKey (js ''b'')] (IntArg 0) (IntArg 1), WriteDelete [PKey (js ''a'')]] = Inr (v, ops) \<and> length ops = 2 \<and>
    apply_projected_transport_ops sample_graph_root ops = (h, Inr ()) \<and> projected_value_to_hson_root v = Inr h"
proof -
  let ?ws = "[WriteMove [PKey (js ''b'')] (IntArg 0) (IntArg 1), WriteDelete [PKey (js ''a'')]]"
  obtain v ops where p: "plan_write_ops sample_graph_value ?ws = Inr (v, ops)" and n: "length ops = 2"
    and s: "projectable_along sample_graph_value ops" and pv: "projectable v"
    using sample_plan
    by (auto simp: sample_graph_value_def plan_eval sample_eval ordered_projected_array_move_def safe_index_def
        is_safe_integer_def max_safe_integer_def move_items_def remove_nth_def insert_nth_def assert_sound HSON_SYS_PREFIX_def)
  from pv obtain h where h: "projected_value_to_hson_root v = Inr h"
    using to_hson_total(1) [of v] by (auto simp: root_node_iff)
  have "list_all write_ok ?ws" by simp
  from delta_install_is_rebuild [OF sample_graph_eval this p, of h] s h p n show ?thesis by blast
qed

end
