(* ===== verification/Locus_History.thy ===== *)
theory Locus_History
  imports Document_Install Data_Plan Value_Materialization "HOL-Library.While_Combinator"
begin

text \<open>
  The canonical history of a locus (\<open>api/locus/locus.history.ts\<close>): the detached commit made of a live
  commit, the bounded list of retained commits, the publication queue and replay from a revision.
  Two functions are arguments: \<open>encode\<close>, the text of exact graph content (\<open>None\<close> where it cannot be
  written), and \<open>sizeOf\<close>, the number of UTF-8 bytes of a commit's JSON. Traces are left out.
\<close>

section \<open>Canonical operations\<close>

datatype history_error =
    EmptyIdentity
  | InvalidBound
  | NotProjectedValue
  | InvalidPathSegment
  | DeleteNextPresent
  | SpliceStartInvalid
  | SpliceNotArrays
  | RenameNotObjects
  | MoveIndexInvalid
  | MoveNotArrays
  | NextAbsent
  | GraphContentInvalid
  | GraphPayloadInvalid
  | DocumentPathInvalid document_path_fault
  | UnchangedCommit
  | PrevRevInvalid
  | RevTransitionInvalid
  | NotContiguous nat
  | NoOperations
  | DomainIncompatible root_mode
  | RootReplacementIncompatible root_mode
  | StructuralTransportRequired
  | InitialBaseInvalid
  | InitialNotContiguous
  | InitialHeadMismatch

type_synonym canonical_op = "(opv, document_path, js_string) any_op"

record canonical_commit =
  k_map :: js_string
  k_incarnation :: js_string
  k_mode :: root_mode
  k_prev :: nat
  k_rev :: nat
  k_ops :: "canonical_op list"
  k_payload :: "js_string option"

text \<open>A detached copy is the admitted value with the key order materialization gives it.\<close>

definition clone_projected_value :: "js_heap \<Rightarrow> js_value \<Rightarrow> history_error + opv" where
  "clone_projected_value h v =
     (case admit_projected_value h v [] of
        Inl e \<Rightarrow> Inl NotProjectedValue
      | Inr x \<Rightarrow> Inr (js_ordered x))"

definition wire_value :: "js_heap \<Rightarrow> js_value option \<Rightarrow> history_error + opv option" where
  "wire_value h v =
     (case v of None \<Rightarrow> Inr None | Some w \<Rightarrow> rbind (clone_projected_value h w) (\<lambda>x. Inr (Some x)))"

definition must_history_path :: "live_path \<Rightarrow> history_error + live_path" where
  "must_history_path path = (if list_all path_part_valid path then Inr path else Inl InvalidPathSegment)"

definition must_json_array :: "js_heap \<Rightarrow> js_value list \<Rightarrow> history_error + opv list" where
  "must_json_array h vs = traverse (clone_projected_value h) vs"

definition heap_array :: "js_heap \<Rightarrow> js_value option \<Rightarrow> bool option" where
  "heap_array h v =
     (case v of
        Some (VRef a) \<Rightarrow> map_option (\<lambda>x. obj_is_array x = Some True) (heap_obj h a)
      | _ \<Rightarrow> None)"

definition is_json_array :: "js_heap \<Rightarrow> js_value option \<Rightarrow> bool" where
  "is_json_array h v \<longleftrightarrow> heap_array h v = Some True"

definition is_json_object :: "js_heap \<Rightarrow> js_value option \<Rightarrow> bool" where
  "is_json_object h v \<longleftrightarrow> heap_array h v = Some False"

definition wire_both :: "js_heap \<Rightarrow> js_value option \<Rightarrow> js_value option \<Rightarrow>
    (opv option \<Rightarrow> opv option \<Rightarrow> canonical_op) \<Rightarrow> history_error + canonical_op" where
  "wire_both h prev next' f =
     rbind (wire_value h prev) (\<lambda>p. rbind (wire_value h next') (\<lambda>n. Inr (f p n)))"

definition canonical_data_op :: "js_heap \<Rightarrow> js_value data_op \<Rightarrow> history_error + canonical_op" where
  "canonical_data_op h op =
     (case op of
        DeleteOp path prev next' \<Rightarrow>
          rbind (must_history_path path) (\<lambda>p.
          rbind (rguard (next' = None) DeleteNextPresent) (\<lambda>u.
          rbind (wire_value h prev) (\<lambda>x. Inr (DataOperation (DeleteOp p x None)))))
      | SpliceOp path start removed inserted prev next' \<Rightarrow>
          rbind (must_history_path path) (\<lambda>p.
          rbind (rguard (num_arg_index start \<noteq> None) SpliceStartInvalid) (\<lambda>u.
          rbind (rguard (is_json_array h prev \<and> is_json_array h next') SpliceNotArrays) (\<lambda>w.
          rbind (must_json_array h removed) (\<lambda>rs.
          rbind (must_json_array h inserted) (\<lambda>is.
            wire_both h prev next' (\<lambda>x y. DataOperation (SpliceOp p start rs is x y)))))))
      | RenameOp path src dst prev next' \<Rightarrow>
          rbind (must_history_path path) (\<lambda>p.
          rbind (rguard (is_json_object h prev \<and> is_json_object h next') RenameNotObjects) (\<lambda>u.
            wire_both h prev next' (\<lambda>x y. DataOperation (RenameOp p src dst x y))))
      | MoveOp path src dst prev next' \<Rightarrow>
          rbind (must_history_path path) (\<lambda>p.
          rbind (rguard (is_safe_integer src \<and> num_arg_index src \<noteq> None \<and>
                   is_safe_integer dst \<and> num_arg_index dst \<noteq> None) MoveIndexInvalid) (\<lambda>u.
          rbind (rguard (is_json_array h prev \<and> is_json_array h next') MoveNotArrays) (\<lambda>w.
            wire_both h prev next' (\<lambda>x y. DataOperation (MoveOp p src dst x y)))))
      | SetOp path prev next' \<Rightarrow>
          rbind (must_history_path path) (\<lambda>p.
          rbind (rguard (next' \<noteq> None) NextAbsent) (\<lambda>u.
            wire_both h prev next' (\<lambda>x y. DataOperation (SetOp p x y))))
      | ReplaceOp path prev next' \<Rightarrow>
          rbind (must_history_path path) (\<lambda>p.
          rbind (rguard (next' \<noteq> None) NextAbsent) (\<lambda>u.
            wire_both h prev next' (\<lambda>x y. DataOperation (ReplaceOp p x y)))))"

text \<open>\<open>encode_locus_graph_content\<close>: only canonical content is written.\<close>

definition validate_content :: "hson_item \<Rightarrow> history_error + unit" where
  "validate_content x =
     (case x of
        ItemNode n \<Rightarrow>
          if is_Node x
          then (case assert_invariants n of
              Inl e \<Rightarrow> Inl GraphContentInvalid
            | Inr u \<Rightarrow>
                (case tree_claims n of
                   Inl e \<Rightarrow> Inl GraphContentInvalid
                 | Inr qs \<Rightarrow> rguard (distinct qs) GraphContentInvalid))
          else Inl GraphContentInvalid
      | ItemPrim p \<Rightarrow> rguard (prim_finite p) GraphContentInvalid)"

definition encode_locus_graph_content :: "(hson_item \<Rightarrow> js_string option) \<Rightarrow> hson_item \<Rightarrow> history_error + js_string" where
  "encode_locus_graph_content encode x =
     rbind (validate_content x) (\<lambda>u.
       case encode x of None \<Rightarrow> Inl GraphPayloadInvalid | Some t \<Rightarrow> Inr t)"

definition canonical_target :: "num_arg list doc_target \<Rightarrow> (document_path doc_target \<Rightarrow> history_error + 'a) \<Rightarrow> history_error + 'a" where
  "canonical_target t f =
     (case validate_document_path (target_path t) of
        Inl e \<Rightarrow> Inl (DocumentPathInvalid e)
      | Inr p \<Rightarrow> f (DocTarget p (target_witness t)))"

definition canonical_graph_op ::
    "(hson_item \<Rightarrow> js_string option) \<Rightarrow> (num_arg list, hson_item) graph_op \<Rightarrow> history_error + canonical_op" where
  "canonical_graph_op encode op =
     (let content = encode_locus_graph_content encode in
      case op of
        ReplaceRoot mode root \<Rightarrow> rbind (content root) (\<lambda>t. Inr (GraphOperation (ReplaceRoot mode t)))
      | SetAttr t name v \<Rightarrow> canonical_target t (\<lambda>t'. Inr (GraphOperation (SetAttr t' name v)))
      | RemoveAttr t name \<Rightarrow> canonical_target t (\<lambda>t'. Inr (GraphOperation (RemoveAttr t' name)))
      | ReplaceAttrs t attrs \<Rightarrow> canonical_target t (\<lambda>t'. Inr (GraphOperation (ReplaceAttrs t' attrs)))
      | EnsureQuid t q \<Rightarrow> canonical_target t (\<lambda>t'. Inr (GraphOperation (EnsureQuid t' q)))
      | ReplaceContent t i x \<Rightarrow>
          canonical_target t (\<lambda>t'. rbind (content x) (\<lambda>s. Inr (GraphOperation (ReplaceContent t' i s))))
      | InsertContent t i x \<Rightarrow>
          canonical_target t (\<lambda>t'. rbind (content x) (\<lambda>s. Inr (GraphOperation (InsertContent t' i s))))
      | RemoveContent t i \<Rightarrow> canonical_target t (\<lambda>t'. Inr (GraphOperation (RemoveContent t' i)))
      | MoveContent t i j \<Rightarrow> canonical_target t (\<lambda>t'. Inr (GraphOperation (MoveContent t' i j))))"

definition canonical_any_op ::
    "(hson_item \<Rightarrow> js_string option) \<Rightarrow> js_heap \<Rightarrow> live_op \<Rightarrow> history_error + canonical_op" where
  "canonical_any_op encode h op =
     (case op of
        DataOperation d \<Rightarrow> canonical_data_op h d
      | GraphOperation g \<Rightarrow> canonical_graph_op encode g
      | ProjectedEnsureQuid path q \<Rightarrow>
          rbind (must_history_path path) (\<lambda>p. Inr (ProjectedEnsureQuid p q)))"

section \<open>Canonical commits\<close>

definition has_domain :: "('v, 'p, 'c) any_op \<Rightarrow> bool" where
  "has_domain op \<longleftrightarrow> (case op of DataOperation d \<Rightarrow> False | _ \<Rightarrow> True)"

definition is_projected_ensure :: "('v, 'p, 'c) any_op \<Rightarrow> bool" where
  "is_projected_ensure op \<longleftrightarrow> (case op of ProjectedEnsureQuid p q \<Rightarrow> True | _ \<Rightarrow> False)"

definition replaces_root_as :: "root_mode \<Rightarrow> ('v, 'p, 'c) any_op \<Rightarrow> bool" where
  "replaces_root_as mode op \<longleftrightarrow> (case op of GraphOperation (ReplaceRoot m r) \<Rightarrow> m = mode | _ \<Rightarrow> True)"

definition make_locus_canonical_commit ::
    "(hson_item \<Rightarrow> js_string option) \<Rightarrow> js_heap \<Rightarrow> root_mode \<Rightarrow> live_commit \<Rightarrow> js_string \<Rightarrow> js_string \<Rightarrow> nat \<Rightarrow>
     history_error + canonical_commit" where
  "make_locus_canonical_commit encode h mode c mapId incarnation expected =
     (let documentMode = is_document_mode mode;
          identityOnly = (\<not> documentMode \<and> list_all is_projected_ensure (c_ops c))
      in rbind (rguard (c_changed c) UnchangedCommit) (\<lambda>u.
         case num_arg_index (c_prev_rev c) of
           None \<Rightarrow> Inl PrevRevInvalid
         | Some prev \<Rightarrow>
             rbind (rguard (c_rev c = IntArg (int prev + 1)) RevTransitionInvalid) (\<lambda>u1.
             rbind (rguard (prev = expected) (NotContiguous expected)) (\<lambda>u2.
             rbind (rguard (c_ops c \<noteq> []) NoOperations) (\<lambda>u3.
             rbind (rguard (list_all (\<lambda>op. has_domain op = documentMode \<or> identityOnly) (c_ops c))
                      (DomainIncompatible mode)) (\<lambda>u4.
             rbind (rguard (\<not> documentMode \<or> list_all (replaces_root_as mode) (c_ops c))
                      (RootReplacementIncompatible mode)) (\<lambda>u5.
             rbind (rguard (documentMode \<or> identityOnly \<or> c_structural c \<and> c_payload c \<noteq> None)
                      StructuralTransportRequired) (\<lambda>u6.
             rbind (traverse (canonical_any_op encode h) (c_ops c)) (\<lambda>ops.
               Inr \<lparr> k_map = mapId, k_incarnation = incarnation, k_mode = mode, k_prev = prev, k_rev = prev + 1,
                     k_ops = ops, k_payload = (if documentMode \<or> identityOnly then None else c_payload c) \<rparr>)))))))))"

section \<open>The stream\<close>

text \<open>
  A publication is the commit being published, the listener that is running and the listeners of the
  snapshot still to call; the listeners of recovery attempts are told apart from all others.
  \<open>ls_bytes\<close> is an integer because the code only ever subtracts from it.
\<close>

datatype listener = OutsideListener nat | RecoveryListener nat

record publication =
  pub_commit :: canonical_commit
  pub_running :: "listener option"
  pub_waiting :: "listener list"

record locus_stream =
  ls_map :: js_string
  ls_incarnation :: js_string
  ls_mode :: root_mode
  ls_max_commits :: nat
  ls_max_bytes :: nat
  ls_retained :: "(canonical_commit \<times> nat) list"
  ls_bytes :: int
  ls_head :: nat
  ls_queue :: "canonical_commit list"
  ls_publishing :: "publication option"
  ls_listeners :: "listener list"
  ls_published :: nat
  ls_errors :: nat

text \<open>\<open>Math.trunc\<close> of a finite number that is not negative.\<close>

definition num_trunc :: "js_number \<Rightarrow> nat" where
  "num_trunc x =
     (let e = unat (num_exponent x);
          f = unat (x AND 0xFFFFFFFFFFFFF);
          m = (if e = 0 then f else f + 2 ^ 52);
          d = (if e = 0 then 1 else e)
      in if 1075 \<le> d then m * 2 ^ (d - 1075) else m div 2 ^ (1075 - d))"

definition must_bound :: "js_number option \<Rightarrow> nat \<Rightarrow> history_error + nat" where
  "must_bound v fallback =
     (case v of
        None \<Rightarrow> Inr fallback
      | Some x \<Rightarrow>
          if num_finite x \<and> (drop_bit 63 x = 0 \<or> x = num_neg_zero) then Inr (num_trunc x)
          else Inl InvalidBound)"

definition must_identity :: "js_string \<Rightarrow> history_error + js_string" where
  "must_identity s = (if s \<noteq> [] then Inr s else Inl EmptyIdentity)"

definition DEFAULT_MAX_COMMITS :: nat where "DEFAULT_MAX_COMMITS = 1024"
definition DEFAULT_MAX_BYTES :: nat where "DEFAULT_MAX_BYTES = 4 * 1024 * 1024"

text \<open>The loop of \<open>trim_history\<close>; \<open>None\<close> where it would not end.\<close>

definition over_bounds :: "nat \<Rightarrow> nat \<Rightarrow> (canonical_commit \<times> nat) list \<times> int \<Rightarrow> bool" where
  "over_bounds commitBound byteBound s \<longleftrightarrow> commitBound < length (fst s) \<or> int byteBound < snd s"

definition drop_oldest :: "(canonical_commit \<times> nat) list \<times> int \<Rightarrow> (canonical_commit \<times> nat) list \<times> int" where
  "drop_oldest s = (case s of ([], n) \<Rightarrow> ([], n) | (e # es, n) \<Rightarrow> (es, n - int (snd e)))"

definition trim_history :: "locus_stream \<Rightarrow> locus_stream option" where
  "trim_history s =
     map_option (\<lambda>(es, n). s\<lparr> ls_retained := es, ls_bytes := n \<rparr>)
       (while_option (over_bounds (ls_max_commits s) (ls_max_bytes s)) drop_oldest (ls_retained s, ls_bytes s))"

definition append_history :: "(canonical_commit \<Rightarrow> nat) \<Rightarrow> canonical_commit \<Rightarrow> locus_stream \<Rightarrow> locus_stream option" where
  "append_history sizeOf c s =
     trim_history (s\<lparr> ls_retained := ls_retained s @ [(c, sizeOf c)], ls_bytes := ls_bytes s + int (sizeOf c) \<rparr>)"

text \<open>Commits restored from persistence are appended before anything is published.\<close>

fun load_history :: "(canonical_commit \<Rightarrow> nat) \<Rightarrow> canonical_commit list \<Rightarrow> locus_stream \<Rightarrow> (history_error + locus_stream) option" where
  "load_history sizeOf [] s = Some (Inr s)"
| "load_history sizeOf (c # cs) s =
     (if k_map c \<noteq> ls_map s \<or> k_incarnation c \<noteq> ls_incarnation s \<or> k_mode c \<noteq> ls_mode s \<or>
         k_prev c \<noteq> ls_head s \<or> k_rev c \<noteq> ls_head s + 1
      then Some (Inl InitialNotContiguous)
      else (case append_history sizeOf c s of
          None \<Rightarrow> None
        | Some s' \<Rightarrow> load_history sizeOf cs (s'\<lparr> ls_head := k_rev c \<rparr>)))"

record initial_history =
  ih_base :: num_arg
  ih_commits :: "canonical_commit list"

definition empty_stream :: "js_string \<Rightarrow> js_string \<Rightarrow> root_mode \<Rightarrow> nat \<Rightarrow> nat \<Rightarrow> nat \<Rightarrow> locus_stream" where
  "empty_stream mapId incarnation mode commitBound byteBound head =
     \<lparr> ls_map = mapId, ls_incarnation = incarnation, ls_mode = mode, ls_max_commits = commitBound,
       ls_max_bytes = byteBound, ls_retained = [], ls_bytes = 0, ls_head = head, ls_queue = [],
       ls_publishing = None, ls_listeners = [], ls_published = 0, ls_errors = 0 \<rparr>"

definition make_locus_canonical_stream ::
    "(canonical_commit \<Rightarrow> nat) \<Rightarrow> root_mode \<Rightarrow> nat \<Rightarrow> js_string \<Rightarrow> js_string \<Rightarrow> js_number option \<Rightarrow> js_number option \<Rightarrow>
     initial_history option \<Rightarrow> (history_error + locus_stream) option" where
  "make_locus_canonical_stream sizeOf mode mapRev logicalMapId incarnationId commitBound byteBound initial =
     (case rbind (must_identity logicalMapId) (\<lambda>m.
           rbind (must_identity incarnationId) (\<lambda>i.
           rbind (must_bound commitBound DEFAULT_MAX_COMMITS) (\<lambda>mc.
           rbind (must_bound byteBound DEFAULT_MAX_BYTES) (\<lambda>mb. Inr (empty_stream m i mode mc mb mapRev))))) of
        Inl e \<Rightarrow> Some (Inl e)
      | Inr s \<Rightarrow>
          (case initial of
             None \<Rightarrow> Some (Inr s)
           | Some ih \<Rightarrow>
               (case num_arg_index (ih_base ih) of
                  None \<Rightarrow> Some (Inl InitialBaseInvalid)
                | Some base \<Rightarrow>
                    (case load_history sizeOf (ih_commits ih) (s\<lparr> ls_head := base \<rparr>) of
                       None \<Rightarrow> None
                     | Some (Inl e) \<Rightarrow> Some (Inl e)
                     | Some (Inr s') \<Rightarrow>
                         Some (if mapRev \<noteq> ls_head s' then Inl InitialHeadMismatch else Inr s')))))"

section \<open>Publication\<close>

text \<open>
  \<open>drain_publication_queue\<close> runs listeners, which may mutate the map again and subscribe or
  unsubscribe; its loop is therefore a sequence of steps between which other steps fall:
  \<open>publish_next\<close> takes the next entry with a snapshot of the listeners, \<open>call_listener\<close> starts
  one, \<open>return_listener\<close> ends it and \<open>finish_publication\<close> ends the entry. A drain that is called
  while one runs returns at once.
\<close>

definition publish_next :: "locus_stream \<Rightarrow> locus_stream" where
  "publish_next s =
     (case ls_queue s of
        [] \<Rightarrow> s\<lparr> ls_publishing := None \<rparr>
      | c # cs \<Rightarrow>
          s\<lparr> ls_queue := cs,
            ls_publishing := Some \<lparr> pub_commit = c, pub_running = None, pub_waiting = ls_listeners s \<rparr> \<rparr>)"

definition drain_publication_queue :: "locus_stream \<Rightarrow> locus_stream" where
  "drain_publication_queue s = (if ls_publishing s \<noteq> None then s else publish_next s)"

definition call_listener :: "locus_stream \<Rightarrow> (listener \<times> canonical_commit \<times> locus_stream) option" where
  "call_listener s =
     (case ls_publishing s of
        Some p \<Rightarrow>
          (case (pub_running p, pub_waiting p) of
             (None, l # ls) \<Rightarrow>
               Some (l, pub_commit p, s\<lparr> ls_publishing := Some (p\<lparr> pub_running := Some l, pub_waiting := ls \<rparr>) \<rparr>)
           | _ \<Rightarrow> None)
      | None \<Rightarrow> None)"

definition return_listener :: "bool \<Rightarrow> locus_stream \<Rightarrow> locus_stream option" where
  "return_listener threw s =
     (case ls_publishing s of
        Some p \<Rightarrow>
          (case pub_running p of
             Some l \<Rightarrow>
               Some (s\<lparr> ls_publishing := Some (p\<lparr> pub_running := None \<rparr>),
                 ls_errors := ls_errors s + (if threw then 1 else 0) \<rparr>)
           | None \<Rightarrow> None)
      | None \<Rightarrow> None)"

definition finish_publication :: "locus_stream \<Rightarrow> locus_stream option" where
  "finish_publication s =
     (case ls_publishing s of
        Some p \<Rightarrow>
          if pub_running p = None \<and> pub_waiting p = []
          then Some (publish_next (s\<lparr> ls_published := ls_published s + 1 \<rparr>)) else None
      | None \<Rightarrow> None)"

definition on_commit :: "listener \<Rightarrow> locus_stream \<Rightarrow> locus_stream" where
  "on_commit l s = s\<lparr> ls_listeners := (if l \<in> set (ls_listeners s) then ls_listeners s else ls_listeners s @ [l]) \<rparr>"

definition off_commit :: "listener \<Rightarrow> locus_stream \<Rightarrow> locus_stream" where
  "off_commit l s = s\<lparr> ls_listeners := filter (\<lambda>x. x \<noteq> l) (ls_listeners s) \<rparr>"

definition accept_canonical :: "(canonical_commit \<Rightarrow> nat) \<Rightarrow> canonical_commit \<Rightarrow> locus_stream \<Rightarrow> locus_stream option" where
  "accept_canonical sizeOf c s =
     map_option (\<lambda>s'. drain_publication_queue (s'\<lparr> ls_head := k_rev c, ls_queue := ls_queue s' @ [c] \<rparr>))
       (append_history sizeOf c s)"

definition ingest ::
    "(hson_item \<Rightarrow> js_string option) \<Rightarrow> (canonical_commit \<Rightarrow> nat) \<Rightarrow> js_heap \<Rightarrow> live_commit \<Rightarrow> commit_origin \<Rightarrow> locus_stream \<Rightarrow>
     (history_error + locus_stream) option" where
  "ingest encode sizeOf h commit origin s =
     (if origin \<noteq> Authoritative then Some (Inr s)
      else (case make_locus_canonical_commit encode h (ls_mode s) commit (ls_map s) (ls_incarnation s) (ls_head s) of
          Inl e \<Rightarrow> Some (Inl e)
        | Inr c \<Rightarrow> map_option Inr (accept_canonical sizeOf c s)))"

section \<open>Replay\<close>

fun replay_scan :: "nat \<Rightarrow> nat \<Rightarrow> nat \<Rightarrow> canonical_commit list \<Rightarrow> (canonical_commit \<times> nat) list \<Rightarrow> canonical_commit list option" where
  "replay_scan src through cursor acc [] = (if cursor = through then Some acc else None)"
| "replay_scan src through cursor acc (e # es) =
     (let c = fst e in
      if k_rev c \<le> src then replay_scan src through cursor acc es
      else if through < k_rev c then (if cursor = through then Some acc else None)
      else if k_prev c \<noteq> cursor then None
      else replay_scan src through (k_rev c) (acc @ [c]) es)"

definition replay_after :: "num_arg \<Rightarrow> num_arg option \<Rightarrow> locus_stream \<Rightarrow> canonical_commit list option" where
  "replay_after fromRev throughRev s =
     (case num_arg_index fromRev of
        None \<Rightarrow> None
      | Some src \<Rightarrow>
          (case num_arg_index (case throughRev of None \<Rightarrow> IntArg (int (ls_head s)) | Some t \<Rightarrow> t) of
             None \<Rightarrow> None
           | Some through \<Rightarrow>
               if ls_head s < through then None
               else if src = through then Some []
               else if through < src then None
               else replay_scan src through src [] (ls_retained s)))"

definition can_replay :: "num_arg \<Rightarrow> num_arg option \<Rightarrow> locus_stream \<Rightarrow> bool" where
  "can_replay fromRev throughRev s \<longleftrightarrow> replay_after fromRev throughRev s \<noteq> None"

definition earliest_resumable_base_rev :: "locus_stream \<Rightarrow> nat" where
  "earliest_resumable_base_rev s =
     (case ls_retained s of [] \<Rightarrow> ls_head s | e # es \<Rightarrow> k_prev (fst e))"

end
