(* ===== verification/History_Laws.thy ===== *)
theory History_Laws
  imports Locus_History "HOL-Library.Sublist"
begin

text \<open>
  The canonical stream of a locus. The trimming loop ends at the longest history within the bounds;
  replay returns exactly what lies between two revisions; the contract \<open>commit_feed\<close> says in which
  order a listener is called, and the stream keeps it whatever its listeners do.
\<close>

section \<open>Contiguous commits\<close>

fun chain :: "nat \<Rightarrow> canonical_commit list \<Rightarrow> nat \<Rightarrow> bool" where
  "chain b [] e \<longleftrightarrow> b = e"
| "chain b (c # cs) e \<longleftrightarrow> k_prev c = b \<and> k_rev c = Suc b \<and> chain (Suc b) cs e"

lemma chain_end: "chain b cs e \<Longrightarrow> e = b + length cs"
  by (induction cs arbitrary: b) force+

lemma chain_append: "chain b (xs @ ys) e \<longleftrightarrow> chain b xs (b + length xs) \<and> chain (b + length xs) ys e"
  by (induction xs arbitrary: b) auto

lemma chain_nth: "chain b cs e \<Longrightarrow> i < length cs \<Longrightarrow> k_prev (cs ! i) = b + i \<and> k_rev (cs ! i) = Suc (b + i)"
  by (induction cs arbitrary: b i) (auto simp: nth_Cons split: nat.splits)

lemma chain_snoc: "chain b cs e \<Longrightarrow> k_prev c = e \<Longrightarrow> k_rev c = Suc e \<Longrightarrow> chain b (cs @ [c]) (Suc e)"
  using chain_end [of b cs e] by (auto simp: chain_append)

lemma chain_drop: "chain b cs e \<Longrightarrow> k \<le> length cs \<Longrightarrow> chain (b + k) (drop k cs) e"
  using chain_append [of b "take k cs" "drop k cs" e] by (auto simp: min_def split: if_splits)

lemma chain_revs: "chain b cs e \<Longrightarrow> c \<in> set cs \<Longrightarrow> b < k_rev c \<and> k_rev c \<le> e"
  using chain_end by (induction cs arbitrary: b) fastforce+

text \<open>The part of a chain between two revisions is the chain between them.\<close>

lemma chain_filter:
  "chain b cs e \<Longrightarrow> b \<le> f \<Longrightarrow> f \<le> t \<Longrightarrow> t \<le> e \<Longrightarrow>
     chain f (filter (\<lambda>c. f < k_rev c \<and> k_rev c \<le> t) cs) t"
proof (induction cs arbitrary: b f)
  case (Cons c cs)
  show ?case
  proof (cases "b = f")
    case True
    show ?thesis
    proof (cases "f = t")
      case True
      with \<open>b = f\<close> Cons.prems have "\<forall>x \<in> set (c # cs). t < k_rev x" using chain_revs [OF Cons.prems(1)] by auto
      with True show ?thesis by (auto simp: filter_empty_conv)
    next
      case False
      with True Cons.prems have "chain (Suc b) (filter (\<lambda>c. Suc b < k_rev c \<and> k_rev c \<le> t) cs) t"
        by (intro Cons.IH) auto
      moreover have "filter (\<lambda>c. Suc b < k_rev c \<and> k_rev c \<le> t) cs = filter (\<lambda>c. f < k_rev c \<and> k_rev c \<le> t) cs"
        using True Cons.prems chain_revs [of "Suc b" cs e] by (intro filter_cong) (auto dest: Suc_lessD)
      ultimately show ?thesis using True False Cons.prems by auto
    qed
  next
    case False
    with Cons.prems show ?thesis by (auto intro!: Cons.IH)
  qed
qed auto

section \<open>The retained history\<close>

definition bytes_of :: "(canonical_commit \<times> nat) list \<Rightarrow> nat" where
  "bytes_of es = sum_list (map snd es)"

lemma bytes_of_simps [simp]:
  "bytes_of [] = 0" "bytes_of (e # es) = snd e + bytes_of es" "bytes_of (es @ fs) = bytes_of es + bytes_of fs"
  by (simp_all add: bytes_of_def)

definition within :: "nat \<Rightarrow> nat \<Rightarrow> (canonical_commit \<times> nat) list \<Rightarrow> bool" where
  "within commitBound byteBound es \<longleftrightarrow> length es \<le> commitBound \<and> bytes_of es \<le> byteBound"

definition history_ok :: "(canonical_commit \<Rightarrow> nat) \<Rightarrow> locus_stream \<Rightarrow> bool" where
  "history_ok sizeOf s \<longleftrightarrow>
     chain (earliest_resumable_base_rev s) (map fst (ls_retained s)) (ls_head s) \<and>
     ls_bytes s = int (bytes_of (ls_retained s)) \<and>
     map snd (ls_retained s) = map (sizeOf \<circ> fst) (ls_retained s) \<and>
     within (ls_max_commits s) (ls_max_bytes s) (ls_retained s)"

text \<open>The loop stops at the first suffix within the bounds.\<close>

lemma trim_loop:
  "\<exists>k \<le> length es.
     while_option (over_bounds mc mb) drop_oldest (es, int (bytes_of es)) = Some (drop k es, int (bytes_of (drop k es))) \<and>
     within mc mb (drop k es) \<and> (\<forall>j < k. \<not> within mc mb (drop j es))"
proof (induction es)
  case Nil
  have "while_option (over_bounds mc mb) drop_oldest ([], 0) = Some ([], 0)"
    by (subst while_option_unfold) (simp add: over_bounds_def)
  then show ?case by (auto simp: within_def)
next
  case (Cons e es)
  let ?s = "(e # es, int (bytes_of (e # es)))"
  have over: "over_bounds mc mb ?s \<longleftrightarrow> \<not> within mc mb (e # es)"
    by (auto simp: over_bounds_def within_def)
  show ?case
  proof (cases "within mc mb (e # es)")
    case True
    with over have "while_option (over_bounds mc mb) drop_oldest ?s = Some ?s"
      by (subst while_option_unfold) simp
    with True show ?thesis by (intro exI [of _ 0]) auto
  next
    case False
    with over have "while_option (over_bounds mc mb) drop_oldest ?s =
        while_option (over_bounds mc mb) drop_oldest (es, int (bytes_of es))"
      by (subst while_option_unfold) (simp add: drop_oldest_def)
    moreover from Cons.IH obtain k where k: "k \<le> length es"
      "while_option (over_bounds mc mb) drop_oldest (es, int (bytes_of es)) = Some (drop k es, int (bytes_of (drop k es)))"
      "within mc mb (drop k es)" "\<forall>j < k. \<not> within mc mb (drop j es)" by blast
    moreover have "\<not> within mc mb (drop j (e # es))" if "j < Suc k" for j
      using that k(4) False by (cases j) auto
    ultimately show ?thesis by (intro exI [of _ "Suc k"]) simp
  qed
qed

lemma append_history_returns:
  fixes c :: canonical_commit
  assumes "history_ok sizeOf s"
  defines "es \<equiv> ls_retained s @ [(c, sizeOf c)]"
  shows "\<exists>k \<le> length es. append_history sizeOf c s = Some (s\<lparr> ls_retained := drop k es, ls_bytes := int (bytes_of (drop k es)) \<rparr>) \<and>
     within (ls_max_commits s) (ls_max_bytes s) (drop k es) \<and>
     (\<forall>j < k. \<not> within (ls_max_commits s) (ls_max_bytes s) (drop j es))"
proof -
  from assms(1) have b: "ls_bytes s + int (sizeOf c) = int (bytes_of es)" by (simp add: history_ok_def es_def)
  from trim_loop [of es "ls_max_commits s" "ls_max_bytes s"] obtain k where
    "k \<le> length es"
    "while_option (over_bounds (ls_max_commits s) (ls_max_bytes s)) drop_oldest (es, int (bytes_of es)) =
       Some (drop k es, int (bytes_of (drop k es)))"
    "within (ls_max_commits s) (ls_max_bytes s) (drop k es)"
    "\<forall>j < k. \<not> within (ls_max_commits s) (ls_max_bytes s) (drop j es)" by blast
  then show ?thesis
    by (intro exI [of _ k]) (simp add: append_history_def trim_history_def b flip: es_def)
qed

lemma history_ok_append:
  assumes ok: "history_ok sizeOf s" and c: "k_prev c = ls_head s" "k_rev c = Suc (ls_head s)"
    and a: "append_history sizeOf c s = Some s'"
  shows "history_ok sizeOf (s'\<lparr> ls_head := k_rev c \<rparr>)"
    and "ls_head s' = ls_head s" "ls_queue s' = ls_queue s" "ls_publishing s' = ls_publishing s" "ls_listeners s' = ls_listeners s"
      "ls_map s' = ls_map s" "ls_incarnation s' = ls_incarnation s" "ls_mode s' = ls_mode s"
      "ls_max_commits s' = ls_max_commits s" "ls_max_bytes s' = ls_max_bytes s"
      "ls_published s' = ls_published s" "ls_errors s' = ls_errors s"
proof -
  define es where "es = ls_retained s @ [(c, sizeOf c)]"
  from append_history_returns [OF ok, of c] a obtain k where k: "k \<le> length es"
    and s': "s' = s\<lparr> ls_retained := drop k es, ls_bytes := int (bytes_of (drop k es)) \<rparr>"
    and w: "within (ls_max_commits s) (ls_max_bytes s) (drop k es)" by (auto simp: es_def)
  have ch: "chain (earliest_resumable_base_rev s) (map fst es) (Suc (ls_head s))"
    using ok c by (auto simp: history_ok_def es_def intro: chain_snoc)
  have "chain (earliest_resumable_base_rev (s'\<lparr> ls_head := k_rev c \<rparr>)) (map fst (drop k es)) (Suc (ls_head s))"
  proof (cases "drop k es")
    case Nil
    with c show ?thesis by (simp add: earliest_resumable_base_rev_def s')
  next
    case (Cons e fs)
    have "chain (earliest_resumable_base_rev s + k) (drop k (map fst es)) (Suc (ls_head s))"
      using chain_drop [OF ch, of k] k by simp
    with Cons show ?thesis by (auto simp: earliest_resumable_base_rev_def s' drop_map)
  qed
  moreover have "map snd (drop k es) = map (sizeOf \<circ> fst) (drop k es)"
    using ok by (auto simp: history_ok_def es_def dest: in_set_dropD)
  ultimately show "history_ok sizeOf (s'\<lparr> ls_head := k_rev c \<rparr>)"
    using c w by (simp add: history_ok_def s')
  show "ls_head s' = ls_head s" "ls_queue s' = ls_queue s" "ls_publishing s' = ls_publishing s" "ls_listeners s' = ls_listeners s"
      "ls_map s' = ls_map s" "ls_incarnation s' = ls_incarnation s" "ls_mode s' = ls_mode s"
      "ls_max_commits s' = ls_max_commits s" "ls_max_bytes s' = ls_max_bytes s"
      "ls_published s' = ls_published s" "ls_errors s' = ls_errors s"
    by (simp_all add: s')
qed

section \<open>Replay\<close>

lemma replay_scan_above:
  "chain b (map fst es) e \<Longrightarrow> src \<le> b \<Longrightarrow> b \<le> through \<Longrightarrow> through \<le> e \<Longrightarrow>
     replay_scan src through b acc es = Some (acc @ filter (\<lambda>c. src < k_rev c \<and> k_rev c \<le> through) (map fst es))"
proof (induction es arbitrary: b acc)
  case (Cons x es)
  show ?case
  proof (cases "b = through")
    case True
    with Cons.prems have "\<forall>c \<in> set (map fst (x # es)). through < k_rev c"
      using chain_revs [OF Cons.prems(1)] by blast
    then have "filter (\<lambda>c. src < k_rev c \<and> k_rev c \<le> through) (map fst (x # es)) = []"
      by (auto simp: filter_empty_conv)
    with True Cons.prems show ?thesis by auto
  next
    case False
    with Cons.prems Cons.IH [of "Suc b" "acc @ [fst x]"] show ?thesis by auto
  qed
qed auto

lemma replay_scan_from:
  "chain b (map fst es) e \<Longrightarrow> b \<le> src \<Longrightarrow> src \<le> through \<Longrightarrow> through \<le> e \<Longrightarrow>
     replay_scan src through src acc es = Some (acc @ filter (\<lambda>c. src < k_rev c \<and> k_rev c \<le> through) (map fst es))"
proof (induction es arbitrary: b)
  case (Cons x es)
  show ?case
  proof (cases "b = src")
    case True
    with replay_scan_above [OF Cons.prems(1), of src through acc] Cons.prems show ?thesis by simp
  next
    case False
    with Cons.prems Cons.IH [of "Suc b"] show ?thesis by auto
  qed
qed auto

lemma replay_scan_early:
  "chain b (map fst es) e \<Longrightarrow> src < b \<Longrightarrow> src < through \<Longrightarrow> replay_scan src through src acc es = None"
  by (cases es) auto

lemma replay_after_eq:
  assumes "history_ok sizeOf s"
  shows "replay_after (IntArg (int f)) (Some (IntArg (int t))) s =
     (if f \<le> t \<and> t \<le> ls_head s \<and> (f = t \<or> earliest_resumable_base_rev s \<le> f)
      then Some (filter (\<lambda>c. f < k_rev c \<and> k_rev c \<le> t) (map fst (ls_retained s))) else None)"
proof -
  note ch = assms [unfolded history_ok_def, THEN conjunct1]
  have "filter (\<lambda>c. t < k_rev c \<and> k_rev c \<le> t) cs = []" for cs by (auto simp: filter_empty_conv)
  moreover have "f < earliest_resumable_base_rev s \<or> earliest_resumable_base_rev s \<le> f" by linarith
  ultimately show ?thesis
    using replay_scan_from [OF ch, of f t "[]"] replay_scan_early [OF ch, of f t "[]"]
    by (auto simp: replay_after_def num_arg_index_def)
qed

section \<open>Runs of the stream\<close>

text \<open>
  What can be seen of one step of a stream: a commit it accepted, a listener it called, a
  listener that joined or left, or nothing.
\<close>

datatype feed_event =
    Accepted canonical_commit
  | Called listener canonical_commit
  | Joined listener
  | Departed listener
  | Unseen

inductive trace_of :: "('s \<Rightarrow> 'e \<Rightarrow> 's \<Rightarrow> bool) \<Rightarrow> 's \<Rightarrow> 'e list \<Rightarrow> 's \<Rightarrow> bool" for step where
  trace_done: "trace_of step s [] s"
| trace_step: "step s e s1 \<Longrightarrow> trace_of step s1 es s' \<Longrightarrow> trace_of step s (e # es) s'"

inductive_simps trace_of_Nil [simp]: "trace_of step s [] s'"
inductive_simps trace_of_Cons: "trace_of step s (e # es) s'"

lemma trace_of_append: "trace_of step s (es @ fs) s' \<longleftrightarrow> (\<exists>s1. trace_of step s es s1 \<and> trace_of step s1 fs s')"
  by (induction es arbitrary: s) (auto simp: trace_of_Cons)

definition calls :: "listener \<Rightarrow> feed_event list \<Rightarrow> canonical_commit list" where
  "calls l es = concat (map (\<lambda>e. case e of Called m c \<Rightarrow> if m = l then [c] else [] | _ \<Rightarrow> []) es)"

definition accepted :: "feed_event list \<Rightarrow> canonical_commit list" where
  "accepted es = concat (map (\<lambda>e. case e of Accepted c \<Rightarrow> [c] | _ \<Rightarrow> []) es)"

lemma calls_simps [simp]:
  "calls l [] = []" "calls l (Called m c # es) = (if m = l then [c] else []) @ calls l es"
  "calls l (Accepted c # es) = calls l es" "calls l (Joined m # es) = calls l es"
  "calls l (Departed m # es) = calls l es" "calls l (Unseen # es) = calls l es"
  "calls l (es @ fs) = calls l es @ calls l fs"
  by (simp_all add: calls_def)

lemma accepted_simps [simp]:
  "accepted [] = []" "accepted (Accepted c # es) = c # accepted es"
  "accepted (Called m c # es) = accepted es" "accepted (Joined m # es) = accepted es"
  "accepted (Departed m # es) = accepted es" "accepted (Unseen # es) = accepted es"
  by (simp_all add: accepted_def)

lemma accepted_append [simp]: "accepted (es @ fs) = accepted es @ accepted fs"
  by (simp add: accepted_def)

lemma chain_suffix: "chain b log e \<Longrightarrow> suffix cs log \<Longrightarrow> \<exists>m \<ge> b. chain m cs e"
  by (auto simp: suffix_def chain_append intro: le_add1)

lemma suffix_tail: "suffix (x # xs) ys \<Longrightarrow> suffix xs ys"
  by (auto simp: suffix_def)

lemma suffix_snoc: "suffix xs ys \<Longrightarrow> suffix (xs @ [c]) (ys @ [c])"
  by (auto simp: suffix_def)

section \<open>The contract of a feed\<close>

text \<open>
  What a reader of commits relies on. \<open>sound log s\<close> says that \<open>log\<close> lists what was accepted; \<open>due l s\<close>
  lists the commits that listener \<open>l\<close> will still be called with. Every call takes the first of
  them, every accepted commit comes last.
\<close>

locale commit_feed =
  fixes step :: "'s \<Rightarrow> feed_event \<Rightarrow> 's \<Rightarrow> bool" and sound :: "canonical_commit list \<Rightarrow> 's \<Rightarrow> bool"
    and head_rev :: "'s \<Rightarrow> nat" and listens :: "listener \<Rightarrow> 's \<Rightarrow> bool"
    and due :: "listener \<Rightarrow> 's \<Rightarrow> canonical_commit list"
  assumes sound_step: "sound log s \<Longrightarrow> step s e s' \<Longrightarrow> sound (log @ accepted [e]) s'"
    and sound_chain: "sound log s \<Longrightarrow> \<exists>b. chain b log (head_rev s)"
    and accepted_law: "sound log s \<Longrightarrow> step s (Accepted c) s' \<Longrightarrow>
      listens l s' = listens l s \<and> (listens l s \<longrightarrow> due l s' = due l s @ [c])"
    and called_law: "sound log s \<Longrightarrow> step s (Called m c) s' \<Longrightarrow>
      listens l s' = listens l s \<and> due l s = (if m = l then [c] else []) @ due l s'"
    and joined_law: "sound log s \<Longrightarrow> step s (Joined m) s' \<Longrightarrow>
      listens l s' = (l = m \<or> listens l s) \<and> (l \<noteq> m \<or> listens l s \<longrightarrow> due l s' = due l s) \<and> suffix (due m s') log"
    and departed_law: "sound log s \<Longrightarrow> step s (Departed m) s' \<Longrightarrow>
      listens l s' = (l \<noteq> m \<and> listens l s) \<and> (l \<noteq> m \<longrightarrow> due l s' = due l s)"
    and unseen_law: "sound log s \<Longrightarrow> step s Unseen s' \<Longrightarrow> listens l s' = listens l s \<and> due l s' = due l s"
begin

lemma sound_trace: "trace_of step s es s' \<Longrightarrow> sound log s \<Longrightarrow> sound (log @ accepted es) s'"
proof (induction arbitrary: log rule: trace_of.induct)
  case (trace_step s e s1 es s')
  from trace_step.IH [OF sound_step [OF trace_step.prems trace_step.hyps(1)]] show ?case
    by (simp add: accepted_def)
qed simp

lemma feed_step:
  assumes "step s e s'" "sound log s" "listens l s" "suffix (read @ due l s) log" "e \<noteq> Departed l"
  shows "listens l s' \<and> suffix (read @ calls l [e] @ due l s') (log @ accepted [e])"
proof (cases e)
  case (Accepted c)
  with accepted_law [of log s c s' l] suffix_snoc [OF assms(4)] assms show ?thesis by simp
next
  case (Called m c)
  with called_law [of log s m c s' l] assms show ?thesis by auto
next
  case (Joined m)
  with joined_law [of log s m s' l] assms show ?thesis by auto
next
  case (Departed m)
  with departed_law [of log s m s' l] assms show ?thesis by auto
next
  case Unseen
  with unseen_law [of log s s' l] assms show ?thesis by auto
qed

text \<open>What a listener that stays has been called with and is still due is the end of the log.\<close>

lemma feed_in_order:
  "trace_of step s es s' \<Longrightarrow> sound log s \<Longrightarrow> listens l s \<Longrightarrow> suffix (read @ due l s) log \<Longrightarrow>
     Departed l \<notin> set es \<Longrightarrow> listens l s' \<and> suffix (read @ calls l es @ due l s') (log @ accepted es)"
proof (induction arbitrary: log read rule: trace_of.induct)
  case (trace_step s e s1 es s')
  have split: "calls l (e # es) = calls l [e] @ calls l es" "accepted (e # es) = accepted [e] @ accepted es"
    by (simp_all add: calls_def accepted_def)
  from feed_step [OF trace_step.hyps(1) trace_step.prems(1,2,3)] trace_step.prems(4)
  have s1: "listens l s1" "suffix ((read @ calls l [e]) @ due l s1) (log @ accepted [e])" by auto
  from trace_step.IH [OF sound_step [OF trace_step.prems(1) trace_step.hyps(1)] s1] trace_step.prems(4)
  show ?case by (simp add: split)
qed auto

lemma joined_in_order:
  assumes "sound log s" and "trace_of step s (Joined l # es) s'" and "Departed l \<notin> set es"
  shows "suffix (calls l es @ due l s') (log @ accepted es)"
proof -
  from assms(2) obtain s1 where s1: "step s (Joined l) s1" "trace_of step s1 es s'" by (auto simp: trace_of_Cons)
  from joined_law [OF assms(1) s1(1), of l] have "listens l s1" "suffix ([] @ due l s1) (log @ accepted [Joined l])" by auto
  from feed_in_order [OF s1(2) sound_step [OF assms(1) s1(1)] this assms(3)] show ?thesis by simp
qed

text \<open>What was due when the listener joined and what was accepted since is all called or still due.\<close>

lemma feed_exact:
  "trace_of step s es s' \<Longrightarrow> sound log s \<Longrightarrow> listens l s \<Longrightarrow> Departed l \<notin> set es \<Longrightarrow>
     calls l es @ due l s' = due l s @ accepted es"
proof (induction arbitrary: log rule: trace_of.induct)
  case (trace_step s e s1 es s')
  have one: "listens l s1 \<and> calls l [e] @ due l s1 = due l s @ accepted [e]"
  proof (cases e)
    case (Accepted c)
    with accepted_law [of log s c s1 l] trace_step show ?thesis by simp
  next
    case (Called m c)
    with called_law [of log s m c s1 l] trace_step show ?thesis by auto
  next
    case (Joined m)
    with joined_law [of log s m s1 l] trace_step show ?thesis by auto
  next
    case (Departed m)
    with departed_law [of log s m s1 l] trace_step show ?thesis by auto
  next
    case Unseen
    with unseen_law [of log s s1 l] trace_step show ?thesis by auto
  qed
  have split: "calls l (e # es) = calls l [e] @ calls l es" "accepted (e # es) = accepted [e] @ accepted es"
    by (simp_all add: calls_def accepted_def)
  from trace_step.IH [OF sound_step [OF trace_step.prems(1) trace_step.hyps(1)]] one trace_step.prems(3)
  have "calls l es @ due l s' = due l s1 @ accepted es" by simp
  with one show ?case unfolding split by (metis append.assoc)
qed simp

end

section \<open>The steps of a stream\<close>

text \<open>Code outside the stream runs only while the stream is not publishing or inside a listener.\<close>

definition others_run :: "locus_stream \<Rightarrow> bool" where
  "others_run s \<longleftrightarrow> (case ls_publishing s of None \<Rightarrow> True | Some p \<Rightarrow> pub_running p \<noteq> None)"

inductive stream_step ::
    "(hson_item \<Rightarrow> js_string option) \<Rightarrow> (canonical_commit \<Rightarrow> nat) \<Rightarrow> locus_stream \<Rightarrow> feed_event \<Rightarrow> locus_stream \<Rightarrow> bool"
  for encode sizeOf where
  step_ingest: "others_run s \<Longrightarrow>
     make_locus_canonical_commit encode h (ls_mode s) commit (ls_map s) (ls_incarnation s) (ls_head s) = Inr c \<Longrightarrow>
     ingest encode sizeOf h commit Authoritative s = Some (Inr s') \<Longrightarrow> stream_step encode sizeOf s (Accepted c) s'"
| step_refuse: "others_run s \<Longrightarrow> ingest encode sizeOf h commit Authoritative s = Some (Inl e) \<Longrightarrow>
     stream_step encode sizeOf s Unseen s"
| step_replay: "others_run s \<Longrightarrow> ingest encode sizeOf h commit Replay s = Some (Inr s') \<Longrightarrow>
     stream_step encode sizeOf s Unseen s'"
| step_call: "call_listener s = Some (l, c, s') \<Longrightarrow> stream_step encode sizeOf s (Called l c) s'"
| step_return: "return_listener threw s = Some s' \<Longrightarrow> stream_step encode sizeOf s Unseen s'"
| step_finish: "finish_publication s = Some s' \<Longrightarrow> stream_step encode sizeOf s Unseen s'"
| step_join: "others_run s \<Longrightarrow> stream_step encode sizeOf s (Joined l) (on_commit l s)"
| step_leave: "others_run s \<Longrightarrow> stream_step encode sizeOf s (Departed l) (off_commit l s)"

inductive_cases accepted_stepE: "stream_step encode sizeOf s (Accepted c) s'"
inductive_cases called_stepE: "stream_step encode sizeOf s (Called l c) s'"
inductive_cases joined_stepE: "stream_step encode sizeOf s (Joined l) s'"
inductive_cases departed_stepE: "stream_step encode sizeOf s (Departed l) s'"
inductive_cases unseen_stepE: "stream_step encode sizeOf s Unseen s'"

definition publication_ok :: "canonical_commit list \<Rightarrow> locus_stream \<Rightarrow> bool" where
  "publication_ok log s \<longleftrightarrow> distinct (ls_listeners s) \<and>
     (case ls_publishing s of
        None \<Rightarrow> ls_queue s = []
      | Some p \<Rightarrow> distinct (pub_waiting p) \<and> suffix (pub_commit p # ls_queue s) log)"

definition logged :: "canonical_commit list \<Rightarrow> locus_stream \<Rightarrow> bool" where
  "logged log s \<longleftrightarrow> (\<exists>b. chain b log (ls_head s)) \<and> suffix (map fst (ls_retained s)) log"

definition stream_ok :: "(canonical_commit \<Rightarrow> nat) \<Rightarrow> canonical_commit list \<Rightarrow> locus_stream \<Rightarrow> bool" where
  "stream_ok sizeOf log s \<longleftrightarrow> history_ok sizeOf s \<and> publication_ok log s \<and> logged log s"

definition stream_due :: "listener \<Rightarrow> locus_stream \<Rightarrow> canonical_commit list" where
  "stream_due l s =
     (case ls_publishing s of None \<Rightarrow> [] | Some p \<Rightarrow> if l \<in> set (pub_waiting p) then [pub_commit p] else []) @
     (if l \<in> set (ls_listeners s) then ls_queue s else [])"

lemma canonical_commit_follows:
  "make_locus_canonical_commit encode h mode commit m i expected = Inr c \<Longrightarrow>
     k_prev c = expected \<and> k_rev c = Suc expected \<and> k_map c = m \<and> k_incarnation c = i \<and> k_mode c = mode"
  by (auto simp: make_locus_canonical_commit_def Let_def rbind_Inr_iff rguard_def split: option.splits if_splits)

lemma history_ok_update [simp]:
  "history_ok sizeOf (s\<lparr> ls_publishing := x \<rparr>) = history_ok sizeOf s"
  "history_ok sizeOf (s\<lparr> ls_queue := cs \<rparr>) = history_ok sizeOf s"
  "history_ok sizeOf (s\<lparr> ls_listeners := ls \<rparr>) = history_ok sizeOf s"
  "history_ok sizeOf (s\<lparr> ls_published := n \<rparr>) = history_ok sizeOf s"
  "history_ok sizeOf (s\<lparr> ls_errors := n \<rparr>) = history_ok sizeOf s"
  by (simp_all add: history_ok_def earliest_resumable_base_rev_def cong: list.case_cong)

lemma history_ok_queue [simp]:
  "history_ok sizeOf (s\<lparr> ls_head := n, ls_queue := cs \<rparr>) = history_ok sizeOf (s\<lparr> ls_head := n \<rparr>)"
  using history_ok_update(2) [of sizeOf cs "s\<lparr> ls_head := n \<rparr>"] by simp

lemma append_keeps_suffix:
  assumes "history_ok sizeOf s" and "append_history sizeOf c s = Some t" and "suffix (map fst (ls_retained s)) log"
  shows "suffix (map fst (ls_retained t)) (log @ [c])"
proof -
  from append_history_returns [OF assms(1), of c] assms(2) obtain k
    where "ls_retained t = drop k (ls_retained s @ [(c, sizeOf c)])" by auto
  then have "suffix (map fst (ls_retained t)) (map fst (ls_retained s) @ [c])"
    by (metis (no_types, lifting) drop_map fst_conv list.simps(8,9) map_append suffix_drop)
  from suffix_order.trans [OF this suffix_snoc [OF assms(3), of c]] show ?thesis .
qed

lemma accept_stream:
  assumes ok: "stream_ok sizeOf log s" and c: "k_prev c = ls_head s" "k_rev c = Suc (ls_head s)"
    and a: "accept_canonical sizeOf c s = Some s'"
  shows "stream_ok sizeOf (log @ [c]) s'" and "ls_head s' = Suc (ls_head s)" and "ls_listeners s' = ls_listeners s"
    and "l \<in> set (ls_listeners s) \<Longrightarrow> stream_due l s' = stream_due l s @ [c]"
proof -
  from a obtain t where t: "append_history sizeOf c s = Some t"
    and s': "s' = drain_publication_queue (t\<lparr> ls_head := k_rev c, ls_queue := ls_queue t @ [c] \<rparr>)"
    by (auto simp: accept_canonical_def)
  from ok have h: "history_ok sizeOf s" and p: "publication_ok log s" and lg: "logged log s" by (simp_all add: stream_ok_def)
  note t_ok = history_ok_append [OF h c t]
  have "history_ok sizeOf s'"
    using t_ok(1) by (simp add: s' drain_publication_queue_def publish_next_def split: list.splits)
  moreover have "publication_ok (log @ [c]) s'"
  proof (cases "ls_publishing s")
    case None
    with p show ?thesis
      by (auto simp: s' drain_publication_queue_def publish_next_def publication_ok_def t_ok suffix_def)
  next
    case (Some q)
    with p have "suffix (pub_commit q # ls_queue s @ [c]) (log @ [c])"
      using suffix_snoc [of "pub_commit q # ls_queue s" log c] by (simp add: publication_ok_def)
    with p Some show ?thesis
      by (simp add: s' drain_publication_queue_def publication_ok_def t_ok)
  qed
  moreover have "logged (log @ [c]) s'"
    using lg append_keeps_suffix [OF h t] c
    by (auto simp: logged_def s' drain_publication_queue_def publish_next_def intro: chain_snoc split: list.splits)
  ultimately show "stream_ok sizeOf (log @ [c]) s'" by (simp add: stream_ok_def)
  show "ls_head s' = Suc (ls_head s)" "ls_listeners s' = ls_listeners s"
    by (simp_all add: s' drain_publication_queue_def publish_next_def t_ok c split: list.splits)
  show "stream_due l s' = stream_due l s @ [c]" if "l \<in> set (ls_listeners s)"
    using that p by (auto simp: s' drain_publication_queue_def publish_next_def stream_due_def publication_ok_def t_ok
        split: list.splits option.splits)
qed

lemma call_listener_Some:
  "call_listener s = Some (l, c, s') \<longleftrightarrow>
     (\<exists>p ls. ls_publishing s = Some p \<and> pub_running p = None \<and> pub_waiting p = l # ls \<and> c = pub_commit p \<and>
        s' = s\<lparr> ls_publishing := Some (p\<lparr> pub_running := Some l, pub_waiting := ls \<rparr>) \<rparr>)"
  by (auto simp: call_listener_def split: option.splits list.splits)

lemma return_listener_Some:
  "return_listener threw s = Some s' \<longleftrightarrow>
     (\<exists>p l. ls_publishing s = Some p \<and> pub_running p = Some l \<and>
        s' = s\<lparr> ls_publishing := Some (p\<lparr> pub_running := None \<rparr>), ls_errors := ls_errors s + (if threw then 1 else 0) \<rparr>)"
  by (auto simp: return_listener_def split: option.splits)

lemma finish_publication_Some:
  "finish_publication s = Some s' \<longleftrightarrow>
     (\<exists>p. ls_publishing s = Some p \<and> pub_running p = None \<and> pub_waiting p = [] \<and>
        s' = publish_next (s\<lparr> ls_published := ls_published s + 1 \<rparr>))"
  by (auto simp: finish_publication_def split: option.splits)

lemma finish_stream:
  assumes "stream_ok sizeOf log s" and "finish_publication s = Some s'"
  shows "stream_ok sizeOf log s' \<and> ls_head s' = ls_head s \<and> ls_listeners s' = ls_listeners s \<and> stream_due l s' = stream_due l s"
  using assms
  by (auto simp: finish_publication_Some publish_next_def stream_ok_def publication_ok_def stream_due_def logged_def
      split: list.splits dest: suffix_tail)

lemma call_stream: "stream_ok sizeOf log s \<Longrightarrow> call_listener s = Some (l, c, s') \<Longrightarrow> stream_ok sizeOf log s'"
  by (auto simp: call_listener_Some stream_ok_def publication_ok_def logged_def)

lemma return_stream: "stream_ok sizeOf log s \<Longrightarrow> return_listener threw s = Some s' \<Longrightarrow> stream_ok sizeOf log s'"
  by (auto simp: return_listener_Some stream_ok_def publication_ok_def logged_def)

lemma join_stream: "stream_ok sizeOf log s \<Longrightarrow> stream_ok sizeOf log (on_commit l s)"
  by (cases "ls_publishing s") (simp_all add: on_commit_def stream_ok_def publication_ok_def logged_def)

lemma leave_stream: "stream_ok sizeOf log s \<Longrightarrow> stream_ok sizeOf log (off_commit l s)"
  by (cases "ls_publishing s") (simp_all add: off_commit_def stream_ok_def publication_ok_def logged_def)

lemma ingest_accepts:
  assumes "make_locus_canonical_commit encode h (ls_mode s) commit (ls_map s) (ls_incarnation s) (ls_head s) = Inr c"
    and "ingest encode sizeOf h commit Authoritative s = Some (Inr s')"
  shows "k_prev c = ls_head s" "k_rev c = Suc (ls_head s)" "accept_canonical sizeOf c s = Some s'"
  using assms canonical_commit_follows [OF assms(1)] by (simp_all add: ingest_def)

interpretation stream_feed: commit_feed
  "stream_step encode sizeOf" "stream_ok sizeOf" ls_head "\<lambda>l s. l \<in> set (ls_listeners s)" stream_due
proof
  fix log s e s' assume ok: "stream_ok sizeOf log s" and st: "stream_step encode sizeOf s e s'"
  from st show "stream_ok sizeOf (log @ accepted [e]) s'"
  proof cases
    case (step_ingest h commit c)
    from accept_stream(1) [OF ok ingest_accepts [OF step_ingest(3,4)]] step_ingest(1) show ?thesis by simp
  next
    case (step_replay h commit)
    with ok show ?thesis by (simp add: ingest_def)
  next
    case step_finish
    with ok finish_stream [OF ok step_finish(2)] show ?thesis by simp
  next
    case (step_call l c)
    from call_stream [OF ok step_call(2)] step_call(1) show ?thesis by simp
  next
    case (step_return threw)
    from return_stream [OF ok step_return(2)] step_return(1) show ?thesis by simp
  next
    case (step_join l)
    from join_stream [OF ok, of l] step_join show ?thesis by simp
  next
    case (step_leave l)
    from leave_stream [OF ok, of l] step_leave show ?thesis by simp
  qed (use ok in simp)
next
  fix log s assume "stream_ok sizeOf log s"
  then show "\<exists>b. chain b log (ls_head s)" by (simp add: stream_ok_def logged_def)
next
  fix log s c s' l assume ok: "stream_ok sizeOf log s" and "stream_step encode sizeOf s (Accepted c) s'"
  then obtain h commit where "make_locus_canonical_commit encode h (ls_mode s) commit (ls_map s) (ls_incarnation s) (ls_head s) = Inr c"
    "ingest encode sizeOf h commit Authoritative s = Some (Inr s')" by (elim accepted_stepE)
  then have c: "k_prev c = ls_head s" "k_rev c = Suc (ls_head s)" and a: "accept_canonical sizeOf c s = Some s'"
    by (auto simp: ingest_def dest: canonical_commit_follows)
  from accept_stream [OF ok c a] show "(l \<in> set (ls_listeners s')) = (l \<in> set (ls_listeners s)) \<and>
      (l \<in> set (ls_listeners s) \<longrightarrow> stream_due l s' = stream_due l s @ [c])"
    by simp
next
  fix log s m c s' l assume ok: "stream_ok sizeOf log s" and "stream_step encode sizeOf s (Called m c) s'"
  then have "call_listener s = Some (m, c, s')" by (elim called_stepE)
  with ok show "(l \<in> set (ls_listeners s')) = (l \<in> set (ls_listeners s)) \<and>
      stream_due l s = (if m = l then [c] else []) @ stream_due l s'"
    by (auto simp: call_listener_Some stream_due_def stream_ok_def publication_ok_def)
next
  fix log s m s' l assume ok: "stream_ok sizeOf log s" and "stream_step encode sizeOf s (Joined m) s'"
  then have s': "s' = on_commit m s" by (elim joined_stepE)
  have "suffix (stream_due m s') log"
  proof (cases "ls_publishing s")
    case None
    with ok show ?thesis by (simp add: s' stream_due_def on_commit_def stream_ok_def publication_ok_def)
  next
    case (Some p)
    with ok have q: "suffix (pub_commit p # ls_queue s) log" by (simp add: stream_ok_def publication_ok_def)
    with suffix_tail [OF q] Some show ?thesis by (simp add: s' stream_due_def on_commit_def)
  qed
  then show "(l \<in> set (ls_listeners s')) = (l = m \<or> l \<in> set (ls_listeners s)) \<and>
      (l \<noteq> m \<or> l \<in> set (ls_listeners s) \<longrightarrow> stream_due l s' = stream_due l s) \<and> suffix (stream_due m s') log"
    by (auto simp: s' on_commit_def stream_due_def split: option.splits)
next
  fix log s m s' l assume "stream_ok sizeOf log s" and "stream_step encode sizeOf s (Departed m) s'"
  then have s': "s' = off_commit m s" by (elim departed_stepE)
  then show "(l \<in> set (ls_listeners s')) = (l \<noteq> m \<and> l \<in> set (ls_listeners s)) \<and>
      (l \<noteq> m \<longrightarrow> stream_due l s' = stream_due l s)"
    by (auto simp: off_commit_def stream_due_def split: option.splits)
next
  fix log s s' l assume ok: "stream_ok sizeOf log s" and st: "stream_step encode sizeOf s Unseen s'"
  show "(l \<in> set (ls_listeners s')) = (l \<in> set (ls_listeners s)) \<and> stream_due l s' = stream_due l s"
    using st
  proof (rule unseen_stepE)
    fix threw assume "return_listener threw s = Some s'"
    then show ?thesis by (auto simp: return_listener_Some stream_due_def)
  next
    assume "finish_publication s = Some s'"
    from finish_stream [OF ok this, of l] show ?thesis by simp
  qed (simp_all add: ingest_def)
qed

section \<open>A stream starts sound\<close>

definition restored :: "initial_history option \<Rightarrow> canonical_commit list" where
  "restored ih = (case ih of None \<Rightarrow> [] | Some h \<Rightarrow> ih_commits h)"

definition fresh_stream :: "locus_stream \<Rightarrow> bool" where
  "fresh_stream s \<longleftrightarrow> ls_publishing s = None \<and> ls_queue s = [] \<and> ls_listeners s = []"

lemma load_history_returns:
  "stream_ok sizeOf log s \<Longrightarrow> fresh_stream s \<Longrightarrow>
     \<exists>r. load_history sizeOf cs s = Some r \<and> (\<forall>s'. r = Inr s' \<longrightarrow> stream_ok sizeOf (log @ cs) s' \<and> fresh_stream s')"
proof (induction cs arbitrary: s log)
  case (Cons c cs)
  show ?case
  proof (cases "k_map c \<noteq> ls_map s \<or> k_incarnation c \<noteq> ls_incarnation s \<or> k_mode c \<noteq> ls_mode s \<or>
      k_prev c \<noteq> ls_head s \<or> k_rev c \<noteq> ls_head s + 1")
    case True
    then show ?thesis by simp
  next
    case False
    then have c: "k_prev c = ls_head s" "k_rev c = Suc (ls_head s)" by simp_all
    from Cons.prems have h: "history_ok sizeOf s" by (simp add: stream_ok_def)
    from append_history_returns [OF h, of c] obtain t where t: "append_history sizeOf c s = Some t" by blast
    note t_ok = history_ok_append [OF h c t]
    let ?t = "t\<lparr> ls_head := k_rev c \<rparr>"
    have "fresh_stream ?t" using Cons.prems(2) by (simp add: fresh_stream_def t_ok)
    moreover have "stream_ok sizeOf (log @ [c]) ?t"
      using t_ok(1) Cons.prems append_keeps_suffix [OF h t] c
      by (auto simp: stream_ok_def logged_def publication_ok_def fresh_stream_def t_ok intro: chain_snoc)
    ultimately have "\<exists>r. load_history sizeOf cs ?t = Some r \<and>
        (\<forall>s'. r = Inr s' \<longrightarrow> stream_ok sizeOf ((log @ [c]) @ cs) s' \<and> fresh_stream s')"
      by (intro Cons.IH)
    with False t show ?thesis by auto
  qed
qed simp

lemma empty_stream_ok: "stream_ok sizeOf [] ((empty_stream m i mode cb bb n)\<lparr> ls_head := k \<rparr>)"
  by (simp add: stream_ok_def history_ok_def publication_ok_def logged_def earliest_resumable_base_rev_def
      empty_stream_def within_def)

lemma make_stream_returns:
  "\<exists>r. make_locus_canonical_stream sizeOf mode mapRev m i cb bb ih = Some r \<and>
     (\<forall>s. r = Inr s \<longrightarrow> stream_ok sizeOf (restored ih) s \<and> fresh_stream s)"
proof -
  have start: "stream_ok sizeOf [] ((empty_stream a b mode c d n)\<lparr> ls_head := k \<rparr>)"
    "fresh_stream ((empty_stream a b mode c d n)\<lparr> ls_head := k \<rparr>)" for a b c d k n
    using empty_stream_ok by (simp_all add: fresh_stream_def empty_stream_def)
  have plain: "stream_ok sizeOf [] (empty_stream a b mode c d mapRev)" "fresh_stream (empty_stream a b mode c d mapRev)" for a b c d
    using start [where n = mapRev and k = mapRev] by (simp_all add: empty_stream_def)
  show ?thesis
  proof (cases "rbind (must_identity m) (\<lambda>m. rbind (must_identity i) (\<lambda>i. rbind (must_bound cb DEFAULT_MAX_COMMITS) (\<lambda>mc.
      rbind (must_bound bb DEFAULT_MAX_BYTES) (\<lambda>mb. Inr (empty_stream m i mode mc mb mapRev)))))")
    case (Inl e)
    then show ?thesis by (simp add: make_locus_canonical_stream_def)
  next
    case (Inr s)
    then obtain a b c d where s: "s = empty_stream a b mode c d mapRev" by (auto simp: rbind_Inr_iff)
    show ?thesis
    proof (cases ih)
      case None
      with Inr plain show ?thesis by (simp add: make_locus_canonical_stream_def restored_def s)
    next
      case (Some h)
      show ?thesis
      proof (cases "num_arg_index (ih_base h)")
        case None
        with Inr Some show ?thesis by (simp add: make_locus_canonical_stream_def)
      next
        case (Some base)
        have "stream_ok sizeOf [] (s\<lparr> ls_head := base \<rparr>)" "fresh_stream (s\<lparr> ls_head := base \<rparr>)"
          using start by (simp_all add: s)
        from load_history_returns [OF this, of "ih_commits h"] obtain r
          where r: "load_history sizeOf (ih_commits h) (s\<lparr> ls_head := base \<rparr>) = Some r"
            "\<forall>s'. r = Inr s' \<longrightarrow> stream_ok sizeOf (ih_commits h) s' \<and> fresh_stream s'"
          by auto
        with Inr Some \<open>ih = Some h\<close> show ?thesis
          by (cases r) (simp_all add: make_locus_canonical_stream_def restored_def)
      qed
    qed
  qed
qed

lemma made_stream_ok:
  assumes "make_locus_canonical_stream sizeOf mode mapRev m i cb bb ih = Some (Inr s)"
  shows "stream_ok sizeOf (restored ih) s" "fresh_stream s"
  using make_stream_returns [of sizeOf mode mapRev m i cb bb ih] assms by auto

lemma stream_run_ok:
  assumes "make_locus_canonical_stream sizeOf mode mapRev m i cb bb ih = Some (Inr s0)"
    and "trace_of (stream_step encode sizeOf) s0 es s"
  shows "stream_ok sizeOf (restored ih @ accepted es) s"
  using stream_feed.sound_trace [OF assms(2) made_stream_ok(1) [OF assms(1)]] .

lemma chain_same_end: "chain a cs e \<Longrightarrow> chain b cs e \<Longrightarrow> a = b"
  using chain_end [of a cs e] chain_end [of b cs e] by simp

lemma retained_filter:
  assumes "stream_ok sizeOf log s" and "earliest_resumable_base_rev s \<le> f"
  shows "filter (\<lambda>c. f < k_rev c \<and> k_rev c \<le> t) (map fst (ls_retained s)) = filter (\<lambda>c. f < k_rev c \<and> k_rev c \<le> t) log"
proof -
  from assms(1) obtain b xs where b: "chain b log (ls_head s)" and xs: "log = xs @ map fst (ls_retained s)"
    by (auto simp: stream_ok_def logged_def suffix_def)
  from b xs have ch: "chain b xs (b + length xs)" "chain (b + length xs) (map fst (ls_retained s)) (ls_head s)"
    by (simp_all add: chain_append)
  moreover have "chain (earliest_resumable_base_rev s) (map fst (ls_retained s)) (ls_head s)"
    using assms(1) by (simp add: stream_ok_def history_ok_def)
  ultimately have "b + length xs = earliest_resumable_base_rev s" using chain_same_end by blast
  with chain_revs [OF ch(1)] assms(2) have "filter (\<lambda>c. f < k_rev c \<and> k_rev c \<le> t) xs = []"
    by (fastforce simp: filter_empty_conv)
  with xs show ?thesis by simp
qed

section \<open>Properties\<close>

text \<open>
  C17: appending a commit to the history of any stream that runs returns: the trimming loop ends, at
  the longest end of the history that keeps both bounds, with the byte count of what is left.
\<close>

theorem history_append_returns:
  fixes c :: canonical_commit
  assumes "make_locus_canonical_stream sizeOf mode mapRev m i cb bb ih = Some (Inr s0)"
    and "trace_of (stream_step encode sizeOf) s0 es s"
  defines "all \<equiv> ls_retained s @ [(c, sizeOf c)]"
  shows "\<exists>s' k. append_history sizeOf c s = Some s' \<and> ls_retained s' = drop k all \<and>
    ls_bytes s' = int (bytes_of (ls_retained s')) \<and>
    within (ls_max_commits s) (ls_max_bytes s) (ls_retained s') \<and>
    (\<forall>j < k. \<not> within (ls_max_commits s) (ls_max_bytes s) (drop j all))"
proof -
  have "history_ok sizeOf s" using stream_run_ok [OF assms(1,2)] by (simp add: stream_ok_def)
  from append_history_returns [OF this, of c] obtain k where
    "append_history sizeOf c s = Some (s\<lparr> ls_retained := drop k all, ls_bytes := int (bytes_of (drop k all)) \<rparr>)"
    "within (ls_max_commits s) (ls_max_bytes s) (drop k all)"
    "\<forall>j < k. \<not> within (ls_max_commits s) (ls_max_bytes s) (drop j all)" by (auto simp: all_def)
  then show ?thesis by (intro exI [of _ "s\<lparr> ls_retained := drop k all, ls_bytes := int (bytes_of (drop k all)) \<rparr>"] exI [of _ k]) simp
qed

text \<open>
  C16: a replay between two revisions succeeds exactly when they are ordered, not ahead of the head
  and, unless equal, not before the oldest retained commit; it returns all commits restored or
  accepted between the two, which lead from the one revision to the other without a gap.
\<close>

theorem replay_serves_history:
  fixes f t :: nat
  assumes "make_locus_canonical_stream sizeOf mode mapRev m i cb bb ih = Some (Inr s0)"
    and "trace_of (stream_step encode sizeOf) s0 es s"
  defines "between \<equiv> filter (\<lambda>c. f < k_rev c \<and> k_rev c \<le> t) (restored ih @ accepted es)"
  shows "replay_after (IntArg (int f)) (Some (IntArg (int t))) s =
      (if f \<le> t \<and> t \<le> ls_head s \<and> (f = t \<or> earliest_resumable_base_rev s \<le> f) then Some between else None) \<and>
    (f \<le> t \<and> t \<le> ls_head s \<and> earliest_resumable_base_rev s \<le> f \<longrightarrow> chain f between t)"
proof -
  have ok: "stream_ok sizeOf (restored ih @ accepted es) s" by (rule stream_run_ok [OF assms(1,2)])
  then have h: "history_ok sizeOf s" by (simp add: stream_ok_def)
  have "f = t \<Longrightarrow> filter (\<lambda>c. f < k_rev c \<and> k_rev c \<le> t) cs = []" for cs by (auto simp: filter_empty_conv)
  with replay_after_eq [OF h, of f t] retained_filter [OF ok, of f t]
  have "replay_after (IntArg (int f)) (Some (IntArg (int t))) s =
      (if f \<le> t \<and> t \<le> ls_head s \<and> (f = t \<or> earliest_resumable_base_rev s \<le> f) then Some between else None)"
    by (cases "earliest_resumable_base_rev s \<le> f") (auto simp: between_def)
  moreover have "chain f between t" if "f \<le> t" "t \<le> ls_head s" "earliest_resumable_base_rev s \<le> f"
    using chain_filter [OF h [unfolded history_ok_def, THEN conjunct1] that(3,1,2)] retained_filter [OF ok that(3), of t]
    by (simp add: between_def)
  ultimately show ?thesis by blast
qed

text \<open>
  C4: whatever listeners do while they run, a listener that joined and did not leave is called with
  exactly the commits whose publication had not begun when it joined, and with every commit accepted
  since, each once and in the order they were accepted; what it has not been called with yet it is still
  due, and once the stream is not publishing it is due nothing. A listener that joins while the snapshot
  of the running publication still holds it (it left and came back) gets that commit too. What it is
  called with is contiguous and is the end of everything accepted.
\<close>

theorem publication_in_order:
  assumes "make_locus_canonical_stream sizeOf mode mapRev m i cb bb ih = Some (Inr s0)"
    and "trace_of (stream_step encode sizeOf) s0 before s1"
    and "trace_of (stream_step encode sizeOf) s1 (Joined l # after) s" and "Departed l \<notin> set after"
  shows "calls l after @ stream_due l s =
      (case ls_publishing s1 of None \<Rightarrow> [] | Some p \<Rightarrow> if l \<in> set (pub_waiting p) then [pub_commit p] else []) @
      ls_queue s1 @ accepted after \<and>
    suffix (calls l after @ stream_due l s) (restored ih @ accepted before @ accepted after) \<and>
    (\<exists>b. chain b (calls l after @ stream_due l s) (ls_head s)) \<and>
    (ls_publishing s1 = None \<longrightarrow> ls_queue s1 = []) \<and>
    (ls_publishing s = None \<longrightarrow> stream_due l s = [])"
proof -
  from stream_run_ok [OF assms(1,2)] have ok1: "stream_ok sizeOf (restored ih @ accepted before) s1" .
  from stream_feed.joined_in_order [OF this assms(3,4)]
  have sfx: "suffix (calls l after @ stream_due l s) (restored ih @ accepted before @ accepted after)" by simp
  from stream_feed.sound_trace [OF assms(3) ok1] have ok: "stream_ok sizeOf (restored ih @ accepted before @ accepted after) s"
    by simp
  from stream_feed.sound_chain [OF ok] chain_suffix [OF _ sfx]
  have chained: "\<exists>b. chain b (calls l after @ stream_due l s) (ls_head s)" by blast
  have rest: "ls_publishing s1 = None \<longrightarrow> ls_queue s1 = []" using ok1 by (auto simp: stream_ok_def publication_ok_def)
  have idle: "ls_publishing s = None \<longrightarrow> stream_due l s = []"
    using ok by (auto simp: stream_ok_def publication_ok_def stream_due_def)
  from assms(3) obtain s2 where s2: "stream_step encode sizeOf s1 (Joined l) s2" "trace_of (stream_step encode sizeOf) s2 after s"
    by (auto simp: trace_of_Cons)
  have joined: "s2 = on_commit l s1" using s2(1) by (elim joined_stepE)
  have "stream_ok sizeOf (restored ih @ accepted before) s2" unfolding joined by (rule join_stream [OF ok1])
  from stream_feed.feed_exact [OF s2(2) this _ assms(4)]
  have "calls l after @ stream_due l s = stream_due l s2 @ accepted after" by (simp add: joined on_commit_def)
  then have "calls l after @ stream_due l s =
      (case ls_publishing s1 of None \<Rightarrow> [] | Some p \<Rightarrow> if l \<in> set (pub_waiting p) then [pub_commit p] else []) @
      ls_queue s1 @ accepted after"
    by (simp add: joined stream_due_def on_commit_def)
  with sfx chained rest idle show ?thesis by blast
qed

definition sample_commit :: "nat \<Rightarrow> live_commit" where
  "sample_commit n =
     \<lparr> c_changed = True, c_rev = IntArg (int n + 1), c_prev_rev = IntArg (int n),
       c_ops = [GraphOperation (MoveContent (DocTarget [IntArg 0] None) (IntArg 0) (IntArg 1))],
       c_structural = False, c_payload = None \<rparr>"

definition sample_canonical :: "nat \<Rightarrow> canonical_commit" where
  "sample_canonical n =
     \<lparr> k_map = js ''m'', k_incarnation = js ''i'', k_mode = FragmentMode, k_prev = n, k_rev = n + 1,
       k_ops = [GraphOperation (MoveContent (DocTarget [0] None) (IntArg 0) (IntArg 1))], k_payload = None \<rparr>"

definition sample_stream :: "nat \<Rightarrow> locus_stream" where
  "sample_stream n = empty_stream (js ''m'') (js ''i'') FragmentMode 1 100 n"

lemma one_is_one: "num_trunc 0x3FF0000000000000 = 1" "num_trunc 0x4059000000000000 = 100"
  by (simp_all add: num_trunc_def num_exponent_def)

lemma sample_stream_made:
  "make_locus_canonical_stream (\<lambda>c. 60) FragmentMode 0 (js ''m'') (js ''i'') (Some 0x3FF0000000000000) (Some 0x4059000000000000) None =
   Some (Inr (sample_stream 0))"
  by (simp add: make_locus_canonical_stream_def must_identity_def must_bound_def num_finite_def num_exponent_def
      one_is_one sample_stream_def)

lemma sample_canonical_made:
  "make_locus_canonical_commit encode [] FragmentMode (sample_commit n) (js ''m'') (js ''i'') n = Inr (sample_canonical n)"
  by (simp add: make_locus_canonical_commit_def sample_commit_def sample_canonical_def rguard_def num_arg_index_def
      is_document_mode_def has_domain_def replaces_root_as_def canonical_any_op_def canonical_graph_op_def
      canonical_target_def validate_document_path_def is_safe_integer_def max_safe_integer_def)

definition sample_state :: "nat \<Rightarrow> canonical_commit list \<Rightarrow> publication option \<Rightarrow> nat \<Rightarrow> locus_stream" where
  "sample_state head kept pub published =
     (sample_stream head)\<lparr> ls_retained := map (\<lambda>c. (c, 60)) kept, ls_bytes := int (60 * length kept),
       ls_publishing := pub, ls_listeners := [OutsideListener 7], ls_published := published \<rparr>"

definition sample_publication :: "nat \<Rightarrow> listener option \<Rightarrow> listener list \<Rightarrow> publication" where
  "sample_publication n running waiting =
     \<lparr> pub_commit = sample_canonical n, pub_running = running, pub_waiting = waiting \<rparr>"

lemmas sample_stream_eval = sample_state_def sample_stream_def empty_stream_def sample_publication_def

lemma sample_ingest:
  "ingest encode (\<lambda>c. 60) [] (sample_commit 0) Authoritative (sample_state 0 [] None 0) =
     Some (Inr (sample_state 1 [sample_canonical 0] (Some (sample_publication 0 None [OutsideListener 7])) 0))"
  "ingest encode (\<lambda>c. 60) [] (sample_commit 1) Authoritative (sample_state 1 [sample_canonical 0] None 1) =
     Some (Inr (sample_state 2 [sample_canonical 1] (Some (sample_publication 1 None [OutsideListener 7])) 1))"
proof -
  have m: "make_locus_canonical_commit encode [] FragmentMode (sample_commit n) (js ''m'') (js ''i'') n = Inr (sample_canonical n)" for n
    by (rule sample_canonical_made)
  have w1: "while_option (over_bounds (Suc 0) 100) drop_oldest ([(c, 60)], 60) = Some ([(c, 60)], 60)" for c
    by (subst while_option_unfold) (simp add: over_bounds_def)
  have w2: "while_option (over_bounds (Suc 0) 100) drop_oldest ([(a, 60), (c, 60)], 120) = Some ([(c, 60)], 60)" for a c
    by (subst while_option_unfold) (simp add: over_bounds_def drop_oldest_def w1)
  show "ingest encode (\<lambda>c. 60) [] (sample_commit 0) Authoritative (sample_state 0 [] None 0) =
     Some (Inr (sample_state 1 [sample_canonical 0] (Some (sample_publication 0 None [OutsideListener 7])) 0))"
    using m [of 0] by (simp add: ingest_def sample_stream_eval accept_canonical_def append_history_def trim_history_def w1
        drain_publication_queue_def publish_next_def) (simp add: sample_canonical_def)
  show "ingest encode (\<lambda>c. 60) [] (sample_commit 1) Authoritative (sample_state 1 [sample_canonical 0] None 1) =
     Some (Inr (sample_state 2 [sample_canonical 1] (Some (sample_publication 1 None [OutsideListener 7])) 1))"
    using m [of 1] by (simp add: ingest_def sample_stream_eval accept_canonical_def append_history_def trim_history_def w2
        drain_publication_queue_def publish_next_def) (simp add: sample_canonical_def)
qed

definition sample_events :: "feed_event list" where
  "sample_events = [Accepted (sample_canonical 0), Called (OutsideListener 7) (sample_canonical 0), Unseen, Unseen,
     Accepted (sample_canonical 1), Called (OutsideListener 7) (sample_canonical 1), Unseen, Unseen]"

lemma sample_publish:
  "call_listener (sample_state h ks (Some (sample_publication n None [OutsideListener 7])) k) =
     Some (OutsideListener 7, sample_canonical n, sample_state h ks (Some (sample_publication n (Some (OutsideListener 7)) [])) k)"
  "return_listener False (sample_state h ks (Some (sample_publication n (Some (OutsideListener 7)) [])) k) =
     Some (sample_state h ks (Some (sample_publication n None [])) k)"
  "finish_publication (sample_state h ks (Some (sample_publication n None [])) k) = Some (sample_state h ks None (k + 1))"
  by (simp_all add: call_listener_def return_listener_def finish_publication_def publish_next_def sample_stream_eval)

lemma sample_others_run: "others_run (sample_state h ks None k)" "others_run (sample_stream 0)"
  by (simp_all add: others_run_def sample_stream_eval)

lemma sample_made_at:
  "make_locus_canonical_commit encode [] (ls_mode (sample_state n ks None k)) (sample_commit n) (ls_map (sample_state n ks None k))
     (ls_incarnation (sample_state n ks None k)) (ls_head (sample_state n ks None k)) = Inr (sample_canonical n)"
  using sample_canonical_made by (simp add: sample_stream_eval)

lemma sample_run:
  "trace_of (stream_step encode (\<lambda>c. 60)) (sample_stream 0) (Joined (OutsideListener 7) # sample_events)
     (sample_state 2 [sample_canonical 1] None 2)"
proof -
  let ?step = "stream_step encode (\<lambda>c. 60)" and ?l = "OutsideListener 7"
  have j: "?step (sample_stream 0) (Joined ?l) (sample_state 0 [] None 0)"
    using stream_step.step_join [OF sample_others_run(2), of encode "\<lambda>c. 60" ?l] by (simp add: sample_stream_eval on_commit_def)
  have a: "?step (sample_state 0 [] None 0) (Accepted (sample_canonical 0))
      (sample_state 1 [sample_canonical 0] (Some (sample_publication 0 None [?l])) 0)"
    "?step (sample_state 1 [sample_canonical 0] None 1) (Accepted (sample_canonical 1))
      (sample_state 2 [sample_canonical 1] (Some (sample_publication 1 None [?l])) 1)"
    by (rule stream_step.step_ingest [OF sample_others_run(1) sample_made_at sample_ingest(1)],
        rule stream_step.step_ingest [OF sample_others_run(1) sample_made_at sample_ingest(2)])
  have p: "trace_of ?step (sample_state h ks (Some (sample_publication n None [?l])) k)
      [Called ?l (sample_canonical n), Unseen, Unseen] (sample_state h ks None (k + 1))" for h ks n k
    by (rule trace_step, rule stream_step.step_call [OF sample_publish(1)],
        rule trace_step, rule stream_step.step_return [OF sample_publish(2)],
        rule trace_step, rule stream_step.step_finish [OF sample_publish(3)], rule trace_done)
  have "trace_of ?step (sample_stream 0) ([Joined ?l, Accepted (sample_canonical 0)] @
      [Called ?l (sample_canonical 0), Unseen, Unseen] @ [Accepted (sample_canonical 1)] @
      [Called ?l (sample_canonical 1), Unseen, Unseen]) (sample_state 2 [sample_canonical 1] None (1 + 1))"
    unfolding trace_of_append trace_of_Cons trace_of_Nil using j a p [of 1 "[sample_canonical 0]" 0 0]
      p [of 2 "[sample_canonical 1]" 1 1] by (simp add: trace_of_Cons) blast
  then show ?thesis by (simp add: sample_events_def numeral_2_eq_2)
qed

theorem history_append_returns_witness:
  "\<exists>s' k. append_history (\<lambda>c. 60) (sample_canonical 2) (sample_state 2 [sample_canonical 1] None 2) = Some s' \<and>
     ls_retained s' = drop k [(sample_canonical 1, 60), (sample_canonical 2, 60)] \<and> length (ls_retained s') \<le> 1"
  using history_append_returns [OF sample_stream_made sample_run, of "sample_canonical 2"]
  by (auto simp: sample_stream_eval within_def)

theorem replay_serves_history_witness:
  "replay_after (IntArg 1) (Some (IntArg 2)) (sample_state 2 [sample_canonical 1] None 2) = Some [sample_canonical 1] \<and>
   replay_after (IntArg 0) (Some (IntArg 2)) (sample_state 2 [sample_canonical 1] None 2) = None"
  using replay_serves_history [OF sample_stream_made sample_run, of 1 2]
    replay_serves_history [OF sample_stream_made sample_run, of 0 2]
  by (simp add: sample_stream_eval earliest_resumable_base_rev_def sample_canonical_def restored_def sample_events_def)

theorem publication_in_order_witness:
  "calls (OutsideListener 7) sample_events = [sample_canonical 0, sample_canonical 1] \<and>
   suffix (calls (OutsideListener 7) sample_events) [sample_canonical 0, sample_canonical 1]"
  using publication_in_order [OF sample_stream_made trace_done sample_run]
  by (simp add: sample_events_def restored_def sample_stream_eval stream_due_def)

end
