(* ===== verification/Locus_Recovery.thy ===== *)
theory Locus_Recovery
  imports Locus_History
begin

text \<open>
  The recovery planner of a locus (\<open>api/locus/locus.recovery.ts\<close>): a client asks to be brought from its
  revision to the head; the planner answers with a body (nothing, retained commits or a snapshot)
  and collects, as a listener of the stream, the commits that follow. An attempt is a position in
  the planner's list. Code that runs inside a call (hooks, body observers) is an argument of the
  operation: a function on the planner that also says whether it threw an error of its own. The text of a snapshot is
  given with the capture. Traces and the activity callback are left out.
\<close>

section \<open>Attempts and plans\<close>

datatype recovery_error =
    TailOverflow | TailGap | RecoveryDisposed | RecoveryCompleted | SnapshotFailed | ObserverFailed | PlanningFailed

datatype reject_code = InvalidTarget | InvalidRequest | RevisionAheadOfAuthority
datatype snapshot_reason = HistoryUnavailable | NoUsableRevision | IncarnationMismatch
datatype attempt_state = AttemptActive | AttemptCompleted | AttemptDisposed | AttemptAborted
datatype recovery_outcome = OutcomeCurrent | OutcomeReplay | OutcomeSnapshot snapshot_reason

record snapshot_envelope =
  sn_map :: js_string
  sn_incarnation :: js_string
  sn_rev :: nat
  sn_mode :: root_mode
  sn_text :: js_string

datatype body_item = BodyCommit canonical_commit | BodySnapshot snapshot_envelope

record recovery_request =
  rq_map :: js_string
  rq_incarnation :: "js_string option"
  rq_last :: "num_arg option"

record recovery_attempt =
  at_state :: attempt_state
  at_error :: "recovery_error option"
  at_preliminary :: "canonical_commit list"
  at_tail :: "canonical_commit list"
  at_tail_bytes :: nat
  at_cut :: "nat option"
  at_released :: bool
  at_outcome :: recovery_outcome
  at_head :: nat
  at_body :: "body_item list"

record recovery_planner =
  pl_stream :: locus_stream
  pl_max_commits :: nat
  pl_max_bytes :: nat
  pl_attempts :: "recovery_attempt list"
  pl_disposers :: "nat list"
  pl_disposed :: bool
  pl_active :: nat
  pl_current :: nat
  pl_replay :: nat
  pl_snapshot :: nat
  pl_reject :: nat
  pl_completed :: nat
  pl_dispositions :: nat
  pl_aborted :: nat
  pl_overflow :: nat

datatype recovery_plan =
    Rejected reject_code nat
  | Planned nat recovery_outcome nat "body_item list"

definition DEFAULT_MAX_TAIL_COMMITS :: nat where "DEFAULT_MAX_TAIL_COMMITS = 256"
definition DEFAULT_MAX_TAIL_BYTES :: nat where "DEFAULT_MAX_TAIL_BYTES = 1 * 1024 * 1024"

definition make_locus_recovery_planner ::
    "locus_stream \<Rightarrow> js_number option \<Rightarrow> js_number option \<Rightarrow> history_error + recovery_planner" where
  "make_locus_recovery_planner s tailCommits tailBytes =
     rbind (must_bound tailCommits DEFAULT_MAX_TAIL_COMMITS) (\<lambda>mc.
     rbind (must_bound tailBytes DEFAULT_MAX_TAIL_BYTES) (\<lambda>mb.
       Inr \<lparr> pl_stream = s, pl_max_commits = mc, pl_max_bytes = mb, pl_attempts = [], pl_disposers = [],
         pl_disposed = False, pl_active = 0, pl_current = 0, pl_replay = 0, pl_snapshot = 0, pl_reject = 0,
         pl_completed = 0, pl_dispositions = 0, pl_aborted = 0, pl_overflow = 0 \<rparr>))"

abbreviation attempt_of :: "recovery_planner \<Rightarrow> nat \<Rightarrow> recovery_attempt" where
  "attempt_of pl k \<equiv> pl_attempts pl ! k"

definition put_attempt :: "nat \<Rightarrow> recovery_attempt \<Rightarrow> recovery_planner \<Rightarrow> recovery_planner" where
  "put_attempt k a pl = pl\<lparr> pl_attempts := (pl_attempts pl)[k := a] \<rparr>"

section \<open>The queue of an attempt\<close>

definition release_active_attempt :: "nat \<Rightarrow> recovery_planner \<Rightarrow> recovery_planner" where
  "release_active_attempt k pl =
     (if at_released (attempt_of pl k) then pl
      else (put_attempt k ((attempt_of pl k)\<lparr> at_released := True \<rparr>) pl)
        \<lparr> pl_active := pl_active pl - 1, pl_disposers := filter (\<lambda>x. x \<noteq> k) (pl_disposers pl) \<rparr>)"

definition stop_subscription :: "nat \<Rightarrow> recovery_planner \<Rightarrow> recovery_planner" where
  "stop_subscription k pl = pl\<lparr> pl_stream := off_commit (RecoveryListener k) (pl_stream pl) \<rparr>"

definition clear_queues :: "nat \<Rightarrow> recovery_planner \<Rightarrow> recovery_planner" where
  "clear_queues k pl =
     put_attempt k ((attempt_of pl k)\<lparr> at_preliminary := [], at_tail := [], at_tail_bytes := 0 \<rparr>) pl"

text \<open>What every end of an attempt does.\<close>

definition close_attempt :: "attempt_state \<Rightarrow> recovery_error option \<Rightarrow> nat \<Rightarrow> recovery_planner \<Rightarrow> recovery_planner" where
  "close_attempt st e k pl =
     release_active_attempt k (clear_queues k (stop_subscription k
       (put_attempt k ((attempt_of pl k)\<lparr> at_state := st, at_error := e \<rparr>) pl)))"

definition abort_attempt :: "recovery_error \<Rightarrow> nat \<Rightarrow> recovery_planner \<Rightarrow> recovery_planner" where
  "abort_attempt e k pl =
     (if at_state (attempt_of pl k) \<noteq> AttemptActive then pl
      else (let p = close_attempt AttemptAborted (Some e) k pl
        in p\<lparr> pl_aborted := pl_aborted p + 1, pl_overflow := pl_overflow p + (if e = TailOverflow then 1 else 0) \<rparr>))"

definition enqueue_tail :: "(canonical_commit \<Rightarrow> nat) \<Rightarrow> nat \<Rightarrow> canonical_commit \<Rightarrow> recovery_planner \<Rightarrow> recovery_planner" where
  "enqueue_tail sizeOf k c pl =
     (let a = attempt_of pl k in
      if at_state a \<noteq> AttemptActive then pl
      else (case at_cut a of
          None \<Rightarrow> put_attempt k (a\<lparr> at_preliminary := at_preliminary a @ [c] \<rparr>) pl
        | Some cutRev \<Rightarrow>
            if k_rev c \<le> cutRev then pl
            else if k_prev c \<noteq> (if at_tail a = [] then cutRev else k_rev (last (at_tail a)))
              then abort_attempt TailGap k pl
            else (let b = a\<lparr> at_tail := at_tail a @ [c], at_tail_bytes := at_tail_bytes a + sizeOf c \<rparr>;
                      p = put_attempt k b pl
              in if pl_max_commits pl < length (at_tail b) \<or> pl_max_bytes pl < at_tail_bytes b
                 then abort_attempt TailOverflow k p else p)))"

definition establish_cut :: "(canonical_commit \<Rightarrow> nat) \<Rightarrow> nat \<Rightarrow> nat \<Rightarrow> recovery_planner \<Rightarrow> recovery_planner" where
  "establish_cut sizeOf k head pl =
     (let a = attempt_of pl k;
          p = put_attempt k (a\<lparr> at_cut := Some head, at_preliminary := [] \<rparr>) pl
      in fold (\<lambda>c q. if head < k_rev c then enqueue_tail sizeOf k c q else q) (at_preliminary a) p)"

section \<open>Planning\<close>

record recovery_hooks =
  before_cut :: "recovery_planner \<Rightarrow> bool \<times> recovery_planner"
  during_snapshot_capture :: "recovery_planner \<Rightarrow> bool \<times> recovery_planner"
  after_cut :: "recovery_planner \<Rightarrow> bool \<times> recovery_planner"

text \<open>
  What \<open>map.capture()\<close> gives: its revision and, where it is an exact capture that can be written, its
  text.
\<close>

datatype capture_read = CaptureThrows | CaptureRead nat "js_string option"

definition reject :: "reject_code \<Rightarrow> recovery_planner \<Rightarrow> (recovery_error + recovery_plan) \<times> recovery_planner" where
  "reject code pl = (Inr (Rejected code (ls_head (pl_stream pl))), pl\<lparr> pl_reject := pl_reject pl + 1 \<rparr>)"

definition open_attempt :: "recovery_planner \<Rightarrow> recovery_planner" where
  "open_attempt pl =
     pl\<lparr> pl_stream := on_commit (RecoveryListener (length (pl_attempts pl))) (pl_stream pl),
       pl_active := pl_active pl + 1,
       pl_attempts := pl_attempts pl @
         [\<lparr> at_state = AttemptActive, at_error = None, at_preliminary = [], at_tail = [], at_tail_bytes = 0,
            at_cut = None, at_released = False, at_outcome = OutcomeCurrent, at_head = ls_head (pl_stream pl),
            at_body = [] \<rparr>] \<rparr>"

definition settle :: "recovery_outcome \<Rightarrow> nat \<Rightarrow> body_item list \<Rightarrow> nat \<Rightarrow> recovery_planner \<Rightarrow> recovery_planner" where
  "settle outcome head body k pl =
     put_attempt k ((attempt_of pl k)\<lparr> at_outcome := outcome, at_head := head, at_body := body \<rparr>) pl"

definition fail_plan :: "recovery_error \<Rightarrow> nat \<Rightarrow> recovery_planner \<Rightarrow> (recovery_error + recovery_plan) \<times> recovery_planner" where
  "fail_plan e k pl = (Inl e, abort_attempt e k pl)"

text \<open>The end of planning: the last hook, the check for an abort, the registration of the attempt.\<close>

definition count_plan :: "recovery_outcome \<Rightarrow> recovery_planner \<Rightarrow> recovery_planner" where
  "count_plan outcome pl =
     (case outcome of
        OutcomeCurrent \<Rightarrow> pl\<lparr> pl_current := pl_current pl + 1 \<rparr>
      | OutcomeReplay \<Rightarrow> pl\<lparr> pl_replay := pl_replay pl + 1 \<rparr>
      | OutcomeSnapshot r \<Rightarrow> pl\<lparr> pl_snapshot := pl_snapshot pl + 1 \<rparr>)"

definition finish_plan :: "recovery_hooks \<Rightarrow> nat \<Rightarrow> recovery_planner \<Rightarrow> (recovery_error + recovery_plan) \<times> recovery_planner" where
  "finish_plan hooks k pl =
     (let (threw, p) = after_cut hooks pl in
      if threw then fail_plan PlanningFailed k p
      else (case at_error (attempt_of p k) of
          Some e \<Rightarrow> fail_plan e k p
        | None \<Rightarrow>
            (let a = attempt_of p k in
             (Inr (Planned k (at_outcome a) (at_head a) (at_body a)),
              count_plan (at_outcome a) (p\<lparr> pl_disposers := pl_disposers p @ [k] \<rparr>)))))"

definition plan_snapshot ::
    "(canonical_commit \<Rightarrow> nat) \<Rightarrow> recovery_hooks \<Rightarrow> (recovery_planner \<Rightarrow> capture_read) \<Rightarrow> snapshot_reason \<Rightarrow> nat \<Rightarrow>
     recovery_planner \<Rightarrow> (recovery_error + recovery_plan) \<times> recovery_planner" where
  "plan_snapshot sizeOf hooks capture reason k pl =
     (let (threw, p) = during_snapshot_capture hooks pl; s = pl_stream p in
      if threw then fail_plan SnapshotFailed k p
      else (case capture p of
          CaptureThrows \<Rightarrow> fail_plan SnapshotFailed k p
        | CaptureRead rev' textOption \<Rightarrow>
            if rev' \<noteq> ls_head s then fail_plan SnapshotFailed k p
            else (case textOption of
                None \<Rightarrow> fail_plan SnapshotFailed k p
              | Some t \<Rightarrow>
                  finish_plan hooks k (establish_cut sizeOf k rev'
                    (settle (OutcomeSnapshot reason) rev'
                      [BodySnapshot \<lparr> sn_map = ls_map s, sn_incarnation = ls_incarnation s, sn_rev = rev',
                         sn_mode = ls_mode s, sn_text = t \<rparr>] k p)))))"

definition plan ::
    "(canonical_commit \<Rightarrow> nat) \<Rightarrow> recovery_hooks \<Rightarrow> (recovery_planner \<Rightarrow> capture_read) \<Rightarrow> recovery_request \<Rightarrow>
     recovery_planner \<Rightarrow> (recovery_error + recovery_plan) \<times> recovery_planner" where
  "plan sizeOf hooks capture request pl =
     (if pl_disposed pl then (Inl RecoveryDisposed, pl)
      else if rq_map request \<noteq> ls_map (pl_stream pl) then reject InvalidTarget pl
      else if (case rq_last request of None \<Rightarrow> False | Some r \<Rightarrow> num_arg_index r = None) then reject InvalidRequest pl
      else (let (threw, p0) = before_cut hooks pl in
        if threw then (Inl PlanningFailed, p0\<lparr> pl_aborted := pl_aborted p0 + 1 \<rparr>)
        else (let k = length (pl_attempts p0); p = open_attempt p0; s = pl_stream p; head = ls_head s;
                  same = (rq_incarnation request = Some (ls_incarnation s));
                  usable = (if same then Option.bind (rq_last request) num_arg_index else None)
          in case usable of
            Some r \<Rightarrow>
              if head < r then reject RevisionAheadOfAuthority (close_attempt AttemptDisposed None k p)
              else if r = head
                then finish_plan hooks k (establish_cut sizeOf k head (settle OutcomeCurrent head [] k p))
              else (case replay_after (IntArg (int r)) (Some (IntArg (int head))) s of
                  Some (c # cs) \<Rightarrow>
                    finish_plan hooks k (establish_cut sizeOf k head
                      (settle OutcomeReplay head (map BodyCommit (c # cs)) k p))
                | _ \<Rightarrow> plan_snapshot sizeOf hooks capture HistoryUnavailable k p)
          | None \<Rightarrow>
              plan_snapshot sizeOf hooks capture
                (if rq_incarnation request = None then NoUsableRevision else IncarnationMismatch) k p)))"

section \<open>Completion and disposal\<close>

definition must_be_active :: "recovery_attempt \<Rightarrow> recovery_error option" where
  "must_be_active a =
     (case at_state a of
        AttemptActive \<Rightarrow> None
      | AttemptAborted \<Rightarrow> (case at_error a of Some e \<Rightarrow> Some e | None \<Rightarrow> Some RecoveryDisposed)
      | AttemptCompleted \<Rightarrow> Some RecoveryCompleted
      | AttemptDisposed \<Rightarrow> Some RecoveryDisposed)"

text \<open>The loop over the body: \<open>None\<close> when every observer returned and the attempt is still active.\<close>

fun observe_body ::
    "(body_item \<Rightarrow> recovery_planner \<Rightarrow> bool \<times> recovery_planner) \<Rightarrow> nat \<Rightarrow> body_item list \<Rightarrow> recovery_planner \<Rightarrow>
     recovery_error option \<times> recovery_planner" where
  "observe_body observer k [] pl = (None, pl)"
| "observe_body observer k (x # xs) pl =
     (let (threw, p) = observer x pl; a = attempt_of p k in
      if threw \<or> must_be_active a \<noteq> None
      then (case (at_state a, at_error a) of
          (AttemptAborted, Some e) \<Rightarrow> (Some e, p)
        | _ \<Rightarrow> (Some ObserverFailed, abort_attempt ObserverFailed k p))
      else observe_body observer k xs p)"

definition complete ::
    "(body_item \<Rightarrow> recovery_planner \<Rightarrow> bool \<times> recovery_planner) \<Rightarrow> nat \<Rightarrow> recovery_planner \<Rightarrow>
     (recovery_error + nat \<times> canonical_commit list) \<times> recovery_planner" where
  "complete observer k pl =
     (case must_be_active (attempt_of pl k) of
        Some e \<Rightarrow> (Inl e, pl)
      | None \<Rightarrow>
          (case observe_body observer k (at_body (attempt_of pl k)) pl of
             (Some e, p) \<Rightarrow> (Inl e, p)
           | (None, p) \<Rightarrow>
               (case must_be_active (attempt_of p k) of
                  Some e \<Rightarrow> (Inl e, p)
                | None \<Rightarrow>
                    (let a = attempt_of p k;
                         through = (if at_tail a = [] then at_head a else k_rev (last (at_tail a)));
                         q = close_attempt AttemptCompleted None k p
                     in (Inr (through, at_tail a), q\<lparr> pl_completed := pl_completed q + 1 \<rparr>)))))"

definition dispose_attempt :: "nat \<Rightarrow> recovery_planner \<Rightarrow> recovery_planner" where
  "dispose_attempt k pl =
     (if at_state (attempt_of pl k) \<noteq> AttemptActive then pl
      else (let p = close_attempt AttemptDisposed None k pl in p\<lparr> pl_dispositions := pl_dispositions p + 1 \<rparr>))"

definition dispose_planner :: "recovery_planner \<Rightarrow> recovery_planner" where
  "dispose_planner pl =
     (if pl_disposed pl then pl
      else (fold dispose_attempt (pl_disposers pl) (pl\<lparr> pl_disposed := True \<rparr>))\<lparr> pl_disposers := [] \<rparr>)"

section \<open>The planner beside its stream\<close>

text \<open>A publication step that calls the listener of an attempt runs \<open>enqueue_tail\<close>.\<close>

definition planner_call :: "(canonical_commit \<Rightarrow> nat) \<Rightarrow> recovery_planner \<Rightarrow> recovery_planner option" where
  "planner_call sizeOf pl =
     (case call_listener (pl_stream pl) of
        None \<Rightarrow> None
      | Some (l, c, s) \<Rightarrow>
          (let p = pl\<lparr> pl_stream := s \<rparr> in
           Some (case l of RecoveryListener k \<Rightarrow> enqueue_tail sizeOf k c p | OutsideListener n \<Rightarrow> p)))"

end
