(* ===== verification/Recovery_Laws.thy ===== *)
theory Recovery_Laws
  imports History_Laws Locus_Recovery
begin

text \<open>
  Recovery on top of the stream: what holds of a planner in every run, with hooks and observers that are
  runs themselves, and the theorem that a completed attempt hands over every commit once.
\<close>

section \<open>Runs of a planner\<close>

text \<open>
  Everything that can happen to a planner and its stream. Hooks and observers are themselves runs.
  Only an attempt that has its cut is known outside the planner.
\<close>

inductive planner_run ::
    "(hson_item \<Rightarrow> js_string option) \<Rightarrow> (canonical_commit \<Rightarrow> nat) \<Rightarrow> recovery_planner \<Rightarrow> recovery_planner \<Rightarrow> bool"
  for encode sizeOf where
  run_done: "planner_run encode sizeOf p p"
| run_stream: "stream_step encode sizeOf (pl_stream p) e s' \<Longrightarrow>
     (\<forall>l c. e \<noteq> Called l c) \<Longrightarrow> (\<forall>k. e \<noteq> Joined (RecoveryListener k) \<and> e \<noteq> Departed (RecoveryListener k)) \<Longrightarrow>
     planner_run encode sizeOf (p\<lparr> pl_stream := s' \<rparr>) q \<Longrightarrow> planner_run encode sizeOf p q"
| run_call: "planner_call sizeOf p = Some p1 \<Longrightarrow> planner_run encode sizeOf p1 q \<Longrightarrow> planner_run encode sizeOf p q"
| run_plan: "plan sizeOf hooks capture request p = (r, p1) \<Longrightarrow>
     (\<And>p'. planner_run encode sizeOf p' (snd (before_cut hooks p'))) \<Longrightarrow>
     (\<And>p'. planner_run encode sizeOf p' (snd (during_snapshot_capture hooks p'))) \<Longrightarrow>
     (\<And>p'. planner_run encode sizeOf p' (snd (after_cut hooks p'))) \<Longrightarrow>
     planner_run encode sizeOf p1 q \<Longrightarrow> planner_run encode sizeOf p q"
| run_complete: "k < length (pl_attempts p) \<Longrightarrow> at_cut (attempt_of p k) \<noteq> None \<Longrightarrow>
     complete observer k p = (r, p1) \<Longrightarrow>
     (\<And>x p'. planner_run encode sizeOf p' (snd (observer x p'))) \<Longrightarrow>
     planner_run encode sizeOf p1 q \<Longrightarrow> planner_run encode sizeOf p q"
| run_dispose: "k < length (pl_attempts p) \<Longrightarrow> at_cut (attempt_of p k) \<noteq> None \<Longrightarrow>
     planner_run encode sizeOf (dispose_attempt k p) q \<Longrightarrow> planner_run encode sizeOf p q"
| run_dispose_planner: "planner_run encode sizeOf (dispose_planner p) q \<Longrightarrow> planner_run encode sizeOf p q"

section \<open>What holds of a planner\<close>

abbreviation after_rev :: "nat \<Rightarrow> canonical_commit list \<Rightarrow> canonical_commit list" where
  "after_rev n cs \<equiv> filter (\<lambda>c. n < k_rev c) cs"

definition queue_sound ::
    "(canonical_commit \<Rightarrow> nat) \<Rightarrow> canonical_commit list \<Rightarrow> locus_stream \<Rightarrow> nat \<Rightarrow> nat \<Rightarrow> nat \<Rightarrow> recovery_attempt \<Rightarrow> bool" where
  "queue_sound sizeOf log s mc mb k a \<longleftrightarrow>
     (case at_cut a of
        None \<Rightarrow> at_tail a = [] \<and> at_tail_bytes a = 0 \<and> (\<forall>c \<in> set (at_preliminary a). k_rev c \<le> ls_head s)
      | Some n \<Rightarrow>
          n = at_head a \<and> n \<le> ls_head s \<and> (\<exists>b \<le> n. chain b log (ls_head s)) \<and> at_preliminary a = [] \<and>
          at_tail a @ after_rev n (stream_due (RecoveryListener k) s) = after_rev n log \<and>
          at_tail_bytes a = sum_list (map sizeOf (at_tail a)) \<and> length (at_tail a) \<le> mc \<and> at_tail_bytes a \<le> mb)"

definition attempt_sound ::
    "(canonical_commit \<Rightarrow> nat) \<Rightarrow> canonical_commit list \<Rightarrow> locus_stream \<Rightarrow> nat \<Rightarrow> nat \<Rightarrow> nat \<Rightarrow> recovery_attempt \<Rightarrow> bool" where
  "attempt_sound sizeOf log s mc mb k a \<longleftrightarrow>
     at_released a = (at_state a \<noteq> AttemptActive) \<and>
     (RecoveryListener k \<in> set (ls_listeners s)) = (at_state a = AttemptActive) \<and>
     (at_error a \<noteq> None) = (at_state a = AttemptAborted) \<and> at_error a \<noteq> Some TailGap \<and>
     (if at_state a = AttemptActive then queue_sound sizeOf log s mc mb k a
      else at_tail a = [] \<and> at_preliminary a = [] \<and> at_tail_bytes a = 0)"

definition listeners_known :: "locus_stream \<Rightarrow> nat \<Rightarrow> bool" where
  "listeners_known s n \<longleftrightarrow>
     (\<forall>k. RecoveryListener k \<in> set (ls_listeners s) \<longrightarrow> k < n) \<and>
     (\<forall>p k. ls_publishing s = Some p \<and> RecoveryListener k \<in> set (pub_waiting p) \<longrightarrow> k < n)"

definition attempt_active :: "recovery_attempt \<Rightarrow> bool" where
  "attempt_active a \<longleftrightarrow> at_state a = AttemptActive"

text \<open>All that holds of a planner, the attempt \<open>x\<close> excepted.\<close>

definition planner_but ::
    "(canonical_commit \<Rightarrow> nat) \<Rightarrow> nat option \<Rightarrow> canonical_commit list \<Rightarrow> recovery_planner \<Rightarrow> bool" where
  "planner_but sizeOf x log pl \<longleftrightarrow>
     stream_ok sizeOf log (pl_stream pl) \<and> listeners_known (pl_stream pl) (length (pl_attempts pl)) \<and>
     pl_active pl = length (filter attempt_active (pl_attempts pl)) \<and>
     (\<forall>k \<in> set (pl_disposers pl). k < length (pl_attempts pl) \<and> at_cut (attempt_of pl k) \<noteq> None) \<and>
     (\<forall>k < length (pl_attempts pl). Some k \<noteq> x \<longrightarrow>
        attempt_sound sizeOf log (pl_stream pl) (pl_max_commits pl) (pl_max_bytes pl) k (attempt_of pl k))"

abbreviation planner_ok :: "(canonical_commit \<Rightarrow> nat) \<Rightarrow> canonical_commit list \<Rightarrow> recovery_planner \<Rightarrow> bool" where
  "planner_ok sizeOf \<equiv> planner_but sizeOf None"

lemma planner_but_weaken: "planner_ok sizeOf log pl \<Longrightarrow> planner_but sizeOf x log pl"
  by (simp add: planner_but_def)

lemma planner_attempt:
  "planner_ok sizeOf log pl \<Longrightarrow> k < length (pl_attempts pl) \<Longrightarrow>
     attempt_sound sizeOf log (pl_stream pl) (pl_max_commits pl) (pl_max_bytes pl) k (attempt_of pl k)"
  by (simp add: planner_but_def)

lemma planner_restore:
  "planner_but sizeOf (Some k) log pl \<Longrightarrow>
     (k < length (pl_attempts pl) \<Longrightarrow>
        attempt_sound sizeOf log (pl_stream pl) (pl_max_commits pl) (pl_max_bytes pl) k (attempt_of pl k)) \<Longrightarrow>
     planner_ok sizeOf log pl"
  by (auto simp: planner_but_def)

lemma attempt_sound_cong:
  assumes "(RecoveryListener k \<in> set (ls_listeners s')) = (RecoveryListener k \<in> set (ls_listeners s))"
    and "stream_due (RecoveryListener k) s' = stream_due (RecoveryListener k) s" and "ls_head s' = ls_head s"
  shows "attempt_sound sizeOf log s' mc mb k a = attempt_sound sizeOf log s mc mb k a"
  using assms by (simp add: attempt_sound_def queue_sound_def cong: option.case_cong)

text \<open>How a planner may develop: the first \<open>n\<close> attempts keep their plan, and those that ended stay ended.\<close>

definition same_plan :: "recovery_attempt \<Rightarrow> recovery_attempt \<Rightarrow> bool" where
  "same_plan a b \<longleftrightarrow> at_cut b = at_cut a \<and> at_head b = at_head a \<and> at_outcome b = at_outcome a \<and> at_body b = at_body a \<and>
     (at_cut a = None \<or> at_state a \<noteq> AttemptActive \<longrightarrow> at_state b = at_state a)"

definition evolves :: "nat \<Rightarrow> recovery_planner \<Rightarrow> recovery_planner \<Rightarrow> bool" where
  "evolves n p q \<longleftrightarrow> n \<le> length (pl_attempts p) \<and> length (pl_attempts p) \<le> length (pl_attempts q) \<and>
     pl_max_commits q = pl_max_commits p \<and> pl_max_bytes q = pl_max_bytes p \<and>
     ls_map (pl_stream q) = ls_map (pl_stream p) \<and> ls_incarnation (pl_stream q) = ls_incarnation (pl_stream p) \<and>
     (\<forall>k < n. same_plan (attempt_of p k) (attempt_of q k))"

lemma same_plan_refl [simp]: "same_plan a a"
  by (simp add: same_plan_def)

lemma same_plan_trans: "same_plan a b \<Longrightarrow> same_plan b c \<Longrightarrow> same_plan a c"
  by (auto simp: same_plan_def)

lemma evolves_refl: "n \<le> length (pl_attempts p) \<Longrightarrow> evolves n p p"
  by (simp add: evolves_def)

lemma evolves_trans: "evolves n p q \<Longrightarrow> evolves m q r \<Longrightarrow> n \<le> m \<Longrightarrow> evolves n p r"
  by (auto simp: evolves_def intro: same_plan_trans)

definition advances :: "(canonical_commit \<Rightarrow> nat) \<Rightarrow> recovery_planner \<Rightarrow> recovery_planner \<Rightarrow> bool" where
  "advances sizeOf p q \<longleftrightarrow>
     (\<forall>log. planner_ok sizeOf log p \<longrightarrow> (\<exists>more. planner_ok sizeOf (log @ more) q) \<and> evolves (length (pl_attempts p)) p q)"

lemma advances_refl: "advances sizeOf p p"
  by (auto simp: advances_def evolves_refl intro: exI [of _ "[]"])

lemma advances_same:
  "(\<And>log. planner_ok sizeOf log p \<Longrightarrow> planner_ok sizeOf log q \<and> evolves (length (pl_attempts p)) p q) \<Longrightarrow> advances sizeOf p q"
  unfolding advances_def by (metis append_Nil2)

lemma advances_trans: "advances sizeOf p q \<Longrightarrow> advances sizeOf q r \<Longrightarrow> advances sizeOf p r"
  unfolding advances_def
  by (metis append.assoc evolves_def evolves_trans)

lemma advances_step: "planner_ok sizeOf log p \<Longrightarrow> advances sizeOf p q \<Longrightarrow>
    \<exists>more. planner_ok sizeOf (log @ more) q \<and> evolves (length (pl_attempts p)) p q"
  by (auto simp: advances_def)

section \<open>Ending an attempt\<close>

lemma filter_update_length:
  "k < length xs \<Longrightarrow> P (xs ! k) \<Longrightarrow> \<not> P y \<Longrightarrow> length (filter P (xs[k := y])) = length (filter P xs) - 1"
proof (induction xs arbitrary: k)
  case (Cons x xs)
  show ?case
  proof (cases k)
    case (Suc j)
    with Cons have "filter P xs \<noteq> []" by (auto simp: filter_empty_conv)
    then have "0 < length (filter P xs)" by simp
    with Suc Cons.IH [of j] Cons.prems show ?thesis by simp
  qed (use Cons.prems in simp)
qed simp

lemma filter_update_same:
  "k < length xs \<Longrightarrow> P (xs ! k) = P y \<Longrightarrow> length (filter P (xs[k := y])) = length (filter P xs)"
proof (induction xs arbitrary: k)
  case (Cons x xs)
  then show ?case by (cases k) auto
qed simp

lemma close_attempt_eq:
  assumes "k < length (pl_attempts pl)" and "\<not> at_released (attempt_of pl k)"
  shows "close_attempt st e k pl = pl\<lparr> pl_stream := off_commit (RecoveryListener k) (pl_stream pl),
     pl_attempts := (pl_attempts pl)[k := (attempt_of pl k)\<lparr> at_state := st, at_error := e, at_preliminary := [],
       at_tail := [], at_tail_bytes := 0, at_released := True \<rparr>],
     pl_active := pl_active pl - 1, pl_disposers := filter (\<lambda>x. x \<noteq> k) (pl_disposers pl) \<rparr>"
  using assms
  by (simp add: close_attempt_def release_active_attempt_def clear_queues_def stop_subscription_def put_attempt_def)

lemma off_commit_other:
  "k \<noteq> j \<Longrightarrow> attempt_sound sizeOf log (off_commit (RecoveryListener k) s) mc mb j a = attempt_sound sizeOf log s mc mb j a"
  by (rule attempt_sound_cong) (simp_all add: off_commit_def stream_due_def split: option.splits)

lemma off_commit_fields [simp]:
  "ls_head (off_commit l s) = ls_head s" "ls_publishing (off_commit l s) = ls_publishing s"
  "ls_map (off_commit l s) = ls_map s" "ls_incarnation (off_commit l s) = ls_incarnation s"
  "set (ls_listeners (off_commit l s)) = set (ls_listeners s) - {l}"
  by (auto simp: off_commit_def)

lemma ended_sound:
  assumes "st \<noteq> AttemptActive" "(e \<noteq> None) = (st = AttemptAborted)" "e \<noteq> Some TailGap"
  shows "attempt_sound sizeOf log (off_commit (RecoveryListener k) s) mc mb k
    (a\<lparr> at_state := st, at_error := e, at_preliminary := [], at_tail := [], at_tail_bytes := 0, at_released := True \<rparr>)"
  using assms by (simp add: attempt_sound_def)

lemma planner_update:
  assumes but: "planner_but sizeOf (Some k) log pl" and k: "k < length (pl_attempts pl)"
    and s: "stream_ok sizeOf log s" "ls_publishing s = ls_publishing (pl_stream pl)"
      "set (ls_listeners s) \<subseteq> set (ls_listeners (pl_stream pl))"
    and others: "\<And>j b. j \<noteq> k \<Longrightarrow> attempt_sound sizeOf log s (pl_max_commits pl) (pl_max_bytes pl) j b =
      attempt_sound sizeOf log (pl_stream pl) (pl_max_commits pl) (pl_max_bytes pl) j b"
    and this': "attempt_sound sizeOf log s (pl_max_commits pl) (pl_max_bytes pl) k a"
    and n: "n = length (filter attempt_active ((pl_attempts pl)[k := a]))"
    and d: "\<And>j. j \<in> set ds \<Longrightarrow> j \<in> set (pl_disposers pl) \<and> j \<noteq> k \<or> j = k \<and> at_cut a \<noteq> None"
  shows "planner_ok sizeOf log (pl\<lparr> pl_stream := s, pl_attempts := (pl_attempts pl)[k := a], pl_active := n, pl_disposers := ds \<rparr>)"
    (is "planner_ok _ _ ?q")
proof -
  have "listeners_known s (length (pl_attempts pl))"
    using but s(2,3) by (auto simp: planner_but_def listeners_known_def)
  moreover have "j < length (pl_attempts pl) \<and> at_cut ((pl_attempts pl)[k := a] ! j) \<noteq> None" if "j \<in> set ds" for j
    using d [OF that] but k by (auto simp: planner_but_def nth_list_update)
  moreover have "attempt_sound sizeOf log s (pl_max_commits pl) (pl_max_bytes pl) j ((pl_attempts pl)[k := a] ! j)"
    if "j < length (pl_attempts pl)" for j
  proof (cases "j = k")
    case True
    with this' k show ?thesis by simp
  next
    case False
    with but that others [OF False] show ?thesis by (simp add: planner_but_def)
  qed
  ultimately show ?thesis using s(1) n by (simp add: planner_but_def)
qed

lemma close_ok:
  assumes but: "planner_but sizeOf (Some k) log pl" and k: "k < length (pl_attempts pl)"
    and a: "\<not> at_released (attempt_of pl k)" "at_state (attempt_of pl k) = AttemptActive"
    and st: "st \<noteq> AttemptActive" "(e \<noteq> None) = (st = AttemptAborted)" "e \<noteq> Some TailGap"
  shows "planner_ok sizeOf log (close_attempt st e k pl)"
proof -
  have "stream_ok sizeOf log (off_commit (RecoveryListener k) (pl_stream pl))"
    using but leave_stream by (simp add: planner_but_def)
  moreover have "pl_active pl - 1 = length (filter attempt_active ((pl_attempts pl)[k := (attempt_of pl k)\<lparr> at_state := st,
      at_error := e, at_preliminary := [], at_tail := [], at_tail_bytes := 0, at_released := True \<rparr>]))"
    using but st(1) a(2) by (simp add: filter_update_length [OF k] attempt_active_def planner_but_def)
  ultimately show ?thesis
    unfolding close_attempt_eq [OF k a(1)]
    by (intro planner_update [OF but k]) (auto simp: off_commit_other ended_sound [OF st])
qed

lemma close_evolves:
  assumes "k < length (pl_attempts pl)" "\<not> at_released (attempt_of pl k)" "at_state (attempt_of pl k) = AttemptActive"
    and "n \<le> length (pl_attempts pl)" "n \<le> k \<or> at_cut (attempt_of pl k) \<noteq> None"
  shows "evolves n pl (close_attempt st e k pl)"
  using assms by (auto simp: close_attempt_eq evolves_def same_plan_def nth_list_update)

lemma planner_counters [simp]:
  "planner_but sizeOf x log (p\<lparr> pl_aborted := i \<rparr>) = planner_but sizeOf x log p"
  "planner_but sizeOf x log (p\<lparr> pl_overflow := i \<rparr>) = planner_but sizeOf x log p"
  "planner_but sizeOf x log (p\<lparr> pl_reject := i \<rparr>) = planner_but sizeOf x log p"
  "planner_but sizeOf x log (p\<lparr> pl_current := i \<rparr>) = planner_but sizeOf x log p"
  "planner_but sizeOf x log (p\<lparr> pl_replay := i \<rparr>) = planner_but sizeOf x log p"
  "planner_but sizeOf x log (p\<lparr> pl_snapshot := i \<rparr>) = planner_but sizeOf x log p"
  "planner_but sizeOf x log (p\<lparr> pl_completed := i \<rparr>) = planner_but sizeOf x log p"
  "planner_but sizeOf x log (p\<lparr> pl_dispositions := i \<rparr>) = planner_but sizeOf x log p"
  "planner_but sizeOf x log (p\<lparr> pl_disposed := b \<rparr>) = planner_but sizeOf x log p"
  by (simp_all add: planner_but_def)

lemma evolves_counters [simp]:
  "evolves n p (q\<lparr> pl_aborted := i \<rparr>) = evolves n p q" "evolves n p (q\<lparr> pl_overflow := i \<rparr>) = evolves n p q"
  "evolves n p (q\<lparr> pl_reject := i \<rparr>) = evolves n p q" "evolves n p (q\<lparr> pl_current := i \<rparr>) = evolves n p q"
  "evolves n p (q\<lparr> pl_replay := i \<rparr>) = evolves n p q" "evolves n p (q\<lparr> pl_snapshot := i \<rparr>) = evolves n p q"
  "evolves n p (q\<lparr> pl_completed := i \<rparr>) = evolves n p q" "evolves n p (q\<lparr> pl_dispositions := i \<rparr>) = evolves n p q"
  "evolves n p (q\<lparr> pl_disposed := b \<rparr>) = evolves n p q" "evolves n p (q\<lparr> pl_disposers := ds \<rparr>) = evolves n p q"
  by (simp_all add: evolves_def)

lemma evolves_from [simp]: "evolves n (p\<lparr> pl_disposed := b \<rparr>) q = evolves n p q"
  by (simp add: evolves_def)

lemma planner_clear: "planner_but sizeOf x log p \<Longrightarrow> planner_but sizeOf x log (p\<lparr> pl_disposers := [] \<rparr>)"
  by (simp add: planner_but_def)

lemma active_not_released:
  "planner_ok sizeOf log pl \<Longrightarrow> k < length (pl_attempts pl) \<Longrightarrow> at_state (attempt_of pl k) = AttemptActive \<Longrightarrow>
     \<not> at_released (attempt_of pl k)"
  by (drule (1) planner_attempt) (auto simp: attempt_sound_def)

lemma abort_ok:
  assumes "planner_ok sizeOf log pl" "k < length (pl_attempts pl)" "e \<noteq> TailGap"
  shows "planner_ok sizeOf log (abort_attempt e k pl)"
    and "n \<le> length (pl_attempts pl) \<Longrightarrow> n \<le> k \<or> at_cut (attempt_of pl k) \<noteq> None \<Longrightarrow> evolves n pl (abort_attempt e k pl)"
  using assms close_ok [OF planner_but_weaken [OF assms(1)] assms(2), of AttemptAborted "Some e"]
    close_evolves [of k pl n AttemptAborted "Some e"] active_not_released [OF assms(1,2)]
  by (simp_all add: abort_attempt_def Let_def evolves_refl)

lemma dispose_ok:
  assumes "planner_ok sizeOf log pl" "k < length (pl_attempts pl)"
  shows "planner_ok sizeOf log (dispose_attempt k pl)"
    and "n \<le> length (pl_attempts pl) \<Longrightarrow> at_cut (attempt_of pl k) \<noteq> None \<Longrightarrow> evolves n pl (dispose_attempt k pl)"
  using assms close_ok [OF planner_but_weaken [OF assms(1)] assms(2), of AttemptDisposed None]
    close_evolves [of k pl n AttemptDisposed None] active_not_released [OF assms(1,2)]
  by (simp_all add: dispose_attempt_def Let_def evolves_refl)

lemma evolves_fields:
  "evolves n p q \<Longrightarrow> length (pl_attempts p) \<le> length (pl_attempts q)"
  "evolves n p q \<Longrightarrow> k < n \<Longrightarrow> at_cut (attempt_of q k) = at_cut (attempt_of p k)"
  by (auto simp: evolves_def same_plan_def)

lemma dispose_all_ok:
  "planner_ok sizeOf log pl \<Longrightarrow> n \<le> length (pl_attempts pl) \<Longrightarrow>
     \<forall>k \<in> set ks. k < n \<and> at_cut (attempt_of pl k) \<noteq> None \<Longrightarrow>
     planner_ok sizeOf log (fold dispose_attempt ks pl) \<and> evolves n pl (fold dispose_attempt ks pl)"
proof (induction ks arbitrary: pl)
  case (Cons k ks)
  let ?p = "dispose_attempt k pl"
  from Cons.prems have k: "k < length (pl_attempts pl)" "at_cut (attempt_of pl k) \<noteq> None" by auto
  note ok = dispose_ok(1) [OF Cons.prems(1) k(1)]
  note ev = dispose_ok(2) [OF Cons.prems(1) k(1) Cons.prems(2) k(2)]
  have "\<forall>j \<in> set ks. j < n \<and> at_cut (attempt_of ?p j) \<noteq> None"
    using Cons.prems(3) evolves_fields(2) [OF ev] by auto
  moreover have "n \<le> length (pl_attempts ?p)" using evolves_fields(1) [OF ev] Cons.prems(2) by simp
  ultimately have "planner_ok sizeOf log (fold dispose_attempt ks ?p) \<and> evolves n ?p (fold dispose_attempt ks ?p)"
    by (intro Cons.IH ok)
  with ev show ?case by (auto intro: evolves_trans)
qed (simp add: evolves_refl)

lemma dispose_planner_advances: "advances sizeOf pl (dispose_planner pl)"
proof (cases "pl_disposed pl")
  case False
  show ?thesis
  proof (rule advances_same)
    fix log assume ok: "planner_ok sizeOf log pl"
    let ?q = "fold dispose_attempt (pl_disposers pl) (pl\<lparr> pl_disposed := True \<rparr>)"
    have "planner_ok sizeOf log ?q \<and> evolves (length (pl_attempts pl)) (pl\<lparr> pl_disposed := True \<rparr>) ?q"
      using ok by (intro dispose_all_ok) (simp_all add: planner_but_def)
    with False show "planner_ok sizeOf log (dispose_planner pl) \<and> evolves (length (pl_attempts pl)) pl (dispose_planner pl)"
      by (simp add: planner_clear dispose_planner_def)
  qed
qed (simp add: dispose_planner_def advances_refl)

section \<open>Steps of the stream\<close>

lemma publish_next_fields [simp]:
  "ls_head (publish_next s) = ls_head s" "ls_listeners (publish_next s) = ls_listeners s"
  "ls_map (publish_next s) = ls_map s" "ls_incarnation (publish_next s) = ls_incarnation s"
  by (simp_all add: publish_next_def split: list.splits)

lemma accept_stream_fields:
  assumes "stream_ok sizeOf log s" "k_prev c = ls_head s" "k_rev c = Suc (ls_head s)" "accept_canonical sizeOf c s = Some s'"
  shows "ls_map s' = ls_map s" "ls_incarnation s' = ls_incarnation s"
    "ls_publishing s' = ls_publishing s \<or> (\<exists>p. ls_publishing s' = Some p \<and> pub_waiting p = ls_listeners s)"
proof -
  from assms(4) obtain t where t: "append_history sizeOf c s = Some t"
    and s': "s' = drain_publication_queue (t\<lparr> ls_head := k_rev c, ls_queue := ls_queue t @ [c] \<rparr>)"
    by (auto simp: accept_canonical_def)
  have h: "history_ok sizeOf s" using assms(1) by (simp add: stream_ok_def)
  note f = history_ok_append [OF h assms(2,3) t]
  show "ls_map s' = ls_map s" "ls_incarnation s' = ls_incarnation s"
    "ls_publishing s' = ls_publishing s \<or> (\<exists>p. ls_publishing s' = Some p \<and> pub_waiting p = ls_listeners s)"
    by (simp_all add: s' drain_publication_queue_def f publish_next_def split: list.splits)
qed

lemma stream_step_fields:
  assumes ok: "stream_ok sizeOf log s" and st: "stream_step encode sizeOf s e s'"
  shows "ls_map s' = ls_map s \<and> ls_incarnation s' = ls_incarnation s \<and>
    ls_head s' = ls_head s + length (accepted [e]) \<and> (\<forall>c. e = Accepted c \<longrightarrow> k_prev c = ls_head s \<and> k_rev c = ls_head s') \<and>
    (\<forall>n. listeners_known s n \<longrightarrow> (\<forall>k. e \<noteq> Joined (RecoveryListener k)) \<longrightarrow> listeners_known s' n)"
  using st
proof cases
  case (step_ingest h commit c)
  note c = ingest_accepts [OF step_ingest(3,4)]
  from accept_stream_fields [OF ok c] accept_stream(2,3) [OF ok c] c step_ingest(1) show ?thesis
    by (auto simp: listeners_known_def)
next
  case (step_call l c)
  then show ?thesis by (auto simp: call_listener_Some listeners_known_def)
next
  case (step_return threw)
  then show ?thesis by (auto simp: return_listener_Some listeners_known_def)
next
  case step_finish
  then show ?thesis by (auto simp: finish_publication_Some listeners_known_def publish_next_def split: list.splits)
next
  case (step_replay h commit)
  then show ?thesis by (simp add: ingest_def)
next
  case (step_join l)
  then show ?thesis by (cases l) (auto simp: on_commit_def listeners_known_def)
next
  case (step_leave l)
  then show ?thesis by (auto simp: off_commit_def listeners_known_def)
qed simp

lemma stream_due_logged:
  assumes "stream_ok sizeOf log s" and "c \<in> set (stream_due l s)"
  shows "c \<in> set log" "k_rev c \<le> ls_head s"
proof -
  show "c \<in> set log"
  proof (cases "ls_publishing s")
    case None
    with assms show ?thesis by (simp add: stream_ok_def publication_ok_def stream_due_def split: if_splits)
  next
    case (Some p)
    with assms(1) have "suffix (pub_commit p # ls_queue s) log" by (simp add: stream_ok_def publication_ok_def)
    then have "set (pub_commit p # ls_queue s) \<subseteq> set log" by (auto simp: suffix_def)
    with Some assms(2) show ?thesis by (auto simp: stream_due_def split: if_splits)
  qed
  with stream_feed.sound_chain [OF assms(1)] show "k_rev c \<le> ls_head s" by (auto dest: chain_revs)
qed

lemma queue_sound_accept:
  assumes "queue_sound sizeOf log s mc mb k a" and "ls_head s' = Suc (ls_head s)" "k_prev c = ls_head s" "k_rev c = ls_head s'"
    and "stream_due (RecoveryListener k) s' = stream_due (RecoveryListener k) s @ [c]"
  shows "queue_sound sizeOf (log @ [c]) s' mc mb k a"
  using assms by (auto simp: queue_sound_def split: option.splits intro: chain_snoc)

lemma stream_step_sound:
  assumes ok: "stream_ok sizeOf log s" and st: "stream_step encode sizeOf s e s'"
    and e: "\<forall>l c. e \<noteq> Called l c" "\<forall>k. e \<noteq> Joined (RecoveryListener k) \<and> e \<noteq> Departed (RecoveryListener k)"
    and a: "attempt_sound sizeOf log s mc mb k a"
  shows "attempt_sound sizeOf (log @ accepted [e]) s' mc mb k a"
proof (cases e)
  case (Accepted c)
  note fields = stream_step_fields [OF ok st]
  from stream_feed.accepted_law [OF ok, of encode c s' "RecoveryListener k"] st Accepted
  have l: "(RecoveryListener k \<in> set (ls_listeners s')) = (RecoveryListener k \<in> set (ls_listeners s))"
    "RecoveryListener k \<in> set (ls_listeners s) \<Longrightarrow>
       stream_due (RecoveryListener k) s' = stream_due (RecoveryListener k) s @ [c]" by auto
  have "queue_sound sizeOf (log @ [c]) s' mc mb k a" if "at_state a = AttemptActive"
    using that a fields Accepted l by (intro queue_sound_accept) (auto simp: attempt_sound_def)
  with a l(1) Accepted show ?thesis by (simp add: attempt_sound_def)
next
  case (Called l c)
  with e show ?thesis by blast
next
  case (Joined m)
  with e stream_feed.joined_law [OF ok, of encode m s' "RecoveryListener k"] st stream_step_fields [OF ok st] a
  show ?thesis by (subst attempt_sound_cong [of k s' s]) auto
next
  case (Departed m)
  with e stream_feed.departed_law [OF ok, of encode m s' "RecoveryListener k"] st stream_step_fields [OF ok st] a
  show ?thesis by (subst attempt_sound_cong [of k s' s]) auto
next
  case Unseen
  with stream_feed.unseen_law [OF ok, of encode s' "RecoveryListener k"] st stream_step_fields [OF ok st] a
  show ?thesis by (subst attempt_sound_cong [of k s' s]) auto
qed

lemma stream_advances:
  assumes st: "stream_step encode sizeOf (pl_stream p) e s'"
    and e: "\<forall>l c. e \<noteq> Called l c" "\<forall>k. e \<noteq> Joined (RecoveryListener k) \<and> e \<noteq> Departed (RecoveryListener k)"
  shows "advances sizeOf p (p\<lparr> pl_stream := s' \<rparr>)"
  unfolding advances_def
proof (intro allI impI)
  fix log assume ok: "planner_ok sizeOf log p"
  then have s: "stream_ok sizeOf log (pl_stream p)" by (simp add: planner_but_def)
  note f = stream_step_fields [OF s st]
  have "planner_ok sizeOf (log @ accepted [e]) (p\<lparr> pl_stream := s' \<rparr>)"
    using ok f e stream_feed.sound_step [OF s st] stream_step_sound [OF s st e] by (auto simp: planner_but_def)
  then show "(\<exists>more. planner_ok sizeOf (log @ more) (p\<lparr> pl_stream := s' \<rparr>)) \<and>
      evolves (length (pl_attempts p)) p (p\<lparr> pl_stream := s' \<rparr>)"
    using f by (auto simp: evolves_def)
qed

section \<open>Calls of an attempt's listener\<close>

lemma put_attempt_ok:
  assumes but: "planner_but sizeOf (Some k) log pl" and k: "k < length (pl_attempts pl)"
    and a: "attempt_sound sizeOf log (pl_stream pl) (pl_max_commits pl) (pl_max_bytes pl) k a"
      "at_state a = at_state (attempt_of pl k)" "k \<in> set (pl_disposers pl) \<Longrightarrow> at_cut a \<noteq> None"
  shows "planner_ok sizeOf log (put_attempt k a pl)"
proof -
  have n: "pl_active pl = length (filter attempt_active ((pl_attempts pl)[k := a]))"
    using but filter_update_same [OF k, of attempt_active a] a(2) by (simp add: planner_but_def attempt_active_def)
  have s: "stream_ok sizeOf log (pl_stream pl)" using but by (simp add: planner_but_def)
  from planner_update [OF but k s refl subset_refl _ a(1) n, of "pl_disposers pl"] a(3)
  show ?thesis by (auto simp: put_attempt_def)
qed

lemma put_attempt_evolves:
  assumes "n \<le> length (pl_attempts pl)" and "k < n \<Longrightarrow> same_plan (attempt_of pl k) a"
  shows "evolves n pl (put_attempt k a pl)"
proof -
  have "same_plan (attempt_of pl j) ((pl_attempts pl)[k := a] ! j)" if "j < n" for j
    using assms that by (cases "j = k") simp_all
  with assms(1) show ?thesis by (simp add: put_attempt_def evolves_def)
qed

lemma put_attempt_but:
  assumes "planner_but sizeOf (Some k) log pl" and "k < length (pl_attempts pl)"
    and "at_state a = at_state (attempt_of pl k)" "k \<in> set (pl_disposers pl) \<Longrightarrow> at_cut a \<noteq> None"
  shows "planner_but sizeOf (Some k) log (put_attempt k a pl)"
  using assms filter_update_same [OF assms(2), of attempt_active a]
  by (auto simp: planner_but_def put_attempt_def attempt_active_def nth_list_update)

text \<open>The first commit due is the one that follows the queue: an attempt never sees a gap.\<close>

lemma after_rev_chain:
  assumes "chain b log e" and "b \<le> n" "n \<le> e"
  shows "chain n (after_rev n log) e"
proof -
  have "filter (\<lambda>c. n < k_rev c \<and> k_rev c \<le> e) log = after_rev n log"
    using chain_revs [OF assms(1)] by (intro filter_cong) auto
  with chain_filter [OF assms(1,2,3) order_refl] show ?thesis by simp
qed

lemma chain_last: "chain n cs e \<Longrightarrow> e = (if cs = [] then n else k_rev (last cs))"
  using chain_nth [of n cs e "length cs - 1"] chain_end [of n cs e] by (cases "cs = []") (auto simp: last_conv_nth)

lemma queue_follows:
  assumes "chain b log e" "b \<le> n" "n \<le> e" and "ts @ c # ds = after_rev n log"
  shows "k_prev c = (if ts = [] then n else k_rev (last ts))"
proof -
  from after_rev_chain [OF assms(1-3)] have "chain n (ts @ c # ds) e" by (simp add: assms(4))
  then have "chain n ts (n + length ts)" "k_prev c = n + length ts" by (auto simp: chain_append)
  with chain_last [of n ts "n + length ts"] show ?thesis by simp
qed

lemma enqueue_ok:
  assumes but: "planner_but sizeOf (Some k) log pl" and k: "k < length (pl_attempts pl)"
    and before: "attempt_sound sizeOf log s0 (pl_max_commits pl) (pl_max_bytes pl) k (attempt_of pl k)"
    and s0: "(RecoveryListener k \<in> set (ls_listeners (pl_stream pl))) = (RecoveryListener k \<in> set (ls_listeners s0))"
      "ls_head (pl_stream pl) = ls_head s0" "stream_due (RecoveryListener k) s0 = c # stream_due (RecoveryListener k) (pl_stream pl)"
    and c: "k_rev c \<le> ls_head s0"
  shows "planner_ok sizeOf log (enqueue_tail sizeOf k c pl) \<and>
    evolves (length (pl_attempts pl)) pl (enqueue_tail sizeOf k c pl)"
proof -
  let ?a = "attempt_of pl k" and ?s = "pl_stream pl"
  show ?thesis
  proof (cases "at_state ?a = AttemptActive")
    case False
    with before s0(1) have "attempt_sound sizeOf log ?s (pl_max_commits pl) (pl_max_bytes pl) k ?a"
      by (simp add: attempt_sound_def)
    with planner_restore [OF but] False show ?thesis by (simp add: enqueue_tail_def evolves_refl)
  next
    case act: True
    with before have q: "queue_sound sizeOf log s0 (pl_max_commits pl) (pl_max_bytes pl) k ?a"
      and nr: "\<not> at_released ?a" by (auto simp: attempt_sound_def)
    have sound: "attempt_sound sizeOf log ?s (pl_max_commits pl) (pl_max_bytes pl) k a"
      if "queue_sound sizeOf log ?s (pl_max_commits pl) (pl_max_bytes pl) k a" "at_state a = AttemptActive"
        "at_released a = at_released ?a" "at_error a = at_error ?a" for a
      using that before act s0(1) by (simp add: attempt_sound_def)
    have disp: "k \<in> set (pl_disposers pl) \<Longrightarrow> at_cut ?a \<noteq> None" using but by (auto simp: planner_but_def)
    show ?thesis
    proof (cases "at_cut ?a")
      case None
      let ?b = "?a\<lparr> at_preliminary := at_preliminary ?a @ [c] \<rparr>"
      from q None c s0(2) have "queue_sound sizeOf log ?s (pl_max_commits pl) (pl_max_bytes pl) k ?b"
        by (auto simp: queue_sound_def)
      with act have "attempt_sound sizeOf log ?s (pl_max_commits pl) (pl_max_bytes pl) k ?b" by (intro sound) simp_all
      from put_attempt_ok [OF but k this] put_attempt_evolves [of "length (pl_attempts pl)" pl k ?b] disp None act
      show ?thesis by (auto simp: enqueue_tail_def Let_def same_plan_def)
    next
      case (Some n)
      with q obtain b where n: "n = at_head ?a" "n \<le> ls_head s0" "chain b log (ls_head s0)" "b \<le> n" "at_preliminary ?a = []"
        and t: "at_tail ?a @ after_rev n (c # stream_due (RecoveryListener k) ?s) = after_rev n log"
        and m: "at_tail_bytes ?a = sum_list (map sizeOf (at_tail ?a))" "length (at_tail ?a) \<le> pl_max_commits pl"
          "at_tail_bytes ?a \<le> pl_max_bytes pl"
        by (auto simp: queue_sound_def s0(3))
      show ?thesis
      proof (cases "k_rev c \<le> n")
        case True
        with t n m s0(2) Some have "queue_sound sizeOf log ?s (pl_max_commits pl) (pl_max_bytes pl) k ?a"
          by (auto simp: queue_sound_def)
        with sound act have "planner_ok sizeOf log pl" by (intro planner_restore [OF but]) auto
        with Some True act show ?thesis by (simp add: enqueue_tail_def Let_def evolves_refl)
      next
        case False
        with t have t': "at_tail ?a @ c # after_rev n (stream_due (RecoveryListener k) ?s) = after_rev n log" by simp
        let ?b = "?a\<lparr> at_tail := at_tail ?a @ [c], at_tail_bytes := at_tail_bytes ?a + sizeOf c \<rparr>"
        let ?p = "put_attempt k ?b pl"
        from queue_follows [OF n(3,4,2) t'] have no_gap: "k_prev c = (if at_tail ?a = [] then n else k_rev (last (at_tail ?a)))" .
        have len: "length (pl_attempts ?p) = length (pl_attempts pl)" and pk: "attempt_of ?p k = ?b"
          using k by (simp_all add: put_attempt_def)
        have ev: "evolves (length (pl_attempts pl)) pl ?p" by (intro put_attempt_evolves) (simp_all add: same_plan_def Some)
        have eq: "enqueue_tail sizeOf k c pl =
            (if pl_max_commits pl < length (at_tail ?b) \<or> pl_max_bytes pl < at_tail_bytes ?b then abort_attempt TailOverflow k ?p else ?p)"
          using act Some False no_gap by (simp add: enqueue_tail_def Let_def)
        show ?thesis
        proof (cases "pl_max_commits pl < length (at_tail ?b) \<or> pl_max_bytes pl < at_tail_bytes ?b")
          case True
          have "planner_but sizeOf (Some k) log ?p" by (rule put_attempt_but [OF but k]) (simp_all add: disp)
          from close_ok [OF this, of AttemptAborted "Some TailOverflow"] k len pk nr act
          have "planner_ok sizeOf log (close_attempt AttemptAborted (Some TailOverflow) k ?p)" by simp
          moreover have "evolves (length (pl_attempts pl)) ?p (close_attempt AttemptAborted (Some TailOverflow) k ?p)"
            using k len pk nr act Some by (intro close_evolves) simp_all
          moreover have "enqueue_tail sizeOf k c pl =
              (close_attempt AttemptAborted (Some TailOverflow) k ?p)\<lparr>
                 pl_aborted := pl_aborted (close_attempt AttemptAborted (Some TailOverflow) k ?p) + 1,
                 pl_overflow := pl_overflow (close_attempt AttemptAborted (Some TailOverflow) k ?p) + 1 \<rparr>"
            using True pk act unfolding eq by (simp add: abort_attempt_def Let_def)
          ultimately show ?thesis using evolves_trans [OF ev _ order_refl] by simp
        next
          case False
          with n t' m s0(2) Some have "queue_sound sizeOf log ?s (pl_max_commits pl) (pl_max_bytes pl) k ?b"
            by (auto simp: queue_sound_def)
          with act have b: "attempt_sound sizeOf log ?s (pl_max_commits pl) (pl_max_bytes pl) k ?b" by (intro sound) simp_all
          have "planner_ok sizeOf log ?p" by (rule put_attempt_ok [OF but k b]) (simp_all add: Some)
          with ev False show ?thesis unfolding eq by (simp only: if_False)
        qed
      qed
    qed
  qed
qed

lemma call_advances:
  assumes "planner_call sizeOf pl = Some q"
  shows "advances sizeOf pl q"
proof (rule advances_same)
  fix log assume ok: "planner_ok sizeOf log pl"
  then have s: "stream_ok sizeOf log (pl_stream pl)" by (simp add: planner_but_def)
  from assms obtain l c s' where call: "call_listener (pl_stream pl) = Some (l, c, s')"
    and q: "q = (case l of RecoveryListener k \<Rightarrow> enqueue_tail sizeOf k c (pl\<lparr> pl_stream := s' \<rparr>) | OutsideListener n \<Rightarrow> pl\<lparr> pl_stream := s' \<rparr>)"
    by (auto simp: planner_call_def Let_def split: option.splits)
  have st: "stream_step encode sizeOf (pl_stream pl) (Called l c) s'" for encode by (rule stream_step.step_call [OF call])
  note law = stream_feed.called_law [OF s st] and f = stream_step_fields [OF s st]
  have s': "stream_ok sizeOf log s'" by (rule call_stream [OF s call])
  have others: "attempt_sound sizeOf log s' mc mb j a = attempt_sound sizeOf log (pl_stream pl) mc mb j a"
    if "l \<noteq> RecoveryListener j" for j a mc mb
    using law [of "RecoveryListener j"] f that by (intro attempt_sound_cong) auto
  have ev: "evolves (length (pl_attempts pl)) pl (pl\<lparr> pl_stream := s' \<rparr>)" using f by (simp add: evolves_def)
  show "planner_ok sizeOf log q \<and> evolves (length (pl_attempts pl)) pl q"
  proof (cases l)
    case (OutsideListener n)
    with ok s' f others ev show ?thesis by (simp add: q planner_but_def)
  next
    case (RecoveryListener k)
    let ?p = "pl\<lparr> pl_stream := s' \<rparr>"
    have k: "k < length (pl_attempts pl)"
      using ok call RecoveryListener by (auto simp: planner_but_def listeners_known_def call_listener_Some)
    have but: "planner_but sizeOf (Some k) log ?p"
      using ok s' f others RecoveryListener by (auto simp: planner_but_def)
    have c: "k_rev c \<le> ls_head (pl_stream pl)"
      using law [of l] stream_due_logged(2) [OF s, of c l] by simp
    have "planner_ok sizeOf log (enqueue_tail sizeOf k c ?p) \<and>
        evolves (length (pl_attempts ?p)) ?p (enqueue_tail sizeOf k c ?p)"
      using k planner_attempt [OF ok k] law [of "RecoveryListener k"] f c RecoveryListener
      by (intro enqueue_ok [OF but, of "pl_stream pl"]) simp_all
    with ev RecoveryListener show ?thesis by (auto simp: q intro: evolves_trans)
  qed
qed

section \<open>Planning\<close>

lemma open_attempt_ok:
  assumes "planner_ok sizeOf log pl"
  shows "planner_ok sizeOf log (open_attempt pl)" and "evolves (length (pl_attempts pl)) pl (open_attempt pl)"
proof -
  let ?k = "length (pl_attempts pl)" and ?s = "pl_stream pl"
  let ?s' = "on_commit (RecoveryListener ?k) ?s"
  have s: "stream_ok sizeOf log ?s" and known: "listeners_known ?s ?k" using assms by (simp_all add: planner_but_def)
  have st: "stream_ok sizeOf log ?s'" by (rule join_stream [OF s])
  have fresh: "RecoveryListener ?k \<notin> set (ls_listeners ?s)" using known by (auto simp: listeners_known_def)
  have other: "attempt_sound sizeOf log ?s' mc mb j a = attempt_sound sizeOf log ?s mc mb j a" if "j \<noteq> ?k" for j a mc mb
    using that by (intro attempt_sound_cong) (auto simp: on_commit_def stream_due_def split: option.splits)
  have "listeners_known ?s' (Suc ?k)"
    using known by (auto simp: listeners_known_def on_commit_def less_Suc_eq)
  moreover have "attempt_sound sizeOf log ?s' mc mb ?k \<lparr> at_state = AttemptActive, at_error = None, at_preliminary = [],
      at_tail = [], at_tail_bytes = 0, at_cut = None, at_released = False, at_outcome = OutcomeCurrent,
      at_head = ls_head ?s, at_body = [] \<rparr>" for mc mb
    using fresh by (simp add: attempt_sound_def queue_sound_def on_commit_def)
  ultimately show "planner_ok sizeOf log (open_attempt pl)"
    using assms st other by (auto simp: open_attempt_def planner_but_def nth_append less_Suc_eq attempt_active_def)
  show "evolves ?k pl (open_attempt pl)"
    by (simp add: open_attempt_def evolves_def nth_append on_commit_def)
qed

lemma open_attempt_fields:
  "length (pl_attempts (open_attempt pl)) = Suc (length (pl_attempts pl))"
  "at_cut (attempt_of (open_attempt pl) (length (pl_attempts pl))) = None"
  "at_state (attempt_of (open_attempt pl) (length (pl_attempts pl))) = AttemptActive"
  by (simp_all add: open_attempt_def)

lemma fold_skip: "\<forall>c \<in> set cs. \<not> P c \<Longrightarrow> fold (\<lambda>c q. if P c then f c q else q) cs p = p"
  by (induction cs) simp_all

lemma cut_ok:
  fixes outcome :: recovery_outcome and body :: "body_item list"
  assumes ok: "planner_ok sizeOf log pl" and k: "k < length (pl_attempts pl)"
    and a: "at_cut (attempt_of pl k) = None" "at_state (attempt_of pl k) = AttemptActive"
    and head: "head = ls_head (pl_stream pl)"
  defines "q \<equiv> establish_cut sizeOf k head (settle outcome head body k pl)"
  shows "planner_ok sizeOf log q" and "evolves k pl q" and "length (pl_attempts q) = length (pl_attempts pl)"
    and "at_cut (attempt_of q k) = Some head" "at_outcome (attempt_of q k) = outcome" "at_head (attempt_of q k) = head"
      "at_body (attempt_of q k) = body"
proof -
  let ?a = "attempt_of pl k"
  let ?b = "?a\<lparr> at_outcome := outcome, at_head := head, at_body := body, at_cut := Some head, at_preliminary := [] \<rparr>"
  have s: "stream_ok sizeOf log (pl_stream pl)" using ok by (simp add: planner_but_def)
  have sound: "attempt_sound sizeOf log (pl_stream pl) (pl_max_commits pl) (pl_max_bytes pl) k ?a"
    by (rule planner_attempt [OF ok k])
  then have pre: "\<forall>c \<in> set (at_preliminary ?a). \<not> head < k_rev c" and t: "at_tail ?a = []" "at_tail_bytes ?a = 0"
    using a head by (auto simp: attempt_sound_def queue_sound_def)
  have q: "q = put_attempt k ?b pl"
    using k fold_skip [OF pre] by (simp add: q_def establish_cut_def settle_def put_attempt_def Let_def)
  obtain b where b: "chain b log head" using stream_feed.sound_chain [OF s] head by blast
  have "b \<le> head" using chain_end [OF b] by simp
  have "\<forall>c \<in> set (stream_due (RecoveryListener k) (pl_stream pl)). \<not> head < k_rev c"
    using stream_due_logged(2) [OF s] head by fastforce
  moreover have "\<forall>c \<in> set log. \<not> head < k_rev c" using chain_revs [OF b] by fastforce
  ultimately have "after_rev head (stream_due (RecoveryListener k) (pl_stream pl)) = []" "after_rev head log = []"
    by (simp_all add: filter_empty_conv)
  then have "queue_sound sizeOf log (pl_stream pl) (pl_max_commits pl) (pl_max_bytes pl) k ?b"
    using t b \<open>b \<le> head\<close> head by (auto simp: queue_sound_def)
  with sound a(2) have b_ok: "attempt_sound sizeOf log (pl_stream pl) (pl_max_commits pl) (pl_max_bytes pl) k ?b"
    by (simp add: attempt_sound_def)
  show "planner_ok sizeOf log q"
    unfolding q by (rule put_attempt_ok [OF planner_but_weaken [OF ok] k b_ok]) simp_all
  show "evolves k pl q" unfolding q using k by (intro put_attempt_evolves) simp_all
  show "length (pl_attempts q) = length (pl_attempts pl)" "at_cut (attempt_of q k) = Some head"
    "at_outcome (attempt_of q k) = outcome" "at_head (attempt_of q k) = head" "at_body (attempt_of q k) = body"
    using k by (simp_all add: q put_attempt_def)
qed

lemma count_plan_simps [simp]:
  "planner_but sizeOf x log (count_plan outcome p) = planner_but sizeOf x log p"
  "evolves n p' (count_plan outcome p) = evolves n p' p"
  "pl_attempts (count_plan outcome p) = pl_attempts p" "pl_stream (count_plan outcome p) = pl_stream p"
  by (simp_all add: count_plan_def split: recovery_outcome.split)

lemma planner_add_disposer:
  "planner_ok sizeOf log p \<Longrightarrow> k < length (pl_attempts p) \<Longrightarrow> at_cut (attempt_of p k) \<noteq> None \<Longrightarrow>
     planner_ok sizeOf log (p\<lparr> pl_disposers := pl_disposers p @ [k] \<rparr>)"
  by (auto simp: planner_but_def)

definition plan_of :: "recovery_planner \<Rightarrow> nat \<Rightarrow> nat \<Rightarrow> recovery_outcome \<Rightarrow> body_item list \<Rightarrow> bool" where
  "plan_of q k head outcome body \<longleftrightarrow> k < length (pl_attempts q) \<and> at_cut (attempt_of q k) = Some head \<and>
     at_head (attempt_of q k) = head \<and> at_outcome (attempt_of q k) = outcome \<and> at_body (attempt_of q k) = body"

lemma plan_of_evolves: "plan_of p k head outcome body \<Longrightarrow> evolves n p q \<Longrightarrow> k < n \<Longrightarrow> plan_of q k head outcome body"
  by (auto simp: plan_of_def evolves_def same_plan_def)

lemma fail_plan_ok:
  assumes "planner_ok sizeOf log p" "k < length (pl_attempts p)" "e \<noteq> TailGap" "n \<le> k \<or> at_cut (attempt_of p k) \<noteq> None"
    and "fail_plan e k p = (r, q)" "n \<le> length (pl_attempts p)"
  shows "planner_ok sizeOf log q \<and> evolves n p q \<and> r = Inl e"
  using assms(5,6) abort_ok(1) [OF assms(1-3)] abort_ok(2) [OF assms(1-3) _ assms(4)] by (auto simp: fail_plan_def)

lemma finish_plan_ok:
  assumes hook: "\<And>p. advances sizeOf p (snd (after_cut hooks p))"
    and ok: "planner_ok sizeOf log p" and plan: "plan_of p k head outcome body" and f: "finish_plan hooks k p = (r, q)"
  shows "(\<exists>more. planner_ok sizeOf (log @ more) q) \<and> evolves (length (pl_attempts p)) p q \<and>
    (\<forall>res. r = Inr res \<longrightarrow> res = Planned k outcome head body \<and> plan_of q k head outcome body)"
proof -
  obtain threw p1 where h: "after_cut hooks p = (threw, p1)" by (cases "after_cut hooks p") auto
  from advances_step [OF ok hook] h obtain more where more: "planner_ok sizeOf (log @ more) p1"
    and ev: "evolves (length (pl_attempts p)) p p1" by auto
  from plan have k: "k < length (pl_attempts p)" by (simp add: plan_of_def)
  from plan_of_evolves [OF plan ev k] have p1: "plan_of p1 k head outcome body" .
  then have k1: "k < length (pl_attempts p1)" and c1: "at_cut (attempt_of p1 k) \<noteq> None" by (simp_all add: plan_of_def)
  have gap: "at_error (attempt_of p1 k) \<noteq> Some TailGap"
    using planner_attempt [OF more k1] by (simp add: attempt_sound_def)
  have failed: ?thesis if "fail_plan e k p1 = (r, q)" "e \<noteq> TailGap" for e
    using fail_plan_ok [OF more k1 that(2) _ that(1) order_refl] c1 more evolves_trans [OF ev]
    by (metis Inl_Inr_False evolves_fields(1) [OF ev])
  show ?thesis
  proof (cases threw)
    case True
    with f h failed [of PlanningFailed] show ?thesis by (simp add: finish_plan_def)
  next
    case False
    show ?thesis
    proof (cases "at_error (attempt_of p1 k)")
      case (Some e)
      with False f h failed [of e] gap show ?thesis by (auto simp: finish_plan_def)
    next
      case None
      let ?q = "p1\<lparr> pl_disposers := pl_disposers p1 @ [k] \<rparr>"
      from False None f h p1 have q: "q = count_plan outcome ?q" and r: "r = Inr (Planned k outcome head body)"
        by (auto simp: finish_plan_def Let_def plan_of_def)
      have "planner_ok sizeOf (log @ more) q" using planner_add_disposer [OF more k1 c1] by (simp add: q)
      moreover have "plan_of q k head outcome body" using p1 by (simp add: q plan_of_def)
      moreover have "evolves (length (pl_attempts p)) p q" using ev by (simp add: q)
      ultimately show ?thesis using r by blast
    qed
  qed
qed

lemma evolves_less: "evolves n p q \<Longrightarrow> m \<le> n \<Longrightarrow> evolves m p q"
  by (auto simp: evolves_def)

text \<open>A position in the middle of a plan: attempt \<open>k\<close> is open, was not cut yet and belongs to this plan.\<close>

definition planning :: "(canonical_commit \<Rightarrow> nat) \<Rightarrow> canonical_commit list \<Rightarrow> nat \<Rightarrow> recovery_planner \<Rightarrow> bool" where
  "planning sizeOf log k p \<longleftrightarrow> planner_ok sizeOf log p \<and> k < length (pl_attempts p) \<and>
     at_cut (attempt_of p k) = None \<and> at_state (attempt_of p k) = AttemptActive"

definition plan_outcome_ok ::
    "recovery_planner \<Rightarrow> recovery_planner \<Rightarrow> nat \<Rightarrow> (nat \<Rightarrow> recovery_outcome \<Rightarrow> body_item list \<Rightarrow> bool) \<Rightarrow> recovery_error + recovery_plan \<Rightarrow> bool" where
  "plan_outcome_ok p q k P r \<longleftrightarrow>
     (\<forall>res. r = Inr res \<longrightarrow> (\<exists>head outcome body. res = Planned k outcome head body \<and> plan_of q k head outcome body \<and> P head outcome body))"

lemma cut_and_finish:
  assumes hook: "\<And>p. advances sizeOf p (snd (after_cut hooks p))"
    and pl: "planning sizeOf log k p" and head: "head = ls_head (pl_stream p)"
    and f: "finish_plan hooks k (establish_cut sizeOf k head (settle outcome head body k p)) = (r, q)"
  shows "(\<exists>more. planner_ok sizeOf (log @ more) q) \<and> evolves k p q \<and>
    (\<forall>res. r = Inr res \<longrightarrow> res = Planned k outcome head body \<and> plan_of q k head outcome body)"
proof -
  from pl have p: "planner_ok sizeOf log p" "k < length (pl_attempts p)" "at_cut (attempt_of p k) = None"
    "at_state (attempt_of p k) = AttemptActive" by (simp_all add: planning_def)
  note cut = cut_ok [OF p head, of outcome body]
  have "plan_of (establish_cut sizeOf k head (settle outcome head body k p)) k head outcome body"
    using cut p(2) by (simp add: plan_of_def)
  from finish_plan_ok [OF hook cut(1) this f] evolves_trans [OF cut(2)] cut(3) p(2) show ?thesis by auto
qed

lemma plan_snapshot_ok:
  assumes hooks: "\<And>p. advances sizeOf p (snd (during_snapshot_capture hooks p))" "\<And>p. advances sizeOf p (snd (after_cut hooks p))"
    and pl: "planning sizeOf log k p" and f: "plan_snapshot sizeOf hooks capture reason k p = (r, q)"
  shows "(\<exists>more. planner_ok sizeOf (log @ more) q) \<and> evolves k p q \<and>
    plan_outcome_ok p q k (\<lambda>head outcome body. outcome = OutcomeSnapshot reason \<and>
      (\<exists>sn. body = [BodySnapshot sn] \<and> sn_rev sn = head)) r"
proof -
  from pl have ok: "planner_ok sizeOf log p" and k: "k < length (pl_attempts p)" by (simp_all add: planning_def)
  obtain threw p1 where h: "during_snapshot_capture hooks p = (threw, p1)" by (cases "during_snapshot_capture hooks p") auto
  from advances_step [OF ok hooks(1)] h obtain more where more: "planner_ok sizeOf (log @ more) p1"
    and ev: "evolves (length (pl_attempts p)) p p1" by (metis snd_conv)
  have p1: "planning sizeOf (log @ more) k p1"
    using pl more ev k by (auto simp: planning_def evolves_def same_plan_def)
  have evk: "evolves k p p1" using evolves_less [OF ev] k by simp
  have failed: ?thesis if "fail_plan SnapshotFailed k p1 = (r, q)"
    using fail_plan_ok [OF more _ _ _ that, of k] p1 evolves_trans [OF evk _ order_refl, of q] more
    by (auto simp: planning_def plan_outcome_ok_def)
  show ?thesis
  proof (cases "threw \<or> capture p1 = CaptureThrows")
    case True
    with f h have "fail_plan SnapshotFailed k p1 = (r, q)" by (cases threw) (simp_all add: plan_snapshot_def Let_def)
    then show ?thesis by (rule failed)
  next
    case read: False
    then obtain rv t where c: "capture p1 = CaptureRead rv t" by (cases "capture p1") auto
    show ?thesis
    proof (cases "rv = ls_head (pl_stream p1) \<and> t \<noteq> None")
      case False
      with f h c read have "fail_plan SnapshotFailed k p1 = (r, q)"
        by (auto simp: plan_snapshot_def Let_def split: option.splits if_splits)
      then show ?thesis by (rule failed)
    next
      case True
      then obtain body_text where t: "t = Some body_text" by auto
      let ?sn = "\<lparr> sn_map = ls_map (pl_stream p1), sn_incarnation = ls_incarnation (pl_stream p1), sn_rev = rv,
        sn_mode = ls_mode (pl_stream p1), sn_text = body_text \<rparr>"
      have "finish_plan hooks k (establish_cut sizeOf k rv (settle (OutcomeSnapshot reason) rv [BodySnapshot ?sn] k p1)) = (r, q)"
        using f h c True read t by (simp add: plan_snapshot_def Let_def)
      from cut_and_finish [OF hooks(2) p1 _ this] True
      have "\<exists>more2. planner_ok sizeOf ((log @ more) @ more2) q" "evolves k p1 q"
        "\<forall>res. r = Inr res \<longrightarrow> res = Planned k (OutcomeSnapshot reason) rv [BodySnapshot ?sn] \<and>
           plan_of q k rv (OutcomeSnapshot reason) [BodySnapshot ?sn]" by auto
      then show ?thesis using evolves_trans [OF evk _ order_refl, of q] by (auto simp: plan_outcome_ok_def)
    qed
  qed
qed

text \<open>What a plan promises to the client that asked.\<close>

definition plan_serves :: "recovery_request \<Rightarrow> recovery_planner \<Rightarrow> canonical_commit list \<Rightarrow> nat \<Rightarrow> recovery_outcome \<Rightarrow> body_item list \<Rightarrow> bool" where
  "plan_serves request q log head outcome body \<longleftrightarrow>
     (case outcome of
        OutcomeCurrent \<Rightarrow>
          rq_incarnation request = Some (ls_incarnation (pl_stream q)) \<and> rq_last request = Some (IntArg (int head)) \<and> body = []
      | OutcomeReplay \<Rightarrow>
          rq_incarnation request = Some (ls_incarnation (pl_stream q)) \<and>
          (\<exists>u cs. rq_last request = Some (IntArg (int u)) \<and> cs \<noteq> [] \<and> body = map BodyCommit cs \<and>
             chain u cs head \<and> set cs \<subseteq> set log)
      | OutcomeSnapshot reason \<Rightarrow> \<exists>sn. body = [BodySnapshot sn] \<and> sn_rev sn = head)"

lemma num_arg_index_Some: "num_arg_index a = Some n \<Longrightarrow> a = IntArg (int n)"
  by (auto simp: num_arg_index_def split: num_arg.splits if_splits)

lemma replayed_chain:
  assumes ok: "stream_ok sizeOf log s" and r: "replay_after (IntArg (int u)) (Some (IntArg (int (ls_head s)))) s = Some cs"
  shows "chain u cs (ls_head s)" "set cs \<subseteq> set log"
proof -
  from ok have h: "history_ok sizeOf s" by (simp add: stream_ok_def)
  note eq = replay_after_eq [OF h, of u "ls_head s"]
  let ?f = "filter (\<lambda>c. u < k_rev c \<and> k_rev c \<le> ls_head s) (map fst (ls_retained s))"
  from eq r have c: "cs = ?f" "u \<le> ls_head s" "u = ls_head s \<or> earliest_resumable_base_rev s \<le> u" by (auto split: if_splits)
  have "earliest_resumable_base_rev s \<le> ls_head s"
    using chain_end [OF h [unfolded history_ok_def, THEN conjunct1]] by simp
  with c(3) have "earliest_resumable_base_rev s \<le> u" using c(2) by auto
  from chain_filter [OF h [unfolded history_ok_def, THEN conjunct1] this c(2) order_refl] c(1)
  show "chain u cs (ls_head s)" by simp
  have "set (map fst (ls_retained s)) \<subseteq> set log"
    using ok set_mono_suffix [of "map fst (ls_retained s)" log] by (simp add: stream_ok_def logged_def)
  with c(1) show "set cs \<subseteq> set log" by auto
qed

lemma plan_ok:
  assumes hooks: "\<And>p. advances sizeOf p (snd (before_cut hooks p))"
      "\<And>p. advances sizeOf p (snd (during_snapshot_capture hooks p))" "\<And>p. advances sizeOf p (snd (after_cut hooks p))"
    and ok: "planner_ok sizeOf log pl" and f: "plan sizeOf hooks capture request pl = (r, q)"
  shows "\<exists>more. planner_ok sizeOf (log @ more) q \<and> evolves (length (pl_attempts pl)) pl q \<and>
    (\<forall>k outcome head body. r = Inr (Planned k outcome head body) \<longrightarrow>
       plan_of q k head outcome body \<and> plan_serves request q (log @ more) head outcome body)"
proof -
  have same: ?thesis if "\<forall>res. r = Inr res \<longrightarrow> (\<exists>code n. res = Rejected code n)" "planner_ok sizeOf log q"
    "evolves (length (pl_attempts pl)) pl q"
    using that by (intro exI [of _ "[]"]) auto
  show ?thesis
  proof (cases "pl_disposed pl \<or> rq_map request \<noteq> ls_map (pl_stream pl) \<or>
      (case rq_last request of None \<Rightarrow> False | Some r \<Rightarrow> num_arg_index r = None)")
    case True
    with f ok show ?thesis by (intro same) (auto simp: plan_def reject_def evolves_refl split: if_splits)
  next
    case False
    obtain threw p0 where h: "before_cut hooks pl = (threw, p0)" by (cases "before_cut hooks pl") auto
    from advances_step [OF ok hooks(1)] h obtain more where more: "planner_ok sizeOf (log @ more) p0"
      and ev: "evolves (length (pl_attempts pl)) pl p0" by (metis snd_conv)
    show ?thesis
    proof (cases threw)
      case True
      with f h False more ev show ?thesis by (intro exI [of _ more]) (auto simp: plan_def)
    next
      case go: False
      let ?k = "length (pl_attempts p0)" and ?p = "open_attempt p0"
      let ?s = "pl_stream ?p"
      let ?head = "ls_head ?s"
      let ?usable = "if rq_incarnation request = Some (ls_incarnation ?s) then Option.bind (rq_last request) num_arg_index else None"
      note op = open_attempt_ok [OF more] open_attempt_fields [of p0]
      have pl: "planning sizeOf (log @ more) ?k ?p" using op by (simp add: planning_def)
      have ev0: "evolves (length (pl_attempts pl)) pl ?p" using evolves_trans [OF ev op(2)] evolves_fields(1) [OF ev] by simp
      have ev': "evolves (length (pl_attempts pl)) pl q" if "evolves ?k ?p q"
        using evolves_trans [OF ev0 that] evolves_fields(1) [OF ev] by simp
      have served: ?thesis
        if "(\<exists>more2. planner_ok sizeOf ((log @ more) @ more2) q) \<and> evolves ?k ?p q"
          and "\<And>res more2. r = Inr res \<Longrightarrow> planner_ok sizeOf ((log @ more) @ more2) q \<Longrightarrow> evolves ?k ?p q \<Longrightarrow> \<exists>head outcome body.
             res = Planned ?k outcome head body \<and> plan_of q ?k head outcome body \<and>
             plan_serves request q ((log @ more) @ more2) head outcome body"
        using that ev' by (metis append.assoc recovery_plan.inject(2))
      have snap: ?thesis if "plan_snapshot sizeOf hooks capture reason ?k ?p = (r, q)" for reason
      proof -
        from plan_snapshot_ok [OF hooks(2,3) pl that]
        show ?thesis by (intro served) (auto simp: plan_outcome_ok_def plan_serves_def)
      qed
      have eq: "plan sizeOf hooks capture request pl =
          (case ?usable of
            Some r \<Rightarrow>
              if ?head < r then reject RevisionAheadOfAuthority (close_attempt AttemptDisposed None ?k ?p)
              else if r = ?head then finish_plan hooks ?k (establish_cut sizeOf ?k ?head (settle OutcomeCurrent ?head [] ?k ?p))
              else (case replay_after (IntArg (int r)) (Some (IntArg (int ?head))) ?s of
                  Some (c # cs) \<Rightarrow>
                    finish_plan hooks ?k (establish_cut sizeOf ?k ?head (settle OutcomeReplay ?head (map BodyCommit (c # cs)) ?k ?p))
                | _ \<Rightarrow> plan_snapshot sizeOf hooks capture HistoryUnavailable ?k ?p)
          | None \<Rightarrow> plan_snapshot sizeOf hooks capture
                (if rq_incarnation request = None then NoUsableRevision else IncarnationMismatch) ?k ?p)"
        using False h go unfolding plan_def by (simp add: Let_def)
      show ?thesis
      proof (cases ?usable)
        case None
        with f eq snap show ?thesis by (simp split: if_splits)
      next
        case (Some u)
        then have inc: "rq_incarnation request = Some (ls_incarnation ?s)" and last: "rq_last request = Some (IntArg (int u))"
          using num_arg_index_Some by (auto split: if_splits Option.bind_splits)
        have inc_q: "ls_incarnation (pl_stream q) = ls_incarnation ?s" if "evolves ?k ?p q"
          using that by (simp add: evolves_def)
        consider "?head < u" | "u = ?head" | c cs where "u < ?head" "replay_after (IntArg (int u)) (Some (IntArg (int ?head))) ?s = Some (c # cs)"
          | "u < ?head" "replay_after (IntArg (int u)) (Some (IntArg (int ?head))) ?s = None \<or>
              replay_after (IntArg (int u)) (Some (IntArg (int ?head))) ?s = Some []"
          by (metis linorder_neqE_nat list.exhaust option.exhaust)
        then show ?thesis
        proof cases
          case 1
          have nr: "\<not> at_released (attempt_of ?p ?k)" by (simp add: open_attempt_def)
          have k: "?k < length (pl_attempts ?p)" using op(3) by simp
          have "planner_ok sizeOf (log @ more) (close_attempt AttemptDisposed None ?k ?p)"
            by (rule close_ok [OF planner_but_weaken [OF op(1)] k nr op(5)]) simp_all
          moreover have "evolves ?k ?p (close_attempt AttemptDisposed None ?k ?p)"
            by (rule close_evolves [OF k nr op(5)]) (use k in simp_all)
          moreover have "r = Inr (Rejected RevisionAheadOfAuthority (ls_head (pl_stream (close_attempt AttemptDisposed None ?k ?p))))"
            "q = (close_attempt AttemptDisposed None ?k ?p)\<lparr> pl_reject := pl_reject (close_attempt AttemptDisposed None ?k ?p) + 1 \<rparr>"
            using f 1 unfolding eq Some by (simp_all add: reject_def)
          ultimately show ?thesis using ev' by (intro exI [of _ more]) simp
        next
          case 2
          with f have "finish_plan hooks ?k (establish_cut sizeOf ?k ?head (settle OutcomeCurrent ?head [] ?k ?p)) = (r, q)"
            unfolding eq Some by simp
          from cut_and_finish [OF hooks(3) pl refl this] inc last inc_q 2 show ?thesis
            by (intro served) (auto simp: plan_serves_def)
        next
          case (3 c cs)
          with f have fp: "finish_plan hooks ?k (establish_cut sizeOf ?k ?head (settle OutcomeReplay ?head (map BodyCommit (c # cs)) ?k ?p)) = (r, q)"
            unfolding eq Some by simp
          have "stream_ok sizeOf (log @ more) ?s" using op(1) by (simp add: planner_but_def)
          note ch = replayed_chain [OF this 3(2)]
          have "plan_serves request q ((log @ more) @ more2) ?head OutcomeReplay (map BodyCommit (c # cs))"
            if "evolves ?k ?p q" for more2
            unfolding plan_serves_def using inc last inc_q [OF that] ch by (auto intro!: exI [of _ u] exI [of _ "c # cs"])
          with cut_and_finish [OF hooks(3) pl refl fp] show ?thesis by (intro served) blast+
        next
          case 4
          with f have "plan_snapshot sizeOf hooks capture HistoryUnavailable ?k ?p = (r, q)"
            unfolding eq Some by (auto split: option.splits)
          then show ?thesis by (rule snap)
        qed
      qed
    qed
  qed
qed

section \<open>Completion\<close>

lemma observe_body_ok:
  assumes obs: "\<And>x p. advances sizeOf p (snd (observer x p))"
  shows "planner_ok sizeOf log p \<Longrightarrow> k < length (pl_attempts p) \<Longrightarrow> at_cut (attempt_of p k) \<noteq> None \<Longrightarrow>
    observe_body observer k xs p = (r, q) \<Longrightarrow>
    \<exists>more. planner_ok sizeOf (log @ more) q \<and> evolves (length (pl_attempts p)) p q"
proof (induction xs arbitrary: p log)
  case Nil
  then show ?case by (intro exI [of _ "[]"]) (auto simp: evolves_refl)
next
  case (Cons x xs)
  obtain threw p1 where h: "observer x p = (threw, p1)" by (cases "observer x p") auto
  from advances_step [OF Cons.prems(1) obs [of p x]] h obtain more where more: "planner_ok sizeOf (log @ more) p1"
    and ev: "evolves (length (pl_attempts p)) p p1" by auto
  have k1: "k < length (pl_attempts p1)" "at_cut (attempt_of p1 k) \<noteq> None"
    using Cons.prems(2,3) evolves_fields [OF ev] by auto
  have aborted: "planner_ok sizeOf (log @ more) (abort_attempt ObserverFailed k p1)"
    "evolves (length (pl_attempts p1)) p1 (abort_attempt ObserverFailed k p1)"
    using abort_ok [OF more k1(1), where e = ObserverFailed] k1(2) by simp_all
  have both: "evolves (length (pl_attempts p)) p (abort_attempt ObserverFailed k p1)"
    using evolves_trans [OF ev aborted(2)] evolves_fields(1) [OF ev] by simp
  show ?case
  proof (cases "threw \<or> must_be_active (attempt_of p1 k) \<noteq> None")
    case True
    with Cons.prems(4) h have "q = p1 \<or> q = abort_attempt ObserverFailed k p1"
      by (auto simp: Let_def split: attempt_state.splits option.splits)
    then show ?thesis using more ev aborted(1) both by blast
  next
    case False
    with Cons.prems(4) h have "observe_body observer k xs p1 = (r, q)" by (simp add: Let_def)
    from Cons.IH [OF more k1 this] obtain m2 where "planner_ok sizeOf ((log @ more) @ m2) q"
      "evolves (length (pl_attempts p1)) p1 q" by blast
    then show ?thesis using evolves_trans [OF ev] evolves_fields(1) [OF ev] by (metis append.assoc)
  qed
qed

definition completion_ok :: "recovery_planner \<Rightarrow> canonical_commit list \<Rightarrow> nat \<Rightarrow> nat \<Rightarrow> canonical_commit list \<Rightarrow> bool" where
  "completion_ok q log head through tail \<longleftrightarrow>
     chain head tail through \<and> set tail \<subseteq> set log \<and> through \<le> ls_head (pl_stream q) \<and>
     (ls_publishing (pl_stream q) = None \<longrightarrow> through = ls_head (pl_stream q))"

lemma queue_completes:
  assumes s: "stream_ok sizeOf log s" and q: "queue_sound sizeOf log s mc mb k a" and cut: "at_cut a = Some n"
  shows "chain n (at_tail a) (if at_tail a = [] then n else k_rev (last (at_tail a)))" and "set (at_tail a) \<subseteq> set log"
    and "(if at_tail a = [] then n else k_rev (last (at_tail a))) \<le> ls_head s"
    and "ls_publishing s = None \<Longrightarrow> (if at_tail a = [] then n else k_rev (last (at_tail a))) = ls_head s"
proof -
  from q cut obtain b where b: "chain b log (ls_head s)" "b \<le> n" "n \<le> ls_head s"
    and t: "at_tail a @ after_rev n (stream_due (RecoveryListener k) s) = after_rev n log"
    by (auto simp: queue_sound_def)
  from after_rev_chain [OF b(1,2,3)] t have c: "chain n (at_tail a @ after_rev n (stream_due (RecoveryListener k) s)) (ls_head s)"
    by simp
  then have c1: "chain n (at_tail a) (n + length (at_tail a))" by (simp add: chain_append)
  from chain_last [OF c1] have e: "(if at_tail a = [] then n else k_rev (last (at_tail a))) = n + length (at_tail a)" by simp
  show "chain n (at_tail a) (if at_tail a = [] then n else k_rev (last (at_tail a)))" using c1 unfolding e .
  show "set (at_tail a) \<subseteq> set log" using arg_cong [OF t, of set] by auto
  show "(if at_tail a = [] then n else k_rev (last (at_tail a))) \<le> ls_head s" using chain_end [OF c] unfolding e by simp
  show "(if at_tail a = [] then n else k_rev (last (at_tail a))) = ls_head s" if "ls_publishing s = None"
  proof -
    have "stream_due (RecoveryListener k) s = []"
      using s that by (simp add: stream_ok_def publication_ok_def stream_due_def)
    with chain_end [OF c] show ?thesis unfolding e by simp
  qed
qed

lemma complete_ok:
  assumes obs: "\<And>x p. advances sizeOf p (snd (observer x p))"
    and ok: "planner_ok sizeOf log p" and k: "k < length (pl_attempts p)" and cut: "at_cut (attempt_of p k) = Some head"
    and f: "complete observer k p = (r, q)"
  shows "\<exists>more. planner_ok sizeOf (log @ more) q \<and> evolves (length (pl_attempts p)) p q \<and>
    (\<forall>through tail. r = Inr (through, tail) \<longrightarrow> completion_ok q (log @ more) head through tail)"
proof (cases "must_be_active (attempt_of p k)")
  case (Some e)
  with f ok show ?thesis by (intro exI [of _ "[]"]) (auto simp: complete_def evolves_refl)
next
  case None
  obtain e p1 where o: "observe_body observer k (at_body (attempt_of p k)) p = (e, p1)"
    by (cases "observe_body observer k (at_body (attempt_of p k)) p") auto
  from observe_body_ok [OF obs ok k _ o] cut obtain more where more: "planner_ok sizeOf (log @ more) p1"
    and ev: "evolves (length (pl_attempts p)) p p1" by auto
  have k1: "k < length (pl_attempts p1)" and c1: "at_cut (attempt_of p1 k) = Some head"
    using k cut evolves_fields [OF ev] by auto
  show ?thesis
  proof (cases "e = None \<and> must_be_active (attempt_of p1 k) = None")
    case False
    with f None o have "q = p1 \<and> (\<exists>e. r = Inl e)"
      by (auto simp: complete_def split: option.splits)
    with more ev show ?thesis by auto
  next
    case True
    let ?a = "attempt_of p1 k"
    let ?through = "if at_tail ?a = [] then at_head ?a else k_rev (last (at_tail ?a))"
    let ?c = "close_attempt AttemptCompleted None k p1"
    from True f None o have r: "r = Inr (?through, at_tail ?a)" and q: "q = ?c\<lparr> pl_completed := pl_completed ?c + 1 \<rparr>"
      by (auto simp: complete_def Let_def)
    have act: "at_state ?a = AttemptActive"
      using True by (auto simp: must_be_active_def split: attempt_state.splits option.splits)
    note nr = active_not_released [OF more k1 act]
    have c_ok: "planner_ok sizeOf (log @ more) ?c"
      by (rule close_ok [OF planner_but_weaken [OF more] k1 nr act]) simp_all
    have c_ev: "evolves (length (pl_attempts p1)) p1 ?c"
      by (rule close_evolves [OF k1 nr act]) (simp_all add: c1)
    have s: "stream_ok sizeOf (log @ more) (pl_stream p1)" using more by (simp add: planner_but_def)
    have qs: "queue_sound sizeOf (log @ more) (pl_stream p1) (pl_max_commits p1) (pl_max_bytes p1) k ?a"
      using planner_attempt [OF more k1] act by (simp add: attempt_sound_def)
    then have "at_head ?a = head" using c1 by (simp add: queue_sound_def)
    with queue_completes [OF s qs c1] have "completion_ok q (log @ more) head ?through (at_tail ?a)"
      by (cases "at_tail ?a = []") (auto simp: completion_ok_def q close_attempt_eq [OF k1 nr])
    with r c_ok c_ev show ?thesis
      using evolves_trans [OF ev c_ev] evolves_fields(1) [OF ev] by (intro exI [of _ more]) (auto simp: q)
  qed
qed

section \<open>All runs\<close>

lemma run_advances: "planner_run encode sizeOf p q \<Longrightarrow> advances sizeOf p q"
proof (induction rule: planner_run.induct)
  case (run_done p)
  show ?case by (rule advances_refl)
next
  case (run_stream p e s' q)
  from advances_trans [OF stream_advances [OF run_stream.hyps(1-3)] run_stream.IH] show ?case .
next
  case (run_call p p1 q)
  from advances_trans [OF call_advances [OF run_call.hyps(1)] run_call.IH] show ?case .
next
  case (run_plan hooks capture request p r p1 q)
  have "advances sizeOf p p1"
    unfolding advances_def using plan_ok [OF run_plan.IH(1,2,3) _ run_plan.hyps(1)] by blast
  from advances_trans [OF this run_plan.IH(4)] show ?case .
next
  case (run_complete k p observer r p1 q)
  from run_complete.hyps(2) obtain head where "at_cut (attempt_of p k) = Some head" by auto
  then have "advances sizeOf p p1"
    unfolding advances_def using complete_ok [OF run_complete.IH(1) _ run_complete.hyps(1) _ run_complete.hyps(3)] by blast
  from advances_trans [OF this run_complete.IH(2)] show ?case .
next
  case (run_dispose k p q)
  have "advances sizeOf p (dispose_attempt k p)"
    using dispose_ok [of sizeOf _ p k] run_dispose.hyps by (intro advances_same) auto
  from advances_trans [OF this run_dispose.IH] show ?case .
next
  case (run_dispose_planner p q)
  from advances_trans [OF dispose_planner_advances run_dispose_planner.IH] show ?case .
qed

text \<open>Planners that can occur: made on a stream that runs, and then run themselves.\<close>

definition made_planner ::
    "(hson_item \<Rightarrow> js_string option) \<Rightarrow> (canonical_commit \<Rightarrow> nat) \<Rightarrow> recovery_planner \<Rightarrow> bool" where
  "made_planner encode sizeOf p \<longleftrightarrow>
     (\<exists>mode mapRev m i cb bb ih s0 es s tc tb.
        make_locus_canonical_stream sizeOf mode mapRev m i cb bb ih = Some (Inr s0) \<and>
        trace_of (stream_step encode sizeOf) s0 es s \<and> (\<forall>k. Joined (RecoveryListener k) \<notin> set es) \<and>
        make_locus_recovery_planner s tc tb = Inr p)"

lemma no_recovery_listeners:
  "trace_of (stream_step encode sizeOf) s es s' \<Longrightarrow> stream_ok sizeOf log s \<Longrightarrow> listeners_known s 0 \<Longrightarrow>
     \<forall>k. Joined (RecoveryListener k) \<notin> set es \<Longrightarrow> listeners_known s' 0"
proof (induction arbitrary: log rule: trace_of.induct)
  case (trace_step s e s1 es s')
  from stream_step_fields [OF trace_step.prems(1) trace_step.hyps(1)] trace_step.prems have "listeners_known s1 0" by auto
  with trace_step.IH [OF stream_feed.sound_step [OF trace_step.prems(1) trace_step.hyps(1)]] trace_step.prems(3)
  show ?case by simp
qed simp

lemma made_planner_ok:
  assumes "made_planner encode sizeOf p"
  shows "\<exists>log. planner_ok sizeOf log p"
proof -
  from assms obtain mode mapRev m i cb bb ih s0 es s tc tb
    where made: "make_locus_canonical_stream sizeOf mode mapRev m i cb bb ih = Some (Inr s0)"
      and run: "trace_of (stream_step encode sizeOf) s0 es s" "\<forall>k. Joined (RecoveryListener k) \<notin> set es"
      and p: "make_locus_recovery_planner s tc tb = Inr p"
    unfolding made_planner_def by blast
  have "listeners_known s0 0" using made_stream_ok(2) [OF made] by (simp add: fresh_stream_def listeners_known_def)
  with no_recovery_listeners [OF run(1) made_stream_ok(1) [OF made]] run(2) have "listeners_known s 0" by blast
  with stream_run_ok [OF made run(1)] p show ?thesis
    by (auto simp: make_locus_recovery_planner_def rbind_Inr_iff planner_but_def)
qed

section \<open>Properties\<close>

text \<open>
  C3: a recovery loses nothing and repeats nothing. Whatever happens between the plan of an attempt and
  its completion, and inside its hooks and observers, a completed attempt hands over a contiguous
  tail from its cut; a replayed body leads from the client's revision to the cut, a current client is
  at the cut, a snapshot is of the cut. Body and tail are commits the stream accepted, and once
  the stream is not publishing the client has reached its head.
\<close>

theorem recovery_is_gapless:
  assumes "made_planner encode sizeOf p0" and "planner_run encode sizeOf p0 p1"
    and "\<And>p. planner_run encode sizeOf p (snd (before_cut hooks p))"
      "\<And>p. planner_run encode sizeOf p (snd (during_snapshot_capture hooks p))"
      "\<And>p. planner_run encode sizeOf p (snd (after_cut hooks p))"
    and "plan sizeOf hooks capture request p1 = (Inr (Planned k outcome head body), p2)"
    and "planner_run encode sizeOf p2 p3"
    and "\<And>x p. planner_run encode sizeOf p (snd (observer x p))"
    and "complete observer k p3 = (Inr (through, tail), p4)"
  shows "chain head tail through \<and> through \<le> ls_head (pl_stream p4) \<and>
    (ls_publishing (pl_stream p4) = None \<longrightarrow> through = ls_head (pl_stream p4)) \<and>
    (\<exists>log. logged log (pl_stream p4) \<and> set tail \<union> {c. BodyCommit c \<in> set body} \<subseteq> set log) \<and>
    (case outcome of
       OutcomeCurrent \<Rightarrow> rq_last request = Some (IntArg (int head)) \<and> body = []
     | OutcomeReplay \<Rightarrow> \<exists>u cs. rq_last request = Some (IntArg (int u)) \<and> body = map BodyCommit cs \<and> chain u (cs @ tail) through
     | OutcomeSnapshot reason \<Rightarrow> \<exists>sn. body = [BodySnapshot sn] \<and> sn_rev sn = head)"
proof -
  from made_planner_ok [OF assms(1)] obtain log0 where "planner_ok sizeOf log0 p0" by blast
  from advances_step [OF this run_advances [OF assms(2)]] obtain log1 where p1: "planner_ok sizeOf log1 p1" by blast
  from plan_ok [OF run_advances [OF assms(3)] run_advances [OF assms(4)] run_advances [OF assms(5)] p1 assms(6)]
  obtain log2 where p2: "planner_ok sizeOf log2 p2" and plan: "plan_of p2 k head outcome body"
    and serves: "plan_serves request p2 log2 head outcome body" by blast
  from advances_step [OF p2 run_advances [OF assms(7)]] obtain m3 where p3: "planner_ok sizeOf (log2 @ m3) p3"
    and ev: "evolves (length (pl_attempts p2)) p2 p3" by blast
  from plan_of_evolves [OF plan ev] plan have "plan_of p3 k head outcome body" by (simp add: plan_of_def)
  then have k: "k < length (pl_attempts p3)" and cut: "at_cut (attempt_of p3 k) = Some head" by (simp_all add: plan_of_def)
  from complete_ok [OF run_advances [OF assms(8)] p3 k cut assms(9)] obtain m4
    where p4: "planner_ok sizeOf ((log2 @ m3) @ m4) p4" and c: "completion_ok p4 ((log2 @ m3) @ m4) head through tail" by blast
  have "logged ((log2 @ m3) @ m4) (pl_stream p4)" using p4 by (simp add: planner_but_def stream_ok_def)
  moreover have "{c. BodyCommit c \<in> set body} \<subseteq> set log2"
    using serves by (auto simp: plan_serves_def split: recovery_outcome.splits)
  ultimately have log: "\<exists>log. logged log (pl_stream p4) \<and> set tail \<union> {c. BodyCommit c \<in> set body} \<subseteq> set log"
    using c by (intro exI [of _ "(log2 @ m3) @ m4"]) (auto simp: completion_ok_def)
  have join: "chain u (cs @ tail) through" if "chain u cs head" for u cs
    using that c chain_end [OF that] by (simp add: completion_ok_def chain_append)
  have "case outcome of
       OutcomeCurrent \<Rightarrow> rq_last request = Some (IntArg (int head)) \<and> body = []
     | OutcomeReplay \<Rightarrow> \<exists>u cs. rq_last request = Some (IntArg (int u)) \<and> body = map BodyCommit cs \<and> chain u (cs @ tail) through
     | OutcomeSnapshot reason \<Rightarrow> \<exists>sn. body = [BodySnapshot sn] \<and> sn_rev sn = head"
    using serves join by (auto simp: plan_serves_def split: recovery_outcome.splits)
  with log c show ?thesis by (simp add: completion_ok_def)
qed

text \<open>
  C15: in every state of a planner the count of active attempts is right; an attempt is active exactly as
  long as it listens to the stream; one that ended holds no commit in either queue and no bytes, and
  its place was given back; an active one counts the bytes of its tail, holds no more commits and bytes
  than its bounds, and once its cut is made nothing before the cut; and no attempt was ever failed
  for a gap.
\<close>

theorem recovery_attempts_accounted:
  assumes "made_planner encode sizeOf p0" and "planner_run encode sizeOf p0 p"
  shows "pl_active p = length (filter attempt_active (pl_attempts p)) \<and>
    (\<forall>k < length (pl_attempts p).
       at_error (attempt_of p k) \<noteq> Some TailGap \<and>
       attempt_active (attempt_of p k) = (RecoveryListener k \<in> set (ls_listeners (pl_stream p))) \<and>
       (if attempt_active (attempt_of p k)
        then at_tail_bytes (attempt_of p k) = sum_list (map sizeOf (at_tail (attempt_of p k))) \<and>
          length (at_tail (attempt_of p k)) \<le> pl_max_commits p \<and> at_tail_bytes (attempt_of p k) \<le> pl_max_bytes p \<and>
          (at_cut (attempt_of p k) \<noteq> None \<longrightarrow> at_preliminary (attempt_of p k) = [])
        else at_preliminary (attempt_of p k) = [] \<and> at_tail (attempt_of p k) = [] \<and> at_tail_bytes (attempt_of p k) = 0 \<and>
          at_released (attempt_of p k)))"
proof -
  from made_planner_ok [OF assms(1)] obtain log0 where "planner_ok sizeOf log0 p0" by blast
  from advances_step [OF this run_advances [OF assms(2)]] obtain log where ok: "planner_ok sizeOf log p" by blast
  have "at_error (attempt_of p k) \<noteq> Some TailGap \<and>
       attempt_active (attempt_of p k) = (RecoveryListener k \<in> set (ls_listeners (pl_stream p))) \<and>
       (if attempt_active (attempt_of p k)
        then at_tail_bytes (attempt_of p k) = sum_list (map sizeOf (at_tail (attempt_of p k))) \<and>
          length (at_tail (attempt_of p k)) \<le> pl_max_commits p \<and> at_tail_bytes (attempt_of p k) \<le> pl_max_bytes p \<and>
          (at_cut (attempt_of p k) \<noteq> None \<longrightarrow> at_preliminary (attempt_of p k) = [])
        else at_preliminary (attempt_of p k) = [] \<and> at_tail (attempt_of p k) = [] \<and> at_tail_bytes (attempt_of p k) = 0 \<and>
          at_released (attempt_of p k))"
    if "k < length (pl_attempts p)" for k
    using planner_attempt [OF ok that]
    by (cases "at_cut (attempt_of p k)") (auto simp: attempt_sound_def queue_sound_def attempt_active_def)
  moreover have "pl_active p = length (filter attempt_active (pl_attempts p))" using ok by (simp add: planner_but_def)
  ultimately show ?thesis by blast
qed

definition quiet_hooks :: recovery_hooks where
  "quiet_hooks = \<lparr> before_cut = Pair False, during_snapshot_capture = Pair False, after_cut = Pair False \<rparr>"

definition sample_planner :: recovery_planner where
  "sample_planner = \<lparr> pl_stream = sample_state 2 [sample_canonical 1] None 2, pl_max_commits = 256,
     pl_max_bytes = 1048576, pl_attempts = [], pl_disposers = [], pl_disposed = False, pl_active = 0, pl_current = 0,
     pl_replay = 0, pl_snapshot = 0, pl_reject = 0, pl_completed = 0, pl_dispositions = 0, pl_aborted = 0, pl_overflow = 0 \<rparr>"

lemma sample_planner_made: "made_planner encode (\<lambda>c. 60) sample_planner"
proof -
  have "make_locus_recovery_planner (sample_state 2 [sample_canonical 1] None 2) None None = Inr sample_planner"
    by (simp add: make_locus_recovery_planner_def must_bound_def sample_planner_def DEFAULT_MAX_TAIL_COMMITS_def
        DEFAULT_MAX_TAIL_BYTES_def)
  moreover have "\<forall>k. Joined (RecoveryListener k) \<notin> set (Joined (OutsideListener 7) # sample_events)"
    by (simp add: sample_events_def)
  ultimately show ?thesis unfolding made_planner_def using sample_stream_made sample_run by blast
qed

definition sample_request :: recovery_request where
  "sample_request = \<lparr> rq_map = js ''m'', rq_incarnation = Some (js ''i''), rq_last = Some (IntArg 1) \<rparr>"

lemmas recovery_eval = plan_def sample_request_def sample_planner_def quiet_hooks_def open_attempt_def finish_plan_def
  establish_cut_def settle_def put_attempt_def count_plan_def complete_def must_be_active_def close_attempt_def
  release_active_attempt_def clear_queues_def stop_subscription_def off_commit_def on_commit_def sample_stream_eval
  num_arg_index_def replay_after_def sample_canonical_def Let_def

lemma sample_recovery:
  "\<exists>p2. plan (\<lambda>c. 60) quiet_hooks capture sample_request sample_planner =
      (Inr (Planned 0 OutcomeReplay 2 [BodyCommit (sample_canonical 1)]), p2) \<and>
    (\<exists>p4. complete (\<lambda>x. Pair False) 0 p2 = (Inr (2, []), p4))"
  by (simp add: recovery_eval)

theorem recovery_is_gapless_witness:
  "\<exists>cs. [BodyCommit (sample_canonical 1)] = map BodyCommit cs \<and> chain 1 (cs @ []) 2"
proof -
  obtain p2 p4 where p: "plan (\<lambda>c. 60) quiet_hooks (\<lambda>p. CaptureThrows) sample_request sample_planner =
      (Inr (Planned 0 OutcomeReplay 2 [BodyCommit (sample_canonical 1)]), p2)"
    "complete (\<lambda>x. Pair False) 0 p2 = (Inr (2, []), p4)"
    using sample_recovery by blast
  have quiet: "planner_run (\<lambda>x. None) (\<lambda>c. 60) p (snd (before_cut quiet_hooks p))"
    "planner_run (\<lambda>x. None) (\<lambda>c. 60) p (snd (during_snapshot_capture quiet_hooks p))"
    "planner_run (\<lambda>x. None) (\<lambda>c. 60) p (snd (after_cut quiet_hooks p))" for p
    by (simp_all add: quiet_hooks_def run_done)
  from recovery_is_gapless [OF sample_planner_made run_done quiet p(1) run_done _ p(2)]
  have "\<exists>u cs. rq_last sample_request = Some (IntArg (int u)) \<and>
      [BodyCommit (sample_canonical 1)] = map BodyCommit cs \<and> chain u (cs @ []) 2"
    by (simp add: run_done)
  then show ?thesis by (auto simp: sample_request_def)
qed

theorem recovery_attempts_accounted_witness:
  "\<exists>p. plan (\<lambda>c. 60) quiet_hooks (\<lambda>p. CaptureThrows) sample_request sample_planner =
      (Inr (Planned 0 OutcomeReplay 2 [BodyCommit (sample_canonical 1)]), p) \<and> pl_active p = length (filter attempt_active (pl_attempts p))"
proof -
  obtain p2 where p: "plan (\<lambda>c. 60) quiet_hooks (\<lambda>p. CaptureThrows) sample_request sample_planner =
      (Inr (Planned 0 OutcomeReplay 2 [BodyCommit (sample_canonical 1)]), p2)"
    using sample_recovery by blast
  have "planner_run (\<lambda>x. None) (\<lambda>c. 60) sample_planner p2"
    by (rule run_plan [OF p]) (simp_all add: quiet_hooks_def run_done)
  from recovery_attempts_accounted [OF sample_planner_made this] p show ?thesis by blast
qed

end
