(* ===== verification/Projected_Identity.thy ===== *)
theory Projected_Identity
  imports Live_Editor Document_Install Data_Plan_Laws
begin

text \<open>
  The identity overlay of a projected live map (\<open>api/livemap/livemap.projected.identity.ts\<close>): which
  object or array value carries which persisted identity, as the two maps between identities and
  projected paths. It is built by a traversal of the owned root, follows the planned operations path
  by path, and is written onto a graph that was planned anew. \<open>live_path_key\<close> spells the paths that
  resolve injectively, so the second map is keyed by the paths. The counters of the module are left out.
\<close>

section \<open>The overlay\<close>

datatype overlay_error =
    OverlayPathUnresolved live_path
  | OverlayDuplicateQuid js_string
  | OverlayPathCollision live_path
  | OverlayStrayQuid
  | OverlayQuidExists js_string live_path
  | OverlayPathTaken live_path
  | OverlayPathIneligible live_path
  | OverlayQuidFault quid_error

record projected_overlay =
  po_by_quid :: "(js_string \<times> live_path) list"
  po_by_path :: "(live_path \<times> js_string) list"

definition empty_projected_overlay :: projected_overlay where
  "empty_projected_overlay = \<lparr> po_by_quid = [], po_by_path = [] \<rparr>"

definition overlay_size :: "projected_overlay \<Rightarrow> nat" where
  "overlay_size ov = length (po_by_quid ov)"

definition projected_path_for_quid :: "projected_overlay \<Rightarrow> js_string \<Rightarrow> live_path option" where
  "projected_path_for_quid ov q = map_of (po_by_quid ov) q"

definition projected_quid_at_path :: "projected_overlay \<Rightarrow> live_path \<Rightarrow> js_string option" where
  "projected_quid_at_path ov p = map_of (po_by_path ov) p"

definition livemap_projected_identity_quids :: "projected_overlay \<Rightarrow> js_string list" where
  "livemap_projected_identity_quids ov = map fst (po_by_quid ov)"

definition livemap_projected_identity_has_at_or_below :: "projected_overlay \<Rightarrow> live_path \<Rightarrow> bool" where
  "livemap_projected_identity_has_at_or_below ov path \<longleftrightarrow> (\<exists>e \<in> set (po_by_quid ov). path_is_prefix path (snd e))"

definition add_projected_entry ::
    "js_string \<Rightarrow> live_path \<Rightarrow> projected_overlay \<Rightarrow> overlay_error + projected_overlay" where
  "add_projected_entry q path ov =
     (if (case projected_path_for_quid ov q of None \<Rightarrow> False | Some prior \<Rightarrow> prior \<noteq> path)
        then Inl (OverlayDuplicateQuid q)
      else if (case projected_quid_at_path ov path of None \<Rightarrow> False | Some prior \<Rightarrow> prior \<noteq> q)
        then Inl (OverlayPathCollision path)
      else Inr \<lparr> po_by_quid = put_field q path (po_by_quid ov), po_by_path = put_field path q (po_by_path ov) \<rparr>)"

section \<open>Building\<close>

text \<open>The claims of the whole graph: malformed ones are found before duplicates.\<close>

definition scan_tree_quids :: "hson_node \<Rightarrow> overlay_error + js_string list" where
  "scan_tree_quids root =
     (case tree_claims root of
        Inl e \<Rightarrow> Inl (OverlayQuidFault e)
      | Inr qs \<Rightarrow> if distinct qs then Inr qs else Inl (OverlayQuidFault DuplicateQuid))"

definition node_eligible :: "hson_node \<Rightarrow> bool" where
  "node_eligible n \<longleftrightarrow> is_projected_container_quid_eligible (tag_of n) (node_kids n)"

definition property_tag :: "hson_item \<Rightarrow> js_string option" where
  "property_tag x =
     (case x of
        ItemPrim p \<Rightarrow> None
      | ItemNode c \<Rightarrow> if is_Node x \<and> \<not> starts_with (tag_of c) HSON_SYS_PREFIX then Some (tag_of c) else None)"

definition child_parts :: "hson_node \<Rightarrow> path_part list" where
  "child_parts n =
     (if tag_of n = ARR_TAG then map (\<lambda>i. PIdx (IntArg (int i))) [0..<length (content_of n)]
      else if tag_of n = OBJ_TAG \<and> node_eligible n then map PKey (List.map_filter property_tag (content_of n))
      else [])"

definition visit_projected :: "hson_node \<Rightarrow> live_path \<Rightarrow> projected_overlay \<Rightarrow> overlay_error + projected_overlay" where
  "visit_projected n path ov =
     (case read_hson_node_quid n of
        Inl e \<Rightarrow> Inl (OverlayQuidFault e)
      | Inr None \<Rightarrow> Inr ov
      | Inr (Some q) \<Rightarrow> add_projected_entry q path ov)"

text \<open>
  A path is resolved from the root again when it is taken from the stack. The loop ends because what
  the paths of the children resolve to is smaller than the node they were pushed for.
\<close>

definition path_weight :: "hson_node \<Rightarrow> live_path \<Rightarrow> nat" where
  "path_weight root path = (case resolve_value_node root path of None \<Rightarrow> 0 | Some n \<Rightarrow> Suc (size n))"

lemma content_size: "ItemNode c \<in> set (content_of n) \<Longrightarrow> size c < size n"
proof -
  assume c: "ItemNode c \<in> set (content_of n)"
  obtain t a m items where n: "n = HsonNode t a m items" by (cases n)
  from c n have "size (ItemNode c) \<le> size_list size items" by (auto intro: size_list_estimation')
  then show ?thesis by (simp add: n)
qed

lemma unwrap_smaller: "unwrap_value_payload w = Some n \<Longrightarrow> size n \<le> size w"
  by (auto simp: unwrap_value_payload_def split: if_splits list.splits hson_item.splits
      intro!: less_imp_le content_size)

lemma find_index_holds: "find_index f xs = Some i \<Longrightarrow> i < length xs \<and> f (xs ! i)"
  by (induction xs arbitrary: i) (auto split: if_splits)

lemma child_wrapper_smaller: "find_child_wrapper n part = Some w \<Longrightarrow> size w < size n"
proof -
  assume "find_child_wrapper n part = Some w"
  then obtain i where i: "child_slot n part = Some i" and w: "w = item_node (content_of n ! i)"
    by (auto simp: find_child_wrapper_def)
  then obtain t where "i < length (content_of n)" "is_wrapper t (content_of n ! i)"
    by (auto simp: child_slot_def split: path_part.splits if_splits option.splits dest!: find_index_holds)
  then have "ItemNode w \<in> set (content_of n)"
    using w by (auto simp: is_wrapper_def in_set_conv_nth split: hson_item.splits)
  then show ?thesis by (rule content_size)
qed

lemma resolve_wrapper_append:
  "resolve_wrapper_node root (p @ r) =
     (if r = [] then resolve_wrapper_node root p
      else Option.bind (resolve_wrapper_node root p) (\<lambda>w. resolve_wrapper_node w r))"
  by (induction p arbitrary: root) (auto split: option.split)

lemma resolve_value_snoc:
  "resolve_value_node root (p @ [part]) =
     Option.bind (resolve_value_node root p) (\<lambda>n. Option.bind (find_child_wrapper n part) unwrap_value_payload)"
  by (auto simp: resolve_value_node_def resolve_wrapper_append split: option.split bind_splits)

lemma child_weight:
  assumes "resolve_value_node root path = Some n"
  shows "path_weight root (path @ [part]) < path_weight root path"
proof (cases "resolve_value_node root (path @ [part])")
  case (Some c)
  with assms obtain w where "find_child_wrapper n part = Some w" "unwrap_value_payload w = Some c"
    by (auto simp: resolve_value_snoc split: bind_splits)
  then have "size c < size n" using child_wrapper_smaller unwrap_smaller by (metis le_less_trans)
  with assms Some show ?thesis by (simp add: path_weight_def)
qed (use assms in \<open>simp add: path_weight_def\<close>)

function build_projected_loop ::
    "hson_node \<Rightarrow> live_path list \<Rightarrow> projected_overlay \<Rightarrow> overlay_error + projected_overlay" where
  "build_projected_loop root [] ov = Inr ov"
| "build_projected_loop root (path # stack) ov =
     (case resolve_value_node root path of
        None \<Rightarrow> Inl (OverlayPathUnresolved path)
      | Some n \<Rightarrow>
          rbind (visit_projected n path ov)
            (build_projected_loop root (map (append_live_path path) (child_parts n) @ stack)))"
  by pat_completeness auto
termination
proof (relation "inv_image (mult less_than) (\<lambda>(root, stack, ov). mset (map (path_weight root) stack))")
  fix root path stack ov n and x :: projected_overlay
  assume "resolve_value_node root path = Some n"
  then have "\<forall>k \<in># mset (map (path_weight root) (map (append_live_path path) (child_parts n))).
      \<exists>j \<in># {#path_weight root path#}. (k, j) \<in> less_than"
    using child_weight by (auto simp: append_live_path_def)
  then show "((root, map (append_live_path path) (child_parts n) @ stack, x), (root, path # stack, ov))
      \<in> inv_image (mult less_than) (\<lambda>(root, stack, ov). mset (map (path_weight root) stack))"
    using one_step_implies_mult [of "{#path_weight root path#}"
      "mset (map (path_weight root) (map (append_live_path path) (child_parts n)))" less_than
      "mset (map (path_weight root) stack)"]
    by (simp add: ac_simps multiset.map_comp comp_def)
qed (simp add: wf_mult)

definition build_livemap_projected_identity_overlay :: "hson_node \<Rightarrow> overlay_error + projected_overlay" where
  "build_livemap_projected_identity_overlay root =
     rbind (scan_tree_quids root) (\<lambda>claims.
     rbind (build_projected_loop root [[]] empty_projected_overlay) (\<lambda>ov.
       if overlay_size ov \<noteq> length claims then Inl OverlayStrayQuid else Inr ov))"

section \<open>Following operations\<close>

text \<open>
  Where a path leads after one operation; \<open>None\<close> when what it named is gone. The indexes of a planned
  operation and of a path that resolves are integers.
\<close>

definition transform_rename :: "live_path \<Rightarrow> live_path \<Rightarrow> js_string \<Rightarrow> js_string \<Rightarrow> live_path option" where
  "transform_rename path parent src dst =
     (if src = dst \<or> \<not> path_is_prefix parent path \<or> length path = length parent then Some path
      else if path ! length parent = PKey src
        then Some (parent @ PKey dst # drop (length parent + 1) path)
      else if path ! length parent = PKey dst then None
      else Some path)"

definition moved_index :: "int \<Rightarrow> int \<Rightarrow> int \<Rightarrow> int" where
  "moved_index src dst i =
     (if i = src then dst
      else if src < dst \<and> src < i \<and> i \<le> dst then i - 1
      else if dst < src \<and> dst \<le> i \<and> i < src then i + 1
      else i)"

definition transform_move :: "live_path \<Rightarrow> live_path \<Rightarrow> num_arg \<Rightarrow> num_arg \<Rightarrow> live_path" where
  "transform_move path parent src dst =
     (if src = dst \<or> \<not> path_is_prefix parent path \<or> length path = length parent then path
      else (case (path ! length parent, src, dst) of
          (PIdx (IntArg i), IntArg a, IntArg b) \<Rightarrow>
            if moved_index a b i = i then path
            else parent @ PIdx (IntArg (moved_index a b i)) # drop (length parent + 1) path
        | _ \<Rightarrow> path))"

definition transform_splice ::
    "live_path \<Rightarrow> live_path \<Rightarrow> num_arg \<Rightarrow> nat \<Rightarrow> nat \<Rightarrow> live_path option" where
  "transform_splice path parent start removed inserted =
     (if \<not> path_is_prefix parent path \<or> length path = length parent then Some path
      else (case (path ! length parent, start) of
          (PIdx (IntArg i), IntArg s) \<Rightarrow>
            if s \<le> i \<and> i < s + int removed then None
            else if i < s + int removed then Some path
            else (let j = i + int inserted - int removed in
              if j = i then Some path else Some (parent @ PIdx (IntArg j) # drop (length parent + 1) path))
        | _ \<Rightarrow> Some path))"

fun transform_path :: "live_path \<Rightarrow> projected_op \<Rightarrow> live_path option" where
  "transform_path path (RenameData parent src dst prev next') = transform_rename path parent src dst"
| "transform_path path (MoveData parent src dst prev next') = Some (transform_move path parent src dst)"
| "transform_path path (SpliceData parent start removed inserted prev next') =
     transform_splice path parent start (length removed) (length inserted)"
| "transform_path path (PutData kind p prev next') = (if path_is_prefix p path then None else Some path)"
| "transform_path path (DropData p prev) = (if path_is_prefix p path then None else Some path)"

fun transform_through :: "live_path \<Rightarrow> projected_op list \<Rightarrow> live_path option" where
  "transform_through path [] = Some path"
| "transform_through path (op # ops) =
     (case transform_path path op of None \<Rightarrow> None | Some p \<Rightarrow> transform_through p ops)"

fun reconcile_projected_entries ::
    "projected_op list \<Rightarrow> (js_string \<times> live_path) list \<Rightarrow> projected_overlay \<Rightarrow> overlay_error + projected_overlay" where
  "reconcile_projected_entries ops [] ov = Inr ov"
| "reconcile_projected_entries ops ((q, path) # es) ov =
     (case transform_through path ops of
        None \<Rightarrow> reconcile_projected_entries ops es ov
      | Some p \<Rightarrow> rbind (add_projected_entry q p ov) (reconcile_projected_entries ops es))"

definition reconcile_livemap_projected_identity_overlay ::
    "projected_overlay \<Rightarrow> projected_op list \<Rightarrow> overlay_error + projected_overlay" where
  "reconcile_livemap_projected_identity_overlay current ops =
     (if ops = [] \<or> overlay_size current = 0 then Inr current
      else reconcile_projected_entries ops (po_by_quid current) empty_projected_overlay)"

definition register_livemap_projected_identity_at_path ::
    "projected_overlay \<Rightarrow> js_string \<Rightarrow> live_path \<Rightarrow> overlay_error + projected_overlay" where
  "register_livemap_projected_identity_at_path current q path =
     (if (case projected_path_for_quid current q of None \<Rightarrow> False | Some existing \<Rightarrow> existing \<noteq> path)
        then Inl (OverlayQuidExists q path)
      else if (case projected_quid_at_path current path of None \<Rightarrow> False | Some existing \<Rightarrow> existing \<noteq> q)
        then Inl (OverlayPathTaken path)
      else if projected_quid_at_path current path = Some q then Inr current
      else add_projected_entry q path
        \<lparr> po_by_quid = po_by_quid current, po_by_path = fold (\<lambda>(k, p). put_field p k) (po_by_quid current) [] \<rparr>)"

section \<open>Writing the overlay onto a graph\<close>

definition assign_at_path :: "hson_node \<Rightarrow> js_string \<Rightarrow> live_path \<Rightarrow> overlay_error + hson_node" where
  "assign_at_path root q path =
     (case resolve_value_node root path of
        None \<Rightarrow> Inl (OverlayPathIneligible path)
      | Some n \<Rightarrow>
          if \<not> node_eligible n then Inl (OverlayPathIneligible path)
          else (case assign_hson_node_quid n (PStr q) of
              Inl e \<Rightarrow> Inl (OverlayQuidFault e)
            | Inr (q', n') \<Rightarrow>
                (case modify_value_node (\<lambda>x. Inr n') root path of
                   Some (Inr r) \<Rightarrow> Inr r
                 | _ \<Rightarrow> Inl (OverlayPathIneligible path))))"

fun apply_projected_entries :: "hson_node \<Rightarrow> (js_string \<times> live_path) list \<Rightarrow> overlay_error + hson_node" where
  "apply_projected_entries root [] = Inr root"
| "apply_projected_entries root ((q, path) # es) =
     rbind (assign_at_path root q path) (\<lambda>r. apply_projected_entries r es)"

definition apply_livemap_projected_identity_overlay ::
    "hson_node \<Rightarrow> projected_overlay \<Rightarrow> overlay_error + hson_node" where
  "apply_livemap_projected_identity_overlay root ov = apply_projected_entries root (po_by_quid ov)"

end
