(* ===== verification/Projected_Identity_Laws.thy ===== *)
theory Projected_Identity_Laws
  imports Projected_Identity Editor_Laws
begin

text \<open>
  The overlay of a projected live map follows the containers of the carrier: transformed paths, the
  reconciled overlay, and the overlay written onto the graph of the carrier.
\<close>

section \<open>Containers and the values around them\<close>

definition same_kind :: "opv \<Rightarrow> opv \<Rightarrow> bool" where
  "same_kind u v \<longleftrightarrow>
     (case (u, v) of (OArr xs, OArr ys) \<Rightarrow> True | (OObj xs, OObj ys) \<Rightarrow> True | (OPrim p, OPrim q) \<Rightarrow> True | _ \<Rightarrow> False)"

lemma same_kind_simps [simp]:
  "same_kind u u" "same_kind (OArr xs) (OArr ys)" "same_kind (OObj as) (OObj bs)"
  by (simp_all add: same_kind_def split: opv.split)

lemma same_kind_container: "same_kind u v \<Longrightarrow> is_container u \<longleftrightarrow> is_container v"
  by (cases u; cases v) (simp_all add: same_kind_def is_container_def)

lemma step_part_part:
  assumes "step_part (Some v) part = Some u"
  shows "part_proper part"
  using assms
  by (cases part; cases v) (auto simp: step_part_OArr array_slot_Some num_arg_index_proper simp del: step_part.simps
      dest: num_arg_index_proper, auto)

lemma value_at_proper: "ordered_projected_value_at v p = Some u \<Longrightarrow> list_all part_proper p"
proof (induction p arbitrary: v)
  case (Cons part p)
  then obtain d where d: "step_part (Some v) part = Some d" and "ordered_projected_value_at d p = Some u"
    by (cases "step_part (Some v) part") (auto simp: value_at_Cons)
  with Cons.IH step_part_part [OF d] show ?case by simp
qed simp

lemma prefix_of_resolved:
  assumes "ordered_projected_value_at v p = Some u"
  shows "path_is_prefix q p \<longleftrightarrow> (\<exists>r. p = q @ r)"
  using value_at_proper [OF assms] by (auto simp: path_is_prefix_iff list_all_iff)

lemma value_at_parts:
  "ordered_projected_value_at v (p @ r) = Some u \<longleftrightarrow>
     (\<exists>d. ordered_projected_value_at v p = Some d \<and> ordered_projected_value_at d r = Some u)"
  by (cases "ordered_projected_value_at v p") (auto simp: value_at_append)

section \<open>What an edit leaves above its place\<close>

lemma edited_above:
  assumes "edited L v path v'" and "\<And>v part v'. L v part v' \<Longrightarrow> same_kind v v'"
    and "path = p @ r" and "r \<noteq> []" and "ordered_projected_value_at v p = Some u"
  shows "\<exists>u'. ordered_projected_value_at v' p = Some u' \<and> same_kind u u'"
  using assms(1,3,4,5)
proof (induction arbitrary: p rule: edited.induct)
  case (leaf v part v')
  from leaf.prems(1,2) have "p = []" by (cases p) auto
  with leaf assms(2) show ?case by auto
next
  case (item path vs a i c)
  show ?case
  proof (cases p)
    case (Cons b q)
    with item.prems(1) have "b = PIdx a" "path = q @ r" by auto
    with item.IH [of q] item.prems Cons item.hyps show ?thesis by (auto simp: value_at_slot)
  qed (use item in auto)
next
  case (entry path es k i c)
  show ?case
  proof (cases p)
    case (Cons b q)
    with entry.prems(1) have "b = PKey k" "path = q @ r" by auto
    with entry.IH [of q] entry.prems Cons entry.hyps show ?thesis by (auto simp: value_at_entry)
  qed (use entry in auto)
qed

lemma leaf_same_kind:
  "leaf_write x v part v' \<Longrightarrow> same_kind v v'" "leaf_delete v part v' \<Longrightarrow> same_kind v v'"
  by (auto simp: leaf_write_def leaf_delete_def elim!: write_at_cases delete_at_cases)

lemma replace_above:
  assumes "ordered_projected_value_replace root (p @ r) x = Inr c" and "r \<noteq> []"
    and "ordered_projected_value_at root p = Some u"
  shows "\<exists>u'. ordered_projected_value_at c p = Some u' \<and> same_kind u u'"
proof -
  from assms(1,2) have "write_at root (p @ r) x True = Inr c"
    by (auto simp: ordered_projected_value_replace_def intro: write_at_weaken split: if_splits)
  then have "edited (leaf_write x) root (p @ r) c" using assms(2) by (intro write_edited) auto
  from edited_above [OF this leaf_same_kind(1) refl assms(2,3)] show ?thesis .
qed

lemma set_above:
  assumes "ordered_projected_value_set root (p @ r) x = Inr c" and "r \<noteq> []"
    and "ordered_projected_value_at root p = Some u"
  shows "\<exists>u'. ordered_projected_value_at c p = Some u' \<and> same_kind u u'"
proof -
  from assms(1,2) have "edited (leaf_write x) root (p @ r) c"
    by (auto simp: ordered_projected_value_set_def intro!: write_edited split: if_splits)
  from edited_above [OF this leaf_same_kind(1) refl assms(2,3)] show ?thesis .
qed

lemma delete_above:
  assumes "ordered_projected_value_delete root (p @ r) = Inr c" and "r \<noteq> []"
    and "ordered_projected_value_at root p = Some u"
  shows "\<exists>u'. ordered_projected_value_at c p = Some u' \<and> same_kind u u'"
proof -
  from assms(1,2) have "edited leaf_delete root (p @ r) c"
    by (auto simp: ordered_projected_value_delete_def intro!: delete_edited split: if_splits)
  from edited_above [OF this leaf_same_kind(2) refl assms(2,3)] show ?thesis .
qed

text \<open>How a path lies to the place of an operation.\<close>

lemma path_position:
  obtains (below) r where "p = path @ r" | (above) r where "path = p @ r" "r \<noteq> []"
  | (apart) "\<not> (\<exists>r. p = path @ r)" "\<not> (\<exists>r. path = p @ r)"
  by (metis append_Nil2)

lemma apart_overlap:
  assumes "ordered_projected_value_at v p = Some u" and "\<not> (\<exists>r. p = path @ r)" and "\<not> (\<exists>r. path = p @ r)"
  shows "\<not> paths_overlap path p"
  using assms by (auto simp: paths_overlap_def path_is_prefix_iff)

lemma replaced_container:
  assumes "opv_ok root" and "opv_ok x" and "same_kind old x" and "ordered_projected_value_at root path = Some old"
    and "ordered_projected_value_replace root path x = Inr c"
  shows "ordered_projected_value_at c (path @ r) = ordered_projected_value_at x r"
    and "ordered_projected_value_at root p = Some u \<Longrightarrow> \<not> (\<exists>r. p = path @ r) \<Longrightarrow>
      \<exists>u'. ordered_projected_value_at c p = Some u' \<and> same_kind u u' \<and> ((\<exists>r. path = p @ r) \<or> u' = u)"
proof -
  show "ordered_projected_value_at c (path @ r) = ordered_projected_value_at x r"
    using ops.at_replace_same [OF assms(1,2,5)] by (simp add: value_at_append)
next
  assume p: "ordered_projected_value_at root p = Some u" "\<not> (\<exists>r. p = path @ r)"
  show "\<exists>u'. ordered_projected_value_at c p = Some u' \<and> same_kind u u' \<and> ((\<exists>r. path = p @ r) \<or> u' = u)"
  proof (cases rule: path_position [of p path])
    case (above r)
    then show ?thesis using replace_above [of root p r x c u] assms(5) p(1) by auto
  next
    case apart
    from ops.at_replace_disjoint [OF assms(1,2,5) apart_overlap [OF p(1) apart]] p(1) show ?thesis by auto
  qed (use p in auto)
qed

lemma explained_rename:
  assumes "opv_ok root" and "op_explains root (RenameData path src dst prev next') c"
  obtains "ordered_projected_value_at root path = Some (OObj prev)" "src \<noteq> dst"
    "next' = rename_entries src dst prev" "ordered_projected_value_replace root path (OObj next') = Inr c"
    "opv_ok (OObj next')"
proof -
  note w = rename_written [OF assms]
  from assms(2) obtain es where es: "ordered_projected_value_at root path = Some (OObj es)" and ne: "src \<noteq> dst"
    and r: "ordered_projected_object_rename root path src dst = Inr c"
    and p: "prev = es" and n: "ordered_projected_value_at c path = Some (OObj next')"
    by (auto simp: op_explains_def rbind_Inr_iff must_value_iff split: if_splits)
  from r es ne obtain nx where nx: "ordered_projected_object (rename_entries src dst es) = Inr nx"
    and rep: "ordered_projected_value_replace root path nx = Inr c"
    by (auto simp: ordered_projected_object_rename_def rbind_Inr_iff split: option.splits)
  from nx have x: "nx = OObj (rename_entries src dst es)" "opv_ok nx" by (auto simp: ordered_projected_object_iff)
  with ops.at_replace_same [OF assms(1) x(2) rep] n have "next' = rename_entries src dst es" by simp
  with that es ne w p x show ?thesis by simp
qed

lemma explained_move:
  assumes "opv_ok root" and "op_explains root (MoveData path src dst prev next') c"
  obtains i j where "ordered_projected_value_at root path = Some (OArr prev)" "src = IntArg (int i)" "dst = IntArg (int j)"
    "i < length prev" "j < length prev" "i \<noteq> j"
    "next' = move_items i j prev" "ordered_projected_value_replace root path (OArr next') = Inr c" "opv_ok (OArr next')"
proof -
  note w = move_written [OF assms]
  from assms(2) obtain vs where vs: "ordered_projected_value_at root path = Some (OArr vs)" and ne: "src \<noteq> dst"
    and must: "must_core_move_index vs path src MoveSource = Inr ()" "must_core_move_index vs path dst MoveDestination = Inr ()"
    and r: "ordered_projected_array_move root path src dst = Inr c"
    and p: "prev = vs" and n: "ordered_projected_value_at c path = Some (OArr next')"
    by (auto simp: op_explains_def rbind_Inr_iff must_value_iff split: if_splits)
  from must obtain i j where ij: "safe_index src (length vs) = Some i" "safe_index dst (length vs) = Some j"
    by (auto simp: must_core_move_index_def split: if_splits)
  then have eqs: "src = IntArg (int i)" "dst = IntArg (int j)" "i < length vs" "j < length vs"
    by (auto simp: safe_index_def num_arg_index_def split: if_splits option.splits num_arg.splits)
  with ne have "i \<noteq> j" by auto
  from r vs ij \<open>i \<noteq> j\<close> have ok: "opv_ok (OArr (move_items i j vs))"
    and rep: "ordered_projected_value_replace root path (OArr (move_items i j vs)) = Inr c"
    by (auto simp: ordered_projected_array_move_def rbind_Inr_iff ordered_projected_array_iff)
  with ops.at_replace_same [OF assms(1) ok rep] n have "next' = move_items i j vs" by simp
  with that [of i j] vs p eqs \<open>i \<noteq> j\<close> w ok show ?thesis by simp
qed

lemma explained_splice:
  assumes "opv_ok root" and "op_explains root (SpliceData path start removed inserted prev next') c"
  obtains i where "ordered_projected_value_at root path = Some (OArr prev)" "start = IntArg (int i)"
    "i + length removed \<le> length prev" "next' = splice_items i (length removed) inserted prev"
    "ordered_projected_value_replace root path (OArr next') = Inr c" "opv_ok (OArr next')"
proof -
  note w = splice_written [OF assms]
  from assms(2) obtain r where s: "ordered_projected_array_splice root path start (IntArg (int (length removed))) inserted
      = Inr (c, r)"
    and p: "ordered_projected_value_at root path = Some (OArr prev)" and n: "ordered_projected_value_at c path = Some (OArr next')"
    by (auto simp: op_explains_def rbind_Inr_iff split: if_splits)
  from s obtain vs i d where v: "ordered_projected_value_at root path = Some (OArr vs)"
    "num_arg_index start = Some i" "num_arg_index (IntArg (int (length removed))) = Some d" "i + d \<le> length vs"
    "opv_ok (OArr (splice_items i d inserted vs))"
    "ordered_projected_value_replace root path (OArr (splice_items i d inserted vs)) = Inr c"
    by (rule splice_result)
  then have "d = length removed" "start = IntArg (int i)"
    by (auto simp: num_arg_index_def split: num_arg.splits if_splits)
  moreover from ops.at_replace_same [OF assms(1) v(5,6)] n have "next' = splice_items i d inserted vs" by simp
  ultimately show ?thesis using that [of i] v p w by simp
qed

text \<open>Where the parts of an array and of an object are after an operation on it.\<close>

lemma splice_items_nth:
  assumes "i + d \<le> length xs" and "j < length xs" and "j < i \<or> i + d \<le> j"
  shows "(if j < i then j else j + length items - d) < length (splice_items i d items xs)"
    and "splice_items i d items xs ! (if j < i then j else j + length items - d) = xs ! j"
  using assms by (auto simp: splice_items_def nth_append min_def)

lemma remove_nth_nth: "k < length xs - 1 \<Longrightarrow> remove_nth i xs ! k = (if k < i then xs ! k else xs ! Suc k)"
  if "i < length xs" for xs :: "'a list"
  using that by (auto simp: remove_nth_def nth_append min_def)

lemma moved_items_nth:
  assumes "i < length xs" and "j < length xs" and "k < length xs"
  shows "nat (moved_index (int i) (int j) (int k)) < length (move_items i j xs)"
    and "move_items i j xs ! nat (moved_index (int i) (int j) (int k)) = xs ! k"
    and "0 \<le> moved_index (int i) (int j) (int k)"
proof -
  have len: "length (move_items i j xs) = length xs"
    using mset_move_items [OF assms(1), of j] by (metis size_mset)
  show "nat (moved_index (int i) (int j) (int k)) < length (move_items i j xs)" "0 \<le> moved_index (int i) (int j) (int k)"
    using assms by (auto simp: len moved_index_def)
  have r: "length (remove_nth i xs) = length xs - 1" using assms(1) by (simp add: remove_nth_def)
  show "move_items i j xs ! nat (moved_index (int i) (int j) (int k)) = xs ! k"
    using assms r
    by (auto simp: move_items_def insert_nth_def moved_index_def nth_append remove_nth_nth min_def nat_diff_distrib nat_add_distrib
        Suc_diff_Suc split: if_splits)
qed

section \<open>A path follows the container it names\<close>

text \<open>
  \<open>tracks root path c path'\<close>: in \<open>c\<close> the path \<open>path'\<close> holds a container of the kind \<open>path\<close> holds in
  \<open>root\<close>, and the very same value unless the place \<open>at\<close> of the operation lies at or below it.
\<close>

definition tracks :: "live_path \<Rightarrow> opv \<Rightarrow> live_path \<Rightarrow> opv \<Rightarrow> live_path \<Rightarrow> bool" where
  "tracks place root p c p' \<longleftrightarrow>
     (\<forall>u. ordered_projected_value_at root p = Some u \<longrightarrow>
       (\<exists>u'. ordered_projected_value_at c p' = Some u' \<and> same_kind u u' \<and> ((\<exists>r. place = p @ r) \<or> u' = u)))"

lemma transform_outside:
  assumes "\<not> (\<exists>r. p = path @ r)"
  shows "transform_rename p path src dst = Some p" "transform_move p path a b = p" "transform_splice p path s m n = Some p"
    and "p = path \<Longrightarrow> False"
  using assms by (auto simp: transform_rename_def transform_move_def transform_splice_def path_is_prefix_iff)

lemma transform_at [simp]:
  "transform_rename path path src dst = Some path" "transform_move path path a b = path" "transform_splice path path s m n = Some path"
  by (simp_all add: transform_rename_def transform_move_def transform_splice_def)

lemma moved_below:
  assumes "list_all part_proper path"
  shows "transform_rename (path @ part # r) path src dst =
      (if src = dst then Some (path @ part # r) else if part = PKey src then Some (path @ PKey dst # r)
       else if part = PKey dst then None else Some (path @ part # r))"
    and "transform_move (path @ PIdx (IntArg k) # r) path (IntArg a) (IntArg b) =
      (if a = b then path @ PIdx (IntArg k) # r else path @ PIdx (IntArg (moved_index a b k)) # r)"
    and "transform_splice (path @ PIdx (IntArg k) # r) path (IntArg s) m n =
      (if s \<le> k \<and> k < s + int m then None
       else Some (path @ PIdx (IntArg (if k < s then k else k + int n - int m)) # r))"
  using assms by (auto simp: transform_rename_def transform_move_def transform_splice_def path_is_prefix_iff Let_def nth_append)

lemma rename_tracks:
  assumes "opv_ok root" and "op_explains root (RenameData path src dst prev next') c"
    and "ordered_projected_value_at root p = Some u" and "transform_rename p path src dst = Some p'"
  shows "tracks path root p c p'"
proof -
  from assms(1,2) have f: "ordered_projected_value_at root path = Some (OObj prev)" "src \<noteq> dst"
    "next' = rename_entries src dst prev" "ordered_projected_value_replace root path (OObj next') = Inr c" "opv_ok (OObj next')"
    by (rule explained_rename; simp)+
  note rep = replaced_container [OF assms(1) f(5) _ f(1,4)]
  have proper: "list_all part_proper path" using f(1) by (rule value_at_proper)
  show ?thesis
  proof (cases "\<exists>r. p = path @ r")
    case False
    then show ?thesis using rep(2) [of p u] transform_outside [OF False] assms(3,4) by (auto simp: tracks_def)
  next
    case True
    then obtain r where r: "p = path @ r" by blast
    show ?thesis
    proof (cases r)
      case Nil
      then show ?thesis using r assms(4) rep(1) [of "[]"] f(1) by (auto simp: tracks_def)
    next
      case (Cons part q)
      from assms(3) r Cons f(1) have at: "ordered_projected_value_at (OObj prev) (part # q) = Some u" by (auto simp: value_at_parts)
      then obtain k where k: "part = PKey k" by (cases part) (auto simp: value_at_Cons split: option.splits)
      have p': "p' = path @ PKey (if k = src then dst else k) # q" "k \<noteq> dst \<or> k = src"
        using assms(4) moved_below(1) [OF proper, of part q src dst] r Cons k f(2) by (auto split: if_splits)
      have dist: "distinct (map fst prev)" using value_at_ok [OF assms(1) f(1)] by simp
      have "map_of next' (if k = src then dst else k) = map_of prev k"
        using p'(2) f(2,3) map_of_rename_entries [OF dist f(2)] by auto
      then have "ordered_projected_value_at (OObj next') (PKey (if k = src then dst else k) # q) = Some u"
        using at k by (simp add: value_at_Cons step_part_OObj del: step_part.simps)
      then show ?thesis using p' rep(1) assms(3) by (auto simp: tracks_def)
    qed
  qed
qed

lemma array_part:
  assumes "ordered_projected_value_at (OArr vs) (part # q) = Some u"
  obtains k where "part = PIdx (IntArg (int k))" "k < length vs" "ordered_projected_value_at (vs ! k) q = Some u"
proof -
  from assms obtain a where a: "part = PIdx a" by (cases part) (auto simp: value_at_Cons)
  with assms obtain k where "array_slot vs a = Some k" "ordered_projected_value_at (vs ! k) q = Some u"
    by (cases "array_slot vs a") (auto simp: value_at_Cons step_part_OArr simp del: step_part.simps)
  with a show ?thesis
    using that [of k] by (auto simp: array_slot_Some num_arg_index_def split: num_arg.splits if_splits)
qed

lemma array_part_at: "k < length vs \<Longrightarrow>
    ordered_projected_value_at (OArr vs) (PIdx (IntArg (int k)) # q) = ordered_projected_value_at (vs ! k) q"
  by (rule value_at_slot(1)) (simp add: array_slot_Some num_arg_index_def)

lemma move_tracks:
  assumes "opv_ok root" and "op_explains root (MoveData path src dst prev next') c"
    and "ordered_projected_value_at root p = Some u"
  shows "tracks path root p c (transform_move p path src dst)"
proof -
  from explained_move [OF assms(1,2)] obtain i j where f: "ordered_projected_value_at root path = Some (OArr prev)"
    "src = IntArg (int i)" "dst = IntArg (int j)" "i < length prev" "j < length prev" "i \<noteq> j"
    "next' = move_items i j prev" "ordered_projected_value_replace root path (OArr next') = Inr c" "opv_ok (OArr next')" by metis
  note rep = replaced_container [OF assms(1) f(9) _ f(1,8)]
  have proper: "list_all part_proper path" using f(1) by (rule value_at_proper)
  show ?thesis
  proof (cases "\<exists>r. p = path @ r")
    case False
    then show ?thesis using rep(2) [of p u] transform_outside [OF False] assms(3) by (auto simp: tracks_def)
  next
    case True
    then obtain r where r: "p = path @ r" by blast
    show ?thesis
    proof (cases r)
      case Nil
      then show ?thesis using r rep(1) [of "[]"] f(1) by (auto simp: tracks_def)
    next
      case (Cons part q)
      from assms(3) r Cons f(1) have "ordered_projected_value_at (OArr prev) (part # q) = Some u" by (auto simp: value_at_parts)
      then obtain k where k: "part = PIdx (IntArg (int k))" "k < length prev" "ordered_projected_value_at (prev ! k) q = Some u"
        by (rule array_part)
      let ?m = "moved_index (int i) (int j) (int k)"
      note m = moved_items_nth [OF f(4,5) k(2)]
      have "transform_move p path src dst = path @ PIdx (IntArg (int (nat ?m))) # q"
        using moved_below(2) [OF proper, of "int k" q "int i" "int j"] r Cons k f(2,3,6) m(3) by simp
      moreover have "ordered_projected_value_at (OArr next') (PIdx (IntArg (int (nat ?m))) # q) = Some u"
        using array_part_at [of "nat ?m" next' q] m k(3) f(7) by simp
      ultimately show ?thesis using rep(1) assms(3) by (auto simp: tracks_def)
    qed
  qed
qed

lemma splice_tracks:
  assumes "opv_ok root" and "op_explains root (SpliceData path start removed inserted prev next') c"
    and "ordered_projected_value_at root p = Some u"
    and "transform_splice p path start (length removed) (length inserted) = Some p'"
  shows "tracks path root p c p'"
proof -
  from explained_splice [OF assms(1,2)] obtain i where f: "ordered_projected_value_at root path = Some (OArr prev)"
    "start = IntArg (int i)" "i + length removed \<le> length prev" "next' = splice_items i (length removed) inserted prev"
    "ordered_projected_value_replace root path (OArr next') = Inr c" "opv_ok (OArr next')" by metis
  note rep = replaced_container [OF assms(1) f(6) _ f(1,5)]
  have proper: "list_all part_proper path" using f(1) by (rule value_at_proper)
  show ?thesis
  proof (cases "\<exists>r. p = path @ r")
    case False
    then show ?thesis using rep(2) [of p u] transform_outside [OF False] assms(3,4) by (auto simp: tracks_def)
  next
    case True
    then obtain r where r: "p = path @ r" by blast
    show ?thesis
    proof (cases r)
      case Nil
      then show ?thesis using r rep(1) [of "[]"] f(1) assms(4) by (auto simp: tracks_def)
    next
      case (Cons part q)
      from assms(3) r Cons f(1) have "ordered_projected_value_at (OArr prev) (part # q) = Some u" by (auto simp: value_at_parts)
      then obtain k where k: "part = PIdx (IntArg (int k))" "k < length prev" "ordered_projected_value_at (prev ! k) q = Some u"
        by (rule array_part)
      let ?m = "if k < i then k else k + length inserted - length removed"
      have t: "k < i \<or> i + length removed \<le> k" "p' = path @ PIdx (IntArg (int ?m)) # q"
        using assms(4) moved_below(3) [OF proper, of "int k" q "int i" "length removed" "length inserted"] r Cons k(1) f(2)
        by (auto simp: of_nat_diff split: if_splits)
      note m = splice_items_nth [OF f(3) k(2) t(1), of inserted]
      have "ordered_projected_value_at (OArr next') (PIdx (IntArg (int ?m)) # q) = Some u"
        using array_part_at [of ?m next' q] m k(3) f(4) by simp
      then show ?thesis using rep(1) assms(3) t(2) by (auto simp: tracks_def)
    qed
  qed
qed

lemma op_tracks:
  assumes "opv_ok root" and "op_explains root op c" and "ordered_projected_value_at root p = Some u"
    and "transform_path p op = Some p'"
  shows "tracks (op_path op) root p c p'"
proof (cases op)
  case (PutData kind path prev v)
  with assms(4) have p': "p' = p" "\<not> (\<exists>r. p = path @ r)"
    using prefix_of_resolved [OF assms(3), of path] by (auto split: if_splits)
  have "\<exists>u'. ordered_projected_value_at c p = Some u' \<and> same_kind u u' \<and> ((\<exists>r. path = p @ r) \<or> u' = u)"
  proof (cases kind)
    case PutSet
    with PutData assms(2) have s: "ordered_projected_value_set root path v = Inr c"
      by (auto simp: op_explains_def rbind_Inr_iff Let_def)
    then have w: "write_at root path v True = Inr c" by (simp add: ordered_projected_value_set_def split: if_splits)
    show ?thesis
    proof (cases rule: path_position [of p path])
      case (above r)
      then show ?thesis using set_above [of root p r v c u] s assms(3) by auto
    next
      case apart
      from write_at_disjoint [OF w apart_overlap [OF assms(3) apart]] assms(3) show ?thesis by auto
    qed (use p' in auto)
  next
    case PutReplace
    with PutData assms(2) have s: "ordered_projected_value_replace root path v = Inr c"
      by (auto simp: op_explains_def rbind_Inr_iff)
    have "path \<noteq> []" using p'(2) by auto
    with s have w: "write_at root path v False = Inr c" by (simp add: ordered_projected_value_replace_def split: if_splits)
    show ?thesis
    proof (cases rule: path_position [of p path])
      case (above r)
      then show ?thesis using replace_above [of root p r v c u] s assms(3) by auto
    next
      case apart
      from write_at_disjoint [OF w apart_overlap [OF assms(3) apart]] assms(3) show ?thesis by auto
    qed (use p' in auto)
  qed
  with PutData p' assms(3) show ?thesis by (auto simp: tracks_def)
next
  case (DropData path prev)
  with assms(4) have p': "p' = p" "\<not> (\<exists>r. p = path @ r)"
    using prefix_of_resolved [OF assms(3), of path] by (auto split: if_splits)
  from DropData assms(2) have s: "ordered_projected_value_delete root path = Inr c"
    by (auto simp: op_explains_def rbind_Inr_iff)
  then have w: "delete_at root path = Inr c" by (simp add: ordered_projected_value_delete_def split: if_splits)
  have "\<exists>u'. ordered_projected_value_at c p = Some u' \<and> same_kind u u' \<and> ((\<exists>r. path = p @ r) \<or> u' = u)"
  proof (cases rule: path_position [of p path])
    case (above r)
    then show ?thesis using delete_above [of root p r c u] s assms(3) by auto
  next
    case apart
    from delete_at_disjoint [OF assms(1) w apart_overlap [OF assms(3) apart]] assms(3) show ?thesis by auto
  qed (use p' in auto)
  with DropData p' assms(3) show ?thesis by (auto simp: tracks_def)
next
  case (SpliceData path start removed inserted prev next')
  then show ?thesis using splice_tracks assms by simp
next
  case (RenameData path src dst prev next')
  then show ?thesis using rename_tracks assms by simp
next
  case (MoveData path src dst prev next')
  then show ?thesis using move_tracks [of root path src dst prev next' c p u] assms by simp
qed

lemma moved_index_inject: "moved_index a b i = moved_index a b j \<Longrightarrow> i = j"
  by (auto simp: moved_index_def split: if_splits)

text \<open>Paths that transform to the same path were the same: a part below the place moves to a part below it.\<close>

lemma transformed_below:
  assumes "opv_ok root" and "op_explains root op c" and "ordered_projected_value_at root p = Some u"
    and "transform_path p op = Some p'"
  shows "(\<exists>r. p' = op_path op @ r) \<longleftrightarrow> (\<exists>r. p = op_path op @ r)"
proof (cases "\<exists>r. p = op_path op @ r")
  case False
  then have "p' = p" using assms(4) transform_outside(1-3) [OF False] by (cases op) (auto split: if_splits)
  with False show ?thesis by simp
next
  case True
  then obtain r where r: "p = op_path op @ r" by blast
  have proper: "list_all part_proper (op_path op)" using value_at_proper [OF assms(3)] r by simp
  have "\<exists>r. p' = op_path op @ r"
    using assms(4) r
    by (cases op)
      (auto simp: transform_rename_def transform_move_def transform_splice_def Let_def
        split: if_splits path_part.splits num_arg.splits)
  with True show ?thesis by simp
qed

lemma transform_inject:
  assumes "opv_ok root" and "op_explains root op c"
    and "ordered_projected_value_at root p = Some u" and "ordered_projected_value_at root q = Some v"
    and "transform_path p op = Some r" and "transform_path q op = Some r"
  shows "p = q"
proof (cases "\<exists>s. p = op_path op @ s")
  case False
  then have nq: "\<not> (\<exists>s. q = op_path op @ s)"
    using transformed_below [OF assms(1,2,3,5)] transformed_below [OF assms(1,2,4,6)] by simp
  have "r = p" using assms(5) transform_outside(1-3) [OF False] by (cases op) (auto split: if_splits)
  moreover have "r = q" using assms(6) transform_outside(1-3) [OF nq] by (cases op) (auto split: if_splits)
  ultimately show ?thesis by simp
next
  case True
  then have "\<exists>s. q = op_path op @ s"
    using transformed_below [OF assms(1,2,3,5)] transformed_below [OF assms(1,2,4,6)] by simp
  with True obtain x y where xy: "p = op_path op @ x" "q = op_path op @ y" by blast
  have proper: "list_all part_proper (op_path op)" using value_at_proper [OF assms(3)] xy by simp
  show ?thesis
  proof (cases op)
    case (RenameData path src dst prev next')
    then show ?thesis
      using assms(5,6) xy proper moved_below(1) [of path]
      by (cases x; cases y) (auto split: if_splits)
  next
    case (MoveData path src dst prev next')
    from explained_move [OF assms(1) assms(2) [unfolded MoveData]] obtain i j where
      f: "ordered_projected_value_at root path = Some (OArr prev)" "src = IntArg (int i)" "dst = IntArg (int j)" by metis
    have "\<exists>k s. z = PIdx (IntArg (int k)) # s" if "z \<noteq> []" "ordered_projected_value_at root (path @ z) = Some w" for z w
      using that f(1) by (cases z) (auto simp: value_at_parts elim: array_part)
    then have "x = [] \<or> (\<exists>k s. x = PIdx (IntArg (int k)) # s)" "y = [] \<or> (\<exists>k s. y = PIdx (IntArg (int k)) # s)"
      using assms(3,4) xy MoveData by auto
    then show ?thesis
      using assms(5,6) xy MoveData f(2,3) moved_below(2) [OF proper]
      by (elim disjE exE) (auto split: if_splits dest: moved_index_inject)
  next
    case (SpliceData path start removed inserted prev next')
    from explained_splice [OF assms(1) assms(2) [unfolded SpliceData]] obtain i where
      f: "ordered_projected_value_at root path = Some (OArr prev)" "start = IntArg (int i)" by metis
    have "\<exists>k s. z = PIdx (IntArg (int k)) # s" if "z \<noteq> []" "ordered_projected_value_at root (path @ z) = Some w" for z w
      using that f(1) by (cases z) (auto simp: value_at_parts elim: array_part)
    then have "x = [] \<or> (\<exists>k s. x = PIdx (IntArg (int k)) # s)" "y = [] \<or> (\<exists>k s. y = PIdx (IntArg (int k)) # s)"
      using assms(3,4) xy SpliceData by auto
    then show ?thesis
      using assms(5,6) xy SpliceData f(2) moved_below(3) [OF proper]
      by (elim disjE exE) (auto split: if_splits)
  qed (use assms(5,6) in \<open>auto split: if_splits\<close>)
qed

lemma through_tracks:
  assumes "opv_ok root" and "ops_explain root ops c" and "ordered_projected_value_at root p = Some u"
    and "transform_through p ops = Some p'"
  shows "\<exists>u'. ordered_projected_value_at c p' = Some u' \<and> same_kind u u'"
  using assms
proof (induction ops arbitrary: root p u)
  case (Cons op ops)
  from Cons.prems(2) obtain m where m: "op_explains root op m" "ops_explain m ops c" by auto
  from Cons.prems(4) obtain q where q: "transform_path p op = Some q" "transform_through q ops = Some p'"
    by (auto split: option.splits)
  from op_tracks [OF Cons.prems(1) m(1) Cons.prems(3) q(1)] Cons.prems(3) obtain w
    where w: "ordered_projected_value_at m q = Some w" "same_kind u w" by (auto simp: tracks_def)
  have "opv_ok m" using m(1) by (simp add: op_explains_def)
  from Cons.IH [OF this m(2) w(1) q(2)] w(2) show ?case by (cases u; cases w) (auto simp: same_kind_def split: opv.splits)
qed auto

lemma through_inject:
  assumes "opv_ok root" and "ops_explain root ops c"
    and "ordered_projected_value_at root p = Some u" and "ordered_projected_value_at root q = Some v"
    and "transform_through p ops = Some r" and "transform_through q ops = Some r"
  shows "p = q"
  using assms
proof (induction ops arbitrary: root p q u v)
  case (Cons op ops)
  from Cons.prems(2) obtain m where m: "op_explains root op m" "ops_explain m ops c" by auto
  from Cons.prems(5,6) obtain p' q' where t: "transform_path p op = Some p'" "transform_through p' ops = Some r"
    "transform_path q op = Some q'" "transform_through q' ops = Some r" by (auto split: option.splits)
  from op_tracks [OF Cons.prems(1) m(1) Cons.prems(3) t(1)] op_tracks [OF Cons.prems(1) m(1) Cons.prems(4) t(3)] Cons.prems(3,4)
  obtain u' v' where "ordered_projected_value_at m p' = Some u'" "ordered_projected_value_at m q' = Some v'"
    by (auto simp: tracks_def)
  moreover have "opv_ok m" using m(1) by (simp add: op_explains_def)
  ultimately have "p' = q'" using Cons.IH [OF _ m(2)] t(2,4) by blast
  with transform_inject [OF Cons.prems(1) m(1) Cons.prems(3,4)] t show ?case by simp
qed simp

section \<open>Overlays\<close>

definition overlay_of :: "(js_string \<times> live_path) list \<Rightarrow> projected_overlay" where
  "overlay_of es = \<lparr> po_by_quid = es, po_by_path = map (\<lambda>(q, p). (p, q)) es \<rparr>"

lemma overlay_of_simps [simp]:
  "po_by_quid (overlay_of es) = es" "overlay_size (overlay_of es) = length es"
  "livemap_projected_identity_quids (overlay_of es) = map fst es"
  by (simp_all add: overlay_of_def overlay_size_def livemap_projected_identity_quids_def)

lemma empty_overlay_of: "empty_projected_overlay = overlay_of []"
  by (simp add: empty_projected_overlay_def overlay_of_def)

definition entries_ok :: "opv \<Rightarrow> (js_string \<times> live_path) list \<Rightarrow> bool" where
  "entries_ok v es \<longleftrightarrow> distinct (map fst es) \<and> distinct (map snd es) \<and>
     (\<forall>(q, p) \<in> set es. is_persisted_quid (PStr q) \<and> (\<exists>u. ordered_projected_value_at v p = Some u \<and> is_container u))"

text \<open>The overlay of a carrier: its two maps are inverse and every path holds an object or an array.\<close>

definition placed_overlay :: "opv \<Rightarrow> projected_overlay \<Rightarrow> bool" where
  "placed_overlay v ov \<longleftrightarrow> ov = overlay_of (po_by_quid ov) \<and> entries_ok v (po_by_quid ov)"

lemma map_of_swapped:
  "distinct (map snd es) \<Longrightarrow> map_of (map (\<lambda>(q, p). (p, q)) es) p = Some q \<longleftrightarrow> (q, p) \<in> set es"
  by (induction es) (auto simp: image_iff)

lemma map_of_swapped_None: "map_of (map (\<lambda>(q, p). (p, q)) es) p = None \<longleftrightarrow> p \<notin> snd ` set es"
  by (induction es) auto

lemma quid_at_overlay:
  assumes "distinct (map snd es)"
  shows "projected_quid_at_path (overlay_of es) p = Some q \<longleftrightarrow> (q, p) \<in> set es"
    and "projected_quid_at_path (overlay_of es) p = None \<longleftrightarrow> p \<notin> snd ` set es"
  unfolding projected_quid_at_path_def overlay_of_def
  using map_of_swapped [OF assms, of p q] map_of_swapped_None [of es p] by simp_all

lemma add_fresh_entry:
  assumes "q \<notin> fst ` set es" and "p \<notin> snd ` set es"
  shows "add_projected_entry q p (overlay_of es) = Inr (overlay_of (es @ [(q, p)]))"
proof -
  have "map_of es q = None" using assms(1) by (simp add: map_of_eq_None_iff)
  moreover have "map_of (map (\<lambda>(q, p). (p, q)) es) p = None" using assms(2) by (simp add: map_of_swapped_None)
  moreover have "p \<notin> fst ` set (map (\<lambda>(q, p). (p, q)) es)" using assms(2) by force
  ultimately show ?thesis
    using assms(1)
    by (simp add: add_projected_entry_def projected_path_for_quid_def projected_quid_at_path_def overlay_of_def put_field_fresh)
qed

definition survivors :: "projected_op list \<Rightarrow> (js_string \<times> live_path) list \<Rightarrow> (js_string \<times> live_path) list" where
  "survivors ops es = List.map_filter (\<lambda>(q, p). map_option (Pair q) (transform_through p ops)) es"

lemma survivors_simps [simp]:
  "survivors ops [] = []"
  "survivors ops ((q, p) # es) =
     (case transform_through p ops of None \<Rightarrow> survivors ops es | Some p' \<Rightarrow> (q, p') # survivors ops es)"
  by (simp_all add: survivors_def map_filter_simps split: option.split)

lemma survivors_set: "(q, p') \<in> set (survivors ops es) \<longleftrightarrow> (\<exists>p. (q, p) \<in> set es \<and> transform_through p ops = Some p')"
  by (induction es) (auto split: option.splits)

lemma survivors_no_ops: "survivors [] es = es"
  by (induction es) auto

lemma reconcile_entries_eq:
  "distinct (map fst acc @ map fst es) \<Longrightarrow> distinct (map snd (acc @ survivors ops es)) \<Longrightarrow>
     reconcile_projected_entries ops es (overlay_of acc) = Inr (overlay_of (acc @ survivors ops es))"
proof (induction es arbitrary: acc)
  case (Cons e es)
  obtain q p where e: "e = (q, p)" by force
  show ?case
  proof (cases "transform_through p ops")
    case None
    with Cons e show ?thesis by simp
  next
    case (Some p')
    have "add_projected_entry q p' (overlay_of acc) = Inr (overlay_of (acc @ [(q, p')]))"
      using Cons.prems Some e by (intro add_fresh_entry) auto
    with Cons.IH [of "acc @ [(q, p')]"] Cons.prems Some e show ?thesis by simp
  qed
qed simp

lemma entry_at:
  assumes "entries_ok v es" and "(q, p) \<in> set es"
  shows "is_persisted_quid (PStr q)" and "\<exists>u. ordered_projected_value_at v p = Some u \<and> is_container u"
  using assms by (auto simp: entries_ok_def)

lemma survivors_ok:
  assumes "opv_ok root" and "ops_explain root ops c" and "entries_ok root es"
  shows "entries_ok c (survivors ops es)"
proof -
  have "distinct (map fst (survivors ops es)) \<and> distinct (map snd (survivors ops es))"
    using assms(3)
  proof (induction es)
    case (Cons e es)
    obtain q p where e: "e = (q, p)" by force
    have ok: "entries_ok root es" using Cons.prems by (simp add: entries_ok_def)
    show ?case
    proof (cases "transform_through p ops")
      case None
      with Cons.IH [OF ok] e show ?thesis by simp
    next
      case (Some p')
      have "q \<notin> fst ` set es" using Cons.prems e by (simp add: entries_ok_def)
      then have "q \<notin> fst ` set (survivors ops es)" using survivors_set [of q _ ops es] by force
      moreover have "p' \<notin> snd ` set (survivors ops es)"
      proof
        assume "p' \<in> snd ` set (survivors ops es)"
        then obtain q' where "(q', p') \<in> set (survivors ops es)" by auto
        then obtain r where r: "(q', r) \<in> set es" "transform_through r ops = Some p'"
          unfolding survivors_set by blast
        obtain u where u: "ordered_projected_value_at root p = Some u" using entry_at [OF Cons.prems, of q p] e by auto
        obtain w where w: "ordered_projected_value_at root r = Some w" using entry_at [OF Cons.prems, of q' r] r(1) by auto
        have "p = r" by (rule through_inject [OF assms(1,2) u w Some r(2)])
        moreover have "p \<notin> snd ` set es" using Cons.prems e by (simp add: entries_ok_def)
        ultimately show False using r(1) by force
      qed
      ultimately show ?thesis using Cons.IH [OF ok] e Some by simp
    qed
  qed simp
  moreover have "is_persisted_quid (PStr q) \<and> (\<exists>u. ordered_projected_value_at c p' = Some u \<and> is_container u)"
    if "(q, p') \<in> set (survivors ops es)" for q p'
  proof -
    from that obtain p where p: "(q, p) \<in> set es" "transform_through p ops = Some p'" using survivors_set by blast
    from entry_at [OF assms(3) p(1)] obtain u
      where u: "is_persisted_quid (PStr q)" "ordered_projected_value_at root p = Some u" "is_container u" by auto
    from through_tracks [OF assms(1,2) u(2) p(2)] u same_kind_container show ?thesis by blast
  qed
  ultimately show ?thesis by (auto simp: entries_ok_def)
qed

lemma reconcile_ok:
  assumes "opv_ok root" and "ops_explain root ops c" and "placed_overlay root ov"
  shows "reconcile_livemap_projected_identity_overlay ov ops = Inr (overlay_of (survivors ops (po_by_quid ov))) \<and>
    placed_overlay c (overlay_of (survivors ops (po_by_quid ov)))"
proof -
  let ?es = "po_by_quid ov"
  have ok: "entries_ok root ?es" and ov: "ov = overlay_of ?es" using assms(3) by (simp_all add: placed_overlay_def)
  have s: "entries_ok c (survivors ops ?es)" by (rule survivors_ok [OF assms(1,2) ok])
  have "reconcile_projected_entries ops ?es empty_projected_overlay = Inr (overlay_of (survivors ops ?es))"
    using reconcile_entries_eq [of "[]" ?es ops] ok s by (simp add: empty_overlay_of entries_ok_def)
  moreover have "ops = [] \<or> overlay_size ov = 0 \<Longrightarrow> ov = overlay_of (survivors ops ?es)"
    using ov by (auto simp: overlay_size_def survivors_no_ops)
  ultimately show ?thesis
    using s by (auto simp: reconcile_livemap_projected_identity_overlay_def placed_overlay_def)
qed

lemma register_ok:
  assumes "placed_overlay v ov" and "is_persisted_quid (PStr q)" and "ordered_projected_value_at v p = Some u" and "is_container u"
    and "projected_path_for_quid ov q = None" and "projected_quid_at_path ov p = None"
  shows "register_livemap_projected_identity_at_path ov q p = Inr (overlay_of (po_by_quid ov @ [(q, p)])) \<and>
    placed_overlay v (overlay_of (po_by_quid ov @ [(q, p)]))"
proof -
  let ?es = "po_by_quid ov"
  have ok: "entries_ok v ?es" and ov: "ov = overlay_of ?es" using assms(1) by (simp_all add: placed_overlay_def)
  have q: "q \<notin> fst ` set ?es" using assms(5) by (simp add: projected_path_for_quid_def map_of_eq_None_iff)
  have p: "p \<notin> snd ` set ?es" using assms(6) quid_at_overlay(2) ov ok by (metis entries_ok_def)
  have fold: "distinct (map snd as @ map snd es) \<Longrightarrow>
      fold (\<lambda>(k, p). put_field p k) es (map (\<lambda>(q, p). (p, q)) as) = map (\<lambda>(q, p). (p, q)) (as @ es)"
    for as es :: "(js_string \<times> live_path) list"
  proof (induction es arbitrary: as)
    case (Cons e es)
    obtain k r where e: "e = (k, r)" by force
    have "r \<notin> fst ` set (map (\<lambda>(q, p). (p, q)) as)" using Cons.prems e by force
    with Cons.IH [of "as @ [e]"] Cons.prems e show ?case by (simp add: put_field_fresh)
  qed simp
  have "fold (\<lambda>(k, p). put_field p k) ?es [] = map (\<lambda>(q, p). (p, q)) ?es"
    using fold [of "[]" ?es] ok by (simp add: entries_ok_def)
  then have "add_projected_entry q p \<lparr> po_by_quid = ?es, po_by_path = fold (\<lambda>(k, p). put_field p k) ?es [] \<rparr> =
      Inr (overlay_of (?es @ [(q, p)]))"
    using add_fresh_entry [OF q p] by (simp add: overlay_of_def)
  moreover have "entries_ok v (?es @ [(q, p)])" using ok q p assms(2-4) by (auto simp: entries_ok_def)
  ultimately show ?thesis
    using assms(5,6) by (simp add: register_livemap_projected_identity_at_path_def placed_overlay_def)
qed

section \<open>Identities do not change what a graph says\<close>

abbreviation strip :: "hson_node \<Rightarrow> hson_node" where
  "strip \<equiv> clone_hson_graph_without_quids"

lemma without_quid_lookup:
  "k \<noteq> HSON_META_QUID \<Longrightarrow> meta_lookup (without_quid m) k = meta_lookup m k"
proof -
  have "k \<noteq> HSON_META_QUID \<Longrightarrow> map_of (filter (\<lambda>e. fst e \<noteq> HSON_META_QUID) es) k = map_of es k" for es :: hson_meta
    by (induction es) auto
  moreover have "filter (\<lambda>e. fst e \<noteq> HSON_META_QUID) es = [] \<Longrightarrow> k \<noteq> HSON_META_QUID \<Longrightarrow> map_of es k = None" for es :: hson_meta
    by (induction es) (auto split: if_splits)
  ultimately show "k \<noteq> HSON_META_QUID \<Longrightarrow> meta_lookup (without_quid m) k = meta_lookup m k"
    by (auto simp: without_quid_def meta_lookup_def Let_def split: option.split)
qed

lemma old_shaped_lookup:
  "old_shaped_meta m \<longleftrightarrow> meta_lookup m (js ''attrs'') \<noteq> None \<or> meta_lookup m (js ''flags'') \<noteq> None"
  by (cases m) (auto simp: old_shaped_meta_def meta_lookup_def map_of_eq_None_iff simp del: not_None_eq)

lemma without_quid_shape [simp]: "old_shaped_meta (without_quid m) = old_shaped_meta m"
  unfolding old_shaped_lookup by (simp add: without_quid_lookup HSON_META_QUID_def)

lemma strip_parts [simp]:
  "tag_of (strip n) = tag_of n" "attrs_of (strip n) = attrs_of n" "meta_of (strip n) = without_quid (meta_of n)"
  "content_of (strip n) = map strip_item (content_of n)"
  by (cases n; simp)+

lemma strip_item_node [simp]: "is_Node (ItemNode n) \<Longrightarrow> strip_item (ItemNode n) = ItemNode (strip n)"
  by simp

lemma strip_is_Node [simp]: "is_Node (strip_item x) = is_Node x"
  by (cases x) auto

lemma strip_kid_tag [simp]: "kid_tag (strip_item x) = kid_tag x"
  by (cases x) auto

lemma strip_eligible [simp]: "node_eligible (strip n) = node_eligible n"
  by (simp add: node_eligible_def comp_def)

lemma strip_value_node [simp]: "is_value_node (strip n) = is_value_node n"
  by (simp add: is_value_node_def)

lemma strip_unwrap: "unwrap_value_payload (strip w) = map_option strip (unwrap_value_payload w)"
  by (auto simp: unwrap_value_payload_def split: list.split hson_item.split)

lemma strip_wrapper [simp]: "is_wrapper k (strip_item x) = is_wrapper k x"
  by (cases x) (auto simp: is_wrapper_def)

lemma find_index_map: "find_index f (map g xs) = find_index (f \<circ> g) xs"
  by (induction xs) auto

lemma find_index_cong: "(\<And>x. f x = g x) \<Longrightarrow> find_index f xs = find_index g xs"
  by (induction xs) auto

lemma child_slot_holds:
  assumes "child_slot n part = Some i"
  obtains c t where "i < length (content_of n)" "content_of n ! i = ItemNode c" "is_Node (ItemNode c)"
    "tag_of c = t" "is_wrapper t (content_of n ! i)"
    "(case part of PKey k \<Rightarrow> t = k \<and> tag_of n = OBJ_TAG | PIdx a \<Rightarrow> t = II_TAG \<and> tag_of n = ARR_TAG \<and> num_arg_index a = Some i)"
proof -
  from assms obtain t where "i < length (content_of n)" "is_wrapper t (content_of n ! i)"
    "(case part of PKey k \<Rightarrow> t = k \<and> tag_of n = OBJ_TAG | PIdx a \<Rightarrow> t = II_TAG \<and> tag_of n = ARR_TAG \<and> num_arg_index a = Some i)"
    by (auto simp: child_slot_def split: path_part.splits if_splits option.splits dest!: find_index_holds)
  with that show ?thesis by (cases "content_of n ! i") (auto simp: is_wrapper_def)
qed

lemma child_slot_inject:
  assumes "child_slot n part = Some i" and "child_slot n part' = Some i"
  shows "part = part'"
  using assms(1)
proof (rule child_slot_holds)
  fix c t
  assume c: "content_of n ! i = ItemNode c" "tag_of c = t"
    and p: "case part of PKey k \<Rightarrow> t = k \<and> tag_of n = OBJ_TAG | PIdx a \<Rightarrow> t = II_TAG \<and> tag_of n = ARR_TAG \<and> num_arg_index a = Some i"
  from assms(2) show ?thesis
  proof (rule child_slot_holds)
    fix c' t'
    assume c': "content_of n ! i = ItemNode c'" "tag_of c' = t'"
      and p': "case part' of PKey k \<Rightarrow> t' = k \<and> tag_of n = OBJ_TAG | PIdx a \<Rightarrow> t' = II_TAG \<and> tag_of n = ARR_TAG \<and> num_arg_index a = Some i"
    have "OBJ_TAG \<noteq> ARR_TAG" by (simp add: tag_defs)
    with c c' p p' show ?thesis by (auto split: path_part.splits dest: num_arg_index_inject)
  qed
qed

lemma strip_child_slot [simp]: "child_slot (strip n) part = child_slot n part"
proof -
  have "find_index (is_wrapper k \<circ> strip_item) xs = find_index (is_wrapper k) xs" for k xs
    by (rule find_index_cong) simp
  then show ?thesis
    by (auto simp: child_slot_def find_index_map split: path_part.split option.split)
qed

lemma strip_child: "find_child_wrapper (strip n) part = map_option strip (find_child_wrapper n part)"
proof (cases "child_slot n part")
  case (Some i)
  then show ?thesis by (rule child_slot_holds) (auto simp: find_child_wrapper_def Some)
qed (simp add: find_child_wrapper_def)

lemma strip_resolve_wrapper: "resolve_wrapper_node (strip n) p = map_option strip (resolve_wrapper_node n p)"
  by (induction p arbitrary: n) (auto simp: strip_unwrap strip_child split: option.split)

lemma strip_resolve: "resolve_value_node (strip n) p = map_option strip (resolve_value_node n p)"
  by (cases "resolve_wrapper_node n p") (auto simp: resolve_value_node_def strip_resolve_wrapper strip_unwrap)

lemma strip_only_node: "only_node (map strip_item c) = map_option strip (only_node c)"
  by (auto simp: only_node_def split: list.split hson_item.split)

lemma strip_transparent: "transparent_child (map strip_item c) = map_option strip (transparent_child c)"
  by (auto simp: transparent_child_def split: list.split hson_item.split)

lemma strip_prim: "prim_from_str (map strip_item c) = prim_from_str c" "prim_from_val (map strip_item c) = prim_from_val c"
  by (auto simp: prim_from_str_def prim_from_val_def split: list.splits hson_item.splits prim.splits)

lemma strip_node: "strip (HsonNode t a m c) = HsonNode t a (without_quid m) (map strip_item c)"
  by simp

lemma strip_read:
  "projected_value_from_hson_node (strip n) = projected_value_from_hson_node n"
  "from_items i (map strip_item c) = from_items i c"
  "from_members (map strip_item c) = from_members c"
proof (induction n and i c and c rule: projected_value_from_hson_node_from_items_from_members.induct)
  case (1 tag attrs meta content)
  then show ?case
    by (auto simp: strip_only_node strip_transparent strip_prim split: option.split)
next
  case (4 i tag attrs meta content rest)
  have i: "node_meta (strip (HsonNode tag attrs meta content)) HSON_META_INDEX =
      node_meta (HsonNode tag attrs meta content) HSON_META_INDEX"
    using without_quid_lookup [of HSON_META_INDEX meta]
    by (simp add: node_meta_def meta_lookup_def HSON_META_INDEX_def HSON_META_QUID_def split: option.splits)
  show ?case
  proof (cases "is_Node (ItemNode (HsonNode tag attrs meta content))")
    case False
    then show ?thesis by simp
  next
    case True
    then have s: "map strip_item (ItemNode (HsonNode tag attrs meta content) # rest) =
        ItemNode (HsonNode tag attrs (without_quid meta) (map strip_item content)) # map strip_item rest"
      by simp
    show ?thesis
    proof (cases "only_node content")
      case (Some c)
      then show ?thesis
        unfolding s using 4 True i
        by (cases "projected_value_from_hson_node c") (auto simp: strip_only_node)
    qed (use True i in \<open>auto simp: s strip_only_node\<close>)
  qed
next
  case (7 tag attrs meta content rest)
  show ?case
  proof (cases "is_Node (ItemNode (HsonNode tag attrs meta content))")
    case False
    then show ?thesis by simp
  next
    case True
    then have s: "map strip_item (ItemNode (HsonNode tag attrs meta content) # rest) =
        ItemNode (HsonNode tag attrs (without_quid meta) (map strip_item content)) # map strip_item rest"
      by simp
    show ?thesis
    proof (cases "only_node content")
      case (Some c)
      then show ?thesis
        unfolding s using 7 True
        by (cases "assert_projected_object_key tag"; cases "projected_value_from_hson_node c") (auto simp: strip_only_node)
    qed (use True in \<open>auto simp: s strip_only_node\<close>)
  qed
qed simp_all

lemma strip_project: "project_live_path (strip root) p = project_live_path root p"
  by (cases "resolve_value_node root p") (auto simp: project_live_path_def strip_resolve strip_read)

lemma same_strip_project: "strip r = strip g \<Longrightarrow> project_live_path r p = project_live_path g p"
  by (metis strip_project)

lemma same_strip_resolve:
  "strip r = strip g \<Longrightarrow> map_option strip (resolve_value_node r p) = map_option strip (resolve_value_node g p)"
  by (metis strip_resolve)

section \<open>Marking one node\<close>

lemma put_quid_strip:
  "without_quid m = None \<Longrightarrow> without_quid (Some (put_field HSON_META_QUID v (ensure_node_meta m))) = None"
proof -
  have "filter (\<lambda>e. fst e \<noteq> HSON_META_QUID) es = [] \<Longrightarrow>
      filter (\<lambda>e. fst e \<noteq> HSON_META_QUID) (put_field HSON_META_QUID v es) = []" for es :: hson_meta
    by (induction es) (auto split: if_splits)
  then show "without_quid m = None \<Longrightarrow> without_quid (Some (put_field HSON_META_QUID v (ensure_node_meta m))) = None"
    by (auto simp: without_quid_def ensure_node_meta_def Let_def put_field_fst split: option.splits if_splits)
qed

lemma assign_node:
  assumes "node_eligible n" and "is_persisted_quid (PStr q)" and "without_quid (meta_of n) = None"
  obtains n' where "assign_hson_node_quid n (PStr q) = Inr (q, n')" "strip n' = strip n" "content_of n' = content_of n"
    "tag_of n' = tag_of n" "meta_lookup (meta_of n') HSON_META_QUID = Some (PStr q)"
proof -
  obtain t a m c where n: "n = HsonNode t a m c" by (cases n)
  let ?n = "HsonNode t a (Some (put_field HSON_META_QUID (PStr q) (ensure_node_meta m))) c"
  have "assign_hson_node_quid n (PStr q) = Inr (q, ?n)"
    using assms(1,2) n by (simp add: assign_hson_node_quid_def assert_hson_node_quid_eligible_def quid_eligible_def
        node_eligible_def rguard_def)
  moreover have "strip ?n = strip n" using put_quid_strip [of m] assms(3) n by simp
  ultimately show ?thesis using that [of ?n] n by (simp add: meta_lookup_def)
qed

lemma strip_same_parts:
  assumes "strip a = strip b"
  shows "tag_of a = tag_of b" "is_Node (ItemNode a) = is_Node (ItemNode b)" "is_value_node a = is_value_node b"
    "node_eligible a = node_eligible b" "\<And>part. child_slot a part = child_slot b part"
  using assms strip_parts(1) [of a] strip_parts(1) [of b] strip_value_node [of a] strip_value_node [of b]
    strip_eligible [of a] strip_eligible [of b] strip_child_slot [of a] strip_child_slot [of b]
    strip_is_Node [of "ItemNode a"] strip_is_Node [of "ItemNode b"]
  by (auto simp del: strip_parts strip_value_node strip_eligible strip_child_slot strip_is_Node)
    (metis strip_parts(3) without_quid_shape)+

text \<open>The owned metadata of the value at a path.\<close>

definition meta_at :: "hson_node \<Rightarrow> live_path \<Rightarrow> hson_meta option option" where
  "meta_at root p = map_option meta_of (resolve_value_node root p)"

lemma resolve_step:
  "resolve_value_node w (part # p) =
     (case unwrap_value_payload w of None \<Rightarrow> None | Some n \<Rightarrow>
       (case child_slot n part of None \<Rightarrow> None | Some i \<Rightarrow> resolve_value_node (item_node (content_of n ! i)) p))"
  by (simp add: resolve_value_node_def find_child_wrapper_def split: option.split)

lemma resolve_nil: "resolve_value_node w [] = unwrap_value_payload w"
  by (simp add: resolve_value_node_def)

text \<open>The wrapper with its payload exchanged for one that differs in identities only.\<close>

lemma rewrap_payload:
  assumes "unwrap_value_payload w = Some n" and "strip n' = strip n"
  shows "modify_payload f w = map_option (\<lambda>r. rbind r (\<lambda>c. Inr (rewrap w c))) (f n)"
    and "unwrap_value_payload (rewrap w n') = Some n'" and "strip (rewrap w n') = strip w"
proof -
  show "modify_payload f w = map_option (\<lambda>r. rbind r (\<lambda>c. Inr (rewrap w c))) (f n)"
    by (rule modify_payload_unwrap [OF assms(1)])
  note same = strip_same_parts [OF assms(2)]
  obtain t a m c where w: "w = HsonNode t a m c" by (cases w)
  show "unwrap_value_payload (rewrap w n') = Some n'" "strip (rewrap w n') = strip w"
  proof (atomize (full), cases "is_value_node w")
    case True
    then show "unwrap_value_payload (rewrap w n') = Some n' \<and> strip (rewrap w n') = strip w"
      using assms same by (auto simp: rewrap_def unwrap_value_payload_def)
  next
    case False
    with assms(1) obtain rest where c: "content_of w = ItemNode n # rest" "is_Node (ItemNode n)"
      by (auto simp: unwrap_value_payload_def split: list.splits hson_item.splits if_splits)
    then have "is_Node (ItemNode n')" using same(2) by simp
    moreover have "\<not> is_value_node (with_content w (ItemNode n' # rest))" using False by (simp add: is_value_node_def with_content_def)
    moreover have "content_of (with_content w (ItemNode n' # rest)) = ItemNode n' # rest" by (simp add: with_content_def)
    ultimately have "unwrap_value_payload (with_content w (ItemNode n' # rest)) = Some n'"
      by (simp add: unwrap_value_payload_def del: is_Node.simps)
    moreover have "strip (with_content w (ItemNode n' # rest)) = strip w"
      using c \<open>is_Node (ItemNode n')\<close> assms(2) by (simp add: w with_content_def)
    ultimately show "unwrap_value_payload (rewrap w n') = Some n' \<and> strip (rewrap w n') = strip w"
      using False c by (simp add: rewrap_def)
  qed
qed

lemma modify_marks:
  assumes "resolve_value_node w p = Some n" and "strip n' = strip n" and "content_of n' = content_of n"
  shows "\<exists>r. modify_value_node (\<lambda>x. Inr n') w p = Some (Inr r) \<and> strip r = strip w \<and>
    (\<forall>p'. meta_at r p' = (if p' = p then Some (meta_of n') else meta_at w p'))"
  using assms(1)
proof (induction p arbitrary: w)
  case Nil
  then have u: "unwrap_value_payload w = Some n" by (simp add: resolve_nil)
  note rw = rewrap_payload [OF u assms(2)]
  have "meta_at (rewrap w n') p' = (if p' = [] then Some (meta_of n') else meta_at w p')" for p'
    using u rw(2) strip_same_parts(5) [OF assms(2)] assms(3)
    by (cases p') (auto simp: meta_at_def resolve_nil resolve_step split: option.split)
  then show ?case using rw(1,3) by (intro exI [of _ "rewrap w n'"]) simp
next
  case (Cons part p)
  then obtain v i where v: "unwrap_value_payload w = Some v" "child_slot v part = Some i"
    and res: "resolve_value_node (item_node (content_of v ! i)) p = Some n"
    by (auto simp: resolve_step split: option.splits)
  from v(2) obtain c where c: "i < length (content_of v)" "content_of v ! i = ItemNode c" "is_Node (ItemNode c)"
    by (rule child_slot_holds)
  from Cons.IH [of c] res c(2) obtain c' where c': "modify_value_node (\<lambda>x. Inr n') c p = Some (Inr c')"
    "strip c' = strip c" "\<And>p'. meta_at c' p' = (if p' = p then Some (meta_of n') else meta_at c p')" by auto
  let ?v = "with_content v ((content_of v)[i := ItemNode c'])"
  have node: "is_Node (ItemNode c')" using strip_same_parts(2) [OF c'(2)] c(3) by simp
  have sv: "strip ?v = strip v"
  proof -
    have "map strip_item ((content_of v)[i := ItemNode c']) = map strip_item (content_of v)"
    proof -
      have "strip_item (ItemNode c') = map strip_item (content_of v) ! i"
        using c c'(2) node strip_item_node [OF node] strip_item_node [OF c(3)] by (simp only: nth_map c(2))
      then show ?thesis by (simp only: map_update list_update_id)
    qed
    then show ?thesis by (cases v) (simp add: with_content_def)
  qed
  note rw = rewrap_payload [OF v(1) sv]
  have mod: "modify_value_node (\<lambda>x. Inr n') w (part # p) = Some (Inr (rewrap w ?v))"
    using rw(1) v(2) c'(1) c(2) by simp
  have "meta_at (rewrap w ?v) p' = (if p' = part # p then Some (meta_of n') else meta_at w p')" for p'
  proof (cases p')
    case Nil
    then show ?thesis using rw(2) v(1) by (simp add: meta_at_def resolve_nil with_content_def)
  next
    case (Cons b q)
    have slots: "child_slot ?v b = child_slot v b" by (rule strip_same_parts(5) [OF sv])
    have old: "meta_at w (b # q) = (case child_slot v b of None \<Rightarrow> None | Some j \<Rightarrow> meta_at (item_node (content_of v ! j)) q)"
      using v(1) by (simp add: meta_at_def resolve_step split: option.split)
    have new: "meta_at (rewrap w ?v) (b # q) =
        (case child_slot v b of None \<Rightarrow> None | Some j \<Rightarrow> meta_at (item_node (content_of ?v ! j)) q)"
      using rw(2) slots by (simp add: meta_at_def resolve_step split: option.split)
    show ?thesis
    proof (cases "b = part")
      case True
      with v(2) c old new c'(3) [of q] Cons show ?thesis by (simp add: with_content_def)
    next
      case False
      then have "child_slot v b \<noteq> Some i" using child_slot_inject v(2) by blast
      with old new Cons False show ?thesis by (auto simp: with_content_def split: option.split)
    qed
  qed
  then show ?case using mod rw(3) by blast
qed

section \<open>The graph of a carrier\<close>

lemma no_quid_metas: "without_quid None = None" "without_quid (Some [(HSON_META_INDEX, x)]) = Some [(HSON_META_INDEX, x)]"
  by (simp_all add: without_quid_def HSON_META_INDEX_def HSON_META_QUID_def)

lemma bare_strip: "strip (bare_node t c) = bare_node t (map strip_item c)"
  by (simp add: no_quid_metas)

lemma prim_node_strip: "prim_node p = Inr n \<Longrightarrow> strip n = n"
  by (cases p) (auto simp: value_node_def no_quid_metas split: sum.splits)

lemma property_node_strip: "strip m = m \<Longrightarrow> is_Node (ItemNode m) \<Longrightarrow> strip (property_node k m) = property_node k m"
  by (simp add: property_node_def value_node_def no_quid_metas)

lemma item_wrapper_strip: "strip m = m \<Longrightarrow> is_Node (ItemNode m) \<Longrightarrow> strip (item_wrapper i m) = item_wrapper i m"
  by (simp add: item_wrapper_def no_quid_metas)

lemma to_hson_strip:
  "projected_value_to_hson_node v = Inr n \<Longrightarrow> strip n = n"
  "to_members es = Inr c \<Longrightarrow> map strip_item c = c"
  "to_items i vs = Inr c \<Longrightarrow> map strip_item c = c"
proof (induction v and es and i vs arbitrary: n and c and c
    rule: projected_value_to_hson_node_to_members_to_items.induct)
  case (1 p)
  then show ?case by (auto simp: res_simps intro: prim_node_strip)
next
  case (5 k v es)
  then obtain m cs where m: "projected_value_to_hson_node v = Inr m" "to_members es = Inr cs"
    "c = ItemNode (property_node k m) # cs" by (auto simp: res_simps)
  have "strip m = m" "map strip_item cs = cs" using 5 m by (auto simp: res_simps)
  with value_node_tag(2) [OF m(1)] m(3) show ?case by (simp add: property_node_strip del: clone_hson_graph_without_quids.simps)
next
  case (7 i v vs)
  then obtain m cs where m: "projected_value_to_hson_node v = Inr m" "to_items (Suc i) vs = Inr cs"
    "c = ItemNode (item_wrapper i m) # cs" by (auto simp: res_simps)
  have "strip m = m" "map strip_item cs = cs" using 7 m by (auto simp: res_simps)
  with value_node_tag(2) [OF m(1)] m(3) show ?case by (simp add: item_wrapper_strip del: clone_hson_graph_without_quids.simps)
qed (auto simp: res_simps value_node_def no_quid_metas)

text \<open>A root that projection built: the value node itself, or the root node around it.\<close>

definition graph_of :: "opv \<Rightarrow> hson_node \<Rightarrow> bool" where
  "graph_of v g \<longleftrightarrow> projected_value_to_hson_root v = Inr g \<or> is_container v \<and> projected_value_to_hson_node v = Inr g"

lemma graph_of_parts:
  assumes "graph_of v g"
  obtains n where "projected_value_to_hson_node v = Inr n" "unwrap_value_payload g = Some n" "strip g = g"
proof -
  from assms obtain n where n: "projected_value_to_hson_node v = Inr n" "g = bare_node ROOT_TAG [ItemNode n] \<or> g = n"
    by (auto simp: graph_of_def root_node_iff)
  note node = value_node_tag [OF n(1)]
  have "strip n = n" by (rule to_hson_strip(1) [OF n(1)])
  with n(2) node(2) have "strip g = g" by (auto simp: bare_strip simp del: clone_hson_graph_without_quids.simps)
  with that [of n] n node root_unwrap [OF node(2)] show ?thesis by auto
qed

lemma graph_of_presents: "graph_of v g \<Longrightarrow> \<exists>n. presents n v \<and> unwrap_value_payload g = Some n"
  by (erule graph_of_parts) (auto simp: presents_def)

lemma graph_of_ok: "graph_of v g \<Longrightarrow> opv_ok v"
  by (erule graph_of_parts) (use to_hson_total(1) projectable_ok in blast)

lemma graph_of_reads:
  assumes "graph_of v g"
    and "plain_path path \<or> path = [] \<or> (\<exists>u. ordered_projected_value_at v (butlast path) = Some u \<and> is_container u)"
  shows "project_live_path g path = Inr (ordered_projected_value_at v path)"
  using graph_of_presents [OF assms(1)] read_resolved(1) graph_of_ok [OF assms(1)] assms(2) by blast

lemma container_eligible:
  assumes "projected_value_to_hson_node v = Inr n" and "is_container v"
  shows "node_eligible n \<and> meta_of n = None"
proof (cases v)
  case (OArr vs)
  from assms(1) [unfolded OArr array_node_iff] obtain c where "n = bare_node ARR_TAG c" by blast
  then show ?thesis by (simp add: node_eligible_def is_projected_container_quid_eligible_def)
next
  case (OObj es)
  from assms(1) [unfolded OObj object_node_iff] obtain c where n: "n = bare_node OBJ_TAG c" and c: "to_members es = Inr c" by blast
  have "list_all plain_member c" using to_hson_reads(2) [OF c] by simp
  then have "t \<noteq> STR_TAG \<and> t \<noteq> VAL_TAG \<and> t \<noteq> ARR_TAG \<and> t \<noteq> OBJ_TAG" if "map kid_tag c = [Some t]" for t
    using that user_tag_neq
    by (auto simp: plain_member_def map_eq_Cons_conv split: if_splits)
  then show ?thesis
    by (auto simp: n node_eligible_def is_projected_container_quid_eligible_def split: list.split option.split)
qed (use assms in \<open>simp add: is_container_def\<close>)

lemma graph_of_container:
  assumes "graph_of v g" and "ordered_projected_value_at v p = Some u" and "is_container u"
  obtains n where "resolve_value_node g p = Some n" "node_eligible n" "meta_of n = None"
proof -
  obtain w where w: "presents w v" "unwrap_value_payload g = Some w" using graph_of_presents [OF assms(1)] by blast
  have "p = [] \<or> (\<exists>u. ordered_projected_value_at v (butlast p) = Some u \<and> is_container u)"
  proof (cases p rule: rev_cases)
    case (snoc q part)
    with assms(2) obtain d where d: "ordered_projected_value_at v q = Some d" "ordered_projected_value_at d [part] = Some u"
      by (auto simp: value_at_parts)
    then have "is_container d" by (cases d; cases part) (auto simp: is_container_def value_at_Cons)
    with d snoc show ?thesis by simp
  qed simp
  with resolve_presents [OF w, of p] assms(2) obtain n where n: "resolve_value_node g p = Some n" "presents n u" by auto
  from container_eligible [OF presents_container [OF n(2) assms(3)] assms(3)] n that show ?thesis by blast
qed

text \<open>The other way: only objects and arrays are eligible, whatever names the path has.\<close>

lemma prim_presents_ineligible:
  assumes "presents n (OPrim q)"
  shows "\<not> node_eligible n" and "resolve_value_node w p = Some m \<Longrightarrow> unwrap_value_payload w = Some n \<Longrightarrow> \<not> node_eligible m"
proof -
  from assms obtain m0 where m0: "projected_value_to_hson_node (OPrim q) = Inr m0" "n = m0 \<or> n = bare_node OBJ_TAG [ItemNode m0]"
    by (auto simp: presents_def)
  have tag: "tag_of m0 = STR_TAG \<or> tag_of m0 = VAL_TAG" using m0(1) by (rule prim_tag)
  have node: "is_Node (ItemNode m0)" "is_value_node m0" "unwrap_value_payload m0 = Some m0"
    using value_node_tag [OF m0(1)] by simp_all
  have tags: "STR_TAG \<noteq> OBJ_TAG" "STR_TAG \<noteq> ARR_TAG" "VAL_TAG \<noteq> OBJ_TAG" "VAL_TAG \<noteq> ARR_TAG" "OBJ_TAG \<noteq> ARR_TAG"
    by (simp_all add: tag_defs)
  have e0: "\<not> node_eligible m0" using tag tags by (auto simp: node_eligible_def is_projected_container_quid_eligible_def)
  moreover have e1: "\<not> node_eligible (bare_node OBJ_TAG [ItemNode m0])"
    using tag tags node(1) by (auto simp: node_eligible_def is_projected_container_quid_eligible_def)
  ultimately show "\<not> node_eligible n" using m0(2) by auto
  have leaf: "resolve_value_node m0 p = (if p = [] then Some m0 else None)" for p
    using tag tags node(3) by (cases p) (auto simp: resolve_nil resolve_step child_slot_def split: path_part.split)
  have slot: "child_slot (bare_node OBJ_TAG [ItemNode m0]) part = Some i \<Longrightarrow> i = 0" for part i
    using tags by (auto simp: child_slot_def split: path_part.splits if_splits)
  assume res: "resolve_value_node w p = Some m" and u: "unwrap_value_payload w = Some n"
  show "\<not> node_eligible m"
  proof (cases p)
    case Nil
    with res u e0 e1 m0(2) show ?thesis by (auto simp: resolve_nil)
  next
    case (Cons part r)
    with res u obtain i where i: "child_slot n part = Some i" "resolve_value_node (item_node (content_of n ! i)) r = Some m"
      by (auto simp: resolve_step split: option.splits)
    have "n \<noteq> m0" using i(1) tag tags by (auto simp: child_slot_def split: path_part.splits if_splits)
    with m0(2) have n: "n = bare_node OBJ_TAG [ItemNode m0]" by simp
    with slot i(1) have "i = 0" by blast
    with i(2) n have "resolve_value_node m0 r = Some m" by simp
    with leaf e0 show ?thesis by (auto split: if_splits)
  qed
qed

lemma eligible_container:
  assumes "presents n v" and "unwrap_value_payload w = Some n" and "resolve_value_node w p = Some m" and "node_eligible m"
  shows "\<exists>u. ordered_projected_value_at v p = Some u \<and> is_container u"
  using assms
proof (induction p arbitrary: v n w)
  case Nil
  show ?case
  proof (cases v)
    case (OPrim q)
    with prim_presents_ineligible(2) [of n q w "[]" m] Nil show ?thesis by simp
  qed (simp_all add: is_container_def)
next
  case (Cons part p)
  show ?case
  proof (cases "is_container v")
    case False
    then obtain q where "v = OPrim q" by (cases v) (auto simp: is_container_def)
    with prim_presents_ineligible(2) [of n q w "part # p" m] Cons.prems show ?thesis by simp
  next
    case True
    note child = container_child [OF presents_container [OF Cons.prems(1) True] True, of part]
    show ?thesis
    proof (cases "step_part (Some v) part")
      case None
      with child Cons.prems(2,3) show ?thesis by (simp add: resolve_Cons)
    next
      case (Some d)
      with child obtain c x where c: "find_child_wrapper n part = Some c" "unwrap_value_payload c = Some x" "presents x d" by auto
      have "resolve_value_node c p = Some m" using Cons.prems(2,3) c(1) by (simp add: resolve_Cons)
      from Cons.IH [OF c(3,2) this Cons.prems(4)] Some show ?thesis by (simp add: value_at_Cons)
    qed
  qed
qed

section \<open>Writing an overlay onto a graph\<close>

text \<open>The identity a graph shows at a path.\<close>

definition quid_shown :: "hson_node \<Rightarrow> live_path \<Rightarrow> prim option" where
  "quid_shown root p = Option.bind (meta_at root p) (\<lambda>m. meta_lookup m HSON_META_QUID)"

lemma assign_at_path_ok:
  assumes "graph_of v g" and "strip r = g" and "ordered_projected_value_at v p = Some u" and "is_container u"
    and "is_persisted_quid (PStr q)"
  obtains r' where "assign_at_path r q p = Inr r'" "strip r' = g"
    "\<And>p'. quid_shown r' p' = (if p' = p then Some (PStr q) else quid_shown r p')"
proof -
  obtain n0 where n0: "resolve_value_node g p = Some n0" "node_eligible n0" "meta_of n0 = None"
    using graph_of_container [OF assms(1,3,4)] .
  with assms(2) have "map_option strip (resolve_value_node r p) = Some n0" by (simp add: strip_resolve [symmetric])
  then obtain n where n: "resolve_value_node r p = Some n" "strip n = n0" by auto
  have el: "node_eligible n" using n(2) n0(2) strip_eligible by blast
  moreover have "without_quid (meta_of n) = None" using n(2) n0(3) strip_parts(3) by metis
  ultimately obtain n' where n': "assign_hson_node_quid n (PStr q) = Inr (q, n')" "strip n' = strip n" "content_of n' = content_of n"
    "meta_lookup (meta_of n') HSON_META_QUID = Some (PStr q)"
    using assign_node [OF _ assms(5)] by metis
  from modify_marks [OF n(1) n'(2,3)] obtain r' where r': "modify_value_node (\<lambda>x. Inr n') r p = Some (Inr r')"
    "strip r' = strip r" "\<And>p'. meta_at r' p' = (if p' = p then Some (meta_of n') else meta_at r p')" by auto
  have "assign_at_path r q p = Inr r'" using n(1) el n'(1) r'(1) by (simp add: assign_at_path_def)
  moreover have "quid_shown r' p' = (if p' = p then Some (PStr q) else quid_shown r p')" for p'
    using r'(3) n'(4) by (simp add: quid_shown_def)
  ultimately show ?thesis using that r'(2) assms(2) by simp
qed

lemma apply_entries_ok:
  assumes "graph_of v g" and "entries_ok v es" and "strip r = g"
  shows "\<exists>r'. apply_projected_entries r es = Inr r' \<and> strip r' = g \<and>
    (\<forall>p. quid_shown r' p = (case map_of (map (\<lambda>(q, p). (p, q)) es) p of Some q \<Rightarrow> Some (PStr q) | None \<Rightarrow> quid_shown r p))"
  using assms(2,3)
proof (induction es arbitrary: r)
  case (Cons e es)
  obtain q p where e: "e = (q, p)" by force
  have ok: "entries_ok v es" and fresh: "p \<notin> snd ` set es" using Cons.prems(1) e by (auto simp: entries_ok_def)
  from entry_at [OF Cons.prems(1), of q p] e obtain u
    where u: "is_persisted_quid (PStr q)" "ordered_projected_value_at v p = Some u" "is_container u" by auto
  obtain r1 where r1: "assign_at_path r q p = Inr r1" "strip r1 = g"
    "\<And>p'. quid_shown r1 p' = (if p' = p then Some (PStr q) else quid_shown r p')"
    using assign_at_path_ok [OF assms(1) Cons.prems(2) u(2,3,1)] by blast
  from Cons.IH [OF ok r1(2)] obtain r2 where r2: "apply_projected_entries r1 es = Inr r2" "strip r2 = g"
    "\<And>p'. quid_shown r2 p' = (case map_of (map (\<lambda>(q, p). (p, q)) es) p' of Some q \<Rightarrow> Some (PStr q) | None \<Rightarrow> quid_shown r1 p')"
    by auto
  have "map_of (map (\<lambda>(q, p). (p, q)) es) p = None" using fresh by (simp add: map_of_swapped_None)
  then show ?case using e r1(1,3) r2 by (auto split: option.split)
qed simp

end
