(* ===== verification/Projected_Core.thy ===== *)
theory Projected_Core
  imports Projected_Identity Live_Transition Data_Transport
begin

text \<open>
  A live map of a projected value: its owned graph, the carrier the graph presents, the identity
  overlay, revision and identity epoch, and the operations that change them (the projected part of
  \<open>api/livemap/livemap.core.ts\<close>, \<open>livemap.replay.ts\<close>, \<open>livemap.projected.capture.ts\<close> and
  \<open>livemap.projected.identity-handle.ts\<close>). Observers return normally; what they are told is the list of
  events. A commit keeps its planned operations and their payload; the materialized operations of the
  public commit are these read as JavaScript values. An attached schema is its name, the paths it knows,
  the paths of its constraints and its verdicts. Revisions stay below \<open>2 ^ 53\<close>.
\<close>

section \<open>State\<close>

record projected_schema =
  ps_name :: nat
  ps_has :: "live_path \<Rightarrow> bool"
  ps_constraints :: "live_path list"
  ps_value_ok :: "live_path \<Rightarrow> opv option \<Rightarrow> bool"
  ps_root_ok :: "opv \<Rightarrow> bool"

record data_commit =
  dc_changed :: bool
  dc_prev_rev :: nat
  dc_rev :: nat
  dc_ops :: "projected_op list"
  dc_payload :: js_string

record identity_commit =
  ic_prev_rev :: nat
  ic_rev :: nat
  ic_path :: live_path
  ic_quid :: js_string

datatype map_commit = DataCommit data_commit | IdentityCommit identity_commit

datatype projected_event = MapCommitEvent map_commit commit_origin | MapSnapshotEvent nat

record projected_map =
  pm_mode :: root_mode
  pm_root :: hson_node
  pm_value :: opv
  pm_overlay :: projected_overlay
  pm_rev :: nat
  pm_epoch :: identity_epoch
  pm_schema :: "projected_schema option"
  pm_events :: "projected_event list"

record live_projection =
  lp_controller :: "(map_commit, projected_map) controller"
  lp_map :: projected_map

datatype identity_code =
    PROJECTED_IDENTITY_TARGET_NOT_FOUND
  | PROJECTED_IDENTITY_INELIGIBLE
  | PROJECTED_IDENTITY_INVARIANT
  | PROJECTED_IDENTITY_COLLISION
  | PROJECTED_IDENTITY_REUSE
  | PROJECTED_IDENTITY_ALLOCATOR_EXHAUSTED

datatype input_fault =
    InputNotObject
  | InputRevision
  | InputNotStructural
  | InputTransportMissing
  | InputFormat
  | InputPayload
  | InputCodec codec_error
  | InputRoot
  | InputDisagrees

datatype capture_fault = CaptureCategoryUnsupported | CaptureCapabilityRequired | CaptureChanged

datatype projected_error =
    PcPlan plan_error
  | PcRead edit_error
  | PcRootUnresolved
  | PcOverlay overlay_error
  | PcGraph graph_error
  | PcNoValueNode
  | PcInstall edit_error
  | PcTransition transition_error_code
  | PcEpoch epoch_error
  | PcTransport transport_fault
  | PcSchema
  | PcSchemaAttached
  | PcRevision num_arg nat
  | PcInput input_fault
  | PcIdentity identity_code live_path
  | PcQuid quid_error
  | PcCapture capture_fault
  | PcIdentityRejected
  | PcDocumentOverlay identity_error
  | PcNotProjected
  | PcRootFault root_fault
  | PcIndexFault index_fault
  | PcModeMismatch root_mode
  | PcEquality equality_fault
  | PcCallback

definition pc_lift :: "('e \<Rightarrow> projected_error) \<Rightarrow> 'e + 'a \<Rightarrow> projected_error + 'a" where
  "pc_lift f r = (case r of Inl e \<Rightarrow> Inl (f e) | Inr a \<Rightarrow> Inr a)"

section \<open>Reading\<close>

definition read_path :: "hson_node \<Rightarrow> live_path \<Rightarrow> projected_error + opv option" where
  "read_path root path = pc_lift PcRead (project_live_path root path)"

definition must_projected_root_value :: "hson_node \<Rightarrow> projected_error + opv" where
  "must_projected_root_value root =
     rbind (read_path root []) (\<lambda>v. case v of Some x \<Rightarrow> Inr x | None \<Rightarrow> Inl PcRootUnresolved)"

text \<open>The intents of one public call; its target is read from the owned graph.\<close>

fun core_write_ops :: "js_heap \<Rightarrow> data_call \<Rightarrow> hson_node \<Rightarrow> projected_error + write_op list" where
  "core_write_ops h (CallSet p v) root =
     rbind (pc_lift PcPlan (must_live_path p)) (\<lambda>path.
     rbind (read_path root path) (\<lambda>cur. pc_lift PcPlan (write_ops_from_set h path v cur)))"
| "core_write_ops h (CallReplace p v) root =
     rbind (pc_lift PcPlan (replace_write_op_from_args h p v)) (\<lambda>(path, x).
     rbind (read_path root path) (\<lambda>cur.
     rbind (pc_lift PcPlan (must_resolved_path ActReplace path cur)) (\<lambda>u. Inr [WriteReplace path x])))"
| "core_write_ops h (CallSetMany p v) root =
     rbind (pc_lift PcPlan (must_live_path p)) (\<lambda>path.
     rbind (pc_lift PcPlan (must_ordered_projected_object h v path)) (\<lambda>es.
     rbind (read_path root path) (\<lambda>cur. pc_lift PcPlan (write_ops_from_set_many path es cur))))"
| "core_write_ops h (CallSplice p start deleteCount items) root =
     rbind (pc_lift PcPlan (must_live_path p)) (\<lambda>path.
     rbind (read_path root path) (\<lambda>cur.
     rbind (pc_lift PcPlan (splice_write_op h path cur start deleteCount items)) (\<lambda>w. Inr [w])))"
| "core_write_ops h (CallDelete p) root =
     rbind (pc_lift PcPlan (must_live_path p)) (\<lambda>path.
     rbind (read_path root path) (\<lambda>cur.
     rbind (pc_lift PcPlan (must_resolved_path ActDelete path cur)) (\<lambda>u. Inr [WriteDelete path])))"

section \<open>Schema\<close>

fun write_op_path :: "write_op \<Rightarrow> live_path" where
  "write_op_path (WriteSet p v) = p"
| "write_op_path (WriteReplace p v) = p"
| "write_op_path (WriteDelete p) = p"
| "write_op_path (WriteSplice p start del items) = p"
| "write_op_path (WriteRename p src dst) = p"
| "write_op_path (WriteMove p src dst) = p"
| "write_op_path (WriteConstructiveSet p es) = p"

definition constraint_above :: "live_path \<Rightarrow> live_path \<Rightarrow> bool" where
  "constraint_above rule path \<longleftrightarrow>
     length rule < length path \<and> list_all2 (\<lambda>part x. part_eq part x \<or> part = PKey (js ''*'')) rule (take (length rule) path)"

fun known_ancestor :: "(live_path \<Rightarrow> bool) \<Rightarrow> live_path \<Rightarrow> live_path" where
  "known_ancestor has path = (if path = [] \<or> has path then path else known_ancestor has (butlast path))"

declare known_ancestor.simps [simp del]

definition must_core_schema_candidate ::
    "projected_schema option \<Rightarrow> opv \<Rightarrow> write_op list \<Rightarrow> projected_error + unit" where
  "must_core_schema_candidate schema candidate ws =
     (case schema of
        None \<Rightarrow> Inr ()
      | Some s \<Rightarrow>
          (let paths = map write_op_path ws in
           if [] \<in> set paths \<or> (\<exists>rule \<in> set (ps_constraints s). \<exists>path \<in> set paths. constraint_above rule path)
           then rguard (ps_root_ok s candidate) PcSchema
           else rguard (list_all (\<lambda>p. ps_value_ok s p (ordered_projected_value_at candidate p))
             (map (known_ancestor (ps_has s)) paths)) PcSchema))"

section \<open>Staging a write\<close>

definition replaces_root_write :: "write_op \<Rightarrow> bool" where
  "replaces_root_write w = (case w of WriteReplace p v \<Rightarrow> p = [] | _ \<Rightarrow> False)"

text \<open>
  An explicit replacement by an equal value leaves no operation; when nothing else changed and an
  identity lies at or below it, the replacement is recorded all the same, to retire the identity.
\<close>

definition retiring_replacements :: "opv \<Rightarrow> projected_overlay \<Rightarrow> write_op list \<Rightarrow> projected_op list" where
  "retiring_replacements root ov ws =
     concat (map (\<lambda>w. case w of
         WriteReplace p v \<Rightarrow>
           if \<not> livemap_projected_identity_has_at_or_below ov p then []
           else (case ordered_projected_value_at root p of
               None \<Rightarrow> []
             | Some prev \<Rightarrow> if ordered_projected_value_equal prev v then [PutData PutReplace p (Some prev) v] else [])
       | _ \<Rightarrow> []) ws)"

definition plan_write_ops_with_identity ::
    "opv \<Rightarrow> write_op list \<Rightarrow> projected_overlay \<Rightarrow> plan_error + opv \<times> projected_op list" where
  "plan_write_ops_with_identity root ws ov =
     rbind (plan_write_ops root ws) (\<lambda>(value, ops).
       Inr (value, if ops \<noteq> [] then ops else retiring_replacements root ov ws))"

definition projected_candidate_graph :: "hson_node \<Rightarrow> opv \<Rightarrow> write_op list \<Rightarrow> projected_error + hson_node" where
  "projected_candidate_graph cur value ws =
     rbind (pc_lift PcGraph (projected_value_to_hson_root value)) (\<lambda>root.
       if tag_of cur = ROOT_TAG \<or> list_ex replaces_root_write ws then Inr root
       else (case content_of root of
           ItemNode c # items \<Rightarrow> if is_Node (ItemNode c) then Inr c else Inl PcNoValueNode
         | _ \<Rightarrow> Inl PcNoValueNode))"

text \<open>\<open>sw_root\<close> is absent when only the addressed branches are rebuilt, \<open>sw_ledger\<close> when the epoch is replaced.\<close>

record staged_write =
  sw_value :: opv
  sw_ops :: "projected_op list"
  sw_overlay :: projected_overlay
  sw_root :: "hson_node option"
  sw_ledger :: "ledger option"

definition stage_write :: "write_op list \<Rightarrow> bool \<Rightarrow> opv \<Rightarrow> projected_op list \<Rightarrow> projected_map \<Rightarrow> projected_error + staged_write" where
  "stage_write ws replacesRoot value ops m =
     rbind (pc_lift PcOverlay (reconcile_livemap_projected_identity_overlay (pm_overlay m) ops)) (\<lambda>nextOverlay.
     rbind (if overlay_size (pm_overlay m) = 0 \<and> overlay_size nextOverlay = 0 \<and> \<not> replacesRoot then Inr None
       else rbind (projected_candidate_graph (pm_root m) value ws) (\<lambda>g.
         rbind (pc_lift PcOverlay (apply_livemap_projected_identity_overlay g nextOverlay)) (\<lambda>r. Inr (Some r)))) (\<lambda>nextRoot.
     rbind (if replacesRoot then Inr None
       else rbind (pc_lift PcEpoch (stage_livemap_identity_epoch (epoch_issued (pm_epoch m))
           (livemap_projected_identity_quids (pm_overlay m)) (livemap_projected_identity_quids nextOverlay)))
         (\<lambda>l. Inr (Some l))) (\<lambda>nextLedger.
       Inr \<lparr> sw_value = value, sw_ops = ops, sw_overlay = nextOverlay, sw_root = nextRoot, sw_ledger = nextLedger \<rparr>)))"

text \<open>The graph is written in place, so an edit that throws leaves what was written before it.\<close>

definition install_graph :: "staged_write \<Rightarrow> hson_node \<Rightarrow> hson_node \<times> (edit_error + unit)" where
  "install_graph sw root =
     (case sw_root sw of None \<Rightarrow> apply_projected_transport_ops root (sw_ops sw) | Some r \<Rightarrow> (r, Inr ()))"

definition next_epoch :: "staged_write \<Rightarrow> identity_epoch \<Rightarrow> epoch_error + identity_epoch" where
  "next_epoch sw e =
     (case sw_ledger sw of
        None \<Rightarrow> epoch_replace (livemap_projected_identity_quids (sw_overlay sw)) e
      | Some l \<Rightarrow> epoch_install l e)"

definition install_write :: "staged_write \<Rightarrow> nat \<Rightarrow> projected_map \<Rightarrow> projected_map \<times> bool" where
  "install_write sw revision m =
     (case install_graph sw (pm_root m) of
        (root, Inl e) \<Rightarrow> (m\<lparr> pm_root := root \<rparr>, True)
      | (root, Inr u) \<Rightarrow>
          (let m1 = m\<lparr> pm_root := root, pm_value := sw_value sw, pm_rev := revision, pm_overlay := sw_overlay sw \<rparr> in
           case next_epoch sw (pm_epoch m) of
             Inl e \<Rightarrow> (m1, True)
           | Inr ep \<Rightarrow> (m1\<lparr> pm_epoch := ep \<rparr>, False)))"

definition emit_map_commit :: "map_commit \<Rightarrow> commit_origin \<Rightarrow> projected_map \<Rightarrow> projected_map" where
  "emit_map_commit commit origin m = m\<lparr> pm_events := pm_events m @ [MapCommitEvent commit origin] \<rparr>"

definition data_commit_for ::
    "(js_number \<Rightarrow> js_string) \<Rightarrow> nat \<Rightarrow> projected_op list \<Rightarrow> projected_error + data_commit" where
  "data_commit_for spell prevRev ops =
     rbind (pc_lift PcTransport (encode_livemap_replay_transport spell ops)) (\<lambda>payload.
       Inr \<lparr> dc_changed = (ops \<noteq> []), dc_prev_rev = prevRev, dc_rev = (if ops \<noteq> [] then prevRev + 1 else prevRev),
         dc_ops = ops, dc_payload = payload \<rparr>)"

text \<open>\<open>prepare_projected_transition\<close>: everything that can be checked is checked on detached state.\<close>

definition prepare_projected_transition ::
    "(js_number \<Rightarrow> js_string) \<Rightarrow> write_op list \<Rightarrow> live_projection \<Rightarrow> projected_error + nat \<times> live_projection" where
  "prepare_projected_transition spell ws lp =
     (let m = lp_map lp in
      rbind (pc_lift PcPlan (plan_write_ops_with_identity (pm_value m) ws (pm_overlay m))) (\<lambda>(value, ops).
      rbind (must_core_schema_candidate (pm_schema m) value ws) (\<lambda>u.
      rbind (stage_write ws (ops \<noteq> [] \<and> list_ex replaces_root_write ws) value ops m) (\<lambda>sw.
      rbind (data_commit_for spell (pm_rev m) ops) (\<lambda>commit.
      rbind (pc_lift PcTransition (prepare_transition (pm_rev m) (dc_changed commit) (dc_prev_rev commit) (dc_rev commit)
          (DataCommit commit) (\<lambda>s. pm_rev s = dc_prev_rev commit) (install_write sw (dc_rev commit))
          (\<lambda>s. (emit_map_commit (DataCommit commit) Authoritative s, False)) (lp_controller lp))) (\<lambda>(token, k).
        Inr (token, lp\<lparr> lp_controller := k \<rparr>)))))))"

definition accept_map_transition ::
    "nat \<Rightarrow> notification_policy \<Rightarrow> live_projection \<Rightarrow> (projected_error + map_commit) \<times> live_projection" where
  "accept_map_transition token policy lp =
     (case accept_transition pm_rev token policy (lp_controller lp, lp_map lp) of
        (AcceptFailed e, k, m) \<Rightarrow> (Inl (PcTransition e), \<lparr> lp_controller = k, lp_map = m \<rparr>)
      | (AcceptDone c n, k, m) \<Rightarrow> (Inr c, \<lparr> lp_controller = k, lp_map = m \<rparr>)
      | (AcceptThrew c, k, m) \<Rightarrow> (Inr c, \<lparr> lp_controller = k, lp_map = m \<rparr>))"

definition commit_ops ::
    "(js_number \<Rightarrow> js_string) \<Rightarrow> write_op list \<Rightarrow> live_projection \<Rightarrow> (projected_error + map_commit) \<times> live_projection" where
  "commit_ops spell ws lp =
     (case assert_public_mutation_allowed (lp_controller lp) of
        Inl e \<Rightarrow> (Inl (PcTransition e), lp)
      | Inr u \<Rightarrow>
          (case prepare_projected_transition spell ws lp of
             Inl e \<Rightarrow> (Inl e, lp)
           | Inr (token, lp') \<Rightarrow> accept_map_transition token LegacyPolicy lp'))"

section \<open>Public writes\<close>

definition core_call ::
    "(js_number \<Rightarrow> js_string) \<Rightarrow> js_heap \<Rightarrow> data_call \<Rightarrow> live_projection \<Rightarrow> (projected_error + map_commit) \<times> live_projection" where
  "core_call spell h c lp =
     (case core_write_ops h c (pm_root (lp_map lp)) of
        Inl e \<Rightarrow> (Inl e, lp)
      | Inr ws \<Rightarrow> commit_ops spell ws lp)"

text \<open>The callback of a batch makes calls on the transaction and returns, or throws in the end.\<close>

definition core_batch ::
    "(js_number \<Rightarrow> js_string) \<Rightarrow> js_heap \<Rightarrow> data_call list \<Rightarrow> bool \<Rightarrow> live_projection \<Rightarrow>
     (projected_error + map_commit) \<times> live_projection" where
  "core_batch spell h calls throws lp =
     (case assert_public_mutation_allowed (lp_controller lp) of
        Inl e \<Rightarrow> (Inl (PcTransition e), lp)
      | Inr u \<Rightarrow>
          (case must_projected_root_value (pm_root (lp_map lp)) of
             Inl e \<Rightarrow> (Inl e, lp)
           | Inr candidate \<Rightarrow>
               (case batch_calls h calls (make_batch_tx candidate) of
                  (results, tx) \<Rightarrow> if throws then (Inl PcCallback, lp) else commit_ops spell (tx_ops tx) lp)))"

text \<open>The staged preparations that an exclusive authority accepts later.\<close>

definition prepare_projected_batch ::
    "(js_number \<Rightarrow> js_string) \<Rightarrow> js_heap \<Rightarrow> data_call list \<Rightarrow> bool \<Rightarrow> live_projection \<Rightarrow> projected_error + nat \<times> live_projection" where
  "prepare_projected_batch spell h calls throws lp =
     (case batch_calls h calls (make_batch_tx (pm_value (lp_map lp))) of
        (results, tx) \<Rightarrow> if throws then Inl PcCallback else prepare_projected_transition spell (tx_ops tx) lp)"

definition use_projected_schema :: "projected_schema \<Rightarrow> live_projection \<Rightarrow> (projected_error + unit) \<times> live_projection" where
  "use_projected_schema schema lp =
     (let m = lp_map lp in
      if map_option ps_name (pm_schema m) = Some (ps_name schema) then (Inr (), lp)
      else if pm_schema m \<noteq> None then (Inl PcSchemaAttached, lp)
      else (case assert_public_mutation_allowed (lp_controller lp) of
          Inl e \<Rightarrow> (Inl (PcTransition e), lp)
        | Inr u \<Rightarrow>
            (case must_projected_root_value (pm_root m) of
               Inl e \<Rightarrow> (Inl e, lp)
             | Inr v \<Rightarrow>
                 if \<not> ps_root_ok schema v then (Inl PcSchema, lp)
                 else (Inr (), \<lparr> lp_controller = invalidate_transitions (lp_controller lp),
                   lp_map = m\<lparr> pm_schema := Some schema \<rparr> \<rparr>))))"

section \<open>Acquiring an identity\<close>

text \<open>\<open>applyProjectedIdentityTransition\<close>: the commit of a registration, prepared and accepted at once.\<close>

definition apply_projected_identity ::
    "hson_node \<Rightarrow> projected_overlay \<Rightarrow> live_path \<Rightarrow> js_string \<Rightarrow> commit_origin \<Rightarrow> live_projection \<Rightarrow>
     (projected_error + map_commit) \<times> live_projection" where
  "apply_projected_identity nextRoot nextOverlay path q origin lp =
     (let m = lp_map lp in
      case assert_public_mutation_allowed (lp_controller lp) of
        Inl e \<Rightarrow> (Inl (PcTransition e), lp)
      | Inr u \<Rightarrow>
          if is_document_mode (pm_mode m) then (Inl PcIdentityRejected, lp)
          else (case stage_livemap_identity_epoch (epoch_issued (pm_epoch m))
              (livemap_projected_identity_quids (pm_overlay m)) (livemap_projected_identity_quids nextOverlay) of
            Inl e \<Rightarrow> (Inl (PcEpoch e), lp)
          | Inr nextLedger \<Rightarrow>
              (let commit = IdentityCommit \<lparr> ic_prev_rev = pm_rev m, ic_rev = pm_rev m + 1, ic_path = path, ic_quid = q \<rparr> in
               case prepare_transition (pm_rev m) True (pm_rev m) (pm_rev m + 1) commit (\<lambda>s. pm_rev s = pm_rev m)
                   (\<lambda>s. case epoch_install nextLedger (pm_epoch s) of
                      Inl e \<Rightarrow> (s, True)
                    | Inr ep \<Rightarrow> (s\<lparr> pm_root := nextRoot, pm_overlay := nextOverlay, pm_rev := pm_rev m + 1,
                        pm_epoch := ep \<rparr>, False))
                   (\<lambda>s. (emit_map_commit commit origin s, False)) (lp_controller lp) of
                 Inl e \<Rightarrow> (Inl (PcTransition e), lp)
               | Inr (token, k) \<Rightarrow> accept_map_transition token LegacyPolicy (lp\<lparr> lp_controller := k \<rparr>))))"

definition current_claim :: "projected_map \<Rightarrow> live_path \<Rightarrow> projected_error + js_string option" where
  "current_claim m path =
     (case resolve_value_node (pm_root m) path of
        None \<Rightarrow> Inl (PcIdentity PROJECTED_IDENTITY_TARGET_NOT_FOUND path)
      | Some endpoint \<Rightarrow>
          if \<not> node_eligible endpoint then Inl (PcIdentity PROJECTED_IDENTITY_INELIGIBLE path)
          else rbind (pc_lift PcQuid (read_hson_node_quid endpoint)) (\<lambda>existing.
            if existing \<noteq> projected_quid_at_path (pm_overlay m) path \<or>
                (case existing of None \<Rightarrow> False | Some q \<Rightarrow> projected_path_for_quid (pm_overlay m) q \<noteq> Some path)
            then Inl (PcIdentity PROJECTED_IDENTITY_INVARIANT path)
            else Inr existing))"

datatype claim_result = Claimed js_string | ClaimedElsewhere | ClaimFailed projected_error

definition claim_projected_quid :: "live_path \<Rightarrow> js_string \<Rightarrow> live_projection \<Rightarrow> claim_result \<times> live_projection" where
  "claim_projected_quid path q lp =
     (let m = lp_map lp;
          collided = (\<lambda>after. if projected_path_for_quid (pm_overlay (lp_map after)) q \<noteq> None then ClaimedElsewhere
            else ClaimFailed (PcIdentity PROJECTED_IDENTITY_COLLISION path)) in
      if (case resolve_value_node (pm_root m) path of None \<Rightarrow> True | Some n \<Rightarrow> \<not> node_eligible n)
      then (ClaimFailed (PcIdentity PROJECTED_IDENTITY_INELIGIBLE path), lp)
      else (case rbind (assign_at_path (pm_root m) q path) (\<lambda>root.
            rbind (register_livemap_projected_identity_at_path (pm_overlay m) q path) (\<lambda>ov. Inr (root, ov))) of
          Inl e \<Rightarrow> (collided lp, lp)
        | Inr (root, ov) \<Rightarrow>
            (case apply_projected_identity root ov path q Authoritative lp of
               (Inl e, lp') \<Rightarrow> (collided lp', lp')
             | (Inr commit, lp') \<Rightarrow> (Claimed q, lp'))))"

text \<open>
  \<open>allocate_livemap_quid\<close>: the candidates are what the random source returns; at most
  \<open>LIVEMAP_QUID_MINT_RETRY_LIMIT\<close> of them are tried. Too short a list stands for a source that is
  asked no further.
\<close>

definition LIVEMAP_QUID_MINT_RETRY_LIMIT :: nat where "LIVEMAP_QUID_MINT_RETRY_LIMIT = 32"

fun allocate_from :: "live_path \<Rightarrow> js_string list \<Rightarrow> live_projection \<Rightarrow> (projected_error + js_string) \<times> live_projection" where
  "allocate_from path [] lp = (Inl (PcIdentity PROJECTED_IDENTITY_ALLOCATOR_EXHAUSTED path), lp)"
| "allocate_from path (q # qs) lp =
     (if \<not> is_persisted_quid (PStr q) \<or> q \<in> set (epoch_issued (pm_epoch (lp_map lp))) \<or>
         projected_path_for_quid (pm_overlay (lp_map lp)) q \<noteq> None
      then allocate_from path qs lp
      else (case claim_projected_quid path q lp of
          (Claimed c, lp') \<Rightarrow> (Inr c, lp')
        | (ClaimedElsewhere, lp') \<Rightarrow> allocate_from path qs lp'
        | (ClaimFailed e, lp') \<Rightarrow> (Inl e, lp')))"

definition acquire_projected_identity ::
    "live_path \<Rightarrow> js_string list \<Rightarrow> live_projection \<Rightarrow> (projected_error + js_string) \<times> live_projection" where
  "acquire_projected_identity path candidates lp =
     (case current_claim (lp_map lp) path of
        Inl e \<Rightarrow> (Inl e, lp)
      | Inr (Some q) \<Rightarrow> (Inr q, lp)
      | Inr None \<Rightarrow> allocate_from path (take LIVEMAP_QUID_MINT_RETRY_LIMIT candidates) lp)"

text \<open>What a handle, made in epoch \<open>epoch\<close> and not disposed, resolves to.\<close>

definition handle_path :: "projected_map \<Rightarrow> js_string \<Rightarrow> nat \<Rightarrow> projected_error + live_path option" where
  "handle_path m q epoch =
     (if epoch_current (pm_epoch m) \<noteq> epoch then Inr None
      else (case projected_path_for_quid (pm_overlay m) q of
          None \<Rightarrow> Inr None
        | Some path \<Rightarrow>
            if projected_quid_at_path (pm_overlay m) path \<noteq> Some q then Inr None
            else (case resolve_value_node (pm_root m) path of
                None \<Rightarrow> Inr None
              | Some endpoint \<Rightarrow>
                  if \<not> node_eligible endpoint then Inr None
                  else rbind (pc_lift PcQuid (read_hson_node_quid endpoint)) (\<lambda>shown.
                    Inr (if shown = Some q then Some path else None)))))"

section \<open>Structural input\<close>

text \<open>The own fields of a value that is a plain object, or none.\<close>

datatype input_field = NumberInput num_arg | TextInput js_string | NodeInput hson_item | OtherInput

type_synonym structural_input = "(js_string \<times> input_field) list option"

definition LIVEMAP_STRUCTURAL_JSON_FORMAT :: js_string where
  "LIVEMAP_STRUCTURAL_JSON_FORMAT = js ''structural-json''"

definition has_own :: "(js_string \<times> 'a) list \<Rightarrow> js_string \<Rightarrow> bool" where
  "has_own fs k \<longleftrightarrow> map_of fs k \<noteq> None"

definition own_revision :: "(js_string \<times> input_field) list \<Rightarrow> js_string \<Rightarrow> nat option" where
  "own_revision fs k = (case map_of fs k of Some (NumberInput x) \<Rightarrow> num_arg_revision x | _ \<Rightarrow> None)"

definition transport_payload ::
    "(js_string \<Rightarrow> codec_error + 'a) \<Rightarrow> (js_string \<times> input_field) list \<Rightarrow> input_fault + 'a" where
  "transport_payload decode fs =
     (if map_of fs (js ''format'') \<noteq> Some (TextInput LIVEMAP_STRUCTURAL_JSON_FORMAT) then Inl InputFormat
      else (case map_of fs (js ''payload'') of
          Some (TextInput payload) \<Rightarrow> (case decode payload of Inl e \<Rightarrow> Inl (InputCodec e) | Inr x \<Rightarrow> Inr x)
        | _ \<Rightarrow> Inl InputPayload))"

definition must_livemap_replay ::
    "(js_string \<Rightarrow> js_number) \<Rightarrow> structural_input \<Rightarrow> input_fault + nat \<times> projected_op list" where
  "must_livemap_replay read input =
     (case input of
        None \<Rightarrow> Inl InputNotObject
      | Some fs \<Rightarrow>
          (case own_revision fs (js ''prevRev'') of
             None \<Rightarrow> Inl InputRevision
           | Some prevRev \<Rightarrow>
               if has_own fs (js ''formatVersion'') \<or> \<not> (has_own fs (js ''format'') \<or> has_own fs (js ''payload''))
               then Inl InputNotStructural
               else rbind (transport_payload (decode_livemap_replay_payload read) fs) (\<lambda>ops. Inr (prevRev, ops))))"

definition must_projected_apply ::
    "(js_string \<Rightarrow> js_number) \<Rightarrow> structural_input \<Rightarrow> input_fault + nat \<times> opv" where
  "must_projected_apply read input =
     (case input of
        None \<Rightarrow> Inl InputNotObject
      | Some fs \<Rightarrow>
          (case own_revision fs (js ''prevRev'') of
             None \<Rightarrow> Inl InputRevision
           | Some prevRev \<Rightarrow>
               if has_own fs (js ''formatVersion'') \<or> has_own fs (js ''value'') then Inl InputNotStructural
               else if \<not> (has_own fs (js ''format'') \<or> has_own fs (js ''payload'')) then Inl InputTransportMissing
               else rbind (transport_payload (decode_projected_value_payload read) fs) (\<lambda>v. Inr (prevRev, v))))"

definition must_expected_rev :: "nat \<Rightarrow> nat \<Rightarrow> projected_error + unit" where
  "must_expected_rev expected actual = rguard (expected = actual) (PcRevision (IntArg (int expected)) actual)"

definition core_apply ::
    "(js_number \<Rightarrow> js_string) \<Rightarrow> (js_string \<Rightarrow> js_number) \<Rightarrow> structural_input \<Rightarrow> live_projection \<Rightarrow>
     (projected_error + map_commit) \<times> live_projection" where
  "core_apply spell read input lp =
     (case rbind (pc_lift PcInput (must_projected_apply read input)) (\<lambda>(prevRev, v).
         rbind (must_expected_rev prevRev (pm_rev (lp_map lp))) (\<lambda>u. Inr v)) of
        Inl e \<Rightarrow> (Inl e, lp)
      | Inr v \<Rightarrow> commit_ops spell [WriteReplace [] v] lp)"

section \<open>Replay\<close>

text \<open>\<open>replay_write_ops\<close> on the carrier read from the owned graph.\<close>

definition core_replay_write_ops :: "hson_node \<Rightarrow> projected_op list \<Rightarrow> projected_error + write_op list" where
  "core_replay_write_ops root ops =
     rbind (must_projected_root_value root) (\<lambda>candidate. pc_lift PcPlan (replay_write_ops candidate ops))"

text \<open>\<open>apply_replay_ops\<close> installs without a prepared transition; the payload is spelled after that.\<close>

definition install_replay :: "staged_write \<Rightarrow> nat \<Rightarrow> projected_map \<Rightarrow> (projected_error + unit) \<times> projected_map" where
  "install_replay sw revision m =
     (case install_graph sw (pm_root m) of
        (root, Inl e) \<Rightarrow> (Inl (PcInstall e), m\<lparr> pm_root := root \<rparr>)
      | (root, Inr u) \<Rightarrow>
          (let m1 = m\<lparr> pm_root := root, pm_value := sw_value sw, pm_overlay := sw_overlay sw \<rparr> in
           case next_epoch sw (pm_epoch m) of
             Inl e \<Rightarrow> (Inl (PcEpoch e), m1)
           | Inr ep \<Rightarrow> (Inr (), m1\<lparr> pm_epoch := ep, pm_rev := revision \<rparr>)))"

definition apply_replay_ops ::
    "(js_number \<Rightarrow> js_string) \<Rightarrow> write_op list \<Rightarrow> projected_map \<Rightarrow> (projected_error + map_commit) \<times> projected_map" where
  "apply_replay_ops spell ws m =
     (case rbind (pc_lift PcPlan (plan_write_ops_with_identity (pm_value m) ws (pm_overlay m))) (\<lambda>(value, ops).
         rbind (must_core_schema_candidate (pm_schema m) value ws) (\<lambda>u. Inr (value, ops))) of
        Inl e \<Rightarrow> (Inl e, m)
      | Inr (value, ops) \<Rightarrow>
          (case (if ops = [] then (Inr (), m)
              else (case stage_write ws (list_ex replaces_root_write ws) value ops m of
                  Inl e \<Rightarrow> (Inl e, m)
                | Inr sw \<Rightarrow> install_replay sw (pm_rev m + 1) m)) of
             (Inl e, m1) \<Rightarrow> (Inl e, m1)
           | (Inr u, m1) \<Rightarrow>
               (case data_commit_for spell (pm_rev m) ops of
                  Inl e \<Rightarrow> (Inl e, m1)
                | Inr commit \<Rightarrow> (Inr (DataCommit commit), emit_map_commit (DataCommit commit) Replay m1))))"

definition replay_data ::
    "(js_number \<Rightarrow> js_string) \<Rightarrow> (js_string \<Rightarrow> js_number) \<Rightarrow> structural_input \<Rightarrow> live_projection \<Rightarrow>
     (projected_error + map_commit) \<times> live_projection" where
  "replay_data spell read input lp =
     (let m = lp_map lp in
      case assert_public_mutation_allowed (lp_controller lp) of
        Inl e \<Rightarrow> (Inl (PcTransition e), lp)
      | Inr u \<Rightarrow>
          (case rbind (pc_lift PcInput (must_livemap_replay read input)) (\<lambda>(prevRev, ops).
              rbind (must_expected_rev prevRev (pm_rev m)) (\<lambda>u. core_replay_write_ops (pm_root m) ops)) of
             Inl e \<Rightarrow> (Inl e, lp)
           | Inr ws \<Rightarrow>
               (case apply_replay_ops spell ws m of
                  (r, m') \<Rightarrow> (r, \<lparr> lp_controller = invalidate_transitions (lp_controller lp), lp_map = m' \<rparr>))))"

definition replay_identity :: "num_arg \<Rightarrow> live_path \<Rightarrow> prim \<Rightarrow> live_projection \<Rightarrow> (projected_error + map_commit) \<times> live_projection" where
  "replay_identity prevRev path quid lp =
     (let m = lp_map lp in
      case assert_public_mutation_allowed (lp_controller lp) of
        Inl e \<Rightarrow> (Inl (PcTransition e), lp)
      | Inr u \<Rightarrow>
          if num_arg_revision prevRev \<noteq> Some (pm_rev m) then (Inl (PcRevision prevRev (pm_rev m)), lp)
          else (case quid of
              PStr q \<Rightarrow>
                if \<not> is_persisted_quid quid then (Inl (PcIdentity PROJECTED_IDENTITY_INVARIANT []), lp)
                else (case resolve_value_node (pm_root m) path of
                    None \<Rightarrow> (Inl (PcIdentity PROJECTED_IDENTITY_INELIGIBLE path), lp)
                  | Some endpoint \<Rightarrow>
                      if \<not> node_eligible endpoint then (Inl (PcIdentity PROJECTED_IDENTITY_INELIGIBLE path), lp)
                      else (case read_hson_node_quid endpoint of
                          Inl e \<Rightarrow> (Inl (PcQuid e), lp)
                        | Inr (Some carried) \<Rightarrow> (Inl (PcIdentity PROJECTED_IDENTITY_COLLISION path), lp)
                        | Inr None \<Rightarrow>
                            if projected_path_for_quid (pm_overlay m) q \<noteq> None
                              then (Inl (PcIdentity PROJECTED_IDENTITY_COLLISION path), lp)
                            else if q \<in> set (epoch_issued (pm_epoch m))
                              then (Inl (PcIdentity PROJECTED_IDENTITY_REUSE path), lp)
                            else (case rbind (assign_at_path (pm_root m) q path) (\<lambda>root.
                                rbind (register_livemap_projected_identity_at_path (pm_overlay m) q path) (\<lambda>ov. Inr (root, ov))) of
                                Inl e \<Rightarrow> (Inl (PcOverlay e), lp)
                              | Inr (root, ov) \<Rightarrow> apply_projected_identity root ov path q Replay lp)))
            | _ \<Rightarrow> (Inl (PcIdentity PROJECTED_IDENTITY_INVARIANT []), lp)))"

section \<open>Construction, capture and restore\<close>

datatype prepared_overlay = DocumentOverlay identity_overlay | ProjectedOverlay projected_overlay

record prepared_root =
  pr_root :: hson_node
  pr_mode :: root_mode
  pr_overlay :: prepared_overlay

definition prepare_livemap_root :: "hson_node \<Rightarrow> projected_error + prepared_root" where
  "prepare_livemap_root input =
     rbind (pc_lift PcIndexFault (normalize_hson_array_index_order input)) (\<lambda>root.
     rbind (case classify_live_root_shape root of
         Inr mode \<Rightarrow> Inr mode
       | Inl e \<Rightarrow> pc_lift PcRootFault (classify_live_root_mode root)) (\<lambda>mode.
     rbind (if is_document_mode mode
         then rbind (pc_lift PcDocumentOverlay (build_livemap_document_identity_overlay root mode)) (\<lambda>ov. Inr (DocumentOverlay ov))
         else rbind (pc_lift PcOverlay (build_livemap_projected_identity_overlay root)) (\<lambda>ov. Inr (ProjectedOverlay ov))) (\<lambda>overlay.
     rbind (pc_lift PcRootFault (classify_live_root_mode root)) (\<lambda>u.
       Inr \<lparr> pr_root = root, pr_mode = mode, pr_overlay = overlay \<rparr>))))"

text \<open>A new map on a projected root; \<open>owner\<close> names it.\<close>

definition make_projected_core :: "nat \<Rightarrow> hson_node \<Rightarrow> projected_error + live_projection" where
  "make_projected_core owner input =
     rbind (prepare_livemap_root input) (\<lambda>prepared.
       case pr_overlay prepared of
         DocumentOverlay ov \<Rightarrow> Inl PcNotProjected
       | ProjectedOverlay ov \<Rightarrow>
           rbind (must_projected_root_value (pr_root prepared)) (\<lambda>value.
           rbind (pc_lift PcEpoch (make_livemap_identity_epoch owner (livemap_projected_identity_quids ov))) (\<lambda>epoch.
             Inr \<lparr> lp_controller = new_controller (pr_mode prepared),
               lp_map = \<lparr> pm_mode = pr_mode prepared, pm_root = pr_root prepared, pm_value = value, pm_overlay = ov,
                 pm_rev = 0, pm_epoch = epoch, pm_schema = None, pm_events = [] \<rparr> \<rparr>)))"

record projected_provenance =
  pp_owner :: nat
  pp_epoch :: nat
  pp_category :: identity_policy
  pp_root :: hson_node
  pp_rev :: nat

text \<open>A capture object with the provenance that the map keeps for exactly this object.\<close>

type_synonym projected_capture = "structural_input \<times> projected_provenance option"

definition capture_livemap_projected ::
    "(js_number \<Rightarrow> js_string) \<Rightarrow> identity_epoch \<Rightarrow> nat \<Rightarrow> hson_node \<Rightarrow> opv \<Rightarrow> identity_policy option \<Rightarrow>
     projected_error + projected_capture" where
  "capture_livemap_projected spell ctl revision root value options =
     (let category = (case options of None \<Rightarrow> PreserveMetadata | Some p \<Rightarrow> p) in
      if category \<noteq> SameEpoch \<and> category \<noteq> PreserveMetadata \<and> category \<noteq> StripIdentity
      then Inl (PcCapture CaptureCategoryUnsupported)
      else (let captureRoot = (if category = StripIdentity then clone_hson_graph_without_quids root else root) in
        rbind (pc_lift PcTransport (encode_projected_value_transport spell value)) (\<lambda>payload.
          Inr (Some [(js ''rev'', NumberInput (IntArg (int revision))),
              (js ''format'', TextInput LIVEMAP_STRUCTURAL_JSON_FORMAT), (js ''payload'', TextInput payload),
              (js ''root'', NodeInput (ItemNode captureRoot))],
            if options = None then None
            else Some \<lparr> pp_owner = epoch_owner ctl, pp_epoch = epoch_current ctl, pp_category = category,
              pp_root = captureRoot, pp_rev = revision \<rparr>))))"

definition core_capture ::
    "(js_number \<Rightarrow> js_string) \<Rightarrow> identity_policy option \<Rightarrow> live_projection \<Rightarrow> projected_error + projected_capture" where
  "core_capture spell options lp =
     (let m = lp_map lp in
      rbind (must_projected_root_value (pm_root m)) (\<lambda>value.
        capture_livemap_projected spell (pm_epoch m) (pm_rev m) (pm_root m) value options))"

definition must_projected_capture ::
    "(js_string \<Rightarrow> js_number) \<Rightarrow> structural_input \<Rightarrow> input_fault + nat \<times> opv \<times> hson_node" where
  "must_projected_capture read input =
     (case input of
        None \<Rightarrow> Inl InputNotObject
      | Some fs \<Rightarrow>
          (case own_revision fs (js ''rev'') of
             None \<Rightarrow> Inl InputRevision
           | Some revision \<Rightarrow>
               if has_own fs (js ''formatVersion'') \<or> has_own fs (js ''value'') then Inl InputNotStructural
               else if \<not> (has_own fs (js ''format'') \<or> has_own fs (js ''payload'')) then Inl InputTransportMissing
               else (case map_of fs (js ''root'') of
                   Some (NodeInput (ItemNode root)) \<Rightarrow>
                     if \<not> is_Node (ItemNode root) then Inl InputRoot
                     else rbind (transport_payload (decode_projected_value_payload read) fs) (\<lambda>v. Inr (revision, v, root))
                 | _ \<Rightarrow> Inl InputRoot)))"

text \<open>\<open>True\<close> keeps the epoch.\<close>

definition projected_capture_continuity ::
    "identity_epoch \<Rightarrow> projected_capture \<Rightarrow> identity_policy option \<Rightarrow> projected_error + bool" where
  "projected_capture_continuity ctl capture options =
     (if options \<noteq> Some SameEpoch then Inr False
      else (case capture of
          (Some fs, Some proof) \<Rightarrow>
            if pp_category proof \<noteq> SameEpoch \<or> pp_owner proof \<noteq> epoch_owner ctl \<or> pp_epoch proof \<noteq> epoch_current ctl
              then Inl (PcCapture CaptureCapabilityRequired)
            else if own_revision fs (js ''rev'') \<noteq> Some (pp_rev proof) then Inl (PcCapture CaptureChanged)
            else (case map_of fs (js ''root'') of
                Some (NodeInput (ItemNode root)) \<Rightarrow>
                  (case canonical_hson_graph_equal root (pp_root proof) of
                     Inl e \<Rightarrow> Inl (PcEquality e)
                   | Inr same \<Rightarrow> if same then Inr True else Inl (PcCapture CaptureChanged))
              | _ \<Rightarrow> Inl (PcCapture CaptureChanged))
        | _ \<Rightarrow> Inl (PcCapture CaptureCapabilityRequired)))"

definition prepare_restore ::
    "(js_string \<Rightarrow> js_number) \<Rightarrow> projected_capture \<Rightarrow> identity_policy option \<Rightarrow> projected_map \<Rightarrow>
     projected_error + nat \<times> opv \<times> prepared_root \<times> identity_epoch" where
  "prepare_restore read capture options m =
     rbind (pc_lift PcInput (must_projected_capture read (fst capture))) (\<lambda>(revision, v, capturedRoot).
     rbind (must_projected_root_value (pm_root m)) (\<lambda>cur.
     rbind (pc_lift PcPlan (plan_write_ops cur [WriteReplace [] v])) (\<lambda>(planned, ops).
     rbind (must_core_schema_candidate (pm_schema m) planned [WriteReplace [] v]) (\<lambda>u.
     let candidate = (if options = Some StripIdentity then clone_hson_graph_without_quids capturedRoot else capturedRoot) in
     rbind (if options = Some RejectIdentity
         then rbind (prepare_livemap_root candidate) (\<lambda>p. case pr_overlay p of
             ProjectedOverlay ov \<Rightarrow> rguard (overlay_size ov = 0) PcIdentityRejected
           | DocumentOverlay ov \<Rightarrow> Inr ())
         else Inr ()) (\<lambda>u.
     rbind (must_projected_root_value candidate) (\<lambda>candidateValue.
     rbind (rguard (ordered_projected_value_equal candidateValue planned) (PcInput InputDisagrees)) (\<lambda>u.
     rbind (pc_lift PcRootFault (classify_live_root_mode candidate)) (\<lambda>observed.
     rbind (rguard (observed = pm_mode m) (PcModeMismatch observed)) (\<lambda>u.
     rbind (prepare_livemap_root candidate) (\<lambda>prepared.
     rbind (projected_capture_continuity (pm_epoch m) capture options) (\<lambda>same.
     case pr_overlay prepared of
       DocumentOverlay ov \<Rightarrow> Inl PcNotProjected
     | ProjectedOverlay ov \<Rightarrow>
         (let quids = livemap_projected_identity_quids ov in
          rbind (pc_lift PcEpoch (if same
              then rbind (retain_livemap_identity_epoch (epoch_issued (pm_epoch m)) quids) (\<lambda>l. epoch_install l (pm_epoch m))
              else epoch_replace quids (pm_epoch m))) (\<lambda>ep.
            Inr (revision, planned, prepared, ep))))))))))))))"

definition core_restore ::
    "(js_string \<Rightarrow> js_number) \<Rightarrow> projected_capture \<Rightarrow> identity_policy option \<Rightarrow> live_projection \<Rightarrow>
     (projected_error + unit) \<times> live_projection" where
  "core_restore read capture options lp =
     (let m = lp_map lp in
      case assert_public_mutation_allowed (lp_controller lp) of
        Inl e \<Rightarrow> (Inl (PcTransition e), lp)
      | Inr u \<Rightarrow>
          (case prepare_restore read capture options m of
             Inl e \<Rightarrow> (Inl e, lp)
           | Inr (revision, planned, prepared, ep) \<Rightarrow>
               (case pr_overlay prepared of
                  DocumentOverlay ov \<Rightarrow> (Inl PcNotProjected, lp)
                | ProjectedOverlay ov \<Rightarrow>
                    (Inr (), \<lparr> lp_controller = invalidate_transitions (lp_controller lp),
                      lp_map = m\<lparr> pm_root := pr_root prepared, pm_value := planned, pm_overlay := ov, pm_rev := revision,
                        pm_epoch := ep, pm_events := pm_events m @ [MapSnapshotEvent revision] \<rparr> \<rparr>))))"

section \<open>Runs\<close>

text \<open>What a caller may ask of a map, and what may be done to it besides.\<close>

datatype map_request =
    MapCall js_heap data_call
  | MapBatch js_heap "data_call list" bool
  | MapApply structural_input
  | MapAcquire live_path "js_string list"

datatype map_step =
    MapRequest map_request
  | MapReplay structural_input
  | MapReplayIdentity num_arg live_path prim
  | MapUseSchema projected_schema

definition faulted :: "('e + 'a) \<times> 's \<Rightarrow> 'e option \<times> 's" where
  "faulted x = (case x of (Inl e, s) \<Rightarrow> (Some e, s) | (Inr a, s) \<Rightarrow> (None, s))"

fun run_map_request ::
    "(js_number \<Rightarrow> js_string) \<Rightarrow> (js_string \<Rightarrow> js_number) \<Rightarrow> map_request \<Rightarrow> live_projection \<Rightarrow>
     projected_error option \<times> live_projection" where
  "run_map_request spell read (MapCall h c) lp = faulted (core_call spell h c lp)"
| "run_map_request spell read (MapBatch h cs throws) lp = faulted (core_batch spell h cs throws lp)"
| "run_map_request spell read (MapApply input) lp = faulted (core_apply spell read input lp)"
| "run_map_request spell read (MapAcquire path candidates) lp = faulted (acquire_projected_identity path candidates lp)"

fun run_map_step ::
    "(js_number \<Rightarrow> js_string) \<Rightarrow> (js_string \<Rightarrow> js_number) \<Rightarrow> map_step \<Rightarrow> live_projection \<Rightarrow>
     projected_error option \<times> live_projection" where
  "run_map_step spell read (MapRequest req) lp = run_map_request spell read req lp"
| "run_map_step spell read (MapReplay input) lp = faulted (replay_data spell read input lp)"
| "run_map_step spell read (MapReplayIdentity prevRev path quid) lp = faulted (replay_identity prevRev path quid lp)"
| "run_map_step spell read (MapUseSchema schema) lp = faulted (use_projected_schema schema lp)"

fun run_map_steps ::
    "(js_number \<Rightarrow> js_string) \<Rightarrow> (js_string \<Rightarrow> js_number) \<Rightarrow> map_step list \<Rightarrow> live_projection \<Rightarrow>
     projected_error option list \<times> live_projection" where
  "run_map_steps spell read [] lp = ([], lp)"
| "run_map_steps spell read (st # sts) lp =
     (case run_map_step spell read st lp of (e, lp1) \<Rightarrow>
       (case run_map_steps spell read sts lp1 of (es, lp2) \<Rightarrow> (e # es, lp2)))"

end
