(* ===== verification/Projected_Core_Laws.thy ===== *)
theory Projected_Core_Laws
  imports Projected_Identity_Laws Projected_Core
begin

text \<open>
  A consistent projected live map, and that every request, replay and claim leaves it consistent.
\<close>

section \<open>A consistent map\<close>

text \<open>
  The graph is the graph of the carrier with the overlay written onto it; the overlay names objects
  and arrays of the carrier, and its identities are issued.
\<close>

definition projected_ok :: "projected_map \<Rightarrow> bool" where
  "projected_ok m \<longleftrightarrow> placed_overlay (pm_value m) (pm_overlay m) \<and>
     (\<exists>g. projected_value_to_hson_root (pm_value m) = Inr g \<and>
       apply_livemap_projected_identity_overlay g (pm_overlay m) = Inr (pm_root m)) \<and>
     fst ` set (po_by_quid (pm_overlay m)) \<subseteq> set (epoch_issued (pm_epoch m)) \<and> ledger_ok (epoch_issued (pm_epoch m)) \<and>
     \<not> is_document_mode (pm_mode m)"

definition shows_overlay :: "hson_node \<Rightarrow> projected_overlay \<Rightarrow> bool" where
  "shows_overlay root ov \<longleftrightarrow> (\<forall>p. quid_shown root p = map_option PStr (projected_quid_at_path ov p))"

lemma strip_no_quid:
  assumes "strip g = g"
  shows "quid_shown g p = None"
proof (cases "resolve_value_node g p")
  case (Some n)
  with assms have "strip n = n" using strip_resolve [of g p] by simp
  then have "without_quid (meta_of n) = meta_of n" by (metis strip_parts(3))
  moreover have "meta_lookup (without_quid m) HSON_META_QUID = None" for m
  proof -
    have "map_of (filter (\<lambda>e. fst e \<noteq> HSON_META_QUID) es) HSON_META_QUID = None" for es :: hson_meta
      by (induction es) auto
    moreover have "HSON_META_QUID \<notin> fst ` set es \<Longrightarrow> map_of es HSON_META_QUID = None" for es :: hson_meta
      by (simp add: map_of_eq_None_iff)
    ultimately show ?thesis by (auto simp: without_quid_def meta_lookup_def Let_def split: option.split)
  qed
  ultimately show ?thesis using Some by (metis quid_shown_def meta_at_def bind.bind_lunit option.map(2))
qed (simp add: quid_shown_def meta_at_def)

lemma apply_overlay_ok:
  assumes "projected_value_to_hson_root v = Inr g" and "placed_overlay v ov"
  obtains r where "apply_livemap_projected_identity_overlay g ov = Inr r" "strip r = g" "shows_overlay r ov"
proof -
  have g: "graph_of v g" using assms(1) by (simp add: graph_of_def)
  then have s: "strip g = g" by (rule graph_of_parts)
  have ok: "entries_ok v (po_by_quid ov)" and ov: "ov = overlay_of (po_by_quid ov)" using assms(2) by (simp_all add: placed_overlay_def)
  from apply_entries_ok [OF g ok s] obtain r where r: "apply_projected_entries g (po_by_quid ov) = Inr r" "strip r = g"
    "\<And>p. quid_shown r p = (case map_of (map (\<lambda>(q, p). (p, q)) (po_by_quid ov)) p of Some q \<Rightarrow> Some (PStr q) | None \<Rightarrow> quid_shown g p)"
    by auto
  have "projected_quid_at_path ov p = map_of (map (\<lambda>(q, p). (p, q)) (po_by_quid ov)) p" for p
    by (subst ov) (simp add: projected_quid_at_path_def overlay_of_def)
  then have "shows_overlay r ov" using r(3) strip_no_quid [OF s] by (auto simp: shows_overlay_def split: option.split)
  with that r show ?thesis by (simp add: apply_livemap_projected_identity_overlay_def)
qed

lemma projected_ok_root:
  assumes "projected_ok m"
  obtains g where "projected_value_to_hson_root (pm_value m) = Inr g" "strip (pm_root m) = g" "shows_overlay (pm_root m) (pm_overlay m)"
proof -
  from assms obtain g where g: "projected_value_to_hson_root (pm_value m) = Inr g"
    "apply_livemap_projected_identity_overlay g (pm_overlay m) = Inr (pm_root m)" "placed_overlay (pm_value m) (pm_overlay m)"
    by (auto simp: projected_ok_def)
  from apply_overlay_ok [OF g(1,3)] g(2) obtain "strip (pm_root m) = g" "shows_overlay (pm_root m) (pm_overlay m)" by auto
  with that g(1) show ?thesis by blast
qed

lemma projected_ok_value: "projected_ok m \<Longrightarrow> opv_ok (pm_value m)"
  by (erule projected_ok_root) (use graph_of_ok in \<open>auto simp: graph_of_def\<close>)

lemma projected_ok_tag: "projected_ok m \<Longrightarrow> tag_of (pm_root m) = ROOT_TAG"
  by (erule projected_ok_root) (metis root_node_iff strip_parts(1) hson_node.sel(1))

lemma projected_ok_reads:
  assumes "projected_ok m"
    and "plain_path path \<or> path = [] \<or> (\<exists>u. ordered_projected_value_at (pm_value m) (butlast path) = Some u \<and> is_container u)"
  shows "read_path (pm_root m) path = Inr (ordered_projected_value_at (pm_value m) path)"
proof -
  obtain g where g: "projected_value_to_hson_root (pm_value m) = Inr g" "strip (pm_root m) = g" using projected_ok_root [OF assms(1)] by blast
  have "project_live_path (pm_root m) path = project_live_path g path"
    using g(2) strip_project by metis
  with graph_of_reads [OF _ assms(2), of g] g(1) show ?thesis by (simp add: read_path_def graph_of_def pc_lift_def)
qed

lemma projected_ok_root_value:
  "projected_ok m \<Longrightarrow> must_projected_root_value (pm_root m) = Inr (pm_value m)"
  using projected_ok_reads [of m "[]"] by (simp add: must_projected_root_value_def)

lemma pc_lift_Inr [simp]: "pc_lift f r = Inr a \<longleftrightarrow> r = Inr a"
  by (cases r) (simp_all add: pc_lift_def)

lemma pc_lift_simp [simp]: "pc_lift f (Inr a) = Inr a"
  by (simp add: pc_lift_def)

section \<open>What is planned\<close>

text \<open>Replacements by equal values, which only retire identities.\<close>

definition retires_only :: "opv \<Rightarrow> projected_op list \<Rightarrow> bool" where
  "retires_only v ops \<longleftrightarrow> (\<forall>op \<in> set ops. \<exists>p x. op = PutData PutReplace p (Some x) x \<and> ordered_projected_value_at v p = Some x)"

lemma retiring_op:
  assumes "opv_ok v" and "op \<in> set (retiring_replacements v ov ws)"
  obtains p x where "op = PutData PutReplace p (Some x) x" "ordered_projected_value_at v p = Some x"
    "livemap_projected_identity_has_at_or_below ov p" "WriteReplace p x \<in> set ws"
proof -
  from assms(2) obtain w where ws: "w \<in> set ws" and w: "op \<in> set (case w of
       WriteReplace p x \<Rightarrow>
         if \<not> livemap_projected_identity_has_at_or_below ov p then []
         else (case ordered_projected_value_at v p of
             None \<Rightarrow> []
           | Some prev \<Rightarrow> if ordered_projected_value_equal prev x then [PutData PutReplace p (Some prev) x] else [])
     | _ \<Rightarrow> [])"
    by (auto simp: retiring_replacements_def)
  from w obtain p x prev where x: "w = WriteReplace p x" "ordered_projected_value_at v p = Some prev"
    "ordered_projected_value_equal prev x" "op = PutData PutReplace p (Some prev) x"
    "livemap_projected_identity_has_at_or_below ov p"
    by (cases w) (simp_all split: if_splits option.splits, metis)
  with value_at_ok [OF assms(1) x(2)] equal_sound have "prev = x" by metis
  with that x ws show ?thesis by blast
qed

lemma retiring_ops:
  assumes "opv_ok v"
  shows "retires_only v (retiring_replacements v ov ws)"
  unfolding retires_only_def by (meson retiring_op [OF assms])

definition planned_ok :: "opv \<Rightarrow> projected_op list \<Rightarrow> opv \<Rightarrow> bool" where
  "planned_ok v ops c \<longleftrightarrow> ops_explain v ops c \<or> c = v \<and> retires_only v ops"

lemma planned:
  assumes "opv_ok v" and "list_all write_ok ws" and "plan_write_ops_with_identity v ws ov = Inr (c, ops)"
  shows "planned_ok v ops c \<and> opv_ok c"
proof -
  from assms(3) obtain os where p: "plan_write_ops v ws = Inr (c, os)"
    and ops: "ops = (if os \<noteq> [] then os else retiring_replacements v ov ws)"
    by (auto simp: plan_write_ops_with_identity_def rbind_Inr_iff)
  from write_ops_explained [OF assms(1,2) p] have x: "ops_explain v os c" .
  with ops_explain_ok [OF assms(1) x] retiring_ops [OF assms(1), of ov ws] ops show ?thesis
    by (auto simp: planned_ok_def)
qed

lemma retired_paths:
  "retires_only v ops \<Longrightarrow> transform_through p ops = Some p' \<Longrightarrow> p' = p"
proof (induction ops)
  case (Cons op ops)
  from Cons.prems(1) obtain r x where op: "op = PutData PutReplace r (Some x) x" by (auto simp: retires_only_def)
  have "retires_only v ops" using Cons.prems(1) by (simp add: retires_only_def)
  with Cons.IH Cons.prems(2) op show ?case by (auto split: if_splits)
qed simp

lemma retired_survivors:
  assumes "retires_only v ops" and "entries_ok v es"
  shows "entries_ok v (survivors ops es)"
proof -
  have "survivors ops es = filter (\<lambda>(q, p). transform_through p ops \<noteq> None) es"
  proof (induction es)
    case (Cons e es)
    obtain q p where e: "e = (q, p)" by force
    show ?case
    proof (cases "transform_through p ops")
      case (Some p')
      with retired_paths [OF assms(1) Some] Cons.IH e show ?thesis by simp
    qed (use Cons.IH e in simp)
  qed simp
  then show ?thesis using assms(2) by (auto simp: entries_ok_def distinct_map_filter)
qed

lemma reconcile_planned:
  assumes "opv_ok v" and "planned_ok v ops c" and "placed_overlay v ov"
  shows "reconcile_livemap_projected_identity_overlay ov ops = Inr (overlay_of (survivors ops (po_by_quid ov))) \<and>
    placed_overlay c (overlay_of (survivors ops (po_by_quid ov)))"
proof (cases "ops_explain v ops c")
  case True
  from reconcile_ok [OF assms(1) True assms(3)] show ?thesis .
next
  case False
  with assms(2) have c: "c = v" "retires_only v ops" by (simp_all add: planned_ok_def)
  have ok: "entries_ok v (po_by_quid ov)" and ov: "ov = overlay_of (po_by_quid ov)" using assms(3) by (simp_all add: placed_overlay_def)
  have s: "entries_ok v (survivors ops (po_by_quid ov))" by (rule retired_survivors [OF c(2) ok])
  have "reconcile_projected_entries ops (po_by_quid ov) empty_projected_overlay = Inr (overlay_of (survivors ops (po_by_quid ov)))"
    using reconcile_entries_eq [of "[]" "po_by_quid ov" ops] ok s by (simp add: empty_overlay_of entries_ok_def)
  moreover have "ops = [] \<or> overlay_size ov = 0 \<Longrightarrow> ov = overlay_of (survivors ops (po_by_quid ov))"
    using ov by (auto simp: overlay_size_def survivors_no_ops)
  ultimately show ?thesis
    using s c(1) by (auto simp: reconcile_livemap_projected_identity_overlay_def placed_overlay_def)
qed

section \<open>Staged writes\<close>

lemma no_overlay_no_retiring: "overlay_size ov = 0 \<Longrightarrow> retiring_replacements v ov ws = []"
  by (auto simp: retiring_replacements_def overlay_size_def livemap_projected_identity_has_at_or_below_def split: write_op.splits)

lemma planned_bare:
  assumes "opv_ok v" and "list_all write_ok ws" and "plan_write_ops_with_identity v ws ov = Inr (c, ops)" and "overlay_size ov = 0"
  shows "ops_explain v ops c"
  using assms write_ops_explained [OF assms(1,2)]
  by (auto simp: plan_write_ops_with_identity_def rbind_Inr_iff no_overlay_no_retiring split: if_splits)

lemma pc_lift_iff: "pc_lift f r = Inr a \<longleftrightarrow> r = Inr a"
  by simp

lemma candidate_graph:
  assumes "projected_ok m" and "projected_candidate_graph (pm_root m) c ws = Inr g"
  shows "projected_value_to_hson_root c = Inr g"
  using assms(2) projected_ok_tag [OF assms(1)] by (auto simp: projected_candidate_graph_def rbind_Inr_iff)

definition staged_ok :: "projected_map \<Rightarrow> opv \<Rightarrow> projected_op list \<Rightarrow> staged_write \<Rightarrow> bool" where
  "staged_ok m c ops sw \<longleftrightarrow>
     sw_value sw = c \<and> sw_ops sw = ops \<and> sw_overlay sw = overlay_of (survivors ops (po_by_quid (pm_overlay m))) \<and>
     placed_overlay c (sw_overlay sw) \<and>
     (sw_root sw = None \<longrightarrow> overlay_size (pm_overlay m) = 0 \<and> overlay_size (sw_overlay sw) = 0) \<and>
     (\<forall>r. sw_root sw = Some r \<longrightarrow> (\<exists>g. projected_value_to_hson_root c = Inr g \<and>
       apply_livemap_projected_identity_overlay g (sw_overlay sw) = Inr r)) \<and>
     (\<forall>l. sw_ledger sw = Some l \<longrightarrow> set l = set (epoch_issued (pm_epoch m)) \<and> ledger_ok l)"

lemma staged_parts:
  assumes "staged_ok m c ops sw"
  shows "sw_value sw = c" and "sw_ops sw = ops" and "sw_overlay sw = overlay_of (survivors ops (po_by_quid (pm_overlay m)))"
    and "placed_overlay c (sw_overlay sw)"
    and "sw_root sw = None \<Longrightarrow> overlay_size (pm_overlay m) = 0 \<and> overlay_size (sw_overlay sw) = 0"
    and "sw_root sw = Some r \<Longrightarrow> \<exists>g. projected_value_to_hson_root c = Inr g \<and>
       apply_livemap_projected_identity_overlay g (sw_overlay sw) = Inr r"
    and "sw_ledger sw = Some l \<Longrightarrow> set l = set (epoch_issued (pm_epoch m)) \<and> ledger_ok l"
  using assms unfolding staged_ok_def by blast+

lemma survivor_quids: "fst ` set (survivors ops es) \<subseteq> fst ` set es"
proof
  fix q assume "q \<in> fst ` set (survivors ops es)"
  then obtain p where "(q, p) \<in> set (survivors ops es)" by auto
  then obtain p0 where "(q, p0) \<in> set es" unfolding survivors_set by blast
  then show "q \<in> fst ` set es" by force
qed

lemma stage_ok:
  assumes ok: "projected_ok m" and plan: "planned_ok (pm_value m) ops c" and stage: "stage_write ws rr c ops m = Inr sw"
  shows "staged_ok m c ops sw"
proof -
  let ?ov = "overlay_of (survivors ops (po_by_quid (pm_overlay m)))"
  have rec: "reconcile_livemap_projected_identity_overlay (pm_overlay m) ops = Inr ?ov" "placed_overlay c ?ov"
    using reconcile_planned [OF projected_ok_value [OF ok] plan] ok by (auto simp: projected_ok_def)
  obtain root ledger where sw: "sw = \<lparr> sw_value = c, sw_ops = ops, sw_overlay = ?ov, sw_root = root, sw_ledger = ledger \<rparr>"
    and root: "(if overlay_size (pm_overlay m) = 0 \<and> overlay_size ?ov = 0 \<and> \<not> rr then Inr None
       else rbind (projected_candidate_graph (pm_root m) c ws) (\<lambda>g.
         rbind (pc_lift PcOverlay (apply_livemap_projected_identity_overlay g ?ov)) (\<lambda>r. Inr (Some r)))) = Inr root"
    and ledger: "(if rr then Inr None
       else rbind (pc_lift PcEpoch (stage_livemap_identity_epoch (epoch_issued (pm_epoch m))
           (livemap_projected_identity_quids (pm_overlay m)) (livemap_projected_identity_quids ?ov)))
         (\<lambda>l. Inr (Some l))) = Inr ledger"
    using stage unfolding stage_write_def rec(1) by (auto simp: rbind_Inr_iff)
  have issued: "fst ` set (po_by_quid (pm_overlay m)) \<subseteq> set (epoch_issued (pm_epoch m))" using ok by (simp add: projected_ok_def)
  have "set l = set (epoch_issued (pm_epoch m)) \<and> ledger_ok l" if "ledger = Some l" for l
  proof -
    from ledger that have "stage_livemap_identity_epoch (epoch_issued (pm_epoch m))
           (livemap_projected_identity_quids (pm_overlay m)) (livemap_projected_identity_quids ?ov) = Inr l"
      by (auto simp: rbind_Inr_iff split: if_splits)
    from stage_Inr [OF this] have "set l = set (epoch_issued (pm_epoch m)) \<union> fst ` set (survivors ops (po_by_quid (pm_overlay m)))"
      "ledger_ok l" by simp_all
    moreover have "fst ` set (survivors ops (po_by_quid (pm_overlay m))) \<subseteq> set (epoch_issued (pm_epoch m))"
      using survivor_quids issued by (rule order_trans)
    ultimately show ?thesis by (simp add: Un_absorb2)
  qed
  moreover have "\<exists>g. projected_value_to_hson_root c = Inr g \<and> apply_livemap_projected_identity_overlay g ?ov = Inr r"
    if "root = Some r" for r
    using root that candidate_graph [OF ok] by (auto simp: rbind_Inr_iff split: if_splits)
  moreover have "root = None \<Longrightarrow> overlay_size (pm_overlay m) = 0 \<and> overlay_size ?ov = 0"
    using root by (auto simp: rbind_Inr_iff split: if_splits)
  ultimately show ?thesis using rec(2) by (simp add: staged_ok_def sw)
qed

lemma no_entries:
  "placed_overlay v ov \<Longrightarrow> overlay_size ov = 0 \<Longrightarrow> apply_livemap_projected_identity_overlay g ov = Inr g"
  by (simp add: overlay_size_def apply_livemap_projected_identity_overlay_def)

lemma install_graph_ok:
  assumes ok: "projected_ok m" and st: "staged_ok m c ops sw"
    and plain: "overlay_size (pm_overlay m) = 0 \<Longrightarrow> ops_explain (pm_value m) ops c"
    and run: "install_graph sw (pm_root m) = (r, Inr ())"
  shows "\<exists>g. projected_value_to_hson_root c = Inr g \<and> apply_livemap_projected_identity_overlay g (sw_overlay sw) = Inr r"
proof (cases "sw_root sw")
  case (Some r0)
  with run have "r = r0" by (simp add: install_graph_def)
  with staged_parts(6) [OF st] Some show ?thesis by simp
next
  case None
  have e: "overlay_size (pm_overlay m) = 0" "overlay_size (sw_overlay sw) = 0" "placed_overlay c (sw_overlay sw)" "sw_ops sw = ops"
    using staged_parts(2,4) [OF st] staged_parts(5) [OF st None] by blast+
  obtain g where g: "projected_value_to_hson_root (pm_value m) = Inr g" "pm_root m = g"
    using ok no_entries [OF _ e(1)] by (auto simp: projected_ok_def)
  from run None g(2) e(4) have "apply_projected_transport_ops g ops = (r, Inr ())" by (simp add: install_graph_def)
  with ops_installed [OF g(1) plain [OF e(1)]] have "projected_value_to_hson_root c = Inr r" by blast
  with no_entries [OF e(3,2)] show ?thesis by simp
qed

lemma next_epoch_ok:
  assumes ok: "projected_ok m" and st: "staged_ok m c ops sw" and e: "next_epoch sw (pm_epoch m) = Inr ep"
  shows "fst ` set (po_by_quid (sw_overlay sw)) \<subseteq> set (epoch_issued ep) \<and> ledger_ok (epoch_issued ep)"
proof (cases "sw_ledger sw")
  case None
  with e have "epoch_replace (livemap_projected_identity_quids (sw_overlay sw)) (pm_epoch m) = Inr ep"
    by (simp add: next_epoch_def)
  from epoch_replace_Inr [OF this] show ?thesis by (simp add: livemap_projected_identity_quids_def)
next
  case (Some l)
  with e st have "epoch_issued ep = l" "set l = set (epoch_issued (pm_epoch m))" "ledger_ok l"
    by (auto simp: next_epoch_def epoch_install_Inr staged_ok_def)
  moreover have "fst ` set (po_by_quid (sw_overlay sw)) \<subseteq> fst ` set (po_by_quid (pm_overlay m))"
    using st survivor_quids by (auto simp: staged_ok_def)
  ultimately show ?thesis using ok by (auto simp: projected_ok_def)
qed

lemma installed_ok:
  assumes ok: "projected_ok m" and st: "staged_ok m c ops sw"
    and plain: "overlay_size (pm_overlay m) = 0 \<Longrightarrow> ops_explain (pm_value m) ops c"
    and g: "install_graph sw (pm_root m) = (r, Inr ())" and e: "next_epoch sw (pm_epoch m) = Inr ep"
  shows "projected_ok (m\<lparr> pm_root := r, pm_value := sw_value sw, pm_rev := n, pm_overlay := sw_overlay sw, pm_epoch := ep \<rparr>)"
proof -
  have "\<not> is_document_mode (pm_mode m)" using ok by (simp add: projected_ok_def)
  then show ?thesis
    using install_graph_ok [OF ok st plain g] next_epoch_ok [OF ok st e] staged_parts(1,4) [OF st]
    unfolding projected_ok_def by simp
qed

section \<open>Calls\<close>

lemma core_write_ok:
  assumes "core_write_ops h c root = Inr ws"
  shows "list_all write_ok ws"
proof (cases c)
  case (CallSet p v)
  with assms show ?thesis by (auto simp: rbind_Inr_iff dest: set_write_ok)
next
  case (CallReplace p v)
  with assms obtain path path' x where "must_ordered_projected_value h v path' = Inr x" "ws = [WriteReplace path x]"
    by (auto simp: rbind_Inr_iff replace_write_op_from_args_def split: option.splits)
  then show ?thesis by (auto dest: must_value_ok)
next
  case (CallSetMany p v)
  with assms obtain path es where "must_ordered_projected_value h v path = Inr (OObj es)"
    "ws = map (\<lambda>(key, v). WriteSet (append_live_path path (PKey key)) v) es"
    by (auto simp: rbind_Inr_iff must_object_iff write_ops_from_set_many_def)
  then show ?thesis by (fastforce simp: list_all_iff dest!: must_value_ok)
qed (use assms in \<open>auto simp: rbind_Inr_iff splice_write_op_def\<close>)

section \<open>One commit\<close>

text \<open>
  What committing intents ends with: an error that leaves the map as it was, an installation that
  threw (\<open>TransitionInvalid\<close>), a commit without a change, or the planned operations installed.
\<close>

definition commit_of :: "(js_number \<Rightarrow> js_string) \<Rightarrow> projected_map \<Rightarrow> projected_op list \<Rightarrow> data_commit \<Rightarrow> bool" where
  "commit_of spell m ops commit \<longleftrightarrow> data_commit_for spell (pm_rev m) ops = Inr commit"

lemma commit_of_parts:
  assumes "commit_of spell m ops commit"
  shows "dc_changed commit = (ops \<noteq> [])" and "dc_prev_rev commit = pm_rev m"
    and "dc_rev commit = (if ops \<noteq> [] then pm_rev m + 1 else pm_rev m)" and "dc_ops commit = ops"
    and "encode_livemap_replay_transport spell ops = Inr (dc_payload commit)"
  using assms by (auto simp: commit_of_def data_commit_for_def rbind_Inr_iff)

lemma commit_ops_cases:
  assumes "commit_ops spell ws lp = (r, lp')"
  obtains (failed) e where "r = Inl e" "lp_map lp' = lp_map lp"
  | (threw) "r = Inl (PcTransition TransitionInvalid)"
  | (unchanged) commit where "r = Inr (DataCommit commit)" "\<not> dc_changed commit" "lp_map lp' = lp_map lp"
  | (changed) c ops sw commit m where
      "plan_write_ops_with_identity (pm_value (lp_map lp)) ws (pm_overlay (lp_map lp)) = Inr (c, ops)" "ops \<noteq> []"
      "must_core_schema_candidate (pm_schema (lp_map lp)) c ws = Inr ()"
      "stage_write ws (list_ex replaces_root_write ws) c ops (lp_map lp) = Inr sw"
      "commit_of spell (lp_map lp) ops commit"
      "install_write sw (pm_rev (lp_map lp) + 1) (lp_map lp) = (m, False)"
      "r = Inr (DataCommit commit)" "lp_map lp' = emit_map_commit (DataCommit commit) Authoritative m"
proof (cases "assert_public_mutation_allowed (lp_controller lp)")
  case (Inl e)
  then show ?thesis using assms failed by (auto simp: commit_ops_def)
next
  case (Inr u)
  show ?thesis
  proof (cases "prepare_projected_transition spell ws lp")
    case (Inl e)
    then show ?thesis using assms failed Inr by (auto simp: commit_ops_def)
  next
    case prep: (Inr a)
    obtain token lp1 where a: "a = (token, lp1)" by force
    let ?m = "lp_map lp"
    obtain c ops sw commit k where p:
      "plan_write_ops_with_identity (pm_value ?m) ws (pm_overlay ?m) = Inr (c, ops)"
      "must_core_schema_candidate (pm_schema ?m) c ws = Inr ()"
      "stage_write ws (ops \<noteq> [] \<and> list_ex replaces_root_write ws) c ops ?m = Inr sw"
      "commit_of spell ?m ops commit"
      "prepare_transition (pm_rev ?m) (dc_changed commit) (dc_prev_rev commit) (dc_rev commit)
          (DataCommit commit) (\<lambda>s. pm_rev s = dc_prev_rev commit) (install_write sw (dc_rev commit))
          (\<lambda>s. (emit_map_commit (DataCommit commit) Authoritative s, False)) (lp_controller lp) = Inr (token, k)"
      "lp1 = lp\<lparr> lp_controller := k \<rparr>"
      using prep a by (auto simp: prepare_projected_transition_def Let_def rbind_Inr_iff commit_of_def)
    note c = commit_of_parts [OF p(4)]
    have run: "accept_map_transition token LegacyPolicy lp1 = (r, lp')"
      using assms Inr prep a by (simp add: commit_ops_def)
    obtain m threw' where i: "install_write sw (dc_rev commit) ?m = (m, threw')" by force
    show ?thesis
    proof (cases "ops = []")
      case True
      then have "r = Inr (DataCommit commit) \<and> lp_map lp' = ?m"
        using run p(5,6) c
        by (auto simp: accept_map_transition_def accept_transition_def prepare_transition_def record_for_def split: if_splits)
      with unchanged c(1) True show ?thesis by simp
    next
      case False
      show ?thesis
      proof (cases threw')
        case True
        then have "r = Inl (PcTransition TransitionInvalid)"
          using run p(5,6) c False i
          by (auto simp: accept_map_transition_def accept_transition_def prepare_transition_def record_for_def split: if_splits)
        with threw show ?thesis by simp
      next
        case installed: False
        then have "r = Inr (DataCommit commit) \<and> lp_map lp' = emit_map_commit (DataCommit commit) Authoritative m"
          using run p(5,6) c False i
          by (auto simp: accept_map_transition_def accept_transition_def prepare_transition_def record_for_def split: if_splits)
        with changed [OF p(1) False p(2) _ p(4)] p(3) i c(3) False installed show ?thesis by simp
      qed
    qed
  qed
qed

section \<open>Registering an identity\<close>

lemma apply_entries_append:
  "apply_projected_entries root (es @ fs) = rbind (apply_projected_entries root es) (\<lambda>r. apply_projected_entries r fs)"
proof (induction es arbitrary: root)
  case (Cons e es)
  obtain q p where e: "e = (q, p)" by force
  show ?case by (cases "assign_at_path root q p") (simp_all add: e Cons.IH)
qed simp

lemma fresh_path:
  assumes o: "placed_overlay v ov" and q: "projected_path_for_quid ov q = None"
    and reg: "register_livemap_projected_identity_at_path ov q path = Inr ov'"
  shows "projected_quid_at_path ov path = None"
proof (rule ccontr)
  assume "projected_quid_at_path ov path \<noteq> None"
  then obtain q' where q': "projected_quid_at_path ov path = Some q'" by auto
  then have "(q', path) \<in> set (po_by_quid ov)" using o quid_at_overlay by (metis (no_types, lifting) entries_ok_def placed_overlay_def)
  then have "q' \<noteq> q" using q by (auto simp: projected_path_for_quid_def map_of_eq_None_iff rev_image_eqI)
  with q' reg q show False by (simp add: register_livemap_projected_identity_at_path_def)
qed

lemma identity_registered:
  assumes ok: "projected_ok m" and q: "is_persisted_quid (PStr q)" "projected_path_for_quid (pm_overlay m) q = None"
    and assign: "assign_at_path (pm_root m) q path = Inr root"
    and reg: "register_livemap_projected_identity_at_path (pm_overlay m) q path = Inr ov"
  shows "ov = overlay_of (po_by_quid (pm_overlay m) @ [(q, path)])" and "placed_overlay (pm_value m) ov"
    and "projected_value_to_hson_root (pm_value m) = Inr g \<Longrightarrow> apply_livemap_projected_identity_overlay g ov = Inr root"
proof -
  let ?es = "po_by_quid (pm_overlay m)"
  have o: "placed_overlay (pm_value m) (pm_overlay m)" using ok by (simp add: projected_ok_def)
  obtain g' where g': "projected_value_to_hson_root (pm_value m) = Inr g'" "strip (pm_root m) = g'"
    using projected_ok_root [OF ok] by blast
  obtain n where n: "resolve_value_node (pm_root m) path = Some n" "node_eligible n"
    using assign by (auto simp: assign_at_path_def split: option.splits if_splits)
  have "graph_of (pm_value m) g'" using g'(1) by (simp add: graph_of_def)
  from graph_of_presents [OF this] obtain w where w: "presents w (pm_value m)" "unwrap_value_payload g' = Some w" by blast
  have "resolve_value_node g' path = Some (strip n)" using n(1) g'(2) strip_resolve [of "pm_root m" path] by simp
  from eligible_container [OF w this] n(2) obtain u
    where u: "ordered_projected_value_at (pm_value m) path = Some u" "is_container u" by (auto simp: strip_eligible)
  from register_ok [OF o q(1) u q(2) fresh_path [OF o q(2) reg]] reg
  show ov: "ov = overlay_of (?es @ [(q, path)])" and "placed_overlay (pm_value m) ov" by auto
  assume "projected_value_to_hson_root (pm_value m) = Inr g"
  then have "apply_projected_entries g ?es = Inr (pm_root m)"
    using ok by (auto simp: projected_ok_def apply_livemap_projected_identity_overlay_def)
  then show "apply_livemap_projected_identity_overlay g ov = Inr root"
    using assign by (simp add: ov apply_livemap_projected_identity_overlay_def apply_entries_append)
qed

text \<open>The map after the registration of an identity.\<close>

definition identity_commit_of :: "projected_map \<Rightarrow> live_path \<Rightarrow> js_string \<Rightarrow> map_commit" where
  "identity_commit_of m path q =
     IdentityCommit \<lparr> ic_prev_rev = pm_rev m, ic_rev = pm_rev m + 1, ic_path = path, ic_quid = q \<rparr>"

definition claims :: "commit_origin \<Rightarrow> live_path \<Rightarrow> js_string \<Rightarrow> projected_map \<Rightarrow> projected_map \<Rightarrow> bool" where
  "claims origin path q m m' \<longleftrightarrow> \<not> is_document_mode (pm_mode m) \<and> is_persisted_quid (PStr q) \<and> q \<notin> set (epoch_issued (pm_epoch m)) \<and>
     projected_path_for_quid (pm_overlay m) q = None \<and>
     (\<exists>root ov l. assign_at_path (pm_root m) q path = Inr root \<and>
       register_livemap_projected_identity_at_path (pm_overlay m) q path = Inr ov \<and>
       stage_livemap_identity_epoch (epoch_issued (pm_epoch m)) (livemap_projected_identity_quids (pm_overlay m))
         (livemap_projected_identity_quids ov) = Inr l \<and>
       m' = emit_map_commit (identity_commit_of m path q) origin (m\<lparr> pm_root := root, pm_overlay := ov, pm_rev := pm_rev m + 1,
         pm_epoch := (pm_epoch m)\<lparr> epoch_issued := l \<rparr> \<rparr>))"

lemma claims_ok:
  assumes ok: "projected_ok m" and c: "claims origin path q m m'"
  shows "projected_ok m' \<and> pm_value m' = pm_value m"
proof -
  obtain root ov l where p: "assign_at_path (pm_root m) q path = Inr root"
    "register_livemap_projected_identity_at_path (pm_overlay m) q path = Inr ov"
    "stage_livemap_identity_epoch (epoch_issued (pm_epoch m)) (livemap_projected_identity_quids (pm_overlay m))
       (livemap_projected_identity_quids ov) = Inr l"
    "m' = emit_map_commit (identity_commit_of m path q) origin (m\<lparr> pm_root := root, pm_overlay := ov, pm_rev := pm_rev m + 1,
         pm_epoch := (pm_epoch m)\<lparr> epoch_issued := l \<rparr> \<rparr>)"
    and q: "is_persisted_quid (PStr q)" "projected_path_for_quid (pm_overlay m) q = None"
    using c by (auto simp: claims_def)
  note reg = identity_registered [OF ok q p(1,2)]
  obtain g where "projected_value_to_hson_root (pm_value m) = Inr g" using ok by (auto simp: projected_ok_def)
  moreover have "set l = set (epoch_issued (pm_epoch m)) \<union> fst ` set (po_by_quid ov)" "ledger_ok l"
    using stage_Inr [OF p(3)] by (simp_all add: livemap_projected_identity_quids_def)
  ultimately show ?thesis
    using reg(2,3) ok by (simp add: p(4) emit_map_commit_def projected_ok_def)
qed

lemma apply_identity_cases:
  assumes "apply_projected_identity root ov path q origin lp = (r, lp')"
  obtains (failed) e where "r = Inl e" "lp_map lp' = lp_map lp"
  | (registered) l where "\<not> is_document_mode (pm_mode (lp_map lp))"
      "stage_livemap_identity_epoch (epoch_issued (pm_epoch (lp_map lp)))
         (livemap_projected_identity_quids (pm_overlay (lp_map lp))) (livemap_projected_identity_quids ov) = Inr l"
      "r = Inr (identity_commit_of (lp_map lp) path q)"
      "lp_map lp' = emit_map_commit (identity_commit_of (lp_map lp) path q) origin
         ((lp_map lp)\<lparr> pm_root := root, pm_overlay := ov, pm_rev := pm_rev (lp_map lp) + 1,
           pm_epoch := (pm_epoch (lp_map lp))\<lparr> epoch_issued := l \<rparr> \<rparr>)"
proof -
  let ?m = "lp_map lp"
  have fail: thesis if "apply_projected_identity root ov path q origin lp = (Inl e, lp)" for e
    using that assms failed by simp
  show thesis
  proof (cases "assert_public_mutation_allowed (lp_controller lp)")
    case (Inr u)
    show thesis
    proof (cases "is_document_mode (pm_mode ?m)")
      case False
      show thesis
      proof (cases "stage_livemap_identity_epoch (epoch_issued (pm_epoch ?m))
         (livemap_projected_identity_quids (pm_overlay ?m)) (livemap_projected_identity_quids ov)")
        case l: (Inr l)
        from stage_Inr [OF l] have "epoch_install l (pm_epoch ?m) = Inr ((pm_epoch ?m)\<lparr> epoch_issued := l \<rparr>)"
          by (auto simp: epoch_install_Inr)
        then have "r = Inr (identity_commit_of ?m path q) \<and> lp_map lp' = emit_map_commit (identity_commit_of ?m path q) origin
         (?m\<lparr> pm_root := root, pm_overlay := ov, pm_rev := pm_rev ?m + 1, pm_epoch := (pm_epoch ?m)\<lparr> epoch_issued := l \<rparr> \<rparr>)"
          using assms Inr False l
          by (auto simp: apply_projected_identity_def Let_def identity_commit_of_def accept_map_transition_def
              accept_transition_def prepare_transition_def record_for_def)
        with registered [OF False l] show thesis by simp
      qed (use fail Inr False in \<open>simp add: apply_projected_identity_def Let_def\<close>)
    qed (use fail Inr in \<open>simp add: apply_projected_identity_def Let_def\<close>)
  qed (use fail in \<open>simp add: apply_projected_identity_def Let_def\<close>)
qed

lemma claim_cases:
  assumes "claim_projected_quid path q lp = (r, lp')" and "is_persisted_quid (PStr q)" and "q \<notin> set (epoch_issued (pm_epoch (lp_map lp)))"
    and "projected_path_for_quid (pm_overlay (lp_map lp)) q = None"
  shows "lp_map lp' = lp_map lp \<and> (\<forall>c. r \<noteq> Claimed c) \<or> r = Claimed q \<and> claims Authoritative path q (lp_map lp) (lp_map lp')"
proof -
  let ?m = "lp_map lp"
  show ?thesis
  proof (cases "(case resolve_value_node (pm_root ?m) path of None \<Rightarrow> True | Some n \<Rightarrow> \<not> node_eligible n)")
    case False
    show ?thesis
    proof (cases "rbind (assign_at_path (pm_root ?m) q path) (\<lambda>root.
            rbind (register_livemap_projected_identity_at_path (pm_overlay ?m) q path) (\<lambda>ov. Inr (root, ov)))")
      case (Inr a)
      obtain root ov where a: "a = (root, ov)" by force
      obtain r1 lp1 where run: "apply_projected_identity root ov path q Authoritative lp = (r1, lp1)" by force
      show ?thesis
      proof (cases rule: apply_identity_cases [OF run])
        case (1 e)
        then show ?thesis using assms(1) False Inr a run by (auto simp: claim_projected_quid_def Let_def split: if_splits)
      next
        case (2 l)
        then show ?thesis
          using assms False Inr a run by (auto simp: claim_projected_quid_def Let_def claims_def rbind_Inr_iff)
      qed
    qed (use assms(1) False in \<open>auto simp: claim_projected_quid_def Let_def split: if_splits\<close>)
  qed (use assms(1) in \<open>auto simp: claim_projected_quid_def Let_def split: if_splits\<close>)
qed

lemma allocate_cases:
  "allocate_from path qs lp = (r, lp') \<Longrightarrow>
     lp_map lp' = lp_map lp \<and> (\<forall>q. r \<noteq> Inr q) \<or>
     (\<exists>q \<in> set qs. r = Inr q \<and> claims Authoritative path q (lp_map lp) (lp_map lp'))"
proof (induction qs arbitrary: lp)
  case (Cons q qs)
  show ?case
  proof (cases "\<not> is_persisted_quid (PStr q) \<or> q \<in> set (epoch_issued (pm_epoch (lp_map lp))) \<or>
         projected_path_for_quid (pm_overlay (lp_map lp)) q \<noteq> None")
    case True
    with Cons.prems have "allocate_from path qs lp = (r, lp')" by simp
    from Cons.IH [OF this] show ?thesis by auto
  next
    case False
    obtain r1 lp1 where run: "claim_projected_quid path q lp = (r1, lp1)" by force
    note c = claim_cases [OF run]
    show ?thesis
    proof (cases r1)
      case ClaimedElsewhere
      with Cons.prems False run have "allocate_from path qs lp1 = (r, lp')" by simp
      from Cons.IH [OF this] c False ClaimedElsewhere show ?thesis by auto
    qed (use Cons.prems False run c in auto)
  qed
qed auto

lemma acquire_cases:
  assumes "acquire_projected_identity path candidates lp = (r, lp')"
  obtains (same) "lp_map lp' = lp_map lp"
  | (claimed) q where "q \<in> set candidates" "r = Inr q" "claims Authoritative path q (lp_map lp) (lp_map lp')"
proof (cases "current_claim (lp_map lp) path")
  case (Inr existing)
  show ?thesis
  proof (cases existing)
    case None
    with assms Inr have "allocate_from path (take LIVEMAP_QUID_MINT_RETRY_LIMIT candidates) lp = (r, lp')"
      by (simp add: acquire_projected_identity_def)
    from allocate_cases [OF this] same claimed show ?thesis by (auto dest: in_set_takeD)
  qed (use assms Inr same in \<open>simp add: acquire_projected_identity_def\<close>)
qed (use assms same in \<open>simp add: acquire_projected_identity_def\<close>)

section \<open>Values that arrive as text\<close>

lemma lift_json_Inr: "lift_json r = Inr a \<longleftrightarrow> r = Inr a"
  by (cases r) (simp_all add: lift_json_def)

lemma parse_number_ok: "parse_number read r = Inr (v, r') \<Longrightarrow> opv_ok v"
  by (auto simp: parse_number_def json_fail_def hsonNumber_def Let_def split: option.splits sum.splits if_splits)

lemma parsed_ok:
  "parse_value read path r = Inr (v, r') \<Longrightarrow> opv_ok v"
  "parse_items read path acc r = Inr (v, r') \<Longrightarrow> opv_ok v"
  "parse_entries read path seen es r = Inr (v, r') \<Longrightarrow> opv_ok v"
proof (induction read path r and read path acc r and read path seen es r arbitrary: v r' and v r' and v r'
    rule: parse_value_parse_items_parse_entries.induct)
  case (1 read path source)
  show ?case
  proof (cases "skip_ws source")
    case Nil
    with 1 show ?thesis by (simp add: parse_value.simps json_fail_def)
  next
    case (Cons u us)
    show ?thesis
    proof (cases "skip_ws us")
      case Nil
      with 1 Cons show ?thesis
        by (auto simp: parse_value.simps json_fail_def rbind_Inr_iff split: if_splits dest: parse_number_ok)
    next
      case (Cons v vs)
      with 1 \<open>skip_ws source = u # us\<close> show ?thesis
        by (auto simp: parse_value.simps json_fail_def rbind_Inr_iff lift_json_Inr res_simps
            split: if_splits dest: parse_number_ok)
    qed
  qed
next
  case (2 read path acc source)
  from "2.prems" obtain x r where x: "parse_value read (item_path path (length acc)) source = Inr (x, r)" and s: "source \<noteq> []"
    by (auto simp: parse_items.simps json_fail_def rbind_Inr_iff split: if_splits)
  show ?case
  proof (cases "skip_ws r")
    case Nil
    with "2.prems" x s show ?thesis by (simp add: parse_items.simps json_fail_def)
  next
    case (Cons u us)
    have "opv_ok v" if "u = 0x2C" "parse_items read path (acc @ [x]) (skip_ws us) = Inr (v, r')"
      using "2.IH"(2) [OF s x refl refl Cons] that by simp
    with "2.prems" x s Cons show ?thesis
      by (auto simp: parse_items.simps json_fail_def rbind_Inr_iff Let_def lift_json_Inr res_simps split: if_splits)
  qed
next
  case (3 read path seen acc source)
  from "3.prems" obtain key r where key: "parse_string_token source = Inr (key, r)" and s: "source \<noteq> []"
    and fresh: "map_of seen key = None"
    by (auto simp: parse_entries.simps json_fail_def rbind_Inr_iff split: if_splits option.splits)
  from "3.prems" key s fresh obtain cs where cs: "skip_ws r = 0x3A # cs"
    by (auto simp: parse_entries.simps json_fail_def split: if_splits list.splits)
  with "3.prems" key s fresh obtain x q where x: "parse_value read (property_path path key) cs = Inr (x, q)"
    by (auto simp: parse_entries.simps json_fail_def rbind_Inr_iff)
  show ?case
  proof (cases "skip_ws q")
    case Nil
    with "3.prems" x s key fresh cs show ?thesis by (simp add: parse_entries.simps json_fail_def)
  next
    case (Cons u us)
    have "opv_ok v" if "u = 0x2C" "parse_entries read path ((key, length source) # seen) (acc @ [(key, x)]) (skip_ws us) = Inr (v, r')"
      using "3.IH"(2) [OF s key refl fresh cs _ x refl refl Cons] that by simp
    with "3.prems" x s key fresh cs Cons show ?thesis
      by (auto simp: parse_entries.simps json_fail_def rbind_Inr_iff Let_def lift_json_Inr res_simps split: if_splits)
  qed
qed

lemma decoded_value_ok: "decode_projected_value_payload read payload = Inr v \<Longrightarrow> opv_ok v"
  by (auto simp: decode_projected_value_payload_def parse_ordered_json_text_def split: sum.splits if_splits dest: parsed_ok(1))

lemma field_ok: "opv_ok (OObj es) \<Longrightarrow> record_value es k = Some v \<Longrightarrow> opv_ok v"
  by (auto simp: record_value_def find_Some_iff) (metis nth_mem snd_conv)

lemma decoded_op_ok:
  assumes "carrier_to_projected_op i c = Inr op" and "opv_ok c"
  shows "write_ok (projected_write_op_from_transport op)"
proof (cases op)
  case (PutData k p prev next')
  from assms(1) obtain es where es: "c = OObj es" by (auto simp: carrier_to_projected_op_def codec_fail_def split: opv.splits)
  from assms(1) es PutData have "decode_put_or_drop i (Some k) es = Inr op"
    by (auto simp: carrier_to_projected_op_def codec_fail_def decode_splice_def decode_rename_def decode_move_def
        decode_put_or_drop_def rbind_Inr_iff split: option.splits opv.splits prim.splits if_splits)
  then have "must_optional i (record_value es (js ''next'')) (js ''next'') = Inr (Some next')"
    using PutData by (auto simp: decode_put_or_drop_def rbind_Inr_iff codec_fail_def split: option.splits if_splits)
  then have "record_value es (js ''next'') = Some (OArr [next'])"
    by (auto simp: must_optional_def codec_fail_def split: option.splits opv.splits list.splits)
  with field_ok assms(2) es have "opv_ok (OArr [next'])" by blast
  then show ?thesis using PutData by (cases k) simp_all
qed (simp_all add: Let_def)

lemma decoded_ops_ok:
  "decode_ops_from i vs = Inr ops \<Longrightarrow> \<forall>v \<in> set vs. opv_ok v \<Longrightarrow> list_all (write_ok \<circ> projected_write_op_from_transport) ops"
  by (induction vs arbitrary: i ops) (auto simp: rbind_Inr_iff decoded_op_ok)

lemma payload_ops_ok:
  assumes "decode_livemap_replay_payload read payload = Inr ops"
  shows "list_all (write_ok \<circ> projected_write_op_from_transport) ops"
proof -
  from assms obtain v where v: "decode_projected_value_payload read payload = Inr v"
    "(case v of OArr vs \<Rightarrow> decode_ops_from 0 vs | _ \<Rightarrow> Inl (CodecError PayloadNotArray None)) = Inr ops"
    by (auto simp: decode_livemap_replay_payload_def rbind_Inr_iff)
  then obtain vs where "v = OArr vs" "decode_ops_from 0 vs = Inr ops" by (cases v) auto
  with decoded_value_ok [OF v(1)] decoded_ops_ok show ?thesis by auto
qed

lemma replayed_writes: "replay_write_ops v ops = Inr ws \<Longrightarrow> ws = map projected_write_op_from_transport ops"
  by (induction ops arbitrary: v ws) (auto simp: rbind_Inr_iff Let_def)

section \<open>What every step keeps\<close>

text \<open>
  Errors after which an installation may have stopped half way: a prepared transition whose
  installation threw, or a replay whose graph edit or epoch did.
\<close>

definition install_threw :: "projected_error option \<Rightarrow> bool" where
  "install_threw e \<longleftrightarrow> (case e of
     Some (PcTransition c) \<Rightarrow> c = TransitionInvalid | Some (PcInstall x) \<Rightarrow> True | Some (PcEpoch x) \<Rightarrow> True | _ \<Rightarrow> False)"

lemma projected_ok_emit [simp]: "projected_ok (emit_map_commit c origin m) \<longleftrightarrow> projected_ok m"
  by (simp add: projected_ok_def emit_map_commit_def)

lemma install_write_done:
  assumes "install_write sw n m = (m', False)"
  obtains r ep where "install_graph sw (pm_root m) = (r, Inr ())" "next_epoch sw (pm_epoch m) = Inr ep"
    "m' = m\<lparr> pm_root := r, pm_value := sw_value sw, pm_rev := n, pm_overlay := sw_overlay sw, pm_epoch := ep \<rparr>"
  using assms by (auto simp: install_write_def Let_def split: prod.splits sum.splits)

lemma planned_install:
  assumes ok: "projected_ok m" and ws: "list_all write_ok ws"
    and p: "plan_write_ops_with_identity (pm_value m) ws (pm_overlay m) = Inr (c, ops)"
    and st: "stage_write ws rr c ops m = Inr sw"
    and g: "install_graph sw (pm_root m) = (r, Inr ())" and e: "next_epoch sw (pm_epoch m) = Inr ep"
  shows "projected_ok (m\<lparr> pm_root := r, pm_value := sw_value sw, pm_rev := n, pm_overlay := sw_overlay sw, pm_epoch := ep \<rparr>)"
proof -
  have v: "opv_ok (pm_value m)" by (rule projected_ok_value [OF ok])
  from planned [OF v ws p] have "planned_ok (pm_value m) ops c" by simp
  from stage_ok [OF ok this st] have "staged_ok m c ops sw" .
  then show ?thesis by (rule installed_ok [OF ok _ _ g e]) (rule planned_bare [OF v ws p])
qed

lemma commit_ops_keeps:
  assumes ok: "projected_ok (lp_map lp)" and ws: "list_all write_ok ws"
    and run: "commit_ops spell ws lp = (r, lp')" and fine: "\<not> install_threw (fst (faulted (r, lp')))"
  shows "projected_ok (lp_map lp')"
  using run
proof (cases rule: commit_ops_cases)
  case (changed c ops sw commit m)
  from changed(6) obtain r1 ep where i: "install_graph sw (pm_root (lp_map lp)) = (r1, Inr ())"
    "next_epoch sw (pm_epoch (lp_map lp)) = Inr ep"
    "m = (lp_map lp)\<lparr> pm_root := r1, pm_value := sw_value sw, pm_rev := pm_rev (lp_map lp) + 1,
       pm_overlay := sw_overlay sw, pm_epoch := ep \<rparr>"
    by (rule install_write_done)
  from planned_install [OF ok ws changed(1,4) i(1,2)] changed(8) i(3) show ?thesis by simp
qed (use ok fine in \<open>simp_all add: install_threw_def faulted_def\<close>)

lemma faulted_simps: "fst (faulted (r, s)) = (case r of Inl e \<Rightarrow> Some e | Inr a \<Rightarrow> None)" "snd (faulted (r, s)) = s"
  by (simp_all add: faulted_def split: sum.split)

lemma faulted_eq: "(e, s) = faulted (r, s') \<Longrightarrow> s = s' \<and> e = fst (faulted (r, s'))"
  by (cases r) (simp_all add: faulted_def)

lemma batch_writes:
  assumes "projected_ok m" and "batch_calls h cs (make_batch_tx (pm_value m)) = (rs, tx)"
  shows "list_all write_ok (tx_ops tx)"
proof -
  have "staged_from (pm_value m) (make_batch_tx (pm_value m))" by (simp add: staged_from_def make_batch_tx_def)
  from batch_calls_staged [OF this assms(2)] show ?thesis by (simp add: staged_from_def)
qed

text \<open>The intents a request commits; acquiring an identity commits none.\<close>

fun request_writes ::
    "(js_string \<Rightarrow> js_number) \<Rightarrow> map_request \<Rightarrow> projected_map \<Rightarrow> projected_error + write_op list" where
  "request_writes read (MapCall h c) m = core_write_ops h c (pm_root m)"
| "request_writes read (MapBatch h cs throws) m =
     (if throws then Inl PcCallback else Inr (tx_ops (snd (batch_calls h cs (make_batch_tx (pm_value m))))))"
| "request_writes read (MapApply input) m =
     rbind (pc_lift PcInput (must_projected_apply read input)) (\<lambda>(prevRev, v).
     rbind (must_expected_rev prevRev (pm_rev m)) (\<lambda>u. Inr [WriteReplace [] v]))"
| "request_writes read (MapAcquire path candidates) m = Inl PcNotProjected"

lemma request_commits:
  assumes ok: "projected_ok (lp_map lp)" and data: "\<forall>path cs. req \<noteq> MapAcquire path cs"
    and run: "run_map_request spell read req lp = (e, lp')"
  obtains (rejected) "lp_map lp' = lp_map lp" "e \<noteq> None"
  | (committed) ws r where "request_writes read req (lp_map lp) = Inr ws" "list_all write_ok ws"
      "commit_ops spell ws lp = (r, lp')" "e = fst (faulted (r, lp'))"
proof (cases req)
  case (MapCall h c)
  then show ?thesis
    using run rejected committed core_write_ok [of h c "pm_root (lp_map lp)"]
    by (cases "core_write_ops h c (pm_root (lp_map lp))")
      (auto simp: core_call_def faulted_def split: prod.splits sum.splits)
next
  case (MapBatch h cs throws)
  obtain rs tx where tx: "batch_calls h cs (make_batch_tx (pm_value (lp_map lp))) = (rs, tx)" by force
  show ?thesis
  proof (cases "assert_public_mutation_allowed (lp_controller lp)")
    case (Inl x)
    with run MapBatch rejected show ?thesis by (auto simp: core_batch_def faulted_def)
  next
    case (Inr u)
    obtain r lp1 where c: "commit_ops spell (tx_ops tx) lp = (r, lp1)" by force
    show ?thesis
    proof (cases throws)
      case True
      with run MapBatch rejected Inr tx show ?thesis by (auto simp: core_batch_def faulted_def projected_ok_root_value [OF ok])
    next
      case False
      with run MapBatch Inr tx c have "(e, lp') = faulted (r, lp1)" by (simp add: core_batch_def projected_ok_root_value [OF ok])
      then have "lp' = lp1 \<and> e = fst (faulted (r, lp1))" by (rule faulted_eq)
      then show ?thesis using committed [OF _ batch_writes [OF ok tx], of r] c MapBatch False tx by simp
    qed
  qed
next
  case (MapApply input)
  show ?thesis
  proof (cases "rbind (pc_lift PcInput (must_projected_apply read input)) (\<lambda>(prevRev, v).
         rbind (must_expected_rev prevRev (pm_rev (lp_map lp))) (\<lambda>u. Inr v))")
    case (Inl x)
    with run MapApply rejected show ?thesis by (auto simp: core_apply_def faulted_def)
  next
    case (Inr v)
    obtain prevRev where a: "must_projected_apply read input = Inr (prevRev, v)"
      "must_expected_rev prevRev (pm_rev (lp_map lp)) = Inr ()"
      using Inr by (auto simp: rbind_Inr_iff)
    have "opv_ok v"
      using a(1) by (auto simp: must_projected_apply_def transport_payload_def rbind_Inr_iff
          split: option.splits if_splits input_field.splits sum.splits dest: decoded_value_ok)
    moreover obtain r lp1 where c: "commit_ops spell [WriteReplace [] v] lp = (r, lp1)" by force
    moreover have "(e, lp') = faulted (r, lp1)" using run MapApply Inr c by (simp add: core_apply_def)
    then have "lp' = lp1 \<and> e = fst (faulted (r, lp1))" by (rule faulted_eq)
    ultimately show ?thesis using committed [of "[WriteReplace [] v]" r] MapApply a by simp
  qed
qed (use data in simp)

lemma request_keeps:
  assumes ok: "projected_ok (lp_map lp)" and run: "run_map_request spell read req lp = (e, lp')" and fine: "\<not> install_threw e"
  shows "projected_ok (lp_map lp')"
proof (cases "\<exists>path cs. req = MapAcquire path cs")
  case True
  then obtain path cs r where "acquire_projected_identity path cs lp = (r, lp')"
    using run by (auto simp: faulted_def split: prod.splits sum.splits)
  then show ?thesis by (cases rule: acquire_cases) (use ok claims_ok in auto)
next
  case False
  show ?thesis
    by (rule request_commits [OF ok _ run]) (use ok fine False commit_ops_keeps in auto)
qed

section \<open>Replays\<close>

lemma apply_replay_cases:
  assumes "apply_replay_ops spell ws m = (r, m')"
  obtains (failed) e where "r = Inl e" "m' = m"
  | (threw) e where "r = Inl e" "install_threw (Some e)"
  | (unchanged) c commit where "plan_write_ops_with_identity (pm_value m) ws (pm_overlay m) = Inr (c, [])"
      "commit_of spell m [] commit" "r = Inr (DataCommit commit)" "m' = emit_map_commit (DataCommit commit) Replay m"
  | (installed) c ops sw root ep where "plan_write_ops_with_identity (pm_value m) ws (pm_overlay m) = Inr (c, ops)" "ops \<noteq> []"
      "must_core_schema_candidate (pm_schema m) c ws = Inr ()"
      "stage_write ws (list_ex replaces_root_write ws) c ops m = Inr sw"
      "install_graph sw (pm_root m) = (root, Inr ())" "next_epoch sw (pm_epoch m) = Inr ep"
      "(case data_commit_for spell (pm_rev m) ops of
          Inl e \<Rightarrow> r = Inl e \<and> m' = m\<lparr> pm_root := root, pm_value := sw_value sw, pm_overlay := sw_overlay sw, pm_epoch := ep, pm_rev := pm_rev m + 1 \<rparr>
        | Inr commit \<Rightarrow> r = Inr (DataCommit commit) \<and> m' = emit_map_commit (DataCommit commit) Replay
            (m\<lparr> pm_root := root, pm_value := sw_value sw, pm_overlay := sw_overlay sw, pm_epoch := ep, pm_rev := pm_rev m + 1 \<rparr>))"
proof (cases "rbind (pc_lift PcPlan (plan_write_ops_with_identity (pm_value m) ws (pm_overlay m))) (\<lambda>(value, ops).
         rbind (must_core_schema_candidate (pm_schema m) value ws) (\<lambda>u. Inr (value, ops)))")
  case (Inl e)
  then show ?thesis using assms failed by (auto simp: apply_replay_ops_def)
next
  case (Inr a)
  obtain c ops where a: "a = (c, ops)" by force
  have p: "plan_write_ops_with_identity (pm_value m) ws (pm_overlay m) = Inr (c, ops)"
    "must_core_schema_candidate (pm_schema m) c ws = Inr ()" using Inr a by (auto simp: rbind_Inr_iff)
  show ?thesis
  proof (cases "ops = []")
    case True
    then show ?thesis
      using assms Inr a p(1) failed unchanged
      by (cases "data_commit_for spell (pm_rev m) []") (auto simp: apply_replay_ops_def commit_of_def)
  next
    case False
    show ?thesis
    proof (cases "stage_write ws (list_ex replaces_root_write ws) c ops m")
      case (Inl e)
      then show ?thesis using assms Inr a False failed by (auto simp: apply_replay_ops_def)
    next
      case sw: (Inr sw)
      obtain root g where g: "install_graph sw (pm_root m) = (root, g)" by force
      show ?thesis
      proof (cases g)
        case (Inl e)
        then show ?thesis
          using assms Inr a False sw g threw [of "PcInstall e"] by (auto simp: apply_replay_ops_def install_replay_def install_threw_def)
      next
        case u: (Inr u)
        show ?thesis
        proof (cases "next_epoch sw (pm_epoch m)")
          case (Inl e)
          then show ?thesis
            using assms Inr a False sw g u threw [of "PcEpoch e"]
            by (auto simp: apply_replay_ops_def install_replay_def install_threw_def Let_def)
        next
          case ep: (Inr ep)
          then show ?thesis
            using assms Inr a sw g u
            by (intro installed [OF p(1) False p(2) sw _ ep, of root])
              (auto simp: apply_replay_ops_def install_replay_def Let_def False split: sum.splits)
        qed
      qed
    qed
  qed
qed

lemma apply_replay_keeps:
  assumes ok: "projected_ok m" and ws: "list_all write_ok ws" and run: "apply_replay_ops spell ws m = (r, m')"
    and fine: "\<not> install_threw (fst (faulted (r, m')))"
  shows "projected_ok m'"
  using run
proof (cases rule: apply_replay_cases)
  case (installed c ops sw root ep)
  from planned_install [OF ok ws installed(1,4,5,6)]
  have "projected_ok (m\<lparr> pm_root := root, pm_value := sw_value sw, pm_overlay := sw_overlay sw, pm_epoch := ep, pm_rev := pm_rev m + 1 \<rparr>)"
    by (simp add: projected_ok_def)
  with installed(7) show ?thesis by (auto split: sum.splits)
qed (use ok fine in \<open>auto simp: faulted_simps\<close>)

lemma replay_data_cases:
  assumes ok: "projected_ok (lp_map lp)" and run: "replay_data spell read input lp = (r, lp')"
  obtains (failed) e where "r = Inl e" "lp' = lp"
  | (replayed) prevRev ops m where "must_livemap_replay read input = Inr (prevRev, ops)" "prevRev = pm_rev (lp_map lp)"
      "replay_write_ops (pm_value (lp_map lp)) ops = Inr (map projected_write_op_from_transport ops)"
      "list_all write_ok (map projected_write_op_from_transport ops)"
      "apply_replay_ops spell (map projected_write_op_from_transport ops) (lp_map lp) = (r, m)"
      "lp' = \<lparr> lp_controller = invalidate_transitions (lp_controller lp), lp_map = m \<rparr>"
proof (cases "assert_public_mutation_allowed (lp_controller lp)")
  case (Inl e)
  then show ?thesis using run failed by (auto simp: replay_data_def Let_def)
next
  case (Inr u)
  let ?input = "rbind (pc_lift PcInput (must_livemap_replay read input)) (\<lambda>(prevRev, ops).
              rbind (must_expected_rev prevRev (pm_rev (lp_map lp))) (\<lambda>u. core_replay_write_ops (pm_root (lp_map lp)) ops))"
  show ?thesis
  proof (cases ?input)
    case (Inl e)
    then show ?thesis using run failed Inr by (auto simp: replay_data_def Let_def)
  next
    case ws: (Inr ws)
    obtain prevRev ops where i: "must_livemap_replay read input = Inr (prevRev, ops)" "prevRev = pm_rev (lp_map lp)"
      "replay_write_ops (pm_value (lp_map lp)) ops = Inr ws"
      using ws by (auto simp: rbind_Inr_iff must_expected_rev_def rguard_Inr_iff core_replay_write_ops_def projected_ok_root_value [OF ok])
    have w: "ws = map projected_write_op_from_transport ops" by (rule replayed_writes [OF i(3)])
    have "list_all (write_ok \<circ> projected_write_op_from_transport) ops"
      using i(1) by (auto simp: must_livemap_replay_def transport_payload_def rbind_Inr_iff
          split: option.splits if_splits input_field.splits sum.splits dest: payload_ops_ok)
    then have "list_all write_ok ws" by (simp add: w list_all_iff)
    moreover obtain m where "apply_replay_ops spell ws (lp_map lp) = (r, m)"
        "lp' = \<lparr> lp_controller = invalidate_transitions (lp_controller lp), lp_map = m \<rparr>"
      using run Inr ws by (auto simp: replay_data_def Let_def split: prod.splits)
    ultimately show ?thesis using replayed [OF i(1,2)] i(3) w by blast
  qed
qed

lemma replay_identity_cases:
  assumes "replay_identity prevRev path quid lp = (r, lp')"
  obtains (failed) e where "r = Inl e" "lp_map lp' = lp_map lp"
  | (claimed) q where "quid = PStr q" "claims Replay path q (lp_map lp) (lp_map lp')"
proof -
  let ?m = "lp_map lp"
  have fail: thesis if "replay_identity prevRev path quid lp = (Inl e, lp)" for e
    using that assms failed by simp
  note unfolds = replay_identity_def Let_def
  show thesis
  proof (cases "assert_public_mutation_allowed (lp_controller lp)")
    case free: (Inr u)
    show thesis
    proof (cases "num_arg_revision prevRev = Some (pm_rev ?m)")
      case rev: True
      show thesis
      proof (cases quid)
        case (PStr q)
        show thesis
        proof (cases "\<exists>endpoint. is_persisted_quid quid \<and> resolve_value_node (pm_root ?m) path = Some endpoint \<and> node_eligible endpoint \<and>
            read_hson_node_quid endpoint = Inr None \<and> projected_path_for_quid (pm_overlay ?m) q = None \<and>
            q \<notin> set (epoch_issued (pm_epoch ?m))")
          case True
          then obtain endpoint where e: "is_persisted_quid quid" "resolve_value_node (pm_root ?m) path = Some endpoint" "node_eligible endpoint"
            "read_hson_node_quid endpoint = Inr None" "projected_path_for_quid (pm_overlay ?m) q = None"
            "q \<notin> set (epoch_issued (pm_epoch ?m))" by blast
          show thesis
          proof (cases "rbind (assign_at_path (pm_root ?m) q path) (\<lambda>root.
                rbind (register_livemap_projected_identity_at_path (pm_overlay ?m) q path) (\<lambda>ov. Inr (root, ov)))")
            case (Inl x)
            with fail show thesis using free rev PStr e by (simp add: unfolds)
          next
            case (Inr a)
            obtain root ov where a: "a = (root, ov)" by force
            have run: "apply_projected_identity root ov path q Replay lp = (r, lp')"
              using assms free rev PStr e Inr a by (simp add: unfolds)
            show thesis
            proof (cases rule: apply_identity_cases [OF run])
              case (1 x)
              then show thesis using failed by simp
            next
              case (2 l)
              then have "claims Replay path q ?m (lp_map lp')"
                using Inr a e PStr by (auto simp: claims_def rbind_Inr_iff)
              then show thesis using claimed PStr by simp
            qed
          qed
        next
          case False
          then have "\<exists>x. replay_identity prevRev path quid lp = (Inl x, lp)"
            using free rev PStr by (auto simp: unfolds split: option.split sum.split)
          then show thesis using fail by blast
        qed
      qed (use fail free rev in \<open>simp_all add: unfolds\<close>)
    qed (use fail free in \<open>simp add: unfolds\<close>)
  qed (use fail in \<open>simp add: unfolds\<close>)
qed

lemma step_keeps:
  assumes ok: "projected_ok (lp_map lp)" and run: "run_map_step spell read st lp = (e, lp')" and fine: "\<not> install_threw e"
  shows "projected_ok (lp_map lp')"
proof (cases st)
  case (MapRequest req)
  with run request_keeps [OF ok _ fine] show ?thesis by simp
next
  case (MapReplay input)
  obtain r lp1 where r: "replay_data spell read input lp = (r, lp1)" by force
  with run MapReplay have e: "lp' = lp1" "e = fst (faulted (r, lp1))" using faulted_eq by (metis run_map_step.simps(2))+
  show ?thesis
  proof (cases rule: replay_data_cases [OF ok r])
    case (2 prevRev ops m)
    from apply_replay_keeps [OF ok 2(4,5)] fine e 2(6) show ?thesis by (simp add: faulted_simps)
  qed (use ok e in simp)
next
  case (MapReplayIdentity prevRev path quid)
  obtain r lp1 where r: "replay_identity prevRev path quid lp = (r, lp1)" by force
  with run MapReplayIdentity have e: "lp' = lp1" using faulted_eq by (metis run_map_step.simps(3))
  show ?thesis by (cases rule: replay_identity_cases [OF r]) (use ok e claims_ok in auto)
next
  case (MapUseSchema schema)
  with run have "lp' = snd (use_projected_schema schema lp)" by (auto simp: faulted_def split: prod.splits sum.splits)
  then show ?thesis using ok by (auto simp: use_projected_schema_def Let_def projected_ok_def split: sum.splits)
qed

lemma steps_keep:
  "run_map_steps spell read sts lp = (es, lp') \<Longrightarrow> projected_ok (lp_map lp) \<Longrightarrow> \<not> list_ex install_threw es \<Longrightarrow> projected_ok (lp_map lp')"
proof (induction sts arbitrary: lp es)
  case (Cons st sts)
  obtain e lp1 es2 lp2 where r: "run_map_step spell read st lp = (e, lp1)" "run_map_steps spell read sts lp1 = (es2, lp2)" by force
  with Cons.prems(1) have e: "es = e # es2" "lp' = lp2" by simp_all
  with step_keeps [OF Cons.prems(2) r(1)] Cons.IH [of lp1 es2] r(2) Cons.prems(3) show ?case by simp
qed simp

text \<open>What a consistent overlay says of an identity.\<close>

lemma consistent_overlay:
  assumes "projected_ok m"
  shows "\<forall>q p. projected_quid_at_path (pm_overlay m) p = Some q \<longleftrightarrow> projected_path_for_quid (pm_overlay m) q = Some p"
    and "\<forall>q p. projected_path_for_quid (pm_overlay m) q = Some p \<longrightarrow>
      q \<in> set (epoch_issued (pm_epoch m)) \<and> (\<exists>u. ordered_projected_value_at (pm_value m) p = Some u \<and> is_container u)"
proof -
  let ?es = "po_by_quid (pm_overlay m)"
  from assms have ov: "pm_overlay m = overlay_of ?es" "entries_ok (pm_value m) ?es" and iss: "fst ` set ?es \<subseteq> set (epoch_issued (pm_epoch m))"
    by (simp_all add: projected_ok_def placed_overlay_def)
  have by_quid: "projected_path_for_quid (pm_overlay m) q = Some p \<longleftrightarrow> (q, p) \<in> set ?es" for q p
    using ov(2) by (simp add: projected_path_for_quid_def entries_ok_def)
  have by_path: "projected_quid_at_path (pm_overlay m) p = Some q \<longleftrightarrow> (q, p) \<in> set ?es" for q p
    using ov map_of_swapped [of ?es p q] by (metis (no_types, lifting) entries_ok_def overlay_of_def projected_overlay.select_convs(2) projected_quid_at_path_def)
  show "\<forall>q p. projected_quid_at_path (pm_overlay m) p = Some q \<longleftrightarrow> projected_path_for_quid (pm_overlay m) q = Some p"
    using by_quid by_path by simp
  show "\<forall>q p. projected_path_for_quid (pm_overlay m) q = Some p \<longrightarrow>
      q \<in> set (epoch_issued (pm_epoch m)) \<and> (\<exists>u. ordered_projected_value_at (pm_value m) p = Some u \<and> is_container u)"
    unfolding by_quid using ov(2) iss by (force simp: entries_ok_def)
qed

end
