(* ===== verification/Projected_Replication.thy ===== *)
theory Projected_Replication
  imports Projected_Core_Laws
begin

text \<open>
  What a projected live map publishes can be replayed: plans replay as the operations they left, a
  replica that shows the same accepts each published commit and then shows the same again.
\<close>

section \<open>A plan replays\<close>






section \<open>Replacing the root\<close>









section \<open>Replicas\<close>

text \<open>
  Two maps that show the same: the same graph, carrier, identities and revision, and epochs of the same
  number with the same ledger. Their owners, controllers, schemas and observers are their own.
\<close>

definition same_map :: "projected_map \<Rightarrow> projected_map \<Rightarrow> bool" where
  "same_map a b \<longleftrightarrow> pm_root b = pm_root a \<and> pm_value b = pm_value a \<and> pm_overlay b = pm_overlay a \<and> pm_rev b = pm_rev a \<and>
     is_document_mode (pm_mode b) = is_document_mode (pm_mode a) \<and>
     epoch_issued (pm_epoch b) = epoch_issued (pm_epoch a) \<and> epoch_current (pm_epoch b) = epoch_current (pm_epoch a)"


lemma same_map_emit [simp]:
  "same_map (emit_map_commit c x a) b \<longleftrightarrow> same_map a b" "same_map a (emit_map_commit c x b) \<longleftrightarrow> same_map a b"
  by (simp_all add: same_map_def emit_map_commit_def)



lemma invalidate_free [simp]: "k_owner (invalidate_transitions k) = k_owner k"
  by (simp add: invalidate_transitions_def next_generation_def)





section \<open>Published commits\<close>

text \<open>The commits a map tells its observers, and what a receiver does with them.\<close>

definition published_commits :: "projected_map \<Rightarrow> projected_map \<Rightarrow> map_commit list" where
  "published_commits m m' = List.map_filter (\<lambda>e. case e of MapCommitEvent c Authoritative \<Rightarrow> Some c | _ \<Rightarrow> None)
     (drop (length (pm_events m)) (pm_events m'))"




lemma published_none [simp]: "published_commits m m = []"
  by (simp add: published_commits_def map_filter_simps)


lemma own_revision_nat: "own_revision fs k = (case map_of fs k of Some (NumberInput x) \<Rightarrow> num_arg_revision x | _ \<Rightarrow> None)"
  by (simp add: own_revision_def)



section \<open>One request and its replay\<close>





section \<open>Runs and their replay\<close>







section \<open>A sample run\<close>

definition sample_entry_root :: "hson_meta option \<Rightarrow> hson_item list \<Rightarrow> hson_node" where
  "sample_entry_root meta items = bare_node ROOT_TAG [ItemNode (HsonNode OBJ_TAG None meta items)]"

definition sample_entry :: hson_item where
  "sample_entry = ItemNode (bare_node (js ''a'') [ItemNode (bare_node OBJ_TAG [ItemNode (bare_node VAL_TAG [ItemPrim PNull])])])"

definition sample_projected_map :: projected_map where
  "sample_projected_map = \<lparr> pm_mode = DataObject, pm_root = sample_entry_root None [sample_entry],
     pm_value = OObj [(js ''a'', OPrim PNull)], pm_overlay = empty_projected_overlay, pm_rev = 0, 
     pm_epoch = \<lparr> epoch_owner = 0, epoch_current = 0, epoch_issued = [] \<rparr>, pm_schema = None, pm_events = [] \<rparr>"

definition sample_projection :: live_projection where
  "sample_projection = \<lparr> lp_controller = new_controller DataObject, lp_map = sample_projected_map \<rparr>"

definition sample_claim :: js_string where "sample_claim = js ''000000001''"

lemma sample_entry_graph: "projected_value_to_hson_root (OObj [(js ''a'', OPrim PNull)]) = Inr (sample_entry_root None [sample_entry])"
  by (simp add: projected_value_to_hson_root_def sample_entry_root_def sample_entry_def
    assert_sound lift_carrier_def assert_projected_object_key_def property_node_def value_node_def HSON_SYS_PREFIX_def projected_value_to_hson_node.simps)

lemma sample_map_consistent: "projected_ok sample_projected_map"
  by (simp add: projected_ok_def sample_projected_map_def sample_entry_graph placed_overlay_def entries_ok_def overlay_of_def empty_projected_overlay_def
   apply_livemap_projected_identity_overlay_def is_document_mode_def)

lemma sample_claim_ok: "is_persisted_quid (PStr sample_claim)"
  by (simp add: sample_claim_def is_persisted_quid_def PERSISTED_QUID_LENGTH_def PERSISTED_QUID_ALPHABET_def js_def)

definition acquired_map :: projected_map where
  "acquired_map = sample_projected_map\<lparr> pm_root := sample_entry_root (Some [(HSON_META_QUID, PStr sample_claim)]) [sample_entry],
     pm_overlay := overlay_of [(sample_claim, [])], pm_rev := 1,
     pm_epoch := \<lparr> epoch_owner = 0, epoch_current = 0, epoch_issued = [sample_claim] \<rparr>,
     pm_events := [MapCommitEvent (identity_commit_of sample_projected_map [] sample_claim) Authoritative] \<rparr>"

lemma sample_endpoint: "resolve_value_node (pm_root sample_projected_map) [] = Some (HsonNode OBJ_TAG None None [sample_entry])"
  by (simp add: sample_projected_map_def resolve_value_node_def sample_entry_root_def unwrap_value_payload_def is_value_node_def is_value_tag_def tag_defs)

lemmas sample_claim_eval = is_projected_container_quid_eligible_def meta_lookup_def assign_hson_node_quid_def assert_hson_node_quid_eligible_def
  quid_eligible_def is_value_tag_def tag_defs sample_entry_def sample_claim_ok ensure_node_meta_def sample_entry_root_def
  is_value_node_def modify_payload_def with_content_def sample_projected_map_def projected_quid_at_path_def projected_path_for_quid_def 
  overlay_of_def add_projected_entry_def starts_with_def HSON_SYS_PREFIX_def is_ordinary_element_node_def

lemma sample_eligible: "node_eligible (HsonNode OBJ_TAG None m [sample_entry])"
  by (simp add: node_eligible_def sample_claim_eval)

lemma sample_unclaimed: "read_hson_node_quid (HsonNode OBJ_TAG None None [sample_entry]) = Inr None"
  by (simp add: read_hson_node_quid_def read_quid_def sample_claim_eval)

lemma sample_assigned: "assign_at_path (pm_root sample_projected_map) sample_claim [] = Inr (sample_entry_root (Some [(HSON_META_QUID, PStr sample_claim)]) [sample_entry])"
  by (simp add: assign_at_path_def sample_endpoint sample_eligible sample_unclaimed) (simp add: sample_claim_eval)

lemma sample_registered: "register_livemap_projected_identity_at_path empty_projected_overlay sample_claim [] = Inr (overlay_of [(sample_claim, [])])"
  by (simp add: register_livemap_projected_identity_at_path_def empty_projected_overlay_def sample_claim_eval)

lemma sample_first_claim: "stage_livemap_identity_epoch [] [] [sample_claim] = Inr [sample_claim]"
  by (simp add: stage_livemap_identity_epoch_def validated_quid_set_def make_livemap_issued_quid_ledger_def sample_claim_ok set_add_def)

lemma sample_identity_applied: "\<exists>k. apply_projected_identity (sample_entry_root (Some [(HSON_META_QUID, PStr sample_claim)]) [sample_entry]) (overlay_of [(sample_claim, [])])
    [] sample_claim Authoritative sample_projection = (Inr (identity_commit_of sample_projected_map [] sample_claim), \<lparr> lp_controller = k, lp_map = acquired_map \<rparr>) \<and> k_owner k = None"
proof -
  have "livemap_projected_identity_quids (pm_overlay sample_projected_map) = []" "epoch_issued (pm_epoch sample_projected_map) = []" "\<not> is_document_mode (pm_mode sample_projected_map)"
    by (simp_all add: sample_projected_map_def empty_projected_overlay_def livemap_projected_identity_quids_def is_document_mode_def)
  moreover have "epoch_install [sample_claim] (pm_epoch sample_projected_map) = Inr \<lparr> epoch_owner = 0, epoch_current = 0, epoch_issued = [sample_claim] \<rparr>"
    by (simp add: epoch_install_Inr sample_projected_map_def)
  ultimately show ?thesis
    by (simp add: apply_projected_identity_def sample_projection_def assert_public_mutation_allowed_def rguard_def sample_first_claim Let_def
      new_controller_def prepare_transition_def accept_map_transition_def accept_transition_def
     record_for_def set_transition_state_def next_generation_def)
     (simp add: sample_projected_map_def epoch_install_Inr acquired_map_def identity_commit_of_def emit_map_commit_def)
qed

lemma sample_acquires: "\<exists>k. run_map_request spell read (MapAcquire [] [sample_claim]) sample_projection = (None, \<lparr> lp_controller = k, lp_map = acquired_map \<rparr>) \<and> k_owner k = None"
proof -
  obtain k where k: "apply_projected_identity (sample_entry_root (Some [(HSON_META_QUID, PStr sample_claim)]) [sample_entry]) (overlay_of [(sample_claim, [])])
    [] sample_claim Authoritative sample_projection = (Inr (identity_commit_of sample_projected_map [] sample_claim), \<lparr> lp_controller = k, lp_map = acquired_map \<rparr>)" "k_owner k = None"
    using sample_identity_applied by blast
  have s: "lp_map sample_projection = sample_projected_map" "pm_overlay sample_projected_map = empty_projected_overlay" "epoch_issued (pm_epoch sample_projected_map) = []"
    by (simp_all add: sample_projection_def sample_projected_map_def)
  have c: "current_claim sample_projected_map [] = Inr None"
    by (simp add: current_claim_def sample_endpoint sample_eligible sample_unclaimed s) (simp add: projected_quid_at_path_def empty_projected_overlay_def)
  have e: "projected_path_for_quid empty_projected_overlay sample_claim = None"
    by (simp add: projected_path_for_quid_def empty_projected_overlay_def)
  show ?thesis
    using k by (simp add: faulted_def acquire_projected_identity_def s c LIVEMAP_QUID_MINT_RETRY_LIMIT_def sample_claim_ok e claim_projected_quid_def Let_def sample_endpoint sample_eligible sample_assigned sample_registered)
qed









section \<open>The projected live map\<close>

text \<open>
  C34: a consistent map stays consistent. Calls, batches, applied inputs and acquired identities, replays
  of data and of identities and an attached schema, in any order and whether they succeed or are refused,
  keep it so that: the owned graph reads back as the carrier, as a whole and at every path without a
  reserved name; the identity shown at a path of the graph is exactly the one the overlay holds for it;
  the two sides of the overlay are inverse; and each identity is issued in the epoch and lies on an object
  or an array of the carrier. Left out are runs in which an installation throws half way.
\<close>

theorem projected_map_stays_consistent:
  assumes "projected_ok (lp_map lp)" and "run_map_steps spell read sts lp = (es, lp')" and "\<not> list_ex install_threw es"
  shows "projected_ok (lp_map lp') \<and> opv_ok (pm_value (lp_map lp')) \<and>
    must_projected_root_value (pm_root (lp_map lp')) = Inr (pm_value (lp_map lp')) \<and>
    (\<forall>path. plain_path path \<longrightarrow>
       read_path (pm_root (lp_map lp')) path = Inr (ordered_projected_value_at (pm_value (lp_map lp')) path)) \<and>
    (\<forall>path. quid_shown (pm_root (lp_map lp')) path = map_option PStr (projected_quid_at_path (pm_overlay (lp_map lp')) path)) \<and>
    (\<forall>q path. projected_quid_at_path (pm_overlay (lp_map lp')) path = Some q \<longleftrightarrow>
       projected_path_for_quid (pm_overlay (lp_map lp')) q = Some path) \<and>
    (\<forall>q path. projected_path_for_quid (pm_overlay (lp_map lp')) q = Some path \<longrightarrow>
       q \<in> set (epoch_issued (pm_epoch (lp_map lp'))) \<and>
       (\<exists>u. ordered_projected_value_at (pm_value (lp_map lp')) path = Some u \<and> is_container u))"
proof -
  have ok: "projected_ok (lp_map lp')" by (rule steps_keep [OF assms(2,1,3)])
  from projected_ok_root [OF ok] have shown: "shows_overlay (pm_root (lp_map lp')) (pm_overlay (lp_map lp'))" .
  note entries = consistent_overlay [OF ok]
  from ok projected_ok_value [OF ok] projected_ok_root_value [OF ok] projected_ok_reads [OF ok] shown entries
  show ?thesis unfolding shows_overlay_def by blast
qed

theorem projected_map_stays_consistent_witness:
  "quid_shown (sample_entry_root (Some [(HSON_META_QUID, PStr sample_claim)]) [sample_entry]) [] = Some (PStr sample_claim) \<and>
    sample_claim \<in> set (epoch_issued (pm_epoch acquired_map))"
proof -
  obtain k where k: "run_map_request spell_bits read_bits (MapAcquire [] [sample_claim]) sample_projection =
      (None, \<lparr> lp_controller = k, lp_map = acquired_map \<rparr>)" using sample_acquires by blast
  then have run: "run_map_steps spell_bits read_bits [MapRequest (MapAcquire [] [sample_claim])] sample_projection =
      ([None], \<lparr> lp_controller = k, lp_map = acquired_map \<rparr>)" by simp
  have "projected_ok (lp_map sample_projection)" using sample_map_consistent by (simp add: sample_projection_def)
  from projected_map_stays_consistent [OF this run]
  have all: "quid_shown (pm_root acquired_map) [] = map_option PStr (projected_quid_at_path (pm_overlay acquired_map) [])"
    "projected_path_for_quid (pm_overlay acquired_map) sample_claim = Some [] \<Longrightarrow> sample_claim \<in> set (epoch_issued (pm_epoch acquired_map))"
    by (simp_all add: install_threw_def)
  then show ?thesis
    by (simp add: acquired_map_def overlay_of_def projected_quid_at_path_def projected_path_for_quid_def)
qed



end
