(* ===== verification/Spec2Isabelle.thy ===== *)
theory Spec2Isabelle
  imports Ordered_Laws Value_Graph Value_Materialization Persisted_Quid Array_Index Invariant_Laws
    Binary_Laws Session_Laws Capture_Laws Transition_Laws Data_Transport Editor_Laws Recovery_Laws
    Projected_Replication
begin

text \<open>
  Verification development for hson-live. Paths below are relative to \<open>src/src\<close>.

  The program keeps structured values in several representations and moves them between them: a
  JavaScript value, an ordered projected value (the immutable carrier the live map edits), a graph
  of HSON nodes (what the transforms, the identities and the invariants are stated on) and
  bytes. The theories follow these representations.

  \<^item> \<open>Prelude\<close>: strings of UTF-16 code units, 64-bit IEEE bit patterns for numbers, the error
    sum with \<open>rbind\<close>, \<open>rguard\<close> and \<open>traverse\<close>, decimal spelling, lists and maps.
  \<^item> \<open>Hson_Core\<close>: \<open>core/constants.ts\<close>, \<open>types.ts\<close>, \<open>factories.ts\<close>, \<open>node-guards.ts\<close>,
    \<open>hson-name.ts\<close>, \<open>hson-number.ts\<close>, \<open>hson-structural-mode.ts\<close>: the node data and its guards.
  \<^item> \<open>Ordered_Value\<close>, \<open>Ordered_Mutation\<close>, \<open>Ordered_Laws\<close>: \<open>core/ordered-projected-value.ts\<close>
    and \<open>core/ordered-projected-value-mutation.ts\<close>: the carrier, its validity check, and set,
    replace, delete, merge, rename, move and splice at a path. \<open>Live_Path\<close> models
    \<open>api/livemap/livemap.path.ts\<close> and declares the interface \<open>path_store\<close> (a store read and
    written through paths), which \<open>Ordered_Mutation\<close> interprets.
  \<^item> \<open>Js_Heap\<close>, \<open>Value_Admission\<close>, \<open>Value_Materialization\<close>: \<open>core/node-storage.ts\<close>,
    \<open>core/projected-value-admission.ts\<close> and \<open>core/projected-value-materialization.ts\<close>. A heap
    is a list of objects with own property descriptors, so shared and cyclic values, accessors
    and proxies that throw are inputs of the model.
  \<^item> \<open>Value_Graph\<close>: \<open>core/projected-value-graph.ts\<close>, the carrier as a node graph and back.
  \<^item> \<open>Persisted_Quid\<close>: \<open>core/hson-node-quid.ts\<close>, the persisted identity of a node: its encoder,
    its lifecycle and the scan of a graph of nodes with shared and cyclic references.
  \<^item> \<open>Hson_Metadata\<close>: \<open>core/hson-metadata.ts\<close> and the validity part of \<open>core/inline-style.ts\<close>.
  \<^item> \<open>Array_Index\<close>: \<open>core/hson-array-indexes.ts\<close>.
  \<^item> \<open>Invariants\<close>, \<open>Invariant_Laws\<close>: \<open>core/assert-invariants.ts\<close>, the walker in both modes, and
    the rule every node of a canonical tree satisfies.
  \<^item> \<open>Canonical_Equal\<close>, \<open>Canonical_Laws\<close>: \<open>core/canonical-hson-equal.ts\<close>, the first difference of
    two node trees.
  \<^item> \<open>Binary_Codec\<close>, \<open>Binary_Laws\<close>: \<open>api/transform/binary/binary-codec.ts\<close>, the writer and the
    bounded reader, and the lemmas that invert the one by the other.
  \<^item> \<open>Ordered_Json\<close>, \<open>Ordered_Json_Laws\<close>: \<open>api/transform/utils/json-utils/ordered-json.ts\<close>, the
    JSON text of a carrier. How a number is spelled and read are arguments; \<open>number_text_law\<close>
    states what the language promises of the two, and a concrete pair satisfies it.
  \<^item> \<open>Public_Attrs\<close>: \<open>core/public-attrs.ts\<close>, \<open>core/public-attr-transitions.ts\<close>.
  \<^item> \<open>Locus_Session\<close>, \<open>Session_Laws\<close>: \<open>api/locus/locus.session.ts\<close>, the session manager with its
    attachments, expiry timers and totals; every operation returns the calls it makes to its
    environment (timers, release of resources, random credentials) as a trace.
  \<^item> \<open>Locus_History\<close>, \<open>History_Laws\<close>: \<open>api/locus/locus.history.ts\<close>, the bounded log of published
    commits, its stream of listeners (locale \<open>commit_feed\<close>, interpreted on the stream of the
    code) and the snapshot content of \<open>locus.graph-content-codec.ts\<close>; the text encoder and the byte
    count of a commit are arguments.
  \<^item> \<open>Locus_Recovery\<close>, \<open>Recovery_Laws\<close>: \<open>api/locus/locus.recovery.ts\<close>, the attempts of the recovery
    coordinator from the plan through the buffered tail to completion or abort.

  A live map owns one root. When the root is a document (an element or a fragment), requests
  address nodes by path and identity and become graph operations:

  \<^item> \<open>Document_Root\<close>, \<open>Document_Path\<close>, \<open>Document_Edit\<close>: \<open>api/livemap/livemap.document.ts\<close> and
    \<open>livemap.document.path.ts\<close>: kinds of root, resolution, and how a content effect transforms a path.
  \<^item> \<open>Document_Identity\<close>, \<open>Identity_Laws\<close>: \<open>livemap.document.identity.ts\<close>, the overlay from paths to
    identities, rebuilt by a scan or reconciled with one effect.
  \<^item> \<open>Live_Commit\<close>, \<open>Document_Target\<close>: the operations of \<open>types/livemap.types.ts\<close> and
    \<open>livemap.document.target.ts\<close>, which admits request and commit targets.
  \<^item> \<open>Node_Update\<close>, \<open>Document_Mutation\<close>, \<open>Mutation_Laws\<close>, \<open>Replay_Laws\<close>:
    \<open>livemap.document.mutation.ts\<close>, the preparation of every graph operation.
  \<^item> \<open>Identity_Epoch\<close>: \<open>livemap.identity-epoch.ts\<close>, the ledger of issued identities.
  \<^item> \<open>Live_Transition\<close>, \<open>Transition_Laws\<close>: \<open>livemap.authority.ts\<close>, the controller through which
    every change of the owned state is prepared and accepted.
  \<^item> \<open>Document_Install\<close>, \<open>Document_Core\<close>, \<open>Document_Core_Laws\<close>, \<open>Capture_Laws\<close>:
    \<open>livemap.document.capture.ts\<close>, \<open>livemap.document.install.ts\<close>, \<open>livemap.document.replay.ts\<close> and the
    document controller of \<open>livemap.core.ts\<close>: mutation, install, restore and replay of a live document.

  When the root is a projected value, public calls become write intents that are planned on the
  carrier and installed in the graph:

  \<^item> \<open>Data_Plan\<close>, \<open>Data_Plan_Laws\<close>: the planner, the batch transaction and the check of a replayed
    operation list (\<open>livemap.core.ts\<close>, \<open>livemap.guard.ts\<close>).
  \<^item> \<open>Live_Editor\<close>, \<open>Editor_Laws\<close>: \<open>livemap.editor.ts\<close>: resolution, reads and edits of the graph, and
    the install of planned operations. A public read makes objects on the heap of \<open>Js_Heap\<close>.
  \<^item> \<open>Data_Transport\<close>: \<open>livemap.transport.ts\<close>, the payload of a commit.
  \<^item> \<open>Projected_Identity\<close>, \<open>Projected_Identity_Laws\<close>: \<open>livemap.projected.identity.ts\<close>, the overlay from
    identities to the paths of objects and arrays, and how it follows the operations.
  \<^item> \<open>Projected_Core\<close>, \<open>Projected_Core_Laws\<close>, \<open>Projected_Replication\<close>: the projected controller of
    \<open>livemap.core.ts\<close> with \<open>livemap.replay.ts\<close>, \<open>livemap.projected.capture.ts\<close> and
    \<open>livemap.projected.identity-handle.ts\<close>: graph, carrier, overlay, revision and epoch, and every
    call, batch, replay, claim, capture and restore that changes them.

  What the lemmas show. \<open>Ordered_Laws\<close>: each operation keeps the carrier valid, does what it says
  at its path, leaves the paths it does not overlap, and is undone by its inverse.
  \<open>Value_Admission\<close> gives the recursion a declarative meaning (\<open>denotes\<close>) and shows it is computed
  exactly. \<open>Value_Graph\<close> and \<open>Value_Materialization\<close> are round trips. \<open>Persisted_Quid\<close> ties the
  32-bit buffer of the encoder to base-32 digits of the 48-bit input, and the work-list scan to
  reachability. \<open>Invariant_Laws\<close> relates the two modes of the walker and characterises
  acceptance by a rule per node. \<open>Canonical_Laws\<close> shows that no difference means equality up to the
  order of keys. \<open>Binary_Codec\<close> bounds whatever the reader accepts. \<open>Session_Laws\<close> holds the
  invariant of the session manager and that a lost epoch stays lost. \<open>Document_Edit\<close> and
  \<open>Identity_Laws\<close> show that a transformed path names the item it named before, so reconciling the
  overlay gives what a full scan gives. \<open>Mutation_Laws\<close> and \<open>Replay_Laws\<close> show that prepared operations
  keep the document canonical and that recorded operations replay; \<open>Document_Core_Laws\<close> lifts this to
  sequences of commits (replicas converge, a retired identity stays retired) and \<open>Capture_Laws\<close> to
  capture and restore. \<open>Data_Plan_Laws\<close> explains each planned operation by the values before and after
  it; \<open>History_Laws\<close> and \<open>Recovery_Laws\<close> show that publication and recovery lose and repeat no commit;
  \<open>Editor_Laws\<close> shows that the delta install of a plan is the rebuild of the graph, and that a public
  read gives new objects that stand for the value of the carrier in the host's key order.
  \<open>Projected_Core_Laws\<close> shows that graph, carrier, overlay and ledger of a projected map stay
  consistent, and \<open>Projected_Replication\<close> that replicas of it converge.

  Termination. No definition uses fuel: the admission recursion decreases the objects of the heap
  that are not being visited, the identity scan the nodes not visited yet, the traversal of an overlay
  the weight of the paths on its stack, the binary reader the
  depth that its limit leaves, the JSON parser the source that is left, and the rest recurse on the
  data. The loop that trims the history is a \<open>while_option\<close>, and it is proved to return. The depth of
  the engine's stack is not bounded.

  Conventions. A thrown error is the left value of a sum. A record of optional fields is an
  association list in own-key order. A number is its bit pattern, so that \<open>Object.is\<close> is
  comparison and \<open>-0\<close> differs from \<open>0\<close>. Frozen objects are HOL values. Indexes and revisions that are
  spelled as numbers stay below \<open>2 ^ 53\<close>. Observers and callbacks return normally and do not call the
  map back; a document schema is the verdict it gives on a candidate. Random bytes, the clock and
  timers are answers of the environment. Node trees of a live map do not share objects.

  Not modelled: the text of error messages; the schema language; handles, proxies, feeds and
  watchers; the locus protocol beyond its sessions, history and recovery; the text parsers and
  serializers of HSON and HTML; the DOM projection (\<open>api/livetree\<close>), the inspection and reflection
  views and the sanitizer, which rest on the browser or on third-party code; the network hosts;
  the diagnostics and test drivers.
\<close>

end
